(* ===== verification/Gpp_Prelude.thy ===== *)
theory Gpp_Prelude
  imports Main "HOL-Library.Word" "HOL-Library.Sublist"
begin

text \<open>
  Shared vocabulary of the development: the byte-string functions of Go's package
  \<^verbatim>\<open>strings\<close> that the framework calls, percent decoding, and generic facts on lists and
  options. A Go string is a list of bytes, so it is a HOL \<open>string\<close>; an index into it is a
  natural number and a search that returns -1 in Go returns \<open>None\<close> here.
\<close>

named_theorems go_string "facts on the byte-string functions"

section \<open>Searching\<close>

fun index_where :: "('a \<Rightarrow> bool) \<Rightarrow> 'a list \<Rightarrow> nat option" where
  "index_where P [] = None"
| "index_where P (x # xs) = (if P x then Some 0 else map_option Suc (index_where P xs))"

definition index_byte :: "string \<Rightarrow> char \<Rightarrow> nat option" where
  "index_byte s c = index_where (\<lambda>x. x = c) s"

lemma index_where_None [go_string]: "index_where P xs = None \<longleftrightarrow> (\<forall>x\<in>set xs. \<not> P x)"
  by (induction xs) auto

lemma index_where_Some [go_string]:
  "index_where P xs = Some i \<longleftrightarrow> i < length xs \<and> P (xs ! i) \<and> (\<forall>j<i. \<not> P (xs ! j))"
proof (induction xs arbitrary: i)
  case Nil
  then show ?case by simp
next
  case (Cons x xs)
  then show ?case by (cases i) (auto simp: All_less_Suc2)
qed

lemma index_where_takeWhile:
  "index_where P xs = Some i \<Longrightarrow>
     take i xs = takeWhile (\<lambda>x. \<not> P x) xs \<and> drop i xs = dropWhile (\<lambda>x. \<not> P x) xs"
  by (induction xs arbitrary: i) (auto split: if_splits)

lemma index_byte_None [go_string]: "index_byte s c = None \<longleftrightarrow> c \<notin> set s"
  by (auto simp: index_byte_def index_where_None)

lemma index_byte_Some [go_string]:
  "index_byte s c = Some i \<longleftrightarrow> i < length s \<and> s ! i = c \<and> (\<forall>j<i. s ! j \<noteq> c)"
  by (auto simp: index_byte_def index_where_Some)

lemma index_byte_takeWhile:
  "index_byte s c = Some i \<Longrightarrow>
     take i s = takeWhile (\<lambda>x. x \<noteq> c) s \<and> drop i s = dropWhile (\<lambda>x. x \<noteq> c) s"
  using index_where_takeWhile [of "\<lambda>x. x = c" s i] by (simp add: index_byte_def)

lemma index_where_snoc:
  "index_where P (s @ [c]) =
     (case index_where P s of Some k \<Rightarrow> Some k | None \<Rightarrow> if P c then Some (length s) else None)"
  by (induction s) (auto split: option.splits)

lemma index_byte_snoc:
  "index_byte (s @ [c]) d =
     (case index_byte s d of Some k \<Rightarrow> Some k | None \<Rightarrow> if c = d then Some (length s) else None)"
  by (simp add: index_byte_def index_where_snoc)

lemma index_byte_distinct:
  "distinct s \<Longrightarrow> j < length s \<Longrightarrow> index_byte s (s ! j) = Some j"
  by (auto simp: index_byte_Some nth_eq_iff_index_eq)

section \<open>Prefixes and suffixes\<close>

definition has_prefix :: "string \<Rightarrow> string \<Rightarrow> bool" where
  "has_prefix s p \<longleftrightarrow> take (length p) s = p"

definition has_suffix :: "string \<Rightarrow> string \<Rightarrow> bool" where
  "has_suffix s p \<longleftrightarrow> length p \<le> length s \<and> drop (length s - length p) s = p"

definition trim_prefix :: "string \<Rightarrow> string \<Rightarrow> string" where
  "trim_prefix s p = (if has_prefix s p then drop (length p) s else s)"

definition trim_suffix :: "string \<Rightarrow> string \<Rightarrow> string" where
  "trim_suffix s p = (if has_suffix s p then take (length s - length p) s else s)"

lemma has_prefix_iff [go_string]: "has_prefix s p \<longleftrightarrow> (\<exists>r. s = p @ r)"
  by (auto simp: has_prefix_def) (metis append_take_drop_id)

lemma has_prefix_append [simp]: "has_prefix (p @ r) p"
  by (simp add: has_prefix_def)

lemma has_prefix_refl [simp]: "has_prefix s s"
  by (simp add: has_prefix_def)

lemma has_prefix_Nil [simp]: "has_prefix s []"
  by (simp add: has_prefix_def)

lemma has_prefix_same_append [simp]: "has_prefix (u @ s) (u @ v) \<longleftrightarrow> has_prefix s v"
  by (auto simp: has_prefix_iff)

lemma has_prefix_Cons [simp]:
  "has_prefix (x # s) (y # p) \<longleftrightarrow> x = y \<and> has_prefix s p"
  by (auto simp: has_prefix_def)

lemma has_prefix_Nil_left [simp]: "has_prefix [] p \<longleftrightarrow> p = []"
  by (auto simp: has_prefix_def)

lemma trim_prefix_append [simp]: "trim_prefix (p @ r) p = r"
  by (simp add: trim_prefix_def)

lemma has_suffix_iff [go_string]: "has_suffix s p \<longleftrightarrow> (\<exists>r. s = r @ p)"
  by (auto simp: has_suffix_def) (metis append_take_drop_id)

section \<open>The longest common prefix\<close>

fun lcp :: "'a list \<Rightarrow> 'a list \<Rightarrow> nat" where
  "lcp (x # xs) (y # ys) = (if x = y then Suc (lcp xs ys) else 0)"
| "lcp _ _ = 0"

lemma lcp_le: "lcp xs ys \<le> length xs \<and> lcp xs ys \<le> length ys"
  by (induction xs ys rule: lcp.induct) auto

lemma lcp_le1 [simp]: "lcp xs ys \<le> length xs"
  using lcp_le by blast

lemma lcp_le2 [simp]: "lcp xs ys \<le> length ys"
  using lcp_le by blast

lemma take_lcp: "take (lcp xs ys) xs = take (lcp xs ys) ys"
  by (induction xs ys rule: lcp.induct) auto

lemma lcp_differ:
  "lcp xs ys < length xs \<Longrightarrow> lcp xs ys < length ys \<Longrightarrow> xs ! lcp xs ys \<noteq> ys ! lcp xs ys"
  by (induction xs ys rule: lcp.induct) (auto split: if_splits)

lemma lcp_Nil [simp]: "lcp xs [] = 0" "lcp [] xs = 0"
  by (cases xs; simp)+

lemma lcp_append [simp]: "lcp (p @ r) p = length p"
  by (induction p) auto

lemma lcp_full: "lcp xs ys = length ys \<Longrightarrow> xs = ys @ drop (length ys) xs"
  by (metis append_take_drop_id take_all_iff order_refl take_lcp)

section \<open>Splitting, joining, trimming and case\<close>

fun split_byte :: "char \<Rightarrow> string \<Rightarrow> string list" where
  "split_byte c [] = [[]]"
| "split_byte c (x # xs) =
     (if x = c then [] # split_byte c xs
      else (case split_byte c xs of [] \<Rightarrow> [[x]] | w # ws \<Rightarrow> (x # w) # ws))"

fun join_with :: "string \<Rightarrow> string list \<Rightarrow> string" where
  "join_with sep [] = []"
| "join_with sep [w] = w"
| "join_with sep (w # v # ws) = w @ sep @ join_with sep (v # ws)"

lemma split_byte_not_Nil [simp]: "split_byte c s \<noteq> []"
  by (induction s) (auto split: list.splits)

lemma join_split_byte: "join_with [c] (split_byte c s) = s"
proof (induction s)
  case Nil
  then show ?case by simp
next
  case (Cons x xs)
  then show ?case
    by (cases "split_byte c xs"; cases "tl (split_byte c xs)") auto
qed

lemma split_byte_parts: "w \<in> set (split_byte c s) \<Longrightarrow> c \<notin> set w"
  by (induction s arbitrary: w) (auto split: if_splits list.splits)

text \<open>ASCII case folding and the ASCII white space \<^verbatim>\<open>strings.TrimSpace\<close> removes.\<close>

definition lower_char :: "char \<Rightarrow> char" where
  "lower_char c = (let n = of_char c :: nat in if 65 \<le> n \<and> n \<le> 90 then char_of (n + 32) else c)"

definition to_lower :: "string \<Rightarrow> string" where
  "to_lower s = List.map lower_char s"

definition is_space :: "char \<Rightarrow> bool" where
  "is_space c \<longleftrightarrow> (let n = of_char c :: nat in n = 32 \<or> (9 \<le> n \<and> n \<le> 13))"

definition trim_space :: "string \<Rightarrow> string" where
  "trim_space s = rev (dropWhile is_space (rev (dropWhile is_space s)))"

fun contains_str :: "string \<Rightarrow> string \<Rightarrow> bool" where
  "contains_str [] p = (p = [])"
| "contains_str (x # xs) p = (has_prefix (x # xs) p \<or> contains_str xs p)"

lemma contains_str_iff [go_string]: "contains_str s p \<longleftrightarrow> (\<exists>a b. s = a @ p @ b)"
proof (induction s)
  case Nil
  then show ?case by auto
next
  case (Cons x xs)
  then show ?case
    by (auto simp: has_prefix_iff Cons_eq_append_conv)
qed

section \<open>UTF-8\<close>

text \<open>\<^verbatim>\<open>utf8.ValidString\<close>: the well-formed byte sequences of RFC 3629.\<close>

definition byte_in :: "char \<Rightarrow> nat \<Rightarrow> nat \<Rightarrow> bool" where
  "byte_in c lo hi \<longleftrightarrow> lo \<le> of_char c \<and> of_char c \<le> hi"

abbreviation utf8_cont :: "char \<Rightarrow> bool" where
  "utf8_cont c \<equiv> byte_in c 128 191"

text \<open>The number of bytes of the code point at the head of a string, if it is well formed.\<close>

definition utf8_head :: "string \<Rightarrow> nat option" where
  "utf8_head s =
     (case s of
        [] \<Rightarrow> None
      | a # r \<Rightarrow>
          if byte_in a 0 127 then Some 1
          else (case r of
              [] \<Rightarrow> None
            | b # r2 \<Rightarrow>
                if byte_in a 194 223 then (if utf8_cont b then Some 2 else None)
                else (case r2 of
                    [] \<Rightarrow> None
                  | c # r3 \<Rightarrow>
                      if byte_in a 224 239 then
                        (if byte_in b (if byte_in a 224 224 then 160 else 128)
                             (if byte_in a 237 237 then 159 else 191) \<and> utf8_cont c
                         then Some 3 else None)
                      else (case r3 of
                          [] \<Rightarrow> None
                        | d # _ \<Rightarrow>
                            if byte_in a 240 244 \<and>
                               byte_in b (if byte_in a 240 240 then 144 else 128)
                                 (if byte_in a 244 244 then 143 else 191) \<and>
                               utf8_cont c \<and> utf8_cont d
                            then Some 4 else None))))"

function utf8_valid :: "string \<Rightarrow> bool" where
  "utf8_valid s =
     (if s = [] then True
      else (case utf8_head s of None \<Rightarrow> False | Some n \<Rightarrow> if n = 0 then False else utf8_valid (drop n s)))"
  by pat_completeness auto
termination
  by (relation "measure length") auto

declare utf8_valid.simps [simp del]

lemma utf8_head_pos: "utf8_head s = Some n \<Longrightarrow> 0 < n \<and> n \<le> length s"
  by (auto simp: utf8_head_def split: list.splits if_splits)

lemma utf8_valid_ascii: "\<forall>c\<in>set s. byte_in c 0 127 \<Longrightarrow> utf8_valid s"
proof (induction s)
  case Nil
  then show ?case by (simp add: utf8_valid.simps)
next
  case (Cons a s)
  then show ?case by (subst utf8_valid.simps) (simp add: utf8_head_def)
qed

section \<open>Percent decoding\<close>

text \<open>\<^verbatim>\<open>url.PathUnescape\<close>: \<open>None\<close> is its error on a malformed escape.\<close>

definition hex_val :: "char \<Rightarrow> nat option" where
  "hex_val c = (let n = of_char c :: nat in
     if 48 \<le> n \<and> n \<le> 57 then Some (n - 48)
     else if 97 \<le> n \<and> n \<le> 102 then Some (n - 87)
     else if 65 \<le> n \<and> n \<le> 70 then Some (n - 55) else None)"

fun path_unescape :: "string \<Rightarrow> string option" where
  "path_unescape [] = Some []"
| "path_unescape (c # cs) =
     (if c = CHR ''%'' then
        (case cs of
           a # b # r \<Rightarrow>
             (case (hex_val a, hex_val b) of
                (Some x, Some y) \<Rightarrow> map_option ((#) (char_of (16 * x + y))) (path_unescape r)
              | _ \<Rightarrow> None)
         | _ \<Rightarrow> None)
      else map_option ((#) c) (path_unescape cs))"

lemma path_unescape_plain: "CHR ''%'' \<notin> set s \<Longrightarrow> path_unescape s = Some s"
  by (induction s) auto

section \<open>Lists and options\<close>

lemma takeWhile_dropWhile_eq:
  "takeWhile P xs = takeWhile P ys \<Longrightarrow> dropWhile P xs = dropWhile P ys \<Longrightarrow> xs = ys"
  by (metis takeWhile_dropWhile_id)

lemma dropWhile_neq_hd: "dropWhile (\<lambda>x. x \<noteq> c) xs = y # ys \<Longrightarrow> y = c"
  using hd_dropWhile [of "\<lambda>x. x \<noteq> c" xs] by auto

lemma nth_update_same_set: "set (xs[i := y]) \<subseteq> insert y (set xs)"
  by (rule set_update_subset_insert)

section \<open>64-bit signed integers\<close>

text \<open>A Go \<open>int64\<close> or \<open>time.Duration\<close> computed by an operation that can leave the range.\<close>

definition wrap64 :: "int \<Rightarrow> int" where
  "wrap64 x = (x + 2 ^ 63) mod 2 ^ 64 - 2 ^ 63"

definition int64 :: "int \<Rightarrow> bool" where
  "int64 x \<longleftrightarrow> - (2 ^ 63) \<le> x \<and> x < 2 ^ 63"

lemma wrap64_id [simp]: "int64 x \<Longrightarrow> wrap64 x = x"
  by (simp add: wrap64_def int64_def)

lemma wrap64_range: "int64 (wrap64 x)"
  by (simp add: wrap64_def int64_def)

lemma le_int_div_iff:
  assumes "0 < (b :: int)"
  shows "a \<le> c div b \<longleftrightarrow> a * b \<le> c"
proof
  assume "a \<le> c div b"
  then have "a * b \<le> c div b * b" using assms by simp
  moreover have "c div b * b + c mod b = c" "0 \<le> c mod b" using assms by simp_all
  ultimately show "a * b \<le> c" by linarith
next
  assume "a * b \<le> c"
  then have "a * b div b \<le> c div b" using assms by (rule zdiv_mono1)
  then show "a \<le> c div b" using assms by simp
qed

end
