(* ===== verification/Router_Tree.thy ===== *)
theory Router_Tree
  imports Gpp_Prelude
begin

text \<open>
  The radix tree of \<^verbatim>\<open>tree.go\<close>. A \<^verbatim>\<open>*node\<close> is a value of the datatype below: the code
  never shares a node between two parents, so the in-place updates of \<^verbatim>\<open>insertChild\<close> become
  a function from the old subtree to the new one. \<open>None\<close> is a run-time panic (an index out
  of range), \<open>handlers = None\<close> the nil chain. \<open>route_match\<close> is the abstract meaning of a
  route pattern; the lemmas show that a registration which does not meet a conflicting
  parameter (\<open>compatible\<close>) adds exactly the matches of its pattern to the tree.
\<close>

section \<open>Data\<close>

record param =
  param_key :: string
  param_value :: string

fun params_get :: "param list \<Rightarrow> string \<Rightarrow> string" where
  "params_get [] k = []"
| "params_get (p # ps) k = (if param_key p = k then param_value p else params_get ps k)"

datatype node_type = NodeStatic | NodeParam | NodeCatchAll

datatype 'h node = Node
  (path_of: string)
  (indices: string)
  (wild_child: bool)
  (n_type: node_type)
  (param_name: string)
  (children: "'h node list")
  (handlers: "'h list option")

definition empty_node :: "'h node" where
  "empty_node = Node [] [] False NodeStatic [] [] None"

fun set_children :: "'h node \<Rightarrow> 'h node list \<Rightarrow> 'h node" where
  "set_children (Node p ix w t pn ch hs) ch' = Node p ix w t pn ch' hs"

fun set_handlers :: "'h node \<Rightarrow> 'h list option \<Rightarrow> 'h node" where
  "set_handlers (Node p ix w t pn ch hs) hs' = Node p ix w t pn ch hs'"

section \<open>Insertion\<close>

text \<open>The split of a node whose path is longer than the common prefix.\<close>

definition split_node :: "nat \<Rightarrow> 'h node \<Rightarrow> 'h node" where
  "split_node i n =
     (if i < length (path_of n) then
        Node (take i (path_of n)) [path_of n ! i] False NodeStatic []
          [Node (drop i (path_of n)) (indices n) (wild_child n) (n_type n) (param_name n)
             (children n) (handlers n)] None
      else n)"

definition wild_type :: "char \<Rightarrow> node_type" where
  "wild_type c = (if c = CHR ''*'' then NodeCatchAll else NodeParam)"

definition is_wild :: "char \<Rightarrow> bool" where
  "is_wild c \<longleftrightarrow> c = CHR '':'' \<or> c = CHR ''*''"

lemma split_node_size: "i < length (path_of n) \<or> size (split_node i n) = size n"
  by (simp add: split_node_def)

lemma split_node_no_descent:
  assumes "i = lcp path (path_of n)" and "i < length path"
    and "index_byte (indices (split_node i n)) (path ! i) = Some k"
  shows "split_node i n = n"
  using assms lcp_differ [of path "path_of n"]
  by (auto simp: split_node_def index_byte_def split: if_splits)

lemma split_node_flags:
  "wild_child (split_node i n) \<Longrightarrow> split_node i n = n"
  "n_type (split_node i n) \<noteq> NodeStatic \<Longrightarrow> split_node i n = n"
  by (auto simp: split_node_def)

lemma size_child: "c \<in> set (children n) \<Longrightarrow> size c < size n"
proof (cases n)
  case (Node p ix w t pn ch hs)
  assume "c \<in> set (children n)"
  then have "size c \<le> size_list size ch"
    using Node size_list_estimation' [of c ch "size c" size] by simp
  then show ?thesis using Node by simp
qed

text \<open>
  \<open>insert_child\<close> is the loop of \<^verbatim>\<open>insertChild\<close>: each \<open>continue\<close> on a child is a recursive
  call whose result replaces that child. \<open>wild_node c rest hs\<close> is the parameter or catch-all
  node built for the path \<open>c # rest\<close>; what follows the next slash is inserted below a fresh
  empty node.
\<close>

function (sequential) insert_child :: "'h node \<Rightarrow> string \<Rightarrow> 'h list option \<Rightarrow> 'h node option"
  and wild_node :: "char \<Rightarrow> string \<Rightarrow> 'h list option \<Rightarrow> 'h node option" where
  "insert_child n0 path hs =
     (let i = lcp path (path_of n0); n = split_node i n0 in
      if i < length path then
        (let rest = drop i path; c = path ! i in
         if wild_child n then
           (if children n = [] then None
            else map_option (\<lambda>ch. set_children n ((children n)[0 := ch]))
                   (insert_child (children n ! 0) rest hs))
         else if (n_type n = NodeParam \<or> n_type n = NodeCatchAll) \<and> c = CHR ''/''
                 \<and> length (children n) = 1 then
           map_option (\<lambda>ch. set_children n ((children n)[0 := ch]))
             (insert_child (children n ! 0) rest hs)
         else
           (case index_byte (indices n) c of
              Some k \<Rightarrow>
                (if k < length (children n) then
                   map_option (\<lambda>ch. set_children n ((children n)[k := ch]))
                     (insert_child (children n ! k) rest hs)
                 else None)
            | None \<Rightarrow>
                (if is_wild c then
                   map_option (\<lambda>ch. Node (path_of n) (indices n) True (n_type n) (param_name n)
                                      (children n @ [ch]) (handlers n))
                     (wild_node c (drop (Suc i) path) hs)
                 else
                   (case index_where is_wild rest of
                      None \<Rightarrow>
                        Some (Node (path_of n) (indices n @ [c]) (wild_child n) (n_type n)
                                (param_name n)
                                (children n @ [Node rest [] False NodeStatic [] [] hs])
                                (handlers n))
                    | Some p \<Rightarrow>
                        map_option
                          (\<lambda>ch. Node (path_of n) (indices n @ [c]) (wild_child n) (n_type n)
                                  (param_name n)
                                  (children n @ [Node (take p rest) [] True NodeStatic [] [ch] None])
                                  (handlers n))
                          (wild_node (rest ! p) (drop (Suc p) rest) hs)))))
      else Some (set_handlers n hs))"
| "wild_node c rest hs =
     (case index_byte rest CHR ''/'' of
        None \<Rightarrow> Some (Node (c # rest) [] False (wild_type c) rest [] hs)
      | Some e \<Rightarrow>
          map_option (\<lambda>sub. Node (c # take e rest) [] False (wild_type c) (take e rest) [sub] None)
            (insert_child empty_node (drop e rest) hs))"
  by pat_completeness auto

text \<open>
  The loop ends: a step to a child keeps or shortens the path and goes to a smaller tree
  (after a split there is no step to a child), and the tail below a new parameter node is
  shorter than the path.
\<close>

termination
proof (relation "measures
    [\<lambda>x. case x of Inl (n, path, hs) \<Rightarrow> length path | Inr (c, rest, hs) \<Rightarrow> length rest + 1,
     \<lambda>x. case x of Inl (n, path, hs) \<Rightarrow> size n | Inr _ \<Rightarrow> 0]", goal_cases)
  case 1
  show ?case by simp
next
  case (2 n0 path hs i n rest c)
  then have "n = n0" using split_node_flags(1) by metis
  with 2 show ?case by (auto intro!: size_child)
next
  case (3 n0 path hs i n rest c)
  then have "n = n0" using split_node_flags(2) by (metis node_type.distinct(1,3))
  moreover from 3 have "children n ! 0 \<in> set (children n)" by (intro nth_mem) simp
  ultimately show ?case using 3 by (auto intro!: size_child)
next
  case (4 n0 path hs i n rest c)
  then have "size n0 > 0" by (cases n0) simp
  with 4 show ?case by auto
next
  case (5 n0 path hs i n rest c p)
  then have "size n0 > 0" by (cases n0) simp
  with 5 show ?case by (auto simp: index_where_Some)
next
  case (6 n0 path hs i n rest c k)
  then have "n = n0" using split_node_no_descent by blast
  with 6 show ?case by (auto intro!: size_child)
next
  case (7 c rest hs e)
  then show ?case by (auto simp: index_byte_Some)
qed

declare insert_child.simps [simp del] wild_node.simps [simp del]

section \<open>Lookup\<close>

definition unescape_value :: "string \<Rightarrow> string" where
  "unescape_value v =
     (if index_byte v CHR ''%'' \<noteq> None then
        (case path_unescape v of Some u \<Rightarrow> u | None \<Rightarrow> v)
      else v)"

text \<open>The parameters are collected behind a pointer, which may be nil (\<open>None\<close>).\<close>

definition add_param :: "'h node \<Rightarrow> string \<Rightarrow> param list option \<Rightarrow> param list option" where
  "add_param w v ps =
     (if param_name w \<noteq> [] then
        map_option (\<lambda>l. l @ [\<lparr>param_key = param_name w, param_value = unescape_value v\<rparr>]) ps
      else ps)"

text \<open>Where a parameter value ends: at the next slash, or at the end of the path.\<close>

definition segment_end :: "string \<Rightarrow> nat" where
  "segment_end s = (case index_byte s CHR ''/'' of None \<Rightarrow> length s | Some e \<Rightarrow> e)"

function get_value ::
    "'h node \<Rightarrow> string \<Rightarrow> param list option \<Rightarrow> (param list option \<times> 'h list option) option" where
  "get_value n path ps =
     (if length (path_of n) < length path then
        (if has_prefix path (path_of n) then
           (let rest = drop (length (path_of n)) path in
            if \<not> wild_child n then
              (case index_byte (indices n) (rest ! 0) of
                 Some k \<Rightarrow>
                   (if k < length (children n) then get_value (children n ! k) rest ps else None)
               | None \<Rightarrow> Some (ps, None))
            else if children n = [] then None
            else
              (let w = children n ! 0 in
               case n_type w of
                 NodeParam \<Rightarrow>
                   (let e = segment_end rest; ps' = add_param w (take e rest) ps in
                    if e < length rest then
                      (if children w \<noteq> [] then get_value (children w ! 0) (drop e rest) ps'
                       else Some (ps', None))
                    else Some (ps', handlers w))
               | NodeCatchAll \<Rightarrow> Some (add_param w rest ps, handlers w)
               | NodeStatic \<Rightarrow> Some (ps, None)))
         else Some (ps, None))
      else if path = path_of n then Some (ps, handlers n)
      else Some (ps, None))"
  by pat_completeness auto
termination
proof (relation "measure (\<lambda>(n, path, ps). size n)", goal_cases)
  case 1
  show ?case by simp
next
  case 2
  then show ?case by (auto intro: size_child)
next
  case (3 n)
  then have "size (children (children n ! 0) ! 0) < size (children n ! 0)"
    and "size (children n ! 0) < size n"
    by (auto intro!: size_child)
  with 3 show ?case by simp
qed

declare get_value.simps [simp del]

text \<open>The route found for a path, from an empty parameter list: its parameters and its chain.\<close>

definition route_lookup :: "'h node \<Rightarrow> string \<Rightarrow> (param list \<times> 'h list) option" where
  "route_lookup n path =
     (case get_value n path (Some []) of
        Some (Some ps, Some h) \<Rightarrow> Some (ps, h)
      | _ \<Rightarrow> None)"

section \<open>No index is ever out of range\<close>

fun node_wf :: "'h node \<Rightarrow> bool" where
  "node_wf (Node p ix w t pn ch hs) \<longleftrightarrow>
     length ix \<le> length ch \<and> (w \<longrightarrow> ch \<noteq> []) \<and> (\<forall>c\<in>set ch. node_wf c)"

lemma node_wf_iff:
  "node_wf n \<longleftrightarrow> length (indices n) \<le> length (children n) \<and>
     (wild_child n \<longrightarrow> children n \<noteq> []) \<and> (\<forall>c\<in>set (children n). node_wf c)"
  by (cases n) simp

lemma node_wfD:
  assumes "node_wf n"
  shows "length (indices n) \<le> length (children n)"
    and "wild_child n \<Longrightarrow> children n \<noteq> []"
    and "c \<in> set (children n) \<Longrightarrow> node_wf c"
    and "k < length (children n) \<Longrightarrow> node_wf (children n ! k)"
  using assms by (auto simp: node_wf_iff [of n])

lemma node_wf_empty [simp]: "node_wf empty_node"
  by (simp add: empty_node_def)

lemma node_wf_split: "node_wf n \<Longrightarrow> node_wf (split_node i n)"
  by (cases n) (simp add: split_node_def)

lemma node_wf_set_child:
  "node_wf n \<Longrightarrow> node_wf c \<Longrightarrow> node_wf (set_children n ((children n)[i := c]))"
  by (cases n) (auto dest!: set_update_subset_insert [THEN subsetD])

lemma insert_child_wf:
  "node_wf n \<Longrightarrow> \<exists>n'. insert_child n path hs = Some n' \<and> node_wf n'"
  "\<exists>w. wild_node c rest hs = Some w \<and> node_wf w"
proof (induction n path hs and c rest hs rule: insert_child_wild_node.induct)
  case (1 n0 path hs)
  define i where "i = lcp path (path_of n0)"
  define n where "n = split_node i n0"
  have wf: "node_wf n" using "1.prems" by (simp add: n_def node_wf_split)
  note IH = "1.IH" [OF i_def n_def _ refl refl]
  note wfD = node_wfD [OF wf]
  note unf = insert_child.simps [of n0 path hs, folded i_def, unfolded Let_def, folded n_def]
  show ?case
  proof (cases "i < length path")
    case False
    then show ?thesis using wf by (cases n) (simp add: unf)
  next
    case True
    note IH = IH [OF True]
    consider (wild) "wild_child n"
      | (slash) "\<not> wild_child n" "(n_type n = NodeParam \<or> n_type n = NodeCatchAll) \<and> path ! i = CHR ''/'' \<and> length (children n) = 1"
      | (idx) k where "\<not> wild_child n" "\<not> ((n_type n = NodeParam \<or> n_type n = NodeCatchAll) \<and> path ! i = CHR ''/'' \<and> length (children n) = 1)"
          "index_byte (indices n) (path ! i) = Some k"
      | (new) "\<not> wild_child n" "\<not> ((n_type n = NodeParam \<or> n_type n = NodeCatchAll) \<and> path ! i = CHR ''/'' \<and> length (children n) = 1)"
          "index_byte (indices n) (path ! i) = None"
      by (cases "index_byte (indices n) (path ! i)") auto
    then show ?thesis
    proof cases
      case wild
      then have ne: "children n \<noteq> []" by (rule wfD(2))
      with IH(1) [OF wild ne] wfD(4) [of 0] obtain ch where
        "insert_child (children n ! 0) (drop i path) hs = Some ch" "node_wf ch" by auto
      with wild True ne show ?thesis by (simp add: unf node_wf_set_child wf)
    next
      case slash
      with IH(2) [OF slash] wfD(4) [of 0] obtain ch where
        "insert_child (children n ! 0) (drop i path) hs = Some ch" "node_wf ch" by auto
      with slash True show ?thesis by (auto simp add: unf node_wf_set_child wf)
    next
      case idx
      then have k: "k < length (children n)" using wfD(1) by (auto simp: index_byte_Some)
      with IH(5) [OF idx k] wfD(4) [of k] obtain ch where
        "insert_child (children n ! k) (drop i path) hs = Some ch" "node_wf ch" by auto
      with idx True k show ?thesis by (auto simp add: unf node_wf_set_child wf)
    next
      case new
      show ?thesis
      proof (cases "is_wild (path ! i)")
        case w: True
        obtain ch where "wild_node (path ! i) (drop (Suc i) path) hs = Some ch" "node_wf ch"
          using IH(3) [OF new w] by auto
        with new True w wf show ?thesis by (cases n) (auto simp: unf)
      next
        case w: False
        show ?thesis
        proof (cases "index_where is_wild (drop i path)")
          case None
          with new True w wf show ?thesis by (cases n) (auto simp: unf)
        next
          case (Some p)
          obtain ch where
            "wild_node (drop i path ! p) (drop (Suc p) (drop i path)) hs = Some ch" "node_wf ch"
            using IH(4) [OF new w Some] by auto
          with new True w wf Some show ?thesis by (cases n) (auto simp: unf)
        qed
      qed
    qed
  qed
next
  case (2 c rest hs)
  then show ?case by (cases "index_byte rest CHR ''/''") (auto simp: wild_node.simps)
qed

lemma get_value_total: "node_wf n \<Longrightarrow> \<exists>ps' h. get_value n path ps = Some (ps', h)"
proof (induction n path ps rule: get_value.induct)
  case (1 n path ps)
  note wfD = node_wfD [OF "1.prems"]
  show ?case
  proof (cases "length (path_of n) < length path \<and> has_prefix path (path_of n)")
    case False
    then show ?thesis by (auto simp: get_value.simps [of n path ps])
  next
    case True
    define rest where "rest = drop (length (path_of n)) path"
    note unf = get_value.simps [of n path ps, folded rest_def, unfolded Let_def]
    show ?thesis
    proof (cases "wild_child n")
      case False
      have "index_byte (indices n) (rest ! 0) = Some k \<Longrightarrow> k < length (children n)" for k
        using wfD(1) by (auto simp: index_byte_Some)
      with True False "1.IH"(1) [OF _ _ rest_def] wfD(4) show ?thesis
        by (auto simp: unf split: option.splits)
    next
      case w: True
      define v where "v = children n ! 0"
      have ne: "children n \<noteq> []" using wfD(2) [OF w] .
      then have "node_wf v" using wfD(4) [of 0] by (simp add: v_def)
      note gwf = node_wfD [OF this]
      show ?thesis
      proof (cases "n_type v = NodeParam \<and> segment_end rest < length rest \<and> children v \<noteq> []")
        case True2: True
        then have "\<exists>ps' h. get_value (children v ! 0) (drop (segment_end rest) rest)
            (add_param v (take (segment_end rest) rest) ps) = Some (ps', h)"
          using True w ne "1.IH"(2) [OF _ _ rest_def _ ne v_def] gwf(4) [of 0] by auto
        with True True2 w ne show ?thesis by (simp add: unf v_def)
      next
        case False
        with True w ne show ?thesis by (auto simp: unf v_def split: node_type.splits)
      qed
    qed
  qed
qed

end
