(* ===== verification/Router_Match.thy ===== *)
theory Router_Match
  imports Router_Tree
begin

text \<open>
  What a route pattern means, and that the tree implements it. \<open>route_match\<close> reads a pattern
  directly: static bytes match themselves, a parameter takes the bytes up to the next slash, a
  catch-all the non-empty rest. \<open>node_ok\<close> is the shape of the trees built from routes that do
  not meet a conflicting parameter, \<open>compatible\<close> the condition under which a registration
  keeps that shape, and \<open>insert_child_match\<close> says that it adds exactly its own matches.
\<close>

section \<open>The meaning of a pattern\<close>

abbreviation segment :: "string \<Rightarrow> string" where
  "segment \<equiv> takeWhile (\<lambda>x. x \<noteq> CHR ''/'')"

abbreviation after_segment :: "string \<Rightarrow> string" where
  "after_segment \<equiv> dropWhile (\<lambda>x. x \<noteq> CHR ''/'')"

definition bind_param :: "string \<Rightarrow> string \<Rightarrow> param list" where
  "bind_param nm v =
     (if nm = [] then [] else [\<lparr>param_key = nm, param_value = unescape_value v\<rparr>])"

function (sequential) route_match :: "string \<Rightarrow> string \<Rightarrow> param list option" where
  "route_match [] path = (if path = [] then Some [] else None)"
| "route_match (c # r) path =
     (if path = [] then None
      else if c = CHR '':'' then
        (let nm = segment r; v = segment path; r' = after_segment r; path' = after_segment path in
         if r' = [] then (if path' = [] then Some (bind_param nm v) else None)
         else if path' = [] then None
         else map_option ((@) (bind_param nm v)) (route_match r' path'))
      else if c = CHR ''*'' then
        (if after_segment r = [] then Some (bind_param r path) else None)
      else if hd path = c then route_match r (tl path)
      else None)"
  by pat_completeness auto
termination
  by (relation "measure (\<lambda>(r, path). length r)") (auto simp: le_imp_less_Suc length_dropWhile_le)

declare route_match.simps [simp del]

lemma route_match_Nil [simp]: "route_match [] path = (if path = [] then Some [] else None)"
  by (simp add: route_match.simps)

lemma route_match_no_path [simp]: "route_match r [] = (if r = [] then Some [] else None)"
  by (cases r) (simp_all add: route_match.simps)

lemma route_match_char [simp]:
  "\<not> is_wild c \<Longrightarrow> route_match (c # r) (d # path) = (if d = c then route_match r path else None)"
  by (auto simp: route_match.simps is_wild_def)

lemma route_match_static:
  "\<forall>c\<in>set p. \<not> is_wild c \<Longrightarrow>
     route_match (p @ r) q = (if has_prefix q p then route_match r (drop (length p) q) else None)"
proof (induction p arbitrary: q)
  case Nil
  then show ?case by simp
next
  case (Cons c p)
  then show ?case by (cases q) auto
qed

lemma route_match_tail_static:
  assumes "\<forall>c\<in>set p. \<not> is_wild c" and "has_prefix r p"
  shows "route_match r q =
    (if has_prefix q p then route_match (drop (length p) r) (drop (length p) q) else None)"
  using route_match_static [OF assms(1)] assms(2) by (auto simp: has_prefix_iff)

section \<open>Lookup without an accumulator\<close>

lemma get_value_append:
  "x = Some q \<Longrightarrow> get_value n path (Some (ps @ q)) =
     map_option (\<lambda>(r, h). (map_option ((@) ps) r, h)) (get_value n path x)"
proof (induction n path x arbitrary: q rule: get_value.induct)
  case (1 n path x)
  have add: "add_param w v (Some (ps @ q)) = map_option ((@) ps) (add_param w v (Some q))" for w v
    by (simp add: add_param_def)
  have addS: "\<exists>q'. add_param w v (Some q) = Some q'" for w v
    by (simp add: add_param_def)
  show ?case
  proof (cases "length (path_of n) < length path \<and> has_prefix path (path_of n)")
    case False
    then show ?thesis using "1.prems" by (auto simp: get_value.simps [of n path])
  next
    case True
    define rest where "rest = drop (length (path_of n)) path"
    note unf = get_value.simps [of n path, folded rest_def, unfolded Let_def]
    show ?thesis
    proof (cases "wild_child n \<and> children n \<noteq> []")
      case False
      with True "1.IH"(1) [OF _ _ rest_def] "1.prems" show ?thesis
        by (auto simp: unf split: option.splits)
    next
      case w: True
      define v where "v = children n ! 0"
      obtain q' where q': "add_param v (take (segment_end rest) rest) (Some q) = Some q'"
        using addS by blast
      show ?thesis
      proof (cases "n_type v = NodeParam \<and> segment_end rest < length rest \<and> children v \<noteq> []")
        case T2: True
        have "get_value (children v ! 0) (drop (segment_end rest) rest) (Some (ps @ q')) =
          map_option (\<lambda>(r, h). (map_option ((@) ps) r, h))
            (get_value (children v ! 0) (drop (segment_end rest) rest) (Some q'))"
          using "1.IH"(2) [OF _ _ rest_def _ _ v_def _ refl refl, of q'] True w T2 q' "1.prems"
          by simp
        with True T2 w q' "1.prems" show ?thesis by (auto simp: unf v_def add)
      next
        case False
        with True w "1.prems" show ?thesis by (auto simp: unf v_def add split: node_type.splits)
      qed
    qed
  qed
qed

lemma get_value_params:
  "get_value n path (Some ps) =
     map_option (\<lambda>(r, h). (map_option ((@) ps) r, h)) (get_value n path (Some []))"
  using get_value_append [OF refl, of n path ps "[]"] by simp

lemma route_lookup_params:
  "(case get_value n path (Some ps) of Some (Some r, Some h) \<Rightarrow> Some (r, h) | _ \<Rightarrow> None) =
     map_option (\<lambda>(r, h). (ps @ r, h)) (route_lookup n path)"
  by (auto simp: get_value_params [of n path ps] route_lookup_def split: option.splits)

text \<open>What the lookup does at the parameter child \<open>w\<close> of a node, on the non-empty rest.\<close>

definition wild_lookup :: "'h node \<Rightarrow> string \<Rightarrow> (param list \<times> 'h list) option" where
  "wild_lookup w q =
     (case n_type w of
        NodeParam \<Rightarrow>
          (if after_segment q = [] then map_option (Pair (bind_param (param_name w) q)) (handlers w)
           else if children w = [] then None
           else map_option (\<lambda>(r, h). (bind_param (param_name w) (segment q) @ r, h))
                  (route_lookup (children w ! 0) (after_segment q)))
      | NodeCatchAll \<Rightarrow> map_option (Pair (bind_param (param_name w) q)) (handlers w)
      | NodeStatic \<Rightarrow> None)"

lemma segment_end_take: "take (segment_end s) s = segment s"
  and segment_end_drop: "drop (segment_end s) s = after_segment s"
  and segment_end_less: "segment_end s < length s \<longleftrightarrow> after_segment s \<noteq> []"
proof -
  have both: "take (segment_end s) s = segment s \<and> drop (segment_end s) s = after_segment s"
  proof (cases "index_byte s CHR ''/''")
    case None
    then have "\<forall>x\<in>set s. x \<noteq> CHR ''/''" by (auto simp: index_byte_None)
    then have "segment s = s" and "after_segment s = []" by simp_all
    then show ?thesis using None by (simp only: segment_end_def option.case) simp
  next
    case (Some e)
    then show ?thesis using index_byte_takeWhile [OF Some] by (simp add: segment_end_def)
  qed
  then show "take (segment_end s) s = segment s" and d: "drop (segment_end s) s = after_segment s"
    by simp_all
  show "segment_end s < length s \<longleftrightarrow> after_segment s \<noteq> []"
    using d by (metis drop_eq_Nil linorder_not_less)
qed

lemma add_param_bind: "add_param w v (Some ps) = Some (ps @ bind_param (param_name w) v)"
  by (simp add: add_param_def bind_param_def)

lemma route_lookup_exact: "route_lookup n (path_of n) = map_option (Pair []) (handlers n)"
  by (auto simp: route_lookup_def get_value.simps [of n] split: option.splits)

lemma route_lookup_mismatch: "\<not> has_prefix q (path_of n) \<Longrightarrow> route_lookup n q = None"
  by (auto simp: route_lookup_def get_value.simps [of n])

lemma route_lookup_index:
  assumes "q \<noteq> []" and "\<not> wild_child n" and "length (indices n) \<le> length (children n)"
  shows "route_lookup n (path_of n @ q) =
    (case index_byte (indices n) (hd q) of Some k \<Rightarrow> route_lookup (children n ! k) q | None \<Rightarrow> None)"
proof (cases "index_byte (indices n) (hd q)")
  case None
  with assms show ?thesis by (simp add: route_lookup_def get_value.simps [of n] hd_conv_nth)
next
  case (Some k)
  then have "k < length (children n)" using assms(3) by (simp add: index_byte_Some)
  with Some assms(1,2) show ?thesis
    by (simp add: route_lookup_def get_value.simps [of n] hd_conv_nth)
qed

lemma get_value_wild:
  assumes "q \<noteq> []" and "wild_child n" and "children n \<noteq> []" and "w = children n ! 0"
  shows "get_value n (path_of n @ q) (Some []) =
    (case n_type w of
       NodeParam \<Rightarrow>
         (if after_segment q \<noteq> [] then
            (if children w \<noteq> [] then
               get_value (children w ! 0) (after_segment q) (Some (bind_param (param_name w) (segment q)))
             else Some (Some (bind_param (param_name w) (segment q)), None))
          else Some (Some (bind_param (param_name w) (segment q)), handlers w))
     | NodeCatchAll \<Rightarrow> Some (Some (bind_param (param_name w) q), handlers w)
     | NodeStatic \<Rightarrow> Some (Some [], None))"
  unfolding assms(4)
  by (subst get_value.simps)
     (simp only: Let_def has_prefix_append if_True drop_append drop_all assms segment_end_take
        segment_end_drop segment_end_less add_param_bind append_Nil length_append simp_thms
        length_greater_0_conv less_add_same_cancel1 order_refl diff_self_eq_0 drop_0 if_False if_not_P)

lemma route_lookup_wild:
  assumes "q \<noteq> []" and "wild_child n" and "children n \<noteq> []"
  shows "route_lookup n (path_of n @ q) = wild_lookup (children n ! 0) q"
proof -
  define w where "w = children n ! 0"
  note unf = route_lookup_def [of n] get_value_wild [OF assms w_def]
  have full: "after_segment q = [] \<Longrightarrow> segment q = q"
    by (metis append_Nil2 takeWhile_dropWhile_id)
  have "route_lookup n (path_of n @ q) = wild_lookup w q"
  proof (cases "n_type w")
    case NodeParam
    show ?thesis
    proof (cases "after_segment q = []")
      case True
      then have "segment q = q" by (rule full)
      with NodeParam True show ?thesis
        by (simp add: unf wild_lookup_def del: dropWhile_eq_Nil_conv takeWhile_eq_all_conv
            split: option.split)
    next
      case False
      with NodeParam show ?thesis
        using route_lookup_params [of "children w ! 0" "after_segment q"
            "bind_param (param_name w) (segment q)"]
        by (simp add: unf wild_lookup_def del: dropWhile_eq_Nil_conv)
    qed
  qed (simp_all add: unf wild_lookup_def split: option.split)
  then show ?thesis by (simp add: w_def)
qed

section \<open>Trees without conflicting parameters\<close>

definition wild_char :: "node_type \<Rightarrow> char" where
  "wild_char t = (if t = NodeCatchAll then CHR ''*'' else CHR '':'')"

definition index_ok :: "char \<Rightarrow> 'h node \<Rightarrow> bool" where
  "index_ok i c \<longleftrightarrow> n_type c = NodeStatic \<and> path_of c \<noteq> [] \<and> hd (path_of c) = i"

fun node_ok :: "'h node \<Rightarrow> bool" where
  "node_ok (Node p ix w t pn ch hs) \<longleftrightarrow>
     (\<forall>c\<in>set ch. node_ok c) \<and>
     (if t = NodeStatic then
        (\<forall>c\<in>set p. \<not> is_wild c) \<and>
        (if w then ix = [] \<and> length ch = 1 \<and> n_type (ch ! 0) \<noteq> NodeStatic
         else distinct ix \<and> list_all2 index_ok ix ch)
      else \<not> w \<and> p = wild_char t # pn \<and> CHR ''/'' \<notin> set pn \<and>
        (if ch = [] then ix = [] else length ch = 1 \<and> n_type (ch ! 0) = NodeStatic))"

function compatible :: "'h node \<Rightarrow> string \<Rightarrow> bool" where
  "compatible n r =
     (if n_type n = NodeStatic then
        (let i = lcp r (path_of n) in
         if i = length r then True
         else if i < length (path_of n) then \<not> is_wild (r ! i)
         else if wild_child n then
           (if children n = [] then False else compatible (children n ! 0) (drop i r))
         else if is_wild (r ! i) then children n = []
         else (case index_byte (indices n) (r ! i) of
                 Some k \<Rightarrow>
                   (if k < length (children n) then compatible (children n ! k) (drop i r) else False)
               | None \<Rightarrow> True))
      else segment r = path_of n \<and>
        (if after_segment r = [] \<or> children n = [] then True
         else compatible (children n ! 0) (after_segment r)))"
  by pat_completeness auto
termination
  by (relation "measure (\<lambda>(n, r). size n)") (auto intro: size_child)

declare compatible.simps [simp del]

definition sub_lookup :: "'h node \<Rightarrow> string \<Rightarrow> (param list \<times> 'h list) option" where
  "sub_lookup n q =
     (if n_type n = NodeStatic then route_lookup n q
      else if q = [] then None else wild_lookup n q)"

text \<open>The table \<open>f\<close> with the matches of the pattern \<open>r\<close> answered by the chain \<open>h\<close>.\<close>

definition with_route ::
    "string \<Rightarrow> 'h list \<Rightarrow> (string \<Rightarrow> (param list \<times> 'h list) option)
      \<Rightarrow> string \<Rightarrow> (param list \<times> 'h list) option" where
  "with_route r h f q = (case route_match r q of Some ps \<Rightarrow> Some (ps, h) | None \<Rightarrow> f q)"

section \<open>Static nodes\<close>

lemma node_ok_empty [simp]: "node_ok empty_node"
  by (simp add: empty_node_def)

lemma compatible_empty [simp]: "compatible empty_node r"
  unfolding empty_node_def by (subst compatible.simps) (simp add: index_byte_def)

lemma route_lookup_empty [simp]: "route_lookup empty_node q = None"
  unfolding route_lookup_def empty_node_def
  by (subst get_value.simps) (simp add: index_byte_def)

lemma node_ok_static:
  assumes "node_ok n" and "n_type n = NodeStatic"
  shows "\<forall>c\<in>set (path_of n). \<not> is_wild c"
    and "wild_child n \<Longrightarrow> indices n = [] \<and> length (children n) = 1 \<and> n_type (children n ! 0) \<noteq> NodeStatic"
    and "\<not> wild_child n \<Longrightarrow> distinct (indices n) \<and> list_all2 index_ok (indices n) (children n)"
    and "k < length (children n) \<Longrightarrow> node_ok (children n ! k)"
  using assms by (cases n; auto)+

lemma route_lookup_static:
  assumes "node_ok n" and "n_type n = NodeStatic"
  shows "route_lookup n q =
    (if q = path_of n then map_option (Pair []) (handlers n)
     else if \<not> has_prefix q (path_of n) then None
     else if wild_child n then wild_lookup (children n ! 0) (drop (length (path_of n)) q)
     else (case index_byte (indices n) (hd (drop (length (path_of n)) q)) of
             Some k \<Rightarrow> route_lookup (children n ! k) (drop (length (path_of n)) q)
           | None \<Rightarrow> None))"
proof (cases "has_prefix q (path_of n) \<and> q \<noteq> path_of n")
  case False
  then show ?thesis
    using route_lookup_exact [of n] route_lookup_mismatch [of q n] by auto
next
  case True
  then obtain r where r: "q = path_of n @ r" "r \<noteq> []" by (auto simp: has_prefix_iff)
  show ?thesis
  proof (cases "wild_child n")
    case w: True
    then have "children n \<noteq> []" using node_ok_static(2) [OF assms] by auto
    with r(2) w route_lookup_wild [of r n] show ?thesis by (simp add: r(1) cong: option.case_cong)
  next
    case w: False
    then have "length (indices n) = length (children n)"
      using node_ok_static(3) [OF assms] by (auto dest: list_all2_lengthD)
    with r(2) w route_lookup_index [of r n] show ?thesis by (simp add: r(1) cong: option.case_cong)
  qed
qed

text \<open>A change below the path of a node is a change of its table below that path.\<close>

lemma with_route_below:
  assumes ok: "node_ok n" "n_type n = NodeStatic" "node_ok n'" "n_type n' = NodeStatic"
    and same: "path_of n' = path_of n"
    and exact: "handlers n' = (if r = [] then Some h else handlers n)"
    and below: "\<And>q. q \<noteq> [] \<Longrightarrow> route_lookup n' (path_of n @ q) =
      with_route r h (\<lambda>q. route_lookup n (path_of n @ q)) q"
  shows "route_lookup n' q = with_route (path_of n @ r) h (route_lookup n) q"
proof -
  note match = route_match_static [OF node_ok_static(1) [OF ok(1,2)], of r q]
  consider "\<not> has_prefix q (path_of n)" | "q = path_of n" | s where "q = path_of n @ s" "s \<noteq> []"
    by (auto simp: has_prefix_iff)
  then show ?thesis
  proof cases
    case 1
    then show ?thesis
      using route_lookup_mismatch [of q n] route_lookup_mismatch [of q n'] same
      by (simp add: with_route_def match)
  next
    case 2
    then show ?thesis
      using route_lookup_exact [of n] route_lookup_exact [of n'] same exact
      by (simp add: with_route_def match [unfolded 2])
  next
    case 3
    then show ?thesis using below [OF 3(2)] by (simp add: with_route_def match [unfolded 3(1)])
  qed
qed

lemma split_node_ok:
  assumes "node_ok n" and "n_type n = NodeStatic"
  shows "node_ok (split_node i n)" and "n_type (split_node i n) = NodeStatic"
    and "path_of (split_node i n) = take i (path_of n)"
    and "route_lookup (split_node i n) q = route_lookup n q"
proof -
  let ?low = "Node (drop i (path_of n)) (indices n) (wild_child n) (n_type n) (param_name n)
     (children n) (handlers n)"
  have low: "node_ok ?low" "n_type ?low = NodeStatic"
    using assms by (cases n; auto dest: in_set_dropD)+
  have "\<forall>c\<in>set (take i (path_of n)). \<not> is_wild c"
    using node_ok_static(1) [OF assms] by (auto dest: in_set_takeD)
  then have "i < length (path_of n) \<Longrightarrow>
      node_ok (Node (take i (path_of n)) [path_of n ! i] False NodeStatic [] [?low] None)"
    using low by (subst node_ok.simps) (simp add: index_ok_def hd_drop_conv_nth del: node_ok.simps)
  then show ok: "node_ok (split_node i n)"
    using assms by (simp only: split_node_def split: if_split) blast
  show st: "n_type (split_node i n) = NodeStatic"
    using assms by (simp add: split_node_def)
  show path: "path_of (split_node i n) = take i (path_of n)"
    by (simp add: split_node_def)
  show "route_lookup (split_node i n) q = route_lookup n q"
  proof (cases "i < length (path_of n)")
    case False
    then show ?thesis by (simp add: split_node_def)
  next
    case True
    have p: "path_of n = take i (path_of n) @ drop i (path_of n)" by simp
    consider "\<not> has_prefix q (take i (path_of n))" | "q = take i (path_of n)"
      | s where "q = take i (path_of n) @ s" "s \<noteq> []"
      by (auto simp: has_prefix_iff)
    then show ?thesis
    proof cases
      case 1
      then have "\<not> has_prefix q (path_of n)" by (auto simp: has_prefix_iff) (metis append_assoc p)
      with 1 path show ?thesis
        using route_lookup_mismatch [of q n] route_lookup_mismatch [of q "split_node i n"] by simp
    next
      case 2
      then have "\<not> has_prefix q (path_of n)" using True by (auto simp: has_prefix_def)
      moreover have "route_lookup (split_node i n) q = None"
        using route_lookup_exact [of "split_node i n"] True 2 path by (simp add: split_node_def)
      ultimately show ?thesis by (simp add: route_lookup_mismatch)
    next
      case 3
      have "route_lookup (split_node i n) q = (if hd s = path_of n ! i then route_lookup ?low s else None)"
        using route_lookup_static [OF ok st, of q] 3 True
        by (simp add: split_node_def index_byte_def)
      moreover have "has_prefix q (path_of n) \<longleftrightarrow> has_prefix s (drop i (path_of n))"
        unfolding 3(1) by (subst (2) p) (rule has_prefix_same_append)
      moreover have "has_prefix s (drop i (path_of n)) \<Longrightarrow> hd s = path_of n ! i"
        using True by (auto simp: has_prefix_iff hd_append hd_drop_conv_nth)
      moreover have "q = path_of n \<longleftrightarrow> s = drop i (path_of n)"
        unfolding 3(1) by (subst (2) p) (rule same_append_eq)
      moreover have "drop (length (path_of n)) q = drop (length (drop i (path_of n))) s"
        using 3 True by (simp add: min_def)
      ultimately show ?thesis
        using route_lookup_static [OF assms, of q] route_lookup_static [OF low, of s]
        by (auto cong: option.case_cong)
    qed
  qed
qed

section \<open>The cases of an insertion\<close>

lemma set_handlers_ok:
  assumes "node_ok n" and "n_type n = NodeStatic"
  shows "node_ok (set_handlers n (Some h))"
    and "route_lookup (set_handlers n (Some h)) q = with_route (path_of n) h (route_lookup n) q"
proof -
  let ?n = "set_handlers n (Some h)"
  have sel: "path_of ?n = path_of n" "n_type ?n = n_type n" "handlers ?n = Some h"
    "wild_child ?n = wild_child n" "indices ?n = indices n" "children ?n = children n"
    by (cases n; simp)+
  show ok: "node_ok ?n" using assms by (cases n) auto
  have "route_lookup ?n q = with_route (path_of n @ []) h (route_lookup n) q"
  proof (rule with_route_below [OF assms ok])
    fix q :: string
    assume "q \<noteq> []"
    then show "route_lookup ?n (path_of n @ q) = with_route [] h (\<lambda>q. route_lookup n (path_of n @ q)) q"
      using route_lookup_static [OF assms] route_lookup_static [OF ok] sel assms(2)
      by (simp add: with_route_def cong: option.case_cong)
  qed (use sel assms in auto)
  then show "route_lookup ?n q = with_route (path_of n) h (route_lookup n) q" by simp
qed

text \<open>A fresh static child for a pattern \<open>r\<close> whose first byte no child has.\<close>

lemma add_static_ok:
  assumes n: "node_ok n" "n_type n = NodeStatic" "\<not> wild_child n"
    and r: "r \<noteq> []" "\<not> is_wild (hd r)" "index_byte (indices n) (hd r) = None"
    and s: "node_ok s" "index_ok (hd r) s" "\<And>q. route_lookup s q = with_route r h (\<lambda>_. None) q"
    and n': "n' = Node (path_of n) (indices n @ [hd r]) (wild_child n) (n_type n) pn (children n @ [s]) (handlers n)"
  shows "node_ok n'" and "route_lookup n' q = with_route (path_of n @ r) h (route_lookup n) q"
proof -
  note st = node_ok_static [OF n(1,2)]
  have len: "length (indices n) = length (children n)"
    using st(3) [OF n(3)] by (auto dest: list_all2_lengthD)
  show ok: "node_ok n'"
    using n s(1,2) r(3) st(3) [OF n(3)] st(1)
    by (cases n) (auto simp: n' list_all2_appendI index_byte_None)
  show "route_lookup n' q = with_route (path_of n @ r) h (route_lookup n) q"
  proof (rule with_route_below [OF n(1,2) ok])
    fix q :: string
    assume q: "q \<noteq> []"
    then obtain d q' where d: "q = d # q'" by (cases q) auto
    obtain c r' where c: "r = c # r'" using r(1) by (cases r) auto
    have new: "route_lookup n' (path_of n @ q) =
      (case index_byte (indices n @ [c]) d of Some k \<Rightarrow> route_lookup ((children n @ [s]) ! k) q | None \<Rightarrow> None)"
      using route_lookup_static [OF ok, of "path_of n @ q"] n d c
      by (simp add: n' cong: option.case_cong)
    have old: "route_lookup n (path_of n @ q) =
      (case index_byte (indices n) d of Some k \<Rightarrow> route_lookup (children n ! k) q | None \<Rightarrow> None)"
      using route_lookup_static [OF n(1,2), of "path_of n @ q"] n d
      by (simp cong: option.case_cong)
    show "route_lookup n' (path_of n @ q) = with_route r h (\<lambda>q. route_lookup n (path_of n @ q)) q"
    proof (cases "d = c")
      case True
      then have "index_byte (indices n @ [c]) d = Some (length (indices n))"
        using r(3) c by (auto simp: index_byte_Some index_byte_None nth_append)
      with new old True r(3) c len show ?thesis
        by (simp add: s(3) with_route_def cong: option.case_cong)
    next
      case False
      then have "index_byte (indices n @ [c]) d = index_byte (indices n) d"
        by (simp add: index_byte_snoc split: option.split)
      moreover have "index_byte (indices n) d = Some k \<Longrightarrow> (children n @ [s]) ! k = children n ! k" for k
        using len by (simp add: index_byte_Some nth_append)
      ultimately show ?thesis
        using new old False r(2) c d by (auto simp: with_route_def split: option.splits)
    qed
  qed (use n r in \<open>auto simp: n'\<close>)
qed

text \<open>A replaced static child.\<close>

lemma set_child_ok:
  assumes n: "node_ok n" "n_type n = NodeStatic" "\<not> wild_child n"
    and r: "r \<noteq> []" "\<not> is_wild (hd r)" "index_byte (indices n) (hd r) = Some k"
    and c: "node_ok c" "index_ok (hd r) c"
      "\<And>q. route_lookup c q = with_route r h (route_lookup (children n ! k)) q"
    and n': "n' = set_children n ((children n)[k := c])"
  shows "node_ok n'" and "route_lookup n' q = with_route (path_of n @ r) h (route_lookup n) q"
proof -
  note st = node_ok_static [OF n(1,2)]
  have all: "list_all2 index_ok (indices n) (children n)" and dist: "distinct (indices n)"
    using st(3) [OF n(3)] by auto
  then have len: "length (indices n) = length (children n)" by (auto dest: list_all2_lengthD)
  have k: "k < length (indices n)" "indices n ! k = hd r" using r(3) by (auto simp: index_byte_Some)
  have "list_all2 index_ok (indices n) ((children n)[k := c])"
    using list_all2_update_cong [OF all c(2), of k] k by (metis list_update_id)
  then show ok: "node_ok n'"
    using n c(1) st(1) dist unfolding n'
    by (cases n) (auto dest!: set_update_subset_insert [THEN subsetD])
  have sel: "path_of n' = path_of n" "n_type n' = n_type n" "handlers n' = handlers n"
    "wild_child n' = wild_child n" "indices n' = indices n" "children n' = (children n)[k := c]"
    unfolding n' by (cases n; simp)+
  show "route_lookup n' q = with_route (path_of n @ r) h (route_lookup n) q"
  proof (rule with_route_below [OF n(1,2) ok])
    fix q :: string
    assume q: "q \<noteq> []"
    then obtain d q' where d: "q = d # q'" by (cases q) auto
    obtain b r' where b: "r = b # r'" using r(1) by (cases r) auto
    have new: "route_lookup n' (path_of n @ q) =
      (case index_byte (indices n) d of Some j \<Rightarrow> route_lookup ((children n)[k := c] ! j) q | None \<Rightarrow> None)"
      using route_lookup_static [OF ok, of "path_of n @ q"] n d sel
      by (simp cong: option.case_cong)
    have old: "route_lookup n (path_of n @ q) =
      (case index_byte (indices n) d of Some j \<Rightarrow> route_lookup (children n ! j) q | None \<Rightarrow> None)"
      using route_lookup_static [OF n(1,2), of "path_of n @ q"] n d
      by (simp cong: option.case_cong)
    show "route_lookup n' (path_of n @ q) = with_route r h (\<lambda>q. route_lookup n (path_of n @ q)) q"
    proof (cases "d = b")
      case True
      then show ?thesis using new old r(3) b k len
        by (simp add: c(3) with_route_def cong: option.case_cong)
    next
      case False
      then have "index_byte (indices n) d = Some j \<Longrightarrow> j \<noteq> k" for j
        using k b by (auto simp: index_byte_Some)
      with False new old r(2) b d show ?thesis by (auto simp: with_route_def split: option.splits)
    qed
  qed (use n r sel in auto)
qed

text \<open>A new or replaced parameter child.\<close>

lemma set_wild_ok:
  assumes n: "node_ok n" "n_type n = NodeStatic" and r: "r \<noteq> []"
    and w: "node_ok w" "n_type w \<noteq> NodeStatic"
      "\<And>q. q \<noteq> [] \<Longrightarrow> wild_lookup w q = with_route r h (\<lambda>q. route_lookup n (path_of n @ q)) q"
    and n': "n' = Node (path_of n) [] True NodeStatic pn [w] (handlers n)"
  shows "node_ok n'" and "route_lookup n' q = with_route (path_of n @ r) h (route_lookup n) q"
proof -
  show ok: "node_ok n'" using n w(1,2) by (cases n) (auto simp: n')
  show "route_lookup n' q = with_route (path_of n @ r) h (route_lookup n) q"
  proof (rule with_route_below [OF n ok])
    fix q :: string
    assume q: "q \<noteq> []"
    then have "route_lookup n' (path_of n @ q) = wild_lookup w q"
      using route_lookup_wild [of q n'] by (simp add: n')
    with w(3) [OF q]
    show "route_lookup n' (path_of n @ q) = with_route r h (\<lambda>q. route_lookup n (path_of n @ q)) q"
      by simp
  qed (use r in \<open>auto simp: n'\<close>)
qed

lemma bare_static_ok:
  assumes "\<forall>c\<in>set p. \<not> is_wild c"
  shows "node_ok (Node p [] False NodeStatic [] [] hs)"
    and "route_lookup (Node p [] False NodeStatic [] [] hs) q =
      (if q = p then map_option (Pair []) hs else None)"
proof -
  show ok: "node_ok (Node p [] False NodeStatic [] [] hs)" using assms by simp
  show "route_lookup (Node p [] False NodeStatic [] [] hs) q =
      (if q = p then map_option (Pair []) hs else None)"
    using route_lookup_static [OF ok, of q] by (simp add: index_byte_def)
qed

lemma route_match_literal:
  "\<forall>c\<in>set p. \<not> is_wild c \<Longrightarrow> route_match p q = (if q = p then Some [] else None)"
  using route_match_static [of p "[]" q] by (auto simp: has_prefix_iff)

text \<open>The fresh static node made for a pattern that begins with a static byte.\<close>

lemma fresh_static_ok:
  assumes r: "r \<noteq> []" "\<not> is_wild (hd r)" and "index_where is_wild r = None"
    and s: "s = Node r [] False NodeStatic [] [] (Some h)"
  shows "node_ok s" and "index_ok (hd r) s" and "route_lookup s q = with_route r h (\<lambda>_. None) q"
proof -
  have "\<forall>c\<in>set r. \<not> is_wild c" using assms(3) by (simp add: index_where_None)
  with r show "node_ok s" and "index_ok (hd r) s"
    and "route_lookup s q = with_route r h (\<lambda>_. None) q"
    by (auto simp: s bare_static_ok index_ok_def with_route_def route_match_literal)
qed

lemma fresh_static_wild_ok:
  assumes r: "r \<noteq> []" "\<not> is_wild (hd r)" and p: "index_where is_wild r = Some p"
    and w: "node_ok w" "n_type w \<noteq> NodeStatic"
      "\<And>q. q \<noteq> [] \<Longrightarrow> wild_lookup w q = with_route (drop p r) h (\<lambda>_. None) q"
    and s: "s = Node (take p r) [] True NodeStatic [] [w] None"
  shows "node_ok s" and "index_ok (hd r) s" and "route_lookup s q = with_route r h (\<lambda>_. None) q"
proof -
  have p': "p < length r" "is_wild (r ! p)" "\<forall>j<p. \<not> is_wild (r ! j)"
    using p by (auto simp: index_where_Some)
  have "p \<noteq> 0" using p' r by (metis hd_conv_nth)
  have plain: "\<forall>c\<in>set (take p r). \<not> is_wild c"
    using p' by (auto simp: in_set_conv_nth)
  let ?b = "Node (take p r) [] False NodeStatic [] [] (None :: 'a list option)"
  note b = bare_static_ok [OF plain, of "None :: 'a list option"]
  have s': "s = Node (path_of ?b) [] True NodeStatic [] [w] (handlers ?b)" by (simp add: s)
  have ne: "drop p r \<noteq> []" using p' by simp
  have below: "wild_lookup w q = with_route (drop p r) h (\<lambda>q. route_lookup ?b (path_of ?b @ q)) q"
    if "q \<noteq> []" for q
    using w(3) [OF that] that b(2) by (simp add: with_route_def)
  show "node_ok s" by (rule set_wild_ok(1) [OF b(1) _ ne w(1,2) below s']) simp_all
  have "route_lookup s q = with_route (path_of ?b @ drop p r) h (route_lookup ?b) q"
    by (rule set_wild_ok(2) [OF b(1) _ ne w(1,2) below s']) simp_all
  then show "route_lookup s q = with_route r h (\<lambda>_. None) q"
    using b(2) ne by (auto simp: with_route_def route_match_static [OF plain] split: option.splits)
  show "index_ok (hd r) s"
    using r \<open>p \<noteq> 0\<close> by (cases p; cases r) (auto simp: s index_ok_def)
qed

section \<open>Parameter nodes\<close>

lemma node_ok_wild:
  assumes "node_ok n" and "n_type n \<noteq> NodeStatic"
  shows "path_of n = wild_char (n_type n) # param_name n" and "CHR ''/'' \<notin> set (param_name n)"
    and "\<not> wild_child n" and "children n = [] \<Longrightarrow> indices n = []"
    and "children n \<noteq> [] \<Longrightarrow> children n = [children n ! 0] \<and> n_type (children n ! 0) = NodeStatic \<and> node_ok (children n ! 0)"
  using assms
  by (cases n; auto simp: length_Suc_conv split: if_splits)+

lemma segment_no_slash: "CHR ''/'' \<notin> set s \<Longrightarrow> segment s = s \<and> after_segment s = []"
  by (induction s) auto

lemma segment_append_slash:
  assumes "CHR ''/'' \<notin> set s" and "r = CHR ''/'' # t"
  shows "segment (s @ r) = s" and "after_segment (s @ r) = r"
  using assms by (induction s) auto

text \<open>The matches of a pattern that begins with the parameter of the node.\<close>

lemma route_match_wild:
  assumes w: "node_ok w" "n_type w \<noteq> NodeStatic"
    and r: "segment r = path_of w" and q: "q \<noteq> []"
  shows "route_match r q =
    (if n_type w = NodeParam then
       (if after_segment r = [] then
          (if after_segment q = [] then Some (bind_param (param_name w) q) else None)
        else if after_segment q = [] then None
        else map_option ((@) (bind_param (param_name w) (segment q)))
               (route_match (after_segment r) (after_segment q)))
     else if after_segment r = [] then Some (bind_param (param_name w) q) else None)"
proof -
  note ok = node_ok_wild [OF w]
  have r_eq: "r = wild_char (n_type w) # (param_name w @ after_segment r)"
    using r ok(1) by (metis append_Cons takeWhile_dropWhile_id)
  have seg: "segment (param_name w @ after_segment r) = param_name w"
    and aft: "after_segment (param_name w @ after_segment r) = after_segment r"
    using r ok(1,2) r_eq
    by (cases "after_segment r";
        metis append_Nil2 segment_no_slash segment_append_slash dropWhile_neq_hd)+
  have whole: "after_segment q = [] \<Longrightarrow> segment q = q"
    by (metis append_Nil2 takeWhile_dropWhile_id)
  have nms: "after_segment r = [] \<Longrightarrow> param_name w @ after_segment r = param_name w" by simp
  show ?thesis
    by (subst r_eq, subst route_match.simps, use w(2) q in \<open>cases "n_type w"\<close>)
       (simp_all add: wild_char_def Let_def seg aft whole nms
          del: dropWhile_eq_Nil_conv takeWhile_eq_all_conv split: if_splits)
qed

lemma wild_lookup_ok:
  assumes "node_ok w" and "n_type w \<noteq> NodeStatic"
  shows "wild_lookup w q =
    (if n_type w = NodeParam then
       (if after_segment q = [] then map_option (Pair (bind_param (param_name w) q)) (handlers w)
        else if children w = [] then None
        else map_option (\<lambda>(r, h). (bind_param (param_name w) (segment q) @ r, h))
               (route_lookup (children w ! 0) (after_segment q)))
     else map_option (Pair (bind_param (param_name w) q)) (handlers w))"
  using assms(2) by (cases "n_type w") (simp_all add: wild_lookup_def)

lemma set_wild_handlers_ok:
  assumes w: "node_ok w" "n_type w \<noteq> NodeStatic" and r: "segment r = path_of w" "after_segment r = []"
  shows "node_ok (set_handlers w (Some h))"
    and "q \<noteq> [] \<Longrightarrow> wild_lookup (set_handlers w (Some h)) q = with_route r h (wild_lookup w) q"
proof -
  let ?w = "set_handlers w (Some h)"
  have sel: "n_type ?w = n_type w" "param_name ?w = param_name w" "children ?w = children w"
    "handlers ?w = Some h"
    by (cases w; simp)+
  show ok: "node_ok ?w" using w by (cases w) auto
  assume "q \<noteq> []"
  from route_match_wild [OF w r(1) this] r(2)
  show "wild_lookup ?w q = with_route r h (wild_lookup w) q"
    using wild_lookup_ok [OF w, of q] wild_lookup_ok [OF ok, of q] w(2)
    by (simp add: sel with_route_def del: dropWhile_eq_Nil_conv)
qed

lemma set_wild_child_ok:
  assumes w: "node_ok w" "n_type w \<noteq> NodeStatic"
    and r: "segment r = path_of w" "after_segment r \<noteq> []"
    and c: "node_ok c" "n_type c = NodeStatic"
      "\<And>q. q \<noteq> [] \<Longrightarrow> route_lookup c q = with_route (after_segment r) h
         (\<lambda>q. if children w = [] then None else route_lookup (children w ! 0) q) q"
    and w': "w' = Node (path_of w) ix False (n_type w) (param_name w) [c] (handlers w)"
  shows "node_ok w'"
    and "q \<noteq> [] \<Longrightarrow> wild_lookup w' q = with_route r h (wild_lookup w) q"
proof -
  show ok: "node_ok w'" using w c(1,2) node_ok_wild [OF w] by (cases w) (auto simp: w')
  assume q: "q \<noteq> []"
  from route_match_wild [OF w r(1) q] r(2)
  show "wild_lookup w' q = with_route r h (wild_lookup w) q"
    using wild_lookup_ok [OF w, of q] wild_lookup_ok [OF ok, of q] w(2) c(3) [of "after_segment q"]
    by (auto simp: w' with_route_def simp del: dropWhile_eq_Nil_conv split: option.splits)
qed

section \<open>An insertion adds the matches of its pattern\<close>

definition adds_route :: "'h node \<Rightarrow> string \<Rightarrow> 'h list \<Rightarrow> 'h node \<Rightarrow> bool" where
  "adds_route n r h n' \<longleftrightarrow> node_ok n' \<and> n_type n' = n_type n \<and>
     (path_of n \<noteq> [] \<longrightarrow> r \<noteq> [] \<longrightarrow> hd r = hd (path_of n) \<longrightarrow> index_ok (hd r) n \<longrightarrow> index_ok (hd r) n') \<and>
     (\<forall>q. sub_lookup n' q = with_route r h (sub_lookup n) q)"

lemma sub_lookup_static: "n_type n = NodeStatic \<Longrightarrow> sub_lookup n = route_lookup n"
  by (simp add: sub_lookup_def fun_eq_iff)

lemma sub_lookup_wild: "n_type n \<noteq> NodeStatic \<Longrightarrow> q \<noteq> [] \<Longrightarrow> sub_lookup n q = wild_lookup n q"
  by (simp add: sub_lookup_def)

lemma with_route_cong: "f q = g q \<Longrightarrow> with_route r h f q = with_route r h g q"
  by (simp add: with_route_def split: option.split)

lemma adds_routeD_static:
  assumes "adds_route n r h n'" and "n_type n = NodeStatic"
  shows "node_ok n'" and "n_type n' = NodeStatic"
    and "route_lookup n' q = with_route r h (route_lookup n) q"
proof -
  from assms show "node_ok n'" and ty: "n_type n' = NodeStatic" by (simp_all add: adds_route_def)
  show "route_lookup n' q = with_route r h (route_lookup n) q"
    using assms sub_lookup_static [OF ty] sub_lookup_static [OF assms(2)]
    by (simp add: adds_route_def)
qed

lemma adds_routeD_wild:
  assumes "adds_route n r h n'" and "n_type n \<noteq> NodeStatic"
  shows "node_ok n'" and "n_type n' = n_type n"
    and "q \<noteq> [] \<Longrightarrow> wild_lookup n' q = with_route r h (wild_lookup n) q"
proof -
  from assms show "node_ok n'" and ty: "n_type n' = n_type n" by (simp_all add: adds_route_def)
  assume q: "q \<noteq> []"
  then have "sub_lookup n' q = with_route r h (sub_lookup n) q"
    using assms(1) by (simp add: adds_route_def)
  also have "\<dots> = with_route r h (wild_lookup n) q"
    by (rule with_route_cong) (simp add: sub_lookup_wild assms(2) q)
  finally show "wild_lookup n' q = with_route r h (wild_lookup n) q"
    using assms(2) q ty by (simp add: sub_lookup_wild)
qed

lemma adds_route_staticI:
  assumes "n_type n = NodeStatic" and "node_ok n'" and "n_type n' = NodeStatic"
    and "\<And>q. route_lookup n' q = with_route r h (route_lookup n) q"
    and "path_of n \<noteq> [] \<Longrightarrow> r \<noteq> [] \<Longrightarrow> hd r = hd (path_of n) \<Longrightarrow> path_of n' \<noteq> [] \<and> hd (path_of n') = hd (path_of n)"
  shows "adds_route n r h n'"
  using assms by (auto simp: adds_route_def sub_lookup_static index_ok_def)

lemma adds_route_wildI:
  assumes "n_type n \<noteq> NodeStatic" and "node_ok n'" and "n_type n' = n_type n" and "r \<noteq> []"
    and "\<And>q. q \<noteq> [] \<Longrightarrow> wild_lookup n' q = with_route r h (wild_lookup n) q"
  shows "adds_route n r h n'"
proof -
  have "sub_lookup n' q = with_route r h (sub_lookup n) q" for q
  proof (cases "q = []")
    case True
    then show ?thesis using assms(1,3,4) by (simp add: sub_lookup_def with_route_def)
  next
    case False
    then show ?thesis
      using assms(1,3,5) with_route_cong [of "sub_lookup n" q "wild_lookup n" r h]
      by (simp add: sub_lookup_wild)
  qed
  then show ?thesis using assms(1-3) by (auto simp: adds_route_def index_ok_def)
qed

lemma set_children_single:
  "children n = [c] \<Longrightarrow> set_children n ((children n)[0 := d]) =
     Node (path_of n) (indices n) (wild_child n) (n_type n) (param_name n) [d] (handlers n)"
  by (cases n) simp

lemma fresh_wild_ok:
  assumes "is_wild c" and "CHR ''/'' \<notin> set nm"
  shows "node_ok (Node (c # nm) [] False (wild_type c) nm [] (None :: 'h list option))"
    and "n_type (Node (c # nm) [] False (wild_type c) nm [] (None :: 'h list option)) \<noteq> NodeStatic"
    and "wild_lookup (Node (c # nm) [] False (wild_type c) nm [] (None :: 'h list option)) q = None"
  using assms by (auto simp: wild_type_def wild_char_def is_wild_def wild_lookup_def)

lemma wild_type_not_static: "wild_type c \<noteq> NodeStatic"
  by (simp add: wild_type_def)

text \<open>The parameter node made for \<open>c # rest\<close>, given what the insertion below it does.\<close>

lemma wild_node_adds:
  assumes c: "is_wild c"
    and sub: "\<And>e. index_byte rest CHR ''/'' = Some e \<Longrightarrow>
      \<exists>n'. insert_child empty_node (drop e rest) (Some h) = Some n' \<and>
        adds_route empty_node (drop e rest) h n'"
  shows "\<exists>w. wild_node c rest (Some (h :: 'a list)) = Some w \<and> node_ok w \<and> n_type w \<noteq> NodeStatic \<and>
     (\<forall>q. q \<noteq> [] \<longrightarrow> wild_lookup w q = with_route (c # rest) h (\<lambda>_. None) q)"
proof (cases "index_byte rest CHR ''/''")
  case None
  then have ns: "CHR ''/'' \<notin> set rest" by (simp add: index_byte_None)
  let ?b = "Node (c # rest) [] False (wild_type c) rest [] (None :: 'a list option)"
  have "c \<noteq> CHR ''/''" using c by (auto simp: is_wild_def)
  then have seg: "segment (c # rest) = path_of ?b" "after_segment (c # rest) = []"
    using segment_no_slash [OF ns] by auto
  note b = fresh_wild_ok [OF c ns, where 'h = 'a]
  have "wild_node c rest (Some h) = Some (set_handlers ?b (Some h))"
    using None by (simp add: wild_node.simps)
  then show ?thesis
    using set_wild_handlers_ok(1) [OF b(1,2) seg, of h] set_wild_handlers_ok(2) [OF b(1,2) seg, of _ h] b(2,3)
    by (simp add: with_route_def cong: option.case_cong)
next
  case (Some e)
  define nm where "nm = take e rest"
  define r' where "r' = drop e rest"
  have ns: "CHR ''/'' \<notin> set nm" and r': "r' = CHR ''/'' # drop (Suc e) rest"
    using Some Cons_nth_drop_Suc [of e rest]
    by (auto simp: index_byte_Some nm_def r'_def in_set_conv_nth)
  have rest: "rest = nm @ r'" by (simp add: nm_def r'_def)
  let ?b = "Node (c # nm) [] False (wild_type c) nm [] (None :: 'a list option)"
  have "c \<noteq> CHR ''/''" using c by (auto simp: is_wild_def)
  then have seg: "segment (c # rest) = path_of ?b" "after_segment (c # rest) = r'"
    using segment_append_slash [OF ns r'] by (auto simp: rest)
  note b = fresh_wild_ok [OF c ns, where 'h = 'a]
  obtain sub where sub: "insert_child empty_node r' (Some h) = Some sub" "adds_route empty_node r' h sub"
    using assms(2) [OF Some] by (auto simp: r'_def)
  have st: "n_type empty_node = NodeStatic" by (simp add: empty_node_def)
  note sub' = adds_routeD_static [OF sub(2) st]
  let ?w = "Node (c # nm) [] False (wild_type c) nm [sub] None"
  have w: "wild_node c rest (Some h) = Some ?w"
    using Some sub(1) by (simp add: wild_node.simps nm_def r'_def)
  have ne: "after_segment (c # rest) \<noteq> []" unfolding seg(2) by (simp add: r')
  have below: "route_lookup sub q = with_route (after_segment (c # rest)) h
      (\<lambda>q. if children ?b = [] then None else route_lookup (children ?b ! 0) q) q" for q
    using sub'(3) [of q] unfolding seg(2) by (simp add: with_route_def cong: option.case_cong)
  have w': "?w = Node (path_of ?b) [] False (n_type ?b) (param_name ?b) [sub] (handlers ?b)" by simp
  note this' = set_wild_child_ok [OF b(1,2) seg(1) ne sub'(1,2) below w']
  show ?thesis
    using w this' b(2,3) by (auto simp: with_route_def wild_type_not_static cong: option.case_cong)
qed

text \<open>The branch of the loop that makes a fresh static child.\<close>

lemma fresh_branch:
  assumes r: "r \<noteq> []" "\<not> is_wild (hd r)"
    and wild: "\<And>p. index_where is_wild r = Some p \<Longrightarrow>
      \<exists>w. wild_node (r ! p) (drop (Suc p) r) (Some h) = Some w \<and> node_ok w \<and> n_type w \<noteq> NodeStatic \<and>
        (\<forall>q. q \<noteq> [] \<longrightarrow> wild_lookup w q = with_route (r ! p # drop (Suc p) r) h (\<lambda>_. None) q)"
  shows "\<exists>s. (case index_where is_wild r of
      None \<Rightarrow> Some (build (Node r [] False NodeStatic [] [] (Some h)))
    | Some p \<Rightarrow> map_option (\<lambda>ch. build (Node (take p r) [] True NodeStatic [] [ch] None))
        (wild_node (r ! p) (drop (Suc p) r) (Some h))) = Some (build s) \<and>
    node_ok s \<and> index_ok (hd r) s \<and> (\<forall>q. route_lookup s q = with_route r h (\<lambda>_. None) q)"
proof (cases "index_where is_wild r")
  case None
  then show ?thesis using fresh_static_ok [OF r None refl, of h] by (intro exI) auto
next
  case (Some p)
  then have "r ! p # drop (Suc p) r = drop p r"
    by (simp add: index_where_Some Cons_nth_drop_Suc)
  with wild [OF Some] obtain w where w: "wild_node (r ! p) (drop (Suc p) r) (Some h) = Some w"
    "node_ok w" "n_type w \<noteq> NodeStatic"
    "\<And>q. q \<noteq> [] \<Longrightarrow> wild_lookup w q = with_route (drop p r) h (\<lambda>_. None) q"
    by auto
  from fresh_static_wild_ok [OF r Some w(2-4) refl] Some w(1) show ?thesis
    by (intro exI) auto
qed

text \<open>What one step at a static node \<open>n\<close> does with the rest \<open>r\<close> of the pattern.\<close>

definition grown :: "'h node \<Rightarrow> string \<Rightarrow> 'h list \<Rightarrow> 'h node \<Rightarrow> bool" where
  "grown n r h n' \<longleftrightarrow> node_ok n' \<and> n_type n' = NodeStatic \<and> path_of n' = path_of n \<and>
     (\<forall>q. route_lookup n' q = with_route (path_of n @ r) h (route_lookup n) q)"

lemma grown_handlers:
  assumes "node_ok n" and "n_type n = NodeStatic"
  shows "grown n [] h (set_handlers n (Some h))"
  using set_handlers_ok [OF assms, of h] assms by (cases n) (simp add: grown_def)

lemma grown_wild_child:
  assumes n: "node_ok n" "n_type n = NodeStatic" "wild_child n" and r: "r \<noteq> []"
    and ch: "adds_route (children n ! 0) r h ch"
  shows "grown n r h (set_children n ((children n)[0 := ch]))"
proof -
  note st = node_ok_static(2) [OF n(1,2) n(3)]
  then obtain w where w: "children n = [w]" "n_type w \<noteq> NodeStatic" by (auto simp: length_Suc_conv)
  note ch' = adds_routeD_wild [OF ch, unfolded w(1) nth_Cons_0, OF w(2)]
  have n': "set_children n ((children n)[0 := ch]) =
      Node (path_of n) [] True NodeStatic (param_name n) [ch] (handlers n)"
    using set_children_single [OF w(1), of ch] st n by simp
  have below: "wild_lookup ch q = with_route r h (\<lambda>q. route_lookup n (path_of n @ q)) q" if "q \<noteq> []" for q
    using ch'(3) [OF that] with_route_cong [of "wild_lookup w" q "\<lambda>q. route_lookup n (path_of n @ q)" r h]
      route_lookup_wild [OF that n(3)] w(1) by simp
  have "n_type ch \<noteq> NodeStatic" using ch'(2) w(2) by simp
  from set_wild_ok [OF n(1,2) r ch'(1) this below n'] show ?thesis
    unfolding grown_def n' by simp
qed

lemma grown_param:
  assumes n: "node_ok n" "n_type n = NodeStatic" "\<not> wild_child n" "children n = []" and r: "r \<noteq> []"
    and w: "node_ok w" "n_type w \<noteq> NodeStatic"
      "\<And>q. q \<noteq> [] \<Longrightarrow> wild_lookup w q = with_route r h (\<lambda>_. None) q"
  shows "grown n r h
    (Node (path_of n) (indices n) True (n_type n) (param_name n) (children n @ [w]) (handlers n))"
proof -
  have ix: "indices n = []" using node_ok_static(3) [OF n(1-3)] n(4) by simp
  have none: "route_lookup n (path_of n @ q) = None" if "q \<noteq> []" for q
    using route_lookup_index [OF that n(3)] ix by (simp add: index_byte_def)
  have below: "wild_lookup w q = with_route r h (\<lambda>q. route_lookup n (path_of n @ q)) q" if "q \<noteq> []" for q
    using w(3) [OF that] none [OF that]
      with_route_cong [of "\<lambda>_. None" q "\<lambda>q. route_lookup n (path_of n @ q)" r h] by simp
  from set_wild_ok [OF n(1,2) r w(1,2) below refl] show ?thesis
    unfolding grown_def using n ix by simp
qed

lemma grown_index_child:
  assumes n: "node_ok n" "n_type n = NodeStatic" "\<not> wild_child n"
    and r: "r \<noteq> []" "\<not> is_wild (hd r)" "index_byte (indices n) (hd r) = Some k"
    and ch: "adds_route (children n ! k) r h ch"
  shows "grown n r h (set_children n ((children n)[k := ch]))"
proof -
  have all: "list_all2 index_ok (indices n) (children n)" using node_ok_static(3) [OF n] by simp
  have "k < length (indices n)" "indices n ! k = hd r" using r(3) by (auto simp: index_byte_Some)
  then have ix: "index_ok (hd r) (children n ! k)" using list_all2_nthD [OF all] by metis
  then have st: "n_type (children n ! k) = NodeStatic" by (simp add: index_ok_def)
  note ch' = adds_routeD_static [OF ch st]
  have "index_ok (hd r) ch" using ch ix r(1) by (auto simp: adds_route_def index_ok_def)
  from set_child_ok [OF n r ch'(1) this ch'(3) refl] show ?thesis
    unfolding grown_def using n by (cases n) simp
qed

lemma grown_fresh:
  assumes n: "node_ok n" "n_type n = NodeStatic" "\<not> wild_child n"
    and r: "r \<noteq> []" "\<not> is_wild (hd r)" "index_byte (indices n) (hd r) = None"
    and s: "node_ok s" "index_ok (hd r) s" "\<And>q. route_lookup s q = with_route r h (\<lambda>_. None) q"
  shows "grown n r h (Node (path_of n) (indices n @ [hd r]) (wild_child n) (n_type n) pn (children n @ [s]) (handlers n))"
  using add_static_ok [OF n r s refl] n unfolding grown_def by simp

text \<open>At a static node, the step after the split adds the route to the node before it.\<close>

lemma grown_adds:
  assumes n0: "node_ok n0" "n_type n0 = NodeStatic"
    and i: "i = lcp path (path_of n0)" and g: "grown (split_node i n0) (drop i path) h n'"
  shows "adds_route n0 path h n'"
proof -
  note split = split_node_ok [OF n0, of i]
  have path: "path = path_of (split_node i n0) @ drop i path"
    using take_lcp [of path "path_of n0"] split(3) i by (simp) (metis append_take_drop_id)
  have "route_lookup (split_node i n0) = route_lookup n0" using split(4) by (simp add: fun_eq_iff)
  then have "route_lookup n' q = with_route path h (route_lookup n0) q" for q
    using g path by (simp add: grown_def)
  moreover have "path_of n' \<noteq> [] \<and> hd (path_of n') = hd (path_of n0)"
    if "path_of n0 \<noteq> []" "path \<noteq> []" "hd path = hd (path_of n0)"
    using that g split(3) by (cases path; cases "path_of n0") (auto simp: grown_def i)
  ultimately show ?thesis using g n0 by (intro adds_route_staticI) (auto simp: grown_def)
qed

section \<open>Parameter nodes in an insertion\<close>

lemma wild_node_lcp:
  assumes "segment path = path_of n"
  shows "lcp path (path_of n) = length (path_of n)" and "drop (length (path_of n)) path = after_segment path"
proof -
  have path: "path = path_of n @ after_segment path" using assms by (metis takeWhile_dropWhile_id)
  show "lcp path (path_of n) = length (path_of n)" by (subst path) simp
  show "drop (length (path_of n)) path = after_segment path" by (subst path) simp
qed

lemma adds_wild_handlers:
  assumes "node_ok w" "n_type w \<noteq> NodeStatic" and "segment r = path_of w" "after_segment r = []"
  shows "adds_route w r h (set_handlers w (Some h))"
proof -
  have "r \<noteq> []" using assms(3) node_ok_wild(1) [OF assms(1,2)] by auto
  then show ?thesis
    using set_wild_handlers_ok(1) [OF assms, of h] set_wild_handlers_ok(2) [OF assms, of _ h] assms(2)
    by (intro adds_route_wildI) (cases w; simp)+
qed

lemma adds_wild_child:
  assumes w: "node_ok w" "n_type w \<noteq> NodeStatic"
    and r: "segment r = path_of w" "after_segment r \<noteq> []"
    and c: "node_ok c" "n_type c = NodeStatic"
      "\<And>q. q \<noteq> [] \<Longrightarrow> route_lookup c q = with_route (after_segment r) h
         (\<lambda>q. if children w = [] then None else route_lookup (children w ! 0) q) q"
    and w': "w' = Node (path_of w) ix False (n_type w) (param_name w) [c] (handlers w)"
  shows "adds_route w r h w'"
proof -
  have "r \<noteq> []" using r(2) by auto
  then show ?thesis
    using set_wild_child_ok(1) [OF w r c w'] set_wild_child_ok(2) [OF w r c w'] w(2)
    by (intro adds_route_wildI) (auto simp: w')
qed

section \<open>The insertion\<close>

lemma compatible_static:
  assumes "compatible n r" and "n_type n = NodeStatic" and i: "i = lcp r (path_of n)" "i < length r"
    and c: "c = r ! i"
  shows "i < length (path_of n) \<Longrightarrow> \<not> is_wild c"
    and "i = length (path_of n) \<Longrightarrow> wild_child n \<Longrightarrow> compatible (children n ! 0) (drop i r)"
    and "i = length (path_of n) \<Longrightarrow> \<not> wild_child n \<Longrightarrow> is_wild c \<Longrightarrow> children n = []"
    and "i = length (path_of n) \<Longrightarrow> \<not> wild_child n \<Longrightarrow> \<not> is_wild c \<Longrightarrow>
      index_byte (indices n) c = Some k \<Longrightarrow> compatible (children n ! k) (drop i r)"
  using assms unfolding compatible.simps [of n r]
  by (simp_all add: Let_def split: if_splits)

theorem insert_child_adds:
  "node_ok n \<Longrightarrow> compatible n path \<Longrightarrow> hs = Some h \<Longrightarrow>
     \<exists>n'. insert_child n path hs = Some n' \<and> adds_route n path h n'"
  "is_wild c \<Longrightarrow> hs' = Some h \<Longrightarrow>
     \<exists>w. wild_node c rest hs' = Some w \<and> node_ok w \<and> n_type w \<noteq> NodeStatic \<and>
     (\<forall>q. q \<noteq> [] \<longrightarrow> wild_lookup w q = with_route (c # rest) h (\<lambda>_. None) q)"
proof (induction n path hs and c rest hs' rule: insert_child_wild_node.induct)
  case (2 c rest hs)
  show ?case
    using wild_node_adds [OF "2.prems"(1), of rest h] "2.IH" "2.prems"(2) by simp
next
  case (1 n0 path hs)
  define i where "i = lcp path (path_of n0)"
  define n where "n = split_node i n0"
  define rest where "rest = drop i path"
  define c where "c = path ! i"
  note hs = \<open>hs = Some h\<close>
  note IH = "1.IH" [OF i_def n_def _ rest_def c_def]
  note unf = insert_child.simps [of n0 path hs, folded i_def, unfolded Let_def, folded n_def rest_def c_def]
  have rest: "i < length path \<Longrightarrow> rest \<noteq> [] \<and> hd rest = c \<and> rest = c # drop (Suc i) path"
    by (simp add: rest_def c_def hd_drop_conv_nth Cons_nth_drop_Suc)
  have fresh_wild: "\<exists>w. wild_node (rest ! p) (drop (Suc p) rest) hs = Some w \<and> node_ok w \<and>
      n_type w \<noteq> NodeStatic \<and>
      (\<forall>q. q \<noteq> [] \<longrightarrow> wild_lookup w q = with_route (rest ! p # drop (Suc p) rest) h (\<lambda>_. None) q)"
    if "i < length path" "\<not> wild_child n" "\<not> ((n_type n = NodeParam \<or> n_type n = NodeCatchAll) \<and> c = CHR ''/'' \<and> length (children n) = 1)"
      "index_byte (indices n) c = None" "\<not> is_wild c" "index_where is_wild rest = Some p" for p
    using IH(4) [OF that] that(6) hs by (simp add: index_where_Some)
  show ?case
  proof (cases "n_type n0 = NodeStatic")
    case st: True
    note ok = split_node_ok(1-2) [OF "1.prems"(1) st, of i, folded n_def]
    have goal: ?thesis if "insert_child n0 path hs = Some n'" "grown n rest h n'" for n'
      using that grown_adds [OF "1.prems"(1) st i_def] by (auto simp: n_def rest_def)
    note comp = compatible_static [OF "1.prems"(2) st i_def _ c_def, folded rest_def]
    have n0: "n = n0 \<Longrightarrow> i = length (path_of n0)"
      by (metis i_def lcp_le2 le_neq_implies_less n_def split_node_def node.sel(1)
          length_take min.absorb4 nat_less_le)
    have unsplit: "i \<noteq> length (path_of n0) \<Longrightarrow> i < length (path_of n0)"
      by (simp add: i_def le_neq_implies_less)
    have no_slash: "\<not> ((n_type n = NodeParam \<or> n_type n = NodeCatchAll) \<and> c = CHR ''/'' \<and> length (children n) = 1)"
      using ok(2) by simp
    consider (finished) "\<not> i < length path"
      | (wild) "i < length path" "wild_child n"
      | (idx) k where "i < length path" "\<not> wild_child n" "index_byte (indices n) c = Some k"
      | (param) "i < length path" "\<not> wild_child n" "index_byte (indices n) c = None" "is_wild c"
      | (fresh) "i < length path" "\<not> wild_child n" "index_byte (indices n) c = None" "\<not> is_wild c"
      by (cases "index_byte (indices n) c") auto
    then show ?thesis
    proof cases
      case finished
      with grown_handlers [OF ok, of h] show ?thesis
        by (intro goal [of "set_handlers n (Some h)"]) (auto simp: unf [unfolded hs] hs rest_def)
    next
      case wild
      then have eq: "n = n0" using split_node_flags(1) n_def by metis
      have ch: "length (children n) = 1" "n_type (children n ! 0) \<noteq> NodeStatic"
        using node_ok_static(2) [OF ok wild(2)] by auto
      then have ne: "children n \<noteq> []" by auto
      have "node_ok (children n ! 0)" using node_ok_static(4) [OF ok, of 0] ch by simp
      then obtain d where d: "insert_child (children n ! 0) rest hs = Some d" "adds_route (children n ! 0) rest h d"
        using IH(1) [OF wild(1,2) ne] comp(2) [OF wild(1) n0 [OF eq]] wild(2) eq hs by auto
      show ?thesis
        using grown_wild_child [OF ok wild(2) _ d(2)] rest [OF wild(1)] wild d(1) ne
        by (intro goal) (auto simp: unf)
    next
      case idx
      have eq: "n = n0"
        using split_node_no_descent [OF i_def idx(1), folded n_def c_def] idx(3) by simp
      have all: "list_all2 index_ok (indices n) (children n)"
        using node_ok_static(3) [OF ok idx(2)] by simp
      have k: "k < length (children n)"
        using idx(3) list_all2_lengthD [OF all] by (simp add: index_byte_Some)
      have nw: "\<not> is_wild c" using comp(3) [OF idx(1) n0 [OF eq]] idx(2) k eq by auto
      obtain d where d: "insert_child (children n ! k) rest hs = Some d" "adds_route (children n ! k) rest h d"
        using IH(5) [OF idx(1,2) no_slash idx(3) k] node_ok_static(4) [OF ok k]
          comp(4) [OF idx(1) n0 [OF eq]] idx(2,3) nw eq hs by auto
      show ?thesis
        using grown_index_child [OF ok idx(2) _ _ _ d(2)] rest [OF idx(1)] nw idx d(1) k no_slash
        by (intro goal) (auto simp: unf)
    next
      case param
      have i_len: "i = length (path_of n0)" using unsplit comp(1) [OF param(1)] param(4) by auto
      then have eq: "n = n0" by (simp add: n_def split_node_def)
      have "children n = []" using comp(3) [OF param(1) i_len] param(2,4) eq by auto
      moreover obtain w where w: "wild_node c (drop (Suc i) path) hs = Some w" "node_ok w" "n_type w \<noteq> NodeStatic"
        "\<And>q. q \<noteq> [] \<Longrightarrow> wild_lookup w q = with_route (c # drop (Suc i) path) h (\<lambda>_. None) q"
        using IH(3) [OF param(1,2) no_slash param(3,4)] param(4) hs by auto
      ultimately show ?thesis
        using grown_param [OF ok param(2) _ _ w(2,3)] rest [OF param(1)] param w(1,4) no_slash
        by (intro goal) (auto simp: unf)
    next
      case fresh
      obtain s where s: "(case index_where is_wild rest of
            None \<Rightarrow> Some (Node (path_of n) (indices n @ [c]) (wild_child n) (n_type n) (param_name n)
              (children n @ [Node rest [] False NodeStatic [] [] hs]) (handlers n))
          | Some p \<Rightarrow> map_option (\<lambda>ch. Node (path_of n) (indices n @ [c]) (wild_child n) (n_type n) (param_name n)
              (children n @ [Node (take p rest) [] True NodeStatic [] [ch] None]) (handlers n))
              (wild_node (rest ! p) (drop (Suc p) rest) hs)) =
            Some (Node (path_of n) (indices n @ [c]) (wild_child n) (n_type n) (param_name n) (children n @ [s]) (handlers n))"
        "node_ok s" "index_ok (hd rest) s" "\<And>q. route_lookup s q = with_route rest h (\<lambda>_. None) q"
        using fresh_branch [of rest h "\<lambda>s. Node (path_of n) (indices n @ [c]) (wild_child n) (n_type n) (param_name n)
          (children n @ [s]) (handlers n)"] fresh_wild [OF fresh(1,2) no_slash fresh(3,4)] rest [OF fresh(1)] fresh(4) hs
        by auto
      show ?thesis
        using grown_fresh [OF ok fresh(2) _ _ _ s(2-4), of "param_name n"] rest [OF fresh(1)] fresh s(1) no_slash
        by (intro goal) (auto simp: unf)
    qed
  next
    case wi: False
    note w = node_ok_wild [OF "1.prems"(1) wi]
    have seg: "segment path = path_of n0"
      and comp: "after_segment path = [] \<or> children n0 = [] \<or> compatible (children n0 ! 0) (after_segment path)"
      using "1.prems"(2) wi unfolding compatible.simps [of n0 path] by (auto split: if_splits)
    have i_len: "i = length (path_of n0)" and rest_eq: "rest = after_segment path"
      using wild_node_lcp [OF seg] by (simp_all add: i_def rest_def)
    have eq: "n = n0" using i_len by (simp add: n_def split_node_def)
    show ?thesis
    proof (cases "after_segment path = []")
      case True
      then have "drop i path = []" using rest_eq by (simp only: rest_def)
      then have "\<not> i < length path" by simp
      then show ?thesis using adds_wild_handlers [OF "1.prems"(1) wi seg True, of h]
        by (simp add: unf [unfolded hs eq] eq hs)
    next
      case ne: False
      then have "drop i path \<noteq> []" using rest_eq by (simp only: rest_def not_False_eq_True)
      then have il: "i < length path" by simp
      have c: "c = CHR ''/''" using rest [OF il] rest_eq dropWhile_neq_hd by metis
      have slash: "\<not> is_wild c" by (simp add: c is_wild_def)
      show ?thesis
      proof (cases "children n0 = []")
        case True
        then have none: "index_byte (indices n) c = None" using w(4) by (simp add: eq index_byte_def)
        have no1: "\<not> ((n_type n = NodeParam \<or> n_type n = NodeCatchAll) \<and> c = CHR ''/'' \<and> length (children n) = 1)"
          using True eq by simp
        have nw: "\<not> wild_child n" using w(3) eq by simp
        obtain s where s: "(case index_where is_wild rest of
            None \<Rightarrow> Some (Node (path_of n) (indices n @ [c]) (wild_child n) (n_type n) (param_name n)
              (children n @ [Node rest [] False NodeStatic [] [] hs]) (handlers n))
          | Some p \<Rightarrow> map_option (\<lambda>ch. Node (path_of n) (indices n @ [c]) (wild_child n) (n_type n) (param_name n)
              (children n @ [Node (take p rest) [] True NodeStatic [] [ch] None]) (handlers n))
              (wild_node (rest ! p) (drop (Suc p) rest) hs)) =
            Some (Node (path_of n) (indices n @ [c]) (wild_child n) (n_type n) (param_name n) (children n @ [s]) (handlers n))"
          "node_ok s" "index_ok (hd rest) s" "\<And>q. route_lookup s q = with_route rest h (\<lambda>_. None) q"
          using fresh_branch [of rest h "\<lambda>s. Node (path_of n) (indices n @ [c]) (wild_child n) (n_type n) (param_name n)
            (children n @ [s]) (handlers n)"] fresh_wild [OF il nw no1 none slash] rest [OF il] slash hs
          by auto
        have "n_type s = NodeStatic" using s(3) by (simp add: index_ok_def)
        from adds_wild_child [OF "1.prems"(1) wi seg ne s(2) this _ refl, of h "indices n @ [c]"]
        show ?thesis using s(1,4) il nw none slash no1 True rest_eq by (simp add: unf eq)
      next
        case False
        have one: "children n0 = [children n0 ! 0]" "n_type (children n0 ! 0) = NodeStatic" "node_ok (children n0 ! 0)"
          using w(5) [OF False] by auto
        have len: "length (children n) = 1" unfolding eq by (subst one(1)) simp
        have yes: "(n_type n = NodeParam \<or> n_type n = NodeCatchAll) \<and> c = CHR ''/'' \<and> length (children n) = 1"
          using wi eq c len by (cases "n_type n0") auto
        obtain d where d: "insert_child (children n ! 0) rest hs = Some d" "adds_route (children n ! 0) rest h d"
          using IH(2) [OF il _ yes] w(3) comp ne False one(3) rest_eq eq hs by auto
        note d' = adds_routeD_static [OF d(2), unfolded eq, OF one(2)]
        have "set_children n ((children n)[0 := d]) = Node (path_of n0) (indices n0) False (n_type n0) (param_name n0) [d] (handlers n0)"
          using set_children_single [OF one(1), of d] w(3) eq by simp
        with adds_wild_child [OF "1.prems"(1) wi seg ne d'(1,2) _ refl, of h "indices n0"]
        show ?thesis using d(1) d'(3) il w(3) yes False rest_eq eq by (simp add: unf)
      qed
    qed
  qed
qed

end
