(* ===== verification/Router_Engine.thy ===== *)
theory Router_Engine
  imports Router_Match
begin

text \<open>
  The route groups, static mounts and request dispatch of \<^verbatim>\<open>router.go\<close> and \<^verbatim>\<open>gpp.go\<close>, with
  the route list of \<^verbatim>\<open>openapi.go\<close>. A \<^verbatim>\<open>*RouterGroup\<close> is a prefix and its middleware; the
  engine it points to is passed along. Registration panics are the values of \<open>panic\<close>.
\<close>

section \<open>Slash-separated paths (package path)\<close>

fun clean_parts :: "bool \<Rightarrow> string list \<Rightarrow> string list \<Rightarrow> string list" where
  "clean_parts rooted [] st = rev st"
| "clean_parts rooted (c # cs) st =
     (if c = [] \<or> c = ''.'' then clean_parts rooted cs st
      else if c = ''..'' then
        (case st of
           [] \<Rightarrow> (if rooted then clean_parts rooted cs [] else clean_parts rooted cs [''..''])
         | x # xs \<Rightarrow>
             (if x = ''..'' then clean_parts rooted cs (''..'' # st)
              else clean_parts rooted cs xs))
      else clean_parts rooted cs (c # st))"

definition path_clean :: "string \<Rightarrow> string" where
  "path_clean p =
     (if p = [] then ''.''
      else
        (let rooted = (hd p = CHR ''/'');
             body = join_with ''/'' (clean_parts rooted (split_byte CHR ''/'' p) [])
         in if rooted then CHR ''/'' # body else if body = [] then ''.'' else body))"

definition path_join :: "string list \<Rightarrow> string" where
  "path_join es =
     (let ne = filter (\<lambda>e. e \<noteq> []) es in
      if ne = [] then [] else path_clean (join_with ''/'' ne))"

lemma clean_parts_rooted:
  "\<forall>x\<in>set st. x \<notin> {[], ''.'', ''..''} \<Longrightarrow>
     x \<in> set (clean_parts True cs st) \<Longrightarrow> x \<notin> {[], ''.'', ''..''}"
  by (induction "True" cs st rule: clean_parts.induct) (auto split: if_splits list.splits)

lemma clean_parts_no_byte:
  "\<forall>x\<in>set st \<union> set cs. c \<notin> set x \<Longrightarrow> c \<noteq> CHR ''.'' \<Longrightarrow>
     x \<in> set (clean_parts rooted cs st) \<Longrightarrow> c \<notin> set x"
  by (induction rooted cs st rule: clean_parts.induct) (auto split: if_splits list.splits)

text \<open>\<^verbatim>\<open>fs.ValidPath\<close>.\<close>

definition fs_valid_path :: "string \<Rightarrow> bool" where
  "fs_valid_path nm \<longleftrightarrow> utf8_valid nm \<and>
     (nm = ''.'' \<or> (\<forall>e\<in>set (split_byte CHR ''/'' nm). e \<notin> {[], ''.'', ''..''}))"

section \<open>Groups\<close>

record 'h router_group =
  prefix :: string
  middlewares :: "'h list"

definition combine_path :: "'h router_group \<Rightarrow> string \<Rightarrow> string" where
  "combine_path g rel =
     (if rel = [] then prefix g
      else
        (let final = path_join [prefix g, rel] in
         if has_suffix rel ''/'' \<and> \<not> has_suffix final ''/'' then final @ ''/'' else final))"

definition combine_middlewares :: "'h router_group \<Rightarrow> 'h list \<Rightarrow> 'h list" where
  "combine_middlewares g hs = middlewares g @ hs"

definition sub_group :: "'h router_group \<Rightarrow> string \<Rightarrow> 'h list \<Rightarrow> 'h router_group" where
  "sub_group g rel hs = \<lparr>prefix = combine_path g rel, middlewares = combine_middlewares g hs\<rparr>"

definition use :: "'h router_group \<Rightarrow> 'h list \<Rightarrow> 'h router_group" where
  "use g ms = g\<lparr>middlewares := middlewares g @ ms\<rparr>"

definition version_group :: "'h router_group \<Rightarrow> string \<Rightarrow> string list \<Rightarrow> 'h router_group" where
  "version_group g v rel =
     (let pre = ''/api/'' @ trim_prefix v ''/'';
          pre = (case rel of
                   [] \<Rightarrow> pre
                 | r # _ \<Rightarrow> if r \<noteq> [] then pre @ ''/'' @ trim_prefix r ''/'' else pre)
      in sub_group g pre [])"

section \<open>The engine\<close>

datatype panic = PathMustBeginWithSlash | EmptyMethod | EmptyChain | IndexOutOfRange

record route_metadata =
  rm_method :: string
  rm_path :: string
  rm_summary :: string
  rm_params :: "string list"

record 'h engine =
  root_group :: "'h router_group"
  trees :: "(string \<times> 'h node) list"
  static_routes :: "(string \<times> 'h list) list"
  openapi_routes :: "route_metadata list"

definition new_engine :: "'h engine" where
  "new_engine = \<lparr>root_group = \<lparr>prefix = ''/'', middlewares = []\<rparr>, trees = [],
     static_routes = [], openapi_routes = []\<rparr>"

definition path_params :: "string \<Rightarrow> string list" where
  "path_params p =
     List.map tl (filter (\<lambda>s. has_prefix s '':'' \<or> has_prefix s ''*'') (split_byte CHR ''/'' p))"

definition openapi_register :: "route_metadata list \<Rightarrow> string \<Rightarrow> string \<Rightarrow> route_metadata list" where
  "openapi_register rs m p =
     rs @ [\<lparr>rm_method = m, rm_path = p, rm_summary = m @ '' '' @ p, rm_params = path_params p\<rparr>]"

text \<open>The trees are kept in the order of their first registration; a method has one tree.\<close>

definition tree_of :: "'h engine \<Rightarrow> string \<Rightarrow> 'h node option" where
  "tree_of e m = map_of (trees e) m"

fun put_tree :: "(string \<times> 'h node) list \<Rightarrow> string \<Rightarrow> 'h node \<Rightarrow> (string \<times> 'h node) list" where
  "put_tree [] m t = [(m, t)]"
| "put_tree ((k, u) # ts) m t = (if k = m then (m, t) # ts else (k, u) # put_tree ts m t)"

definition engine_add_route ::
    "'h engine \<Rightarrow> string \<Rightarrow> string \<Rightarrow> 'h list \<Rightarrow> panic + 'h engine" where
  "engine_add_route e m path hs =
     (if path = [] \<or> hd path \<noteq> CHR ''/'' then Inl PathMustBeginWithSlash
      else if m = [] then Inl EmptyMethod
      else if hs = [] then Inl EmptyChain
      else
        (let root = (case tree_of e m of None \<Rightarrow> empty_node | Some t \<Rightarrow> t) in
         case insert_child root path (Some hs) of
           None \<Rightarrow> Inl IndexOutOfRange
         | Some t \<Rightarrow>
             Inr (e\<lparr>openapi_routes := openapi_register (openapi_routes e) m path,
                    trees := put_tree (trees e) m t\<rparr>)))"

definition handle ::
    "'h engine \<Rightarrow> 'h router_group \<Rightarrow> string \<Rightarrow> string \<Rightarrow> 'h list \<Rightarrow> panic + 'h engine" where
  "handle e g m rel hs = engine_add_route e m (combine_path g rel) (combine_middlewares g hs)"

definition any_methods :: "string list" where
  "any_methods = [''GET'', ''POST'', ''PUT'', ''DELETE'', ''PATCH'', ''OPTIONS'', ''HEAD'']"

fun handle_each ::
    "'h engine \<Rightarrow> 'h router_group \<Rightarrow> string list \<Rightarrow> string \<Rightarrow> 'h list \<Rightarrow> panic + 'h engine" where
  "handle_each e g [] rel hs = Inr e"
| "handle_each e g (m # ms) rel hs =
     (case handle e g m rel hs of Inl p \<Rightarrow> Inl p | Inr e' \<Rightarrow> handle_each e' g ms rel hs)"

definition handle_any :: "'h engine \<Rightarrow> 'h router_group \<Rightarrow> string \<Rightarrow> 'h list \<Rightarrow> panic + 'h engine" where
  "handle_any e g rel hs = handle_each e g any_methods rel hs"

section \<open>Static mounts\<close>

definition normalize_static_mount :: "string \<Rightarrow> string" where
  "normalize_static_mount mount =
     (if mount = [] \<or> mount = ''.'' then ''/''
      else
        (let m = path_clean (CHR ''/'' # trim_prefix mount ''/'') in
         if m \<noteq> ''/'' then trim_suffix m ''/'' else m))"

definition static_relative_path :: "string \<Rightarrow> string \<Rightarrow> string option" where
  "static_relative_path mount req =
     (if mount \<noteq> ''/'' \<and> req \<noteq> mount \<and> \<not> has_prefix req (mount @ ''/'') then None
      else
        (let relative = (if mount \<noteq> ''/'' then trim_prefix req mount else req);
             relative = trim_prefix relative ''/'' in
         if \<exists>seg\<in>set (split_byte CHR ''/'' relative). seg = ''.'' \<or> seg = ''..'' then None
         else
           (let cleaned = trim_prefix (path_clean (CHR ''/'' # relative)) ''/'' in
            if cleaned = ''.'' \<or> cleaned = [] then Some ''index.html''
            else if \<not> fs_valid_path cleaned then None
            else Some cleaned)))"

definition add_static_route :: "'h engine \<Rightarrow> string \<Rightarrow> 'h list \<Rightarrow> 'h engine" where
  "add_static_route e mount hs =
     e\<lparr>static_routes :=
         sort_key (\<lambda>r. - int (length (fst r))) (static_routes e @ [(mount, hs)])\<rparr>"

definition static_fs :: "'h engine \<Rightarrow> 'h router_group \<Rightarrow> string \<Rightarrow> 'h \<Rightarrow> 'h engine" where
  "static_fs e g rel h =
     add_static_route e (normalize_static_mount (combine_path g rel)) (combine_middlewares g [h])"

definition match_static_route :: "'h engine \<Rightarrow> string \<Rightarrow> string \<Rightarrow> 'h list option" where
  "match_static_route e m req =
     (if m \<noteq> ''GET'' \<and> m \<noteq> ''HEAD'' then None
      else map_option snd
        (List.find (\<lambda>r. static_relative_path (fst r) req \<noteq> None) (static_routes e)))"

definition static_server_path :: "string \<Rightarrow> string" where
  "static_server_path relative =
     (if last (split_byte CHR ''/'' relative) = ''index.html''
      then CHR ''/'' # trim_suffix relative ''index.html''
      else CHR ''/'' # relative)"

section \<open>Dispatch\<close>

text \<open>
  The chain \<^verbatim>\<open>ServeHTTP\<close> installs and the parameters it leaves in the context. The map of
  trees is read in the order \<open>ms\<close> of its methods, which Go does not fix; parameters that a
  failed lookup collected stay in the context.
\<close>

datatype 'h chain = Chain "'h list" | Preflight "'h list" | NotFoundChain

fun try_trees ::
    "'h node list \<Rightarrow> string \<Rightarrow> param list option \<Rightarrow> (param list option \<times> bool) option" where
  "try_trees [] path ps = Some (ps, False)"
| "try_trees (t # ts) path ps =
     (case get_value t path ps of
        None \<Rightarrow> None
      | Some (ps', Some _) \<Rightarrow> Some (ps', True)
      | Some (ps', None) \<Rightarrow> try_trees ts path ps')"

definition ordered_trees :: "'h engine \<Rightarrow> string list \<Rightarrow> 'h node list" where
  "ordered_trees e ms = List.map_filter (tree_of e) ms"

definition serve_fallback ::
    "'h engine \<Rightarrow> string list \<Rightarrow> string \<Rightarrow> string \<Rightarrow> param list option
      \<Rightarrow> ('h chain \<times> param list option) option" where
  "serve_fallback e ms m path ps =
     (case match_static_route e m path of
        Some hs \<Rightarrow> Some (Chain hs, ps)
      | None \<Rightarrow>
          (if m = ''OPTIONS'' then
             (case try_trees (ordered_trees e ms) path ps of
                None \<Rightarrow> None
              | Some (ps', True) \<Rightarrow> Some (Preflight (middlewares (root_group e)), ps')
              | Some (ps', False) \<Rightarrow> Some (NotFoundChain, ps'))
           else Some (NotFoundChain, ps)))"

definition serve ::
    "'h engine \<Rightarrow> string list \<Rightarrow> string \<Rightarrow> string \<Rightarrow> ('h chain \<times> param list option) option" where
  "serve e ms m path =
     (case tree_of e m of
        None \<Rightarrow> serve_fallback e ms m path (Some [])
      | Some t \<Rightarrow>
          (case get_value t path (Some []) of
             None \<Rightarrow> None
           | Some (ps, Some hs) \<Rightarrow> Some (Chain hs, ps)
           | Some (ps, None) \<Rightarrow> serve_fallback e ms m path ps))"

section \<open>Engine invariants\<close>

definition engine_wf :: "'h engine \<Rightarrow> bool" where
  "engine_wf e \<longleftrightarrow> distinct (List.map fst (trees e)) \<and> (\<forall>t\<in>set (trees e). node_wf (snd t)) \<and>
     sorted_wrt (\<lambda>a b. length (fst b) \<le> length (fst a)) (static_routes e)"

lemma engine_wf_tree: "engine_wf e \<Longrightarrow> tree_of e m = Some t \<Longrightarrow> node_wf t"
  by (auto simp: engine_wf_def tree_of_def dest: map_of_SomeD)

lemma map_of_put_tree: "map_of (put_tree ts m t) = (map_of ts)(m \<mapsto> t)"
  by (induction ts) (auto simp: fun_eq_iff)

lemma keys_put_tree: "fst ` set (put_tree ts m t) = insert m (fst ` set ts)"
proof (induction ts)
  case (Cons a ts)
  then show ?case by (cases a) (simp add: insert_commute)
qed simp

lemma distinct_put_tree:
  "distinct (List.map fst ts) \<Longrightarrow> distinct (List.map fst (put_tree ts m t))"
proof (induction ts)
  case (Cons a ts)
  then show ?case using keys_put_tree [of ts m t] by (cases a) auto
qed simp

lemma set_put_tree: "x \<in> set (put_tree ts m t) \<Longrightarrow> x \<in> set ts \<or> x = (m, t)"
  by (induction ts) (auto split: if_splits)

lemma engine_wf_new: "engine_wf new_engine"
  by (simp add: engine_wf_def new_engine_def)

lemma engine_add_route_cases:
  assumes "engine_wf e"
  shows "(case engine_add_route e m path hs of
      Inl p \<Rightarrow> p \<noteq> IndexOutOfRange \<and> (path = [] \<or> hd path \<noteq> CHR ''/'' \<or> m = [] \<or> hs = [])
    | Inr e' \<Rightarrow> engine_wf e' \<and> path \<noteq> [] \<and> hd path = CHR ''/'' \<and> m \<noteq> [] \<and> hs \<noteq> [] \<and>
        (\<exists>t. insert_child (case tree_of e m of None \<Rightarrow> empty_node | Some t \<Rightarrow> t) path (Some hs) = Some t \<and>
           tree_of e' = (tree_of e)(m \<mapsto> t)) \<and>
        root_group e' = root_group e \<and> static_routes e' = static_routes e)"
proof (cases "path = [] \<or> hd path \<noteq> CHR ''/'' \<or> m = [] \<or> hs = []")
  case True
  then show ?thesis by (auto simp: engine_add_route_def)
next
  case False
  let ?root = "case tree_of e m of None \<Rightarrow> empty_node | Some t \<Rightarrow> t"
  have "node_wf ?root" using engine_wf_tree [OF assms] by (auto split: option.split)
  then obtain t where t: "insert_child ?root path (Some hs) = Some t" "node_wf t"
    using insert_child_wf(1) by blast
  have "engine_wf (e\<lparr>openapi_routes := openapi_register (openapi_routes e) m path, trees := put_tree (trees e) m t\<rparr>)"
    using assms t(2) by (auto simp: engine_wf_def distinct_put_tree dest!: set_put_tree)
  moreover have "tree_of (e\<lparr>openapi_routes := openapi_register (openapi_routes e) m path, trees := put_tree (trees e) m t\<rparr>) =
      (tree_of e)(m \<mapsto> t)"
    by (simp add: tree_of_def map_of_put_tree fun_eq_iff)
  ultimately show ?thesis using False t(1) by (simp add: engine_add_route_def Let_def)
qed

lemma sort_key_length_desc:
  "sorted_wrt (\<lambda>a b. length (fst b) \<le> length (fst a)) (sort_key (\<lambda>r. - int (length (fst r))) xs)"
  using sorted_sort_key [of "\<lambda>r. - int (length (fst r))" xs] by (simp add: sorted_map)

lemma engine_wf_add_static: "engine_wf e \<Longrightarrow> engine_wf (add_static_route e mount hs)"
  by (simp add: engine_wf_def add_static_route_def sort_key_length_desc)

lemma try_trees_total: "\<forall>t\<in>set ts. node_wf t \<Longrightarrow> try_trees ts path ps \<noteq> None"
proof (induction ts arbitrary: ps)
  case Nil
  then show ?case by simp
next
  case (Cons t ts)
  obtain ps' h where "get_value t path ps = Some (ps', h)"
    using get_value_total [of t path ps] Cons.prems by auto
  with Cons show ?case by (cases h) auto
qed

lemma serve_total:
  assumes "engine_wf e"
  shows "serve e ms m path \<noteq> None"
proof -
  have "\<forall>t\<in>set (ordered_trees e ms). node_wf t"
    using engine_wf_tree [OF assms] by (auto simp: ordered_trees_def List.map_filter_def)
  then have fallback: "serve_fallback e ms m path ps \<noteq> None" for ps
    using try_trees_total [of "ordered_trees e ms" path ps]
    by (auto simp: serve_fallback_def split: option.splits bool.splits)
  show ?thesis
  proof (cases "tree_of e m")
    case None
    then show ?thesis using fallback by (simp add: serve_def)
  next
    case (Some t)
    obtain ps h where "get_value t path (Some []) = Some (ps, h)"
      using get_value_total [OF engine_wf_tree [OF assms Some]] by blast
    with Some fallback show ?thesis by (cases h) (simp_all add: serve_def)
  qed
qed

end
