(* ===== verification/Router_Table.thy ===== *)
theory Router_Table
  imports Router_Engine
begin

text \<open>
  The router as a table of routes. The locale \<open>route_table\<close> is what the engine needs from a
  routing structure: a registration that fits answers exactly the matches of its pattern. The
  radix tree is interpreted in it, and the engine's registrations and dispatch follow from its
  laws.
\<close>

section \<open>The interface\<close>

text \<open>The answer of a list of registrations: the last one that matches.\<close>

fun last_match :: "(string \<times> 'h list) list \<Rightarrow> string \<Rightarrow> (param list \<times> 'h list) option" where
  "last_match [] q = None"
| "last_match ((p, h) # rs) q =
     (case last_match rs q of
        Some r \<Rightarrow> Some r
      | None \<Rightarrow> map_option (\<lambda>ps. (ps, h)) (route_match p q))"

fun register_with :: "('t \<Rightarrow> string \<Rightarrow> 'h list \<Rightarrow> 't option) \<Rightarrow> 't \<Rightarrow> (string \<times> 'h list) list \<Rightarrow> 't option" where
  "register_with add t [] = Some t"
| "register_with add t ((p, h) # rs) =
     (case add t p h of None \<Rightarrow> None | Some t' \<Rightarrow> register_with add t' rs)"

fun fits_all ::
    "('t \<Rightarrow> string \<Rightarrow> bool) \<Rightarrow> ('t \<Rightarrow> string \<Rightarrow> 'h list \<Rightarrow> 't option) \<Rightarrow> 't \<Rightarrow> (string \<times> 'h list) list \<Rightarrow> bool" where
  "fits_all fits add t [] = True"
| "fits_all fits add t ((p, h) # rs) =
     (fits t p \<and> (case add t p h of None \<Rightarrow> False | Some t' \<Rightarrow> fits_all fits add t' rs))"

locale route_table =
  fixes empty_t :: 't
    and add :: "'t \<Rightarrow> string \<Rightarrow> 'h list \<Rightarrow> 't option"
    and look :: "'t \<Rightarrow> string \<Rightarrow> (param list \<times> 'h list) option"
    and ok :: "'t \<Rightarrow> bool"
    and fits :: "'t \<Rightarrow> string \<Rightarrow> bool"
  assumes empty_ok: "ok empty_t"
    and empty_look: "look empty_t q = None"
    and add_fits: "ok t \<Longrightarrow> fits t p \<Longrightarrow>
      \<exists>t'. add t p h = Some t' \<and> ok t' \<and> (\<forall>q. look t' q = with_route p h (look t) q)"
begin

lemma register_with_look:
  "ok t \<Longrightarrow> fits_all fits add t rs \<Longrightarrow>
     \<exists>t'. register_with add t rs = Some t' \<and> ok t' \<and>
       (\<forall>q. look t' q = (case last_match rs q of Some r \<Rightarrow> Some r | None \<Rightarrow> look t q))"
proof (induction rs arbitrary: t)
  case Nil
  then show ?case by simp
next
  case (Cons r rs)
  obtain p h where r: "r = (p, h)" by (cases r)
  obtain u where u: "add t p h = Some u" "ok u" "\<forall>q. look u q = with_route p h (look t) q"
    using add_fits [of t p h] Cons.prems r by auto
  from Cons.IH [OF u(2)] Cons.prems r u(1)
  obtain v where v: "register_with add u rs = Some v" "ok v"
    "\<forall>q. look v q = (case last_match rs q of Some r \<Rightarrow> Some r | None \<Rightarrow> look u q)"
    by auto
  have "look v q = (case last_match (r # rs) q of Some r \<Rightarrow> Some r | None \<Rightarrow> look t q)" for q
    using u(3) v(3) r by (auto simp: with_route_def split: option.splits)
  with u(1) v(1,2) r show ?case by auto
qed

lemma register_from_empty:
  assumes "fits_all fits add empty_t rs"
  shows "\<exists>t'. register_with add empty_t rs = Some t' \<and> ok t' \<and> (\<forall>q. look t' q = last_match rs q)"
proof -
  obtain t' where "register_with add empty_t rs = Some t'" "ok t'"
    "\<forall>q. look t' q = (case last_match rs q of Some r \<Rightarrow> Some r | None \<Rightarrow> look empty_t q)"
    using register_with_look [OF empty_ok assms] by blast
  then show ?thesis by (auto simp: empty_look split: option.splits)
qed

end

section \<open>The radix tree is a route table\<close>

definition add_route :: "'h node \<Rightarrow> string \<Rightarrow> 'h list \<Rightarrow> 'h node option" where
  "add_route n path hs = insert_child n path (Some hs)"

definition tree_ok :: "'h node \<Rightarrow> bool" where
  "tree_ok n \<longleftrightarrow> node_ok n \<and> n_type n = NodeStatic"

lemma tree_ok_empty: "tree_ok empty_node"
  by (simp add: tree_ok_def) (simp add: empty_node_def)

lemma add_route_compatible:
  assumes "tree_ok t" and "compatible t p"
  shows "\<exists>t'. add_route t p h = Some t' \<and> tree_ok t' \<and>
    (\<forall>q. route_lookup t' q = with_route p h (route_lookup t) q)"
proof -
  obtain t' where t': "insert_child t p (Some h) = Some t'" "adds_route t p h t'"
    using insert_child_adds(1) [of t p "Some h" h] assms by (auto simp: tree_ok_def)
  then show ?thesis
    using adds_routeD_static [OF t'(2)] assms(1) by (auto simp: add_route_def tree_ok_def)
qed

interpretation radix: route_table empty_node add_route route_lookup tree_ok compatible
  by unfold_locales (simp_all add: tree_ok_empty add_route_compatible)

section \<open>Trees of literal routes\<close>

text \<open>Routes without parameters always fit: their tree has static nodes only.\<close>

fun plain_node :: "'h node \<Rightarrow> bool" where
  "plain_node (Node p ix w t pn ch hs) \<longleftrightarrow> \<not> w \<and> t = NodeStatic \<and> (\<forall>c\<in>set ch. plain_node c)"

definition literal :: "string \<Rightarrow> bool" where
  "literal p \<longleftrightarrow> (\<forall>c\<in>set p. \<not> is_wild c)"

lemma plain_nodeD:
  assumes "plain_node n"
  shows "\<not> wild_child n" and "n_type n = NodeStatic" and "c \<in> set (children n) \<Longrightarrow> plain_node c"
  using assms by (cases n; simp)+

lemma plain_split: "plain_node n \<Longrightarrow> plain_node (split_node i n)"
  by (cases n) (simp add: split_node_def)

lemma literal_drop: "literal p \<Longrightarrow> literal (drop i p)"
  by (auto simp: literal_def dest: in_set_dropD)

lemma literal_nth: "literal p \<Longrightarrow> i < length p \<Longrightarrow> \<not> is_wild (p ! i)"
  by (simp add: literal_def)

lemma compatible_plain:
  "plain_node n \<Longrightarrow> node_ok n \<Longrightarrow> literal r \<Longrightarrow> compatible n r"
proof (induction n r rule: compatible.induct)
  case (1 n r)
  note plain = plain_nodeD [OF "1.prems"(1)]
  define i where "i = lcp r (path_of n)"
  have child: "k < length (children n)" if "index_byte (indices n) (r ! i) = Some k" for k
    using that list_all2_lengthD [of index_ok "indices n" "children n"] plain(1)
      node_ok_static(3) [OF "1.prems"(2) plain(2)] by (auto simp: index_byte_Some)
  have rec: "compatible (children n ! k) (drop i r)"
    if "i \<noteq> length r" "\<not> i < length (path_of n)" "\<not> is_wild (r ! i)" "index_byte (indices n) (r ! i) = Some k" for k
    using "1.IH"(2) [OF plain(2) i_def that(1,2) plain(1) that(3,4) child [OF that(4)]] child [OF that(4)]
      plain(3) node_ok_static(4) [OF "1.prems"(2) plain(2)] "1.prems"(3)
    by (simp add: literal_drop)
  have "i < length r" if "i \<noteq> length r" using that by (simp add: i_def le_neq_implies_less)
  then show ?case
    using literal_nth [OF "1.prems"(3), of i] plain rec child
    by (auto simp: compatible.simps [of n r] i_def [symmetric] Let_def split: option.split)
qed

lemma insert_child_plain:
  "plain_node n \<Longrightarrow> literal path \<Longrightarrow> insert_child n path hs = Some n' \<Longrightarrow> plain_node n'"
proof (induction n arbitrary: path n' rule: measure_induct_rule [of size])
  case (less n0)
  define i where "i = lcp path (path_of n0)"
  define n where "n = split_node i n0"
  have pn: "plain_node n" using plain_split [OF less.prems(1)] by (simp add: n_def)
  note plain = plain_nodeD [OF pn]
  note unf = insert_child.simps [of n0 path hs, folded i_def, unfolded Let_def, folded n_def]
  show ?case
  proof (cases "i < length path")
    case False
    then show ?thesis using less.prems(3) pn by (cases n) (auto simp: unf)
  next
    case True
    have nw: "\<not> is_wild (path ! i)" using literal_nth [OF less.prems(2) True] .
    have none: "index_where is_wild (drop i path) = None"
      using literal_drop [OF less.prems(2), of i] by (simp add: literal_def index_where_None)
    show ?thesis
    proof (cases "index_byte (indices n) (path ! i)")
      case None
      then show ?thesis using less.prems(3) True nw none plain pn by (cases n) (auto simp: unf)
    next
      case (Some k)
      then have eq: "n = n0" using split_node_no_descent [OF i_def True] n_def by simp
      obtain c where k: "k < length (children n)" and c: "insert_child (children n ! k) (drop i path) hs = Some c"
        and n': "n' = set_children n ((children n)[k := c])"
        using less.prems(3) True Some plain by (auto simp: unf split: if_splits)
      have "size (children n ! k) < size n0" and "plain_node (children n ! k)"
        using k eq plain(3) by (auto intro: size_child)
      then have "plain_node c" using less.IH literal_drop [OF less.prems(2)] c by blast
      then show ?thesis using pn unfolding n'
        by (cases n) (auto dest!: set_update_subset_insert [THEN subsetD])
    qed
  qed
qed

lemma literal_fits:
  "tree_ok t \<Longrightarrow> plain_node t \<Longrightarrow> \<forall>r\<in>set rs. literal (fst r) \<Longrightarrow> fits_all compatible add_route t rs"
proof (induction rs arbitrary: t)
  case Nil
  then show ?case by simp
next
  case (Cons r rs)
  obtain p h where r: "r = (p, h)" by (cases r)
  have fit: "compatible t p" using compatible_plain [of t p] Cons.prems r by (simp add: tree_ok_def)
  obtain t' where t': "add_route t p h = Some t'" "tree_ok t'"
    using add_route_compatible [OF Cons.prems(1) fit] by blast
  moreover have "plain_node t'"
    using insert_child_plain [OF Cons.prems(2)] t'(1) Cons.prems(3) r by (auto simp: add_route_def)
  ultimately show ?case using Cons.IH Cons.prems(3) fit r by simp
qed

text \<open>For literal routes the answer is the last registration of exactly that path.\<close>

lemma route_match_literal_iff: "literal p \<Longrightarrow> route_match p q = (if q = p then Some [] else None)"
  by (simp add: literal_def route_match_literal)

lemma last_match_literal:
  "\<forall>r\<in>set rs. literal (fst r) \<Longrightarrow> last_match rs q = map_option (Pair []) (map_of (rev rs) q)"
proof (induction rs)
  case Nil
  then show ?case by simp
next
  case (Cons r rs)
  obtain p h where "r = (p, h)" by (cases r)
  with Cons show ?case
    by (auto simp: route_match_literal_iff map_add_def split: option.splits)
qed

section \<open>The engine's routes\<close>

definition engine_lookup :: "'h engine \<Rightarrow> string \<Rightarrow> string \<Rightarrow> (param list \<times> 'h list) option" where
  "engine_lookup e m q = (case tree_of e m of None \<Rightarrow> None | Some t \<Rightarrow> route_lookup t q)"

definition engine_root :: "'h engine \<Rightarrow> string \<Rightarrow> 'h node" where
  "engine_root e m = (case tree_of e m of None \<Rightarrow> empty_node | Some t \<Rightarrow> t)"

definition engine_ok :: "'h engine \<Rightarrow> bool" where
  "engine_ok e \<longleftrightarrow> engine_wf e \<and> (\<forall>m\<in>fst ` set (trees e). tree_ok (engine_root e m))"

lemma tree_of_None: "tree_of e m = None \<longleftrightarrow> m \<notin> fst ` set (trees e)"
  by (simp add: tree_of_def map_of_eq_None_iff)

lemma engine_ok_root:
  assumes "engine_ok e"
  shows "tree_ok (engine_root e m)"
proof (cases "m \<in> fst ` set (trees e)")
  case True
  then show ?thesis using assms by (simp only: engine_ok_def)
next
  case False
  then show ?thesis by (simp add: engine_root_def tree_ok_empty flip: tree_of_None)
qed

lemma engine_lookup_root: "engine_lookup e m q = route_lookup (engine_root e m) q"
  by (simp add: engine_lookup_def engine_root_def split: option.split)

lemma engine_ok_new: "engine_ok new_engine"
  by (simp add: engine_ok_def engine_wf_new) (simp add: new_engine_def)

lemma engine_ok_wf: "engine_ok e \<Longrightarrow> engine_wf e"
  by (simp add: engine_ok_def)

lemma engine_add_route_ok:
  assumes ok: "engine_ok e" and path: "path \<noteq> []" "hd path = CHR ''/''" and "m \<noteq> []" and "hs \<noteq> []"
    and fit: "compatible (engine_root e m) path"
  shows "\<exists>e'. engine_add_route e m path hs = Inr e' \<and> engine_ok e' \<and>
    engine_root e' = (engine_root e)(m := engine_root e' m) \<and>
    (\<forall>q. engine_lookup e' m q = with_route path hs (engine_lookup e m) q)"
proof -
  obtain t' where t': "add_route (engine_root e m) path hs = Some t'" "tree_ok t'"
    "\<forall>q. route_lookup t' q = with_route path hs (route_lookup (engine_root e m)) q"
    using radix.add_fits [OF engine_ok_root [OF ok] fit] by blast
  obtain e' where e': "engine_add_route e m path hs = Inr e'"
    using t'(1) assms by (simp add: engine_add_route_def add_route_def engine_root_def Let_def)
  note facts = engine_add_route_cases [OF engine_ok_wf [OF ok], where m = m and path = path and hs = hs, unfolded e' sum.case]
  then have tree: "tree_of e' = (tree_of e)(m \<mapsto> t')"
    using t'(1) by (auto simp: add_route_def engine_root_def)
  then have root: "engine_root e' = (engine_root e)(m := t')"
    by (auto simp: engine_root_def fun_eq_iff)
  have "engine_ok e'" using facts t'(2) ok root engine_ok_root [OF ok] by (auto simp: engine_ok_def)
  moreover have "engine_lookup e' m q = with_route path hs (engine_lookup e m) q" for q
    using t'(3) root by (simp add: engine_lookup_root [abs_def])
  ultimately show ?thesis using e' root by auto
qed

lemma get_value_of_lookup:
  "route_lookup t q = Some (ps, h) \<Longrightarrow> get_value t q (Some []) = Some (Some ps, Some h)"
  by (auto simp: route_lookup_def split: option.splits)

lemma serve_registered:
  "engine_lookup e m path = Some (ps, hs) \<Longrightarrow> serve e ms m path = Some (Chain hs, Some ps)"
  by (auto simp: engine_lookup_def serve_def get_value_of_lookup split: option.splits)

section \<open>Static mounts\<close>

lemma split_byte_join:
  assumes "ws \<noteq> []" and "\<forall>w\<in>set ws. c \<notin> set w"
  shows "split_byte c (join_with [c] ws) = ws"
proof -
  have one: "c \<notin> set w \<Longrightarrow> split_byte c w = [w]" for w by (induction w) auto
  have app: "c \<notin> set w \<Longrightarrow> split_byte c (w @ c # v) = w # split_byte c v" for w v
    by (induction w) auto
  show ?thesis using assms
    by (induction "[c]" ws rule: join_with.induct) (auto simp: one app)
qed

lemma path_clean_rooted:
  assumes "trim_prefix (path_clean (CHR ''/'' # p)) ''/'' \<noteq> []"
  shows "\<forall>e\<in>set (split_byte CHR ''/'' (trim_prefix (path_clean (CHR ''/'' # p)) ''/'')). e \<notin> {[], ''.'', ''..''}"
proof -
  define ps where "ps = clean_parts True (split_byte CHR ''/'' (CHR ''/'' # p)) []"
  have clean: "trim_prefix (path_clean (CHR ''/'' # p)) ''/'' = join_with ''/'' ps"
    by (simp add: path_clean_def ps_def trim_prefix_def)
  then have ne: "ps \<noteq> []" using assms by auto
  have parts: "\<forall>x\<in>set ps. x \<notin> {[], ''.'', ''..''} \<and> CHR ''/'' \<notin> set x"
    using clean_parts_rooted [of "[]"] clean_parts_no_byte [of "[]" _ "CHR ''/''" _ True] split_byte_parts
    unfolding ps_def by fastforce
  then have "split_byte CHR ''/'' (join_with ''/'' ps) = ps" using split_byte_join ne by blast
  with parts clean show ?thesis by simp
qed

lemma static_relative_path_valid:
  "static_relative_path mount req = Some rel \<Longrightarrow>
     rel = ''index.html'' \<or> fs_valid_path rel \<and> rel \<noteq> ''.''"
  by (auto simp: static_relative_path_def Let_def split: if_splits)

lemma static_relative_path_safe:
  assumes "static_relative_path mount req = Some rel"
  shows "\<forall>e\<in>set (split_byte CHR ''/'' rel). e \<notin> {[], ''.'', ''..''}"
proof (cases "rel = ''index.html''")
  case False
  then show ?thesis using static_relative_path_valid [OF assms] by (auto simp: fs_valid_path_def)
qed simp

lemma find_longest:
  assumes "sorted_wrt (\<lambda>a b. f b \<le> (f a :: nat)) xs" and "List.find P xs = Some x"
  shows "P x \<and> x \<in> set xs \<and> (\<forall>y\<in>set xs. P y \<longrightarrow> f y \<le> f x)"
  using assms by (induction xs) (auto split: if_splits)

section \<open>Properties\<close>

text \<open>C1. Registering a list of routes none of which conflicts with an earlier parameter gives a
  tree that answers every path with the last registered route whose pattern matches it, and the
  parameters of that match; a path no pattern matches is not found.\<close>

theorem registered_routes_are_found:
  assumes "fits_all compatible add_route empty_node rs"
  shows "\<exists>t. register_with add_route empty_node rs = Some t \<and> (\<forall>q. route_lookup t q = last_match rs q)"
  using radix.register_from_empty [OF assms] by blast

theorem registered_routes_are_found_witness:
  "\<exists>t. register_with add_route empty_node
      [(''/users/:id'', [1::nat]), (''/users/:id/posts/:post'', [2]), (''/user'', [3]), (''/files/*path'', [4])] = Some t \<and>
    (\<forall>q. route_lookup t q = last_match
      [(''/users/:id'', [1]), (''/users/:id/posts/:post'', [2]), (''/user'', [3]), (''/files/*path'', [4])] q)"
  by (rule registered_routes_are_found) code_simp

text \<open>Routes without parameters never conflict: whatever paths are registered, in whatever
  order, a request is answered by the last registration of exactly its path.\<close>

theorem literal_routes_are_a_map:
  assumes "\<forall>r\<in>set rs. literal (fst r)"
  shows "\<exists>t. register_with add_route empty_node rs = Some t \<and>
    (\<forall>q. route_lookup t q = map_option (Pair []) (map_of (rev rs) q))"
proof -
  have "fits_all compatible add_route empty_node rs"
    using literal_fits [OF tree_ok_empty _ assms] by (simp add: empty_node_def)
  from radix.register_from_empty [OF this] show ?thesis
    by (auto simp: last_match_literal [OF assms])
qed

theorem literal_routes_are_a_map_witness:
  "\<exists>t. register_with add_route empty_node [(''/a/b'', [1::nat]), (''/a'', [2]), (''/a/b'', [3])] = Some t \<and>
    (\<forall>q. route_lookup t q = map_option (Pair []) (map_of (rev [(''/a/b'', [1]), (''/a'', [2]), (''/a/b'', [3])]) q))"
  by (rule literal_routes_are_a_map) (simp add: literal_def is_wild_def)

text \<open>C2. On an engine built by registrations, a registration is rejected only for a path without
  leading slash, an empty method or an empty chain; otherwise it succeeds, keeps the engine well
  formed, changes the tree of its method only, and no index is ever out of range.\<close>

theorem registration_is_safe:
  assumes "engine_wf e"
  shows "case engine_add_route e m path hs of
      Inl p \<Rightarrow> p \<noteq> IndexOutOfRange \<and> (path = [] \<or> hd path \<noteq> CHR ''/'' \<or> m = [] \<or> hs = [])
    | Inr e' \<Rightarrow> engine_wf e' \<and> path \<noteq> [] \<and> hd path = CHR ''/'' \<and> m \<noteq> [] \<and> hs \<noteq> [] \<and>
        (\<forall>m'. m' \<noteq> m \<longrightarrow> tree_of e' m' = tree_of e m') \<and> static_routes e' = static_routes e"
  using engine_add_route_cases [OF assms, where m = m and path = path and hs = hs]
  by (auto split: sum.splits)

theorem registration_is_safe_witness:
  "case engine_add_route (new_engine :: nat engine) ''GET'' ''/users/:id'' [7] of
      Inl p \<Rightarrow> p \<noteq> IndexOutOfRange \<and> (''/users/:id'' = [] \<or> hd ''/users/:id'' \<noteq> CHR ''/'' \<or> ''GET'' = [] \<or> [7::nat] = [])
    | Inr e' \<Rightarrow> engine_wf e' \<and> ''/users/:id'' \<noteq> [] \<and> hd ''/users/:id'' = CHR ''/'' \<and> ''GET'' \<noteq> [] \<and> [7::nat] \<noteq> [] \<and>
        (\<forall>m'. m' \<noteq> ''GET'' \<longrightarrow> tree_of e' m' = tree_of new_engine m') \<and> static_routes e' = static_routes new_engine"
  by (rule registration_is_safe [OF engine_wf_new])

text \<open>A request whose path matches a registered route of its method gets that route's chain
  and parameters, whatever static mounts exist and in whatever order the trees are read: static
  mounts and the OPTIONS fallback never shadow a route.\<close>

theorem routes_are_never_shadowed:
  assumes "engine_ok e" and "path \<noteq> []" and "hd path = CHR ''/''" and "m \<noteq> []" and "hs \<noteq> []"
    and "compatible (engine_root e m) path" and "route_match path q = Some ps"
  shows "\<exists>e'. engine_add_route e m path hs = Inr e' \<and>
    serve (add_static_route e' mount sh) ms m q = Some (Chain hs, Some ps)"
proof -
  obtain e' where e': "engine_add_route e m path hs = Inr e'"
    "engine_lookup e' m q = with_route path hs (engine_lookup e m) q"
    using engine_add_route_ok [OF assms(1-6)] by blast
  have "engine_lookup (add_static_route e' mount sh) m q = Some (ps, hs)"
    using e'(2) assms(7) by (simp add: with_route_def engine_lookup_def tree_of_def add_static_route_def)
  with e'(1) show ?thesis by (auto intro: serve_registered)
qed

theorem routes_are_never_shadowed_witness:
  "\<exists>e'. engine_add_route (new_engine :: nat engine) ''GET'' ''/users/:id'' [7] = Inr e' \<and>
    serve (add_static_route e' ''/'' [9]) [''GET''] ''GET'' ''/users/42'' =
      Some (Chain [7], Some [\<lparr>param_key = ''id'', param_value = ''42''\<rparr>])"
proof (rule routes_are_never_shadowed)
  show "engine_ok (new_engine :: nat engine)" by (rule engine_ok_new)
  show "compatible (engine_root (new_engine :: nat engine) ''GET'') ''/users/:id''" by code_simp
  show "route_match ''/users/:id'' ''/users/42'' = Some [\<lparr>param_key = ''id'', param_value = ''42''\<rparr>]"
    by code_simp
qed simp_all

text \<open>A static mount serves only relative names below its root: the name it resolves is
  never absolute and has no empty, \<open>.\<close> or \<open>..\<close> element, so a request cannot leave the mount.\<close>

theorem static_name_stays_below_mount:
  assumes "static_relative_path mount req = Some rel"
  shows "rel \<noteq> [] \<and> hd rel \<noteq> CHR ''/'' \<and>
    (\<forall>e\<in>set (split_byte CHR ''/'' rel). e \<notin> {[], ''.'', ''..''}) \<and>
    (mount = ''/'' \<or> req = mount \<or> has_prefix req (mount @ ''/''))"
proof -
  note safe = static_relative_path_safe [OF assms]
  have "rel \<noteq> []" and "hd rel \<noteq> CHR ''/''"
    using safe by (cases rel; force)+
  with safe assms show ?thesis by (auto simp: static_relative_path_def split: if_splits)
qed

theorem static_name_stays_below_mount_witness:
  "static_relative_path ''/assets'' ''/assets//css/app.css'' = Some ''css/app.css'' \<and>
    hd ''css/app.css'' \<noteq> CHR ''/'' \<and>
    list_all (\<lambda>e. e \<notin> {[], ''.'', ''..''}) (split_byte CHR ''/'' ''css/app.css'')"
proof -
  have r: "static_relative_path ''/assets'' ''/assets//css/app.css'' = Some ''css/app.css''"
    by code_simp
  show ?thesis
    using r static_name_stays_below_mount [OF r] by (simp only: list_all_iff) simp
qed

text \<open>Among the static mounts of an engine the one with the longest mount path that accepts
  the request is used, and only for GET and HEAD.\<close>

theorem longest_static_mount_wins:
  assumes "engine_wf e" and "match_static_route e m req = Some hs"
  shows "(m = ''GET'' \<or> m = ''HEAD'') \<and>
    (\<exists>mount. (mount, hs) \<in> set (static_routes e) \<and> static_relative_path mount req \<noteq> None \<and>
      (\<forall>r\<in>set (static_routes e). static_relative_path (fst r) req \<noteq> None \<longrightarrow> length (fst r) \<le> length mount))"
proof -
  obtain r where r: "List.find (\<lambda>r. static_relative_path (fst r) req \<noteq> None) (static_routes e) = Some r" "hs = snd r"
    and m: "m = ''GET'' \<or> m = ''HEAD''"
    using assms(2) by (auto simp: match_static_route_def split: if_splits)
  have sorted: "sorted_wrt (\<lambda>a b. length (fst b) \<le> length (fst a)) (static_routes e)"
    using assms(1) by (simp add: engine_wf_def)
  from find_longest [OF sorted r(1)] r(2) m show ?thesis by (cases r) auto
qed

theorem longest_static_mount_wins_witness:
  "(''GET'' = ''GET'' \<or> ''GET'' = ''HEAD'') \<and>
    (\<exists>mount. (mount, [2::nat]) \<in> set (static_routes (add_static_route (add_static_route new_engine ''/'' [1]) ''/docs'' [2])) \<and>
      static_relative_path mount ''/docs/a.html'' \<noteq> None \<and>
      (\<forall>r\<in>set (static_routes (add_static_route (add_static_route new_engine ''/'' [1::nat]) ''/docs'' [2])).
        static_relative_path (fst r) ''/docs/a.html'' \<noteq> None \<longrightarrow> length (fst r) \<le> length mount))"
proof (rule longest_static_mount_wins)
  show "engine_wf (add_static_route (add_static_route (new_engine :: nat engine) ''/'' [1]) ''/docs'' [2])"
    by (intro engine_wf_add_static engine_wf_new)
  show "match_static_route (add_static_route (add_static_route new_engine ''/'' [1]) ''/docs'' [2::nat]) ''GET'' ''/docs/a.html'' = Some [2]"
    by code_simp
qed

text \<open>A literal sibling of a parameter is not supported: once \<open>/users/:id\<close> and then
  \<open>/users/me\<close> are registered for a method, no request below \<open>/users/\<close> finds a route any more,
  neither the parameter route nor the literal one.\<close>

theorem literal_sibling_loses_parameter_route:
  fixes h k :: nat
  shows "\<exists>t. register_with add_route empty_node [(''/users/:id'', [h]), (''/users/me'', [k])] = Some t \<and>
     (\<forall>v. route_lookup t (''/users/'' @ v) = None)"
proof -
  let ?w = "Node [] '':m'' False NodeStatic []
    [Node '':id'' [] False NodeParam ''id'' [] (Some [h]), Node ''me'' [] False NodeStatic [] [] (Some [k])] None"
  let ?c = "Node ''/users/'' [] True NodeStatic [] [?w] None"
  let ?t = "Node [] ''/'' False NodeStatic [] [?c] None"
  have reg: "register_with add_route empty_node [(''/users/:id'', [h]), (''/users/me'', [k])] = Some ?t"
    by code_simp
  have "route_lookup ?t (''/users/'' @ v) = None" if "v \<noteq> []" for v
  proof -
    have "route_lookup ?t ([] @ (''/users/'' @ v)) = route_lookup ?c (''/users/'' @ v)"
      by (subst route_lookup_index [where n = ?t, simplified]) (simp_all add: index_byte_def)
    also have "\<dots> = wild_lookup ?w v"
      using route_lookup_wild [of v ?c] that by simp
    finally show ?thesis by (simp add: wild_lookup_def)
  qed
  moreover have "route_lookup ?t (''/users/'' @ []) = None"
    by code_simp
  ultimately show ?thesis using reg by metis
qed

end
