(* ===== verification/Context_Chain.thy ===== *)
theory Context_Chain
  imports Gpp_Prelude
begin

text \<open>
  \<^verbatim>\<open>context.go\<close>: the handler chain of a request with its 8-bit index, \<^verbatim>\<open>Next\<close> and \<^verbatim>\<open>Abort\<close>.
  A handler is a program tree: what it does between its calls of
  \<^verbatim>\<open>Next\<close> is visible as emitted marks, and it decides on the error \<^verbatim>\<open>Next\<close> returned. The
  nesting of \<^verbatim>\<open>Next\<close> is bounded by fuel; 256 is enough for every chain (\<open>next_has_enough_fuel\<close>).
\<close>

section \<open>The chain\<close>

datatype 'e handler =
    Return "'e option"
  | Emit nat "'e handler"
  | Abort "'e handler"
  | Call_Next "'e option \<Rightarrow> 'e handler"

record chain_ctx =
  chain_index :: int
  aborted :: bool
  marks :: "nat list"

datatype 'e outcome = Finished "'e option" chain_ctx | Index_Panic | Out_Of_Fuel

definition int8 :: "int \<Rightarrow> int" where
  "int8 x = (x + 128) mod 256 - 128"

definition abort_index :: int where "abort_index = 63"

definition new_context :: chain_ctx where
  "new_context = \<lparr>chain_index = -1, aborted = False, marks = []\<rparr>"

definition abort_ctx :: "chain_ctx \<Rightarrow> chain_ctx" where
  "abort_ctx c = c\<lparr>chain_index := abort_index, aborted := True\<rparr>"

definition next_index :: "chain_ctx \<Rightarrow> chain_ctx" where
  "next_index c = c\<lparr>chain_index := int8 (chain_index c + 1)\<rparr>"

primrec run_handler :: "'e handler \<Rightarrow> (chain_ctx \<Rightarrow> 'e outcome) \<Rightarrow> chain_ctx \<Rightarrow> 'e outcome" where
  "run_handler (Return e) nx c = Finished e c"
| "run_handler (Emit m h) nx c = run_handler h nx (c\<lparr>marks := marks c @ [m]\<rparr>)"
| "run_handler (Abort h) nx c = run_handler h nx (abort_ctx c)"
| "run_handler (Call_Next k) nx c =
     (case nx c of Finished e c' \<Rightarrow> run_handler (k e) nx c' | Index_Panic \<Rightarrow> Index_Panic | Out_Of_Fuel \<Rightarrow> Out_Of_Fuel)"

text \<open>The loop of \<^verbatim>\<open>Next\<close>; a negative index is a slice index out of range.\<close>

fun next_loop :: "nat \<Rightarrow> 'e handler list \<Rightarrow> chain_ctx \<Rightarrow> 'e outcome" where
  "next_loop 0 hs c = Out_Of_Fuel"
| "next_loop (Suc n) hs c =
     (if chain_index c < int8 (int (length hs)) then
        if aborted c then Finished None c
        else if chain_index c < 0 then Index_Panic
        else (case run_handler (hs ! nat (chain_index c)) (\<lambda>c. next_loop n hs (next_index c)) c of
                Finished None c' \<Rightarrow> next_loop n hs (next_index c')
              | r \<Rightarrow> r)
      else Finished None c)"

definition context_next :: "'e handler list \<Rightarrow> chain_ctx \<Rightarrow> 'e outcome" where
  "context_next hs c = next_loop 256 hs (next_index c)"

definition run_chain :: "'e handler list \<Rightarrow> 'e outcome" where
  "run_chain hs = context_next hs new_context"

subsection \<open>The fuel is enough\<close>

lemma int8_range: "-128 \<le> int8 x \<and> int8 x \<le> 127"
  by (simp add: int8_def)

lemma int8_id [simp]: "-128 \<le> x \<Longrightarrow> x \<le> 127 \<Longrightarrow> int8 x = x"
  by (simp add: int8_def)

definition at_least :: "int \<Rightarrow> chain_ctx \<Rightarrow> bool" where
  "at_least i c \<longleftrightarrow> (aborted c \<or> i \<le> chain_index c) \<and> -128 \<le> chain_index c \<and> chain_index c \<le> 127"

definition past :: "int \<Rightarrow> 'e outcome \<Rightarrow> bool" where
  "past i r = (case r of Finished e c \<Rightarrow> at_least i c | Index_Panic \<Rightarrow> True | Out_Of_Fuel \<Rightarrow> False)"

lemma past_simps [simp]: "past i (Finished e c) = at_least i c" "past i Index_Panic" "\<not> past i Out_Of_Fuel"
  by (simp_all add: past_def)

lemma run_handler_past:
  assumes "\<And>c. at_least i c \<Longrightarrow> past i (nx c)"
  shows "at_least i c \<Longrightarrow> past i (run_handler h nx c)"
proof (induction h arbitrary: c)
  case (Call_Next k)
  show ?case
  proof (cases "nx c")
    case (Finished e c')
    with assms [OF Call_Next.prems] have "at_least i c'" by simp
    from Call_Next.IH [OF rangeI this] Finished show ?thesis by simp
  qed (use assms [OF Call_Next.prems] in auto)
qed (auto simp: at_least_def abort_ctx_def abort_index_def)

lemma at_least_next: "at_least i c \<Longrightarrow> at_least (i + 1) (next_index c) \<or> \<not> aborted (next_index c) \<and> chain_index (next_index c) < 0"
  by (cases "chain_index c = 127") (auto simp: at_least_def next_index_def int8_def)

lemma at_least_mono: "at_least i c \<Longrightarrow> j \<le> i \<Longrightarrow> at_least j c"
  by (auto simp: at_least_def)

lemma next_loop_past:
  assumes "0 < int8 (int (length hs))"
  shows "0 < n \<Longrightarrow> 127 - i < int n \<Longrightarrow> at_least i c \<or> \<not> aborted c \<and> chain_index c < 0 \<Longrightarrow> past i (next_loop n hs c)"
proof (induction n arbitrary: c i)
  case (Suc n)
  show ?case
  proof (cases "chain_index c < int8 (int (length hs)) \<and> \<not> aborted c \<and> \<not> chain_index c < 0")
    case True
    with Suc.prems have c: "i \<le> chain_index c" "at_least (chain_index c) c" by (auto simp: at_least_def)
    have len: "chain_index c \<le> 126" using True int8_range [of "int (length hs)"] by linarith
    show ?thesis
    proof (cases "n = 0")
      case True
      then show ?thesis using Suc.prems(2) c len by simp
    next
      case False
      have sub: "past (chain_index c + 1) (next_loop n hs (next_index d))" if "at_least (chain_index c) d" for d
        using Suc.IH [of "chain_index c + 1" "next_index d"] at_least_next [OF that] False Suc.prems(2) c(1) by auto
      then have weak: "past (chain_index c) (next_loop n hs (next_index d))" if "at_least (chain_index c) d" for d
        using that at_least_mono by (fastforce simp: past_def split: outcome.splits)
      have run: "past (chain_index c) (run_handler (hs ! nat (chain_index c)) (\<lambda>c. next_loop n hs (next_index c)) c)"
        by (rule run_handler_past [OF weak c(2)])
      show ?thesis
      proof (cases "run_handler (hs ! nat (chain_index c)) (\<lambda>c. next_loop n hs (next_index c)) c")
        case (Finished e d)
        with run have d: "at_least (chain_index c) d" by simp
        then show ?thesis
          using True Finished weak [OF d] c(1) at_least_mono [of "chain_index c" _ i]
          by (cases e) (auto simp: past_def split: outcome.splits)
      qed (use run True in auto)
    qed
  next
    case False
    then show ?thesis using Suc.prems assms by (auto simp: at_least_def)
  qed
qed simp

lemma next_loop_no_handler:
  "int8 (int (length hs)) \<le> 0 \<Longrightarrow> next_loop (Suc n) hs c =
    (if chain_index c < int8 (int (length hs)) \<and> \<not> aborted c then Index_Panic else Finished None c)"
  by auto

theorem next_has_enough_fuel:
  assumes "-128 \<le> chain_index c" and "chain_index c \<le> 127"
  shows "context_next hs c \<noteq> Out_Of_Fuel"
proof (cases "0 < int8 (int (length hs))")
  case True
  have "at_least (- 128) (next_index c)" using int8_range by (simp add: at_least_def next_index_def)
  then have "past (- 128) (next_loop 256 hs (next_index c))" by (intro next_loop_past [OF True]) simp_all
  then show ?thesis by (auto simp: context_next_def)
next
  case False
  then have "int8 (int (length hs)) \<le> 0" by simp
  from next_loop_no_handler [OF this, of 255] show ?thesis
    by (simp add: context_next_def numeral_eq_Suc)
qed

subsection \<open>Middleware around a handler\<close>

text \<open>A middleware that works, calls \<^verbatim>\<open>Next\<close>, works again and passes the error on.\<close>

definition around :: "nat \<times> nat \<Rightarrow> 'e handler" where
  "around ab = Emit (fst ab) (Call_Next (\<lambda>e. Emit (snd ab) (Return e)))"

text \<open>The last handler that runs: it returns an error or not, after aborting or not.\<close>

definition leaf :: "nat \<Rightarrow> bool \<Rightarrow> 'e option \<Rightarrow> 'e handler" where
  "leaf m ab e = Emit m (if ab then Abort (Return e) else Return e)"

lemma next_loop_aborted: "aborted c \<Longrightarrow> next_loop (Suc n) hs c = Finished None c"
  by simp

lemma next_loop_end: "int8 (int (length hs)) \<le> chain_index c \<Longrightarrow> next_loop (Suc n) hs c = Finished None c"
  by simp

lemma int8_nat: "n \<le> 127 \<Longrightarrow> int8 (int n) = int n"
  by simp

definition ends_here :: "'e handler list \<Rightarrow> nat \<Rightarrow> bool \<Rightarrow> 'e option \<Rightarrow> chain_ctx \<Rightarrow> bool" where
  "ends_here hs k ab e c \<longleftrightarrow> (e = None \<longrightarrow> (if ab then aborted c else \<not> aborted c \<and> chain_index c = int (length hs + k)))"

lemma leaf_runs:
  assumes "hs = pre @ leaf m ab e # post" and "length hs \<le> 127" and "ab \<or> e \<noteq> None \<or> post = []"
    and "c = \<lparr>chain_index = int (length pre), aborted = False, marks = mk\<rparr>"
  shows "\<exists>c'. next_loop (Suc (Suc n)) hs c = Finished e c' \<and> marks c' = mk @ [m] \<and> ends_here hs 0 ab e c'"
proof -
  have run: "chain_index c < int8 (int (length hs))" "hs ! nat (chain_index c) = leaf m ab e"
    using assms by (simp_all add: int8_nat)
  consider (err) x where "e = Some x" | (abort) "e = None" "ab" | (last) "e = None" "\<not> ab" "post = []"
    using assms(3) by (cases e) auto
  then show ?thesis
  proof cases
    case err
    then show ?thesis using run assms(4) by (cases ab) (auto simp: leaf_def ends_here_def abort_ctx_def)
  next
    case abort
    then show ?thesis using run assms(4) by (simp add: leaf_def ends_here_def abort_ctx_def next_index_def)
  next
    case last
    then have "next_loop (Suc n) hs (next_index (c\<lparr>marks := mk @ [m]\<rparr>)) = Finished None (next_index (c\<lparr>marks := mk @ [m]\<rparr>))"
      using assms(1,2,4) by (intro next_loop_end) (simp add: next_index_def int8_nat)
    then show ?thesis using last run assms(1,2,4) by (simp add: leaf_def ends_here_def next_index_def)
  qed
qed

lemma around_runs:
  assumes "hs = pre @ map around ms @ leaf m ab e # post" and "length hs \<le> 127" and "ab \<or> e \<noteq> None \<or> post = []"
    and "ab \<or> e \<noteq> None \<or> length hs + length ms \<le> 127"
    and "c = \<lparr>chain_index = int (length pre), aborted = False, marks = mk\<rparr>" and "length ms + 2 \<le> n"
  shows "\<exists>c'. next_loop n hs c = Finished e c' \<and> marks c' = mk @ map fst ms @ [m] @ rev (map snd ms) \<and>
    ends_here hs (length ms) ab e c'"
  using assms
proof (induction ms arbitrary: pre c mk n)
  case Nil
  then obtain k where "n = Suc (Suc k)" by (metis add_2_eq_Suc' le_Suc_ex list.size(3) add_0 add_Suc)
  then show ?case using leaf_runs [of hs pre m ab e post c mk k] Nil by simp
next
  case (Cons p ms)
  obtain k where n: "n = Suc k" using Cons.prems(6) by (cases n) auto
  let ?c1 = "\<lparr>chain_index = int (length (pre @ [around p])), aborted = False, marks = mk @ [fst p]\<rparr>"
  have "\<exists>c'. next_loop k hs ?c1 = Finished e c' \<and> marks c' = (mk @ [fst p]) @ map fst ms @ [m] @ rev (map snd ms) \<and>
      ends_here hs (length ms) ab e c'"
    by (rule Cons.IH) (use Cons.prems n in auto)
  then obtain c' where c': "next_loop k hs ?c1 = Finished e c'"
      "marks c' = (mk @ [fst p]) @ map fst ms @ [m] @ rev (map snd ms)" "ends_here hs (length ms) ab e c'" by blast
  have run: "chain_index c < int8 (int (length hs))" "hs ! nat (chain_index c) = around p" "0 \<le> chain_index c" "\<not> aborted c"
    using Cons.prems(1,2,5) by (simp_all add: int8_nat)
  have nx: "next_index (c\<lparr>marks := mk @ [fst p]\<rparr>) = ?c1"
    using Cons.prems(1,2,5) by (simp add: next_index_def)
  let ?d = "c'\<lparr>marks := marks c' @ [snd p]\<rparr>"
  have step: "next_loop n hs c = (case e of None \<Rightarrow> next_loop k hs (next_index ?d) | Some x \<Rightarrow> Finished (Some x) ?d)"
    using run nx c'(1) Cons.prems(5) by (cases e) (simp_all add: n around_def)
  obtain k' where k: "k = Suc k'" using Cons.prems(6) n by (cases k) auto
  show ?case
  proof (cases e)
    case None
    have "next_loop k hs (next_index ?d) = Finished None (next_index ?d)"
    proof (cases "aborted c'")
      case True
      then show ?thesis unfolding k by (intro next_loop_aborted) (simp add: next_index_def)
    next
      case False
      then have "chain_index c' = int (length hs + length ms)" "length hs + Suc (length ms) \<le> 127"
        using c'(3) None Cons.prems(4) by (auto simp: ends_here_def split: if_splits)
      then show ?thesis unfolding k by (intro next_loop_end) (simp add: next_index_def int8_nat)
    qed
    moreover have "ends_here hs (length (p # ms)) ab e (next_index ?d)"
      using c'(3) None Cons.prems(4) by (auto simp: ends_here_def next_index_def split: if_splits)
    ultimately show ?thesis using step c'(2) None by (simp add: next_index_def)
  next
    case (Some x)
    then show ?thesis using step c'(2) by (auto simp: ends_here_def)
  qed
qed

section \<open>Properties\<close>

text \<open>C19. Middlewares run around the handler like the layers of an onion: outside in before it, inside
  out after it; the handler's result goes through them, and when it returned an error or aborted,
  no later handler of the chain runs.\<close>

theorem middlewares_wrap_the_handler:
  assumes "hs = map around ms @ leaf m ab e # post" and "length hs \<le> 127" and "ab \<or> e \<noteq> None \<or> post = []"
    and "ab \<or> e \<noteq> None \<or> length hs + length ms \<le> 127"
  shows "\<exists>c. run_chain hs = Finished e c \<and> marks c = map fst ms @ [m] @ rev (map snd ms)"
proof -
  have "\<exists>c'. next_loop 256 hs \<lparr>chain_index = int (length ([] :: 'a handler list)), aborted = False, marks = []\<rparr> = Finished e c' \<and>
      marks c' = [] @ map fst ms @ [m] @ rev (map snd ms) \<and> ends_here hs (length ms) ab e c'"
    by (rule around_runs [where post = post]) (use assms in simp_all)
  then show ?thesis by (auto simp: run_chain_def context_next_def new_context_def next_index_def)
qed

theorem middlewares_wrap_the_handler_witness:
  "\<exists>c. run_chain [around (1, 10), around (2, 20), leaf 3 True (None :: unit option), Emit 4 (Return None)] = Finished None c \<and>
     marks c = [1, 2, 3, 20, 10]"
  using middlewares_wrap_the_handler
    [of "[around (1, 10), around (2, 20), leaf 3 True (None :: unit option), Emit 4 (Return None)]"
        "[(1, 10), (2, 20)]" 3 True None "[Emit 4 (Return None)]"]
  by simp

text \<open>The number of handlers is read as an 8-bit integer: a chain of 128 to 255 handlers runs none
  of them, its security middlewares included, and reports success.\<close>

theorem chains_from_128_handlers_run_nothing:
  assumes "128 \<le> length hs" and "length hs \<le> 255"
  shows "\<exists>c. run_chain hs = Finished None c \<and> marks c = []"
proof -
  have "int8 (int (length hs)) < 0" using assms unfolding int8_def by presburger
  then have "next_loop (Suc 255) hs (next_index new_context) = Finished None (next_index new_context)"
    by (intro next_loop_end) (simp add: new_context_def next_index_def)
  then show ?thesis by (simp add: run_chain_def context_next_def new_context_def next_index_def)
qed

theorem chains_from_128_handlers_run_nothing_witness:
  "\<exists>c. run_chain (replicate 130 (Emit 1 (Return (Some ''denied'')))) = Finished None c \<and> marks c = []"
  by (rule chains_from_128_handlers_run_nothing) simp_all

text \<open>\<open>Next\<close> is not a boundary for errors: when a middleware answers an error of the rest of the
  chain itself and returns none, the chain resumes with the handler after the one that failed.\<close>

theorem swallowed_errors_resume_the_chain:
  "\<exists>c. run_chain [Call_Next (\<lambda>e. Return None), Emit 1 (Return (Some err)), Emit 2 (Return None)] = Finished None c \<and>
     marks c = [1, 2]"
  by (simp add: run_chain_def context_next_def new_context_def next_index_def numeral_eq_Suc)


text \<open>C20. Whatever its handlers do, the chain of every request comes to an end: however deep they nest their
  calls of \<open>Next\<close>, the 8-bit index bounds the nesting.\<close>

theorem every_chain_ends: "run_chain hs \<noteq> Out_Of_Fuel"
  unfolding run_chain_def by (rule next_has_enough_fuel) (simp_all add: new_context_def)

end
