(* ===== verification/Request_Errors.thy ===== *)
theory Request_Errors
  imports Gpp_Prelude
begin

text \<open>
  \<^verbatim>\<open>errors.go\<close>, \<^verbatim>\<open>response.go\<close> and \<^verbatim>\<open>defaultErrorHandler\<close> of \<^verbatim>\<open>gpp.go\<close>: the error values of the
  framework, wrapped and joined as Go errors are, and the response a request gets for one.
\<close>

record violation =
  v_field :: string
  v_rule :: string
  v_message :: string

record problem =
  p_type :: string
  p_title :: string
  p_status :: int
  p_detail :: string
  p_instance :: string
  p_trace :: string
  p_errors :: "violation list"

record http_error =
  h_code :: int
  h_message :: string

text \<open>A Go error: the three types the handler looks for, an error wrapping another, a joined error,
  and any other. An internal failure unwraps to its cause.\<close>

datatype go_error =
    Internal_Failure string string go_error string int
      \<comment> \<open>operation, category, cause, public detail, status\<close>
  | Problem_Details problem
  | Http_Error http_error
  | Wrapping string go_error
  | Joined "go_error list"
  | Plain string

definition err_problem :: "string \<Rightarrow> string \<Rightarrow> int \<Rightarrow> string \<Rightarrow> problem" where
  "err_problem ty title status detail =
     \<lparr>p_type = ''https://goplusplus.dev/errors/'' @ ty, p_title = title, p_status = status, p_detail = detail,
      p_instance = [], p_trace = [], p_errors = []\<rparr>"

definition err_not_found :: "string \<Rightarrow> problem" where
  "err_not_found = err_problem ''not-found'' ''Resource Not Found'' 404"
definition err_bad_request :: "string \<Rightarrow> problem" where
  "err_bad_request = err_problem ''bad-request'' ''Bad Request'' 400"
definition err_validation :: "violation list \<Rightarrow> problem" where
  "err_validation vs = (err_problem ''validation'' ''Request validation failed'' 400
     ''One or more fields are invalid'')\<lparr>p_errors := vs\<rparr>"
definition err_unauthorized :: "string \<Rightarrow> problem" where
  "err_unauthorized = err_problem ''unauthorized'' ''Unauthorized Access'' 401"
definition err_forbidden :: "string \<Rightarrow> problem" where
  "err_forbidden = err_problem ''forbidden'' ''Access Forbidden'' 403"
definition err_conflict :: "string \<Rightarrow> problem" where
  "err_conflict = err_problem ''conflict'' ''Resource Conflict'' 409"
definition err_request_timeout :: "string \<Rightarrow> problem" where
  "err_request_timeout = err_problem ''request-timeout'' ''Request Timeout'' 504"
definition err_internal :: "string \<Rightarrow> problem" where
  "err_internal = err_problem ''internal-error'' ''Internal Server Error'' 500"

text \<open>The options of \<^verbatim>\<open>NewInternalError\<close>, without the log attributes.\<close>

datatype internal_option = With_Category string | With_Public_Detail string | With_Status int

fun apply_option :: "internal_option \<Rightarrow> string \<times> string \<times> int \<Rightarrow> string \<times> string \<times> int" where
  "apply_option (With_Category c) (cat, pub, st) = (if c \<noteq> [] then (c, pub, st) else (cat, pub, st))"
| "apply_option (With_Public_Detail d) (cat, pub, st) = (cat, d, st)"
| "apply_option (With_Status s) (cat, pub, st) = (if 500 \<le> s \<and> s \<le> 599 then (cat, pub, s) else (cat, pub, st))"

definition new_internal_error :: "string \<Rightarrow> go_error option \<Rightarrow> internal_option list \<Rightarrow> go_error" where
  "new_internal_error operation cause options =
     (let cause = (case cause of None \<Rightarrow> Plain ''unspecified internal failure'' | Some e \<Rightarrow> e);
          (cat, pub, st) = fold apply_option options (''internal_error'', [], 500)
      in Internal_Failure operation cat cause pub st)"

text \<open>\<^verbatim>\<open>errors.As\<close>: the first error of the type, the error itself before what it wraps.\<close>

fun find_internal :: "go_error \<Rightarrow> go_error option" and find_internals :: "go_error list \<Rightarrow> go_error option" where
  "find_internal (Internal_Failure op cat cause pub st) = Some (Internal_Failure op cat cause pub st)"
| "find_internal (Wrapping s e) = find_internal e"
| "find_internal (Joined es) = find_internals es"
| "find_internal e = None"
| "find_internals [] = None"
| "find_internals (e # es) = (case find_internal e of Some x \<Rightarrow> Some x | None \<Rightarrow> find_internals es)"

fun find_problem :: "go_error \<Rightarrow> problem option" and find_problems :: "go_error list \<Rightarrow> problem option" where
  "find_problem (Problem_Details p) = Some p"
| "find_problem (Internal_Failure op cat cause pub st) = find_problem cause"
| "find_problem (Wrapping s e) = find_problem e"
| "find_problem (Joined es) = find_problems es"
| "find_problem e = None"
| "find_problems [] = None"
| "find_problems (e # es) = (case find_problem e of Some x \<Rightarrow> Some x | None \<Rightarrow> find_problems es)"

fun find_http :: "go_error \<Rightarrow> http_error option" and find_https :: "go_error list \<Rightarrow> http_error option" where
  "find_http (Http_Error h) = Some h"
| "find_http (Internal_Failure op cat cause pub st) = find_http cause"
| "find_http (Wrapping s e) = find_http e"
| "find_http (Joined es) = find_https es"
| "find_http e = None"
| "find_https [] = None"
| "find_https (e # es) = (case find_http e of Some x \<Rightarrow> Some x | None \<Rightarrow> find_https es)"

definition is_internal_failure :: "go_error \<Rightarrow> bool" where
  "is_internal_failure e \<longleftrightarrow> find_internal e \<noteq> None \<or>
     (case find_problem e of None \<Rightarrow> False | Some p \<Rightarrow> 500 \<le> p_status p)"

text \<open>What the client gets: a problem document, or the JSON object of an \<^verbatim>\<open>HTTPError\<close>.\<close>

datatype error_reply = Reply_Problem problem | Reply_Json http_error

definition generic_detail :: string where
  "generic_detail = ''An internal server error occurred''"

definition default_error_handler :: "bool \<Rightarrow> bool \<Rightarrow> string \<Rightarrow> string \<Rightarrow> go_error \<Rightarrow> error_reply option" where
  "default_error_handler is_aborted written path request_id err =
     (if is_aborted \<or> written then None
      else (case find_internal err of
          Some (Internal_Failure op cat cause pub st) \<Rightarrow>
            Some (Reply_Problem ((err_problem cat ''Internal Server Error'' st
              (if pub \<noteq> [] then pub else generic_detail))\<lparr>p_instance := path, p_trace := request_id\<rparr>))
        | _ \<Rightarrow>
            (case find_problem err of
               Some p \<Rightarrow>
                 let r = (if p_instance p = [] then p\<lparr>p_instance := path\<rparr> else p);
                     r = (if 500 \<le> p_status r then r\<lparr>p_detail := generic_detail, p_errors := []\<rparr> else r)
                 in Some (Reply_Problem (r\<lparr>p_trace := request_id\<rparr>))
             | None \<Rightarrow>
                 (case find_http err of
                    Some h \<Rightarrow>
                      if 500 \<le> h_code h
                      then Some (Reply_Problem ((err_problem ''internal-error'' ''Internal Server Error'' (h_code h)
                             generic_detail)\<lparr>p_instance := path, p_trace := request_id\<rparr>))
                      else Some (Reply_Json h)
                  | None \<Rightarrow>
                      Some (Reply_Problem ((err_problem ''internal-error'' ''Internal Server Error'' 500
                             generic_detail)\<lparr>p_instance := path, p_trace := request_id\<rparr>))))))"

fun reply_status :: "error_reply \<Rightarrow> int" where
  "reply_status (Reply_Problem p) = p_status p"
| "reply_status (Reply_Json h) = h_code h"

lemma find_internal_is: "find_internal e = Some x \<Longrightarrow> \<exists>op cat cause pub st. x = Internal_Failure op cat cause pub st"
  and "find_internals es = Some x \<Longrightarrow> \<exists>op cat cause pub st. x = Internal_Failure op cat cause pub st"
  by (induction e and es rule: find_internal_find_internals.induct) (auto split: option.splits)

lemma find_internals_None: "find_internals es = None \<longleftrightarrow> (\<forall>e\<in>set es. find_internal e = None)"
  by (induction es) (auto split: option.split)

lemma new_internal_status: "\<exists>op cat c pub st. new_internal_error operation cause opts = Internal_Failure op cat c pub st \<and> 500 \<le> st \<and> st \<le> 599"
proof -
  have "500 \<le> snd (snd (fold apply_option opts x)) \<and> snd (snd (fold apply_option opts x)) \<le> 599"
    if "500 \<le> snd (snd x)" "snd (snd x) \<le> 599" for x
    using that
  proof (induction opts arbitrary: x)
    case (Cons opt opts)
    have "500 \<le> snd (snd (apply_option opt x)) \<and> snd (snd (apply_option opt x)) \<le> 599"
      using Cons.prems by (cases opt; cases x) auto
    with Cons.IH show ?case by simp
  qed simp
  from this [of "(''internal_error'', [], 500)"] show ?thesis
    by (auto simp: new_internal_error_def Let_def split: prod.split)
qed

section \<open>Properties\<close>

text \<open>A response with a server-error status never carries the text or the violations of the error
  it answers: its detail is the generic sentence or the detail its author made public, and no
  violations are listed. An unanswered error always gets a response, unless the request was aborted
  or a response was started.\<close>

theorem server_errors_are_sanitised:
  "(default_error_handler ab wr path rid err = None \<longleftrightarrow> ab \<or> wr) \<and>
   (case default_error_handler ab wr path rid err of
      None \<Rightarrow> True
    | Some (Reply_Json h) \<Rightarrow> h_code h < 500
    | Some (Reply_Problem p) \<Rightarrow>
        p_status p < 500 \<or> (p_errors p = [] \<and>
          (p_detail p = generic_detail \<or>
           (\<exists>op cat cause st. find_internal err = Some (Internal_Failure op cat cause (p_detail p) st)))))"
proof -
  consider (int) op cat cause pub st where "find_internal err = Some (Internal_Failure op cat cause pub st)"
    | (none) "find_internal err = None"
    using find_internal_is by (cases "find_internal err") fastforce+
  then show ?thesis
  proof cases
    case int
    then show ?thesis by (auto simp: default_error_handler_def err_problem_def)
  next
    case none
    then show ?thesis
      by (auto simp: default_error_handler_def err_problem_def Let_def split: option.splits)
  qed
qed

text \<open>A server-side failure anywhere in an error's tree decides the response, whatever client error
  it is wrapped or joined with.\<close>

theorem internal_failures_win:
  assumes "find_internal e = Some (Internal_Failure op cat cause pub st)" and "\<forall>x\<in>set before. find_internal x = None"
  shows "\<exists>p. default_error_handler False False path rid (Wrapping w (Joined (before @ e # after))) = Some (Reply_Problem p) \<and>
    p_status p = st \<and> p_title p = ''Internal Server Error''"
proof -
  have "find_internals (before @ e # after) = Some (Internal_Failure op cat cause pub st)"
    using assms(2,1) by (induction before) auto
  then show ?thesis by (simp add: default_error_handler_def err_problem_def)
qed
theorem internal_failures_win_witness:
  "\<exists>p. default_error_handler False False ''/orders'' ''r1''
       (Wrapping ''save order'' (Joined ([Problem_Details (err_not_found ''order'')] @
          Internal_Failure ''orders.save'' ''database'' (Plain ''dsn=secret'') [] 503 # []))) = Some (Reply_Problem p) \<and>
     p_status p = 503 \<and> p_title p = ''Internal Server Error''"
  by (rule internal_failures_win) (simp_all add: err_not_found_def)

end
