(* ===== verification/Go_Strconv.thy ===== *)
theory Go_Strconv
  imports Gpp_Prelude
begin

text \<open>
  The parts of \<^verbatim>\<open>strings\<close>, \<^verbatim>\<open>strconv\<close> and \<^verbatim>\<open>encoding/base64\<close> that several components share:
  the order of strings, decimal integers and unpadded URL-safe base64. What the encoders write, the
  decoders read back.
\<close>

section \<open>The order of strings\<close>

text \<open>Go compares strings byte by byte.\<close>

fun list_lt :: "nat list \<Rightarrow> nat list \<Rightarrow> bool" where
  "list_lt xs [] = False"
| "list_lt [] (y # ys) = True"
| "list_lt (x # xs) (y # ys) = (x < y \<or> x = y \<and> list_lt xs ys)"

definition str_lt :: "string \<Rightarrow> string \<Rightarrow> bool" where
  "str_lt s t = list_lt (map of_char s) (map of_char t)"

lemma list_lt_append_eq [simp]: "list_lt (p @ xs) (p @ ys) = list_lt xs ys"
  by (induction p) auto

lemma list_lt_append: "length xs = length ys \<Longrightarrow> list_lt xs ys \<Longrightarrow> list_lt (xs @ us) (ys @ vs)"
  by (induction xs ys rule: list_lt.induct) auto

lemma list_lt_irrefl [simp]: "\<not> list_lt xs xs"
  by (induction xs) auto

lemma list_lt_trans: "list_lt xs ys \<Longrightarrow> list_lt ys zs \<Longrightarrow> list_lt xs zs"
proof (induction xs ys arbitrary: zs rule: list_lt.induct)
  case (2 y ys)
  then show ?case by (cases zs) auto
next
  case (3 x xs y ys)
  then show ?case by (cases zs) auto
qed simp

lemma list_lt_map:
  "(\<And>x y. x \<in> set xs \<Longrightarrow> y \<in> set ys \<Longrightarrow> x < y \<Longrightarrow> f x < f y) \<Longrightarrow> list_lt xs ys \<Longrightarrow> list_lt (map f xs) (map f ys)"
  by (induction xs ys rule: list_lt.induct) auto

section \<open>Decimal integers\<close>

fun digits_value :: "nat \<Rightarrow> string \<Rightarrow> nat option" where
  "digits_value acc [] = Some acc"
| "digits_value acc (c # cs) =
     (if (48 :: nat) \<le> of_char c \<and> (of_char c :: nat) \<le> 57 then digits_value (acc * 10 + (of_char c - 48)) cs else None)"

text \<open>\<^verbatim>\<open>strconv.ParseInt(s, 10, bits)\<close>: an optional sign, at least one digit, the value in range.\<close>

definition parse_int :: "nat \<Rightarrow> string \<Rightarrow> int option" where
  "parse_int bits s =
     (let (neg, ds) = (case s of [] \<Rightarrow> (False, [])
            | c # cs \<Rightarrow> if c = CHR ''-'' then (True, cs) else if c = CHR ''+'' then (False, cs) else (False, s))
      in if ds = [] then None
         else (case digits_value 0 ds of
             None \<Rightarrow> None
           | Some n \<Rightarrow> let v = (if neg then - int n else int n)
                       in if - (2 ^ (bits - 1)) \<le> v \<and> v < 2 ^ (bits - 1) then Some v else None))"

definition atoi :: "string \<Rightarrow> int option" where
  "atoi = parse_int 64"

lemma parse_int_range: "parse_int bits s = Some v \<Longrightarrow> - (2 ^ (bits - 1)) \<le> v \<and> v < 2 ^ (bits - 1)"
  by (auto simp: parse_int_def Let_def split: list.splits option.splits if_splits)

lemma atoi_int64: "atoi s = Some v \<Longrightarrow> int64 v"
  using parse_int_range [of 64 s v] by (simp add: atoi_def int64_def)


text \<open>\<^verbatim>\<open>strconv.Itoa\<close>.\<close>

definition digit_char :: "nat \<Rightarrow> char" where
  "digit_char d = char_of (48 + d)"

fun decimal :: "nat \<Rightarrow> string" where
  "decimal n = (if n < 10 then [digit_char n] else decimal (n div 10) @ [digit_char (n mod 10)])"

declare decimal.simps [simp del]

definition itoa :: "int \<Rightarrow> string" where
  "itoa i = (if i < 0 then CHR ''-'' # decimal (nat (- i)) else decimal (nat i))"

lemma digits_value_snoc:
  "d < 10 \<Longrightarrow> digits_value acc (s @ [digit_char d]) = map_option (\<lambda>v. v * 10 + d) (digits_value acc s)"
  by (induction acc s rule: digits_value.induct) (auto simp: digit_char_def)

lemma digits_value_decimal: "digits_value 0 (decimal n) = Some n"
proof (induction n rule: decimal.induct)
  case (1 n)
  show ?case
  proof (cases "n < 10")
    case True
    then show ?thesis by (subst decimal.simps) (simp add: digit_char_def)
  next
    case False
    then show ?thesis using 1 by (subst decimal.simps) (simp add: digits_value_snoc)
  qed
qed

lemma decimal_head: "\<exists>d cs. decimal n = digit_char d # cs \<and> d < 10"
proof (induction n rule: decimal.induct)
  case (1 n)
  then show ?case by (subst decimal.simps) fastforce
qed

lemma parse_int_itoa: "- (2 ^ (bits - 1)) \<le> i \<Longrightarrow> i < 2 ^ (bits - 1) \<Longrightarrow> parse_int bits (itoa i) = Some i"
proof -
  assume range: "- (2 ^ (bits - 1)) \<le> i" "i < 2 ^ (bits - 1)"
  obtain d cs where d: "decimal (nat i) = digit_char d # cs" "d < 10" using decimal_head by blast
  then have "digit_char d \<noteq> CHR ''-''" "digit_char d \<noteq> CHR ''+''"
    by (auto simp: digit_char_def dest!: arg_cong [of _ _ "of_char :: char \<Rightarrow> nat"])
  moreover have "decimal (nat (- i)) \<noteq> []" using decimal_head [of "nat (- i)"] by auto
  ultimately show ?thesis
    using range d digits_value_decimal [of "nat i"] digits_value_decimal [of "nat (- i)"]
    by (auto simp: parse_int_def itoa_def)
qed

lemma atoi_itoa: "int64 i \<Longrightarrow> atoi (itoa i) = Some i"
  unfolding atoi_def by (rule parse_int_itoa) (simp_all add: int64_def)

section \<open>Unpadded base64\<close>

text \<open>
  \<^verbatim>\<open>base64.RawURLEncoding\<close> and \<^verbatim>\<open>base64.RawStdEncoding\<close> differ in two letters. The decoder skips
  line ends; only the strict one looks at the unused bits of the last character.
\<close>

definition b64_letters :: string where
  "b64_letters = ''ABCDEFGHIJKLMNOPQRSTUVWXYZabcdefghijklmnopqrstuvwxyz0123456789''"

definition b64_alphabet :: string where
  "b64_alphabet = b64_letters @ ''-_''"

definition b64_std_alphabet :: string where
  "b64_std_alphabet = b64_letters @ ''+/''"

fun b64_sextets :: "nat list \<Rightarrow> nat list" where
  "b64_sextets [] = []"
| "b64_sextets [a] = [a div 4, a mod 4 * 16]"
| "b64_sextets [a, b] = [a div 4, a mod 4 * 16 + b div 16, b mod 16 * 4]"
| "b64_sextets (a # b # c # bs) =
     [a div 4, a mod 4 * 16 + b div 16, b mod 16 * 4 + c div 64, c mod 64] @ b64_sextets bs"

fun b64_bytes :: "nat list \<Rightarrow> nat list option" where
  "b64_bytes [] = Some []"
| "b64_bytes [w] = None"
| "b64_bytes [w, x] = Some [w * 4 + x div 16]"
| "b64_bytes [w, x, y] = Some [w * 4 + x div 16, x mod 16 * 16 + y div 4]"
| "b64_bytes (w # x # y # z # ss) =
     map_option (\<lambda>bs. (w * 4 + x div 16) # (x mod 16 * 16 + y div 4) # (y mod 4 * 64 + z) # bs) (b64_bytes ss)"

text \<open>The unused bits of the last character are zero.\<close>

fun b64_padded :: "nat list \<Rightarrow> bool" where
  "b64_padded [] = True"
| "b64_padded [w] = True"
| "b64_padded [w, x] = (x mod 16 = 0)"
| "b64_padded [w, x, y] = (y mod 4 = 0)"
| "b64_padded (w # x # y # z # ss) = b64_padded ss"

definition b64_encode_in :: "string \<Rightarrow> string \<Rightarrow> string" where
  "b64_encode_in alphabet s = map (\<lambda>n. alphabet ! n) (b64_sextets (map of_char s))"

definition b64_decode_in :: "string \<Rightarrow> bool \<Rightarrow> string \<Rightarrow> string option" where
  "b64_decode_in alphabet strict s =
     (let cs = filter (\<lambda>c. c \<noteq> CHR 0x0A \<and> c \<noteq> CHR 0x0D) s; ns = map (index_byte alphabet) cs
      in if None \<in> set ns then None
         else if strict \<and> \<not> b64_padded (map the ns) then None
         else map_option (map char_of) (b64_bytes (map the ns)))"

abbreviation b64_encode :: "string \<Rightarrow> string" where
  "b64_encode \<equiv> b64_encode_in b64_alphabet"

abbreviation b64_decode :: "string \<Rightarrow> string option" where
  "b64_decode \<equiv> b64_decode_in b64_alphabet False"

abbreviation b64_decode_strict :: "string \<Rightarrow> string option" where
  "b64_decode_strict \<equiv> b64_decode_in b64_alphabet True"

lemma b64_sextets_bound: "\<forall>b\<in>set bs. b < 256 \<Longrightarrow> \<forall>n\<in>set (b64_sextets bs). n < 64"
  by (induction bs rule: b64_sextets.induct) auto

lemma b64_padded_sextets: "b64_padded (b64_sextets bs)"
  by (induction bs rule: b64_sextets.induct) auto

lemma b64_bytes_sextets: "\<forall>b\<in>set bs. b < 256 \<Longrightarrow> b64_bytes (b64_sextets bs) = Some bs"
proof -
  have split: "b div 16 div 16 = 0" "b div 16 mod 16 = b div 16" "b div 64 div 4 = 0" "b div 64 mod 4 = b div 64"
    if "b < 256" for b :: nat
    using that by (simp_all add: less_mult_imp_div_less)
  show "\<forall>b\<in>set bs. b < 256 \<Longrightarrow> ?thesis"
    by (induction bs rule: b64_sextets.induct) (simp_all add: split)
qed

text \<open>What the codecs need of an alphabet: 64 different characters, no line end and no separator.\<close>

definition b64_alphabet_ok :: "string \<Rightarrow> bool" where
  "b64_alphabet_ok a \<longleftrightarrow> length a = 64 \<and> distinct a \<and> CHR 0x0A \<notin> set a \<and> CHR 0x0D \<notin> set a
     \<and> CHR ''.'' \<notin> set a \<and> CHR ''$'' \<notin> set a \<and> CHR '' '' \<notin> set a \<and> CHR 0x09 \<notin> set a"

lemma b64_alphabets_ok [simp]: "b64_alphabet_ok b64_alphabet" "b64_alphabet_ok b64_std_alphabet"
  by code_simp+

lemma b64_encode_set: "b64_alphabet_ok a \<Longrightarrow> set (b64_encode_in a s) \<subseteq> set a"
proof -
  assume ok: "b64_alphabet_ok a"
  have "\<forall>n\<in>set (b64_sextets (map of_char s)). n < 64" by (rule b64_sextets_bound) simp
  then show ?thesis using ok by (auto simp: b64_encode_in_def b64_alphabet_ok_def)
qed

lemma b64_decode_encode: "b64_alphabet_ok a \<Longrightarrow> b64_decode_in a strict (b64_encode_in a s) = Some s"
proof -
  assume ok: "b64_alphabet_ok a"
  let ?ns = "b64_sextets (map of_char s)"
  have small: "\<forall>n\<in>set ?ns. n < 64" by (rule b64_sextets_bound) simp
  have "filter (\<lambda>c. c \<noteq> CHR 0x0A \<and> c \<noteq> CHR 0x0D) (b64_encode_in a s) = b64_encode_in a s"
    using b64_encode_set [OF ok, of s] ok by (auto simp: b64_alphabet_ok_def filter_id_conv)
  moreover have "map (index_byte a) (b64_encode_in a s) = map Some ?ns"
    using small ok by (simp add: b64_encode_in_def index_byte_distinct b64_alphabet_ok_def)
  moreover have "b64_bytes ?ns = Some (map of_char s)" by (rule b64_bytes_sextets) simp
  moreover have "None \<notin> set (map Some ?ns)" by auto
  ultimately show ?thesis
    unfolding b64_decode_in_def Let_def
    by (simp only: if_False map_map b64_padded_sextets option.sel comp_def)
       (simp add: b64_padded_sextets comp_def)
qed

section \<open>Runes\<close>

text \<open>A range loop over a string: the code points, an ill-formed byte is U+FFFD and one byte long.\<close>

definition rune_of :: "nat list \<Rightarrow> nat" where
  "rune_of bs = (case bs of
       [a] \<Rightarrow> a
     | [a, b] \<Rightarrow> (a mod 32) * 64 + b mod 64
     | [a, b, c] \<Rightarrow> (a mod 16) * 4096 + (b mod 64) * 64 + c mod 64
     | [a, b, c, d] \<Rightarrow> (a mod 8) * 262144 + (b mod 64) * 4096 + (c mod 64) * 64 + d mod 64
     | _ \<Rightarrow> 65533)"

function runes :: "string \<Rightarrow> nat list" where
  "runes [] = []"
| "runes (c # cs) =
     (case utf8_head (c # cs) of
        None \<Rightarrow> 65533 # runes cs
      | Some n \<Rightarrow> rune_of (map of_char (take n (c # cs))) # runes (drop (n - 1) cs))"
  by pat_completeness auto
termination
  by (relation "measure length") auto

lemma runes_ascii: "\<forall>c\<in>set s. byte_in c 0 127 \<Longrightarrow> runes s = map of_char s"
  by (induction s) (simp_all add: utf8_head_def rune_of_def)

text \<open>\<^verbatim>\<open>unicode.IsControl\<close> and \<^verbatim>\<open>unicode.IsSpace\<close>.\<close>

definition rune_is_control :: "nat \<Rightarrow> bool" where
  "rune_is_control r \<longleftrightarrow> r < 32 \<or> (127 \<le> r \<and> r < 160)"

definition rune_is_space :: "nat \<Rightarrow> bool" where
  "rune_is_space r \<longleftrightarrow> (9 \<le> r \<and> r \<le> 13) \<or> r = 32 \<or> r = 133 \<or> r = 160 \<or> r = 5760
     \<or> (8192 \<le> r \<and> r \<le> 8202) \<or> r = 8232 \<or> r = 8233 \<or> r = 8239 \<or> r = 8287 \<or> r = 12288"

lemma digit_char_code: "d < 10 \<Longrightarrow> (of_char (digit_char d) :: nat) = 48 + d"
  by (simp add: digit_char_def)

lemma decimal_set: "c \<in> set (decimal n) \<Longrightarrow> byte_in c 48 57"
proof (induction n rule: decimal.induct)
  case (1 n)
  then show ?case
    by (subst (asm) decimal.simps) (auto simp: byte_in_def digit_char_code split: if_splits)
qed

lemma length_decimal: "n < 10 ^ k \<Longrightarrow> 0 < k \<Longrightarrow> length (decimal n) \<le> k"
proof (induction k arbitrary: n)
  case (Suc k)
  show ?case
  proof (cases "n < 10")
    case True
    then show ?thesis by (subst decimal.simps) simp
  next
    case False
    then have "k \<noteq> 0" using Suc.prems by (cases k) auto
    moreover have "n div 10 < 10 ^ k" using Suc.prems by (simp add: div_less_iff_less_mult mult.commute)
    ultimately show ?thesis using Suc.IH [of "n div 10"] False by (subst decimal.simps) simp
  qed
qed simp

section \<open>Splitting\<close>

lemma split_byte_none: "c \<notin> set s \<Longrightarrow> split_byte c s = [s]"
  by (induction s) auto

lemma split_byte_append: "c \<notin> set s \<Longrightarrow> split_byte c (s @ c # r) = s # split_byte c r"
  by (induction s) auto

lemma split_byte_three: "split_byte c s = [x, y, z] \<longleftrightarrow> s = x @ c # y @ c # z \<and> c \<notin> set x \<and> c \<notin> set y \<and> c \<notin> set z"
proof
  assume s: "split_byte c s = [x, y, z]"
  have "c \<notin> set x" "c \<notin> set y" "c \<notin> set z" using split_byte_parts [of _ c s] s by auto
  then show "s = x @ c # y @ c # z \<and> c \<notin> set x \<and> c \<notin> set y \<and> c \<notin> set z"
    using join_split_byte [of c s] s by simp
qed (simp add: split_byte_append split_byte_none)

lemma length_b64_encode: "length (b64_encode_in a s) \<le> 2 * length s"
proof -
  have "length (b64_sextets bs) \<le> 2 * length bs" for bs
    by (induction bs rule: b64_sextets.induct) auto
  from this [of "map of_char s"] show ?thesis by (simp add: b64_encode_in_def)
qed

section \<open>Unsigned integers and comparisons\<close>

definition parse_uint :: "nat \<Rightarrow> string \<Rightarrow> nat option" where
  "parse_uint bits s =
     (if s = [] then None
      else (case digits_value 0 s of Some n \<Rightarrow> if n < 2 ^ bits then Some n else None | None \<Rightarrow> None))"

definition three_way :: "'a :: linorder \<Rightarrow> 'a \<Rightarrow> int" where
  "three_way a b = (if a < b then - 1 else if b < a then 1 else 0)"

definition str_compare :: "string \<Rightarrow> string \<Rightarrow> int" where
  "str_compare a b = (if a = b then 0 else if str_lt a b then - 1 else 1)"

text \<open>\<^verbatim>\<open>strings.Cut\<close>.\<close>

definition cut_at :: "char \<Rightarrow> string \<Rightarrow> string \<times> string" where
  "cut_at c s = (case index_byte s c of None \<Rightarrow> (s, []) | Some i \<Rightarrow> (take i s, drop (i + 1) s))"

text \<open>\<^verbatim>\<open>hex.DecodeString\<close>.\<close>

fun hex_decode :: "string \<Rightarrow> nat list option" where
  "hex_decode [] = Some []"
| "hex_decode [c] = None"
| "hex_decode (a # b # cs) =
     (case (hex_val a, hex_val b) of
        (Some x, Some y) \<Rightarrow> map_option ((#) (16 * x + y)) (hex_decode cs)
      | _ \<Rightarrow> None)"

lemma hex_decode_length: "hex_decode s = Some bs \<Longrightarrow> length s = 2 * length bs"
  by (induction s arbitrary: bs rule: hex_decode.induct) (auto split: option.splits)

section \<open>Letters, snake case and cut sets\<close>

definition is_upper :: "char \<Rightarrow> bool" where "is_upper c \<longleftrightarrow> byte_in c 65 90"
definition is_lower :: "char \<Rightarrow> bool" where "is_lower c \<longleftrightarrow> byte_in c 97 122"
definition is_digit :: "char \<Rightarrow> bool" where "is_digit c \<longleftrightarrow> byte_in c 48 57"

text \<open>The loop of \<^verbatim>\<open>toSnakeCase\<close> (in \<^verbatim>\<open>dbcore/orm.go\<close> and again in \<^verbatim>\<open>config/config.go\<close>), after the byte \<open>prev\<close>.\<close>

fun snake_loop :: "char option \<Rightarrow> string \<Rightarrow> string" where
  "snake_loop prev [] = []"
| "snake_loop prev (c # cs) =
     (let next_lower = (case cs of [] \<Rightarrow> False | d # _ \<Rightarrow> is_lower d);
          sep = (case prev of None \<Rightarrow> False
                 | Some p \<Rightarrow> is_upper c \<and> (is_lower p \<or> is_digit p \<or> (next_lower \<and> is_upper p)))
      in (if sep then [CHR ''_''] else []) @ c # snake_loop (Some c) cs)"

definition upper_char :: "char \<Rightarrow> char" where
  "upper_char c = (if is_lower c then char_of (of_char c - 32 :: nat) else c)"

definition to_upper :: "string \<Rightarrow> string" where
  "to_upper s = List.map upper_char s"

text \<open>\<^verbatim>\<open>strings.Trim\<close> with an ASCII cut set, and \<^verbatim>\<open>strings.SplitN(s, c, 2)\<close>.\<close>

definition trim_set :: "char set \<Rightarrow> string \<Rightarrow> string" where
  "trim_set cs s = rev (dropWhile (\<lambda>c. c \<in> cs) (rev (dropWhile (\<lambda>c. c \<in> cs) s)))"

definition split_first :: "char \<Rightarrow> string \<Rightarrow> string \<times> string option" where
  "split_first c s = (case index_byte s c of None \<Rightarrow> (s, None) | Some i \<Rightarrow> (take i s, Some (drop (i + 1) s)))"

end
