(* ===== verification/Validation_Rules.thy ===== *)
theory Validation_Rules
  imports Go_Strconv Request_Errors Complex_Main
begin

text \<open>
  \<^verbatim>\<open>validation_rules.go\<close>, \<^verbatim>\<open>validation_conditions.go\<close>, \<^verbatim>\<open>validation_formats.go\<close> and
  \<^verbatim>\<open>validation_errors.go\<close>: what a rule of a \<^verbatim>\<open>validate\<close> tag decides on a value and its owner. A value
  is seen as \<^verbatim>\<open>reflect\<close> shows it; floating-point values are rationals. What other packages decide (printing,
  letters, mail addresses, URLs, IP addresses, times) is the record \<open>env\<close>.
\<close>

section \<open>Reflected values\<close>

record field_meta =
  fm_name :: string
  fm_json :: string
  fm_tag :: string
  fm_exported :: bool

text \<open>\<open>RPtr\<close> carries the address it compares by, integers their number of bits, a time its distance
  from the zero time.\<close>

datatype rv =
    RInvalid
  | RBool bool
  | RInt nat int
  | RUint nat nat
  | RFloat rat
  | RString string
  | RTime int
  | RPtr nat "rv option"
  | RIface "rv option"
  | RSlice "rv list option"
  | RArray "rv list"
  | RMap "(rv \<times> rv) list option"
  | RStruct string "(field_meta \<times> rv) list"

record validation_env =
  print_value :: "rv \<Rightarrow> string"
  parse_float :: "string \<Rightarrow> rat option"
  is_letter :: "nat \<Rightarrow> bool"
  is_digit_rune :: "nat \<Rightarrow> bool"
  lower_text :: "string \<Rightarrow> string"
  upper_text :: "string \<Rightarrow> string"
  number_pattern :: "string \<Rightarrow> bool"
  other_format :: "string \<Rightarrow> string \<Rightarrow> string \<Rightarrow> bool"

record validation_rule =
  rule_name :: string
  rule_param :: string

datatype config_error = Config_Error string

fun deref :: "rv \<Rightarrow> rv" where
  "deref (RPtr a v) = (case v of None \<Rightarrow> RInvalid | Some x \<Rightarrow> deref x)"
| "deref (RIface v) = (case v of None \<Rightarrow> RInvalid | Some x \<Rightarrow> deref x)"
| "deref v = v"

fun is_nil_value :: "rv \<Rightarrow> bool" where
  "is_nil_value RInvalid = True"
| "is_nil_value (RIface v) = (case v of None \<Rightarrow> True | Some x \<Rightarrow> is_nil_value x)"
| "is_nil_value (RPtr a v) = (v = None)"
| "is_nil_value (RSlice v) = (v = None)"
| "is_nil_value (RMap v) = (v = None)"
| "is_nil_value v = False"

fun is_zero :: "rv \<Rightarrow> bool" where
  "is_zero RInvalid = True"
| "is_zero (RBool b) = (\<not> b)"
| "is_zero (RInt n i) = (i = 0)"
| "is_zero (RUint n i) = (i = 0)"
| "is_zero (RFloat x) = (x = 0)"
| "is_zero (RString s) = (s = [])"
| "is_zero (RTime t) = (t = 0)"
| "is_zero (RPtr a v) = (v = None)"
| "is_zero (RIface v) = (v = None)"
| "is_zero (RSlice v) = (v = None)"
| "is_zero (RArray vs) = list_all is_zero vs"
| "is_zero (RMap v) = (v = None)"
| "is_zero (RStruct t fs) = list_all (\<lambda>(m, v). is_zero v) fs"

fun is_empty_value :: "rv \<Rightarrow> bool" where
  "is_empty_value RInvalid = True"
| "is_empty_value (RIface v) = (case v of None \<Rightarrow> True | Some x \<Rightarrow> is_empty_value x)"
| "is_empty_value (RString s) = (s = [])"
| "is_empty_value (RMap v) = (case v of None \<Rightarrow> True | Some m \<Rightarrow> m = [])"
| "is_empty_value (RSlice v) = (case v of None \<Rightarrow> True | Some xs \<Rightarrow> xs = [])"
| "is_empty_value (RArray xs) = (xs = [] \<or> is_zero (RArray xs))"
| "is_empty_value v = is_zero v"

fun comparable_value :: "rv \<Rightarrow> bool" where
  "comparable_value (RSlice v) = False"
| "comparable_value (RMap v) = False"
| "comparable_value (RIface v) = (case v of None \<Rightarrow> True | Some x \<Rightarrow> comparable_value x)"
| "comparable_value (RArray vs) = list_all comparable_value vs"
| "comparable_value (RStruct t fs) = list_all (\<lambda>(m, v). comparable_value v) fs"
| "comparable_value v = True"

text \<open>\<^verbatim>\<open>valueInterface\<close> of a value: an interface stands for what it holds.\<close>

fun value_interface :: "rv \<Rightarrow> rv" where
  "value_interface (RIface (Some v)) = value_interface v"
| "value_interface v = v"

definition validation_string :: "rv \<Rightarrow> string \<Rightarrow> config_error + string" where
  "validation_string v rule =
     (case deref v of
        RInvalid \<Rightarrow> Inr []
      | RString s \<Rightarrow> Inr s
      | _ \<Rightarrow> Inl (Config_Error (rule @ '' requires a string'')))"

section \<open>Parameters and conditions\<close>

text \<open>\<^verbatim>\<open>splitValidationParameters\<close>: words separated by blanks, quotes keep blanks, a backslash keeps any
  character.\<close>

fun split_params :: "string list \<Rightarrow> string \<Rightarrow> char option \<Rightarrow> bool \<Rightarrow> string \<Rightarrow> string list option" where
  "split_params ps cur quote escaped [] =
     (if escaped \<or> quote \<noteq> None then None else Some (if cur = [] then ps else ps @ [cur]))"
| "split_params ps cur quote escaped (c # cs) =
     (if escaped then split_params ps (cur @ [c]) quote False cs
      else if c = CHR 0x5C then split_params ps cur quote True cs
      else (case quote of
          Some q \<Rightarrow> if c = q then split_params ps cur None False cs else split_params ps (cur @ [c]) quote False cs
        | None \<Rightarrow>
            if c = CHR 0x27 \<or> c = CHR 0x22 then split_params ps cur (Some c) False cs
            else if c = CHR 0x20 \<or> c = CHR 0x09
            then split_params (if cur = [] then ps else ps @ [cur]) [] None False cs
            else split_params ps (cur @ [c]) None False cs))"

definition split_validation_parameters :: "string \<Rightarrow> string list option" where
  "split_validation_parameters s = split_params [] [] None False s"

definition struct_field :: "(field_meta \<times> rv) list \<Rightarrow> string \<Rightarrow> rv option" where
  "struct_field fs name = map_option snd (find (\<lambda>(m, v). fm_name m = name) fs)"

fun field_path :: "string \<Rightarrow> string list \<Rightarrow> rv \<Rightarrow> rv option" where
  "field_path path [] v = Some v"
| "field_path path (seg # segs) v =
     (case v of
        RStruct t fs \<Rightarrow>
          (case struct_field fs seg of
             None \<Rightarrow> None
           | Some x \<Rightarrow> field_path path segs (if seg \<noteq> path then deref x else x))
      | _ \<Rightarrow> None)"

definition field_by_validation_path :: "rv \<Rightarrow> string \<Rightarrow> rv option" where
  "field_by_validation_path owner path = field_path path (split_byte CHR ''.'' path) (deref owner)"

fun pair_conditions :: "validation_env \<Rightarrow> rv \<Rightarrow> string list \<Rightarrow> config_error + bool" where
  "pair_conditions env owner (f # val # ps) =
     (case field_by_validation_path owner f of
        None \<Rightarrow> Inl (Config_Error (''unknown conditional field: '' @ f))
      | Some x \<Rightarrow>
          (case pair_conditions env owner ps of
             Inl e \<Rightarrow> Inl e
           | Inr m \<Rightarrow> Inr (print_value env (value_interface (deref x)) = val \<and> m)))"
| "pair_conditions env owner _ = Inr True"

fun count_present :: "rv \<Rightarrow> string list \<Rightarrow> config_error + nat" where
  "count_present owner [] = Inr 0"
| "count_present owner (f # fs) =
     (case field_by_validation_path owner f of
        None \<Rightarrow> Inl (Config_Error (''unknown conditional field: '' @ f))
      | Some x \<Rightarrow>
          (case count_present owner fs of
             Inl e \<Rightarrow> Inl e
           | Inr n \<Rightarrow> Inr (if is_empty_value x then n else Suc n)))"

definition validation_condition_triggered :: "validation_env \<Rightarrow> rv \<Rightarrow> validation_rule \<Rightarrow> config_error + bool" where
  "validation_condition_triggered env owner rule =
     (case split_validation_parameters (rule_param rule) of
        None \<Rightarrow> Inl (Config_Error (rule_name rule @ '' requires field parameters''))
      | Some ps \<Rightarrow>
          if ps = [] then Inl (Config_Error (rule_name rule @ '' requires field parameters''))
          else (let suffix = trim_prefix (trim_prefix (rule_name rule) ''required_'') ''excluded_''
                in if suffix = ''if'' \<or> suffix = ''unless'' then
                     (if length ps mod 2 \<noteq> 0 then Inl (Config_Error (rule_name rule @ '' requires field/value pairs''))
                      else (case pair_conditions env owner ps of
                          Inl e \<Rightarrow> Inl e
                        | Inr m \<Rightarrow> Inr (if suffix = ''unless'' then \<not> m else m)))
                   else if suffix = ''with'' \<or> suffix = ''with_all'' \<or> suffix = ''without'' \<or> suffix = ''without_all'' then
                     (case count_present owner ps of
                        Inl e \<Rightarrow> Inl e
                      | Inr present \<Rightarrow>
                          Inr (if suffix = ''with'' then 0 < present
                               else if suffix = ''with_all'' then present = length ps
                               else if suffix = ''without'' then present < length ps
                               else present = 0))
                   else Inl (Config_Error (''invalid conditional rule: '' @ rule_name rule))))"

definition validate_required_condition :: "validation_env \<Rightarrow> rv \<Rightarrow> rv \<Rightarrow> validation_rule \<Rightarrow> config_error + bool" where
  "validate_required_condition env v owner rule =
     (case validation_condition_triggered env owner rule of
        Inl e \<Rightarrow> Inl e | Inr t \<Rightarrow> Inr (\<not> t \<or> \<not> is_empty_value v))"

definition validate_excluded_condition :: "validation_env \<Rightarrow> rv \<Rightarrow> rv \<Rightarrow> validation_rule \<Rightarrow> config_error + bool" where
  "validate_excluded_condition env v owner rule =
     (case validation_condition_triggered env owner rule of
        Inl e \<Rightarrow> Inl e | Inr t \<Rightarrow> Inr (\<not> t \<or> is_empty_value v))"

section \<open>Comparisons\<close>

definition invalid_parameter :: "string \<Rightarrow> config_error" where
  "invalid_parameter p = Config_Error (''invalid validation parameter: '' @ p)"

definition length_comparison :: "nat \<Rightarrow> string \<Rightarrow> config_error + int" where
  "length_comparison n p =
     (case parse_int 64 p of None \<Rightarrow> Inl (invalid_parameter p) | Some l \<Rightarrow> Inr (three_way (int n) l))"

definition compare_value_to_parameter :: "validation_env \<Rightarrow> rv \<Rightarrow> validation_rule \<Rightarrow> config_error + int" where
  "compare_value_to_parameter env v rule =
     (let p = rule_param rule
      in case v of
           RString s \<Rightarrow>
             if rule_name rule = ''eq'' \<or> rule_name rule = ''ne'' then Inr (str_compare s p)
             else length_comparison (length (runes s)) p
         | RArray xs \<Rightarrow> length_comparison (length xs) p
         | RMap m \<Rightarrow> length_comparison (case m of None \<Rightarrow> 0 | Some es \<Rightarrow> length es) p
         | RSlice xs \<Rightarrow> length_comparison (case xs of None \<Rightarrow> 0 | Some es \<Rightarrow> length es) p
         | RInt bits i \<Rightarrow> (case parse_int bits p of None \<Rightarrow> Inl (invalid_parameter p) | Some e \<Rightarrow> Inr (three_way i e))
         | RUint bits i \<Rightarrow> (case parse_uint bits p of None \<Rightarrow> Inl (invalid_parameter p) | Some e \<Rightarrow> Inr (three_way i e))
         | RFloat x \<Rightarrow> (case parse_float env p of None \<Rightarrow> Inl (invalid_parameter p) | Some e \<Rightarrow> Inr (three_way x e))
         | RBool b \<Rightarrow>
             (if p \<in> set [''1'', ''t'', ''T'', ''true'', ''TRUE'', ''True''] then Inr (three_way b True)
              else if p \<in> set [''0'', ''f'', ''F'', ''false'', ''FALSE'', ''False''] then Inr (three_way b False)
              else Inl (invalid_parameter p))
         | _ \<Rightarrow> Inl (Config_Error ''comparison is unsupported''))"

definition comparison_holds :: "string \<Rightarrow> int \<Rightarrow> config_error + bool" where
  "comparison_holds name c =
     (if name = ''eq'' \<or> name = ''len'' then Inr (c = 0)
      else if name = ''ne'' then Inr (c \<noteq> 0)
      else if name = ''gt'' then Inr (0 < c)
      else if name = ''gte'' \<or> name = ''min'' then Inr (0 \<le> c)
      else if name = ''lt'' then Inr (c < 0)
      else if name = ''lte'' \<or> name = ''max'' then Inr (c \<le> 0)
      else Inl (Config_Error ''invalid comparison rule''))"

definition validate_constant_comparison :: "validation_env \<Rightarrow> rv \<Rightarrow> validation_rule \<Rightarrow> config_error + bool" where
  "validate_constant_comparison env v rule =
     (if rule_param rule = [] then Inl (Config_Error (rule_name rule @ '' requires a parameter''))
      else if deref v = RInvalid then Inr False
      else (case compare_value_to_parameter env (deref v) rule of
          Inl e \<Rightarrow> Inl e
        | Inr c \<Rightarrow> comparison_holds (rule_name rule) c))"

definition collection_size :: "rv \<Rightarrow> nat option" where
  "collection_size v =
     (case v of
        RArray xs \<Rightarrow> Some (length xs)
      | RSlice xs \<Rightarrow> Some (case xs of None \<Rightarrow> 0 | Some es \<Rightarrow> length es)
      | RMap m \<Rightarrow> Some (case m of None \<Rightarrow> 0 | Some es \<Rightarrow> length es)
      | _ \<Rightarrow> None)"

fun same_collection_kind :: "rv \<Rightarrow> rv \<Rightarrow> bool" where
  "same_collection_kind (RArray x) (RArray y) = True"
| "same_collection_kind (RSlice x) (RSlice y) = True"
| "same_collection_kind (RMap x) (RMap y) = True"
| "same_collection_kind a b = False"

text \<open>\<open>None\<close>: not comparable. Structures are comparable only when they are equal.\<close>

definition compare_reflected_values :: "rv \<Rightarrow> rv \<Rightarrow> int option" where
  "compare_reflected_values l r =
     (let l = deref l; r = deref r
      in if l = RInvalid \<or> r = RInvalid
         then Some (if l = RInvalid \<and> r = RInvalid then 0 else if l = RInvalid then - 1 else 1)
         else (case (l, r) of
             (RTime a, RTime b) \<Rightarrow> Some (three_way a b)
           | (RInt m a, RInt n b) \<Rightarrow> Some (three_way a b)
           | (RUint m a, RUint n b) \<Rightarrow> Some (three_way a b)
           | (RFloat a, RFloat b) \<Rightarrow> Some (three_way a b)
           | (RString a, RString b) \<Rightarrow> Some (str_compare a b)
           | (RBool a, RBool b) \<Rightarrow> Some (three_way a b)
           | (RStruct t fs, RStruct u gs) \<Rightarrow>
               if t = u \<and> comparable_value l \<and> l = r then Some 0 else None
           | _ \<Rightarrow>
               if same_collection_kind l r
               then (case (collection_size l, collection_size r) of
                   (Some m, Some n) \<Rightarrow> Some (three_way m n) | _ \<Rightarrow> None)
               else None))"

definition field_comparison_holds :: "string \<Rightarrow> int \<Rightarrow> config_error + bool" where
  "field_comparison_holds name c =
     (if name = ''eqfield'' then Inr (c = 0)
      else if name = ''nefield'' then Inr (c \<noteq> 0)
      else if name = ''gtfield'' then Inr (0 < c)
      else if name = ''gtefield'' then Inr (0 \<le> c)
      else if name = ''ltfield'' then Inr (c < 0)
      else if name = ''ltefield'' then Inr (c \<le> 0)
      else Inl (Config_Error ''invalid field comparison''))"

definition validate_field_comparison :: "rv \<Rightarrow> rv \<Rightarrow> validation_rule \<Rightarrow> config_error + bool" where
  "validate_field_comparison v owner rule =
     (if rule_param rule = [] then Inl (Config_Error (rule_name rule @ '' requires a field name''))
      else (case field_by_validation_path owner (rule_param rule) of
          None \<Rightarrow> Inl (Config_Error (''unknown comparison field: '' @ rule_param rule))
        | Some x \<Rightarrow>
            (case compare_reflected_values v x of
               None \<Rightarrow> Inl (Config_Error ''fields are not comparable'')
             | Some c \<Rightarrow> field_comparison_holds (rule_name rule) c)))"

section \<open>Membership, uniqueness, text\<close>

definition max_validation_collection :: nat where "max_validation_collection = 10000"

definition validate_one_of :: "validation_env \<Rightarrow> rv \<Rightarrow> validation_rule \<Rightarrow> config_error + bool" where
  "validate_one_of env v rule =
     (case split_validation_parameters (rule_param rule) of
        None \<Rightarrow> Inl (Config_Error (rule_name rule @ '' requires one or more values''))
      | Some ps \<Rightarrow>
          if ps = [] then Inl (Config_Error (rule_name rule @ '' requires one or more values''))
          else (let found = print_value env (value_interface v) \<in> set ps
                in Inr (if rule_name rule = ''not_oneof'' then \<not> found else found)))"

fun unique_items :: "rv list \<Rightarrow> rv list \<Rightarrow> config_error + bool" where
  "unique_items seen [] = Inr True"
| "unique_items seen (x # xs) =
     (let item = deref x
      in if item \<noteq> RInvalid \<and> \<not> comparable_value item
         then Inl (Config_Error ''unique requires comparable collection elements'')
         else if item \<in> set seen then Inr False
         else unique_items (item # seen) xs)"

definition validate_unique :: "rv \<Rightarrow> config_error + bool" where
  "validate_unique v =
     (case deref v of
        RInvalid \<Rightarrow> Inr True
      | RArray xs \<Rightarrow> if max_validation_collection < length xs then Inr False else unique_items [] xs
      | RSlice xs \<Rightarrow>
          (let es = (case xs of None \<Rightarrow> [] | Some es \<Rightarrow> es)
           in if max_validation_collection < length es then Inr False else unique_items [] es)
      | _ \<Rightarrow> Inl (Config_Error ''unique requires an array or slice''))"

definition validate_character_rule :: "validation_env \<Rightarrow> rv \<Rightarrow> validation_rule \<Rightarrow> config_error + bool" where
  "validate_character_rule env v rule =
     (case validation_string v (rule_name rule) of
        Inl e \<Rightarrow> Inl e
      | Inr text \<Rightarrow>
          (let n = rule_name rule; rs = runes text
           in if n = ''alpha'' then Inr (text \<noteq> [] \<and> list_all (is_letter env) rs)
              else if n = ''alphanum'' then Inr (text \<noteq> [] \<and> list_all (\<lambda>r. is_letter env r \<or> is_digit_rune env r) rs)
              else if n = ''numeric'' then Inr (text \<noteq> [] \<and> list_all (is_digit_rune env) rs)
              else if n = ''number'' then Inr (number_pattern env text)
              else if n = ''lowercase'' then Inr (text = lower_text env text)
              else if n = ''uppercase'' then Inr (text = upper_text env text)
              else if n = ''ascii'' then Inr (list_all (\<lambda>r. r \<le> 127) rs)
              else if n = ''printascii'' then Inr (list_all (\<lambda>r. 32 \<le> r \<and> r \<le> 126) rs)
              else if n = ''boolean'' then
                Inr (text \<in> set [''1'', ''t'', ''T'', ''true'', ''TRUE'', ''True'', ''0'', ''f'', ''F'', ''false'', ''FALSE'', ''False''])
              else Inl (Config_Error ''invalid character rule'')))"

definition contains_any :: "string \<Rightarrow> string \<Rightarrow> bool" where
  "contains_any s chars = list_ex (\<lambda>r. r \<in> set (runes chars)) (runes s)"

definition validate_string_relation :: "rv \<Rightarrow> validation_rule \<Rightarrow> config_error + bool" where
  "validate_string_relation v rule =
     (case validation_string v (rule_name rule) of
        Inl e \<Rightarrow> Inl e
      | Inr text \<Rightarrow>
          (let n = rule_name rule; p = rule_param rule
           in if p = [] then Inl (Config_Error (n @ '' requires a parameter''))
              else if n = ''contains'' then Inr (contains_str text p)
              else if n = ''containsany'' then Inr (contains_any text p)
              else if n = ''containsrune'' \<or> n = ''excludesrune'' then
                (if length (runes p) \<noteq> 1 then Inl (Config_Error (n @ '' requires exactly one rune''))
                 else Inr (if n = ''containsrune'' then hd (runes p) \<in> set (runes text) else hd (runes p) \<notin> set (runes text)))
              else if n = ''excludes'' then Inr (\<not> contains_str text p)
              else if n = ''excludesall'' then Inr (\<not> contains_any text p)
              else if n = ''startswith'' then Inr (has_prefix text p)
              else if n = ''endswith'' then Inr (has_suffix text p)
              else Inl (Config_Error ''invalid string rule'')))"

section \<open>Formats\<close>

definition is_valid_hostname :: "string \<Rightarrow> bool" where
  "is_valid_hostname s \<longleftrightarrow> s \<noteq> [] \<and> length s \<le> 253 \<and>
     list_all (\<lambda>l. l \<noteq> [] \<and> length l \<le> 63 \<and> hd l \<noteq> CHR ''-'' \<and> last l \<noteq> CHR ''-''
         \<and> list_all (\<lambda>c. byte_in c 97 122 \<or> byte_in c 65 90 \<or> byte_in c 48 57 \<or> c = CHR ''-'') l)
       (split_byte CHR ''.'' (trim_suffix s ''.''))"

definition is_valid_uuid :: "string \<Rightarrow> string \<Rightarrow> bool" where
  "is_valid_uuid s rule =
     (if length s \<noteq> 36 \<or> s ! 8 \<noteq> CHR ''-'' \<or> s ! 13 \<noteq> CHR ''-'' \<or> s ! 18 \<noteq> CHR ''-'' \<or> s ! 23 \<noteq> CHR ''-'' then False
      else (case hex_decode (filter (\<lambda>c. c \<noteq> CHR ''-'') s) of
          None \<Rightarrow> False
        | Some bs \<Rightarrow>
            if length bs \<noteq> 16 then False
            else if bs ! 8 div 64 \<noteq> 2 then False
            else if rule = ''uuid'' then True
            else bs ! 6 div 16 = of_char (last rule) - 48))"

definition is_hex_color :: "string \<Rightarrow> bool" where
  "is_hex_color s =
     (let body = (if has_prefix s ''#'' then drop 1 s else if has_prefix s ''0x'' then drop 2 s else s);
          hex = (\<lambda>t. length t \<in> {3, 6, 8} \<and> list_all (\<lambda>c. hex_val c \<noteq> None) t)
      in hex body)"

definition validate_format_rule :: "validation_env \<Rightarrow> rv \<Rightarrow> validation_rule \<Rightarrow> config_error + bool" where
  "validate_format_rule env v rule =
     (case validation_string v (rule_name rule) of
        Inl e \<Rightarrow> Inl e
      | Inr text \<Rightarrow>
          (let n = rule_name rule
           in if n = ''email'' then
                Inr (text = [] \<or> (\<not> list_ex (\<lambda>c. c = CHR 0x0D \<or> c = CHR 0x0A) text \<and> other_format env n [] text))
              else if n = ''hostname'' then Inr (is_valid_hostname text)
              else if n \<in> set [''uuid'', ''uuid3'', ''uuid4'', ''uuid5''] then Inr (is_valid_uuid text n)
              else if n = ''hexadecimal'' then Inr (text \<noteq> [] \<and> hex_decode text \<noteq> None)
              else if n = ''hexcolor'' then Inr (is_hex_color text)
              else if n = ''datetime'' then
                (if rule_param rule = [] then Inl (Config_Error ''datetime requires a layout'')
                 else Inr (other_format env n (rule_param rule) text))
              else if n \<in> set [''url'', ''http_url'', ''ip'', ''ipv4'', ''ipv6'', ''cidr'', ''cidrv4'', ''cidrv6'', ''hostname_port'',
                ''json'', ''base64'', ''base64url''] then Inr (other_format env n [] text)
              else Inl (Config_Error ''invalid format rule'')))"

end

