(* ===== verification/Request_Params.thy ===== *)
theory Request_Params
  imports Validation_Rules
begin

text \<open>
  \<^verbatim>\<open>request_parameters.go\<close> and the parameter and page helpers of \<^verbatim>\<open>context.go\<close>: integers read
  from a path or query parameter, the pagination policy, the page count and the retry helper.
  Query values are the list a parsed query holds for a key, \<open>None\<close> when the key is absent; an
  \<^verbatim>\<open>int\<close> has 64 bits.
\<close>

section \<open>Strict parameters\<close>

definition parameter_problem :: "string \<Rightarrow> string \<Rightarrow> string \<Rightarrow> problem" where
  "parameter_problem field rule msg =
     (err_validation [\<lparr>v_field = field, v_rule = rule, v_message = msg\<rparr>])\<lparr>p_status := 400\<rparr>"

definition strict_parameter :: "string \<Rightarrow> string \<Rightarrow> bool \<Rightarrow> nat \<Rightarrow> problem + int" where
  "strict_parameter key val present bits =
     (if \<not> present then Inl (parameter_problem key ''required'' ''Parameter is required'')
      else if val = [] then Inl (parameter_problem key ''required'' ''Parameter must not be empty'')
      else if trim_space val \<noteq> val then Inl (parameter_problem key ''integer'' ''Parameter must be an integer'')
      else (case parse_int bits val of
          None \<Rightarrow> Inl (parameter_problem key ''integer'' ''Parameter must be an integer in range'')
        | Some v \<Rightarrow> Inr v))"

definition first_value :: "string list option \<Rightarrow> string" where
  "first_value vs = (case vs of Some (v # _) \<Rightarrow> v | _ \<Rightarrow> [])"

definition has_param :: "(string \<times> string) list \<Rightarrow> string \<Rightarrow> bool" where
  "has_param ps key = list_ex (\<lambda>p. fst p = key) ps"

definition param_value :: "(string \<times> string) list \<Rightarrow> string \<Rightarrow> string" where
  "param_value ps key = (case map_of ps key of None \<Rightarrow> [] | Some v \<Rightarrow> v)"

definition param_int64_strict :: "(string \<times> string) list \<Rightarrow> string \<Rightarrow> problem + int" where
  "param_int64_strict ps key = strict_parameter key (param_value ps key) (has_param ps key) 64"

definition param_positive_int64 :: "(string \<times> string) list \<Rightarrow> string \<Rightarrow> problem + int" where
  "param_positive_int64 ps key =
     (case param_int64_strict ps key of
        Inl e \<Rightarrow> Inl e
      | Inr v \<Rightarrow> if v \<le> 0 then Inl (parameter_problem key ''positive'' ''Path parameter must be positive'') else Inr v)"

definition param_uuid_strict :: "(string \<times> string) list \<Rightarrow> string \<Rightarrow> problem + string" where
  "param_uuid_strict ps key =
     (let v = param_value ps key
      in if \<not> has_param ps key then Inl (parameter_problem key ''required'' ''Path parameter is required'')
         else if v = [] then Inl (parameter_problem key ''required'' ''Path parameter must not be empty'')
         else if trim_space v \<noteq> v \<or> \<not> is_valid_uuid v ''uuid'' then Inl (parameter_problem key ''uuid'' ''Path parameter must be a valid UUID'')
         else Inr v)"

definition query_int64_strict :: "(string \<Rightarrow> string list option) \<Rightarrow> string \<Rightarrow> problem + int" where
  "query_int64_strict query key = strict_parameter key (first_value (query key)) (query key \<noteq> None) 64"

definition query_optional_int64_strict :: "(string \<Rightarrow> string list option) \<Rightarrow> string \<Rightarrow> problem + int option" where
  "query_optional_int64_strict query key =
     (if query key = None then Inr None
      else (case query_int64_strict query key of Inl e \<Rightarrow> Inl e | Inr v \<Rightarrow> Inr (Some v)))"

section \<open>Lenient parameters\<close>

text \<open>\<^verbatim>\<open>ParamInt\<close>, \<^verbatim>\<open>ParamInt64\<close> and \<^verbatim>\<open>QueryInt\<close>: a missing, empty or malformed value is the default,
  or zero.\<close>

definition int_or_default :: "string \<Rightarrow> int list \<Rightarrow> int" where
  "int_or_default val defaults =
     (if val = [] then (case defaults of d # _ \<Rightarrow> d | [] \<Rightarrow> 0)
      else (case atoi val of
          Some v \<Rightarrow> v
        | None \<Rightarrow> (case defaults of d # _ \<Rightarrow> d | [] \<Rightarrow> 0)))"

definition query_int :: "(string \<Rightarrow> string list option) \<Rightarrow> string \<Rightarrow> int list \<Rightarrow> int" where
  "query_int query key defaults = int_or_default (first_value (query key)) defaults"

definition param_int :: "(string \<times> string) list \<Rightarrow> string \<Rightarrow> int list \<Rightarrow> int" where
  "param_int ps key defaults = int_or_default (param_value ps key) defaults"

definition clamp_limit :: "int \<Rightarrow> int \<Rightarrow> int" where
  "clamp_limit fallback limit =
     (let limit = (if limit < 1 then fallback else limit) in if 1000 < limit then 1000 else limit)"

definition default_limit :: "int list \<Rightarrow> int" where
  "default_limit ds = (case ds of d # _ \<Rightarrow> if 0 < d then d else 20 | [] \<Rightarrow> 20)"

definition get_page_and_limit :: "(string \<Rightarrow> string list option) \<Rightarrow> int list \<Rightarrow> int \<times> int" where
  "get_page_and_limit query defaults =
     (let page = query_int query ''page'' [1];
          page = (if page < 1 then 1 else page);
          d = default_limit defaults
      in (page, clamp_limit d (query_int query ''limit'' [d])))"

definition get_cursor_and_limit :: "(string \<Rightarrow> string list option) \<Rightarrow> int list \<Rightarrow> string \<times> int" where
  "get_cursor_and_limit query defaults =
     (let d = default_limit defaults
      in (first_value (query ''cursor''), clamp_limit d (query_int query ''limit'' [d])))"

section \<open>Pagination\<close>

record pagination_policy =
  default_page :: int
  policy_limit :: int
  maximum_limit :: int
  maximum_page :: int
  page_parameter :: string
  limit_parameter :: string
  strict :: bool

record pagination =
  pg_page :: int
  pg_limit :: int
  pg_offset :: int

definition max_int :: int where "max_int = 2 ^ 63 - 1"

definition normalize_policy :: "pagination_policy \<Rightarrow> problem + pagination_policy" where
  "normalize_policy p =
     (let p = (if default_page p = 0 then p\<lparr>default_page := 1\<rparr> else p);
          p = (if policy_limit p = 0 then p\<lparr>policy_limit := 20\<rparr> else p);
          p = (if maximum_limit p = 0 then p\<lparr>maximum_limit := 1000\<rparr> else p);
          p = (if maximum_page p = 0 then p\<lparr>maximum_page := max_int\<rparr> else p);
          p = (if page_parameter p = [] then p\<lparr>page_parameter := ''page''\<rparr> else p);
          p = (if limit_parameter p = [] then p\<lparr>limit_parameter := ''limit''\<rparr> else p)
      in if default_page p < 1 \<or> policy_limit p < 1 \<or> maximum_limit p < policy_limit p \<or> maximum_page p < default_page p
         then Inl (err_internal ''Invalid pagination policy'') else Inr p)"

definition parse_pagination_value :: "(string \<Rightarrow> string list option) \<Rightarrow> string \<Rightarrow> int \<Rightarrow> bool \<Rightarrow> problem + int" where
  "parse_pagination_value query key fallback strict_p =
     (if first_value (query key) = [] then Inr fallback
      else (case atoi (first_value (query key)) of
          None \<Rightarrow> if strict_p then Inl (parameter_problem key ''positive_integer'' ''Pagination parameter must be a positive integer'') else Inr fallback
        | Some v \<Rightarrow>
            if v < 1 then if strict_p then Inl (parameter_problem key ''positive_integer'' ''Pagination parameter must be a positive integer'') else Inr fallback
            else Inr v))"

definition cap_value :: "bool \<Rightarrow> string \<Rightarrow> string \<Rightarrow> int \<Rightarrow> int \<Rightarrow> problem + int" where
  "cap_value strict_p key msg maximum v =
     (if maximum < v
      then if strict_p then Inl (parameter_problem key ''maximum'' msg) else Inr maximum
      else Inr v)"

definition bind_sum :: "'e + 'a \<Rightarrow> ('a \<Rightarrow> 'e + 'b) \<Rightarrow> 'e + 'b" where
  "bind_sum r f = (case r of Inl e \<Rightarrow> Inl e | Inr x \<Rightarrow> f x)"

definition parse_pagination :: "pagination_policy \<Rightarrow> (string \<Rightarrow> string list option) \<Rightarrow> problem + pagination" where
  "parse_pagination policy query =
     bind_sum (normalize_policy policy) (\<lambda>p.
     bind_sum (parse_pagination_value query (page_parameter p) (default_page p) (strict p)) (\<lambda>page.
     bind_sum (parse_pagination_value query (limit_parameter p) (policy_limit p) (strict p)) (\<lambda>limit.
     bind_sum (cap_value (strict p) (page_parameter p) ''Page exceeds the configured maximum'' (maximum_page p) page) (\<lambda>page.
     bind_sum (cap_value (strict p) (limit_parameter p) ''Limit exceeds the configured maximum'' (maximum_limit p) limit) (\<lambda>limit.
       if max_int div limit < page - 1
       then Inl (parameter_problem (page_parameter p) ''overflow'' ''Pagination offset is too large'')
       else Inr \<lparr>pg_page = page, pg_limit = limit, pg_offset = wrap64 ((page - 1) * limit)\<rparr>)))))"

definition total_pages :: "int \<Rightarrow> int \<Rightarrow> problem + int" where
  "total_pages tot limit =
     (if tot < 0 \<or> limit \<le> 0 then Inl (err_internal ''Invalid pagination totals'')
      else if tot = 0 then Inr 0
      else Inr (1 + (tot - 1) div limit))"

text \<open>\<^verbatim>\<open>Context.Retry\<close>: the operation is given by its answers, one per attempt.\<close>

function context_retry_loop :: "int \<Rightarrow> int \<Rightarrow> (int \<Rightarrow> 'e option) \<Rightarrow> 'e option \<Rightarrow> 'e option" where
  "context_retry_loop i max_attempts op last_err =
     (if i \<le> max_attempts
      then (case op i of None \<Rightarrow> None | Some e \<Rightarrow> context_retry_loop (i + 1) max_attempts op (Some e))
      else last_err)"
  by pat_completeness auto
termination by (relation "measure (\<lambda>(i, m, op, l). nat (m + 1 - i))") auto

declare context_retry_loop.simps [simp del]

definition context_retry :: "int \<Rightarrow> (int \<Rightarrow> 'e option) \<Rightarrow> 'e option" where
  "context_retry max_attempts op = context_retry_loop 1 (if max_attempts \<le> 0 then 3 else max_attempts) op None"

lemma bind_sum_Inr_iff: "bind_sum r f = Inr y \<longleftrightarrow> (\<exists>x. r = Inr x \<and> f x = Inr y)"
  by (cases r) (auto simp: bind_sum_def)

lemma let_eqE: "(let x = t in f x) = y \<Longrightarrow> (\<And>x. x = t \<Longrightarrow> f x = y \<Longrightarrow> thesis) \<Longrightarrow> thesis"
  by simp

lemma ite_InrD: "(if b then Inl e else Inr x) = Inr y \<Longrightarrow> y = x \<and> \<not> b"
  by (auto split: if_splits)

lemma normalize_policy_ok:
  "normalize_policy q = Inr p \<Longrightarrow> 1 \<le> default_page p \<and> 1 \<le> policy_limit p \<and> policy_limit p \<le> maximum_limit p \<and>
     default_page p \<le> maximum_page p \<and> strict p = strict q" (is "_ \<Longrightarrow> ?thesis")
proof -
  assume "normalize_policy q = Inr p"
  then show ?thesis
    unfolding normalize_policy_def
  proof (elim let_eqE)
    fix p1 p2 p3 p4 p5 p6
    assume steps: "p1 = (if default_page q = 0 then q\<lparr>default_page := 1\<rparr> else q)"
      "p2 = (if policy_limit p1 = 0 then p1\<lparr>policy_limit := 20\<rparr> else p1)"
      "p3 = (if maximum_limit p2 = 0 then p2\<lparr>maximum_limit := 1000\<rparr> else p2)"
      "p4 = (if maximum_page p3 = 0 then p3\<lparr>maximum_page := max_int\<rparr> else p3)"
      "p5 = (if page_parameter p4 = [] then p4\<lparr>page_parameter := ''page''\<rparr> else p4)"
      "p6 = (if limit_parameter p5 = [] then p5\<lparr>limit_parameter := ''limit''\<rparr> else p5)"
    assume "(if default_page p6 < 1 \<or> policy_limit p6 < 1 \<or> maximum_limit p6 < policy_limit p6 \<or>
        maximum_page p6 < default_page p6 then Inl (err_internal ''Invalid pagination policy'') else Inr p6) = Inr p"
    moreover have "strict p1 = strict q" using steps(1) by auto
    then have "strict p2 = strict q" using steps(2) by auto
    then have "strict p3 = strict q" using steps(3) by auto
    then have "strict p4 = strict q" using steps(4) by auto
    then have "strict p5 = strict q" using steps(5) by auto
    then have "strict p6 = strict q" using steps(6) by auto
    ultimately show ?thesis
      by (auto dest!: ite_InrD)
  qed
qed

lemma parse_value_ok: "parse_pagination_value query key d st = Inr v \<Longrightarrow> 1 \<le> d \<Longrightarrow> 1 \<le> v"
  by (auto simp: parse_pagination_value_def split: if_splits option.splits)

lemma cap_value_ok: "cap_value st key msg m v = Inr w \<Longrightarrow> 1 \<le> v \<Longrightarrow> 1 \<le> m \<Longrightarrow> 1 \<le> w \<and> w \<le> m"
  by (auto simp: cap_value_def split: if_splits)

lemma offset_no_overflow: "1 \<le> page \<Longrightarrow> 1 \<le> limit \<Longrightarrow> page - 1 \<le> max_int div limit \<Longrightarrow>
    0 \<le> (page - 1) * limit \<and> (page - 1) * limit \<le> max_int"
proof -
  assume a: "1 \<le> page" "1 \<le> limit" "page - 1 \<le> max_int div limit"
  then show ?thesis using le_int_div_iff [of limit "page - 1" max_int] by simp
qed

lemma context_retry_loop_spec:
  "i \<le> m + 1 \<Longrightarrow> context_retry_loop i m op l =
     (if \<exists>j. i \<le> j \<and> j \<le> m \<and> op j = None then None else if i \<le> m then op m else l)"
proof (induction i m op l rule: context_retry_loop.induct)
  case (1 i m op l)
  show ?case
  proof (cases "i \<le> m")
    case True
    show ?thesis
    proof (cases "op i")
      case None
      then show ?thesis using True by (subst context_retry_loop.simps) auto
    next
      case (Some e)
      have "context_retry_loop i m op l = context_retry_loop (i + 1) m op (Some e)"
        using True Some by (subst context_retry_loop.simps) simp
      also have "\<dots> = (if \<exists>j. i + 1 \<le> j \<and> j \<le> m \<and> op j = None then None else if i + 1 \<le> m then op m else Some e)"
        using "1.IH" [OF True Some] True by simp
      also have "(\<exists>j. i + 1 \<le> j \<and> j \<le> m \<and> op j = None) \<longleftrightarrow> (\<exists>j. i \<le> j \<and> j \<le> m \<and> op j = None)"
        using Some by (metis add1_zle_eq option.distinct(1) order_less_le)
      finally show ?thesis using True Some by (auto simp: add1_zle_eq order_less_le)
    qed
  next
    case False
    then show ?thesis by (subst context_retry_loop.simps) auto
  qed
qed

section \<open>Properties\<close>

text \<open>A page request that is accepted is inside its policy, and its 64-bit offset is exactly the
  number of items before the page: it never overflows.\<close>

theorem accepted_pages_are_in_bounds:
  assumes "parse_pagination policy query = Inr pg"
  shows "\<exists>p. normalize_policy policy = Inr p \<and> 1 \<le> pg_page pg \<and> pg_page pg \<le> maximum_page p \<and>
    1 \<le> pg_limit pg \<and> pg_limit pg \<le> maximum_limit p \<and>
    pg_offset pg = (pg_page pg - 1) * pg_limit pg \<and> 0 \<le> pg_offset pg \<and> pg_offset pg \<le> max_int"
proof -
  obtain p pa li page limit where
    p: "normalize_policy policy = Inr p" and
    v: "parse_pagination_value query (page_parameter p) (default_page p) (strict p) = Inr pa"
       "parse_pagination_value query (limit_parameter p) (policy_limit p) (strict p) = Inr li" and
    c: "cap_value (strict p) (page_parameter p) ''Page exceeds the configured maximum'' (maximum_page p) pa = Inr page"
       "cap_value (strict p) (limit_parameter p) ''Limit exceeds the configured maximum'' (maximum_limit p) li = Inr limit" and
    r: "page - 1 \<le> max_int div limit" "pg = \<lparr>pg_page = page, pg_limit = limit, pg_offset = wrap64 ((page - 1) * limit)\<rparr>"
    using assms unfolding parse_pagination_def bind_sum_Inr_iff by (auto split: if_splits)
  have q: "1 \<le> default_page p" "1 \<le> policy_limit p" "1 \<le> maximum_limit p" "1 \<le> maximum_page p"
    using normalize_policy_ok [OF p] by auto
  have b: "1 \<le> page \<and> page \<le> maximum_page p" "1 \<le> limit \<and> limit \<le> maximum_limit p"
    using cap_value_ok [OF c(1)] cap_value_ok [OF c(2)] parse_value_ok [OF v(1)] parse_value_ok [OF v(2)] q by auto
  then have o: "0 \<le> (page - 1) * limit \<and> (page - 1) * limit \<le> max_int"
    using offset_no_overflow r(1) by blast
  then have "wrap64 ((page - 1) * limit) = (page - 1) * limit"
    by (intro wrap64_id) (simp add: int64_def max_int_def)
  then show ?thesis using p b o r(2) by auto
qed

definition open_policy :: pagination_policy where
  "open_policy = \<lparr>default_page = 0, policy_limit = 0, maximum_limit = 0, maximum_page = 0,
     page_parameter = [], limit_parameter = [], strict = False\<rparr>"

theorem accepted_pages_are_in_bounds_witness:
  "parse_pagination open_policy [''page'' \<mapsto> [''7''], ''limit'' \<mapsto> [''5000'']] =
     Inr \<lparr>pg_page = 7, pg_limit = 1000, pg_offset = 6000\<rparr> \<and> (6000 :: int) \<le> max_int"
proof -
  have p: "parse_pagination open_policy [''page'' \<mapsto> [''7''], ''limit'' \<mapsto> [''5000'']] =
     Inr \<lparr>pg_page = 7, pg_limit = 1000, pg_offset = 6000\<rparr>" by code_simp
  from accepted_pages_are_in_bounds [OF p] show ?thesis using p by auto
qed

text \<open>The page count is the number of pages that are not empty: page n starts inside the items
  exactly when n is at most the count.\<close>

theorem total_pages_counts_nonempty_pages:
  assumes "total_pages tot limit = Inr n"
  shows "0 \<le> n \<and> (1 \<le> page \<longrightarrow> ((page - 1) * limit < tot \<longleftrightarrow> page \<le> n))"
proof -
  from assms have t: "0 \<le> tot" "0 < limit" "n = (if tot = 0 then 0 else 1 + (tot - 1) div limit)"
    by (auto simp: total_pages_def split: if_splits)
  have "(page - 1) * limit \<le> tot - 1 \<longleftrightarrow> page - 1 \<le> (tot - 1) div limit"
    using le_int_div_iff [OF t(2)] by simp
  moreover have "\<not> (page - 1) * limit < 0" if "1 \<le> page"
  proof -
    have "0 \<le> (page - 1) * limit" by (rule mult_nonneg_nonneg) (use that t(2) in simp_all)
    then show ?thesis by (simp only: not_less)
  qed
  moreover have "0 \<le> (tot - 1) div limit" if "tot \<noteq> 0" using that t(1,2) by (simp add: pos_imp_zdiv_nonneg_iff)
  ultimately show ?thesis using t by (cases "tot = 0") auto
qed

theorem total_pages_counts_nonempty_pages_witness:
  "total_pages 101 20 = Inr 6 \<and> (6 - 1) * 20 < (101 :: int) \<and> \<not> (7 - 1) * 20 < (101 :: int)"
  using total_pages_counts_nonempty_pages [of 101 20 6 6] total_pages_counts_nonempty_pages [of 101 20 6 7]
  by (simp add: total_pages_def)

text \<open>Whatever a request asks for, the page is at least 1 and the limit between 1 and 1000.\<close>

theorem page_and_limit_are_bounded:
  "1 \<le> fst (get_page_and_limit query ds) \<and> snd (get_page_and_limit query ds) \<in> {1..1000}"
  by (auto simp: get_page_and_limit_def clamp_limit_def default_limit_def Let_def split: list.split)

end
