(* ===== verification/Resilience.thy ===== *)
theory Resilience
  imports Gpp_Prelude Complex_Main
begin

text \<open>
  \<^verbatim>\<open>resilience/resilience.go\<close> and \<^verbatim>\<open>resilience/retry.go\<close>: the circuit breaker as the
  two critical sections of \<^verbatim>\<open>Execute\<close> and the step relation of their interleavings, the
  adaptive limiter as the step relation of its atomic counter, and the retry loop over an
  environment that fixes what the operation, the context and the random source answer. Times and
  durations are nanoseconds. The multiplication by the floating-point backoff factor is the
  parameter \<open>scale\<close>.
\<close>

section \<open>Circuit breaker\<close>

datatype circuit_state = State_Closed | State_HalfOpen | State_Open

record breaker_config =
  failure_threshold :: int
  reset_timeout :: int

record breaker =
  cb_state :: circuit_state
  failures :: int
  cb_cfg :: breaker_config
  last_state_chg :: int

definition new_circuit_breaker :: "breaker_config \<Rightarrow> breaker" where
  "new_circuit_breaker cfg =
     \<lparr>cb_state = State_Closed, failures = 0,
      cb_cfg = \<lparr>failure_threshold = (if failure_threshold cfg \<le> 0 then 5 else failure_threshold cfg),
                reset_timeout = (if reset_timeout cfg \<le> 0 then 10000000000 else reset_timeout cfg)\<rparr>,
      last_state_chg = 0\<rparr>"

text \<open>The first critical section of \<^verbatim>\<open>Execute\<close>: \<open>None\<close> when the call is rejected.\<close>

definition cb_begin :: "int \<Rightarrow> breaker \<Rightarrow> breaker option" where
  "cb_begin now cb =
     (if cb_state cb = State_Open
      then if reset_timeout (cb_cfg cb) < now - last_state_chg cb
           then Some (cb\<lparr>cb_state := State_HalfOpen, last_state_chg := now\<rparr>)
           else None
      else Some cb)"

text \<open>The second one, after the call returned.\<close>

definition cb_finish :: "int \<Rightarrow> bool \<Rightarrow> breaker \<Rightarrow> breaker" where
  "cb_finish now failed cb =
     (if failed
      then let cb = cb\<lparr>failures := failures cb + 1\<rparr>
           in if failure_threshold (cb_cfg cb) \<le> failures cb
              then cb\<lparr>cb_state := State_Open, last_state_chg := now\<rparr> else cb
      else if cb_state cb = State_HalfOpen
           then cb\<lparr>cb_state := State_Closed, failures := 0, last_state_chg := now\<rparr>
           else cb)"

datatype 'e execute_result = Rejected_Open | Returned "'e option"

definition cb_execute :: "int \<Rightarrow> int \<Rightarrow> 'e option \<Rightarrow> breaker \<Rightarrow> 'e execute_result \<times> breaker" where
  "cb_execute t0 t1 err cb =
     (case cb_begin t0 cb of
        None \<Rightarrow> (Rejected_Open, cb)
      | Some cb' \<Rightarrow> (Returned err, cb_finish t1 (err \<noteq> None) cb'))"

text \<open>Concurrent callers: the calls admitted and not yet finished are counted, every critical
  section is one step.\<close>

datatype cb_label = Admit int | Reject int | Finish int bool

inductive cb_step :: "breaker \<times> nat \<Rightarrow> cb_label \<Rightarrow> breaker \<times> nat \<Rightarrow> bool" where
  cb_admit: "cb_begin now cb = Some cb' \<Longrightarrow> cb_step (cb, n) (Admit now) (cb', Suc n)"
| cb_reject: "cb_begin now cb = None \<Longrightarrow> cb_step (cb, n) (Reject now) (cb, n)"
| cb_done: "cb_step (cb, Suc n) (Finish now failed) (cb_finish now failed cb, n)"

inductive cb_run :: "breaker \<times> nat \<Rightarrow> cb_label list \<Rightarrow> breaker \<times> nat \<Rightarrow> bool" where
  cb_run_Nil: "cb_run s [] s"
| cb_run_Cons: "cb_step s l s' \<Longrightarrow> cb_run s' ls s'' \<Longrightarrow> cb_run s (l # ls) s''"

inductive_cases cb_stepE: "cb_step s l s'"
inductive_simps cb_run_Nil_iff [simp]: "cb_run s [] s'"
inductive_simps cb_run_Cons_iff: "cb_run s (l # ls) s'"

fun label_time :: "cb_label \<Rightarrow> int" where
  "label_time (Admit t) = t"
| "label_time (Reject t) = t"
| "label_time (Finish t failed) = t"

definition breaker_inv :: "breaker \<Rightarrow> bool" where
  "breaker_inv cb \<longleftrightarrow> 0 < failure_threshold (cb_cfg cb) \<and> 0 < reset_timeout (cb_cfg cb) \<and> 0 \<le> failures cb \<and>
     (cb_state cb = State_Closed \<longleftrightarrow> failures cb < failure_threshold (cb_cfg cb))"

lemma new_breaker_inv [simp]: "breaker_inv (new_circuit_breaker cfg)"
  by (simp add: breaker_inv_def new_circuit_breaker_def)

lemma cb_begin_inv: "breaker_inv cb \<Longrightarrow> cb_begin now cb = Some cb' \<Longrightarrow> breaker_inv cb'"
  by (auto simp: breaker_inv_def cb_begin_def split: if_splits)

lemma cb_finish_inv: "breaker_inv cb \<Longrightarrow> breaker_inv (cb_finish now failed cb)"
  by (cases "cb_state cb") (auto simp: breaker_inv_def cb_finish_def Let_def)

lemma cb_step_inv: "cb_step s l s' \<Longrightarrow> breaker_inv (fst s) \<Longrightarrow> breaker_inv (fst s')"
  by (induction rule: cb_step.induct) (auto intro: cb_begin_inv cb_finish_inv)

lemma cb_run_inv: "cb_run s ls s' \<Longrightarrow> breaker_inv (fst s) \<Longrightarrow> breaker_inv (fst s')"
  by (induction rule: cb_run.induct) (auto dest: cb_step_inv)

lemma cb_cfg_begin: "cb_begin now cb = Some cb' \<Longrightarrow> cb_cfg cb' = cb_cfg cb"
  by (auto simp: cb_begin_def split: if_splits)

lemma cb_cfg_finish [simp]: "cb_cfg (cb_finish now failed cb) = cb_cfg cb"
  by (simp add: cb_finish_def Let_def)

text \<open>While the breaker is open and its window has not passed, a step neither admits a call nor
  leaves the state; a failure that arrives late can only move the window forward.\<close>

lemma open_step:
  assumes "cb_step s l s'" and "cb_state (fst s) = State_Open"
    and "label_time l - last_state_chg (fst s) \<le> reset_timeout (cb_cfg (fst s))"
    and "last_state_chg (fst s) \<le> label_time l" 
  shows "cb_state (fst s') = State_Open \<and> (\<forall>t. l \<noteq> Admit t) \<and> cb_cfg (fst s') = cb_cfg (fst s) \<and>
    last_state_chg (fst s) \<le> last_state_chg (fst s') \<and> last_state_chg (fst s') \<le> label_time l"
  using assms by (cases rule: cb_stepE) (auto simp: cb_begin_def cb_finish_def Let_def split: if_splits)

lemma open_run:
  assumes "cb_run s ls s'" and "cb_state (fst s) = State_Open"
    and "sorted (last_state_chg (fst s) # map label_time ls)"
    and "list_all (\<lambda>l. label_time l \<le> t0 + reset_timeout (cb_cfg (fst s))) ls"
    and "t0 \<le> last_state_chg (fst s)"
  shows "cb_state (fst s') = State_Open \<and> (\<forall>t. Admit t \<notin> set ls)"
  using assms
proof (induction rule: cb_run.induct)
  case (cb_run_Nil s)
  then show ?case by simp
next
  case (cb_run_Cons s l s' ls s'')
  from cb_run_Cons.prems have "label_time l - last_state_chg (fst s) \<le> reset_timeout (cb_cfg (fst s))"
    "last_state_chg (fst s) \<le> label_time l" by auto
  from open_step [OF cb_run_Cons.hyps(1) cb_run_Cons.prems(1) this] cb_run_Cons.IH cb_run_Cons.prems
  show ?case by (auto intro: order_trans)
qed

text \<open>Calls made one after the other.\<close>

fun cb_calls :: "(int \<times> int \<times> 'e option) list \<Rightarrow> breaker \<Rightarrow> 'e execute_result list \<times> breaker" where
  "cb_calls [] cb = ([], cb)"
| "cb_calls ((t0, t1, err) # cs) cb =
     (let (r, cb') = cb_execute t0 t1 err cb; (rs, cb'') = cb_calls cs cb' in (r # rs, cb''))"

definition count_failures :: "(int \<times> int \<times> 'e option) list \<Rightarrow> int" where
  "count_failures cs = int (length (filter (\<lambda>(t0, t1, err). err \<noteq> None) cs))"

lemma closed_calls:
  assumes "cb_state cb = State_Closed" and "failures cb + count_failures cs < failure_threshold (cb_cfg cb)"
  shows "cb_calls cs cb = (map (\<lambda>(t0, t1, err). Returned err) cs, cb\<lparr>failures := failures cb + count_failures cs\<rparr>)"
  using assms
proof (induction cs arbitrary: cb)
  case Nil
  then show ?case by (simp add: count_failures_def)
next
  case (Cons c cs)
  obtain t0 t1 err where c: "c = (t0, t1, err)" by (cases c)
  have "cb_execute t0 t1 err cb = (Returned err, cb\<lparr>failures := failures cb + (if err = None then 0 else 1)\<rparr>)"
    using Cons.prems
    by (auto simp: cb_execute_def cb_begin_def cb_finish_def Let_def count_failures_def c split: if_splits)
  then show ?case
    using Cons.prems Cons.IH [of "cb\<lparr>failures := failures cb + (if err = None then 0 else 1)\<rparr>"]
    by (cases err) (simp_all add: c count_failures_def)
qed

section \<open>Adaptive limiter\<close>

text \<open>\<^verbatim>\<open>activeRequests\<close> is one atomic counter; \<open>inside\<close> and \<open>refused\<close> are the requests between
  the increment and the deferred decrement that run the rest of the chain and that return the
  error.\<close>

record limiter =
  active_requests :: int
  max_limit :: int
  inside :: nat
  refused :: nat

definition new_adaptive_limiter :: "int \<Rightarrow> limiter" where
  "new_adaptive_limiter n =
     \<lparr>active_requests = 0, max_limit = (if n \<le> 0 then 1000 else n), inside = 0, refused = 0\<rparr>"

definition limiter_enter :: "limiter \<Rightarrow> bool \<times> limiter" where
  "limiter_enter al =
     (let current = wrap64 (active_requests al + 1); al = al\<lparr>active_requests := current\<rparr>
      in if max_limit al < current then (False, al\<lparr>refused := refused al + 1\<rparr>)
         else (True, al\<lparr>inside := inside al + 1\<rparr>))"

inductive limiter_reach :: "int \<Rightarrow> limiter \<Rightarrow> bool" for n :: int where
  limiter_init: "limiter_reach n (new_adaptive_limiter n)"
| limiter_request: "limiter_reach n al \<Longrightarrow> active_requests al < 2 ^ 63 - 1 \<Longrightarrow> limiter_reach n (snd (limiter_enter al))"
| limiter_leave: "limiter_reach n al \<Longrightarrow> inside al = Suc k \<Longrightarrow>
    limiter_reach n (al\<lparr>active_requests := active_requests al - 1, inside := k\<rparr>)"
| limiter_error: "limiter_reach n al \<Longrightarrow> refused al = Suc k \<Longrightarrow>
    limiter_reach n (al\<lparr>active_requests := active_requests al - 1, refused := k\<rparr>)"

lemma limiter_enter_wrap:
  "0 \<le> active_requests al \<Longrightarrow> active_requests al < 2 ^ 63 - 1 \<Longrightarrow>
    wrap64 (active_requests al + 1) = active_requests al + 1"
  by (simp add: int64_def)

lemma limiter_reach_inv:
  "limiter_reach n al \<Longrightarrow> active_requests al = int (inside al + refused al) \<and>
     max_limit al = (if n \<le> 0 then 1000 else n) \<and> int (inside al) \<le> max_limit al"
proof (induction rule: limiter_reach.induct)
  case limiter_init
  then show ?case by (simp add: new_adaptive_limiter_def)
next
  case (limiter_request al)
  then show ?case using limiter_enter_wrap [of al]
    by (auto simp: limiter_enter_def Let_def)
next
  case (limiter_leave al k)
  then show ?case by (auto split: if_splits)
next
  case (limiter_error al k)
  then show ?case by (auto split: if_splits)
qed

section \<open>Retry\<close>

record 'e retry_config =
  max_attempts :: int
  initial_delay :: int
  max_delay :: int
  backoff_factor :: rat
  retryable :: "('e \<Rightarrow> bool) option"

definition retry_defaults :: "'e retry_config \<Rightarrow> 'e retry_config" where
  "retry_defaults cfg = cfg\<lparr>
     max_attempts := (if max_attempts cfg \<le> 0 then 3 else max_attempts cfg),
     initial_delay := (if initial_delay cfg \<le> 0 then 100000000 else initial_delay cfg),
     max_delay := (if max_delay cfg \<le> 0 then 3000000000 else max_delay cfg),
     backoff_factor := (if backoff_factor cfg \<le> 0 then 2 else backoff_factor cfg)\<rparr>"

text \<open>What happens around the loop, indexed by the attempt: whether the context is done before it,
  what the operation returns, what the random source draws below a bound, whether the context is
  done before the timer.\<close>

record 'e retry_env =
  cancelled :: "int \<Rightarrow> bool"
  operation :: "int \<Rightarrow> 'e option"
  rand_int :: "int \<Rightarrow> int \<Rightarrow> int option"
  interrupted :: "int \<Rightarrow> bool"

datatype 'e retry_result = Retry_Ok | Retry_Failed 'e | Retry_Ctx_Err | Retry_Panic

datatype retry_event = Attempt int | Wait int

text \<open>\<^verbatim>\<open>addJitter\<close>; \<^verbatim>\<open>rand.Int\<close> panics for a bound that is not positive. \<^verbatim>\<open>math.Mod(x, 2) == 0\<close> on the
  draw converted to float64: from 2 to the 53 on every float64 is even.\<close>

definition add_jitter :: "(int \<Rightarrow> int option) \<Rightarrow> int \<Rightarrow> int option" where
  "add_jitter rand d =
     (if d \<le> 0 then Some 0
      else if d div 2 \<le> 0 then None
      else (case rand (d div 2) of
              None \<Rightarrow> Some d
            | Some jitter \<Rightarrow> if even jitter \<or> 2 ^ 53 \<le> jitter then Some (wrap64 (d + jitter))
                             else Some (wrap64 (d - jitter))))"

function retry_loop ::
  "(int \<Rightarrow> rat \<Rightarrow> int) \<Rightarrow> 'e retry_config \<Rightarrow> 'e retry_env \<Rightarrow> int \<Rightarrow> int \<Rightarrow> 'e option \<Rightarrow> 'e retry_result \<times> retry_event list"
where
  "retry_loop scale cfg env attempt delay last_err =
     (if attempt \<le> max_attempts cfg then
        if cancelled env attempt then (Retry_Ctx_Err, [])
        else (case operation env attempt of
            None \<Rightarrow> (Retry_Ok, [Attempt attempt])
          | Some err \<Rightarrow>
              if (case retryable cfg of None \<Rightarrow> False | Some ok \<Rightarrow> \<not> ok err)
              then (Retry_Failed err, [Attempt attempt])
              else if attempt = max_attempts cfg then (Retry_Failed err, [Attempt attempt])
              else (case add_jitter (rand_int env attempt) delay of
                  None \<Rightarrow> (Retry_Panic, [Attempt attempt])
                | Some jitter \<Rightarrow>
                    if interrupted env attempt then (Retry_Ctx_Err, [Attempt attempt, Wait jitter])
                    else (let next_delay = scale delay (backoff_factor cfg);
                              (r, es) = retry_loop scale cfg env (attempt + 1)
                                 (if max_delay cfg < next_delay then max_delay cfg else next_delay) (Some err)
                          in (r, Attempt attempt # Wait jitter # es))))
      else (case last_err of None \<Rightarrow> (Retry_Ok, []) | Some err \<Rightarrow> (Retry_Failed err, [])))"
  by pat_completeness auto
termination
  by (relation "measure (\<lambda>(scale, cfg, env, attempt, delay, last_err). nat (max_attempts cfg + 1 - attempt))") auto

declare retry_loop.simps [simp del]

definition retry :: "(int \<Rightarrow> rat \<Rightarrow> int) \<Rightarrow> 'e retry_config \<Rightarrow> 'e retry_env \<Rightarrow> 'e retry_result \<times> retry_event list" where
  "retry scale cfg env =
     (let cfg = retry_defaults cfg in retry_loop scale cfg env 1 (initial_delay cfg) None)"

definition attempts :: "retry_event list \<Rightarrow> int list" where
  "attempts es = concat (map (\<lambda>e. case e of Attempt a \<Rightarrow> [a] | Wait w \<Rightarrow> []) es)"

definition waits :: "retry_event list \<Rightarrow> int list" where
  "waits es = concat (map (\<lambda>e. case e of Attempt a \<Rightarrow> [] | Wait w \<Rightarrow> [w]) es)"

lemma attempts_simps [simp]:
  "attempts [] = []" "attempts (Attempt a # es) = a # attempts es" "attempts (Wait w # es) = attempts es"
  by (simp_all add: attempts_def)

lemma waits_simps [simp]:
  "waits [] = []" "waits (Attempt a # es) = waits es" "waits (Wait w # es) = w # waits es"
  by (simp_all add: waits_def)

definition may_retry :: "'e retry_config \<Rightarrow> 'e \<Rightarrow> bool" where
  "may_retry cfg err = (case retryable cfg of None \<Rightarrow> True | Some ok \<Rightarrow> ok err)"

definition retried_until :: "'e retry_config \<Rightarrow> 'e retry_env \<Rightarrow> int \<Rightarrow> int \<Rightarrow> 'e retry_result \<Rightarrow> bool" where
  "retried_until cfg env a n r \<longleftrightarrow> a - 1 \<le> n \<and> n \<le> max_attempts cfg \<and>
     (\<forall>j. a \<le> j \<and> j < n \<longrightarrow> (\<exists>e. operation env j = Some e \<and> may_retry cfg e)) \<and>
     (case r of
        Retry_Ok \<Rightarrow> a \<le> n \<and> operation env n = None
      | Retry_Failed e \<Rightarrow> a \<le> n \<and> operation env n = Some e \<and> (n = max_attempts cfg \<or> \<not> may_retry cfg e)
      | Retry_Ctx_Err \<Rightarrow> cancelled env (n + 1) \<or> interrupted env n
      | Retry_Panic \<Rightarrow> a \<le> n \<and> operation env n \<noteq> None \<and> n < max_attempts cfg)"

lemma not_retryable_iff:
  "(case retryable cfg of None \<Rightarrow> False | Some ok \<Rightarrow> \<not> ok err) \<longleftrightarrow> \<not> may_retry cfg err"
  by (simp add: may_retry_def split: option.split)

lemma retried_until_step:
  assumes "retried_until cfg env (a + 1) n r" and "operation env a = Some e" and "may_retry cfg e" and "a < max_attempts cfg"
  shows "retried_until cfg env a n r"
proof -
  have "a \<le> j \<and> j < n \<Longrightarrow> \<exists>e. operation env j = Some e \<and> may_retry cfg e" for j
    using assms by (cases "j = a") (auto simp: retried_until_def)
  moreover have "operation env n \<noteq> None" if "n = a" using that assms(2) by simp
  ultimately show ?thesis
    using assms by (auto simp: retried_until_def split: retry_result.splits)
qed

lemma retry_loop_attempts:
  assumes "a \<le> max_attempts cfg" and "retry_loop scale cfg env a d le = (r, es)"
  shows "\<exists>n. attempts es = [a..n] \<and> retried_until cfg env a n r"
  using assms
proof (induction scale cfg env a d le arbitrary: r es rule: retry_loop.induct)
  case (1 scale cfg env a d le)
  note step = "1.prems"(2) [unfolded retry_loop.simps [of scale cfg env a d le] not_retryable_iff]
  consider (ctx) "cancelled env a" | (ok) "\<not> cancelled env a" "operation env a = None"
    | (stop) e where "\<not> cancelled env a" "operation env a = Some e" "\<not> may_retry cfg e \<or> a = max_attempts cfg"
    | (panic) e where "\<not> cancelled env a" "operation env a = Some e" "may_retry cfg e" "a \<noteq> max_attempts cfg"
        "add_jitter (rand_int env a) d = None"
    | (again) e w where "\<not> cancelled env a" "operation env a = Some e" "may_retry cfg e" "a \<noteq> max_attempts cfg"
        "add_jitter (rand_int env a) d = Some w"
    by (metis not_None_eq)
  then show ?case
  proof cases
    case ctx
    then show ?thesis using step "1.prems"(1)
      by (intro exI [of _ "a - 1"]) (auto simp: retried_until_def)
  next
    case ok
    then show ?thesis using step "1.prems"(1)
      by (intro exI [of _ a]) (auto simp: retried_until_def)
  next
    case stop
    then show ?thesis using step "1.prems"(1)
      by (intro exI [of _ a]) (auto simp: retried_until_def split: if_splits)
  next
    case panic
    then show ?thesis using step "1.prems"(1)
      by (intro exI [of _ a]) (auto simp: retried_until_def)
  next
    case (again e w)
    show ?thesis
    proof (cases "interrupted env a")
      case True
      then show ?thesis using step again "1.prems"(1)
        by (intro exI [of _ a]) (auto simp: retried_until_def)
    next
      case False
      obtain r' es' where rec: "retry_loop scale cfg env (a + 1)
          (if max_delay cfg < scale d (backoff_factor cfg) then max_delay cfg else scale d (backoff_factor cfg)) (Some e) = (r', es')"
        by fastforce
      have eq: "r = r'" "es = Attempt a # Wait w # es'"
        using step again False "1.prems"(1) rec by (simp_all add: Let_def)
      obtain n where n: "attempts es' = [a + 1..n]" "retried_until cfg env (a + 1) n r'"
        using "1.IH" [OF "1.prems"(1) again(1) again(2) _ again(4) again(5) False refl _ rec] again "1.prems"(1)
        by (auto simp: not_retryable_iff)
      moreover have "a \<le> n" using n(2) by (simp add: retried_until_def)
      ultimately show ?thesis
        using retried_until_step [OF n(2) again(2,3)] again(4) "1.prems"(1) eq
        by (intro exI [of _ n]) (simp add: upto_rec1)
    qed
  qed
qed

lemma retry_defaults_pos:
  "1 \<le> max_attempts (retry_defaults cfg)" "0 < initial_delay (retry_defaults cfg)" "0 < max_delay (retry_defaults cfg)"
  by (auto simp: retry_defaults_def)

lemma add_jitter_None_iff: "add_jitter rand d = None \<longleftrightarrow> d = 1"
  by (auto simp: add_jitter_def split: option.split)

lemma add_jitter_bounds:
  assumes "add_jitter rand d = Some w" and "d \<le> m" and "0 \<le> m" and "m < 2 ^ 62"
    and "\<And>b j. rand b = Some j \<Longrightarrow> 0 \<le> j \<and> j < b"
  shows "0 \<le> w \<and> 2 * w < 3 * m + 1"
proof (cases "rand (d div 2)")
  case None
  then show ?thesis using assms by (auto simp: add_jitter_def split: if_splits)
next
  case (Some j)
  with assms(5) have "0 \<le> j" "j < d div 2" by auto
  then have j: "0 \<le> j" "2 * j + 2 \<le> d" by auto
  then have "int64 (d + j)" "int64 (d - j)" using assms by (auto simp: int64_def)
  then show ?thesis using assms(1-4) Some j by (auto simp: add_jitter_def split: if_splits)
qed

lemma retry_loop_waits:
  assumes "retry_loop scale cfg env a d le = (r, es)" and "d \<le> m" and "max_delay cfg \<le> m" and "0 \<le> m" and "m < 2 ^ 62"
    and "\<And>a b j. rand_int env a b = Some j \<Longrightarrow> 0 \<le> j \<and> j < b"
  shows "\<forall>w\<in>set (waits es). 0 \<le> w \<and> 2 * w < 3 * m + 1"
  using assms
proof (induction scale cfg env a d le arbitrary: r es rule: retry_loop.induct)
  case (1 scale cfg env a d le)
  let ?d = "if max_delay cfg < scale d (backoff_factor cfg) then max_delay cfg else scale d (backoff_factor cfg)"
  show ?case
  proof (cases "waits es = []")
    case False
    from "1.prems"(1) [unfolded retry_loop.simps [of scale cfg env a d le] not_retryable_iff] False
    obtain e w where st: "a \<le> max_attempts cfg" "\<not> cancelled env a" "operation env a = Some e" "may_retry cfg e"
        "a \<noteq> max_attempts cfg" "add_jitter (rand_int env a) d = Some w" and
      es: "(interrupted env a \<and> es = [Attempt a, Wait w]) \<or> (\<not> interrupted env a \<and>
        (\<exists>r' es'. retry_loop scale cfg env (a + 1) ?d (Some e) = (r', es') \<and> es = Attempt a # Wait w # es'))"
      by (auto simp: Let_def split: if_splits option.splits prod.splits)
    have w: "0 \<le> w \<and> 2 * w < 3 * m + 1"
      by (rule add_jitter_bounds [OF st(6) "1.prems"(2,4,5)]) (rule "1.prems"(6))
    show ?thesis
    proof (cases "interrupted env a")
      case False
      with es obtain r' es' where rec: "retry_loop scale cfg env (a + 1) ?d (Some e) = (r', es')" "es = Attempt a # Wait w # es'"
        by auto
      have "?d \<le> m" using "1.prems"(3) by auto
      then have "\<forall>w\<in>set (waits es'). 0 \<le> w \<and> 2 * w < 3 * m + 1"
        using "1.IH" [OF st(1,2,3) _ st(5,6) False refl rec(1)] "1.prems" st(4)
        by (auto simp: not_retryable_iff)
      then show ?thesis using rec(2) w by auto
    qed (use es w in auto)
  qed simp
qed

section \<open>Properties\<close>

text \<open>C29. Whatever calls run concurrently, a breaker reachable from a new one is closed exactly
  while it has recorded fewer failures than its threshold.\<close>

theorem breaker_closed_iff_below_threshold:
  assumes "cb_run (new_circuit_breaker cfg, 0) ls (cb, n)"
  shows "(cb_state cb = State_Closed \<longleftrightarrow> failures cb < failure_threshold (cb_cfg cb)) \<and> 0 \<le> failures cb"
proof -
  have "breaker_inv (fst (cb, n))"
    by (rule cb_run_inv [OF assms]) simp
  then show ?thesis by (simp add: breaker_inv_def)
qed

theorem breaker_closed_iff_below_threshold_witness:
  "\<exists>cb. cb_run (new_circuit_breaker \<lparr>failure_threshold = 1, reset_timeout = 10\<rparr>, 0) [Admit 5, Finish 7 True] (cb, 0) \<and>
    cb_state cb \<noteq> State_Closed"
proof -
  let ?cb = "new_circuit_breaker \<lparr>failure_threshold = 1, reset_timeout = 10\<rparr>"
  have "cb_begin 5 ?cb = Some ?cb" by (simp add: cb_begin_def new_circuit_breaker_def)
  then have r: "cb_run (?cb, 0) [Admit 5, Finish 7 True] (cb_finish 7 True ?cb, 0)"
    by (rule cb_run_Cons [OF cb_admit cb_run_Cons [OF cb_done cb_run_Nil]])
  have "cb_state (cb_finish 7 True ?cb) \<noteq> State_Closed"
    using breaker_closed_iff_below_threshold [OF r]
    by (simp add: cb_finish_def new_circuit_breaker_def)
  then show ?thesis using r by blast
qed

text \<open>Once a breaker is open, no call is admitted before its reset timeout has passed, whatever
  calls still in flight return in the meantime.\<close>

theorem open_breaker_rejects_until_timeout:
  assumes "cb_run (cb, k) ls (cb', k')" and "cb_state cb = State_Open"
    and "sorted (last_state_chg cb # map label_time ls)"
    and "list_all (\<lambda>l. label_time l \<le> last_state_chg cb + reset_timeout (cb_cfg cb)) ls"
  shows "cb_state cb' = State_Open \<and> Admit t \<notin> set ls"
  using open_run [OF assms(1), of "last_state_chg cb"] assms by simp

theorem open_breaker_rejects_until_timeout_witness:
  "\<exists>cb'. cb_run (\<lparr>cb_state = State_Open, failures = 1, cb_cfg = \<lparr>failure_threshold = 1, reset_timeout = 10\<rparr>, last_state_chg = 7\<rparr>, 1)
       [Reject 8, Finish 9 True, Reject 17] (cb', 0) \<and> cb_state cb' = State_Open"
proof -
  let ?cb = "\<lparr>cb_state = State_Open, failures = 1, cb_cfg = \<lparr>failure_threshold = 1, reset_timeout = 10\<rparr>, last_state_chg = 7\<rparr>"
  have "cb_begin 8 ?cb = None" "cb_begin 17 (cb_finish 9 True ?cb) = None"
    by (simp_all add: cb_begin_def cb_finish_def)
  then have r: "cb_run (?cb, Suc 0) [Reject 8, Finish 9 True, Reject 17] (cb_finish 9 True ?cb, 0)"
    by (intro cb_run_Cons [OF cb_reject] cb_run_Cons [OF cb_done] cb_run_Nil)
  have "cb_state (cb_finish 9 True ?cb) = State_Open"
    using open_breaker_rejects_until_timeout [OF r] by simp
  then show ?thesis using r by (auto simp: numeral_eq_Suc)
qed

text \<open>Sequential calls on a closed breaker all run, and it opens with the call whose failure is
  the threshold-th since it was last closed: the successes in between do not matter.\<close>

theorem breaker_counts_failures_across_successes:
  assumes "cb_state cb = State_Closed"
    and "failures cb + count_failures cs = failure_threshold (cb_cfg cb) - 1"
  shows "fst (cb_calls cs cb) = map (\<lambda>(t0, t1, err). Returned err) cs \<and>
    cb_state (snd (cb_calls cs cb)) = State_Closed \<and>
    cb_state (snd (cb_execute t0 t1 (Some e) (snd (cb_calls cs cb)))) = State_Open"
proof -
  have "failures cb + count_failures cs < failure_threshold (cb_cfg cb)" using assms(2) by simp
  from closed_calls [OF assms(1) this] assms show ?thesis
    by (simp add: cb_execute_def cb_begin_def cb_finish_def Let_def)
qed

theorem breaker_counts_failures_across_successes_witness:
  "cb_state (snd (cb_execute 9 9 (Some ()) (snd (cb_calls [(1, 2, Some ()), (3, 4, None), (5, 6, None)]
     (new_circuit_breaker \<lparr>failure_threshold = 2, reset_timeout = 10\<rparr>))))) = State_Open"
  using breaker_counts_failures_across_successes
    [of "new_circuit_breaker \<lparr>failure_threshold = 2, reset_timeout = 10\<rparr>"
        "[(1, 2, Some ()), (3, 4, None), (5, 6, None)]" 9 9 "()"]
  by (simp add: new_circuit_breaker_def count_failures_def)

text \<open>A half-open breaker admits every call that arrives, not one trial call.\<close>

theorem half_open_admits_everyone:
  assumes "cb_state cb = State_HalfOpen"
  shows "cb_run (cb, k) (map Admit ts) (cb, k + length ts)"
  using assms
proof (induction ts arbitrary: k)
  case (Cons t ts)
  have "cb_step (cb, k) (Admit t) (cb, Suc k)"
    using Cons.prems by (intro cb_admit) (simp add: cb_begin_def)
  then show ?case using cb_run_Cons Cons.IH [OF Cons.prems, of "Suc k"] by fastforce
qed (simp)

theorem half_open_admits_everyone_witness:
  "cb_run (\<lparr>cb_state = State_HalfOpen, failures = 1, cb_cfg = \<lparr>failure_threshold = 1, reset_timeout = 10\<rparr>, last_state_chg = 7\<rparr>, 0)
     [Admit 8, Admit 8, Admit 9]
     (\<lparr>cb_state = State_HalfOpen, failures = 1, cb_cfg = \<lparr>failure_threshold = 1, reset_timeout = 10\<rparr>, last_state_chg = 7\<rparr>, 3)"
  using half_open_admits_everyone [of _ 0 "[8, 8, 9]"] by (simp add: numeral_eq_Suc)

text \<open>Whatever the interleaving of requests, the number of requests the adaptive limiter lets
  into the chain at one time never exceeds its limit, and its counter is the number of requests in
  progress.\<close>

theorem limiter_never_exceeds_limit:
  assumes "limiter_reach n al"
  shows "int (inside al) \<le> (if n \<le> 0 then 1000 else n) \<and> active_requests al = int (inside al + refused al)"
  using limiter_reach_inv [OF assms] by auto

theorem limiter_never_exceeds_limit_witness:
  "inside (snd (limiter_enter (snd (limiter_enter (new_adaptive_limiter 1))))) \<le> 1 \<and>
   refused (snd (limiter_enter (snd (limiter_enter (new_adaptive_limiter 1))))) = 1"
proof -
  have "limiter_reach 1 (snd (limiter_enter (snd (limiter_enter (new_adaptive_limiter 1)))))"
    by (intro limiter_init limiter_request)
       (simp_all add: new_adaptive_limiter_def limiter_enter_def Let_def int64_def)
  from limiter_never_exceeds_limit [OF this] show ?thesis
    by (simp add: new_adaptive_limiter_def limiter_enter_def Let_def int64_def)
qed

text \<open>The retry loop calls the operation with attempts 1, 2, ... without gaps and at most the
  configured number of times; every attempt but the last failed with a retryable error; it reports
  success only for a last attempt that succeeded, and an error only if that was the error of the
  last attempt and that attempt was the last allowed or its error is not retryable.\<close>

theorem retry_is_bounded_and_stops_right:
  assumes "retry scale cfg env = (r, es)"
  shows "\<exists>n. attempts es = [1..n] \<and> retried_until (retry_defaults cfg) env 1 n r"
  using retry_loop_attempts [OF retry_defaults_pos(1)] assms by (simp add: retry_def Let_def)

definition failing_env :: "nat retry_env" where
  "failing_env = \<lparr>cancelled = (\<lambda>a. False), operation = (\<lambda>a. if a < 3 then Some 7 else None),
     rand_int = (\<lambda>a b. Some 0), interrupted = (\<lambda>a. False)\<rparr>"

definition fast_config :: "nat retry_config" where
  "fast_config = \<lparr>max_attempts = 5, initial_delay = 10, max_delay = 15, backoff_factor = 2, retryable = None\<rparr>"

lemma fast_run: "retry (\<lambda>d f. floor (of_int d * f)) fast_config failing_env =
    (Retry_Ok, [Attempt 1, Wait 10, Attempt 2, Wait 15, Attempt 3])"
  by (simp add: retry_def fast_config_def failing_env_def retry_defaults_def retry_loop.simps
      add_jitter_def int64_def)

theorem retry_is_bounded_and_stops_right_witness:
  "operation failing_env 3 = None \<and> (\<exists>n. [1, 2, 3] = [1..n])"
  using retry_is_bounded_and_stops_right [OF fast_run] by (auto simp: failing_env_def)

text \<open>Every wait of the retry loop is at least zero and at most half again as long as the larger
  of the initial and the maximal delay.\<close>

theorem retry_waits_are_bounded:
  assumes "retry scale cfg env = (r, es)"
    and "max (initial_delay (retry_defaults cfg)) (max_delay (retry_defaults cfg)) < 2 ^ 62"
    and "\<And>a b j. rand_int env a b = Some j \<Longrightarrow> 0 \<le> j \<and> j < b"
    and "w \<in> set (waits es)"
  shows "0 \<le> w \<and> 2 * w \<le> 3 * max (initial_delay (retry_defaults cfg)) (max_delay (retry_defaults cfg))"
proof -
  let ?m = "max (initial_delay (retry_defaults cfg)) (max_delay (retry_defaults cfg))"
  have "0 \<le> ?m" using retry_defaults_pos(2) [of cfg] by simp
  then have "\<forall>w\<in>set (waits es). 0 \<le> w \<and> 2 * w < 3 * ?m + 1"
    using assms(1,2) retry_loop_waits [of scale "retry_defaults cfg" env 1 "initial_delay (retry_defaults cfg)" None r es ?m]
    by (simp add: retry_def Let_def assms(3))
  then show ?thesis using assms(4) by auto
qed

theorem retry_waits_are_bounded_witness: "(2 :: int) * 15 \<le> 3 * max 10 15"
  using retry_waits_are_bounded [of _ fast_config failing_env, OF fast_run, of 15]
  by (simp add: fast_config_def failing_env_def retry_defaults_def)

text \<open>A delay of one nanosecond makes the retry loop panic in the random source after the first
  retryable failure, where another attempt was due.\<close>

theorem one_nanosecond_delay_panics:
  assumes "initial_delay cfg = 1" and "1 < max_attempts cfg" and "\<not> cancelled env 1"
    and "operation env 1 = Some e" and "may_retry cfg e"
  shows "retry scale cfg env = (Retry_Panic, [Attempt 1])"
  using assms
  by (simp add: retry_def Let_def retry_loop.simps retry_defaults_def not_retryable_iff add_jitter_def may_retry_def)

theorem one_nanosecond_delay_panics_witness:
  "retry (\<lambda>d f. d) (fast_config\<lparr>initial_delay := 1\<rparr>) failing_env = (Retry_Panic, [Attempt 1])"
  by (rule one_nanosecond_delay_panics [where e = 7])
     (simp_all add: fast_config_def failing_env_def may_retry_def)

end
