(* ===== verification/Saga.thy ===== *)
theory Saga
  imports Gpp_Prelude
begin

text \<open>
  \<^verbatim>\<open>saga/saga.go\<close>: the process-local saga coordinator. A step's functions act on a state of
  the application, of any type \<open>'s\<close>, and return an error or none; a nil function is \<open>None\<close>.
\<close>

type_synonym ('s, 'e) action = "'s \<Rightarrow> 'e option \<times> 's"

record ('s, 'e) saga_step =
  step_name :: string
  execute :: "('s, 'e) action option"
  compensate :: "('s, 'e) action option"

type_synonym ('s, 'e) coordinator = "('s, 'e) saga_step list"

datatype 'e saga_error =
    No_Execute string
  | Step_Failed string 'e "(string \<times> 'e) list"  \<comment> \<open>with the joined compensation failures\<close>

definition new_coordinator :: "('s, 'e) coordinator" where
  "new_coordinator = []"

definition add_step :: "string \<Rightarrow> ('s, 'e) action option \<Rightarrow> ('s, 'e) action option \<Rightarrow> ('s, 'e) coordinator \<Rightarrow> ('s, 'e) coordinator" where
  "add_step name ex undo c = c @ [\<lparr>step_name = name, execute = ex, compensate = undo\<rparr>]"

text \<open>The loop of \<^verbatim>\<open>compensateReverse\<close> over the executed steps, last first.\<close>

fun compensate_loop :: "('s, 'e) saga_step list \<Rightarrow> 's \<Rightarrow> (string \<times> 'e) list \<times> 's" where
  "compensate_loop [] s = ([], s)"
| "compensate_loop (st # sts) s =
     (case compensate st of
        None \<Rightarrow> compensate_loop sts s
      | Some undo \<Rightarrow>
          let (err, s') = undo s; (errs, s'') = compensate_loop sts s'
          in (case err of None \<Rightarrow> (errs, s'') | Some e \<Rightarrow> ((step_name st, e) # errs, s'')))"

definition compensate_reverse :: "('s, 'e) saga_step list \<Rightarrow> 's \<Rightarrow> (string \<times> 'e) list \<times> 's" where
  "compensate_reverse executed s = compensate_loop (rev executed) s"

fun saga_loop :: "('s, 'e) saga_step list \<Rightarrow> ('s, 'e) saga_step list \<Rightarrow> 's \<Rightarrow> 'e saga_error option \<times> 's" where
  "saga_loop executed [] s = (None, s)"
| "saga_loop executed (st # sts) s =
     (case execute st of
        None \<Rightarrow> (Some (No_Execute (step_name st)), s)
      | Some ex \<Rightarrow>
          (case ex s of
             (Some e, s') \<Rightarrow>
               let (errs, s'') = compensate_reverse executed s' in (Some (Step_Failed (step_name st) e errs), s'')
           | (None, s') \<Rightarrow> saga_loop (executed @ [st]) sts s'))"

definition saga_execute :: "('s, 'e) coordinator \<Rightarrow> 's \<Rightarrow> 'e saga_error option \<times> 's" where
  "saga_execute c s = saga_loop [] c s"

text \<open>The forward run: the states between the steps that succeed.\<close>

fun forward :: "('s, 'e) saga_step list \<Rightarrow> 's \<Rightarrow> 's option" where
  "forward [] s = Some s"
| "forward (st # sts) s =
     (case execute st of
        None \<Rightarrow> None
      | Some ex \<Rightarrow> (case ex s of (Some e, s') \<Rightarrow> None | (None, s') \<Rightarrow> forward sts s'))"

lemma saga_loop_forward:
  "forward sts s = Some s' \<Longrightarrow> saga_loop ex (sts @ tl_steps) s = saga_loop (ex @ sts) tl_steps s'"
  by (induction sts arbitrary: ex s) (auto split: option.splits prod.splits)

lemma forward_snoc: "forward sts s = Some s' \<Longrightarrow> forward (sts @ tl_steps) s = forward tl_steps s'"
  by (induction sts arbitrary: s) (auto split: option.splits prod.splits)





section \<open>Properties\<close>


definition deposit :: "int \<Rightarrow> (int, string) saga_step" where
  "deposit n = \<lparr>step_name = ''deposit'', execute = Some (\<lambda>s. (None, s + n)), compensate = Some (\<lambda>s. (None, s - n))\<rparr>"

definition refuse :: "(int, string) saga_step" where
  "refuse = \<lparr>step_name = ''refuse'', execute = Some (\<lambda>s. (Some ''no'', s)), compensate = None\<rparr>"


text \<open>A step without an execute function ends the saga with an error but, unlike a step that
  fails, without compensating the steps that already ran: their effects stay.\<close>

theorem missing_execute_skips_compensation:
  assumes "forward ds s = Some t" and "execute st = None"
  shows "saga_execute (ds @ st # rest) s = (Some (No_Execute (step_name st)), t)"
  using saga_loop_forward [OF assms(1), of "[]" "st # rest"] assms(2) by (simp add: saga_execute_def)

theorem missing_execute_skips_compensation_witness:
  "saga_execute ([deposit 3, deposit 4] @ \<lparr>step_name = ''x'', execute = None, compensate = None\<rparr> # [refuse]) 10 =
     (Some (No_Execute ''x''), 17)"
  using missing_execute_skips_compensation
    [of "[deposit 3, deposit 4]" 10 17 "\<lparr>step_name = ''x'', execute = None, compensate = None\<rparr>" "[refuse]"]
  by (simp add: deposit_def)

end
