(* ===== verification/Go_Maps.thy ===== *)
theory Go_Maps
  imports Gpp_Prelude "HOL-Library.AList"
begin

text \<open>
  Go maps as association lists. \<open>AList.update\<close> keeps the position of a key and \<open>AList.delete\<close>
  removes every entry of it; the facts on keys and length below are shared by the stores that pair
  a map with a list of its keys in insertion order.
\<close>

lemma dom_delete: "fst ` set (AList.delete k al) = fst ` set al - {k}"
  by (metis delete_keys set_map set_removeAll)

lemma length_update: "length (AList.update k v al) = (if k \<in> fst ` set al then length al else Suc (length al))"
  by (induction al) auto

lemma length_delete_distinct:
  "distinct (map fst al) \<Longrightarrow> k \<in> fst ` set al \<Longrightarrow> Suc (length (AList.delete k al)) = length al"
proof -
  assume "distinct (map fst al)" "k \<in> fst ` set al"
  moreover have "length (AList.delete k al) = length (removeAll k (map fst al))"
    by (metis delete_keys length_map)
  ultimately show ?thesis
    by (simp add: distinct_remove1_removeAll [symmetric] length_remove1)
       (metis Suc_pred length_pos_if_in_set length_map image_set)
qed

lemma map_of_SomeD_dom: "map_of al k = Some v \<Longrightarrow> k \<in> fst ` set al"
  by (metis domI dom_map_of_conv_image_fst)


lemma set_alist_update: "x \<in> set (AList.update k v xs) \<Longrightarrow> x = (k, v) \<or> x \<in> set xs"
  by (induction xs) (auto split: if_splits)


lemma length_filter_mono: "(\<And>x. x \<in> set xs \<Longrightarrow> P x \<Longrightarrow> Q x) \<Longrightarrow> length (filter P xs) \<le> length (filter Q xs)"
  by (induction xs) auto

lemma map_of_filter_snd:
  "distinct (map fst al) \<Longrightarrow>
     map_of (filter (\<lambda>p. P (snd p)) al) k = (case map_of al k of Some v \<Rightarrow> if P v then Some v else None | None \<Rightarrow> None)"
proof (induction al)
  case (Cons p al)
  have "k = fst p \<Longrightarrow> map_of (filter (\<lambda>p. P (snd p)) al) k = None"
    using Cons.prems by (auto simp: map_of_eq_None_iff)
  then show ?case using Cons by (cases p) auto
qed simp

lemma distinct_filter_keys: "distinct (map fst al) \<Longrightarrow> distinct (map fst (filter P al))"
  by (induction al) auto

end
