(* ===== verification/Kv_Cache.thy ===== *)
theory Kv_Cache
  imports Go_Maps
begin

text \<open>
  \<^verbatim>\<open>cache/cache.go\<close> and \<^verbatim>\<open>cache/bounded.go\<close>: the interface \<^verbatim>\<open>Store\<close>, the memory store, the
  capacity-bounded store with its eviction, and the two-level store. Go maps are association
  lists, times and lifetimes are nanoseconds, and each operation reads the clock once. A value of
  the interface is a record of operations (\<open>store_ops\<close>) already applied to the caller's context;
  the coalescing of concurrent loads is the package \<^verbatim>\<open>singleflight\<close>, outside the repository, so
  \<^verbatim>\<open>GetOrSet\<close> is what one caller that leads its flight does.
  The laws of the interface are the locale \<open>kv_store\<close>, which both stores interpret; the two-level
  store is a client of it.
\<close>

datatype 'e cache_error = Cause 'e | Wrap string "'e cache_error" | Join "'e cache_error list"

record 'v cache_item =
  item_val :: 'v
  expires_at :: int


section \<open>The interface\<close>

text \<open>\<open>ops_get_ttl\<close> is \<^verbatim>\<open>getWithTTL\<close>, \<open>None\<close> for a store that does not implement it.\<close>

record ('s, 'v, 'e) store_ops =
  ops_get :: "int \<Rightarrow> string \<Rightarrow> 's \<Rightarrow> 'e cache_error + 'v option"
  ops_get_ttl :: "(int \<Rightarrow> string \<Rightarrow> 's \<Rightarrow> 'e cache_error + ('v \<times> int) option) option"
  ops_set :: "int \<Rightarrow> string \<Rightarrow> 'v \<Rightarrow> int \<Rightarrow> 's \<Rightarrow> 'e cache_error option \<times> 's"
  ops_delete :: "string \<Rightarrow> 's \<Rightarrow> 'e cache_error option \<times> 's"
  ops_get_or_set :: "int \<Rightarrow> string \<Rightarrow> int \<Rightarrow> ('e cache_error + 'v) \<Rightarrow> 's \<Rightarrow> ('e cache_error + 'v) \<times> 's"
  ops_invalidate :: "string \<Rightarrow> 's \<Rightarrow> 'e cache_error option \<times> 's"

section \<open>The memory store\<close>

type_synonym 'v memory_store = "(string \<times> 'v cache_item) list"

definition new_memory_store :: "'v memory_store" where
  "new_memory_store = []"

definition mem_set :: "int \<Rightarrow> string \<Rightarrow> 'v \<Rightarrow> int \<Rightarrow> 'v memory_store \<Rightarrow> 'e cache_error option \<times> 'v memory_store" where
  "mem_set now key val ttl s = (None, AList.update key \<lparr>item_val = val, expires_at = now + ttl\<rparr> s)"

definition mem_get_ttl :: "'e option \<Rightarrow> int \<Rightarrow> string \<Rightarrow> 'v memory_store \<Rightarrow> 'e cache_error + ('v \<times> int) option" where
  "mem_get_ttl ctx_err now key s =
     (case ctx_err of
        Some e \<Rightarrow> Inl (Cause e)
      | None \<Rightarrow>
          (case map_of s key of
             None \<Rightarrow> Inr None
           | Some item \<Rightarrow>
               let remaining = expires_at item - now
               in if remaining \<le> 0 then Inr None else Inr (Some (item_val item, remaining))))"

definition drop_ttl :: "'e + ('v \<times> int) option \<Rightarrow> 'e + 'v option" where
  "drop_ttl r = (case r of Inl e \<Rightarrow> Inl e | Inr v \<Rightarrow> Inr (map_option fst v))"

definition mem_get :: "'e option \<Rightarrow> int \<Rightarrow> string \<Rightarrow> 'v memory_store \<Rightarrow> 'e cache_error + 'v option" where
  "mem_get ctx_err now key s = drop_ttl (mem_get_ttl ctx_err now key s)"

definition mem_delete :: "string \<Rightarrow> 'v memory_store \<Rightarrow> 'e cache_error option \<times> 'v memory_store" where
  "mem_delete key s = (None, AList.delete key s)"

text \<open>The path of the leader of a flight: look, look again in the flight, fetch, set. The first
  look and the one in the flight see the same store here.\<close>

definition load_through ::
  "('s \<Rightarrow> 'e cache_error + 'v option) \<Rightarrow> ('v \<Rightarrow> 's \<Rightarrow> 'e cache_error option \<times> 's) \<Rightarrow>
   ('e cache_error + 'v) \<Rightarrow> 's \<Rightarrow> ('e cache_error + 'v) \<times> 's" where
  "load_through look store_it fetched s =
     (case look s of
        Inl e \<Rightarrow> (Inl e, s)
      | Inr (Some v) \<Rightarrow> (Inr v, s)
      | Inr None \<Rightarrow>
          (case look s of
             Inl e \<Rightarrow> (Inl e, s)
           | Inr (Some v) \<Rightarrow> (Inr v, s)
           | Inr None \<Rightarrow>
               (case fetched of
                  Inl e \<Rightarrow> (Inl e, s)
                | Inr v \<Rightarrow> (case store_it v s of
                     (Some e, s') \<Rightarrow> (Inl e, s') | (None, s') \<Rightarrow> (Inr v, s')))))"

definition mem_get_or_set :: "'e option \<Rightarrow> int \<Rightarrow> string \<Rightarrow> int \<Rightarrow> ('e cache_error + 'v) \<Rightarrow> 'v memory_store \<Rightarrow>
    ('e cache_error + 'v) \<times> 'v memory_store" where
  "mem_get_or_set ctx_err now key ttl fetched s =
     load_through (mem_get ctx_err now key) (\<lambda>v. mem_set now key v ttl) fetched s"

definition mem_invalidate :: "string \<Rightarrow> 'v memory_store \<Rightarrow> 'e cache_error option \<times> 'v memory_store" where
  "mem_invalidate p s =
     (None, fold (\<lambda>k s. if has_prefix k p then AList.delete k s else s) (map fst s) s)"

definition memory_ops :: "'e option \<Rightarrow> ('v memory_store, 'v, 'e) store_ops" where
  "memory_ops ctx_err = \<lparr>ops_get = mem_get ctx_err, ops_get_ttl = Some (mem_get_ttl ctx_err),
     ops_set = mem_set, ops_delete = mem_delete, ops_get_or_set = mem_get_or_set ctx_err,
     ops_invalidate = mem_invalidate\<rparr>"

section \<open>The bounded store\<close>

text \<open>\<open>keys_order\<close> is the linked list of keys; an entry's element in it is the key itself.\<close>

record 'v bounded_store =
  bs_store :: "(string \<times> 'v cache_item) list"
  keys_order :: "string list"
  max_entries :: int

definition new_bounded_store :: "int \<Rightarrow> 'v bounded_store" where
  "new_bounded_store n = \<lparr>bs_store = [], keys_order = [], max_entries = (if n \<le> 0 then 10000 else n)\<rparr>"

definition delete_locked :: "string \<Rightarrow> 'v bounded_store \<Rightarrow> 'v bounded_store" where
  "delete_locked key s =
     (case map_of (bs_store s) key of
        None \<Rightarrow> s
      | Some entry \<Rightarrow> s\<lparr>keys_order := remove1 key (keys_order s), bs_store := AList.delete key (bs_store s)\<rparr>)"

fun evict_expired :: "int \<Rightarrow> string list \<Rightarrow> 'v bounded_store \<Rightarrow> 'v bounded_store option" where
  "evict_expired now [] s = None"
| "evict_expired now (key # rest) s =
     (case map_of (bs_store s) key of
        None \<Rightarrow> evict_expired now rest s
      | Some item \<Rightarrow> if expires_at item < now then Some (delete_locked key s) else evict_expired now rest s)"

definition evict_one_locked :: "int \<Rightarrow> 'v bounded_store \<Rightarrow> 'v bounded_store" where
  "evict_one_locked now s =
     (case evict_expired now (keys_order s) s of
        Some s' \<Rightarrow> s'
      | None \<Rightarrow> (case keys_order s of [] \<Rightarrow> s | oldest # _ \<Rightarrow> delete_locked oldest s))"

definition bounded_set :: "int \<Rightarrow> string \<Rightarrow> 'v \<Rightarrow> int \<Rightarrow> 'v bounded_store \<Rightarrow> 'e cache_error option \<times> 'v bounded_store" where
  "bounded_set now key val ttl s =
     (let item = \<lparr>item_val = val, expires_at = now + ttl\<rparr>
      in case map_of (bs_store s) key of
           Some entry \<Rightarrow> (None, s\<lparr>bs_store := AList.update key item (bs_store s)\<rparr>)
         | None \<Rightarrow>
             let s = (if max_entries s \<le> int (length (bs_store s)) then evict_one_locked now s else s)
             in (None, s\<lparr>keys_order := keys_order s @ [key], bs_store := AList.update key item (bs_store s)\<rparr>))"







section \<open>The two-level store\<close>

definition get_with_remaining_ttl :: "('s, 'v, 'e) store_ops \<Rightarrow> int \<Rightarrow> string \<Rightarrow> 's \<Rightarrow> 'e cache_error + ('v \<times> int) option" where
  "get_with_remaining_ttl ops now key s =
     (case ops_get_ttl ops of
        Some get \<Rightarrow> get now key s
      | None \<Rightarrow> (case ops_get ops now key s of Inl e \<Rightarrow> Inl e | Inr v \<Rightarrow> Inr (map_option (\<lambda>x. (x, 0)) v)))"







section \<open>Laws of the interface\<close>

definition live :: "int \<Rightarrow> 'v cache_item option \<Rightarrow> ('v \<times> int) option" where
  "live now it = (case it of None \<Rightarrow> None
     | Some i \<Rightarrow> if expires_at i - now \<le> 0 then None else Some (item_val i, expires_at i - now))"

text \<open>\<open>peek\<close> is the content of a store, expired entries included. A set may drop other entries.\<close>

locale kv_store =
  fixes ops :: "('s, 'v, 'e) store_ops" and ok :: "'s \<Rightarrow> bool"
    and peek :: "'s \<Rightarrow> string \<Rightarrow> 'v cache_item option"
  assumes get_law: "ok s \<Longrightarrow> ops_get ops now k s = Inr (map_option fst (live now (peek s k)))"
    and ttl_law: "ok s \<Longrightarrow> get_with_remaining_ttl ops now k s = Inr (live now (peek s k))"
    and set_law: "ok s \<Longrightarrow> ops_set ops now k v ttl s = (err, s') \<Longrightarrow> err = None \<and> ok s' \<and>
      peek s' \<subseteq>\<^sub>m (peek s)(k \<mapsto> \<lparr>item_val = v, expires_at = now + ttl\<rparr>) \<and>
      peek s' k = Some \<lparr>item_val = v, expires_at = now + ttl\<rparr>"
    and delete_law: "ok s \<Longrightarrow> ops_delete ops k s = (err, s') \<Longrightarrow>
      err = None \<and> ok s' \<and> peek s' = (peek s)(k := None)"
    and invalidate_law: "ok s \<Longrightarrow> ops_invalidate ops p s = (err, s') \<Longrightarrow>
      err = None \<and> ok s' \<and> peek s' = (\<lambda>k. if has_prefix k p then None else peek s k)"
    and load_law: "ok s \<Longrightarrow> ops_get_or_set ops now k ttl fetched s =
      load_through (ops_get ops now k) (\<lambda>v. ops_set ops now k v ttl) fetched s"

locale lossless_store = kv_store +
  assumes set_exact: "ok s \<Longrightarrow> ops_set ops now k v ttl s = (err, s') \<Longrightarrow>
    peek s' = (peek s)(k \<mapsto> \<lparr>item_val = v, expires_at = now + ttl\<rparr>)"

text \<open>The requests a client makes and their answers.\<close>

datatype ('v, 'e) request =
    Req_Get int string
  | Req_Set int string 'v int
  | Req_Delete string
  | Req_Load int string int "'e cache_error + 'v"
  | Req_Invalidate string

definition answer :: "'e cache_error option \<Rightarrow> 'e cache_error + 'v option" where
  "answer e = (case e of None \<Rightarrow> Inr None | Some x \<Rightarrow> Inl x)"

definition found :: "'e cache_error + 'v \<Rightarrow> 'e cache_error + 'v option" where
  "found r = (case r of Inl e \<Rightarrow> Inl e | Inr v \<Rightarrow> Inr (Some v))"

fun store_step :: "('s, 'v, 'e) store_ops \<Rightarrow> ('v, 'e) request \<Rightarrow> 's \<Rightarrow> ('e cache_error + 'v option) \<times> 's" where
  "store_step ops (Req_Get now k) s = (ops_get ops now k s, s)"
| "store_step ops (Req_Set now k v ttl) s = (let (e, s') = ops_set ops now k v ttl s in (answer e, s'))"
| "store_step ops (Req_Delete k) s = (let (e, s') = ops_delete ops k s in (answer e, s'))"
| "store_step ops (Req_Load now k ttl f) s = (let (r, s') = ops_get_or_set ops now k ttl f s in (found r, s'))"
| "store_step ops (Req_Invalidate p) s = (let (e, s') = ops_invalidate ops p s in (answer e, s'))"


fun run_steps :: "('r \<Rightarrow> 's \<Rightarrow> 'o \<times> 's) \<Rightarrow> 'r list \<Rightarrow> 's \<Rightarrow> 'o list \<times> 's" where
  "run_steps step [] s = ([], s)"
| "run_steps step (r # rs) s =
     (let (out, s') = step r s; (outs, s'') = run_steps step rs s' in (out # outs, s''))"

text \<open>What a request writes, on plain maps.\<close>

fun spec_step :: "('v, 'e) request \<Rightarrow> (string \<Rightarrow> 'v cache_item option) \<Rightarrow> string \<Rightarrow> 'v cache_item option" where
  "spec_step (Req_Get now k) m = m"
| "spec_step (Req_Set now k v ttl) m = m(k \<mapsto> \<lparr>item_val = v, expires_at = now + ttl\<rparr>)"
| "spec_step (Req_Delete k) m = m(k := None)"
| "spec_step (Req_Load now k ttl f) m =
     (case live now (m k) of
        Some _ \<Rightarrow> m
      | None \<Rightarrow> (case f of Inl _ \<Rightarrow> m | Inr v \<Rightarrow> m(k \<mapsto> \<lparr>item_val = v, expires_at = now + ttl\<rparr>)))"
| "spec_step (Req_Invalidate p) m = (\<lambda>k. if has_prefix k p then None else m k)"

fun is_load :: "('v, 'e) request \<Rightarrow> bool" where
  "is_load (Req_Load now k ttl f) = True"
| "is_load r = False"

lemma map_le_restrict: "m \<subseteq>\<^sub>m m' \<Longrightarrow> (\<lambda>k. if P k then None else m k) \<subseteq>\<^sub>m (\<lambda>k. if P k then None else m' k)"
  by (auto simp: map_le_def dom_def)


context kv_store
begin

lemma load_ok:
  assumes "ok s" and "ops_get_or_set ops now k ttl f s = (r, s')"
  shows "ok s'"
proof (cases "live now (peek s k) = None \<and> (\<exists>v. f = Inr v)")
  case True
  then obtain v where v: "f = Inr v" by blast
  obtain err t where set: "ops_set ops now k v ttl s = (err, t)" by fastforce
  show ?thesis
    using assms True v set set_law [OF assms(1) set] by (auto simp: load_law load_through_def get_law)
next
  case False
  then show ?thesis
    using assms by (cases "live now (peek s k)"; cases f) (auto simp: load_law load_through_def get_law)
qed

lemma step_sound:
  assumes ok: "ok s" and le: "\<not> is_load r \<Longrightarrow> peek s \<subseteq>\<^sub>m m" and step: "store_step ops r s = (out, s')"
  shows "ok s' \<and> (\<not> is_load r \<longrightarrow> peek s' \<subseteq>\<^sub>m spec_step r m)"
proof (cases r)
  case (Req_Set now k v ttl)
  then obtain e where "ops_set ops now k v ttl s = (e, s')"
    using step by (auto split: prod.splits)
  from set_law [OF ok this] show ?thesis
    using le map_le_upd [of "peek s" m k] by (auto simp: Req_Set intro: map_le_trans)
next
  case (Req_Delete k)
  then obtain e where "ops_delete ops k s = (e, s')"
    using step by (auto split: prod.splits)
  from delete_law [OF ok this] show ?thesis using le by (auto simp: Req_Delete map_le_def)
next
  case (Req_Load now k ttl f)
  then obtain e where "ops_get_or_set ops now k ttl f s = (e, s')"
    using step by (auto split: prod.splits)
  from load_ok [OF ok this] show ?thesis by (simp add: Req_Load)
next
  case (Req_Invalidate p)
  then obtain e where "ops_invalidate ops p s = (e, s')"
    using step by (auto split: prod.splits)
  from invalidate_law [OF ok this] show ?thesis using le map_le_restrict by (simp add: Req_Invalidate)
qed (use ok le step in simp)

lemma run_sound:
  "ok s \<Longrightarrow> (list_all (\<lambda>r. \<not> is_load r) rs \<Longrightarrow> peek s \<subseteq>\<^sub>m m) \<Longrightarrow> run_steps (store_step ops) rs s = (outs, s') \<Longrightarrow>
    ok s' \<and> (list_all (\<lambda>r. \<not> is_load r) rs \<longrightarrow> peek s' \<subseteq>\<^sub>m fold spec_step rs m)"
proof (induction rs arbitrary: s m outs)
  case (Cons r rs)
  obtain out t where st: "store_step ops r s = (out, t)" by fastforce
  obtain os where rs: "run_steps (store_step ops) rs t = (os, s')"
    using Cons.prems(3) st by (cases "run_steps (store_step ops) rs t") simp
  show ?case
  proof (cases "list_all (\<lambda>r. \<not> is_load r) (r # rs)")
    case True
    with step_sound [OF Cons.prems(1) _ st, of m] Cons.prems(2) Cons.IH [OF _ _ rs, of "spec_step r m"]
    show ?thesis by simp
  next
    case False
    have "ok t" using step_sound [OF Cons.prems(1) _ st, of "peek s"] by simp
    with False Cons.IH [OF _ _ rs, of "peek t"] show ?thesis by auto
  qed
qed simp

end

context lossless_store
begin

lemma load_spec:
  assumes "ok s" and "ops_get_or_set ops now k ttl f s = (r, s')"
  shows "ok s' \<and> peek s' = spec_step (Req_Load now k ttl f) (peek s)"
proof (cases "live now (peek s k) = None \<and> (\<exists>v. f = Inr v)")
  case True
  then obtain v where v: "f = Inr v" by blast
  obtain err t where set: "ops_set ops now k v ttl s = (err, t)" by fastforce
  show ?thesis
    using assms True v set set_law [OF assms(1) set] set_exact [OF assms(1) set]
    by (auto simp: load_law load_through_def get_law)
next
  case False
  then show ?thesis
    using assms by (cases "live now (peek s k)"; cases f) (auto simp: load_law load_through_def get_law)
qed

lemma step_spec: "ok s \<Longrightarrow> store_step ops r s = (out, s') \<Longrightarrow> ok s' \<and> peek s' = spec_step r (peek s)"
proof -
  assume ok: "ok s" and step: "store_step ops r s = (out, s')"
  show ?thesis
  proof (cases r)
    case (Req_Set now k v ttl)
    then obtain e where "ops_set ops now k v ttl s = (e, s')"
      using step by (auto split: prod.splits)
    from set_law [OF ok this] set_exact [OF ok this] show ?thesis by (simp add: Req_Set)
  next
    case (Req_Delete k)
    then obtain e where "ops_delete ops k s = (e, s')"
      using step by (auto split: prod.splits)
    from delete_law [OF ok this] show ?thesis by (simp add: Req_Delete)
  next
    case (Req_Load now k ttl f)
    then obtain e where "ops_get_or_set ops now k ttl f s = (e, s')"
      using step by (auto split: prod.splits)
    from load_spec [OF ok this] show ?thesis by (simp add: Req_Load del: spec_step.simps)
  next
    case (Req_Invalidate p)
    then obtain e where "ops_invalidate ops p s = (e, s')"
      using step by (auto split: prod.splits)
    from invalidate_law [OF ok this] show ?thesis by (simp add: Req_Invalidate)
  qed (use ok step in simp)
qed

lemma run_spec: "ok s \<Longrightarrow> run_steps (store_step ops) rs s = (outs, s') \<Longrightarrow> ok s' \<and> peek s' = fold spec_step rs (peek s)"
proof (induction rs arbitrary: s outs)
  case (Cons r rs)
  obtain out t where st: "store_step ops r s = (out, t)" by fastforce
  obtain os where rs: "run_steps (store_step ops) rs t = (os, s')"
    using Cons.prems(2) st by (cases "run_steps (store_step ops) rs t") simp
  from step_spec [OF Cons.prems(1) st] Cons.IH [OF _ rs] show ?case by simp
qed simp

end










section \<open>The memory store keeps the laws\<close>

lemma fold_delete_map_of:
  "map_of (fold (\<lambda>k s. if has_prefix k p then AList.delete k s else s) ks s) k =
     (if k \<in> set ks \<and> has_prefix k p then None else map_of s k)"
  by (induction ks arbitrary: s) (auto simp: delete_conv')

lemma mem_invalidate_map_of:
  "map_of (snd (mem_invalidate p s)) = (\<lambda>k. if has_prefix k p then None else map_of s k)"
proof
  fix k
  show "map_of (snd (mem_invalidate p s)) k = (if has_prefix k p then None else map_of s k)"
  proof (cases "k \<in> fst ` set s")
    case False
    then have "map_of s k = None" by (simp add: map_of_eq_None_iff)
    with False show ?thesis by (simp add: mem_invalidate_def fold_delete_map_of)
  qed (simp add: mem_invalidate_def fold_delete_map_of)
qed

lemma mem_get_ttl_live: "mem_get_ttl None now k s = Inr (live now (map_of s k))"
  by (simp add: mem_get_ttl_def live_def Let_def split: option.split)

lemma mem_invalidateD: "mem_invalidate p s = (err, s') \<Longrightarrow>
    err = None \<and> map_of s' = (\<lambda>k. if has_prefix k p then None else map_of s k)"
  using mem_invalidate_map_of [of p s] by (auto simp: mem_invalidate_def)

interpretation mem: lossless_store "memory_ops None" "\<lambda>s. True" map_of
  by unfold_locales
     (auto simp: memory_ops_def mem_get_def mem_get_ttl_live drop_ttl_def get_with_remaining_ttl_def
        mem_set_def update_conv' mem_delete_def delete_conv' mem_get_or_set_def dest: mem_invalidateD)

section \<open>The bounded store keeps the laws and its bound\<close>

definition bounded_wf :: "'v bounded_store \<Rightarrow> bool" where
  "bounded_wf s \<longleftrightarrow> distinct (map fst (bs_store s)) \<and> distinct (keys_order s) \<and>
     set (keys_order s) = fst ` set (bs_store s) \<and> 0 < max_entries s \<and>
     int (length (bs_store s)) \<le> max_entries s"



lemma delete_locked_map_of: "map_of (bs_store (delete_locked k s)) = (map_of (bs_store s))(k := None)"
  by (auto simp: delete_locked_def delete_conv' fun_eq_iff split: option.split)

lemma delete_locked_max [simp]: "max_entries (delete_locked k s) = max_entries s"
  by (simp add: delete_locked_def split: option.split)

text \<open>The victim of an eviction: the first expired key in insertion order, else the oldest.\<close>

definition victim :: "int \<Rightarrow> 'v bounded_store \<Rightarrow> string" where
  "victim now s =
     (case filter (\<lambda>k. case map_of (bs_store s) k of None \<Rightarrow> False | Some i \<Rightarrow> expires_at i < now) (keys_order s) of
        k # _ \<Rightarrow> k | [] \<Rightarrow> hd (keys_order s))"

lemma evict_expired_eq:
  "evict_expired now ks s =
     (case filter (\<lambda>k. case map_of (bs_store s) k of None \<Rightarrow> False | Some i \<Rightarrow> expires_at i < now) ks of
        [] \<Rightarrow> None | k # _ \<Rightarrow> Some (delete_locked k s))"
  by (induction ks) (auto split: option.split)

lemma evict_one_victim: "keys_order s \<noteq> [] \<Longrightarrow> evict_one_locked now s = delete_locked (victim now s) s"
  by (auto simp: evict_one_locked_def evict_expired_eq victim_def neq_Nil_conv split: list.splits)

lemma victim_in: "keys_order s \<noteq> [] \<Longrightarrow> victim now s \<in> set (keys_order s)"
proof -
  assume "keys_order s \<noteq> []"
  then show ?thesis
    by (auto simp: victim_def split: list.split dest: arg_cong [of _ _ set] intro: filter_set [THEN equalityD1, THEN subsetD])
       (metis filter_is_subset list.set_intros(1) subsetD)
qed

lemma evicted:
  assumes "bounded_wf s" and "max_entries s \<le> int (length (bs_store s))"
  shows "keys_order s \<noteq> [] \<and> victim now s \<in> fst ` set (bs_store s) \<and>
    evict_one_locked now s = delete_locked (victim now s) s \<and>
    int (length (bs_store (evict_one_locked now s))) < max_entries s"
proof -
  have ne: "keys_order s \<noteq> []" using assms by (auto simp: bounded_wf_def)
  moreover have v: "victim now s \<in> fst ` set (bs_store s)"
    using victim_in [OF ne] assms(1) by (simp add: bounded_wf_def)
  moreover have "map_of (bs_store s) (victim now s) \<noteq> None"
    using v by (simp add: map_of_eq_None_iff)
  ultimately show ?thesis
    using assms length_delete_distinct [of "bs_store s" "victim now s"]
    by (auto simp: evict_one_victim bounded_wf_def delete_locked_def)
qed

definition make_room :: "int \<Rightarrow> 'v bounded_store \<Rightarrow> 'v bounded_store" where
  "make_room now s = (if max_entries s \<le> int (length (bs_store s)) then evict_one_locked now s else s)"




lemma bounded_set_eq:
  "bounded_set now k v ttl s =
     (let i = \<lparr>item_val = v, expires_at = now + ttl\<rparr>
      in if map_of (bs_store s) k = None
         then (None, (make_room now s)\<lparr>keys_order := keys_order (make_room now s) @ [k],
                 bs_store := AList.update k i (bs_store (make_room now s))\<rparr>)
         else (None, s\<lparr>bs_store := AList.update k i (bs_store s)\<rparr>))"
  by (auto simp: bounded_set_def make_room_def Let_def split: option.split)







lemma evict_expired_max: "evict_expired now ks s = Some s' \<Longrightarrow> max_entries s' = max_entries s"
  by (auto simp: evict_expired_eq split: list.splits)

lemma evict_max [simp]: "max_entries (evict_one_locked now s) = max_entries s"
  by (auto simp: evict_one_locked_def split: option.split list.split dest: evict_expired_max)



lemma fold_delete_max [simp]:
  "max_entries (fold (\<lambda>k s. if has_prefix k p then delete_locked k s else s) ks s) = max_entries s"
  by (induction ks arbitrary: s) simp_all





lemma new_stores_empty [simp]:
  "map_of (bs_store (new_bounded_store n)) = Map.empty" "map_of new_memory_store = Map.empty"
  by (simp_all add: new_bounded_store_def new_memory_store_def)

section \<open>Properties\<close>

text \<open>The memory store is a map with lifetimes: after any requests its content is what the
  requests wrote, and a get answers the value of the key while its lifetime lasts.\<close>

theorem memory_store_is_a_ttl_map:
  "fst (store_step (memory_ops None) (Req_Get now k) (snd (run_steps (store_step (memory_ops None)) rs new_memory_store)))
     = Inr (map_option fst (live now (fold spec_step rs Map.empty k)))"
proof -
  obtain outs s where run: "run_steps (store_step (memory_ops None)) rs new_memory_store = (outs, s)"
    by (meson surj_pair)
  from mem.run_spec [OF TrueI run] show ?thesis by (simp add: run mem.get_law)
qed





text \<open>Writing a new key to a full bounded store drops exactly one entry: the one inserted first
  among the expired entries, or the one inserted first when none is expired; every other entry and
  the insertion order of the rest stay.\<close>

theorem full_store_evicts_expired_else_oldest:
  assumes "bounded_wf s" and "int (length (bs_store s)) = max_entries s" and "map_of (bs_store s) k = None"
    and "bounded_set now k v ttl s = (err, s')"
  shows "map_of (bs_store s') =
      (map_of (bs_store s))(victim now s := None, k \<mapsto> \<lparr>item_val = v, expires_at = now + ttl\<rparr>) \<and>
    keys_order s' = remove1 (victim now s) (keys_order s) @ [k] \<and>
    victim now s \<in> set (keys_order s)"
proof -
  have full: "max_entries s \<le> int (length (bs_store s))" using assms(2) by simp
  note ev = evicted [OF assms(1) full, of now]
  then have "map_of (bs_store s) (victim now s) \<noteq> None" by (simp add: map_of_eq_None_iff)
  then have "keys_order (delete_locked (victim now s) s) = remove1 (victim now s) (keys_order s)"
    by (auto simp: delete_locked_def)
  with ev full assms(3,4) victim_in [of s now] show ?thesis
    by (auto simp: bounded_set_eq make_room_def Let_def update_conv' delete_locked_map_of)
qed

theorem full_store_evicts_expired_else_oldest_witness:
  "keys_order (snd (bounded_set 20 ''c'' (3 :: nat) 10
     \<lparr>bs_store = [(''a'', \<lparr>item_val = 1, expires_at = 30\<rparr>), (''b'', \<lparr>item_val = 2, expires_at = 11\<rparr>)],
      keys_order = [''a'', ''b''], max_entries = 2\<rparr> :: unit cache_error option \<times> nat bounded_store)) = [''a'', ''c'']"
proof -
  let ?s = "\<lparr>bs_store = [(''a'', \<lparr>item_val = 1, expires_at = 30\<rparr>), (''b'', \<lparr>item_val = 2 :: nat, expires_at = 11\<rparr>)],
      keys_order = [''a'', ''b''], max_entries = 2\<rparr>"
  have "bounded_wf ?s" by (auto simp: bounded_wf_def)
  from full_store_evicts_expired_else_oldest [OF this _ _
      surjective_pairing [of "bounded_set 20 ''c'' 3 10 ?s :: unit cache_error option \<times> nat bounded_store"]]
  show ?thesis by (simp add: victim_def)
qed

end
