(* ===== verification/Ids.thy ===== *)
theory Ids
  imports Go_Strconv
begin

text \<open>
  \<^verbatim>\<open>id/id.go\<close>: ULID, snowflake, UUID v4 and v7 and the strategies of the \<^verbatim>\<open>auto_id\<close> tag. The
  clock is a list of readings that a generator consumes, one at its start and one per turn of its
  waiting loop; \<open>None\<close> says that the given readings ended while it was still waiting. Random bytes
  are arguments.
\<close>

type_synonym u64 = "64 word"

section \<open>Digits\<close>

text \<open>The digits of a number, most significant first, as the encoders fill their buffer from the
  last position back.\<close>

fun be_digits :: "nat \<Rightarrow> nat \<Rightarrow> nat \<Rightarrow> nat list" where
  "be_digits b 0 x = []"
| "be_digits b (Suc n) x = be_digits b n (x div b) @ [x mod b]"

lemma length_be_digits [simp]: "length (be_digits b n x) = n"
  by (induction n arbitrary: x) auto

lemma be_digits_less: "0 < b \<Longrightarrow> d \<in> set (be_digits b n x) \<Longrightarrow> d < b"
  by (induction n arbitrary: x) auto

lemma be_digits_cong:
  assumes "0 < b" and "x mod b ^ n = y mod b ^ n"
  shows "be_digits b n x = be_digits b n y"
  using assms(2)
proof (induction n arbitrary: x y)
  case (Suc n)
  have split: "z mod b ^ Suc n = b * (z div b mod b ^ n) + z mod b" for z
    by (simp only: power_Suc mod_mult2_eq)
  have m: "(z mod b ^ Suc n) mod b = z mod b" and d: "(z mod b ^ Suc n) div b = z div b mod b ^ n" for z
    unfolding split using assms(1) by simp_all
  have "x mod b = y mod b" by (rule trans [OF m [of x, symmetric]]) (subst Suc.prems, rule m)
  moreover have "x div b mod b ^ n = y div b mod b ^ n"
    by (rule trans [OF d [of x, symmetric]]) (subst Suc.prems, rule d)
  ultimately show ?case using Suc.IH [of "x div b" "y div b"] by simp
qed simp

lemma be_digits_mono:
  assumes "0 < b" and "x mod b ^ n < y mod b ^ n"
  shows "list_lt (be_digits b n x) (be_digits b n y)"
  using assms(2)
proof (induction n arbitrary: x y)
  case 0
  then show ?case by simp
next
  case (Suc n)
  have split: "z mod b ^ Suc n = b * (z div b mod b ^ n) + z mod b" for z
    by (simp only: power_Suc mod_mult2_eq)
  consider (hi) "x div b mod b ^ n < y div b mod b ^ n" | (lo) "x div b mod b ^ n = y div b mod b ^ n" "x mod b < y mod b"
  proof (cases "x div b mod b ^ n < y div b mod b ^ n")
    case False
    then have "y div b mod b ^ n \<le> x div b mod b ^ n" by simp
    moreover have "\<not> y div b mod b ^ n < x div b mod b ^ n"
    proof
      assume "y div b mod b ^ n < x div b mod b ^ n"
      then have "b * Suc (y div b mod b ^ n) \<le> b * (x div b mod b ^ n)" by (simp only: mult_le_mono2 Suc_leI)
      moreover have "y mod b < b" using assms(1) by simp
      ultimately have "b * (y div b mod b ^ n) + y mod b \<le> b * (x div b mod b ^ n) + x mod b" by simp
      with Suc.prems show False by (simp only: split)
    qed
    ultimately show ?thesis using Suc.prems lo unfolding split by simp
  qed
  then show ?case
  proof cases
    case hi
    then show ?thesis using Suc.IH by (simp add: list_lt_append)
  next
    case lo
    then show ?thesis using be_digits_cong [OF assms(1) lo(1)] by simp
  qed
qed

section \<open>ULID\<close>

definition crockford_alphabet :: string where
  "crockford_alphabet = ''0123456789ABCDEFGHJKMNPQRSTVWXYZ''"

text \<open>\<^verbatim>\<open>for i := last; ...; i-- { result[i] = alphabet[w&0x1F]; w >>= 5 }\<close> over \<open>n\<close> positions.\<close>

fun crockford_loop :: "nat \<Rightarrow> u64 \<Rightarrow> string" where
  "crockford_loop 0 w = []"
| "crockford_loop (Suc n) w = crockford_loop n (drop_bit 5 w) @ [crockford_alphabet ! unat (and w 0x1F)]"

record ulid_state =
  ulid_last_ms :: int
  ulid_entropy :: u64

definition initial_ulid :: ulid_state where
  "initial_ulid = \<lparr>ulid_last_ms = 0, ulid_entropy = 0\<rparr>"

text \<open>\<open>rnd\<close> is the big-endian value of the eight random bytes.\<close>

definition new_ulid :: "int \<Rightarrow> u64 \<Rightarrow> ulid_state \<Rightarrow> string \<times> ulid_state" where
  "new_ulid now_ms rnd st =
     (let st = (if now_ms = ulid_last_ms st then st\<lparr>ulid_entropy := ulid_entropy st + 1\<rparr>
                else \<lparr>ulid_last_ms = now_ms, ulid_entropy = drop_bit 16 rnd\<rparr>)
      in (crockford_loop 10 (word_of_int now_ms) @ crockford_loop 16 (ulid_entropy st), st))"

lemma crockford_loop_digits:
  "crockford_loop n w = map (\<lambda>d. crockford_alphabet ! d) (be_digits 32 n (unat w))"
proof (induction n arbitrary: w)
  case (Suc n)
  have "and w 0x1F = take_bit 5 w" by (simp add: take_bit_eq_mask mask_eq_exp_minus_1)
  then have "unat (and w 0x1F) = unat w mod 32"
    by (simp add: unsigned_take_bit_eq) (simp add: take_bit_eq_mod)
  moreover have "unat (drop_bit 5 w) = unat w div 32"
    by (simp add: drop_bit_eq_div unat_div)
  ultimately show ?case using Suc by simp
qed simp

lemma crockford_increasing: "i < j \<Longrightarrow> j < 32 \<Longrightarrow>
    (of_char (crockford_alphabet ! i) :: nat) < of_char (crockford_alphabet ! j)"
proof -
  have "sorted_wrt (<) (map (of_char :: char \<Rightarrow> nat) crockford_alphabet)"
    by (simp add: crockford_alphabet_def)
  moreover have "length crockford_alphabet = 32" by (simp add: crockford_alphabet_def)
  moreover assume "i < j" "j < 32"
  ultimately show ?thesis by (auto simp: sorted_wrt_iff_nth_less)
qed

lemma crockford_mono:
  assumes "unat v mod 32 ^ n < unat w mod 32 ^ n"
  shows "str_lt (crockford_loop n v) (crockford_loop n w)"
proof -
  have "list_lt (be_digits 32 n (unat v)) (be_digits 32 n (unat w))"
    using be_digits_mono [of 32 "unat v" n "unat w"] assms by simp
  then have "list_lt (map (\<lambda>d. of_char (crockford_alphabet ! d)) (be_digits 32 n (unat v)))
      (map (\<lambda>d. of_char (crockford_alphabet ! d)) (be_digits 32 n (unat w)))"
    by (rule list_lt_map [rotated]) (auto dest!: be_digits_less [rotated] intro: crockford_increasing)
  then show ?thesis by (simp add: str_lt_def crockford_loop_digits comp_def)
qed

lemma length_crockford [simp]: "length (crockford_loop n w) = n"
  by (induction n arbitrary: w) auto

lemma str_lt_append: "length s = length t \<Longrightarrow> str_lt s t \<Longrightarrow> str_lt (s @ u) (t @ v)"
  by (simp add: str_lt_def list_lt_append)

lemma str_lt_append_eq [simp]: "str_lt (s @ u) (s @ v) = str_lt u v"
  by (simp add: str_lt_def)

section \<open>Snowflake\<close>

definition snowflake_epoch :: int where "snowflake_epoch = 1704067200000"
definition snowflake_max_node :: int where "snowflake_max_node = 1023"
definition snowflake_max_sequence :: int where "snowflake_max_sequence = 4095"

record snowflake_node =
  node_id :: int
  sf_last_ms :: int
  sf_sequence :: int

definition new_snowflake_node :: "int \<Rightarrow> snowflake_node option" where
  "new_snowflake_node n =
     (if n < 0 \<or> snowflake_max_node < n then None
      else Some \<lparr>node_id = n, sf_last_ms = 0, sf_sequence = 0\<rparr>)"

text \<open>\<^verbatim>\<open>for nowMs <= n.lastMs { nowMs = time.Now().UnixMilli() }\<close>\<close>

fun spin_until_after :: "'t::linorder \<Rightarrow> 't \<Rightarrow> 't list \<Rightarrow> ('t \<times> 't list) option" where
  "spin_until_after last_ms now clock =
     (if now \<le> last_ms
      then (case clock of [] \<Rightarrow> None | t # ts \<Rightarrow> spin_until_after last_ms t ts)
      else Some (now, clock))"

declare spin_until_after.simps [simp del]

definition snowflake_bits :: "int \<Rightarrow> int \<Rightarrow> int \<Rightarrow> int" where
  "snowflake_bits now node seq =
     wrap64 (or (or (push_bit 22 (now - snowflake_epoch)) (push_bit 12 node)) seq)"

definition next_id :: "int list \<Rightarrow> snowflake_node \<Rightarrow> (int \<times> snowflake_node \<times> int list) option" where
  "next_id clock n =
     (case clock of
        [] \<Rightarrow> None
      | now # clock \<Rightarrow>
          (case (if now = sf_last_ms n
                 then let seq = and (sf_sequence n + 1) snowflake_max_sequence
                      in if seq = 0
                         then map_option (\<lambda>(now, clock). (seq, now, clock)) (spin_until_after (sf_last_ms n) now clock)
                         else Some (seq, now, clock)
                 else Some (0, now, clock)) of
             None \<Rightarrow> None
           | Some (seq, now, clock) \<Rightarrow>
               Some (snowflake_bits now (node_id n) seq, n\<lparr>sf_sequence := seq, sf_last_ms := now\<rparr>, clock)))"

fun next_ids :: "nat \<Rightarrow> int list \<Rightarrow> snowflake_node \<Rightarrow> (int list \<times> snowflake_node \<times> int list) option" where
  "next_ids 0 clock n = Some ([], n, clock)"
| "next_ids (Suc k) clock n =
     (case next_id clock n of
        None \<Rightarrow> None
      | Some (i, n, clock) \<Rightarrow> map_option (\<lambda>(is, n, clock). (i # is, n, clock)) (next_ids k clock n))"

lemma or_disjoint_int:
  assumes "0 \<le> c" and "c < 2 ^ n"
  shows "or (push_bit n a) c = a * 2 ^ n + (c :: int)"
proof -
  have c: "take_bit n c = c" using assms by (simp add: take_bit_int_eq_self)
  have "and (push_bit n a) c = 0"
    by (rule bit_eqI) (metis bit_0_eq bit_and_iff bit_push_bit_iff bit_take_bit_iff bot_apply bot_bool_def c not_le)
  then show ?thesis by (simp add: disjunctive_add_eq_or push_bit_eq_mult flip: disjunctive_add_eq_or)
qed

lemma snowflake_bits_value:
  assumes "0 \<le> node" "node \<le> 1023" "0 \<le> seq" "seq \<le> 4095"
    and "snowflake_epoch \<le> now" "now < snowflake_epoch + 2 ^ 41"
  shows "snowflake_bits now node seq = (now - snowflake_epoch) * 2 ^ 22 + node * 2 ^ 12 + seq"
proof -
  have "or (push_bit 22 (now - snowflake_epoch)) (push_bit 12 node) = push_bit 12 ((now - snowflake_epoch) * 2 ^ 10 + node)"
  proof -
    have "push_bit 22 (now - snowflake_epoch) = push_bit 12 (push_bit 10 (now - snowflake_epoch))"
      by (simp add: push_bit_push_bit)
    moreover have "or (push_bit 10 (now - snowflake_epoch)) node = (now - snowflake_epoch) * 2 ^ 10 + node"
      using or_disjoint_int [of "node" 10 "now - snowflake_epoch"] assms(1,2) by simp
    ultimately show ?thesis by (simp only: push_bit_or [symmetric])
  qed
  then have "or (or (push_bit 22 (now - snowflake_epoch)) (push_bit 12 node)) seq
      = (now - snowflake_epoch) * 2 ^ 22 + node * 2 ^ 12 + seq"
    using or_disjoint_int [of seq 12 "(now - snowflake_epoch) * 2 ^ 10 + node"] assms(3,4)
    by (simp add: algebra_simps)
  moreover have "int64 ((now - snowflake_epoch) * 2 ^ 22 + node * 2 ^ 12 + seq)"
    using assms by (simp add: int64_def)
  ultimately show ?thesis by (simp add: snowflake_bits_def)
qed

lemma spin_after:
  assumes "spin_until_after last_ms now clock = Some (t, rest)" and "sorted (now # clock)"
  shows "last_ms < t \<and> now \<le> t \<and> sorted (t # rest) \<and> set rest \<subseteq> set clock \<and> t \<in> set (now # clock)"
  using assms
proof (induction last_ms now clock rule: spin_until_after.induct)
  case (1 last_ms now clock)
  show ?case
  proof (cases "now \<le> last_ms")
    case True
    then obtain u us where c: "clock = u # us"
      using "1.prems"(1) by (cases clock) (simp_all add: spin_until_after.simps [of last_ms now])
    then have "spin_until_after last_ms u us = Some (t, rest)"
      using True "1.prems"(1) by (simp add: spin_until_after.simps [of last_ms now])
    with "1.IH" [OF True c] "1.prems"(2) c show ?thesis by auto
  next
    case False
    then show ?thesis using "1.prems" by (auto simp: spin_until_after.simps [of last_ms now])
  qed
qed

definition snowflake_wf :: "snowflake_node \<Rightarrow> bool" where
  "snowflake_wf n \<longleftrightarrow> 0 \<le> node_id n \<and> node_id n \<le> 1023 \<and> 0 \<le> sf_sequence n \<and> sf_sequence n \<le> 4095"

lemma new_snowflake_wf: "new_snowflake_node i = Some n \<Longrightarrow> snowflake_wf n"
  by (auto simp: new_snowflake_node_def snowflake_wf_def snowflake_max_node_def split: if_splits)

lemma seq_succ: "0 \<le> s \<Longrightarrow> s \<le> 4095 \<Longrightarrow>
    and (s + 1) snowflake_max_sequence = (if s = 4095 then 0 else s + 1)"
proof -
  assume s: "0 \<le> s" "s \<le> 4095"
  have "and (s + 1) snowflake_max_sequence = (s + 1) mod 4096"
  proof -
    have "and (s + 1) 4095 = take_bit 12 (s + 1)" by (simp add: take_bit_eq_mask mask_eq_exp_minus_1)
    then show ?thesis by (simp add: snowflake_max_sequence_def take_bit_eq_mod)
  qed
  then show ?thesis using s by auto
qed

text \<open>One call, described on the state: it moves the pair of clock and sequence forward.\<close>

lemma next_id_step:
  assumes wf: "snowflake_wf n" and clk: "sorted (sf_last_ms n # clock)" and step: "next_id clock n = Some (i, n', clock')"
  shows "snowflake_wf n' \<and> node_id n' = node_id n \<and> sorted (sf_last_ms n' # clock') \<and>
    set clock' \<subseteq> set clock \<and> sf_last_ms n' \<in> set clock \<and>
    i = snowflake_bits (sf_last_ms n') (node_id n) (sf_sequence n') \<and>
    (sf_last_ms n < sf_last_ms n' \<or> sf_last_ms n = sf_last_ms n' \<and> sf_sequence n < sf_sequence n')"
proof -
  obtain now rest where c: "clock = now # rest" using step by (cases clock) (simp_all add: next_id_def)
  have s: "0 \<le> sf_sequence n" "sf_sequence n \<le> 4095" using wf by (simp_all add: snowflake_wf_def)
  consider (fresh) "now \<noteq> sf_last_ms n" | (same) "now = sf_last_ms n" "sf_sequence n \<noteq> 4095"
    | (over) "now = sf_last_ms n" "sf_sequence n = 4095" by blast
  then show ?thesis
  proof cases
    case over
    then obtain t ts where sp: "spin_until_after (sf_last_ms n) now rest = Some (t, ts)"
        "i = snowflake_bits t (node_id n) 0" "n' = n\<lparr>sf_sequence := 0, sf_last_ms := t\<rparr>" "clock' = ts"
      using step seq_succ [OF s] by (auto simp: next_id_def c Let_def split: option.splits)
    have "sorted (now # rest)" using clk c by simp
    from spin_after [OF sp(1) this] sp(2-4) wf show ?thesis
      by (auto simp: snowflake_wf_def c)
  qed (use step s wf clk c in \<open>auto simp: next_id_def seq_succ snowflake_wf_def\<close>)
qed

definition in_epoch :: "int \<Rightarrow> bool" where
  "in_epoch t \<longleftrightarrow> snowflake_epoch \<le> t \<and> t < snowflake_epoch + 2 ^ 41"

definition id_value :: "snowflake_node \<Rightarrow> int" where
  "id_value n = (sf_last_ms n - snowflake_epoch) * 2 ^ 22 + node_id n * 2 ^ 12 + sf_sequence n"

lemma next_id_increases:
  assumes "snowflake_wf n" and "sorted (sf_last_ms n # clock)" and "next_id clock n = Some (i, n', clock')"
    and "\<forall>t\<in>set clock. in_epoch t"
  shows "i = id_value n' \<and> id_value n < i \<and> snowflake_wf n' \<and> sorted (sf_last_ms n' # clock') \<and>
    (\<forall>t\<in>set clock'. in_epoch t) \<and> node_id n' = node_id n"
proof -
  note st = next_id_step [OF assms(1-3)]
  have e: "in_epoch (sf_last_ms n')" using st assms(4) by blast
  have "i = id_value n'"
    using st e snowflake_bits_value [of "node_id n" "sf_sequence n'" "sf_last_ms n'"]
    by (auto simp: id_value_def in_epoch_def snowflake_wf_def)
  moreover have "id_value n < id_value n'"
    using st assms(1) by (auto simp: id_value_def snowflake_wf_def)
  ultimately show ?thesis using st assms(4) by auto
qed

lemma next_ids_increasing:
  assumes "snowflake_wf n" and "sorted (sf_last_ms n # clock)" and "next_ids k clock n = Some (is, n', clock')"
    and "\<forall>t\<in>set clock. in_epoch t"
  shows "sorted_wrt (<) (id_value n # is) \<and> length is = k"
  using assms
proof (induction k arbitrary: clock n "is")
  case (Suc k)
  from Suc.prems(3) obtain i m c js where st: "next_id clock n = Some (i, m, c)"
      "next_ids k c m = Some (js, n', clock')" "is = i # js"
    by (auto split: option.splits)
  note s1 = next_id_increases [OF Suc.prems(1,2) st(1) Suc.prems(4)]
  then have "sorted_wrt (<) (id_value m # js) \<and> length js = k"
    using Suc.IH [OF _ _ st(2)] by blast
  then show ?case using s1 st(3) by auto
qed simp

section \<open>UUID\<close>

type_synonym byte = "8 word"

definition hex_digits :: string where
  "hex_digits = ''0123456789abcdef''"

definition hex_byte :: "byte \<Rightarrow> string" where
  "hex_byte b = [hex_digits ! (unat b div 16), hex_digits ! (unat b mod 16)]"

definition hex_bytes :: "byte list \<Rightarrow> string" where
  "hex_bytes bs = concat (map hex_byte bs)"

text \<open>\<^verbatim>\<open>Sprintf("%08x-%04x-%04x-%04x-%012x", ...)\<close> on slices of the buffer.\<close>

definition uuid_format :: "byte list \<Rightarrow> string" where
  "uuid_format buf = hex_bytes (take 4 buf) @ ''-'' @ hex_bytes (take 2 (drop 4 buf)) @ ''-'' @
     hex_bytes (take 2 (drop 6 buf)) @ ''-'' @ hex_bytes (take 2 (drop 8 buf)) @ ''-'' @ hex_bytes (take 6 (drop 10 buf))"

definition new_uuid :: "byte list \<Rightarrow> string" where
  "new_uuid buf =
     (let buf = buf[6 := or (and (buf ! 6) 0x0f) 0x40];
          buf = buf[8 := or (and (buf ! 8) 0x3f) 0x80]
      in uuid_format buf)"

record uuid_v7_state =
  v7_last_ms :: u64
  v7_sequence :: "16 word"

definition initial_v7 :: uuid_v7_state where
  "initial_v7 = \<lparr>v7_last_ms = 0, v7_sequence = 0\<rparr>"

definition random_sequence :: "byte list \<Rightarrow> 16 word" where
  "random_sequence buf = and (or (push_bit 8 (ucast (buf ! 6))) (ucast (buf ! 7))) 0x0fff"

definition uuid_v7_bytes :: "u64 \<Rightarrow> 16 word \<Rightarrow> byte list \<Rightarrow> byte list" where
  "uuid_v7_bytes ms seq buf =
     (let buf = buf[0 := ucast (drop_bit 40 ms), 1 := ucast (drop_bit 32 ms), 2 := ucast (drop_bit 24 ms),
                    3 := ucast (drop_bit 16 ms), 4 := ucast (drop_bit 8 ms), 5 := ucast ms];
          buf = buf[6 := or (ucast (drop_bit 8 seq)) 0x70, 7 := ucast seq]
      in buf[8 := or (and (buf ! 8) 0x3f) 0x80])"

definition new_uuid_v7 :: "byte list \<Rightarrow> u64 list \<Rightarrow> uuid_v7_state \<Rightarrow> (string \<times> uuid_v7_state \<times> u64 list) option" where
  "new_uuid_v7 buf clock st =
     (case clock of
        [] \<Rightarrow> None
      | now # clock \<Rightarrow>
          (case (if now \<le> v7_last_ms st
                 then let now = v7_last_ms st; seq = v7_sequence st + 1
                      in if 0x0fff < seq
                         then map_option (\<lambda>(now, clock). (now, random_sequence buf, clock))
                                (spin_until_after (v7_last_ms st) now clock)
                         else Some (now, seq, clock)
                 else Some (now, random_sequence buf, clock)) of
             None \<Rightarrow> None
           | Some (now, seq, clock) \<Rightarrow>
               Some (uuid_format (uuid_v7_bytes now seq buf), \<lparr>v7_last_ms = now, v7_sequence = seq\<rparr>, clock)))"

datatype auto_id = Auto_ULID | Auto_Snowflake | Auto_UUID | Auto_UUIDv7 | Auto_Prefixed string

definition generate_auto_id :: "string \<Rightarrow> auto_id" where
  "generate_auto_id strategy =
     (if strategy = ''ulid'' then Auto_ULID
      else if strategy = ''snowflake'' then Auto_Snowflake
      else if strategy = ''uuid'' then Auto_UUID
      else if strategy = ''uuidv7'' then Auto_UUIDv7
      else if has_prefix strategy ''prefix:'' then Auto_Prefixed (trim_prefix strategy ''prefix:'')
      else Auto_ULID)"

definition new_prefixed :: "string \<Rightarrow> int \<Rightarrow> u64 \<Rightarrow> ulid_state \<Rightarrow> string \<times> ulid_state" where
  "new_prefixed p now_ms rnd st = (let (s, st) = new_ulid now_ms rnd st in (p @ ''_'' @ s, st))"

lemma hex_digits_increasing: "i < j \<Longrightarrow> j < 16 \<Longrightarrow> (of_char (hex_digits ! i) :: nat) < of_char (hex_digits ! j)"
proof -
  have "sorted_wrt (<) (map (of_char :: char \<Rightarrow> nat) hex_digits)" "length hex_digits = 16"
    by (simp_all add: hex_digits_def)
  moreover assume "i < j" "j < 16"
  ultimately show ?thesis by (auto simp: sorted_wrt_iff_nth_less)
qed

lemma unat_byte_less: "unat (b :: byte) < 256"
  using unsigned_less [of b] by simp

lemma hex_byte_mono: "b < c \<Longrightarrow> str_lt (hex_byte b) (hex_byte c)"
proof -
  assume "b < c"
  then have "unat b < unat c" by (simp add: word_less_nat_alt)
  then have "unat b div 16 < unat c div 16 \<or> unat b div 16 = unat c div 16 \<and> unat b mod 16 < unat c mod 16"
    using div_le_mono [of "unat b" "unat c" 16] div_mult_mod_eq [of "unat b" 16] div_mult_mod_eq [of "unat c" 16]
    by linarith
  moreover have "unat c div 16 < 16" using unat_byte_less [of c] by simp
  ultimately show ?thesis
    using hex_digits_increasing by (auto simp: hex_byte_def str_lt_def)
qed

text \<open>The formatted text as one pass over the bytes.\<close>

fun uuid_pass :: "nat \<Rightarrow> byte list \<Rightarrow> string" where
  "uuid_pass i [] = []"
| "uuid_pass i (b # bs) = hex_byte b @ (if i \<in> {3, 5, 7, 9} then ''-'' else []) @ uuid_pass (Suc i) bs"

lemma uuid_format_pass: "length buf = 16 \<Longrightarrow> uuid_format buf = uuid_pass 0 buf"
  by (auto simp: uuid_format_def hex_bytes_def numeral_eq_Suc length_Suc_conv)

lemma uuid_pass_mono: "list_lt (map unat xs) (map unat ys) \<Longrightarrow> length xs = length ys \<Longrightarrow>
    str_lt (uuid_pass i xs) (uuid_pass i ys)"
proof (induction xs arbitrary: ys i)
  case (Cons b bs)
  then obtain c cs where ys: "ys = c # cs" "length bs = length cs" by (cases ys) auto
  show ?case
  proof (cases "b = c")
    case True
    then show ?thesis using Cons ys by simp
  next
    case False
    then have "b < c" using Cons.prems(1) ys by (auto simp: word_less_nat_alt word_unat_eq_iff)
    then have "str_lt (hex_byte b) (hex_byte c)" by (rule hex_byte_mono)
    then show ?thesis using ys by (auto simp: hex_byte_def intro: str_lt_append [of "[_, _]" "[_, _]", simplified])
  qed
qed simp

lemma unat_shift: "unat (drop_bit n (w :: 'a::len word)) = unat w div 2 ^ n"
  by (simp only: unat_drop_bit_eq) (rule drop_bit_eq_div)

lemma byte_of_word: "unat (ucast (drop_bit n ms :: u64) :: byte) = unat ms div 2 ^ n mod 256"
proof -
  have "unat (ucast (drop_bit n ms) :: byte) = take_bit 8 (unat (drop_bit n ms))"
    by (simp add: unsigned_ucast_eq)
  then show ?thesis by (simp add: take_bit_eq_mod unat_shift)
qed

lemma or_0x70: "unat (x :: byte) < 16 \<Longrightarrow> unat (or x 0x70) = unat x + 112"
proof -
  have "list_all (\<lambda>n. unat (or (of_nat n :: byte) 0x70) = n + 112) [0..<16]" by code_simp
  moreover assume "unat x < 16"
  ultimately have "unat (or (of_nat (unat x) :: byte) 0x70) = unat x + 112"
    unfolding list_all_iff by (drule_tac x = "unat x" in bspec) simp_all
  then show ?thesis by simp
qed

lemma seq_bytes:
  assumes "seq \<le> (0x0fff :: 16 word)"
  shows "unat (or (ucast (drop_bit 8 seq)) 0x70 :: byte) = 112 + unat seq div 256"
    and "unat (ucast seq :: byte) = unat seq mod 256"
proof -
  have le: "unat seq \<le> 4095" using assms by (simp add: word_le_nat_alt)
  have "unat (ucast (drop_bit 8 seq) :: byte) = unat seq div 256 mod 256"
    by (simp add: unsigned_ucast_eq take_bit_eq_mod unat_shift)
  moreover have "unat seq div 256 < 16" using le by simp
  ultimately show "unat (or (ucast (drop_bit 8 seq)) 0x70 :: byte) = 112 + unat seq div 256"
    by (subst or_0x70) simp_all
  show "unat (ucast seq :: byte) = unat seq mod 256"
    by (simp add: unsigned_ucast_eq take_bit_eq_mod)
qed

lemma length_v7_bytes [simp]: "length (uuid_v7_bytes ms seq buf) = length buf"
  by (simp add: uuid_v7_bytes_def Let_def)

lemma be_digits_6: "be_digits b 6 x = [x div b div b div b div b div b mod b, x div b div b div b div b mod b,
    x div b div b div b mod b, x div b div b mod b, x div b mod b, x mod b]"
  by (simp add: eval_nat_numeral)

lemma v7_bytes_prefix:
  assumes "length buf = 16" and "seq \<le> 0x0fff"
  shows "map unat (take 8 (uuid_v7_bytes ms seq buf)) =
    be_digits 256 6 (unat ms) @ [112 + unat seq div 256, unat seq mod 256]"
proof -
  obtain b0 b1 b2 b3 b4 b5 b6 b7 bs where "buf = b0 # b1 # b2 # b3 # b4 # b5 # b6 # b7 # bs"
    using assms(1) by (auto simp: numeral_eq_Suc length_Suc_conv)
  then have "take 8 (uuid_v7_bytes ms seq buf) =
      [ucast (drop_bit 40 ms), ucast (drop_bit 32 ms), ucast (drop_bit 24 ms), ucast (drop_bit 16 ms),
       ucast (drop_bit 8 ms), ucast (drop_bit 0 ms), or (ucast (drop_bit 8 seq)) 0x70, ucast seq]"
    by (simp add: uuid_v7_bytes_def Let_def)
  moreover have "be_digits 256 6 x = [x div 2 ^ 40 mod 256, x div 2 ^ 32 mod 256, x div 2 ^ 24 mod 256,
      x div 2 ^ 16 mod 256, x div 2 ^ 8 mod 256, x div 2 ^ 0 mod 256]" for x
    by (simp add: be_digits_6 div_mult2_eq [symmetric])
  ultimately show ?thesis by (simp only: list.map byte_of_word seq_bytes [OF assms(2)] append.simps)
qed

lemma list_lt_take:
  assumes "list_lt (take n xs) (take n ys)" and "length xs = length ys"
  shows "list_lt xs ys"
proof -
  have "list_lt (take n xs @ drop n xs) (take n ys @ drop n ys)"
    using assms by (intro list_lt_append) simp_all
  then show ?thesis by simp
qed

lemma v7_format_mono:
  assumes "length buf = 16" "length buf' = 16" "seq \<le> 0x0fff" "seq' \<le> 0x0fff" "unat ms < 2 ^ 48" "unat ms' < 2 ^ 48"
    and "ms < ms' \<or> ms = ms' \<and> seq < seq'"
  shows "str_lt (uuid_format (uuid_v7_bytes ms seq buf)) (uuid_format (uuid_v7_bytes ms' seq' buf'))"
proof -
  have "list_lt (map unat (take 8 (uuid_v7_bytes ms seq buf))) (map unat (take 8 (uuid_v7_bytes ms' seq' buf')))"
  proof (cases "ms < ms'")
    case True
    then have "list_lt (be_digits 256 6 (unat ms)) (be_digits 256 6 (unat ms'))"
      using assms(5,6) by (intro be_digits_mono) (simp_all add: word_less_nat_alt)
    then show ?thesis using assms by (simp add: v7_bytes_prefix list_lt_append)
  next
    case False
    then have ms: "ms = ms'" and "unat seq < unat seq'" using assms(7) by (simp_all add: word_less_nat_alt)
    then have "unat seq div 256 < unat seq' div 256 \<or>
        unat seq div 256 = unat seq' div 256 \<and> unat seq mod 256 < unat seq' mod 256"
      using div_le_mono [of "unat seq" "unat seq'" 256] div_mult_mod_eq [of "unat seq" 256] div_mult_mod_eq [of "unat seq'" 256]
      by linarith
    then show ?thesis using assms ms by (auto simp: v7_bytes_prefix)
  qed
  then have "list_lt (map unat (uuid_v7_bytes ms seq buf)) (map unat (uuid_v7_bytes ms' seq' buf'))"
    unfolding take_map [symmetric] by (rule list_lt_take) (simp add: assms(1,2))
  then show ?thesis using assms(1,2) by (simp add: uuid_format_pass uuid_pass_mono)
qed

lemma random_sequence_bound: "random_sequence buf \<le> 0x0fff"
  by (simp add: random_sequence_def word_and_le1)

lemma spin_after_word: "spin_until_after l now clock = Some (t, rest) \<Longrightarrow> l < t \<and> t \<in> set (now # clock) \<and> set rest \<subseteq> set clock"
proof (induction l now clock rule: spin_until_after.induct)
  case (1 l now clock)
  show ?case
  proof (cases "now \<le> l")
    case True
    then obtain u us where c: "clock = u # us"
      using "1.prems"(1) by (cases clock) (simp_all add: spin_until_after.simps [of l now])
    then have "spin_until_after l u us = Some (t, rest)"
      using True "1.prems" by (simp add: spin_until_after.simps [of l now])
    with "1.IH" [OF True c] c show ?thesis by auto
  next
    case False
    then show ?thesis using "1.prems" by (auto simp: spin_until_after.simps [of l now])
  qed
qed

definition v7_wf :: "uuid_v7_state \<Rightarrow> bool" where
  "v7_wf st \<longleftrightarrow> v7_sequence st \<le> 0x0fff \<and> unat (v7_last_ms st) < 2 ^ 48"

lemma v7_step:
  assumes "v7_wf st" and "\<forall>t\<in>set clock. unat t < 2 ^ 48" and "new_uuid_v7 buf clock st = Some (s, st', clock')"
  shows "s = uuid_format (uuid_v7_bytes (v7_last_ms st') (v7_sequence st') buf) \<and> v7_wf st' \<and> set clock' \<subseteq> set clock \<and>
    (v7_last_ms st < v7_last_ms st' \<or> v7_last_ms st = v7_last_ms st' \<and> v7_sequence st < v7_sequence st')"
proof -
  have succ: "v7_sequence st + 1 \<le> 0x0fff \<Longrightarrow> v7_sequence st < v7_sequence st + 1"
    using assms(1) by (auto simp: v7_wf_def word_less_nat_alt word_le_nat_alt unat_word_ariths)
  obtain now rest where c: "clock = now # rest" using assms(3) by (cases clock) (simp_all add: new_uuid_v7_def)
  consider (fresh) "v7_last_ms st < now" | (same) "now \<le> v7_last_ms st" "v7_sequence st + 1 \<le> 0x0fff"
    | (over) "now \<le> v7_last_ms st" "0x0fff < v7_sequence st + 1" by fastforce
  then show ?thesis
  proof cases
    case over
    then obtain t ts where sp: "spin_until_after (v7_last_ms st) (v7_last_ms st) rest = Some (t, ts)"
        "s = uuid_format (uuid_v7_bytes t (random_sequence buf) buf)"
        "st' = \<lparr>v7_last_ms = t, v7_sequence = random_sequence buf\<rparr>" "clock' = ts"
      using assms(3) by (auto simp: new_uuid_v7_def c Let_def split: option.splits)
    from spin_after_word [OF sp(1)] have "v7_last_ms st < t" "t \<in> set rest" "set ts \<subseteq> set rest" by auto
    then show ?thesis
      using assms(2) sp(2-4) by (auto simp: v7_wf_def c random_sequence_bound)
  next
    case fresh
    then have "\<not> now \<le> v7_last_ms st" by simp
    then show ?thesis using assms by (auto simp: new_uuid_v7_def c v7_wf_def random_sequence_bound)
  next
    case same
    then have "\<not> 0x0fff < v7_sequence st + 1" by simp
    then show ?thesis using assms succ same by (auto simp: new_uuid_v7_def c v7_wf_def Let_def)
  qed
qed

section \<open>Properties\<close>

text \<open>As long as the clock does not run backwards, a snowflake node returns strictly increasing
  identifiers, more than 4096 in a millisecond included, so they are all different.\<close>

theorem snowflake_ids_strictly_increase:
  assumes "new_snowflake_node i = Some n" and "sorted clock" and "\<forall>t\<in>set clock. in_epoch t"
    and "next_ids k clock n = Some (is, n', clock')"
  shows "length is = k \<and> sorted_wrt (<) is \<and> distinct is"
proof -
  have n: "snowflake_wf n" "sf_last_ms n = 0"
    using new_snowflake_wf [OF assms(1)] assms(1) by (auto simp: new_snowflake_node_def split: if_splits)
  have "sorted (sf_last_ms n # clock)"
    using assms(2,3) n(2) by (force simp: in_epoch_def snowflake_epoch_def)
  from next_ids_increasing [OF n(1) this assms(4,3)]
  have "sorted_wrt (<) is" "length is = k" by simp_all
  then show ?thesis by (simp add: strict_sorted_iff)
qed

theorem snowflake_ids_strictly_increase_witness:
  "\<exists>a b c n'. next_ids 3 [1704067200001, 1704067200001, 1704067200002] \<lparr>node_id = 7, sf_last_ms = 0, sf_sequence = 0\<rparr>
     = Some ([a, b, c], n', []) \<and> a < b \<and> b < c"
proof -
  let ?n = "\<lparr>node_id = 7, sf_last_ms = 0, sf_sequence = 0\<rparr>" and ?clock = "[1704067200001, 1704067200001, 1704067200002]"
  obtain ids n' where run: "next_ids 3 ?clock ?n = Some (ids, n', [])"
    by (simp add: next_id_def numeral_eq_Suc Let_def snowflake_max_sequence_def)
  have "length ids = 3 \<and> sorted_wrt (<) ids \<and> distinct ids"
    by (rule snowflake_ids_strictly_increase [OF _ _ _ run, of 7])
       (simp_all add: new_snowflake_node_def snowflake_max_node_def in_epoch_def snowflake_epoch_def)
  then show ?thesis using run by (auto simp: numeral_eq_Suc length_Suc_conv)
qed

text \<open>A clock that steps back makes a snowflake node return the identifier it returned before.\<close>

theorem snowflake_repeats_after_clock_step:
  assumes "new_snowflake_node i = Some n" and "0 < t" and "t < u"
  shows "\<exists>a b n'. next_ids 3 [t, u, t] n = Some ([a, b, a], n', [])"
  using assms by (auto simp: new_snowflake_node_def next_id_def numeral_eq_Suc split: if_splits)

theorem snowflake_repeats_after_clock_step_witness:
  "\<exists>a b n'. next_ids 3 [5, 6, 5] \<lparr>node_id = 7, sf_last_ms = 0, sf_sequence = 0\<rparr> = Some ([a, b, a], n', [])"
  by (rule snowflake_repeats_after_clock_step [of 7])
     (simp_all add: new_snowflake_node_def snowflake_max_node_def)

text \<open>Two UUIDs of version 7 made one after the other are in strictly increasing string order,
  whatever the clock does: in the same millisecond, past the end of the sequence, or stepping back.\<close>

theorem uuid_v7_strictly_increases:
  assumes "v7_wf st" and "\<forall>t\<in>set clock. unat t < 2 ^ 48" and "length buf = 16" and "length buf' = 16"
    and "new_uuid_v7 buf clock st = Some (s, st', clock')"
    and "new_uuid_v7 buf' clock' st' = Some (s', st'', clock'')"
  shows "str_lt s s' \<and> v7_wf st''"
proof -
  note a = v7_step [OF assms(1,2,5)]
  then have b: "v7_wf st'" "\<forall>t\<in>set clock'. unat t < 2 ^ 48" using assms(2) by auto
  note c = v7_step [OF b assms(6)]
  from a b c assms(3,4) v7_format_mono [of buf buf' "v7_sequence st'" "v7_sequence st''"
      "v7_last_ms st'" "v7_last_ms st''"]
  show ?thesis by (simp add: v7_wf_def)
qed

theorem uuid_v7_strictly_increases_witness:
  "str_lt (fst (the (new_uuid_v7 (replicate 16 1) [9, 3] initial_v7)))
     (fst (the (new_uuid_v7 (replicate 16 0) [3] \<lparr>v7_last_ms = 9, v7_sequence = 0x101\<rparr>)))"
proof -
  have a: "new_uuid_v7 (replicate 16 1) [9, 3] initial_v7 =
      Some (uuid_format (uuid_v7_bytes 9 0x101 (replicate 16 1)), \<lparr>v7_last_ms = 9, v7_sequence = 0x101\<rparr>, [3])"
    by (simp add: new_uuid_v7_def initial_v7_def random_sequence_def)
  have b: "new_uuid_v7 (replicate 16 0) [3] \<lparr>v7_last_ms = 9, v7_sequence = 0x101\<rparr> =
      Some (uuid_format (uuid_v7_bytes 9 0x102 (replicate 16 0)), \<lparr>v7_last_ms = 9, v7_sequence = 0x102\<rparr>, [])"
    by (simp add: new_uuid_v7_def Let_def)
  have wf: "v7_wf initial_v7" by (simp add: v7_wf_def initial_v7_def)
  show ?thesis
    using uuid_v7_strictly_increases [OF wf _ _ _ a b] by (simp add: a b)
qed

text \<open>ULIDs made one after the other are in strictly increasing string order as long as the
  clock does not run backwards and the 64-bit entropy does not wrap; all have 26 characters.\<close>

theorem ulid_strictly_increases:
  assumes "new_ulid t r st = (s, st')" and "new_ulid t' r' st' = (s', st'')"
    and "0 \<le> t" and "t \<le> t'" and "t' < 2 ^ 48" and "ulid_entropy st' \<noteq> - 1"
  shows "str_lt s s' \<and> length s = 26 \<and> length s' = 26"
proof -
  have s: "s = crockford_loop 10 (word_of_int t) @ crockford_loop 16 (ulid_entropy st')" "ulid_last_ms st' = t"
    using assms(1) by (auto simp: new_ulid_def Let_def split: if_splits)
  have s': "s' = crockford_loop 10 (word_of_int t') @ crockford_loop 16 (ulid_entropy st'')"
    using assms(2) by (auto simp: new_ulid_def Let_def)
  have "str_lt s s'"
  proof (cases "t = t'")
    case True
    then have e: "ulid_entropy st'' = ulid_entropy st' + 1"
      using assms(2) s(2) by (auto simp: new_ulid_def Let_def)
    have "unat (ulid_entropy st') < unat (ulid_entropy st'')"
    proof -
      have "1 + ulid_entropy st' \<noteq> 0" using assms(6) by (simp add: add_eq_0_iff)
      from unatSuc [OF this] show ?thesis by (simp add: e add.commute)
    qed
    moreover have "unat w < 32 ^ 16" for w :: u64
      using unsigned_less [of w] by (rule less_trans) simp
    ultimately show ?thesis using True s s' crockford_mono [of _ 16] by simp
  next
    case False
    have u: "unat (word_of_int z :: u64) = nat z" if "0 \<le> z" "z < 2 ^ 48" for z
      using that by (simp add: unsigned_of_int take_bit_int_eq_self nat_less_iff)
    have "nat t < nat t'" "nat t < 32 ^ 10" "nat t' < 32 ^ 10" using False assms(3-5) by auto
    then have "str_lt (crockford_loop 10 (word_of_int t)) (crockford_loop 10 (word_of_int t'))"
      using u [of t] u [of t'] assms(3-5) by (intro crockford_mono) simp
    then show ?thesis using s s' by (simp add: str_lt_append)
  qed
  then show ?thesis using s(1) s' by simp
qed

theorem ulid_strictly_increases_witness:
  "str_lt (fst (new_ulid 5 (push_bit 16 7) initial_ulid)) (fst (new_ulid 5 0 \<lparr>ulid_last_ms = 5, ulid_entropy = 7\<rparr>))"
proof -
  have a: "new_ulid 5 (push_bit 16 7) initial_ulid = (fst (new_ulid 5 (push_bit 16 7) initial_ulid), \<lparr>ulid_last_ms = 5, ulid_entropy = 7\<rparr>)"
    by (simp add: new_ulid_def initial_ulid_def)
  show ?thesis
    using ulid_strictly_increases [OF a surjective_pairing [of "new_ulid 5 0 \<lparr>ulid_last_ms = 5, ulid_entropy = 7\<rparr>"]]
    by simp
qed

end
