(* ===== verification/Bloom_Sketches.thy ===== *)
theory Bloom_Sketches
  imports Gpp_Prelude Complex_Main
begin

text \<open>
  \<^verbatim>\<open>bloom/bloom.go\<close>: the Bloom filter, the registers of the HyperLogLog counter and the
  count-min sketch, on the 64-bit words of the source. The floating-point formulas that size a
  filter are the parameter \<open>optimal\<close> of \<open>new_filter\<close>; the floating-point estimate of the
  HyperLogLog counter is not modelled, what it reads (the registers) is.
\<close>

type_synonym u64 = "64 word"

section \<open>FNV-1a\<close>

definition fnv_offset :: u64 where "fnv_offset = 14695981039346656037"
definition fnv_prime :: u64 where "fnv_prime = 1099511628211"

fun fnv_write :: "u64 \<Rightarrow> string \<Rightarrow> u64" where
  "fnv_write h [] = h"
| "fnv_write h (c # cs) = fnv_write ((xor h (of_nat (of_char c))) * fnv_prime) cs"

definition fnv64a :: "string \<Rightarrow> u64" where
  "fnv64a s = fnv_write fnv_offset s"

section \<open>The Bloom filter\<close>

record bloom_filter =
  bitset :: "bool list"
  bf_size :: u64
  hash_count :: u64

definition new_filter :: "(u64 \<Rightarrow> rat \<Rightarrow> u64 \<times> u64) \<Rightarrow> u64 \<Rightarrow> rat \<Rightarrow> bloom_filter" where
  "new_filter optimal capacity fp_rate =
    (let capacity = (if capacity = 0 then 10000 else capacity);
         fp_rate = (if fp_rate \<le> 0 \<or> 1 \<le> fp_rate then 1 / 100 else fp_rate);
         (m, k) = optimal capacity fp_rate;
         m = (if m = 0 then 1000 else m);
         k = (if k = 0 then 3 else k)
     in \<lparr>bitset = replicate (unat m) False, bf_size = m, hash_count = k\<rparr>)"

definition seeded_hash :: "string \<Rightarrow> u64 \<Rightarrow> u64" where
  "seeded_hash key seed = fnv64a key + seed * 0x9e3779b97f4a7c15"

definition bf_index :: "bloom_filter \<Rightarrow> string \<Rightarrow> nat \<Rightarrow> nat" where
  "bf_index f key i = unat (seeded_hash key (of_nat i) mod bf_size f)"

definition bf_add :: "string \<Rightarrow> bloom_filter \<Rightarrow> bloom_filter" where
  "bf_add key f = f\<lparr>bitset :=
     fold (\<lambda>i bits. bits[bf_index f key i := True]) [0..<unat (hash_count f)] (bitset f)\<rparr>"

definition may_contain :: "bloom_filter \<Rightarrow> string \<Rightarrow> bool" where
  "may_contain f key = list_all (\<lambda>i. bitset f ! bf_index f key i) [0..<unat (hash_count f)]"

definition filter_wf :: "bloom_filter \<Rightarrow> bool" where
  "filter_wf f \<longleftrightarrow> 0 < bf_size f \<and> 0 < hash_count f \<and> length (bitset f) = unat (bf_size f)"

lemma new_filter_wf: "filter_wf (new_filter optimal cap fp)"
  by (simp add: new_filter_def filter_wf_def Let_def word_gt_0 split: prod.split)

lemma unat_mod_less: "0 < (b :: u64) \<Longrightarrow> unat (a mod b) < unat b"
  by (metis word_mod_less_divisor word_less_nat_alt)

lemma bf_index_in_range: "filter_wf f \<Longrightarrow> bf_index f key i < length (bitset f)"
  by (simp add: filter_wf_def bf_index_def unat_mod_less)

lemma set_bits_nth:
  "j < length bits \<Longrightarrow>
    fold (\<lambda>i bits. bits[g i := True]) is bits ! j \<longleftrightarrow> bits ! j \<or> (\<exists>i\<in>set is. g i = j)"
proof (induction "is" arbitrary: bits)
  case Nil
  then show ?case by simp
next
  case (Cons i js)
  then show ?case by (cases "g i = j") simp_all
qed

lemma set_bits_length [simp]: "length (fold (\<lambda>i bits. bits[g i := True]) is bits) = length bits"
  by (induction "is" arbitrary: bits) auto

lemma bf_add_wf [simp]: "filter_wf f \<Longrightarrow> filter_wf (bf_add key f)"
  by (simp add: filter_wf_def bf_add_def)

lemma bf_index_add [simp]: "bf_index (bf_add key f) = bf_index f"
  by (simp add: bf_index_def bf_add_def fun_eq_iff)

lemma hash_count_add [simp]: "hash_count (bf_add key f) = hash_count f"
  by (simp add: bf_add_def)

lemma length_bitset_add [simp]: "length (bitset (bf_add key f)) = length (bitset f)"
  by (simp add: bf_add_def)

lemma bf_add_bit:
  "j < length (bitset f) \<Longrightarrow>
    bitset (bf_add key f) ! j \<longleftrightarrow> bitset f ! j \<or> (\<exists>i<unat (hash_count f). bf_index f key i = j)"
  by (auto simp: bf_add_def set_bits_nth)

text \<open>The filter after any sequence of insertions, as the set of the positions they hit.\<close>

lemma bf_adds:
  assumes "filter_wf f"
  shows "filter_wf (fold bf_add keys f) \<and> bf_index (fold bf_add keys f) = bf_index f \<and>
    hash_count (fold bf_add keys f) = hash_count f \<and>
    length (bitset (fold bf_add keys f)) = length (bitset f) \<and>
    (\<forall>j<length (bitset f). bitset (fold bf_add keys f) ! j \<longleftrightarrow>
      bitset f ! j \<or> (\<exists>key\<in>set keys. \<exists>i<unat (hash_count f). bf_index f key i = j))"
  using assms by (induction keys arbitrary: f) (auto simp: bf_add_bit)

lemma may_contain_adds:
  assumes "filter_wf f"
  shows "may_contain (fold bf_add keys f) x \<longleftrightarrow>
    (\<forall>i<unat (hash_count f). bitset f ! bf_index f x i \<or>
      (\<exists>key\<in>set keys. \<exists>j<unat (hash_count f). bf_index f key j = bf_index f x i))"
  using bf_adds [OF assms, of keys] bf_index_in_range [OF assms]
  by (auto simp: may_contain_def list_all_iff)

lemma new_filter_bitset:
  "bitset (new_filter optimal cap fp) = replicate (unat (bf_size (new_filter optimal cap fp))) False"
  unfolding new_filter_def Let_def prod.case_eq_if by simp

lemma new_filter_empty: "j < length (bitset (new_filter optimal cap fp)) \<Longrightarrow>
    \<not> bitset (new_filter optimal cap fp) ! j"
  by (subst new_filter_bitset) (subst (asm) new_filter_bitset, simp)

section \<open>HyperLogLog registers\<close>

record hyper_log_log =
  registers :: "8 word list"
  hll_m :: u64

definition new_hyper_log_log :: hyper_log_log where
  "new_hyper_log_log = \<lparr>registers = replicate 1024 0, hll_m = 1024\<rparr>"

lemma less_64_Suc: "(z :: 8 word) < 64 \<Longrightarrow> unat (z + 1) = Suc (unat z) \<and> unat z < 64"
  by (simp add: word_less_nat_alt unat_word_ariths)

text \<open>The loop \<^verbatim>\<open>for val&1 == 0 && zeros < 64\<close>; it stops because \<open>zeros\<close> grows to 64.\<close>

function hll_rank :: "8 word \<Rightarrow> u64 \<Rightarrow> 8 word" where
  "hll_rank zeros val =
     (if and val 1 = 0 then (if zeros < 64 then hll_rank (zeros + 1) (drop_bit 1 val) else zeros)
      else zeros)"
  by pat_completeness auto

termination
  by (relation "measure (\<lambda>(zeros, val). 64 - unat zeros)") (auto dest: less_64_Suc)

declare hll_rank.simps [simp del]

definition hll_index :: "u64 \<Rightarrow> string \<Rightarrow> nat" where
  "hll_index m element = unat (fnv64a element mod m)"

definition hll_zeros :: "string \<Rightarrow> 8 word" where
  "hll_zeros element = hll_rank 1 (drop_bit 10 (fnv64a element))"

definition hll_add :: "string \<Rightarrow> hyper_log_log \<Rightarrow> hyper_log_log" where
  "hll_add element h =
     (let idx = hll_index (hll_m h) element; zeros = hll_zeros element
      in if registers h ! idx < zeros then h\<lparr>registers := (registers h)[idx := zeros]\<rparr> else h)"

definition hll_wf :: "hyper_log_log \<Rightarrow> bool" where
  "hll_wf h \<longleftrightarrow> hll_m h = 1024 \<and> length (registers h) = 1024"

lemma new_hll_wf [simp]: "hll_wf new_hyper_log_log"
  by (simp add: hll_wf_def new_hyper_log_log_def)

lemma hll_add_wf [simp]: "hll_wf h \<Longrightarrow> hll_wf (hll_add x h)"
  by (simp add: hll_wf_def hll_add_def Let_def)

lemma hll_adds_wf [simp]: "hll_wf h \<Longrightarrow> hll_wf (fold hll_add xs h)"
  by (induction xs arbitrary: h) simp_all

lemma hll_index_in_range: "hll_index 1024 x < 1024"
  using unat_mod_less [of 1024 "fnv64a x"] by (simp add: hll_index_def)

lemma hll_rank_bounds: "1 \<le> z \<Longrightarrow> z \<le> 64 \<Longrightarrow> z \<le> hll_rank z v \<and> hll_rank z v \<le> 64"
proof (induction z v rule: hll_rank.induct)
  case (1 z v)
  show ?case
  proof (cases "and v 1 = 0 \<and> z < 64")
    case True
    have "unat (z + 1) = Suc (unat z)" "unat z < 64" using less_64_Suc True by blast+
    then have "1 \<le> z + 1" "z + 1 \<le> 64" "z \<le> z + 1"
      by (auto simp: word_le_nat_alt)
    then show ?thesis using 1 True by (subst (1 2) hll_rank.simps) auto
  next
    case False
    then show ?thesis using 1 by (subst (1 2) hll_rank.simps) auto
  qed
qed

lemma hll_add_register:
  assumes "hll_wf h" and "j < 1024"
  shows "registers (hll_add x h) ! j =
    (if hll_index 1024 x = j then max (registers h ! j) (hll_zeros x) else registers h ! j)"
  using assms hll_index_in_range [of x]
  by (auto simp: hll_add_def hll_wf_def Let_def max_def)

lemma hll_registers:
  assumes "hll_wf h" and "j < 1024"
  shows "registers (fold hll_add xs h) ! j =
    fold max (map hll_zeros (filter (\<lambda>x. hll_index 1024 x = j) xs)) (registers h ! j)"
  using assms by (induction xs arbitrary: h) (auto simp: hll_add_register max.commute)

lemma hll_registers_Max:
  assumes "j < 1024"
  shows "registers (fold hll_add xs new_hyper_log_log) ! j =
    Max (insert 0 (hll_zeros ` {x \<in> set xs. hll_index 1024 x = j}))"
proof -
  have "registers new_hyper_log_log ! j = 0"
    using assms by (simp add: new_hyper_log_log_def)
  then show ?thesis
    using assms by (simp add: hll_registers flip: Max.set_eq_fold) 
qed

section \<open>The count-min sketch\<close>

record count_min =
  matrix :: "u64 list list"
  depth :: u64
  cms_width :: u64

definition new_count_min :: count_min where
  "new_count_min = \<lparr>matrix = replicate 5 (replicate 2048 0), depth = 5, cms_width = 2048\<rparr>"

definition cms_index :: "u64 \<Rightarrow> string \<Rightarrow> nat \<Rightarrow> nat" where
  "cms_index w item i = unat (seeded_hash item (of_nat i) mod w)"

definition cms_add :: "string \<times> u64 \<Rightarrow> count_min \<Rightarrow> count_min" where
  "cms_add ic c = (case ic of (item, count) \<Rightarrow> c\<lparr>matrix :=
     fold (\<lambda>i m. m[i := (m ! i)[cms_index (cms_width c) item i :=
         m ! i ! cms_index (cms_width c) item i + count]])
       [0..<unat (depth c)] (matrix c)\<rparr>)"

definition estimate_frequency :: "count_min \<Rightarrow> string \<Rightarrow> u64" where
  "estimate_frequency c item =
     fold (\<lambda>i low. let cell = matrix c ! i ! cms_index (cms_width c) item i
                   in if cell < low then cell else low)
       [0..<unat (depth c)] (- 1)"

definition cms_wf :: "count_min \<Rightarrow> bool" where
  "cms_wf c \<longleftrightarrow> depth c = 5 \<and> cms_width c = 2048 \<and> length (matrix c) = 5 \<and>
     (\<forall>row\<in>set (matrix c). length row = 2048)"

lemma new_count_min_wf [simp]: "cms_wf new_count_min"
  by (simp add: cms_wf_def new_count_min_def)

lemma cms_index_in_range: "cms_index 2048 x i < 2048"
  using unat_mod_less [of 2048] by (simp add: cms_index_def)

text \<open>The rows are updated independently, each at one position.\<close>

lemma fold_rows:
  "i < length m \<Longrightarrow> distinct is \<Longrightarrow>
    fold (\<lambda>i m. m[i := f i (m ! i)]) is m ! i = (if i \<in> set is then f i (m ! i) else m ! i)"
proof (induction "is" arbitrary: m)
  case Nil
  then show ?case by simp
next
  case (Cons j js)
  then show ?case by (cases "j = i") auto
qed

lemma fold_rows_length [simp]: "length (fold (\<lambda>i m. m[i := f i (m ! i)]) is m) = length m"
  by (induction "is" arbitrary: m) auto

lemma cms_add_row:
  assumes "cms_wf c" and "i < 5"
  shows "matrix (cms_add (x, n) c) ! i =
    (matrix c ! i)[cms_index 2048 x i := matrix c ! i ! cms_index 2048 x i + n]"
  using assms fold_rows [of i "matrix c" "[0..<5]" "\<lambda>i row. row[cms_index 2048 x i := row ! cms_index 2048 x i + n]"]
  by (simp add: cms_wf_def cms_add_def)

lemma cms_add_wf [simp]: "cms_wf c \<Longrightarrow> cms_wf (cms_add xn c)"
proof -
  assume c: "cms_wf c"
  obtain x n where xn: "xn = (x, n)" by (cases xn)
  have len: "length (matrix (cms_add xn c)) = 5"
    using c fold_rows_length [of "\<lambda>i row. row[cms_index 2048 x i := row ! cms_index 2048 x i + n]"]
    by (simp add: xn cms_add_def cms_wf_def)
  have "length (matrix (cms_add xn c) ! i) = 2048" if "i < 5" for i
    using cms_add_row [OF c that, of x n] c that by (simp add: xn cms_wf_def)
  then show "cms_wf (cms_add xn c)"
    using c len by (auto simp: cms_wf_def in_set_conv_nth xn cms_add_def)
qed

lemma cms_adds_wf [simp]: "cms_wf c \<Longrightarrow> cms_wf (fold cms_add xs c)"
  by (induction xs arbitrary: c) simp_all

lemma cms_cell_add:
  assumes "cms_wf c" and "i < 5" and "j < 2048"
  shows "matrix (cms_add (x, n) c) ! i ! j =
    matrix c ! i ! j + (if cms_index 2048 x i = j then n else 0)"
proof -
  have "length (matrix c ! i) = 2048" using assms by (simp add: cms_wf_def)
  then show ?thesis using cms_add_row [OF assms(1,2), of x n] assms(3) by auto
qed

lemma cms_cell:
  assumes "cms_wf c" and "i < 5" and "j < 2048"
  shows "matrix (fold cms_add xs c) ! i ! j =
    matrix c ! i ! j + sum_list (map snd (filter (\<lambda>(x, n). cms_index 2048 x i = j) xs))"
  using assms by (induction xs arbitrary: c) (auto simp: cms_cell_add split: prod.splits)

text \<open>The width is a power of two, so the seed added to the hash rotates each row: two items
  that share a cell of one row share a cell of every row.\<close>

lemma mod_pow2_word: "unat (a mod 2048 :: u64) = unat a mod 2048"
  by (simp add: unat_mod_distrib)

lemma same_cell_of_every_row:
  "cms_index 2048 x i = cms_index 2048 y i \<longleftrightarrow> unat (fnv64a x) mod 2048 = unat (fnv64a y) mod 2048"
proof -
  have d: "(a mod 18446744073709551616) mod 2048 = a mod (2048 :: nat)" for a
    by (rule mod_mod_cancel) simp
  have sum: "unat (a + b :: u64) mod 2048 = (unat a + unat b) mod 2048" for a b
    by (simp add: unat_word_ariths(1) d)
  have "cms_index 2048 z i = (unat (fnv64a z) + unat (of_nat i * 0x9e3779b97f4a7c15 :: u64)) mod 2048" for z
    unfolding cms_index_def seeded_hash_def mod_pow2_word sum ..
  then show ?thesis
    by (simp add: nat_mod_eq_iff)
qed

lemma fold_low:
  "fold (\<lambda>i low. let cell = g i in if cell < low then cell else low) is z = fold (\<lambda>i low. min (g i) low) is (z :: u64)"
proof -
  have "(\<lambda>i low. let cell = g i in if cell < low then cell else low) = (\<lambda>i low. min (g i) low)"
    by (auto simp: fun_eq_iff Let_def min_def)
  then show ?thesis by simp
qed

lemma cms_estimate:
  assumes "cms_wf c"
  shows "estimate_frequency c x = fold (\<lambda>i low. min (matrix c ! i ! cms_index 2048 x i) low) [0..<5] (- 1)"
  using assms by (simp add: estimate_frequency_def fold_low cms_wf_def)

definition collides :: "string \<Rightarrow> string \<Rightarrow> bool" where
  "collides x y \<longleftrightarrow> fnv64a x mod 2048 = fnv64a y mod 2048"

lemma collides_cell: "cms_index 2048 x i = cms_index 2048 y i \<longleftrightarrow> collides x y"
  by (simp add: same_cell_of_every_row collides_def word_unat_eq_iff mod_pow2_word)

definition added_colliding :: "(string \<times> u64) list \<Rightarrow> string \<Rightarrow> (string \<times> u64) list" where
  "added_colliding adds x = filter (\<lambda>(y, n). collides y x) adds"

lemma estimate_is_one_row:
  "estimate_frequency (fold cms_add adds new_count_min) x = sum_list (map snd (added_colliding adds x))"
proof -
  have "matrix (fold cms_add adds new_count_min) ! i ! cms_index 2048 x i
      = sum_list (map snd (added_colliding adds x))" if "i < 5" for i
    using that cms_index_in_range [of x i]
    by (simp add: cms_cell collides_cell added_colliding_def) (simp add: new_count_min_def)
  then show ?thesis
    by (simp add: cms_estimate upt_rec [of _ 5])
qed

lemma unat_sum_list_no_overflow:
  "sum_list (map unat ws) < 2 ^ 64 \<Longrightarrow> unat (sum_list (ws :: u64 list)) = sum_list (map unat ws)"
  by (induction ws) (auto simp: unat_word_ariths)

lemma sum_list_filter_le: "sum_list (map f (filter P xs)) \<le> sum_list (map (f :: _ \<Rightarrow> nat) xs)"
  by (induction xs) auto

section \<open>Properties\<close>

text \<open>A Bloom filter never answers no for a key that was inserted, and answers yes for
  another key exactly when every one of its positions is hit by an inserted key.\<close>

theorem bloom_no_false_negatives:
  "(may_contain (fold bf_add keys (new_filter optimal cap fp)) x \<longleftrightarrow>
      (let f = new_filter optimal cap fp; positions = (\<lambda>key. bf_index f key ` {..<unat (hash_count f)}) in
       positions x \<subseteq> (\<Union>key\<in>set keys. positions key))) \<and>
   set keys \<subseteq> {x. may_contain (fold bf_add keys (new_filter optimal cap fp)) x}"
proof -
  have "may_contain (fold bf_add keys (new_filter optimal cap fp)) y \<longleftrightarrow>
      (let f = new_filter optimal cap fp in
       \<forall>i<unat (hash_count f). \<exists>key\<in>set keys. \<exists>j<unat (hash_count f). bf_index f key j = bf_index f y i)" for y
    using bf_index_in_range [OF new_filter_wf] new_filter_empty
    by (auto simp: may_contain_adds [OF new_filter_wf] Let_def)
  then show ?thesis
    by (simp add: Let_def subset_iff image_iff Bex_def) (blast intro: sym)
qed

text \<open>The registers of a HyperLogLog counter depend only on the set of the elements added,
  not on their order or multiplicity: each holds the largest rank of the elements hashed to it,
  which is at most 64.\<close>

theorem hll_depends_on_the_set:
  "registers (fold hll_add xs new_hyper_log_log) =
     map (\<lambda>j. Max (insert 0 (hll_zeros ` {x \<in> set xs. hll_index 1024 x = j}))) [0..<1024] \<and>
   set (registers (fold hll_add xs new_hyper_log_log)) \<subseteq> {..64}"
proof -
  let ?h = "fold hll_add xs new_hyper_log_log"
  have len: "length (registers ?h) = 1024"
    using hll_adds_wf [OF new_hll_wf] by (simp add: hll_wf_def)
  have eq: "registers ?h = map (\<lambda>j. Max (insert 0 (hll_zeros ` {x \<in> set xs. hll_index 1024 x = j}))) [0..<1024]"
    by (rule nth_equalityI) (simp_all add: len hll_registers_Max)
  have "hll_zeros x \<le> 64" for x
    using hll_rank_bounds [of 1] by (simp add: hll_zeros_def)
  then have "Max (insert 0 (hll_zeros ` {x \<in> set xs. hll_index 1024 x = j})) \<le> 64" for j
    by (subst Max_le_iff) auto
  then show ?thesis using eq by auto
qed

text \<open>The estimate of the count-min sketch is the sum of the counts added for the items whose
  hash agrees with the item's in its low eleven bits, modulo 2 to the 64: all five rows hold that
  same sum, so the depth of the sketch does not sharpen the estimate.\<close>

theorem count_min_estimate_is_one_row:
  "estimate_frequency (fold cms_add adds new_count_min) x =
     (\<Sum>(y, n)\<leftarrow>adds. if fnv64a y mod 2048 = fnv64a x mod 2048 then n else 0)"
  unfolding estimate_is_one_row added_colliding_def
  by (induction adds) (auto simp: collides_def)

text \<open>As long as the counts added do not overflow 64 bits the sketch never underestimates.\<close>

theorem count_min_never_underestimates:
  assumes "(\<Sum>(y, n)\<leftarrow>adds. unat n) < 2 ^ 64"
  shows "(\<Sum>(y, n)\<leftarrow>adds. if y = x then unat n else 0)
     \<le> unat (estimate_frequency (fold cms_add adds new_count_min) x)"
proof -
  let ?c = "added_colliding adds x"
  have "sum_list (map unat (map snd ?c)) \<le> (\<Sum>(y, n)\<leftarrow>adds. unat n)"
    using sum_list_filter_le [of "unat \<circ> snd"]
    by (simp add: added_colliding_def case_prod_unfold comp_def)
  then have "unat (sum_list (map snd ?c)) = sum_list (map unat (map snd ?c))"
    using assms by (intro unat_sum_list_no_overflow) simp
  moreover have "(\<Sum>(y, n)\<leftarrow>adds. if y = x then unat n else 0) \<le> sum_list (map unat (map snd ?c))"
    unfolding added_colliding_def by (induction adds) (auto simp: collides_def)
  ultimately show ?thesis by (simp add: estimate_is_one_row)
qed

theorem count_min_never_underestimates_witness:
  "estimate_frequency (fold cms_add [(''go'', 3), (''pp'', 4)] new_count_min) ''go'' \<ge> 3"
  using count_min_never_underestimates [of "[(''go'', 3), (''pp'', 4)]" "''go''"]
  by (simp add: word_le_nat_alt)

end
