(* ===== verification/Idempotency.thy ===== *)
theory Idempotency
  imports Go_Maps
begin

text \<open>
  \<^verbatim>\<open>middleware/idempotency_store.go\<close> and \<^verbatim>\<open>middleware/idempotency.go\<close>: the bounded store of
  claims, the middleware that replays a stored response, and the buffer it answers through.
  SHA-256 is the parameter \<open>hash\<close>, the random owner and the clock readings are arguments; the
  store's mutex makes each of its operations one step.
\<close>

section \<open>The store of claims\<close>

datatype idem_state = Idem_Pending | Idem_Complete

type_synonym http_header = "(string \<times> string list) list"

record idem_response =
  resp_status :: int
  resp_header :: http_header
  resp_body :: string

record idem_claim =
  acquired :: bool
  claim_state :: idem_state
  claim_fingerprint :: string
  claim_response :: "idem_response option"

datatype idem_error =
    Ctx_Err
  | Input_Required
  | TTL_Not_Positive
  | Store_Capacity
  | Ownership_Lost
  | Retry_Limit

record idem_entry =
  entry_fingerprint :: string
  entry_owner :: string
  entry_state :: idem_state
  entry_response :: "idem_response option"
  entry_expires :: int

record idem_store =
  entries :: "(string \<times> idem_entry) list"
  idem_order :: "string list"
  idem_max :: int

definition new_idem_store :: "int \<Rightarrow> idem_store" where
  "new_idem_store n = \<lparr>entries = [], idem_order = [], idem_max = (if n \<le> 0 then 10000 else n)\<rparr>"

definition validate_input :: "bool \<Rightarrow> string \<Rightarrow> string \<Rightarrow> string \<Rightarrow> int \<Rightarrow> idem_error option" where
  "validate_input ctx_done key fp owner ttl =
     (if ctx_done then Some Ctx_Err
      else if key = [] \<or> fp = [] \<or> owner = [] then Some Input_Required
      else if ttl \<le> 0 then Some TTL_Not_Positive
      else None)"

definition idem_delete :: "string \<Rightarrow> idem_store \<Rightarrow> idem_store" where
  "idem_delete key s =
     (case map_of (entries s) key of
        None \<Rightarrow> s
      | Some e \<Rightarrow> s\<lparr>idem_order := remove1 key (idem_order s), entries := AList.delete key (entries s)\<rparr>)"

definition is_expired :: "int \<Rightarrow> idem_entry option \<Rightarrow> bool" where
  "is_expired now e = (case e of None \<Rightarrow> False | Some x \<Rightarrow> entry_expires x \<le> now)"

definition remove_expired :: "int \<Rightarrow> idem_store \<Rightarrow> idem_store" where
  "remove_expired now s =
     fold (\<lambda>key s. if is_expired now (map_of (entries s) key) then idem_delete key s else s) (idem_order s) s"

fun evict_completed_loop :: "string list \<Rightarrow> idem_store \<Rightarrow> idem_store option" where
  "evict_completed_loop [] s = None"
| "evict_completed_loop (key # rest) s =
     (case map_of (entries s) key of
        Some e \<Rightarrow> if entry_state e = Idem_Complete then Some (idem_delete key s) else evict_completed_loop rest s
      | None \<Rightarrow> evict_completed_loop rest s)"

definition evict_completed :: "idem_store \<Rightarrow> idem_store option" where
  "evict_completed s = evict_completed_loop (idem_order s) s"

definition memory_claim :: "idem_entry \<Rightarrow> idem_claim" where
  "memory_claim e = \<lparr>acquired = False, claim_state = entry_state e,
     claim_fingerprint = entry_fingerprint e, claim_response = entry_response e\<rparr>"

definition claim :: "bool \<Rightarrow> int \<Rightarrow> string \<Rightarrow> string \<Rightarrow> string \<Rightarrow> int \<Rightarrow> idem_store \<Rightarrow> (idem_error + idem_claim) \<times> idem_store" where
  "claim ctx_done now key fp owner ttl s =
     (case validate_input ctx_done key fp owner ttl of
        Some err \<Rightarrow> (Inl err, s)
      | None \<Rightarrow>
          let s = remove_expired now s
          in case map_of (entries s) key of
               Some e \<Rightarrow> (Inr (memory_claim e), s)
             | None \<Rightarrow>
                 (case (if idem_max s \<le> int (length (entries s)) then evict_completed s else Some s) of
                    None \<Rightarrow> (Inl Store_Capacity, s)
                  | Some s \<Rightarrow>
                      (Inr \<lparr>acquired = True, claim_state = Idem_Pending, claim_fingerprint = fp, claim_response = None\<rparr>,
                       s\<lparr>idem_order := idem_order s @ [key],
                         entries := AList.update key
                           \<lparr>entry_fingerprint = fp, entry_owner = owner, entry_state = Idem_Pending,
                            entry_response = None, entry_expires = now + ttl\<rparr> (entries s)\<rparr>)))"

definition complete_claim :: "bool \<Rightarrow> int \<Rightarrow> string \<Rightarrow> string \<Rightarrow> string \<Rightarrow> idem_response \<Rightarrow> int \<Rightarrow> idem_store \<Rightarrow>
    idem_error option \<times> idem_store" where
  "complete_claim ctx_done now key fp owner resp ttl s =
     (case validate_input ctx_done key fp owner ttl of
        Some err \<Rightarrow> (Some err, s)
      | None \<Rightarrow>
          (case map_of (entries s) key of
             None \<Rightarrow> (Some Ownership_Lost, s)
           | Some e \<Rightarrow>
               if entry_state e \<noteq> Idem_Pending \<or> entry_owner e \<noteq> owner \<or> entry_fingerprint e \<noteq> fp
               then (Some Ownership_Lost, s)
               else (None, s\<lparr>entries := AList.update key
                      (e\<lparr>entry_state := Idem_Complete, entry_response := Some resp, entry_expires := now + ttl\<rparr>) (entries s)\<rparr>)))"

text \<open>\<^verbatim>\<open>Release\<close> of the memory store does not look at the clock.\<close>

definition release :: "bool \<Rightarrow> int \<Rightarrow> string \<Rightarrow> string \<Rightarrow> idem_store \<Rightarrow> idem_error option \<times> idem_store" where
  "release ctx_done now key owner s =
     (if ctx_done then (Some Ctx_Err, s)
      else if key = [] \<or> owner = [] then (Some Input_Required, s)
      else (case map_of (entries s) key of
          None \<Rightarrow> (None, s)
        | Some e \<Rightarrow>
            if entry_state e \<noteq> Idem_Pending \<or> entry_owner e \<noteq> owner then (Some Ownership_Lost, s)
            else (None, idem_delete key s)))"

subsection \<open>Well-formedness\<close>

definition idem_wf :: "idem_store \<Rightarrow> bool" where
  "idem_wf s \<longleftrightarrow> distinct (map fst (entries s)) \<and> distinct (idem_order s) \<and>
     set (idem_order s) = fst ` set (entries s) \<and> 0 < idem_max s \<and> int (length (entries s)) \<le> idem_max s \<and>
     (\<forall>k e. map_of (entries s) k = Some e \<longrightarrow> (entry_state e = Idem_Complete \<longleftrightarrow> entry_response e \<noteq> None))"

lemma idem_delete_map_of: "map_of (entries (idem_delete k s)) = (map_of (entries s))(k := None)"
  by (auto simp: idem_delete_def delete_conv' fun_eq_iff split: option.split)

lemma idem_delete_max [simp]: "idem_max (idem_delete k s) = idem_max s"
  by (simp add: idem_delete_def split: option.split)

lemma idem_delete_wf: "idem_wf s \<Longrightarrow> idem_wf (idem_delete k s)"
proof -
  assume wf: "idem_wf s"
  have "\<forall>k' e. map_of (entries (idem_delete k s)) k' = Some e \<longrightarrow>
      (entry_state e = Idem_Complete \<longleftrightarrow> entry_response e \<noteq> None)"
    using wf by (auto simp: idem_delete_map_of idem_wf_def split: if_splits)
  then show ?thesis using wf length_delete_le [of k "entries s"]
    unfolding idem_wf_def
    by (auto simp: idem_delete_def distinct_delete set_remove1_eq dom_delete split: option.splits)
qed

lemma remove_expired_fold:
  "idem_wf s \<Longrightarrow>
    idem_wf (fold (\<lambda>key s. if is_expired now (map_of (entries s) key) then idem_delete key s else s) ks s) \<and>
    idem_max (fold (\<lambda>key s. if is_expired now (map_of (entries s) key) then idem_delete key s else s) ks s) = idem_max s \<and>
    map_of (entries (fold (\<lambda>key s. if is_expired now (map_of (entries s) key) then idem_delete key s else s) ks s)) k =
      (if k \<in> set ks \<and> is_expired now (map_of (entries s) k) then None else map_of (entries s) k)"
proof (induction ks arbitrary: s)
  case (Cons key ks)
  then show ?case
    using idem_delete_wf [OF Cons.prems] by (auto simp: idem_delete_map_of is_expired_def)
qed simp

lemma remove_expired:
  assumes "idem_wf s"
  shows "idem_wf (remove_expired now s)" and "idem_max (remove_expired now s) = idem_max s"
    and "map_of (entries (remove_expired now s)) k =
      (if is_expired now (map_of (entries s) k) then None else map_of (entries s) k)"
proof -
  have "map_of (entries s) k = None" if "k \<notin> set (idem_order s)"
    using that assms by (simp add: idem_wf_def map_of_eq_None_iff)
  then show "map_of (entries (remove_expired now s)) k =
      (if is_expired now (map_of (entries s) k) then None else map_of (entries s) k)"
    using remove_expired_fold [OF assms, of now "idem_order s" k]
    by (cases "k \<in> set (idem_order s)") (simp_all add: remove_expired_def)
qed (use remove_expired_fold [OF assms, of now "idem_order s"] in \<open>simp_all add: remove_expired_def\<close>)

lemma evict_completed_Some:
  "evict_completed s = Some s' \<Longrightarrow> \<exists>k e. map_of (entries s) k = Some e \<and> entry_state e = Idem_Complete \<and> s' = idem_delete k s"
proof -
  have "evict_completed_loop ks s = Some s' \<Longrightarrow>
      \<exists>k e. map_of (entries s) k = Some e \<and> entry_state e = Idem_Complete \<and> s' = idem_delete k s" for ks
    by (induction ks) (auto split: option.splits if_splits)
  then show "evict_completed s = Some s' \<Longrightarrow> ?thesis" by (simp add: evict_completed_def)
qed

lemma evict_completed_length:
  assumes "idem_wf s" and "evict_completed s = Some s'"
  shows "idem_wf s' \<and> idem_max s' = idem_max s \<and> int (length (entries s')) < idem_max s"
proof -
  from evict_completed_Some [OF assms(2)] obtain k e where
    k: "map_of (entries s) k = Some e" "s' = idem_delete k s" by blast
  have "k \<in> fst ` set (entries s)" using k(1) by (metis domI dom_map_of_conv_image_fst)
  moreover have d: "distinct (map fst (entries s))" using assms(1) by (simp add: idem_wf_def)
  ultimately have "length (map fst (AList.delete k (entries s))) = length (map fst (entries s)) - 1"
    by (simp add: delete_keys flip: distinct_remove1_removeAll) (simp add: length_remove1)
  moreover have "0 < length (entries s)" using k(1) by (cases "entries s") auto
  ultimately show ?thesis
    using k assms(1) idem_delete_wf [OF assms(1), of k] by (auto simp: idem_wf_def idem_delete_def)
qed

section \<open>Laws of a store of claims\<close>

text \<open>The content \<open>view\<close> changes for other keys only by dropping expired or completed entries, for
  the claimed key only by acquiring it.\<close>

definition pending_entry :: "string \<Rightarrow> string \<Rightarrow> int \<Rightarrow> idem_entry" where
  "pending_entry fp owner expires = \<lparr>entry_fingerprint = fp, entry_owner = owner, entry_state = Idem_Pending,
     entry_response = None, entry_expires = expires\<rparr>"

definition completed_entry :: "idem_entry \<Rightarrow> idem_response \<Rightarrow> int \<Rightarrow> idem_entry" where
  "completed_entry e resp expires = e\<lparr>entry_state := Idem_Complete, entry_response := Some resp, entry_expires := expires\<rparr>"

definition droppable :: "int \<Rightarrow> idem_entry \<Rightarrow> bool" where
  "droppable now e \<longleftrightarrow> entry_expires e \<le> now \<or> entry_state e = Idem_Complete"

definition held_by :: "string \<Rightarrow> idem_entry option \<Rightarrow> bool" where
  "held_by owner e = (case e of None \<Rightarrow> False | Some x \<Rightarrow> entry_state x = Idem_Pending \<and> entry_owner x = owner)"

locale claim_store =
  fixes clm :: "bool \<Rightarrow> int \<Rightarrow> string \<Rightarrow> string \<Rightarrow> string \<Rightarrow> int \<Rightarrow> 's \<Rightarrow> (idem_error + idem_claim) \<times> 's"
    and compl :: "bool \<Rightarrow> int \<Rightarrow> string \<Rightarrow> string \<Rightarrow> string \<Rightarrow> idem_response \<Rightarrow> int \<Rightarrow> 's \<Rightarrow> idem_error option \<times> 's"
    and rel :: "bool \<Rightarrow> int \<Rightarrow> string \<Rightarrow> string \<Rightarrow> 's \<Rightarrow> idem_error option \<times> 's"
    and ok :: "'s \<Rightarrow> bool" and view :: "'s \<Rightarrow> string \<Rightarrow> idem_entry option"
  assumes claim_ok: "ok s \<Longrightarrow> clm cd now k fp own ttl s = (r, s') \<Longrightarrow> ok s'"
    and claim_others: "ok s \<Longrightarrow> clm cd now k fp own ttl s = (r, s') \<Longrightarrow> k' \<noteq> k \<Longrightarrow>
      view s' k' = view s k' \<or> view s' k' = None \<and> (\<exists>e. view s k' = Some e \<and> droppable now e)"
    and claim_live: "ok s \<Longrightarrow> clm cd now k fp own ttl s = (r, s') \<Longrightarrow> view s k = Some e \<Longrightarrow> now < entry_expires e \<Longrightarrow>
      view s' k = Some e \<and> ((\<exists>err. r = Inl err) \<or> r = Inr (memory_claim e))"
    and claim_acquired: "ok s \<Longrightarrow> clm cd now k fp own ttl s = (Inr c, s') \<Longrightarrow> acquired c \<Longrightarrow>
      (view s k = None \<or> is_expired now (view s k)) \<and> view s' k = Some (pending_entry fp own (now + ttl)) \<and>
      c = \<lparr>acquired = True, claim_state = Idem_Pending, claim_fingerprint = fp, claim_response = None\<rparr> \<and> 0 < ttl"
    and claim_free: "ok s \<Longrightarrow> clm cd now k fp own ttl s = (r, s') \<Longrightarrow> view s k = None \<or> is_expired now (view s k) \<Longrightarrow>
      (\<exists>c. r = Inr c \<and> acquired c) \<or> (\<exists>err. r = Inl err) \<and> (view s' k = None \<or> view s' k = view s k)"
    and claim_denied: "ok s \<Longrightarrow> clm cd now k fp own ttl s = (Inr c, s') \<Longrightarrow> \<not> acquired c \<Longrightarrow>
      \<exists>e. view s k = Some e \<and> now < entry_expires e \<and> c = memory_claim e"
    and complete_ok: "ok s \<Longrightarrow> compl cd now k fp own resp ttl s = (er, s') \<Longrightarrow>
      ok s' \<and> (er \<noteq> None \<longrightarrow> s' = s) \<and> (er = None \<longrightarrow> held_by own (view s k) \<and>
        (\<exists>e ow'. view s k = Some e \<and> entry_fingerprint e = fp \<and>
          view s' = (view s)(k \<mapsto> (completed_entry e resp (now + ttl))\<lparr>entry_owner := ow'\<rparr>)))"
    and release_ok: "ok s \<Longrightarrow> rel cd now k own s = (er, s') \<Longrightarrow>
      ok s' \<and> (er \<noteq> None \<longrightarrow> s' = s) \<and> (\<forall>k'. k' \<noteq> k \<longrightarrow> view s' k' = view s k') \<and>
      (er = None \<longrightarrow> (view s k = None \<or> is_expired now (view s k) \<or> held_by own (view s k))
         \<and> (view s' k = None \<or> is_expired now (view s' k)))"

subsection \<open>The memory store keeps them\<close>

definition idem_view :: "idem_store \<Rightarrow> string \<Rightarrow> idem_entry option" where
  "idem_view s k = map_of (entries s) k"

text \<open>A claim is an expiry pass, then a lookup, then room, then the new entry.\<close>

lemma claim_cases:
  assumes "idem_wf s" and "claim cd now k fp own ttl s = (r, s')"
  obtains (invalid) err where "r = Inl err" "s' = s"
  | (denied) e where "idem_view s k = Some e" "now < entry_expires e" "r = Inr (memory_claim e)" "s' = remove_expired now s" "0 < ttl"
  | (full) "idem_view s k = None \<or> is_expired now (idem_view s k)" "r = Inl Store_Capacity" "s' = remove_expired now s"
  | (acquired) t where "idem_view s k = None \<or> is_expired now (idem_view s k)" "0 < ttl"
      "idem_wf t" "idem_max t = idem_max s" "int (length (entries t)) < idem_max s"
      "\<forall>k'. idem_view t k' = idem_view s k' \<or> idem_view t k' = None \<and> (\<exists>e. idem_view s k' = Some e \<and> droppable now e)"
      "idem_view t k = None"
      "r = Inr \<lparr>acquired = True, claim_state = Idem_Pending, claim_fingerprint = fp, claim_response = None\<rparr>"
      "s' = t\<lparr>idem_order := idem_order t @ [k], entries := AList.update k (pending_entry fp own (now + ttl)) (entries t)\<rparr>"
proof (cases "validate_input cd k fp own ttl")
  case (Some err)
  then show thesis using assms(2) invalid by (auto simp: claim_def)
next
  case None
  then have ttl: "0 < ttl" by (auto simp: validate_input_def split: if_splits)
  let ?u = "remove_expired now s"
  note exp = remove_expired [OF assms(1), of now]
  show thesis
  proof (cases "map_of (entries ?u) k")
    case (Some e)
    then have "idem_view s k = Some e" "now < entry_expires e"
      by (auto simp: exp(3) idem_view_def is_expired_def split: if_splits)
    then show thesis using assms(2) None Some ttl denied by (simp add: claim_def)
  next
    case unheld: None
    then have free: "idem_view s k = None \<or> is_expired now (idem_view s k)"
      by (auto simp: exp(3) idem_view_def split: if_splits)
    have old: "idem_view ?u k' = idem_view s k' \<or> idem_view ?u k' = None \<and> (\<exists>e. idem_view s k' = Some e \<and> droppable now e)" for k'
      by (auto simp: idem_view_def exp(3) is_expired_def droppable_def split: option.splits)
    consider (room) "int (length (entries ?u)) < idem_max s" | (evict) t where "idem_max s \<le> int (length (entries ?u))" "evict_completed ?u = Some t"
      | (none) "idem_max s \<le> int (length (entries ?u))" "evict_completed ?u = None"
      by (cases "evict_completed ?u") fastforce+
    then show thesis
    proof cases
      case room
      then have "\<not> idem_max s \<le> int (length (entries ?u))" by simp
      then have "(r, s') = (Inr \<lparr>acquired = True, claim_state = Idem_Pending, claim_fingerprint = fp, claim_response = None\<rparr>,
          ?u\<lparr>idem_order := idem_order ?u @ [k], entries := AList.update k (pending_entry fp own (now + ttl)) (entries ?u)\<rparr>)"
        using assms(2) None unheld exp(2) by (auto simp: claim_def pending_entry_def Let_def)
      then show thesis
        using free ttl exp(1,2) old room unheld by (intro acquired [of ?u]) (simp_all add: idem_view_def)
    next
      case evict
      note ev = evict_completed_length [OF exp(1) evict(2)]
      from evict_completed_Some [OF evict(2)] obtain j e where
        j: "map_of (entries ?u) j = Some e" "entry_state e = Idem_Complete" "t = idem_delete j ?u" by blast
      have je: "idem_view s j = Some e" "droppable now e"
        using j by (auto simp: exp(3) idem_view_def droppable_def split: if_splits)
      have "idem_view t k' = idem_view s k' \<or> idem_view t k' = None \<and> (\<exists>e. idem_view s k' = Some e \<and> droppable now e)" for k'
        using old [of k'] je j(3) by (auto simp: idem_view_def idem_delete_map_of)
      moreover have "idem_view t k = None" using unheld j(3) by (simp add: idem_view_def idem_delete_map_of)
      moreover have "(r, s') = (Inr \<lparr>acquired = True, claim_state = Idem_Pending, claim_fingerprint = fp, claim_response = None\<rparr>,
          t\<lparr>idem_order := idem_order t @ [k], entries := AList.update k (pending_entry fp own (now + ttl)) (entries t)\<rparr>)"
        using assms(2) None unheld exp(2) evict by (auto simp: claim_def pending_entry_def Let_def)
      ultimately show thesis
        using free ttl ev exp(2) by (intro acquired [of t]) simp_all
    next
      case none
      then show thesis using assms(2) None unheld free exp full by (simp add: claim_def)
    qed
  qed
qed

lemma acquire_wf:
  assumes "idem_wf t" and "int (length (entries t)) < idem_max t" and "idem_view t k = None"
  shows "idem_wf (t\<lparr>idem_order := idem_order t @ [k], entries := AList.update k (pending_entry fp own ex) (entries t)\<rparr>)"
  using assms
  by (auto simp: idem_wf_def idem_view_def distinct_update dom_update length_update map_of_eq_None_iff update_conv'
      pending_entry_def split: if_splits)

lemma complete_wf:
  assumes "idem_wf s" and "map_of (entries s) k = Some e"
  shows "idem_wf (s\<lparr>entries := AList.update k (completed_entry e resp ex) (entries s)\<rparr>)"
proof -
  have "k \<in> fst ` set (entries s)" using assms(2) by (metis domI dom_map_of_conv_image_fst)
  then show ?thesis using assms(1)
    by (auto simp: idem_wf_def distinct_update dom_update length_update update_conv' completed_entry_def
        insert_absorb split: if_splits)
qed

interpretation mem_claims: claim_store claim complete_claim release idem_wf idem_view
proof unfold_locales
  fix s s' :: idem_store and cd now k fp own ttl r k' e c resp er
  assume wf: "idem_wf s"
  { assume cl: "claim cd now k fp own ttl s = (r, s')"
    show "idem_wf s'"
      using wf cl by (cases rule: claim_cases [OF wf cl]) (auto simp: remove_expired acquire_wf)
    show "idem_view s' k' = idem_view s k' \<or> idem_view s' k' = None \<and> (\<exists>e. idem_view s k' = Some e \<and> droppable now e)"
      if "k' \<noteq> k"
    proof -
      have exp: "idem_view (remove_expired now s) k' = idem_view s k' \<or>
          idem_view (remove_expired now s) k' = None \<and> (\<exists>e. idem_view s k' = Some e \<and> droppable now e)"
        by (auto simp: idem_view_def remove_expired(3) [OF wf] is_expired_def droppable_def split: option.splits)
      show ?thesis
        by (cases rule: claim_cases [OF wf cl]) (use exp that in \<open>auto simp: idem_view_def update_conv'\<close>)
    qed
    show "idem_view s' k = Some e \<and> ((\<exists>err. r = Inl err) \<or> r = Inr (memory_claim e))"
      if "idem_view s k = Some e" "now < entry_expires e"
      using that by (cases rule: claim_cases [OF wf cl])
        (auto simp: idem_view_def remove_expired(3) [OF wf] is_expired_def)
    show "(\<exists>c. r = Inr c \<and> acquired c) \<or> (\<exists>err. r = Inl err) \<and> (idem_view s' k = None \<or> idem_view s' k = idem_view s k)"
      if "idem_view s k = None \<or> is_expired now (idem_view s k)"
      using that by (cases rule: claim_cases [OF wf cl])
        (auto simp: idem_view_def remove_expired(3) [OF wf] is_expired_def) }
  { assume cl: "claim cd now k fp own ttl s = (Inr c, s')"
    show "(idem_view s k = None \<or> is_expired now (idem_view s k)) \<and> idem_view s' k = Some (pending_entry fp own (now + ttl)) \<and>
        c = \<lparr>acquired = True, claim_state = Idem_Pending, claim_fingerprint = fp, claim_response = None\<rparr> \<and> 0 < ttl"
      if "acquired c"
      using that by (cases rule: claim_cases [OF wf cl]) (auto simp: idem_view_def update_conv' memory_claim_def)
    show "\<exists>e. idem_view s k = Some e \<and> now < entry_expires e \<and> c = memory_claim e" if "\<not> acquired c"
      using that by (cases rule: claim_cases [OF wf cl]) auto }
  { assume co: "complete_claim cd now k fp own resp ttl s = (er, s')"
    show "idem_wf s' \<and> (er \<noteq> None \<longrightarrow> s' = s) \<and> (er = None \<longrightarrow> held_by own (idem_view s k) \<and>
        (\<exists>e ow'. idem_view s k = Some e \<and> entry_fingerprint e = fp \<and>
          idem_view s' = (idem_view s)(k \<mapsto> (completed_entry e resp (now + ttl))\<lparr>entry_owner := ow'\<rparr>)))"
      using co wf complete_wf [OF wf, of k]
      by (cases er) (auto simp: complete_claim_def held_by_def idem_view_def fun_eq_iff update_conv' completed_entry_def
          intro!: exI [of _ own] split: option.splits if_splits) }
  { assume re: "release cd now k own s = (er, s')"
    show "idem_wf s' \<and> (er \<noteq> None \<longrightarrow> s' = s) \<and> (\<forall>k'. k' \<noteq> k \<longrightarrow> idem_view s' k' = idem_view s k') \<and>
        (er = None \<longrightarrow> (idem_view s k = None \<or> is_expired now (idem_view s k) \<or> held_by own (idem_view s k))
           \<and> (idem_view s' k = None \<or> is_expired now (idem_view s' k)))"
      using re wf idem_delete_wf [OF wf, of k]
      by (cases er) (auto simp: release_def held_by_def idem_view_def fun_eq_iff idem_delete_map_of split: option.splits if_splits) }
qed

section \<open>The middleware\<close>

definition idem_methods :: "string set" where
  "idem_methods = {''POST'', ''PUT'', ''PATCH'', ''DELETE''}"

datatype idem_reply =
    Pass_Through            \<comment> \<open>the chain runs outside the middleware\<close>
  | Problem int             \<comment> \<open>an error response with this status\<close>
  | Ctx_Done
  | Store_Failed idem_error \<comment> \<open>an internal error, sanitised to 500\<close>
  | No_Response            \<comment> \<open>a completed claim without a response, an internal error too\<close>
  | Replay idem_response
  | Run_Handler
  | Wait_For_Claim

text \<open>\<^verbatim>\<open>idempotencyFingerprint\<close>: \<open>body\<close> is what the request body holds, \<open>None\<close> when reading fails.\<close>

definition idem_fingerprint :: "(string \<Rightarrow> string) \<Rightarrow> int \<Rightarrow> int \<Rightarrow> string \<Rightarrow> string option \<Rightarrow> int + string" where
  "idem_fingerprint hash max_bytes content_length content_type body =
     (if max_bytes < content_length then Inl 413
      else (case body of
          None \<Rightarrow> Inl 400
        | Some b \<Rightarrow>
            let b = take (nat (max_bytes + 1)) b
            in if max_bytes < int (length b) then Inl 413
               else Inr (hash (content_type @ [CHR 0x00] @ b))))"

definition scoped_key :: "(string \<Rightarrow> string) \<Rightarrow> string \<Rightarrow> string \<Rightarrow> string \<Rightarrow> string \<Rightarrow> string option \<Rightarrow> string \<Rightarrow> string" where
  "scoped_key hash meth uri tenant subject scope key =
     (let request_scope = (case scope of None \<Rightarrow> tenant @ [CHR 0x00] @ subject | Some sc \<Rightarrow> sc)
      in hash (meth @ [CHR 0x00] @ uri @ [CHR 0x00] @ request_scope @ [CHR 0x00] @ key))"

definition on_claim_answer :: "string \<Rightarrow> idem_error + idem_claim \<Rightarrow> idem_reply" where
  "on_claim_answer fp r =
     (case r of
        Inl err \<Rightarrow> if err = Store_Capacity then Problem 503 else Store_Failed err
      | Inr c \<Rightarrow>
          if claim_fingerprint c \<noteq> fp then Problem 409
          else if acquired c then Run_Handler
          else if claim_state c = Idem_Complete
               then (case claim_response c of None \<Rightarrow> No_Response | Some resp \<Rightarrow> Replay resp)
               else Wait_For_Claim)"

text \<open>The loop of claims; each turn has its clock reading, whether the context is done at the claim
  and whether it is done in the wait. \<open>Wait_For_Claim\<close> is the answer when the turns run out.\<close>

fun claim_loop :: "(bool \<Rightarrow> int \<Rightarrow> string \<Rightarrow> string \<Rightarrow> string \<Rightarrow> int \<Rightarrow> 's \<Rightarrow> (idem_error + idem_claim) \<times> 's) \<Rightarrow>
    string \<Rightarrow> string \<Rightarrow> string \<Rightarrow> int \<Rightarrow> (int \<times> bool \<times> bool) list \<Rightarrow> 's \<Rightarrow> idem_reply \<times> 's" where
  "claim_loop clm key fp owner ttl [] s = (Wait_For_Claim, s)"
| "claim_loop clm key fp owner ttl ((now, ctx_done, wait_done) # turns) s =
     (let (r, s) = clm ctx_done now key fp owner ttl s
      in case on_claim_answer fp r of
           Wait_For_Claim \<Rightarrow> if wait_done then (Ctx_Done, s) else claim_loop clm key fp owner ttl turns s
         | reply \<Rightarrow> (reply, s))"

record handler_outcome =
  handler_failed :: bool
  handler_overflow :: bool
  handler_response :: idem_response

datatype idem_finish_reply = Flushed | Flushed_With_Error | Failure_500

text \<open>After the handler: a failed, oversized or unsuccessful response releases the claim and is
  passed on, a successful one is completed first.\<close>

definition idem_finish ::
  "(bool \<Rightarrow> int \<Rightarrow> string \<Rightarrow> string \<Rightarrow> string \<Rightarrow> idem_response \<Rightarrow> int \<Rightarrow> 's \<Rightarrow> idem_error option \<times> 's) \<Rightarrow>
   (bool \<Rightarrow> int \<Rightarrow> string \<Rightarrow> string \<Rightarrow> 's \<Rightarrow> idem_error option \<times> 's) \<Rightarrow>
   bool \<Rightarrow> int \<Rightarrow> string \<Rightarrow> string \<Rightarrow> string \<Rightarrow> int \<Rightarrow> handler_outcome \<Rightarrow> 's \<Rightarrow> idem_finish_reply \<times> 's" where
  "idem_finish compl rel ctx_done now key fp owner ttl out s =
     (let st = resp_status (handler_response out)
      in if handler_failed out \<or> handler_overflow out \<or> st < 200 \<or> 300 \<le> st
         then let (er, s) = rel False now key owner s
              in (if handler_failed out \<or> er \<noteq> None then Flushed_With_Error else Flushed, s)
         else (case compl ctx_done now key fp owner (handler_response out) ttl s of
                 (Some err, s) \<Rightarrow> let (er, s) = rel False now key owner s in (Failure_500, s)
               | (None, s) \<Rightarrow> (Flushed, s)))"

definition idempotency_begin ::
  "(bool \<Rightarrow> int \<Rightarrow> string \<Rightarrow> string \<Rightarrow> string \<Rightarrow> int \<Rightarrow> 's \<Rightarrow> (idem_error + idem_claim) \<times> 's) \<Rightarrow>
   (string \<Rightarrow> string) \<Rightarrow> int \<Rightarrow> string \<Rightarrow> string \<Rightarrow> int + string \<Rightarrow> (string \<Rightarrow> string) \<Rightarrow> string \<Rightarrow> int \<Rightarrow>
   (int \<times> bool \<times> bool) list \<Rightarrow> 's \<Rightarrow> idem_reply \<times> 's" where
  "idempotency_begin clm hash max_key_bytes meth key fingerprint scoped owner ttl turns s =
     (if meth \<notin> idem_methods then (Pass_Through, s)
      else if key = [] then (Pass_Through, s)
      else if max_key_bytes < int (length key) then (Problem 400, s)
      else (case fingerprint of
          Inl status \<Rightarrow> (Problem status, s)
        | Inr fp \<Rightarrow> claim_loop clm (scoped key) fp owner ttl turns s))"

subsection \<open>Concurrent requests\<close>

text \<open>The requests inside the handler, each with its owner, key, fingerprint and the end of its
  claim's lifetime. Owners are fresh random values; steps happen before those ends.\<close>

record 's idem_system =
  sys_store :: 's
  sys_running :: "(string \<times> string \<times> string \<times> int) list"
  sys_owners :: "string list"

definition in_time :: "int \<Rightarrow> 's idem_system \<Rightarrow> bool" where
  "in_time now y = list_all (\<lambda>(p, k, fp, deadline). now < deadline) (sys_running y)"

inductive idem_step for clm compl rel where
  begin_step: "p \<notin> set (sys_owners y) \<Longrightarrow> in_time now y \<Longrightarrow> clm cd now k fp p ttl (sys_store y) = (r, s') \<Longrightarrow>
    on_claim_answer fp r = Run_Handler \<Longrightarrow>
    idem_step clm compl rel y
      (y\<lparr>sys_store := s', sys_running := (p, k, fp, now + ttl) # sys_running y, sys_owners := p # sys_owners y\<rparr>)"
| turned_away: "p \<notin> set (sys_owners y) \<Longrightarrow> in_time now y \<Longrightarrow> clm cd now k fp p ttl (sys_store y) = (r, s') \<Longrightarrow>
    on_claim_answer fp r \<noteq> Run_Handler \<Longrightarrow> idem_step clm compl rel y (y\<lparr>sys_store := s'\<rparr>)"
| finish_step: "(p, k, fp, d) \<in> set (sys_running y) \<Longrightarrow> in_time now y \<Longrightarrow>
    idem_finish compl rel cd now k fp p ttl out (sys_store y) = (reply, s') \<Longrightarrow>
    idem_step clm compl rel y (y\<lparr>sys_store := s', sys_running := remove1 (p, k, fp, d) (sys_running y)\<rparr>)"

inductive idem_reach for clm compl rel s0 where
  idem_start: "idem_reach clm compl rel s0 \<lparr>sys_store = s0, sys_running = [], sys_owners = []\<rparr>"
| idem_next: "idem_reach clm compl rel s0 y \<Longrightarrow> idem_step clm compl rel y y' \<Longrightarrow> idem_reach clm compl rel s0 y'"

lemma run_handler_iff: "on_claim_answer fp r = Run_Handler \<longleftrightarrow> (\<exists>c. r = Inr c \<and> acquired c \<and> claim_fingerprint c = fp)"
  by (auto simp: on_claim_answer_def split: sum.split option.split)

context claim_store
begin

definition holds :: "'s idem_system \<Rightarrow> bool" where
  "holds y \<longleftrightarrow> ok (sys_store y) \<and> distinct (map fst (sys_running y)) \<and>
     (\<forall>p k fp d. (p, k, fp, d) \<in> set (sys_running y) \<longrightarrow> p \<in> set (sys_owners y) \<and>
        view (sys_store y) k = Some (pending_entry fp p d))"

lemma holdsD:
  "holds y \<Longrightarrow> ok (sys_store y)" "holds y \<Longrightarrow> distinct (map fst (sys_running y))"
  "holds y \<Longrightarrow> (p, k, fp, d) \<in> set (sys_running y) \<Longrightarrow> p \<in> set (sys_owners y)"
  "holds y \<Longrightarrow> (p, k, fp, d) \<in> set (sys_running y) \<Longrightarrow> view (sys_store y) k = Some (pending_entry fp p d)"
  by (auto simp: holds_def)

lemma claim_keeps_running:
  assumes "ok s" and "clm cd now k fp p ttl s = (r, s')" and "view s k' = Some (pending_entry fp' p' d')" and "now < d'"
  shows "view s' k' = Some (pending_entry fp' p' d') \<and> (k' = k \<longrightarrow> on_claim_answer fp r \<noteq> Run_Handler)"
proof (cases "k' = k")
  case True
  then show ?thesis
    using claim_live [OF assms(1,2), of "pending_entry fp' p' d'"] assms(3,4)
    by (auto simp: pending_entry_def run_handler_iff memory_claim_def)
next
  case False
  then show ?thesis
    using claim_others [OF assms(1,2), of k'] assms(3,4) by (auto simp: droppable_def pending_entry_def)
qed

lemma finish_keeps_others:
  assumes "ok s" and "idem_finish compl rel cd now k fp p ttl out s = (reply, s')"
  shows "ok s' \<and> (\<forall>k'. k' \<noteq> k \<longrightarrow> view s' k' = view s k')"
proof -
  obtain er s1 where rl: "rel False now k p s = (er, s1)" by (meson surj_pair)
  obtain er2 s2 where co: "compl cd now k fp p (handler_response out) ttl s = (er2, s2)" by (meson surj_pair)
  note c = complete_ok [OF assms(1) co] and released = release_ok [OF assms(1) rl]
  consider "s' = s1" | "s' = s2" "er2 = None" | "s2 = s" "s' = s1"
    using assms(2) rl co c by (cases er2) (auto simp: idem_finish_def Let_def split: if_splits)
  then show ?thesis using c released by cases auto
qed

lemma step_holds:
  assumes "idem_step clm compl rel y y'" and "holds y"
  shows "holds y'"
  using assms
proof (cases rule: idem_step.cases)
  case (begin_step p now cd k fp ttl r s')
  have ok: "ok (sys_store y)" using assms(2) by (simp add: holds_def)
  have acq: "view s' k = Some (pending_entry fp p (now + ttl))" "ok s'"
    using begin_step claim_acquired [OF ok] claim_ok [OF ok begin_step(4)] by (auto simp: run_handler_iff)
  have "view s' k' = Some (pending_entry fp' p' d')" if "(p', k', fp', d') \<in> set (sys_running y)" for p' k' fp' d'
  proof -
    have "view (sys_store y) k' = Some (pending_entry fp' p' d')" "now < d'"
      using that assms(2) begin_step(3) by (auto simp: holds_def in_time_def list_all_iff)
    from claim_keeps_running [OF ok begin_step(4) this] show ?thesis by blast
  qed
  moreover have "p \<notin> fst ` set (sys_running y)"
    using assms(2) begin_step(2) by (force simp: holds_def)
  ultimately show ?thesis
    using assms(2) begin_step(1) acq by (auto simp: holds_def)
next
  case (turned_away p now cd k fp ttl r s')
  have ok: "ok (sys_store y)" using assms(2) by (simp add: holds_def)
  have "view s' k' = Some (pending_entry fp' p' d')" if "(p', k', fp', d') \<in> set (sys_running y)" for p' k' fp' d'
  proof -
    have "view (sys_store y) k' = Some (pending_entry fp' p' d')" "now < d'"
      using that assms(2) turned_away(3) by (auto simp: holds_def in_time_def list_all_iff)
    from claim_keeps_running [OF ok turned_away(4) this] show ?thesis by blast
  qed
  then show ?thesis
    using assms(2) turned_away(1) claim_ok [OF ok turned_away(4)] by (fastforce simp: holds_def)
next
  case (finish_step p k fp d now cd ttl out reply s')
  have ok: "ok (sys_store y)" using assms(2) by (simp add: holds_def)
  let ?rest = "remove1 (p, k, fp, d) (sys_running y)"
  have dist: "distinct (map fst (sys_running y))" using assms(2) by (simp add: holds_def)
  then have rest: "set ?rest = set (sys_running y) - {(p, k, fp, d)}" "distinct (map fst ?rest)"
    by (simp_all add: distinct_map set_remove1_eq inj_on_def)
  have mine: "view (sys_store y) k = Some (pending_entry fp p d)" using finish_step(2) assms(2) by (auto simp: holds_def)
  have other: "k' \<noteq> k" if "(p', k', fp', d') \<in> set ?rest" for p' k' fp' d'
  proof
    assume "k' = k"
    then have "pending_entry fp' p' d' = pending_entry fp p d"
      using that rest(1) holdsD(4) [OF assms(2)] mine by fastforce
    then show False using that rest(1) \<open>k' = k\<close> by (simp add: pending_entry_def)
  qed
  have "ok s' \<and> (\<forall>k'. k' \<noteq> k \<longrightarrow> view s' k' = view (sys_store y) k')"
    by (rule finish_keeps_others [OF ok finish_step(4)])
  moreover have "view s' k' = Some (pending_entry fp' p' d') \<and> p' \<in> set (sys_owners y)"
    if "(p', k', fp', d') \<in> set ?rest" for p' k' fp' d'
    using calculation that other [OF that] rest(1) holdsD(3,4) [OF assms(2), of p' k' fp' d'] by auto
  ultimately show ?thesis using rest(2) finish_step(1) by (simp add: holds_def)
qed

lemma reach_holds: "idem_reach clm compl rel s0 y \<Longrightarrow> ok s0 \<Longrightarrow> holds y"
proof (induction rule: idem_reach.induct)
  case idem_start
  then show ?case by (simp add: holds_def)
next
  case (idem_next y y')
  then show ?case using step_holds by blast
qed

lemma one_handler_per_key:
  assumes "idem_reach clm compl rel s0 y" and "ok s0"
  shows "distinct (map (\<lambda>(p, k, fp, d). k) (sys_running y))"
proof -
  have h: "holds y" by (rule reach_holds [OF assms])
  then have "distinct (sys_running y)" by (auto simp: holds_def distinct_map)
  moreover have "inj_on (\<lambda>(p, k, fp, d). k) (set (sys_running y))"
  proof (rule inj_onI)
    fix x x' assume xs: "x \<in> set (sys_running y)" "x' \<in> set (sys_running y)"
      and eq: "(\<lambda>(p, k, fp, d). k) x = (\<lambda>(p, k, fp, d). k) x'"
    obtain p k fp d p' fp' d' where x: "x = (p, k, fp, d)" "x' = (p', k, fp', d')"
      using eq by (cases x, cases x') auto
    have "pending_entry fp p d = pending_entry fp' p' d'"
      using holdsD(4) [OF h] xs unfolding x by (metis option.inject)
    then show "x = x'" by (simp add: pending_entry_def x)
  qed
  ultimately show ?thesis by (simp add: distinct_map)
qed

end

section \<open>The response buffer\<close>

text \<open>The underlying writer keeps the first status it is given and appends what is written; a write
  without a status commits 200.\<close>

record response_writer =
  w_header :: http_header
  w_status :: "int option"
  w_body :: string

definition w_write_header :: "int \<Rightarrow> response_writer \<Rightarrow> response_writer" where
  "w_write_header code w = (if w_status w = None then w\<lparr>w_status := Some code\<rparr> else w)"

definition w_write :: "string \<Rightarrow> response_writer \<Rightarrow> response_writer" where
  "w_write d w = (let w = w_write_header 200 w in w\<lparr>w_body := w_body w @ d\<rparr>)"

record response_buffer =
  buf_writer :: response_writer
  buf_header :: http_header
  buf_body :: string
  buf_status :: int
  wrote_header :: bool
  max_body_bytes :: int
  overflow :: bool
  flushed :: bool

definition new_response_buffer :: "response_writer \<Rightarrow> int \<Rightarrow> response_buffer" where
  "new_response_buffer w n = \<lparr>buf_writer = w, buf_header = [], buf_body = [], buf_status = 200,
     wrote_header = False, max_body_bytes = n, overflow = False, flushed = False\<rparr>"

definition buf_write_header :: "int \<Rightarrow> response_buffer \<Rightarrow> response_buffer" where
  "buf_write_header code b = (if wrote_header b then b else b\<lparr>buf_status := code, wrote_header := True\<rparr>)"

definition flush_response :: "response_buffer \<Rightarrow> response_buffer" where
  "flush_response b =
     (if flushed b then b
      else let w = buf_writer b;
               w = w\<lparr>w_header := fold (\<lambda>(k, v) hs. AList.update k v hs) (buf_header b) (w_header w)\<rparr>;
               w = w_write_header (buf_status b) w;
               b = b\<lparr>buf_writer := w, flushed := True\<rparr>
           in if buf_body b = [] then b
              else b\<lparr>buf_writer := w_write (buf_body b) (buf_writer b), buf_body := []\<rparr>)"

definition buf_write :: "string \<Rightarrow> response_buffer \<Rightarrow> response_buffer" where
  "buf_write d b =
     (let b = (if wrote_header b then b else b\<lparr>wrote_header := True\<rparr>)
      in if flushed b then b\<lparr>buf_writer := w_write d (buf_writer b)\<rparr>
         else if max_body_bytes b \<le> 0 \<or> int (length (buf_body b) + length d) \<le> max_body_bytes b
              then b\<lparr>buf_body := buf_body b @ d\<rparr>
              else let b = flush_response (b\<lparr>overflow := True\<rparr>)
                   in b\<lparr>buf_writer := w_write d (buf_writer b)\<rparr>)"

datatype buffer_op = Op_Status int | Op_Write string | Op_Header string "string list"

fun buf_op :: "buffer_op \<Rightarrow> response_buffer \<Rightarrow> response_buffer" where
  "buf_op (Op_Status c) b = buf_write_header c b"
| "buf_op (Op_Write d) b = buf_write d b"
| "buf_op (Op_Header k v) b = b\<lparr>buf_header := AList.update k v (buf_header b)\<rparr>"

fun plain_op :: "buffer_op \<Rightarrow> response_writer \<Rightarrow> response_writer" where
  "plain_op (Op_Status c) w = w_write_header c w"
| "plain_op (Op_Write d) w = w_write d w"
| "plain_op (Op_Header k v) w = w"

text \<open>What a client without the buffer would have got is what the buffer holds or has passed on.\<close>

definition buffers :: "response_buffer \<Rightarrow> response_writer \<Rightarrow> bool" where
  "buffers b w \<longleftrightarrow>
     (if flushed b then w_status (buf_writer b) = w_status w \<and> w_body (buf_writer b) = w_body w \<and> w_status w \<noteq> None \<and>
          buf_body b = [] \<and> overflow b \<and> wrote_header b \<and> max_body_bytes b < int (length (w_body w))
      else w_status (buf_writer b) = None \<and> w_body (buf_writer b) = [] \<and> buf_body b = w_body w \<and> \<not> overflow b \<and>
          (wrote_header b \<longleftrightarrow> w_status w \<noteq> None) \<and> buf_status b = (case w_status w of None \<Rightarrow> 200 | Some c \<Rightarrow> c) \<and>
          (w_status w = None \<longrightarrow> w_body w = []) \<and>
          (max_body_bytes b \<le> 0 \<or> int (length (w_body w)) \<le> max_body_bytes b)) \<and>
     (overflow b \<longrightarrow> 0 < max_body_bytes b)"

lemma buffers_op: "buffers b w \<Longrightarrow> buffers (buf_op x b) (plain_op x w) \<and> max_body_bytes (buf_op x b) = max_body_bytes b"
proof (cases x)
  case (Op_Write d)
  assume "buffers b w"
  then show ?thesis
    by (cases "w_status w"; cases "flushed b"; cases "buf_body b = []")
       (auto simp: Op_Write buffers_def buf_write_def flush_response_def w_write_def w_write_header_def Let_def)
qed (auto simp: buffers_def buf_write_header_def w_write_header_def split: option.split)

lemma buffers_ops:
  "buffers b w \<Longrightarrow> buffers (fold buf_op xs b) (fold plain_op xs w) \<and> max_body_bytes (fold buf_op xs b) = max_body_bytes b"
proof (induction xs arbitrary: b w)
  case (Cons x xs)
  from buffers_op [OF Cons.prems, of x] Cons.IH show ?case by auto
qed simp

section \<open>Properties\<close>



text \<open>A request that ran its handler to a successful, unflushed response makes every later request
  with the same key and the same body, until the response expires, get exactly that response without
  running the handler, and a request with another body a conflict.\<close>

theorem retry_replays_the_response:
  assumes "idem_wf s" and "claim cd0 t0 key fp owner ttl0 s = (Inr c, s1)" and "acquired c"
    and "idem_finish complete_claim release False t1 key fp owner ttl out s1 = (Flushed, s2)"
    and "\<not> handler_failed out" and "\<not> handler_overflow out"
    and "200 \<le> resp_status (handler_response out)" and "resp_status (handler_response out) < 300"
    and "t2 < t1 + ttl" and "owner' \<noteq> []" and "fp' \<noteq> []" and "0 < ttl'"
  shows "on_claim_answer fp' (fst (claim False t2 key fp' owner' ttl' s2)) =
    (if fp' = fp then Replay (handler_response out) else Problem 409)"
proof -
  have acq: "idem_view s1 key = Some (pending_entry fp owner (t0 + ttl0))" and wf1: "idem_wf s1"
    using mem_claims.claim_acquired [OF assms(1-3)] mem_claims.claim_ok [OF assms(1,2)] by simp_all
  obtain er s3 where co: "complete_claim False t1 key fp owner (handler_response out) ttl s1 = (er, s3)"
    by (meson surj_pair)
  have "er = None" "s2 = s3"
    using assms(4-8) co by (cases er; auto simp: idem_finish_def Let_def split: prod.splits)+
  with mem_claims.complete_ok [OF wf1 co] acq obtain ow'
    where v: "idem_view s2 key =
        Some ((completed_entry (pending_entry fp owner (t0 + ttl0)) (handler_response out) (t1 + ttl))\<lparr>entry_owner := ow'\<rparr>)"
    and wf2: "idem_wf s2" by auto
  have key: "key \<noteq> []"
    using assms(2) by (auto simp: claim_def validate_input_def split: if_splits)
  obtain r s4 where cl: "claim False t2 key fp' owner' ttl' s2 = (r, s4)" by (meson surj_pair)
  have "validate_input False key fp' owner' ttl' = None" using key assms(10-12) by (simp add: validate_input_def)
  then have "\<not> (\<exists>err. r = Inl err)"
    using cl v assms(9) by (auto simp: claim_def Let_def remove_expired(3) [OF wf2] idem_view_def is_expired_def completed_entry_def)
  with mem_claims.claim_live [OF wf2 cl v] assms(9) show ?thesis
    by (simp add: cl on_claim_answer_def memory_claim_def completed_entry_def pending_entry_def)
qed

definition created :: handler_outcome where
  "created = \<lparr>handler_failed = False, handler_overflow = False,
     handler_response = \<lparr>resp_status = 201, resp_header = [], resp_body = ''made''\<rparr>\<rparr>"

theorem retry_replays_the_response_witness:
  "on_claim_answer ''f'' (fst (claim False 50 ''k'' ''f'' ''p'' 30
     (snd (idem_finish complete_claim release False 9 ''k'' ''f'' ''o'' 100 created
        (snd (claim False 1 ''k'' ''f'' ''o'' 30 (new_idem_store 5)))))))
   = Replay \<lparr>resp_status = 201, resp_header = [], resp_body = ''made''\<rparr>"
proof -
  let ?s = "new_idem_store 5"
  have wf: "idem_wf ?s" by (simp add: idem_wf_def new_idem_store_def)
  have cl: "claim False 1 ''k'' ''f'' ''o'' 30 ?s =
      (Inr \<lparr>acquired = True, claim_state = Idem_Pending, claim_fingerprint = ''f'', claim_response = None\<rparr>,
       snd (claim False 1 ''k'' ''f'' ''o'' 30 ?s))" (is "_ = (_, ?s1)")
    by (simp add: claim_def validate_input_def remove_expired_def new_idem_store_def)
  have fin: "idem_finish complete_claim release False 9 ''k'' ''f'' ''o'' 100 created ?s1 =
      (Flushed, snd (idem_finish complete_claim release False 9 ''k'' ''f'' ''o'' 100 created ?s1))"
    by (simp add: idem_finish_def created_def claim_def validate_input_def remove_expired_def new_idem_store_def
        complete_claim_def)
  show ?thesis
    using retry_replays_the_response [OF wf cl _ fin, of 50 "''p''" "''f''" 30] by (simp add: created_def)
qed

text \<open>Whatever a handler writes, the client receives the same status and body through the response
  buffer as without it; the response counts as too large exactly when its body exceeds the bound,
  and unless it does, nothing reaches the client before the middleware has decided.\<close>

theorem response_buffer_is_transparent:
  fixes xs n
  defines "b \<equiv> fold buf_op xs (new_response_buffer \<lparr>w_header = [], w_status = None, w_body = []\<rparr> n)"
    and "w \<equiv> fold plain_op xs \<lparr>w_header = [], w_status = None, w_body = []\<rparr>"
  shows "w_body (buf_writer (flush_response b)) = w_body w \<and>
    w_status (buf_writer (flush_response b)) = Some (case w_status w of None \<Rightarrow> 200 | Some c \<Rightarrow> c) \<and>
    (overflow b \<longleftrightarrow> 0 < n \<and> n < int (length (w_body w))) \<and>
    (overflow b \<or> w_status (buf_writer b) = None \<and> w_body (buf_writer b) = [])"
proof -
  have "buffers (new_response_buffer \<lparr>w_header = [], w_status = None, w_body = []\<rparr> n) \<lparr>w_header = [], w_status = None, w_body = []\<rparr>"
    by (simp add: buffers_def new_response_buffer_def linorder_linear)
  from buffers_ops [OF this, of xs] have inv: "buffers b w" "max_body_bytes b = n"
    by (simp_all add: b_def w_def new_response_buffer_def)
  show ?thesis
  proof (cases "flushed b")
    case True
    then show ?thesis using inv by (auto simp: buffers_def flush_response_def split: option.split)
  next
    case False
    then show ?thesis using inv
      by (cases "buf_body b = []")
         (auto simp: buffers_def flush_response_def Let_def w_write_def w_write_header_def split: option.split)
  qed
qed

end
