(* ===== verification/Rate_Limit.thy ===== *)
theory Rate_Limit
  imports Go_Maps Complex_Main
begin

text \<open>
  \<^verbatim>\<open>middleware/ratelimit.go\<close>: the token buckets per client address, their cleanup and the
  eviction of the least recently used bucket. Times are nanoseconds; the float64 token counts are
  exact rationals, so rounding is not modelled. \<^verbatim>\<open>net.SplitHostPort\<close> is the parameter \<open>split\<close>.
\<close>

record bucket =
  tokens :: rat
  last_update :: int

record limiter_config =
  rate :: rat
  capacity :: rat
  cleanup_interval :: int
  max_clients :: int

record limiter_state =
  buckets :: "(string \<times> bucket) list"
  last_cleanup :: int

definition limiter_defaults :: "limiter_config \<Rightarrow> limiter_config" where
  "limiter_defaults c = c\<lparr>
     rate := (if rate c \<le> 0 then 10 else rate c),
     capacity := (if capacity c \<le> 0 then 20 else capacity c),
     cleanup_interval := (if cleanup_interval c \<le> 0 then 300000000000 else cleanup_interval c),
     max_clients := (if max_clients c \<le> 0 then 100000 else max_clients c)\<rparr>"

definition remote_ip :: "(string \<Rightarrow> string option) \<Rightarrow> string \<Rightarrow> string" where
  "remote_ip split addr =
     (let addr = trim_space addr
      in case split addr of
           Some host \<Rightarrow> host
         | None \<Rightarrow> if addr = [] then ''unknown'' else addr)"

definition remove_inactive :: "int \<Rightarrow> int \<Rightarrow> (string \<times> bucket) list \<Rightarrow> (string \<times> bucket) list" where
  "remove_inactive now interval bs = filter (\<lambda>(ip, b). \<not> interval < now - last_update b) bs"

text \<open>The loop over the map, in the order of the list.\<close>

fun oldest_loop :: "string \<Rightarrow> int \<Rightarrow> (string \<times> bucket) list \<Rightarrow> string" where
  "oldest_loop ip t [] = ip"
| "oldest_loop ip t ((c, b) # bs) =
     (if ip = [] \<or> last_update b < t then oldest_loop c (last_update b) bs else oldest_loop ip t bs)"

definition remove_oldest :: "(string \<times> bucket) list \<Rightarrow> (string \<times> bucket) list" where
  "remove_oldest bs = AList.delete (oldest_loop [] 0 bs) bs"

definition seconds :: "int \<Rightarrow> rat" where
  "seconds d = of_int d / 1000000000"

definition take_token :: "limiter_config \<Rightarrow> int \<Rightarrow> bucket \<Rightarrow> bool \<times> bucket" where
  "take_token c now b =
     (let elapsed = seconds (now - last_update b);
          tk = tokens b + elapsed * rate c;
          tk = (if capacity c < tk then capacity c else tk)
      in if 1 \<le> tk then (True, \<lparr>tokens = tk - 1, last_update = now\<rparr>)
         else (False, \<lparr>tokens = tk, last_update = now\<rparr>))"

text \<open>The handler, with the defaults applied: whether the request passes.\<close>

definition rate_limit :: "limiter_config \<Rightarrow> int \<Rightarrow> string \<Rightarrow> limiter_state \<Rightarrow> bool \<times> limiter_state" where
  "rate_limit c now ip st =
     (let st = (if cleanup_interval c \<le> now - last_cleanup st
                then \<lparr>buckets = remove_inactive now (cleanup_interval c) (buckets st), last_cleanup = now\<rparr> else st)
      in case map_of (buckets st) ip of
           None \<Rightarrow>
             let bs = (if max_clients c \<le> int (length (buckets st)) then remove_oldest (buckets st) else buckets st)
             in (True, st\<lparr>buckets := AList.update ip \<lparr>tokens = capacity c - 1, last_update = now\<rparr> bs\<rparr>)
         | Some b \<Rightarrow>
             let (passed, b) = take_token c now b
             in (passed, st\<lparr>buckets := AList.update ip b (buckets st)\<rparr>))"

fun rate_run :: "limiter_config \<Rightarrow> (int \<times> string) list \<Rightarrow> limiter_state \<Rightarrow> (int \<times> string \<times> bool) list \<times> limiter_state" where
  "rate_run c [] st = ([], st)"
| "rate_run c ((now, ip) # rs) st =
     (let (ok, st) = rate_limit c now ip st; (outs, st) = rate_run c rs st in ((now, ip, ok) # outs, st))"

definition passed :: "string \<Rightarrow> (int \<times> string \<times> bool) list \<Rightarrow> nat" where
  "passed ip outs = length (filter (\<lambda>(now, i, ok). i = ip \<and> ok) outs)"

section \<open>One bucket\<close>




section \<open>Runs without cleanup or eviction\<close>







section \<open>Properties\<close>




definition one_per_hour :: limiter_config where
  "one_per_hour = \<lparr>rate = 1 / 3600, capacity = 2, cleanup_interval = 1000000000, max_clients = 10\<rparr>"

text \<open>The cleanup forgets how much a client has used: a client that pauses for the cleanup
  interval starts again with a full bucket, however slowly the rate would have refilled it.\<close>

theorem cleanup_resets_a_drained_bucket:
  "map (\<lambda>(now, ip, ok). ok) (fst (rate_run one_per_hour
     [(0, ''a''), (0, ''a''), (0, ''a''), (1000000001, ''a''), (1000000001, ''a'')] \<lparr>buckets = [], last_cleanup = 0\<rparr>))
   = [True, True, False, True, True]"
  by code_simp

end
