(* ===== verification/Outbox.thy ===== *)
theory Outbox
  imports Go_Maps Gpp_Prelude
begin

text \<open>
  \<^verbatim>\<open>queue/outbox.go\<close> (and \<^verbatim>\<open>validateKafkaTopic\<close>, \<^verbatim>\<open>truncateKafkaError\<close> of \<^verbatim>\<open>queue/kafka.go\<close>): the
  transactional outbox. The table \<^verbatim>\<open>gpp_outbox\<close> is a list of rows, a committed SQL statement is one
  step on it and a failed or rolled back one leaves it. The clock, the random tokens, the answers of the
  broker and the faults of the database are arguments. Concurrent publishers and crashes are the step
  relation \<open>ob_step\<close>.
\<close>

section \<open>Configuration and table\<close>

record outbox_config =
  batch_size :: int
  poll_interval :: int
  lease_duration :: int
  retry_backoff :: int
  ob_max_attempts :: int

definition outbox_defaults :: "outbox_config \<Rightarrow> outbox_config" where
  "outbox_defaults c =
     \<lparr>batch_size = (if batch_size c \<le> 0 then 100 else batch_size c),
      poll_interval = (if poll_interval c \<le> 0 then 1000000000 else poll_interval c),
      lease_duration = (if lease_duration c \<le> 0 then 30000000000 else lease_duration c),
      retry_backoff = (if retry_backoff c \<le> 0 then 1000000000 else retry_backoff c),
      ob_max_attempts = (if ob_max_attempts c \<le> 0 then 10 else ob_max_attempts c)\<rparr>"

datatype outbox_error =
    Database_Required | Publisher_Required | Unsupported_Dialect string
  | Tx_Required | Invalid_Topic | Payload_Too_Large | Invalid_Message_Id
  | Database_Error | Ob_Ownership_Lost | Publish_Error string

definition new_outbox :: "bool \<Rightarrow> bool \<Rightarrow> string \<Rightarrow> outbox_config \<Rightarrow> outbox_error + outbox_config" where
  "new_outbox has_database has_publisher dialect c =
     (if \<not> has_database then Inl Database_Required
      else if \<not> has_publisher then Inl Publisher_Required
      else if dialect \<noteq> ''postgres'' \<and> dialect \<noteq> ''sqlite'' then Inl (Unsupported_Dialect dialect)
      else Inr (outbox_defaults c))"

record outbox_message =
  msg_id :: string
  msg_topic :: string
  msg_key :: string
  msg_payload :: string
  msg_headers :: "(string \<times> string) list"

record outbox_row =
  message :: outbox_message
  ob_attempts :: int
  available_at :: int
  locked_until :: "int option"
  lock_token :: "string option"
  published_at :: "int option"
  failed_at :: "int option"
  last_error :: "string option"
  created_at :: int

abbreviation row_id :: "outbox_row \<Rightarrow> string" where
  "row_id r \<equiv> msg_id (message r)"

section \<open>Enqueue\<close>

definition topic_char :: "char \<Rightarrow> bool" where
  "topic_char c \<longleftrightarrow> byte_in c 97 122 \<or> byte_in c 65 90 \<or> byte_in c 48 57 \<or> c \<in> {CHR ''.'', CHR ''_'', CHR ''-''}"

definition valid_topic :: "string \<Rightarrow> bool" where
  "valid_topic t \<longleftrightarrow> \<not> (t = [] \<or> 249 < length t \<or> t = ''.'' \<or> t = ''..'') \<and> list_all topic_char t"

definition max_message_bytes :: nat where
  "max_message_bytes = 1048576"

definition valid_message_id :: "string \<Rightarrow> bool" where
  "valid_message_id i \<longleftrightarrow> \<not> (64 < length i \<or> list_ex (\<lambda>c. c \<in> {CHR 0x0D, CHR 0x0A, CHR 0x09, CHR '' ''}) i)"

text \<open>\<open>at\<close> is the requested time, \<open>None\<close> when it is zero; \<open>fresh\<close> a random id. The primary key refuses a
  second row with the same id. Header maps are JSON text in the table and stand for themselves here.\<close>

definition enqueue :: "bool \<Rightarrow> bool \<Rightarrow> int \<Rightarrow> string \<Rightarrow> outbox_message \<Rightarrow> int option \<Rightarrow> outbox_row list \<Rightarrow>
    (outbox_error + string) \<times> outbox_row list" where
  "enqueue has_tx fault now fresh m at rows =
     (if \<not> has_tx then (Inl Tx_Required, rows)
      else if \<not> valid_topic (msg_topic m) then (Inl Invalid_Topic, rows)
      else if max_message_bytes < length (msg_payload m) then (Inl Payload_Too_Large, rows)
      else let m = (if msg_id m = [] then m\<lparr>msg_id := fresh\<rparr> else m)
           in if \<not> valid_message_id (msg_id m) then (Inl Invalid_Message_Id, rows)
              else if fault \<or> list_ex (\<lambda>r. row_id r = msg_id m) rows then (Inl Database_Error, rows)
              else (Inr (msg_id m), rows @
                [\<lparr>message = m, ob_attempts = 0, available_at = (case at of None \<Rightarrow> now | Some t \<Rightarrow> t),
                  locked_until = None, lock_token = None, published_at = None, failed_at = None,
                  last_error = None, created_at = now\<rparr>]))"

section \<open>Claiming a batch\<close>

definition claimable :: "int \<Rightarrow> outbox_row \<Rightarrow> bool" where
  "claimable now r \<longleftrightarrow> published_at r = None \<and> failed_at r = None \<and> available_at r \<le> now \<and>
     (case locked_until r of None \<Rightarrow> True | Some t \<Rightarrow> t < now)"

definition candidates :: "outbox_config \<Rightarrow> int \<Rightarrow> outbox_row list \<Rightarrow> outbox_row list" where
  "candidates c now rows = take (nat (batch_size c)) (sort_key created_at (filter (claimable now) rows))"

definition lock_row :: "int \<Rightarrow> string \<Rightarrow> outbox_row \<Rightarrow> outbox_row" where
  "lock_row until token r = r\<lparr>locked_until := Some until, lock_token := Some token\<rparr>"

definition claim_batch :: "outbox_config \<Rightarrow> bool \<Rightarrow> int \<Rightarrow> string \<Rightarrow> outbox_row list \<Rightarrow>
    outbox_row list option \<times> outbox_row list" where
  "claim_batch c fault now token rows =
     (if fault then (None, rows)
      else let picked = candidates c now rows; until = now + lease_duration c
           in (Some (map (lock_row until token) picked),
               map (\<lambda>r. if row_id r \<in> set (map row_id picked) then lock_row until token r else r) rows))"

section \<open>Marking a message\<close>

definition update_row :: "bool \<Rightarrow> string \<Rightarrow> string \<Rightarrow> (outbox_row \<Rightarrow> outbox_row) \<Rightarrow> outbox_row list \<Rightarrow>
    outbox_error option \<times> outbox_row list" where
  "update_row fault i token f rows =
     (let mine = (\<lambda>r. row_id r = i \<and> lock_token r = Some token)
      in if fault then (Some Database_Error, rows)
         else if length (filter mine rows) \<noteq> 1 then (Some Ob_Ownership_Lost, rows)
         else (None, map (\<lambda>r. if mine r then f r else r) rows))"

definition mark_published :: "bool \<Rightarrow> int \<Rightarrow> string \<Rightarrow> string \<Rightarrow> outbox_row list \<Rightarrow> outbox_error option \<times> outbox_row list" where
  "mark_published fault now i token =
     update_row fault i token (\<lambda>r. r\<lparr>published_at := Some now, locked_until := None, lock_token := None, last_error := None\<rparr>)"

definition truncate_error :: "string \<Rightarrow> string" where
  "truncate_error e = (if 512 < length e then take 512 e else e)"

definition retry_delay :: "outbox_config \<Rightarrow> int \<Rightarrow> int" where
  "retry_delay c n = wrap64 (retry_backoff c * 2 ^ nat (min (n - 1) 8))"

definition mark_failed :: "outbox_config \<Rightarrow> bool \<Rightarrow> int \<Rightarrow> outbox_row \<Rightarrow> string \<Rightarrow> string \<Rightarrow> outbox_row list \<Rightarrow>
    outbox_error option \<times> outbox_row list" where
  "mark_failed c fault now rec token err rows =
     (let n = ob_attempts rec + 1; e = truncate_error err
      in if ob_max_attempts c \<le> n
         then update_row fault (row_id rec) token
           (\<lambda>r. r\<lparr>ob_attempts := n, failed_at := Some now, locked_until := None, lock_token := None, last_error := Some e\<rparr>) rows
         else update_row fault (row_id rec) token
           (\<lambda>r. r\<lparr>ob_attempts := n, available_at := now + retry_delay c n, locked_until := None, lock_token := None,
                 last_error := Some e\<rparr>) rows)"

section \<open>Publishing\<close>

definition outgoing :: "outbox_row \<Rightarrow> outbox_message" where
  "outgoing r = (message r)\<lparr>msg_headers := AList.update ''gpp-outbox-id'' (row_id r) (msg_headers (message r))\<rparr>"

text \<open>What the world does with one claimed message: the broker's error, if any, the time of the mark and
  whether the database fails it.\<close>

record delivery =
  broker_error :: "string option"
  mark_time :: int
  mark_fault :: bool

definition publish_record :: "outbox_config \<Rightarrow> delivery \<Rightarrow> string \<Rightarrow> outbox_row \<Rightarrow> outbox_row list \<Rightarrow>
    outbox_error list \<times> outbox_row list" where
  "publish_record c d token rec rows =
     (case broker_error d of
        None \<Rightarrow>
          let (e, rows) = mark_published (mark_fault d) (mark_time d) (row_id rec) token rows
          in (case e of None \<Rightarrow> ([], rows) | Some e \<Rightarrow> ([e], rows))
      | Some err \<Rightarrow>
          let (e, rows) = mark_failed c (mark_fault d) (mark_time d) rec token err rows
          in (Publish_Error err # (case e of None \<Rightarrow> [] | Some e \<Rightarrow> [e]), rows))"




section \<open>Concurrent publishers\<close>

text \<open>The claim of one publisher: its token, the end of its lease, the message it has sent but not yet
  marked, with the broker's answer, and the messages it has still to send.\<close>

record batch =
  b_token :: string
  b_deadline :: int
  b_sent :: "(outbox_row \<times> string option) option"
  b_left :: "outbox_row list"

record ob_system =
  ob_rows :: "outbox_row list"
  ob_batches :: "batch list"
  ob_tokens :: "string list"
  ob_enqueued :: "outbox_message list"
  ob_log :: "(outbox_message \<times> string option) list"
  ob_now :: int

definition put_batch :: "batch \<Rightarrow> batch list \<Rightarrow> batch list" where
  "put_batch b bs = map (\<lambda>x. if b_token x = b_token b then b else x) bs"

text \<open>Every transaction and every call of the broker is one step; between the call of the broker and the
  mark other publishers may run, and a publisher may stop at any point.\<close>

inductive ob_step :: "outbox_config \<Rightarrow> ob_system \<Rightarrow> ob_system \<Rightarrow> bool" for c where
  ob_enqueue: "ob_now y \<le> t \<Longrightarrow> enqueue True fault t fresh m at (ob_rows y) = (Inr i, rows') \<Longrightarrow>
    ob_step c y (y\<lparr>ob_rows := rows', ob_enqueued := ob_enqueued y @ [m\<lparr>msg_id := i\<rparr>], ob_now := t\<rparr>)"
| ob_claim: "ob_now y \<le> t \<Longrightarrow> token \<notin> set (ob_tokens y) \<Longrightarrow>
    claim_batch c fault t token (ob_rows y) = (Some recs, rows') \<Longrightarrow>
    ob_step c y (y\<lparr>ob_rows := rows', ob_tokens := token # ob_tokens y, ob_now := t, ob_batches :=
      \<lparr>b_token = token, b_deadline = t + lease_duration c, b_sent = None, b_left = recs\<rparr> # ob_batches y\<rparr>)"
| ob_send: "ob_now y \<le> t \<Longrightarrow> b \<in> set (ob_batches y) \<Longrightarrow> b_sent b = None \<Longrightarrow> b_left b = rec # recs \<Longrightarrow>
    ob_step c y (y\<lparr>ob_log := (outgoing rec, answer) # ob_log y, ob_now := t,
      ob_batches := put_batch (b\<lparr>b_sent := Some (rec, answer), b_left := recs\<rparr>) (ob_batches y)\<rparr>)"
| ob_mark: "ob_now y \<le> t \<Longrightarrow> b \<in> set (ob_batches y) \<Longrightarrow> b_sent b = Some (rec, answer) \<Longrightarrow>
    publish_record c \<lparr>broker_error = answer, mark_time = t, mark_fault = fault\<rparr> (b_token b) rec (ob_rows y) = (es, rows') \<Longrightarrow>
    ob_step c y (y\<lparr>ob_rows := rows', ob_now := t, ob_batches := put_batch (b\<lparr>b_sent := None\<rparr>) (ob_batches y)\<rparr>)"
| ob_stop: "ob_step c y (y\<lparr>ob_batches := filter (\<lambda>x. b_token x \<noteq> token) (ob_batches y)\<rparr>)"

inductive ob_reach :: "outbox_config \<Rightarrow> ob_system \<Rightarrow> bool" for c where
  ob_start: "ob_reach c \<lparr>ob_rows = [], ob_batches = [], ob_tokens = [], ob_enqueued = [], ob_log = [], ob_now = t\<rparr>"
| ob_next: "ob_reach c y \<Longrightarrow> ob_step c y y' \<Longrightarrow> ob_reach c y'"

section \<open>The invariant\<close>

definition row_ok :: "outbox_config \<Rightarrow> (outbox_message \<times> string option) list \<Rightarrow> outbox_row \<Rightarrow> bool" where
  "row_ok c log r \<longleftrightarrow>
     (published_at r \<noteq> None \<longrightarrow> (outgoing r, None) \<in> set log \<and> failed_at r = None \<and> lock_token r = None) \<and>
     (failed_at r \<noteq> None \<longrightarrow> ob_attempts r = ob_max_attempts c \<and> lock_token r = None) \<and>
     (published_at r = None \<longrightarrow> failed_at r = None \<longrightarrow> ob_attempts r < ob_max_attempts c) \<and>
     (lock_token r = None \<longleftrightarrow> locked_until r = None)"

definition pending_of :: "batch \<Rightarrow> outbox_row list" where
  "pending_of b = (case b_sent b of None \<Rightarrow> [] | Some (rec, answer) \<Rightarrow> [rec]) @ b_left b"

definition claim_ok :: "int \<Rightarrow> outbox_row list \<Rightarrow> batch \<Rightarrow> outbox_row \<Rightarrow> bool" where
  "claim_ok now rows b rec \<longleftrightarrow> (\<exists>r\<in>set rows. message r = message rec \<and>
     (lock_token r = Some (b_token b) \<longrightarrow> ob_attempts r = ob_attempts rec \<and> locked_until r = Some (b_deadline b)) \<and>
     (now \<le> b_deadline b \<longrightarrow> lock_token r = Some (b_token b)))"

definition batch_ok :: "int \<Rightarrow> outbox_row list \<Rightarrow> (outbox_message \<times> string option) list \<Rightarrow> batch \<Rightarrow> bool" where
  "batch_ok now rows log b \<longleftrightarrow> distinct (map row_id (pending_of b)) \<and>
     (\<forall>rec\<in>set (pending_of b). claim_ok now rows b rec) \<and>
     (\<forall>rec answer. b_sent b = Some (rec, answer) \<longrightarrow> (outgoing rec, answer) \<in> set log)"

definition ob_inv :: "outbox_config \<Rightarrow> ob_system \<Rightarrow> bool" where
  "ob_inv c y \<longleftrightarrow> distinct (map row_id (ob_rows y)) \<and> map message (ob_rows y) = ob_enqueued y \<and>
     (\<forall>r\<in>set (ob_rows y). row_ok c (ob_log y) r) \<and>
     (\<forall>r\<in>set (ob_rows y). \<forall>tk. lock_token r = Some tk \<longrightarrow> tk \<in> set (ob_tokens y)) \<and>
     distinct (map b_token (ob_batches y)) \<and> b_token ` set (ob_batches y) \<subseteq> set (ob_tokens y) \<and>
     (\<forall>b\<in>set (ob_batches y). batch_ok (ob_now y) (ob_rows y) (ob_log y) b)"

lemma outgoing_cong: "message r = message r' \<Longrightarrow> outgoing r = outgoing r'"
  by (simp add: outgoing_def)

lemma row_ok_log: "row_ok c log r \<Longrightarrow> set log \<subseteq> set log' \<Longrightarrow> row_ok c log' r"
  by (auto simp: row_ok_def)

lemma claim_ok_later: "claim_ok now rows b rec \<Longrightarrow> now \<le> t \<Longrightarrow> claim_ok t rows b rec"
  unfolding claim_ok_def by (meson order_trans)

text \<open>A claim survives a change of the table that keeps messages and only touches rows that are not locked
  by it in time.\<close>

lemma claim_ok_map:
  assumes "claim_ok now rows b rec" and "now \<le> t"
    and "\<And>r. r \<in> set rows \<Longrightarrow> message r = message rec \<Longrightarrow> message (f r) = message r \<and>
        (f r = r \<or> lock_token (f r) \<noteq> Some (b_token b) \<and> (t \<le> b_deadline b \<longrightarrow> lock_token r = Some (b_token b) \<longrightarrow> locked_until r = Some (b_deadline b) \<longrightarrow> False))"
  shows "claim_ok t (map f rows) b rec"
proof -
  obtain r where r: "r \<in> set rows" "message r = message rec"
      "lock_token r = Some (b_token b) \<longrightarrow> ob_attempts r = ob_attempts rec \<and> locked_until r = Some (b_deadline b)"
      "now \<le> b_deadline b \<longrightarrow> lock_token r = Some (b_token b)"
    using assms(1) by (auto simp: claim_ok_def)
  show ?thesis
    unfolding claim_ok_def
    using r assms(2) assms(3) [OF r(1,2)] by (intro bexI [of _ "f r"]) auto
qed

lemma batch_ok_mono:
  assumes "batch_ok now rows log b" and "set log \<subseteq> set log'"
    and "\<And>rec. rec \<in> set (pending_of b) \<Longrightarrow> claim_ok now rows b rec \<Longrightarrow> claim_ok t rows' b rec"
  shows "batch_ok t rows' log' b"
  using assms unfolding batch_ok_def by blast

lemma claim_ok_append: "claim_ok now rows b rec \<Longrightarrow> claim_ok now (rows @ rs) b rec"
  by (auto simp: claim_ok_def)

subsection \<open>Enqueue\<close>

lemma enqueue_Inr:
  assumes "enqueue tx fault t fresh m at rows = (Inr i, rows')"
  obtains r where "rows' = rows @ [r]" "message r = m\<lparr>msg_id := i\<rparr>" "i \<notin> row_id ` set rows" "ob_attempts r = 0"
    "lock_token r = None" "locked_until r = None" "published_at r = None" "failed_at r = None"
  using assms by (fastforce simp: enqueue_def Let_def list_ex_iff image_iff split: if_splits)

lemma ob_enqueue_inv:
  assumes "ob_inv c y" and "0 < ob_max_attempts c" and "ob_now y \<le> t"
    and "enqueue True fault t fresh m at (ob_rows y) = (Inr i, rows')"
  shows "ob_inv c (y\<lparr>ob_rows := rows', ob_enqueued := ob_enqueued y @ [m\<lparr>msg_id := i\<rparr>], ob_now := t\<rparr>)"
proof -
  obtain r where r: "rows' = ob_rows y @ [r]" "message r = m\<lparr>msg_id := i\<rparr>" "i \<notin> row_id ` set (ob_rows y)" "ob_attempts r = 0"
    "lock_token r = None" "locked_until r = None" "published_at r = None" "failed_at r = None"
    using enqueue_Inr [OF assms(4)] .
  have "batch_ok t rows' (ob_log y) b" if "b \<in> set (ob_batches y)" for b
    by (rule batch_ok_mono [of "ob_now y" "ob_rows y" "ob_log y"])
      (use assms(1,3) that in \<open>auto simp: ob_inv_def r(1) intro: claim_ok_append claim_ok_later\<close>)
  then show ?thesis
    using assms(1,2) r by (auto simp: ob_inv_def row_ok_def)
qed


subsection \<open>Claim\<close>

lemma set_candidates: "set (candidates c now rows) \<subseteq> {r \<in> set rows. claimable now r}"
proof -
  have "set (candidates c now rows) \<subseteq> set (sort_key created_at (filter (claimable now) rows))"
    unfolding candidates_def by (rule set_take_subset)
  then show ?thesis by auto
qed

lemma distinct_candidates: "distinct (map row_id rows) \<Longrightarrow> distinct (map row_id (candidates c now rows))"
proof -
  assume "distinct (map row_id rows)"
  then have "distinct (map row_id (filter (claimable now) rows))"
    by (induction rows) auto
  then have "distinct (map row_id (sort_key created_at (filter (claimable now) rows)))"
    by (simp add: distinct_map)
  then show ?thesis
    unfolding candidates_def by (metis distinct_take take_map)
qed

lemma same_row: "distinct (map row_id rows) \<Longrightarrow> r \<in> set rows \<Longrightarrow> r' \<in> set rows \<Longrightarrow> row_id r = row_id r' \<Longrightarrow> r = r'"
  by (metis inj_on_def distinct_map)

lemma picked_iff:
  "distinct (map row_id rows) \<Longrightarrow> r \<in> set rows \<Longrightarrow>
     row_id r \<in> set (map row_id (candidates c now rows)) \<longleftrightarrow> r \<in> set (candidates c now rows)"
  using set_candidates [of c now rows] by (auto dest: same_row)

lemma lock_row_simps [simp]:
  "message (lock_row u tk r) = message r" "lock_token (lock_row u tk r) = Some tk"
  "locked_until (lock_row u tk r) = Some u" "published_at (lock_row u tk r) = published_at r"
  "failed_at (lock_row u tk r) = failed_at r" "ob_attempts (lock_row u tk r) = ob_attempts r"
  by (simp_all add: lock_row_def)

lemma claim_batch_Some:
  assumes "claim_batch c fault t token rows = (Some recs, rows')" and "distinct (map row_id rows)"
  shows "recs = map (lock_row (t + lease_duration c) token) (candidates c t rows)"
    and "rows' = map (\<lambda>r. if r \<in> set (candidates c t rows) then lock_row (t + lease_duration c) token r else r) rows"
  using assms picked_iff [OF assms(2)] by (auto simp: claim_batch_def Let_def split: if_splits)

lemma ob_claim_inv:
  assumes inv: "ob_inv c y" and t: "ob_now y \<le> t" and tk: "token \<notin> set (ob_tokens y)"
    and "claim_batch c fault t token (ob_rows y) = (Some recs, rows')"
  shows "ob_inv c (y\<lparr>ob_rows := rows', ob_tokens := token # ob_tokens y, ob_now := t, ob_batches :=
      \<lparr>b_token = token, b_deadline = t + lease_duration c, b_sent = None, b_left = recs\<rparr> # ob_batches y\<rparr>)"
proof -
  let ?picked = "candidates c t (ob_rows y)" and ?lock = "lock_row (t + lease_duration c) token"
  let ?f = "\<lambda>r. if r \<in> set ?picked then ?lock r else r"
  have dist: "distinct (map row_id (ob_rows y))" using inv by (simp add: ob_inv_def)
  note eqs = claim_batch_Some [OF assms(4) dist]
  have old: "batch_ok t rows' (ob_log y) b" if b: "b \<in> set (ob_batches y)" for b
  proof (rule batch_ok_mono [OF _ order_refl])
    show "batch_ok (ob_now y) (ob_rows y) (ob_log y) b" using inv b by (simp add: ob_inv_def)
    have "b_token b \<noteq> token" using inv b tk by (auto simp: ob_inv_def)
    then show "claim_ok t rows' b rec" if "claim_ok (ob_now y) (ob_rows y) b rec" for rec
      unfolding eqs(2) using set_candidates [of c t "ob_rows y"]
      by (intro claim_ok_map [OF that t]) (auto simp: claimable_def)
  qed
  have new: "claim_ok t rows' \<lparr>b_token = token, b_deadline = t + lease_duration c, b_sent = None, b_left = recs\<rparr> rec"
    if "rec \<in> set recs" for rec
  proof -
    obtain r where "r \<in> set ?picked" "rec = ?lock r" using \<open>rec \<in> set recs\<close> eqs(1) by auto
    then show ?thesis
      unfolding claim_ok_def eqs(2) using set_candidates [of c t "ob_rows y"]
      by (intro bexI [of _ "?lock r"]) (auto simp: image_iff)
  qed
  have "row_ok c (ob_log y) (?f r)" if "r \<in> set (ob_rows y)" for r
    using inv that set_candidates [of c t "ob_rows y"] outgoing_cong [of "?lock r" r]
    by (auto simp: ob_inv_def row_ok_def claimable_def)
  moreover have "map message rows' = map message (ob_rows y)" "map row_id rows' = map row_id (ob_rows y)"
    unfolding eqs(2) by simp_all
  moreover have "batch_ok t rows' (ob_log y) \<lparr>b_token = token, b_deadline = t + lease_duration c, b_sent = None, b_left = recs\<rparr>"
    using new distinct_candidates [OF dist, of c t] by (simp add: batch_ok_def pending_of_def eqs(1) comp_def)
  moreover have "set rows' = ?f ` set (ob_rows y)"
    unfolding eqs(2) by simp
  moreover have "lock_token (?f r) = Some tk \<Longrightarrow> tk \<in> insert token (set (ob_tokens y))" if "r \<in> set (ob_rows y)" for r tk
    using inv that by (auto simp: ob_inv_def split: if_splits)
  ultimately show ?thesis
    using inv tk old unfolding ob_inv_def by (auto simp del: if_image_distrib)
qed


subsection \<open>Send and mark\<close>

lemma put_batch_tokens [simp]: "b_token b' = b_token b \<Longrightarrow> map b_token (put_batch b' bs) = map b_token bs"
  by (auto simp: put_batch_def)

lemma set_put_batch:
  "distinct (map b_token bs) \<Longrightarrow> b \<in> set bs \<Longrightarrow> b_token b' = b_token b \<Longrightarrow>
     set (put_batch b' bs) = insert b' (set bs - {b})"
  by (auto simp: put_batch_def distinct_map inj_on_def)

lemma claim_ok_batch: "b_token b' = b_token b \<Longrightarrow> b_deadline b' = b_deadline b \<Longrightarrow> claim_ok now rows b' rec = claim_ok now rows b rec"
  by (simp add: claim_ok_def)

lemma ob_send_inv:
  assumes inv: "ob_inv c y" and t: "ob_now y \<le> t" and b: "b \<in> set (ob_batches y)" "b_sent b = None" "b_left b = rec # recs"
  shows "ob_inv c (y\<lparr>ob_log := (outgoing rec, answer) # ob_log y, ob_now := t,
      ob_batches := put_batch (b\<lparr>b_sent := Some (rec, answer), b_left := recs\<rparr>) (ob_batches y)\<rparr>)"
proof -
  let ?b = "b\<lparr>b_sent := Some (rec, answer), b_left := recs\<rparr>"
  have old: "batch_ok t (ob_rows y) ((outgoing rec, answer) # ob_log y) x" if "x \<in> set (ob_batches y)" for x
    by (rule batch_ok_mono [of "ob_now y" "ob_rows y" "ob_log y"])
      (use inv that t in \<open>auto simp: ob_inv_def intro: claim_ok_later\<close>)
  have "batch_ok t (ob_rows y) ((outgoing rec, answer) # ob_log y) ?b"
    using old [OF b(1)] b(2,3) by (simp add: batch_ok_def pending_of_def claim_ok_batch [of ?b b])
  moreover have "set (put_batch ?b (ob_batches y)) = insert ?b (set (ob_batches y) - {b})"
    using inv b(1) by (intro set_put_batch) (auto simp: ob_inv_def)
  moreover have "map b_token (put_batch ?b (ob_batches y)) = map b_token (ob_batches y)" by simp
  then have "b_token ` set (put_batch ?b (ob_batches y)) = b_token ` set (ob_batches y)"
    by (metis set_map)
  moreover have "row_ok c ((outgoing rec, answer) # ob_log y) r" if "r \<in> set (ob_rows y)" for r
    using inv that by (auto simp: ob_inv_def intro: row_ok_log)
  ultimately show ?thesis using inv old by (simp add: ob_inv_def)
qed

definition marked :: "outbox_config \<Rightarrow> outbox_row \<Rightarrow> string option \<Rightarrow> outbox_row \<Rightarrow> outbox_row \<Rightarrow> bool" where
  "marked c rec answer r r' \<longleftrightarrow> message r' = message r \<and> lock_token r' = None \<and> locked_until r' = None \<and>
     (case answer of
        None \<Rightarrow> published_at r' \<noteq> None \<and> failed_at r' = failed_at r \<and> ob_attempts r' = ob_attempts r
      | Some e \<Rightarrow> published_at r' = published_at r \<and> ob_attempts r' = ob_attempts rec + 1 \<and>
          (if ob_max_attempts c \<le> ob_attempts rec + 1 then failed_at r' \<noteq> None else failed_at r' = failed_at r))"

lemma publish_record_cases:
  assumes "publish_record c d token rec rows = (es, rows')"
  obtains "rows' = rows"
  | g where "rows' = map (\<lambda>r. if row_id r = row_id rec \<and> lock_token r = Some token then g r else r) rows"
      "\<And>r. marked c rec (broker_error d) r (g r)"
proof -
  have upd: "rows' = rows \<or> rows' = map (\<lambda>r. if row_id r = i \<and> lock_token r = Some token then f r else r) rows"
    if "update_row fault i token f rows = (e, rows')" for fault i f e
    using that by (auto simp: update_row_def Let_def split: if_splits)
  show thesis
  proof (cases "broker_error d")
    case None
    then obtain e where "mark_published (mark_fault d) (mark_time d) (row_id rec) token rows = (e, rows')"
      using assms by (auto simp: publish_record_def split: prod.splits option.splits)
    from upd [OF this [unfolded mark_published_def]] that show thesis
      by (fastforce simp: marked_def None)
  next
    case (Some err)
    then obtain e where "mark_failed c (mark_fault d) (mark_time d) rec token err rows = (e, rows')"
      using assms by (auto simp: publish_record_def split: prod.splits option.splits)
    note result = this [unfolded mark_failed_def Let_def]
    show thesis
    proof (cases "ob_max_attempts c \<le> ob_attempts rec + 1")
      case True
      from upd [OF result [unfolded if_P [OF True]]] show thesis
        by (elim disjE, elim that(1), elim that(2)) (simp add: marked_def Some True)
    next
      case False
      from upd [OF result [unfolded if_not_P [OF False]]] show thesis
        by (elim disjE, elim that(1), elim that(2)) (simp add: marked_def Some False)
    qed
  qed
qed

lemma marked_row_ok:
  assumes "marked c rec answer r r'" and "row_ok c log r" and "lock_token r \<noteq> None" and "message r = message rec"
    and "ob_attempts r = ob_attempts rec" and "(outgoing rec, answer) \<in> set log"
  shows "row_ok c log r'"
proof -
  have "outgoing r' = outgoing rec"
    using assms(1,4) by (intro outgoing_cong) (simp add: marked_def)
  then show ?thesis
    using assms by (cases answer) (auto simp: marked_def row_ok_def split: if_splits)
qed


lemma ob_mark_inv:
  assumes inv: "ob_inv c y" and t: "ob_now y \<le> t" and b: "b \<in> set (ob_batches y)" "b_sent b = Some (rec, answer)"
    and "publish_record c \<lparr>broker_error = answer, mark_time = t, mark_fault = fault\<rparr> (b_token b) rec (ob_rows y) = (es, rows')"
  shows "ob_inv c (y\<lparr>ob_rows := rows', ob_now := t, ob_batches := put_batch (b\<lparr>b_sent := None\<rparr>) (ob_batches y)\<rparr>)"
proof -
  obtain g where rows': "rows' = map (\<lambda>r. if row_id r = row_id rec \<and> lock_token r = Some (b_token b) then g r else r) (ob_rows y)"
      (is "_ = map ?f _") and g: "\<And>r. g r = r \<or> marked c rec answer r (g r)"
    using assms(5)
  proof (cases rule: publish_record_cases)
    case 1
    then show thesis using that [of id] by (simp cong: if_cong)
  next
    case (2 g)
    then show thesis using that [of g] by simp
  qed
  have dist: "distinct (map row_id (ob_rows y))" and bok: "batch_ok (ob_now y) (ob_rows y) (ob_log y) b"
    using inv b(1) by (simp_all add: ob_inv_def)
  then have rec: "claim_ok (ob_now y) (ob_rows y) b rec" "(outgoing rec, answer) \<in> set (ob_log y)"
      "\<And>rec'. rec' \<in> set (b_left b) \<Longrightarrow> row_id rec' \<noteq> row_id rec"
    using b(2) by (auto simp: batch_ok_def pending_of_def image_iff)
  have msg: "message (?f r) = message r" for r
    using g [of r] by (auto simp: marked_def)
  have row: "row_ok c (ob_log y) (?f r)" "lock_token (?f r) = Some tk \<Longrightarrow> lock_token r = Some tk" if r: "r \<in> set (ob_rows y)" for r tk
  proof -
    have ok: "row_ok c (ob_log y) r" using inv r by (simp add: ob_inv_def)
    obtain r' where r': "r' \<in> set (ob_rows y)" "message r' = message rec"
        "lock_token r' = Some (b_token b) \<longrightarrow> ob_attempts r' = ob_attempts rec"
      using rec(1) by (auto simp: claim_ok_def)
    have "message r = message rec \<and> ob_attempts r = ob_attempts rec" if "row_id r = row_id rec" "lock_token r = Some (b_token b)"
      using same_row [OF dist r r'(1)] that r'(2,3) by auto
    then show "row_ok c (ob_log y) (?f r)"
      using ok g [of r] marked_row_ok [OF _ ok _ _ _ rec(2)] by auto
    show "lock_token (?f r) = Some tk \<Longrightarrow> lock_token r = Some tk"
      using g [of r] by (auto simp: marked_def split: if_splits)
  qed
  have claims: "claim_ok t rows' x rec'"
    if "claim_ok (ob_now y) (ob_rows y) x rec'" and "b_token x = b_token b \<longrightarrow> row_id rec' \<noteq> row_id rec" for x rec'
    unfolding rows'
  proof (rule claim_ok_map [OF that(1) t])
    fix r :: outbox_row assume "message r = message rec'"
    then show "message (?f r) = message r \<and> (?f r = r \<or> lock_token (?f r) \<noteq> Some (b_token x) \<and>
        (t \<le> b_deadline x \<longrightarrow> lock_token r = Some (b_token x) \<longrightarrow> locked_until r = Some (b_deadline x) \<longrightarrow> False))"
      using that(2) g [of r] msg [of r] by (cases "?f r = r") (auto simp: marked_def split: if_splits)
  qed
  have old: "batch_ok t rows' (ob_log y) x" if x: "x \<in> set (ob_batches y) - {b}" for x
  proof (rule batch_ok_mono [OF _ order_refl])
    show "batch_ok (ob_now y) (ob_rows y) (ob_log y) x" using inv x by (simp add: ob_inv_def)
    have "b_token x \<noteq> b_token b" using inv x b(1) by (auto simp: ob_inv_def distinct_map inj_on_def)
    then show "claim_ok (ob_now y) (ob_rows y) x rec' \<Longrightarrow> claim_ok t rows' x rec'" for rec'
      by (rule_tac claims) simp_all
  qed
  let ?b = "b\<lparr>b_sent := None\<rparr>"
  have new: "batch_ok t rows' (ob_log y) ?b"
    using bok b(2) rec(3) claims
    by (auto simp: batch_ok_def pending_of_def claim_ok_batch [of ?b b])
  have set: "set (put_batch ?b (ob_batches y)) = insert ?b (set (ob_batches y) - {b})"
    using inv b(1) by (intro set_put_batch) (auto simp: ob_inv_def)
  have toks: "map b_token (put_batch ?b (ob_batches y)) = map b_token (ob_batches y)" by simp
  then have toks': "b_token ` set (put_batch ?b (ob_batches y)) = b_token ` set (ob_batches y)"
    by (metis set_map)
  have ids: "map message rows' = map message (ob_rows y)"
    unfolding rows' using msg by (auto simp: comp_def)
  then have "map msg_id (map message rows') = map msg_id (map message (ob_rows y))" by (rule arg_cong)
  then have "map row_id rows' = map row_id (ob_rows y)" by (simp add: comp_def)
  moreover have set_rows: "set rows' = ?f ` set (ob_rows y)" unfolding rows' by simp
  have "\<forall>r\<in>set rows'. row_ok c (ob_log y) r" "\<forall>r\<in>set rows'. \<forall>tk. lock_token r = Some tk \<longrightarrow> tk \<in> set (ob_tokens y)"
  proof -
    show "\<forall>r\<in>set rows'. row_ok c (ob_log y) r"
      unfolding set_rows ball_simps(9) using row(1) by blast
    show "\<forall>r\<in>set rows'. \<forall>tk. lock_token r = Some tk \<longrightarrow> tk \<in> set (ob_tokens y)"
      unfolding set_rows ball_simps(9) using row(2) inv unfolding ob_inv_def by blast
  qed
  ultimately show ?thesis
    using inv old new ids toks toks' by (simp add: ob_inv_def set)
qed

lemma ob_stop_inv: "ob_inv c y \<Longrightarrow> ob_inv c (y\<lparr>ob_batches := filter (\<lambda>x. b_token x \<noteq> token) (ob_batches y)\<rparr>)"
  by (auto simp: ob_inv_def distinct_map_filter)

lemma ob_step_inv: "ob_step c y y' \<Longrightarrow> 0 < ob_max_attempts c \<Longrightarrow> ob_inv c y \<Longrightarrow> ob_inv c y'"
  by (induction rule: ob_step.induct)
    (simp_all add: ob_enqueue_inv ob_claim_inv ob_send_inv ob_mark_inv ob_stop_inv)

lemma ob_reach_inv: "ob_reach c y \<Longrightarrow> 0 < ob_max_attempts c \<Longrightarrow> ob_inv c y"
proof (induction rule: ob_reach.induct)
  case (ob_start t)
  then show ?case by (simp add: ob_inv_def)
qed (blast intro: ob_step_inv)


section \<open>A single publisher with a broker that accepts\<close>

definition unsettled :: "outbox_row \<Rightarrow> bool" where
  "unsettled r \<longleftrightarrow> published_at r = None \<and> failed_at r = None"












section \<open>Properties\<close>

text \<open>C4. The outbox loses nothing: however publishers, crashes, broker and database failures interleave,
  the table holds exactly the messages that were enqueued, and each of them was accepted by the broker, or
  failed after the configured number of attempts, or is claimable again from some time on.\<close>

theorem outbox_loses_no_message:
  assumes "ob_reach (outbox_defaults cfg) y"
  shows "map message (ob_rows y) = ob_enqueued y \<and>
    list_all (\<lambda>r.
      published_at r \<noteq> None \<and> failed_at r = None \<and> (outgoing r, None) \<in> set (ob_log y) \<or>
      published_at r = None \<and> failed_at r \<noteq> None \<and> ob_attempts r = ob_max_attempts (outbox_defaults cfg) \<or>
      unsettled r \<and> ob_attempts r < ob_max_attempts (outbox_defaults cfg) \<and> (\<exists>t. claimable t r)) (ob_rows y)"
proof -
  have inv: "ob_inv (outbox_defaults cfg) y"
    by (rule ob_reach_inv [OF assms]) (simp add: outbox_defaults_def)
  have "\<exists>t. claimable t r" if "unsettled r" for r
    using that by (intro exI [of _ "max (available_at r) (case locked_until r of None \<Rightarrow> 0 | Some u \<Rightarrow> u + 1)"])
      (auto simp: claimable_def unsettled_def split: option.split)
  then show ?thesis
    using inv by (fastforce simp: ob_inv_def row_ok_def list_all_iff unsettled_def)
qed


definition demo_config :: outbox_config where
  "demo_config = \<lparr>batch_size = 0, poll_interval = 0, lease_duration = 10, retry_backoff = 0, ob_max_attempts = 3\<rparr>"

definition demo_message :: outbox_message where
  "demo_message = \<lparr>msg_id = ''m'', msg_topic = ''orders'', msg_key = [], msg_payload = ''x'', msg_headers = []\<rparr>"

definition demo_row :: "int option \<Rightarrow> string option \<Rightarrow> outbox_row" where
  "demo_row until token = \<lparr>message = demo_message, ob_attempts = 0, available_at = 0, locked_until = until,
     lock_token = token, published_at = None, failed_at = None, last_error = None, created_at = 0\<rparr>"

lemma demo_enqueue: "enqueue True False 0 [] demo_message None [] = (Inr ''m'', [demo_row None None])"
  by (simp add: demo_message_def demo_row_def enqueue_def valid_topic_def topic_char_def byte_in_def max_message_bytes_def
      valid_message_id_def)

lemma demo_claim:
  "claimable t (demo_row u tk) \<Longrightarrow> claim_batch (outbox_defaults demo_config) False t token [demo_row u tk] =
     (Some [demo_row (Some (t + 10)) (Some token)], [demo_row (Some (t + 10)) (Some token)])"
  by (simp add: claim_batch_def candidates_def demo_config_def outbox_defaults_def lock_row_def demo_row_def Let_def)

lemma demo_taken_over:
  "ob_reach (outbox_defaults demo_config) \<lparr>ob_rows = [demo_row (Some 21) (Some ''b'')],
     ob_batches = [\<lparr>b_token = ''b'', b_deadline = 21, b_sent = None, b_left = [demo_row (Some 21) (Some ''b'')]\<rparr>,
                   \<lparr>b_token = ''a'', b_deadline = 10, b_sent = None, b_left = [demo_row (Some 10) (Some ''a'')]\<rparr>],
     ob_tokens = [''b'', ''a''], ob_enqueued = [demo_message], ob_log = [], ob_now = 11\<rparr>"
proof -
  let ?c = "outbox_defaults demo_config"
  have lease: "lease_duration ?c = 10" by (simp add: outbox_defaults_def demo_config_def)
  have m: "demo_message\<lparr>msg_id := ''m''\<rparr> = demo_message" by (simp add: demo_message_def)
  have 1: "ob_reach ?c \<lparr>ob_rows = [demo_row None None], ob_batches = [], ob_tokens = [], ob_enqueued = [demo_message], ob_log = [], ob_now = 0\<rparr>"
    using ob_next [OF ob_start [of ?c 0] ob_enqueue [of _ 0 False "[]" demo_message None "''m''"]] demo_enqueue m by simp
  have "claimable 0 (demo_row None None)" "claimable 11 (demo_row (Some 10) (Some ''a''))"
    by (simp_all add: claimable_def demo_row_def)
  note claims = this [THEN demo_claim]
  have 2: "ob_reach ?c \<lparr>ob_rows = [demo_row (Some 10) (Some ''a'')],
     ob_batches = [\<lparr>b_token = ''a'', b_deadline = 10, b_sent = None, b_left = [demo_row (Some 10) (Some ''a'')]\<rparr>],
     ob_tokens = [''a''], ob_enqueued = [demo_message], ob_log = [], ob_now = 0\<rparr>"
    using ob_next [OF 1 ob_claim [of _ 0 "''a''" ?c False]] claims(1) [of "''a''"] by (simp add: lease)
  show ?thesis
    using ob_next [OF 2 ob_claim [of _ 11 "''b''" ?c False]] claims(2) [of "''b''"] by (simp add: lease)
qed

theorem outbox_loses_no_message_witness:
  "unsettled (demo_row (Some 21) (Some ''b'')) \<and> ob_attempts (demo_row (Some 21) (Some ''b'')) < 3 \<and>
    (\<exists>t. claimable t (demo_row (Some 21) (Some ''b'')))"
  using outbox_loses_no_message [OF demo_taken_over]
  by (simp add: outbox_defaults_def demo_config_def demo_row_def)

text \<open>C32. Two publishers hold the same message only when the lease of one is over, and that one cannot
  change the message any more: whatever the broker answered, its mark leaves the table as it is.\<close>

theorem outbox_leases_are_exclusive:
  assumes "ob_reach (outbox_defaults cfg) y" and "b1 \<in> set (ob_batches y)" "b2 \<in> set (ob_batches y)" "b1 \<noteq> b2"
    and "r1 \<in> set (pending_of b1)" "r2 \<in> set (pending_of b2)" "row_id r1 = row_id r2"
    and "ob_now y \<le> b_deadline b2"
  shows "b_deadline b1 < ob_now y \<and>
    (\<forall>d. snd (publish_record (outbox_defaults cfg) d (b_token b1) r1 (ob_rows y)) = ob_rows y)"
proof -
  have inv: "ob_inv (outbox_defaults cfg) y"
    by (rule ob_reach_inv [OF assms(1)]) (simp add: outbox_defaults_def)
  then have dist: "distinct (map row_id (ob_rows y))" and tok: "b_token b1 \<noteq> b_token b2"
    using assms(2-4) by (auto simp: ob_inv_def distinct_map inj_on_def)
  have "claim_ok (ob_now y) (ob_rows y) b1 r1" "claim_ok (ob_now y) (ob_rows y) b2 r2"
    using inv assms(2,3,5,6) by (auto simp: ob_inv_def batch_ok_def)
  then obtain r r' where r: "r \<in> set (ob_rows y)" "row_id r = row_id r1" "ob_now y \<le> b_deadline b1 \<longrightarrow> lock_token r = Some (b_token b1)"
      and r': "r' \<in> set (ob_rows y)" "row_id r' = row_id r2" "lock_token r' = Some (b_token b2)"
    using assms(8) unfolding claim_ok_def by metis
  have same: "x = r'" if "x \<in> set (ob_rows y)" "row_id x = row_id r1" for x
    using same_row [OF dist that(1) r'(1)] that(2) r'(2) assms(7) by simp
  then have "b_deadline b1 < ob_now y"
    using r r'(3) tok by force
  moreover have "filter (\<lambda>r. row_id r = row_id r1 \<and> lock_token r = Some (b_token b1)) (ob_rows y) = []"
    using same r'(3) tok by (force simp: filter_empty_conv)
  then have "update_row fault (row_id r1) (b_token b1) f (ob_rows y) =
      (Some (if fault then Database_Error else Ob_Ownership_Lost), ob_rows y)" for fault f
    by (simp add: update_row_def)
  then have "snd (publish_record (outbox_defaults cfg) d (b_token b1) r1 (ob_rows y)) = ob_rows y" for d
    by (auto simp: publish_record_def mark_published_def mark_failed_def Let_def split: option.split)
  ultimately show ?thesis by simp
qed

theorem outbox_leases_are_exclusive_witness:
  "snd (publish_record (outbox_defaults demo_config) \<lparr>broker_error = None, mark_time = 12, mark_fault = False\<rparr> ''a''
     (demo_row (Some 10) (Some ''a'')) [demo_row (Some 21) (Some ''b'')]) = [demo_row (Some 21) (Some ''b'')]"
  using outbox_leases_are_exclusive [OF demo_taken_over,
      of "\<lparr>b_token = ''a'', b_deadline = 10, b_sent = None, b_left = [demo_row (Some 10) (Some ''a'')]\<rparr>"
         "\<lparr>b_token = ''b'', b_deadline = 21, b_sent = None, b_left = [demo_row (Some 21) (Some ''b'')]\<rparr>"
         "demo_row (Some 10) (Some ''a'')" "demo_row (Some 21) (Some ''b'')"]
  by (simp add: pending_of_def demo_row_def)



text \<open>The delay before the next attempt doubles with every failure from the configured backoff on, and stays
  at 256 times it.\<close>

lemma retry_delay_bounds:
  assumes "0 < retry_backoff c" and "retry_backoff c \<le> 2 ^ 54" and "1 \<le> n"
  shows "retry_backoff c \<le> retry_delay c n \<and> retry_delay c n \<le> 256 * retry_backoff c \<and>
    (n \<le> 8 \<longrightarrow> retry_delay c (n + 1) = 2 * retry_delay c n)"
proof -
  have delay: "retry_delay c k = retry_backoff c * 2 ^ nat (min (k - 1) 8) \<and> (2 :: int) ^ nat (min (k - 1) 8) \<le> 256" for k
  proof -
    have "(2 :: int) ^ nat (min (k - 1) 8) \<le> 2 ^ 8" by (intro power_increasing) auto
    moreover have "retry_backoff c * 2 ^ nat (min (k - 1) 8) \<le> 2 ^ 54 * 256"
      using assms(1,2) calculation by (intro mult_mono) auto
    moreover have "0 \<le> retry_backoff c * 2 ^ nat (min (k - 1) 8)" using assms(1) by simp
    ultimately show ?thesis unfolding retry_delay_def by (subst wrap64_id) (simp_all add: int64_def)
  qed
  moreover have "(1 :: int) \<le> 2 ^ nat (min (n - 1) 8)" by simp
  moreover have "(2 :: int) ^ nat n = 2 * 2 ^ nat (n - 1)"
    using assms(3) by (simp flip: power_Suc add: nat_diff_distrib)
  ultimately show ?thesis
    using delay [of n] delay [of "n + 1"] assms
    by (auto simp: min_def mult_le_cancel_left1)
qed

end
