(* ===== verification/Search_Query.thy ===== *)
theory Search_Query
  imports Go_Strconv Complex_Main
begin

text \<open>
  \<^verbatim>\<open>search/query.go\<close>: schemas, documents, search requests and their validation, and the page cursor.
  Attribute values are JSON values as the decoder gives them, and integers that Go callers pass.
  What Go prints for a value and how it reads a date or rounds an integer to a float is a parameter
  of the model (\<open>go_runtime\<close>).
\<close>

section \<open>Values and schemas\<close>

datatype attr_value = V_Null | V_Bool bool | V_Int int | V_Float rat | V_Text string | V_List "attr_value list"

record go_runtime =
  rt_sprint :: "attr_value \<Rightarrow> string"        \<comment> \<open>\<^verbatim>\<open>fmt.Sprint\<close>\<close>
  rt_type_name :: "attr_value \<Rightarrow> string"     \<comment> \<open>the verb \<^verbatim>\<open>%T\<close>\<close>
  rt_float :: "int \<Rightarrow> rat"                   \<comment> \<open>\<^verbatim>\<open>float64(n)\<close>\<close>
  rt_date :: "string \<Rightarrow> int option"          \<comment> \<open>\<^verbatim>\<open>parseDate\<close> in Unix nanoseconds\<close>
  rt_zero_date :: int                       \<comment> \<open>the zero time\<close>
  rt_lower :: "string \<Rightarrow> string"             \<comment> \<open>\<^verbatim>\<open>strings.ToLower\<close>\<close>

datatype attribute_type =
    Ty_String | Ty_Integer | Ty_Decimal | Ty_Boolean | Ty_Date | Ty_Enum | Ty_Other string

datatype operator =
    Op_Eq | Op_Neq | Op_In | Op_Not_In | Op_Gt | Op_Gte | Op_Lt | Op_Lte | Op_Between | Op_Contains | Op_Exists
  | Op_Other string

datatype facet_mode = Mode_Default | Disjunctive | Conjunctive | Mode_Other string
datatype facet_sort = Facet_Default | By_Count | By_Value | Facet_Sort_Other string
datatype sort_direction = Direction_Default | Ascending | Descending | Direction_Other string

record attribute_def =
  attr_key :: string
  attr_type :: attribute_type
  multi_value :: bool
  filterable :: bool
  facetable :: bool
  searchable :: bool
  sortable :: bool
  enum_values :: "string list"

record schema =
  schema_attrs :: "(string \<times> attribute_def) list"
  allow_unknown :: bool

record search_filter =
  f_field :: string
  f_operator :: operator
  f_value :: attr_value
  mandatory :: bool

record facet_request =
  facet_field :: string
  facet_mode :: facet_mode
  facet_limit :: int
  facet_sort :: facet_sort
  include_missing :: bool

record sort_spec =
  sort_field :: string
  sort_direction :: sort_direction

record search_request =
  sr_query :: string
  sr_filters :: "search_filter list"
  sr_facets :: "facet_request list"
  sr_sort :: "sort_spec list"
  sr_cursor :: string
  sr_limit :: int

record document =
  doc_id :: string
  doc_attrs :: "(string \<times> attr_value) list"

datatype search_error =
    Invalid_Key string | Unsupported_Type string | Enum_Values_Required string | Not_Searchable string
  | Multi_Value_Sortable string | Duplicate_Attribute string | Document_Id_Required | Unknown_Attribute string
  | Not_An_Array string | Unexpected_Array string | Invalid_Value string | Query_Too_Long | Invalid_Limit
  | Too_Complex | Invalid_Cursor | Not_Filterable string | Unsupported_Operator | Range_On_Multi_Value string
  | Invalid_Operator_For string | Contains_Needs_String | Exists_Needs_Bool string | Non_Empty_Array_Required
  | Between_Needs_Two | Not_Facetable string | Duplicate_Facet string | Invalid_Facet_Mode | Invalid_Facet_Limit
  | Invalid_Facet_Sort | Not_Sortable string | Invalid_Sort_Direction

definition max_limit :: int where "max_limit = 100"
definition max_filters :: nat where "max_filters = 20"
definition max_facets :: nat where "max_facets = 10"
definition max_facet_buckets :: int where "max_facet_buckets = 100"
definition max_query_length :: nat where "max_query_length = 512"
definition default_page_size :: int where "default_page_size = 20"
definition default_facet_limit :: int where "default_facet_limit = 20"

text \<open>The regular expression \<^verbatim>\<open>^[A-Za-z][A-Za-z0-9_.-]{0,127}$\<close>.\<close>

definition letter :: "char \<Rightarrow> bool" where
  "letter c \<longleftrightarrow> byte_in c 65 90 \<or> byte_in c 97 122"

definition key_char :: "char \<Rightarrow> bool" where
  "key_char c \<longleftrightarrow> letter c \<or> byte_in c 48 57 \<or> c \<in> {CHR ''_'', CHR ''.'', CHR ''-''}"

definition valid_key :: "string \<Rightarrow> bool" where
  "valid_key k \<longleftrightarrow> (case k of [] \<Rightarrow> False | c # cs \<Rightarrow> letter c \<and> list_all key_char cs \<and> length cs \<le> 127)"

definition validate_definition :: "attribute_def \<Rightarrow> search_error option" where
  "validate_definition d =
     (if \<not> valid_key (attr_key d) then Some (Invalid_Key (attr_key d))
      else if (case attr_type d of Ty_Other _ \<Rightarrow> True | _ \<Rightarrow> False) then Some (Unsupported_Type (attr_key d))
      else if attr_type d = Ty_Enum \<and> enum_values d = [] then Some (Enum_Values_Required (attr_key d))
      else if searchable d \<and> attr_type d \<noteq> Ty_String \<and> attr_type d \<noteq> Ty_Enum then Some (Not_Searchable (attr_key d))
      else if multi_value d \<and> sortable d then Some (Multi_Value_Sortable (attr_key d))
      else None)"

fun new_schema_loop :: "(string \<times> attribute_def) list \<Rightarrow> attribute_def list \<Rightarrow> search_error + schema" where
  "new_schema_loop attrs [] = Inr \<lparr>schema_attrs = attrs, allow_unknown = False\<rparr>"
| "new_schema_loop attrs (d # ds) =
     (case validate_definition d of
        Some e \<Rightarrow> Inl e
      | None \<Rightarrow> if map_of attrs (attr_key d) \<noteq> None then Inl (Duplicate_Attribute (attr_key d))
                else new_schema_loop (attrs @ [(attr_key d, d)]) ds)"

definition new_schema :: "attribute_def list \<Rightarrow> search_error + schema" where
  "new_schema ds = new_schema_loop [] ds"

text \<open>The first error of a loop of checks.\<close>

fun first_error :: "('a \<Rightarrow> 'e option) \<Rightarrow> 'a list \<Rightarrow> 'e option" where
  "first_error f [] = None"
| "first_error f (x # xs) = (case f x of Some e \<Rightarrow> Some e | None \<Rightarrow> first_error f xs)"

lemma first_error_None: "first_error f xs = None \<longleftrightarrow> (\<forall>x\<in>set xs. f x = None)"
  by (induction xs) (auto split: option.split)

lemma first_error_append: "first_error f (xs @ ys) = None \<longleftrightarrow> first_error f xs = None \<and> first_error f ys = None"
  by (auto simp: first_error_None)

section \<open>Validation of values\<close>

definition slice_values :: "attr_value \<Rightarrow> attr_value list option" where
  "slice_values v = (case v of V_List vs \<Rightarrow> Some vs | _ \<Rightarrow> None)"

definition is_integer :: "attr_value \<Rightarrow> bool" where
  "is_integer v = (case v of
     V_Int i \<Rightarrow> True
   | V_Float q \<Rightarrow> q = of_int \<lfloor>q\<rfloor> \<and> - (2 ^ 63) \<le> q \<and> q < 2 ^ 63
   | _ \<Rightarrow> False)"

definition number_value :: "go_runtime \<Rightarrow> attr_value \<Rightarrow> rat option" where
  "number_value rt v = (case v of V_Int i \<Rightarrow> Some (rt_float rt i) | V_Float q \<Rightarrow> Some q | _ \<Rightarrow> None)"

definition is_date :: "go_runtime \<Rightarrow> attr_value \<Rightarrow> bool" where
  "is_date rt v = (case v of V_Text s \<Rightarrow> rt_date rt s \<noteq> None | _ \<Rightarrow> False)"

definition valid_scalar :: "go_runtime \<Rightarrow> attribute_def \<Rightarrow> attr_value \<Rightarrow> bool" where
  "valid_scalar rt d v =
     (case attr_type d of
        Ty_String \<Rightarrow> (case v of V_Text s \<Rightarrow> True | _ \<Rightarrow> False)
      | Ty_Integer \<Rightarrow> is_integer v
      | Ty_Decimal \<Rightarrow> number_value rt v \<noteq> None
      | Ty_Boolean \<Rightarrow> (case v of V_Bool b \<Rightarrow> True | _ \<Rightarrow> False)
      | Ty_Date \<Rightarrow> is_date rt v
      | Ty_Enum \<Rightarrow> (case v of V_Text s \<Rightarrow> s \<in> set (enum_values d) | _ \<Rightarrow> False)
      | Ty_Other _ \<Rightarrow> False)"

definition validate_scalar :: "go_runtime \<Rightarrow> attribute_def \<Rightarrow> attr_value \<Rightarrow> search_error option" where
  "validate_scalar rt d v = (if valid_scalar rt d v then None else Some (Invalid_Value (attr_key d)))"

definition validate_attribute_value :: "go_runtime \<Rightarrow> attribute_def \<Rightarrow> attr_value \<Rightarrow> search_error option" where
  "validate_attribute_value rt d v =
     (if v = V_Null then None
      else if multi_value d
      then (case slice_values v of
          None \<Rightarrow> Some (Not_An_Array (attr_key d))
        | Some vs \<Rightarrow> first_error (validate_scalar rt d) vs)
      else if slice_values v \<noteq> None then Some (Unexpected_Array (attr_key d))
      else validate_scalar rt d v)"

definition validate_document :: "go_runtime \<Rightarrow> schema \<Rightarrow> document \<Rightarrow> search_error option" where
  "validate_document rt s doc =
     (if trim_space (doc_id doc) = [] then Some Document_Id_Required
      else first_error (\<lambda>(key, v).
        (case map_of (schema_attrs s) key of
           None \<Rightarrow> if allow_unknown s then None else Some (Unknown_Attribute key)
         | Some d \<Rightarrow> validate_attribute_value rt d v)) (doc_attrs doc))"

section \<open>Validation of requests\<close>

definition is_range_operator :: "operator \<Rightarrow> bool" where
  "is_range_operator op \<longleftrightarrow> op \<in> {Op_Gt, Op_Gte, Op_Lt, Op_Lte, Op_Between}"

definition valid_operator :: "operator \<Rightarrow> bool" where
  "valid_operator op = (case op of Op_Other _ \<Rightarrow> False | _ \<Rightarrow> True)"

definition validate_filter :: "go_runtime \<Rightarrow> attribute_def \<Rightarrow> search_filter \<Rightarrow> search_error option" where
  "validate_filter rt d f =
     (let op = f_operator f in
      if \<not> valid_operator op then Some Unsupported_Operator
      else if multi_value d \<and> is_range_operator op then Some (Range_On_Multi_Value (f_field f))
      else if is_range_operator op \<and> (attr_type d = Ty_Boolean \<or> attr_type d = Ty_Enum) then Some (Invalid_Operator_For (f_field f))
      else if op = Op_Contains \<and> attr_type d \<noteq> Ty_String then Some Contains_Needs_String
      else if op = Op_Exists
      then (case f_value f of V_Null \<Rightarrow> None | V_Bool _ \<Rightarrow> None | _ \<Rightarrow> Some (Exists_Needs_Bool (f_field f)))
      else if op = Op_In \<or> op = Op_Not_In \<or> op = Op_Between
      then (case slice_values (f_value f) of
          None \<Rightarrow> Some Non_Empty_Array_Required
        | Some vs \<Rightarrow>
            if vs = [] then Some Non_Empty_Array_Required
            else if op = Op_Between \<and> length vs \<noteq> 2 then Some Between_Needs_Two
            else first_error (validate_scalar rt d) vs)
      else validate_scalar rt d (f_value f))"

definition validate_filters :: "go_runtime \<Rightarrow> schema \<Rightarrow> search_filter list \<Rightarrow> search_error option" where
  "validate_filters rt s = first_error (\<lambda>f.
     (case map_of (schema_attrs s) (f_field f) of
        None \<Rightarrow> Some (Not_Filterable (f_field f))
      | Some d \<Rightarrow> if \<not> filterable d then Some (Not_Filterable (f_field f)) else validate_filter rt d f))"

definition facet_defaults :: "facet_request \<Rightarrow> facet_request" where
  "facet_defaults f =
     f\<lparr>facet_mode := (if facet_mode f = Mode_Default then Disjunctive else facet_mode f),
       facet_limit := (if facet_limit f = 0 then default_facet_limit else facet_limit f),
       facet_sort := (if facet_sort f = Facet_Default then By_Count else facet_sort f)\<rparr>"

fun normalize_facets :: "schema \<Rightarrow> string list \<Rightarrow> facet_request list \<Rightarrow> search_error + facet_request list" where
  "normalize_facets s seen [] = Inr []"
| "normalize_facets s seen (f # fs) =
     (if (case map_of (schema_attrs s) (facet_field f) of None \<Rightarrow> True | Some d \<Rightarrow> \<not> facetable d)
      then Inl (Not_Facetable (facet_field f))
      else if facet_field f \<in> set seen then Inl (Duplicate_Facet (facet_field f))
      else let g = facet_defaults f in
        if facet_mode g \<notin> {Disjunctive, Conjunctive} then Inl Invalid_Facet_Mode
        else if facet_limit g < 1 \<or> max_facet_buckets < facet_limit g then Inl Invalid_Facet_Limit
        else if facet_sort g \<notin> {By_Count, By_Value} then Inl Invalid_Facet_Sort
        else (case normalize_facets s (facet_field f # seen) fs of
            Inl e \<Rightarrow> Inl e
          | Inr gs \<Rightarrow> Inr (g # gs)))"

definition sort_defaults :: "sort_spec \<Rightarrow> sort_spec" where
  "sort_defaults x = x\<lparr>sort_direction := (if sort_direction x = Direction_Default then Ascending else sort_direction x)\<rparr>"

fun normalize_sort :: "schema \<Rightarrow> sort_spec list \<Rightarrow> search_error + sort_spec list" where
  "normalize_sort s [] = Inr []"
| "normalize_sort s (x # xs) =
     (if (case map_of (schema_attrs s) (sort_field x) of None \<Rightarrow> True | Some d \<Rightarrow> \<not> sortable d)
      then Inl (Not_Sortable (sort_field x))
      else let y = sort_defaults x in
        if sort_direction y \<notin> {Ascending, Descending} then Inl Invalid_Sort_Direction
        else (case normalize_sort s xs of Inl e \<Rightarrow> Inl e | Inr ys \<Rightarrow> Inr (y # ys)))"

section \<open>Cursors\<close>

definition encode_cursor :: "int \<Rightarrow> string" where
  "encode_cursor offset = (if offset \<le> 0 then [] else b64_encode (''v1:'' @ itoa offset))"

definition decode_cursor :: "string \<Rightarrow> search_error + int" where
  "decode_cursor cursor =
     (if cursor = [] then Inr 0
      else (case b64_decode cursor of
          None \<Rightarrow> Inl Invalid_Cursor
        | Some decoded \<Rightarrow>
            if \<not> has_prefix decoded ''v1:'' then Inl Invalid_Cursor
            else (case atoi (trim_prefix decoded ''v1:'') of
                None \<Rightarrow> Inl Invalid_Cursor
              | Some offset \<Rightarrow> if offset < 0 then Inl Invalid_Cursor else Inr offset)))"

section \<open>Normalising a request\<close>

definition normalize_request :: "go_runtime \<Rightarrow> schema \<Rightarrow> search_request \<Rightarrow> search_error + search_request" where
  "normalize_request rt s r =
     (let q = trim_space (sr_query r); limit = (if sr_limit r = 0 then default_page_size else sr_limit r) in
      if max_query_length < length q then Inl Query_Too_Long
      else if limit < 1 \<or> max_limit < limit then Inl Invalid_Limit
      else if max_filters < length (sr_filters r) \<or> max_facets < length (sr_facets r) then Inl Too_Complex
      else (case decode_cursor (sr_cursor r) of
        Inl e \<Rightarrow> Inl e
      | Inr offset \<Rightarrow>
          (case validate_filters rt s (sr_filters r) of
             Some e \<Rightarrow> Inl e
           | None \<Rightarrow>
               (case normalize_facets s [] (sr_facets r) of
                  Inl e \<Rightarrow> Inl e
                | Inr facets \<Rightarrow>
                    (case normalize_sort s (sr_sort r) of
                       Inl e \<Rightarrow> Inl e
                     | Inr sorts \<Rightarrow>
                         Inr (r\<lparr>sr_query := q, sr_limit := limit, sr_facets := facets, sr_sort := sorts\<rparr>))))))"


section \<open>Facts on normalised requests\<close>

lemma has_prefix_v1: "has_prefix (''v1:'' @ s) ''v1:''" "trim_prefix (''v1:'' @ s) ''v1:'' = s"
  by (simp_all only: has_prefix_append trim_prefix_append)

lemma decode_encode_cursor:
  assumes "0 \<le> n" and "int64 n"
  shows "decode_cursor (encode_cursor n) = Inr n"
proof (cases "n = 0")
  case True
  then show ?thesis by (simp add: encode_cursor_def decode_cursor_def)
next
  case False
  have "b64_encode (''v1:'' @ itoa n) \<noteq> []"
    using b64_decode_encode [OF b64_alphabets_ok(1), of False "''v1:'' @ itoa n"] by (auto simp: b64_decode_in_def)
  then show ?thesis
    using assms False atoi_itoa [OF assms(2)] b64_decode_encode [OF b64_alphabets_ok(1), of False "''v1:'' @ itoa n"] has_prefix_v1 [of "itoa n"]
    by (simp add: encode_cursor_def decode_cursor_def)
qed

lemma dropWhile_rev_dropWhile: "dropWhile P (rev (dropWhile P (rev (dropWhile P xs)))) = rev (dropWhile P (rev (dropWhile P xs)))"
proof -
  show ?thesis
  proof (cases "rev (dropWhile P (rev (dropWhile P xs)))")
    case (Cons y ys)
    obtain zs where "dropWhile P xs = rev (dropWhile P (rev (dropWhile P xs))) @ zs"
      by (metis rev_append rev_rev_ident takeWhile_dropWhile_id)
    then have "hd (dropWhile P xs) = y" "dropWhile P xs \<noteq> []" using Cons by auto
    then have "\<not> P y" using hd_dropWhile by metis
    then show ?thesis by (simp add: Cons)
  next
    case Nil
    then show ?thesis by (simp only: Nil dropWhile.simps)
  qed
qed

lemma trim_space_idem [simp]: "trim_space (trim_space s) = trim_space s"
  unfolding trim_space_def using dropWhile_rev_dropWhile [of is_space s]
  by (metis (no_types, lifting) dropWhile_idem rev_rev_ident)

lemma facet_defaults_simps [simp]:
  "facet_field (facet_defaults f) = facet_field f" "facet_defaults (facet_defaults f) = facet_defaults f"
  by (simp_all add: facet_defaults_def default_facet_limit_def)

lemma sort_defaults_simps [simp]:
  "sort_field (sort_defaults x) = sort_field x" "sort_defaults (sort_defaults x) = sort_defaults x"
  by (simp_all add: sort_defaults_def)

lemma normalize_facets_idem:
  "normalize_facets s seen fs = Inr gs \<Longrightarrow> normalize_facets s seen gs = Inr gs \<and> length gs = length fs"
  by (induction s seen fs arbitrary: gs rule: normalize_facets.induct)
    (auto simp: Let_def split: if_splits sum.splits option.splits)

lemma normalize_facets_ok:
  "normalize_facets s seen fs = Inr gs \<Longrightarrow> g \<in> set gs \<Longrightarrow>
     (\<exists>d. map_of (schema_attrs s) (facet_field g) = Some d \<and> facetable d) \<and> facet_mode g \<in> {Disjunctive, Conjunctive} \<and>
     1 \<le> facet_limit g \<and> facet_limit g \<le> max_facet_buckets"
  by (induction s seen fs arbitrary: gs rule: normalize_facets.induct)
    (auto simp: Let_def split: if_splits sum.splits option.splits)

lemma normalize_facets_fields:
  "normalize_facets s seen fs = Inr gs \<Longrightarrow> map facet_field gs = map facet_field fs"
  by (induction s seen fs arbitrary: gs rule: normalize_facets.induct)
    (auto simp: Let_def split: if_splits sum.splits option.splits)

lemma normalize_sort_idem: "normalize_sort s xs = Inr ys \<Longrightarrow> normalize_sort s ys = Inr ys"
  by (induction s xs arbitrary: ys rule: normalize_sort.induct)
    (auto simp: Let_def split: if_splits sum.splits option.splits)

lemma normalize_sort_ok:
  "normalize_sort s xs = Inr ys \<Longrightarrow> y \<in> set ys \<Longrightarrow>
     (\<exists>d. map_of (schema_attrs s) (sort_field y) = Some d \<and> sortable d) \<and> sort_direction y \<in> {Ascending, Descending}"
  by (induction s xs arbitrary: ys rule: normalize_sort.induct)
    (auto simp: Let_def split: if_splits sum.splits option.splits)

lemma normalize_request_Inr:
  assumes "normalize_request rt s r = Inr r'"
  obtains offset facets sorts where
    "r' = r\<lparr>sr_query := trim_space (sr_query r), sr_limit := (if sr_limit r = 0 then default_page_size else sr_limit r),
            sr_facets := facets, sr_sort := sorts\<rparr>"
    "length (trim_space (sr_query r)) \<le> max_query_length" "1 \<le> sr_limit r'" "sr_limit r' \<le> max_limit"
    "length (sr_filters r) \<le> max_filters" "length (sr_facets r) \<le> max_facets"
    "decode_cursor (sr_cursor r) = Inr offset" "validate_filters rt s (sr_filters r) = None"
    "normalize_facets s [] (sr_facets r) = Inr facets" "normalize_sort s (sr_sort r) = Inr sorts"
  using assms unfolding normalize_request_def Let_def
  by (auto split: if_split_asm sum.splits option.splits)


lemma normalize_request_again:
  assumes "normalize_request rt s r = Inr r'" and "validate_filters rt s fs = None"
    and "length (sr_filters r) + length fs \<le> max_filters"
  shows "normalize_request rt s (r'\<lparr>sr_filters := sr_filters r' @ fs\<rparr>) = Inr (r'\<lparr>sr_filters := sr_filters r' @ fs\<rparr>)"
proof -
  obtain offset facets sorts where r': "r' = r\<lparr>sr_query := trim_space (sr_query r),
        sr_limit := (if sr_limit r = 0 then default_page_size else sr_limit r), sr_facets := facets, sr_sort := sorts\<rparr>"
      and ok: "length (trim_space (sr_query r)) \<le> max_query_length" "1 \<le> sr_limit r'" "sr_limit r' \<le> max_limit"
        "length (sr_facets r) \<le> max_facets" "decode_cursor (sr_cursor r) = Inr offset"
        "validate_filters rt s (sr_filters r) = None"
        "normalize_facets s [] (sr_facets r) = Inr facets" "normalize_sort s (sr_sort r) = Inr sorts"
    using normalize_request_Inr [OF assms(1)] by metis
  have "validate_filters rt s (sr_filters r @ fs) = None"
    using ok(6) assms(2) by (simp add: validate_filters_def first_error_append)
  moreover have "sr_limit r' \<noteq> 0" using ok(2) by simp
  ultimately show ?thesis
    using ok normalize_facets_idem [OF ok(7)] normalize_sort_idem [OF ok(8)] assms(3)
    unfolding normalize_request_def r' by (simp add: Let_def)
qed


lemma normalize_request_keeps:
  assumes "normalize_request rt s r = Inr r'"
  shows "sr_filters r' = sr_filters r" "map facet_field (sr_facets r') = map facet_field (sr_facets r)"
    "sr_cursor r' = sr_cursor r"
  by (rule normalize_request_Inr [OF assms], simp add: normalize_facets_fields)+

lemma normalize_request_limit:
  assumes "normalize_request rt s r = Inr r'"
  shows "1 \<le> sr_limit r'" "sr_limit r' \<le> 100"
  by (rule normalize_request_Inr [OF assms], simp add: max_limit_def)+


section \<open>Properties\<close>

definition operands :: "search_filter \<Rightarrow> attr_value list" where
  "operands f =
     (if f_operator f = Op_Exists then []
      else if f_operator f \<in> {Op_In, Op_Not_In, Op_Between} then (case slice_values (f_value f) of None \<Rightarrow> [] | Some vs \<Rightarrow> vs)
      else [f_value f])"

text \<open>C37. A normalised request is well typed: its filters, facets and sort fields are declared for that
  use, every operand of a filter has the declared type of its attribute, a range has two bounds, and the
  sizes are within their limits. Normalising it again changes nothing.\<close>

theorem normalized_requests_are_well_typed:
  assumes "normalize_request rt s r = Inr r'"
  shows "normalize_request rt s r' = Inr r' \<and> 1 \<le> sr_limit r' \<and> sr_limit r' \<le> 100 \<and> length (sr_filters r') \<le> 20 \<and>
    list_all (\<lambda>f. \<exists>d. map_of (schema_attrs s) (f_field f) = Some d \<and> filterable d \<and>
      list_all (valid_scalar rt d) (operands f) \<and> (f_operator f \<noteq> Op_Between \<or> length (operands f) = 2)) (sr_filters r') \<and>
    list_all (\<lambda>g. \<exists>d. map_of (schema_attrs s) (facet_field g) = Some d \<and> facetable d) (sr_facets r') \<and>
    list_all (\<lambda>x. \<exists>d. map_of (schema_attrs s) (sort_field x) = Some d \<and> sortable d) (sr_sort r')"
proof -
  obtain offset facets sorts where r': "r' = r\<lparr>sr_query := trim_space (sr_query r),
        sr_limit := (if sr_limit r = 0 then default_page_size else sr_limit r), sr_facets := facets, sr_sort := sorts\<rparr>"
      and ok: "length (sr_filters r) \<le> max_filters" "validate_filters rt s (sr_filters r) = None"
        "normalize_facets s [] (sr_facets r) = Inr facets" "normalize_sort s (sr_sort r) = Inr sorts"
    using normalize_request_Inr [OF assms] by metis
  have "\<exists>d. map_of (schema_attrs s) (f_field f) = Some d \<and> filterable d \<and>
      list_all (valid_scalar rt d) (operands f) \<and> (f_operator f \<noteq> Op_Between \<or> length (operands f) = 2)"
    if "f \<in> set (sr_filters r')" for f
  proof -
    have "(case map_of (schema_attrs s) (f_field f) of None \<Rightarrow> Some (Not_Filterable (f_field f))
      | Some d \<Rightarrow> if \<not> filterable d then Some (Not_Filterable (f_field f)) else validate_filter rt d f) = None"
      using ok(2) that by (simp add: validate_filters_def first_error_None r')
    then obtain d where d: "map_of (schema_attrs s) (f_field f) = Some d" "filterable d" "validate_filter rt d f = None"
      by (auto split: option.splits if_splits)
    then have "list_all (valid_scalar rt d) (operands f) \<and> (f_operator f \<noteq> Op_Between \<or> length (operands f) = 2)"
      by (auto simp: validate_filter_def operands_def Let_def validate_scalar_def list_all_iff first_error_None
          split: if_splits option.splits)
    then show ?thesis using d by blast
  qed
  moreover have "normalize_request rt s r' = Inr r'"
    using normalize_request_again [OF assms, of "[]"] ok(1) by (simp add: validate_filters_def)
  moreover have "length (sr_filters r') \<le> 20" using ok(1) by (simp add: r' max_filters_def)
  moreover have "sr_facets r' = facets" "sr_sort r' = sorts" by (simp_all add: r')
  ultimately show ?thesis
    using normalize_request_limit [OF assms] normalize_facets_ok [OF ok(3)] normalize_sort_ok [OF ok(4)]
    unfolding list_all_iff by blast
qed

theorem normalized_requests_are_well_typed_witness:
  "normalize_request \<lparr>rt_sprint = \<lambda>v. [], rt_type_name = \<lambda>v. [], rt_float = of_int, rt_date = \<lambda>d. None, rt_zero_date = 0, rt_lower = id\<rparr>
     \<lparr>schema_attrs = [], allow_unknown = False\<rparr>
     \<lparr>sr_query = ''a'', sr_filters = [], sr_facets = [], sr_sort = [], sr_cursor = [], sr_limit = 20\<rparr> =
   Inr \<lparr>sr_query = ''a'', sr_filters = [], sr_facets = [], sr_sort = [], sr_cursor = [], sr_limit = 20\<rparr>"
  using normalized_requests_are_well_typed [of "\<lparr>rt_sprint = \<lambda>v. [], rt_type_name = \<lambda>v. [], rt_float = of_int, rt_date = \<lambda>d. None, rt_zero_date = 0, rt_lower = id\<rparr>"
      "\<lparr>schema_attrs = [], allow_unknown = False\<rparr>"
      "\<lparr>sr_query = '' a '', sr_filters = [], sr_facets = [], sr_sort = [], sr_cursor = [], sr_limit = 0\<rparr>"
      "\<lparr>sr_query = ''a'', sr_filters = [], sr_facets = [], sr_sort = [], sr_cursor = [], sr_limit = 20\<rparr>"]
  by (simp add: normalize_request_def decode_cursor_def validate_filters_def max_query_length_def max_limit_def max_filters_def
      max_facets_def default_page_size_def trim_space_def is_space_def)

text \<open>A page cursor written for an offset is read back as that offset, and no cursor that a client
  makes up is read as a negative one.\<close>

theorem cursor_round_trip:
  assumes "0 \<le> n" and "n < 2 ^ 63"
  shows "decode_cursor (encode_cursor n) = Inr n \<and> (\<forall>cursor m. decode_cursor cursor = Inr m \<longrightarrow> 0 \<le> m)"
proof -
  have "0 \<le> m" if "decode_cursor cursor = Inr m" for cursor m
    using that by (auto simp: decode_cursor_def split: if_splits option.splits)
  moreover have "decode_cursor (encode_cursor n) = Inr n"
    using assms by (intro decode_encode_cursor) (simp_all add: int64_def)
  ultimately show ?thesis by blast
qed

theorem cursor_round_trip_witness: "decode_cursor (encode_cursor 40) = Inr 40"
  using cursor_round_trip [of 40] by simp

end
