(* ===== verification/Search_Memory.thy ===== *)
theory Search_Memory
  imports Search_Query Go_Maps "HOL-Library.Multiset"
begin

text \<open>
  \<^verbatim>\<open>search/memory.go\<close>: the in-memory backend. Documents are keyed by resource and id; the order in
  which Go walks its maps is the order of the list here, and the theorems show that no answer depends on it.
  A search checks its context before every document it looks at: \<open>ctx k\<close> tells whether it is done at the
  \<open>k\<close>-th check.
\<close>

section \<open>The store\<close>

type_synonym backend = "(string \<times> (string \<times> document) list) list"

fun clone_value :: "go_runtime \<Rightarrow> attr_value \<Rightarrow> attr_value" where
  "clone_value rt (V_Int i) = V_Float (rt_float rt i)"
| "clone_value rt (V_List vs) = V_List (map (clone_value rt) vs)"
| "clone_value rt v = v"

definition clone_document :: "go_runtime \<Rightarrow> document \<Rightarrow> document" where
  "clone_document rt d = d\<lparr>doc_attrs := map (\<lambda>(k, v). (k, clone_value rt v)) (doc_attrs d)\<rparr>"

definition backend_docs :: "backend \<Rightarrow> string \<Rightarrow> (string \<times> document) list" where
  "backend_docs b resource = (case map_of b resource of None \<Rightarrow> [] | Some ds \<Rightarrow> ds)"

definition index_document :: "go_runtime \<Rightarrow> string \<Rightarrow> document \<Rightarrow> backend \<Rightarrow> backend" where
  "index_document rt resource d b =
     AList.update resource (AList.update (doc_id d) (clone_document rt d) (backend_docs b resource)) b"

definition delete_document :: "string \<Rightarrow> string \<Rightarrow> backend \<Rightarrow> backend" where
  "delete_document resource i b =
     (case map_of b resource of
        None \<Rightarrow> b
      | Some ds \<Rightarrow> AList.update resource (AList.delete i ds) b)"

definition snapshot :: "go_runtime \<Rightarrow> backend \<Rightarrow> string \<Rightarrow> document list" where
  "snapshot rt b resource = map (\<lambda>(i, d). clone_document rt d) (backend_docs b resource)"

section \<open>Comparing values\<close>

definition compare_ordered :: "('a \<Rightarrow> 'a \<Rightarrow> bool) \<Rightarrow> 'a \<Rightarrow> 'a \<Rightarrow> int" where
  "compare_ordered lt l r = (if lt l r then -1 else if lt r l then 1 else 0)"

definition number_or_zero :: "go_runtime \<Rightarrow> attr_value \<Rightarrow> rat" where
  "number_or_zero rt v = (case number_value rt v of None \<Rightarrow> 0 | Some q \<Rightarrow> q)"

definition date_value :: "go_runtime \<Rightarrow> attr_value \<Rightarrow> int" where
  "date_value rt v = (case rt_date rt (rt_sprint rt v) of None \<Rightarrow> rt_zero_date rt | Some t \<Rightarrow> t)"

definition compare_value :: "go_runtime \<Rightarrow> attribute_type \<Rightarrow> attr_value \<Rightarrow> attr_value \<Rightarrow> int" where
  "compare_value rt ty l r =
     (if ty = Ty_Integer \<or> ty = Ty_Decimal then compare_ordered (<) (number_or_zero rt l) (number_or_zero rt r)
      else if ty = Ty_Boolean then compare_ordered str_lt (rt_sprint rt l) (rt_sprint rt r)
      else if ty = Ty_Date then compare_ordered (<) (date_value rt l) (date_value rt r)
      else compare_ordered str_lt (rt_sprint rt l) (rt_sprint rt r))"

definition attribute_values :: "attr_value \<Rightarrow> attr_value list" where
  "attribute_values v = (case slice_values v of Some vs \<Rightarrow> vs | None \<Rightarrow> if v = V_Null then [] else [v])"

text \<open>The zero definition stands for a field the schema does not know.\<close>

definition type_of_field :: "schema \<Rightarrow> string \<Rightarrow> attribute_type" where
  "type_of_field s key = (case map_of (schema_attrs s) key of None \<Rightarrow> Ty_Other [] | Some d \<Rightarrow> attr_type d)"

section \<open>Matching\<close>

definition match_range :: "go_runtime \<Rightarrow> attr_value \<Rightarrow> attribute_type \<Rightarrow> search_filter \<Rightarrow> bool" where
  "match_range rt v ty f =
     (let c = compare_value rt ty v (f_value f) in
      case f_operator f of Op_Gt \<Rightarrow> 0 < c | Op_Gte \<Rightarrow> 0 \<le> c | Op_Lt \<Rightarrow> c < 0 | Op_Lte \<Rightarrow> c \<le> 0 | _ \<Rightarrow> False)"

definition contains_value :: "go_runtime \<Rightarrow> attr_value \<Rightarrow> attr_value \<Rightarrow> bool" where
  "contains_value rt x v = contains_str (rt_lower rt (rt_sprint rt x)) (rt_lower rt (rt_sprint rt v))"

text \<open>Two bounds are guaranteed by the validation of the request; without them Go panics.\<close>

definition match_filter :: "go_runtime \<Rightarrow> attr_value option \<Rightarrow> attribute_type \<Rightarrow> search_filter \<Rightarrow> bool" where
  "match_filter rt field ty f =
     (if f_operator f = Op_Exists
      then (field \<noteq> None) = (case f_value f of V_Bool b \<Rightarrow> b | _ \<Rightarrow> True)
      else (case field of
          None \<Rightarrow> f_operator f = Op_Neq \<or> f_operator f = Op_Not_In
        | Some v \<Rightarrow>
            let vs = attribute_values v; eq = (\<lambda>x y. compare_value rt ty x y = 0) in
            (case f_operator f of
               Op_Eq \<Rightarrow> list_ex (\<lambda>x. eq x (f_value f)) vs
             | Op_Neq \<Rightarrow> \<not> list_ex (\<lambda>x. eq x (f_value f)) vs
             | Op_In \<Rightarrow> list_ex (\<lambda>x. list_ex (eq x) (case slice_values (f_value f) of None \<Rightarrow> [] | Some cs \<Rightarrow> cs)) vs
             | Op_Not_In \<Rightarrow> \<not> list_ex (\<lambda>x. list_ex (eq x) (case slice_values (f_value f) of None \<Rightarrow> [] | Some cs \<Rightarrow> cs)) vs
             | Op_Contains \<Rightarrow> list_ex (\<lambda>x. contains_value rt x (f_value f)) vs
             | Op_Between \<Rightarrow>
                 (case slice_values (f_value f) of
                    Some (lo # hi # _) \<Rightarrow> 0 \<le> compare_value rt ty v lo \<and> compare_value rt ty v hi \<le> 0
                  | _ \<Rightarrow> False)
             | _ \<Rightarrow> match_range rt v ty f)))"

definition match_filters :: "go_runtime \<Rightarrow> document \<Rightarrow> schema \<Rightarrow> search_filter list \<Rightarrow> bool" where
  "match_filters rt d s fs =
     list_all (\<lambda>f. match_filter rt (map_of (doc_attrs d) (f_field f)) (type_of_field s (f_field f)) f) fs"

definition field_or_null :: "document \<Rightarrow> string \<Rightarrow> attr_value" where
  "field_or_null d key = (case map_of (doc_attrs d) key of None \<Rightarrow> V_Null | Some v \<Rightarrow> v)"

text \<open>The score counts the values that contain the query; \<open>None\<close> is no match.\<close>

definition query_score :: "go_runtime \<Rightarrow> document \<Rightarrow> schema \<Rightarrow> string \<Rightarrow> nat" where
  "query_score rt d s query =
     sum_list (map (\<lambda>(key, def). if \<not> searchable def then 0
       else length (filter (\<lambda>v. contains_str (rt_lower rt (rt_sprint rt v)) (rt_lower rt query))
              (attribute_values (field_or_null d key)))) (schema_attrs s))"

definition match_query :: "go_runtime \<Rightarrow> document \<Rightarrow> schema \<Rightarrow> string \<Rightarrow> nat option" where
  "match_query rt d s query =
     (if query = [] then Some 0
      else let score = query_score rt d s query in if 0 < score then Some score else None)"

fun filter_documents :: "go_runtime \<Rightarrow> (nat \<Rightarrow> bool) \<Rightarrow> nat \<Rightarrow> schema \<Rightarrow> string \<Rightarrow> search_filter list \<Rightarrow> document list \<Rightarrow>
    (document \<times> nat) list option" where
  "filter_documents rt ctx k s query fs [] = Some []"
| "filter_documents rt ctx k s query fs (d # ds) =
     (if ctx k then None
      else (case filter_documents rt ctx (Suc k) s query fs ds of
          None \<Rightarrow> None
        | Some ms \<Rightarrow>
            (case match_query rt d s query of
               None \<Rightarrow> Some ms
             | Some score \<Rightarrow> Some (if match_filters rt d s fs then (d, score) # ms else ms))))"

section \<open>Sorting and paging\<close>

fun insert_by :: "('a \<Rightarrow> 'a \<Rightarrow> int) \<Rightarrow> 'a \<Rightarrow> 'a list \<Rightarrow> 'a list" where
  "insert_by c x [] = [x]"
| "insert_by c x (y # ys) = (if c x y \<le> 0 then x # y # ys else y # insert_by c x ys)"

definition sort_by :: "('a \<Rightarrow> 'a \<Rightarrow> int) \<Rightarrow> 'a list \<Rightarrow> 'a list" where
  "sort_by c xs = foldr (insert_by c) xs []"

fun compare_sorts :: "go_runtime \<Rightarrow> schema \<Rightarrow> sort_spec list \<Rightarrow> document \<Rightarrow> document \<Rightarrow> int" where
  "compare_sorts rt s [] l r = 0"
| "compare_sorts rt s (x # xs) l r =
     (let lv = field_or_null l (sort_field x); rv = field_or_null r (sort_field x) in
      if (lv \<noteq> V_Null) \<noteq> (rv \<noteq> V_Null) then (if lv \<noteq> V_Null then -1 else 1)
      else let c = compare_value rt (type_of_field s (sort_field x)) lv rv in
        if c \<noteq> 0 then (if sort_direction x = Ascending then c else - c)
        else compare_sorts rt s xs l r)"

definition compare_scored :: "go_runtime \<Rightarrow> schema \<Rightarrow> sort_spec list \<Rightarrow> document \<times> nat \<Rightarrow> document \<times> nat \<Rightarrow> int" where
  "compare_scored rt s sorts l r =
     (let c = compare_sorts rt s sorts (fst l) (fst r) in
      if c \<noteq> 0 then c
      else if sorts = [] \<and> snd l \<noteq> snd r then compare_ordered (<) (snd r) (snd l)
      else compare_ordered str_lt (doc_id (fst l)) (doc_id (fst r)))"

definition sort_documents :: "go_runtime \<Rightarrow> schema \<Rightarrow> sort_spec list \<Rightarrow> (document \<times> nat) list \<Rightarrow> (document \<times> nat) list" where
  "sort_documents rt s sorts ds = sort_by (compare_scored rt s sorts) ds"

datatype backend_error = Backend_Cancelled | Backend_Cursor search_error

definition page_documents :: "(document \<times> nat) list \<Rightarrow> search_request \<Rightarrow> backend_error + (document \<times> nat) list \<times> string" where
  "page_documents ds r =
     (case decode_cursor (sr_cursor r) of
        Inl e \<Rightarrow> Inl (Backend_Cursor e)
      | Inr offset \<Rightarrow>
          if int (length ds) \<le> offset then Inr ([], [])
          else let until = min (offset + sr_limit r) (int (length ds))
               in Inr (take (nat (until - offset)) (drop (nat offset) ds),
                       if until < int (length ds) then encode_cursor until else []))"

section \<open>Facets\<close>

definition filters_without_field :: "search_filter list \<Rightarrow> string \<Rightarrow> search_filter list" where
  "filters_without_field fs field = filter (\<lambda>f. f_field f \<noteq> field \<or> mandatory f) fs"

definition value_key :: "go_runtime \<Rightarrow> attr_value \<Rightarrow> string" where
  "value_key rt v = rt_type_name rt v @ '':'' @ rt_sprint rt v"

definition unique_attribute_values :: "go_runtime \<Rightarrow> attribute_type \<Rightarrow> attr_value \<Rightarrow> attr_value list" where
  "unique_attribute_values rt ty v =
     sort_by (compare_value rt ty) (map snd (fold (\<lambda>x. AList.update (value_key rt x) x) (attribute_values v) []))"

record bucket_entry =
  bk_value :: attr_value
  bk_count :: int

definition facet_values :: "go_runtime \<Rightarrow> attribute_type \<Rightarrow> facet_request \<Rightarrow> document \<Rightarrow> attr_value list" where
  "facet_values rt ty f d =
     (let vs = unique_attribute_values rt ty (field_or_null d (facet_field f))
      in if vs = [] \<and> include_missing f then [V_Null] else vs)"

definition count_value :: "go_runtime \<Rightarrow> attr_value \<Rightarrow> (string \<times> bucket_entry) list \<Rightarrow> (string \<times> bucket_entry) list" where
  "count_value rt v counts =
     AList.update (value_key rt v)
       \<lparr>bk_value = v, bk_count = (case map_of counts (value_key rt v) of None \<Rightarrow> 0 | Some b \<Rightarrow> bk_count b) + 1\<rparr> counts"

definition facet_counts :: "go_runtime \<Rightarrow> attribute_type \<Rightarrow> facet_request \<Rightarrow> (document \<times> nat) list \<Rightarrow> (string \<times> bucket_entry) list" where
  "facet_counts rt ty f ds = fold (\<lambda>(d, score). fold (count_value rt) (facet_values rt ty f d)) ds []"

definition compare_buckets :: "go_runtime \<Rightarrow> attribute_type \<Rightarrow> facet_sort \<Rightarrow> bucket_entry \<Rightarrow> bucket_entry \<Rightarrow> int" where
  "compare_buckets rt ty so a b =
     (if so = By_Count \<and> bk_count a \<noteq> bk_count b then compare_ordered (<) (bk_count b) (bk_count a)
      else compare_value rt ty (bk_value a) (bk_value b))"

definition aggregate_facet :: "go_runtime \<Rightarrow> attribute_type \<Rightarrow> facet_request \<Rightarrow> (document \<times> nat) list \<Rightarrow> bucket_entry list" where
  "aggregate_facet rt ty f ds =
     take (nat (facet_limit f)) (sort_by (compare_buckets rt ty (facet_sort f)) (map snd (facet_counts rt ty f ds)))"

fun build_facets :: "go_runtime \<Rightarrow> (nat \<Rightarrow> bool) \<Rightarrow> nat \<Rightarrow> schema \<Rightarrow> search_request \<Rightarrow> document list \<Rightarrow> facet_request list \<Rightarrow>
    (string \<times> bucket_entry list) list option" where
  "build_facets rt ctx k s r ds [] = Some []"
| "build_facets rt ctx k s r ds (f # fs) =
     (let filters = (if facet_mode f = Disjunctive then filters_without_field (sr_filters r) (facet_field f) else sr_filters r) in
      case filter_documents rt ctx k s (sr_query r) filters ds of
        None \<Rightarrow> None
      | Some ms \<Rightarrow>
          map_option ((#) (facet_field f, aggregate_facet rt (type_of_field s (facet_field f)) f ms))
            (build_facets rt ctx (k + length ds) s r ds fs))"

section \<open>Search\<close>

record search_result =
  res_items :: "(document \<times> nat) list"
  res_total :: int
  res_facets :: "(string \<times> bucket_entry list) list"
  res_next_cursor :: string

definition memory_search :: "go_runtime \<Rightarrow> (nat \<Rightarrow> bool) \<Rightarrow> backend \<Rightarrow> string \<Rightarrow> schema \<Rightarrow> search_request \<Rightarrow>
    backend_error + search_result" where
  "memory_search rt ctx b resource s r =
     (let ds = snapshot rt b resource in
      case filter_documents rt ctx 0 s (sr_query r) (sr_filters r) ds of
        None \<Rightarrow> Inl Backend_Cancelled
      | Some matched \<Rightarrow>
          let ms = sort_documents rt s (sr_sort r) matched in
          (case page_documents ms r of
             Inl e \<Rightarrow> Inl e
           | Inr (items, cursor) \<Rightarrow>
               (case build_facets rt ctx (length ds) s r ds (sr_facets r) of
                  None \<Rightarrow> Inl Backend_Cancelled
                | Some facets \<Rightarrow>
                    Inr \<lparr>res_items = items, res_total = int (length ms), res_facets = facets, res_next_cursor = cursor\<rparr>)))"


section \<open>Comparators\<close>

text \<open>A comparator is a total preorder given by signs.\<close>

definition cmp_ok :: "('a \<Rightarrow> 'a \<Rightarrow> int) \<Rightarrow> bool" where
  "cmp_ok c \<longleftrightarrow> (\<forall>a b. (c a b \<le> 0 \<longrightarrow> 0 \<le> c b a) \<and> (0 \<le> c a b \<longrightarrow> c b a \<le> 0)) \<and>
     (\<forall>a b d. c a b \<le> 0 \<longrightarrow> c b d \<le> 0 \<longrightarrow> c a d \<le> 0)"

lemma cmp_flip: "cmp_ok c \<Longrightarrow> (c a b \<le> 0 \<longleftrightarrow> 0 \<le> c b a)"
  unfolding cmp_ok_def by blast

lemma cmp_trans: "cmp_ok c \<Longrightarrow> c a b \<le> 0 \<Longrightarrow> c b d \<le> 0 \<Longrightarrow> c a d \<le> 0"
  unfolding cmp_ok_def by blast

lemma cmp_zero: "cmp_ok c \<Longrightarrow> c a b = 0 \<longleftrightarrow> c b a = 0"
  using cmp_flip [of c a b] cmp_flip [of c b a] by linarith

lemma cmp_less_trans: "cmp_ok c \<Longrightarrow> c a b < 0 \<Longrightarrow> c b d \<le> 0 \<Longrightarrow> c a d < 0"
  and cmp_less_trans': "cmp_ok c \<Longrightarrow> c a b \<le> 0 \<Longrightarrow> c b d < 0 \<Longrightarrow> c a d < 0"
proof -
  assume c: "cmp_ok c"
  show "c a d < 0" if "c a b < 0" "c b d \<le> 0"
    using cmp_trans [OF c, of b d a] cmp_flip [OF c] that by (metis linorder_not_le)
  show "c a d < 0" if "c a b \<le> 0" "c b d < 0"
    using cmp_trans [OF c, of d a b] cmp_flip [OF c] that by (metis linorder_not_le)
qed

lemma cmp_lex:
  assumes "cmp_ok c1" and "cmp_ok c2"
  shows "cmp_ok (\<lambda>a b. if c1 a b \<noteq> 0 then c1 a b else c2 a b)"
proof -
  have "(if c1 a d \<noteq> 0 then c1 a d else c2 a d) \<le> 0"
    if "(if c1 a b \<noteq> 0 then c1 a b else c2 a b) \<le> 0" "(if c1 b d \<noteq> 0 then c1 b d else c2 b d) \<le> 0" for a b d
  proof -
    have le: "c1 a b \<le> 0" "c1 b d \<le> 0" using that by (auto split: if_splits)
    consider "c1 a b < 0" | "c1 b d < 0" | "c1 a b = 0" "c1 b d = 0" using le by linarith
    then show ?thesis
    proof cases
      case 1
      then show ?thesis using cmp_less_trans [OF assms(1) 1 le(2)] by simp
    next
      case 2
      then show ?thesis using cmp_less_trans' [OF assms(1) le(1) 2] by simp
    next
      case 3
      have "c1 a d \<le> 0" using cmp_trans [OF assms(1) le] .
      moreover have "c1 d a \<le> 0"
        using cmp_trans [OF assms(1), of d b a] cmp_zero [OF assms(1)] 3 by (metis order_refl)
      then have "0 \<le> c1 a d" using cmp_flip [OF assms(1)] by blast
      ultimately show ?thesis using 3 that cmp_trans [OF assms(2), of a b d] by simp
    qed
  qed
  moreover have "(if c1 a b \<noteq> 0 then c1 a b else c2 a b) \<le> 0 \<longleftrightarrow> 0 \<le> (if c1 b a \<noteq> 0 then c1 b a else c2 b a)" for a b
    using cmp_flip [OF assms(1), of a b] cmp_flip [OF assms(2), of a b] cmp_zero [OF assms(1), of a b] by auto
  ultimately show ?thesis unfolding cmp_ok_def by blast
qed

lemma cmp_minus: "cmp_ok c \<Longrightarrow> cmp_ok (\<lambda>a b. - c a b)"
  unfolding cmp_ok_def by (metis neg_0_le_iff_le neg_le_0_iff_le)

lemma cmp_image: "cmp_ok c \<Longrightarrow> cmp_ok (\<lambda>a b. c (f a) (f b))"
  unfolding cmp_ok_def by blast

lemma cmp_const: "cmp_ok (\<lambda>a b. 0)"
  by (simp add: cmp_ok_def)

lemma compare_ordered_less: "cmp_ok (compare_ordered ((<) :: 'a :: linorder \<Rightarrow> 'a \<Rightarrow> bool))"
  by (auto simp: cmp_ok_def compare_ordered_def split: if_splits)

lemma list_lt_linear: "xs \<noteq> ys \<Longrightarrow> list_lt xs ys \<or> list_lt ys xs"
proof (induction xs ys rule: list_lt.induct)
  case (1 xs)
  then show ?case by (cases xs) auto
qed auto

lemma str_lt_linear: "s \<noteq> t \<Longrightarrow> str_lt s t \<or> str_lt t s"
  unfolding str_lt_def by (intro list_lt_linear) (simp add: inj_map_eq_map inj_on_def)

lemma str_lt_trans: "str_lt s t \<Longrightarrow> str_lt t u \<Longrightarrow> str_lt s u"
  unfolding str_lt_def by (rule list_lt_trans)

lemma str_lt_irrefl [simp]: "\<not> str_lt s s"
  by (simp add: str_lt_def)

lemma compare_ordered_str: "cmp_ok (compare_ordered str_lt)" "compare_ordered str_lt s t = 0 \<longleftrightarrow> s = t"
proof -
  show "cmp_ok (compare_ordered str_lt)"
    unfolding cmp_ok_def compare_ordered_def using str_lt_linear str_lt_trans str_lt_irrefl
    by (smt (verit, del_insts))
  show "compare_ordered str_lt s t = 0 \<longleftrightarrow> s = t"
    using str_lt_linear [of s t] by (auto simp: compare_ordered_def)
qed

lemma compare_value_ok: "cmp_ok (compare_value rt ty)"
proof -
  note images = cmp_image [OF compare_ordered_less] cmp_image [OF compare_ordered_str(1)]
  show ?thesis
    unfolding compare_value_def
    by (cases "ty = Ty_Integer \<or> ty = Ty_Decimal"; cases "ty = Ty_Boolean"; cases "ty = Ty_Date") (simp_all add: images)
qed

lemma compare_sorts_ok: "cmp_ok (compare_sorts rt s xs)"
proof (induction xs)
  case Nil
  then show ?case by (simp add: cmp_const)
next
  case (Cons x xs)
  let ?v = "\<lambda>d. field_or_null d (sort_field x)" and ?ty = "type_of_field s (sort_field x)"
  let ?missing = "\<lambda>d. if ?v d \<noteq> V_Null then 0 :: int else 1"
  let ?cmp = "\<lambda>l r. if sort_direction x = Ascending then compare_value rt ?ty (?v l) (?v r) else - compare_value rt ?ty (?v l) (?v r)"
  have "cmp_ok (\<lambda>l r. compare_value rt ?ty (?v l) (?v r))" by (rule cmp_image [OF compare_value_ok])
  then have "cmp_ok ?cmp"
    by (cases "sort_direction x = Ascending") (simp_all add: cmp_minus)
  from cmp_lex [OF cmp_image [OF compare_ordered_less, of ?missing] cmp_lex [OF this Cons.IH]]
  have "cmp_ok (\<lambda>l r. if compare_ordered (<) (?missing l) (?missing r) \<noteq> 0 then compare_ordered (<) (?missing l) (?missing r)
     else if ?cmp l r \<noteq> 0 then ?cmp l r else compare_sorts rt s xs l r)" .
  moreover have "compare_sorts rt s (x # xs) = (\<lambda>l r. if compare_ordered (<) (?missing l) (?missing r) \<noteq> 0 then compare_ordered (<) (?missing l) (?missing r)
     else if ?cmp l r \<noteq> 0 then ?cmp l r else compare_sorts rt s xs l r)"
    by (intro ext) (auto simp: compare_ordered_def Let_def)
  ultimately show ?case by simp
qed

lemma compare_scored_ok: "cmp_ok (compare_scored rt s sorts)"
proof -
  let ?score = "\<lambda>l r :: document \<times> nat. if sorts = [] then compare_ordered (<) (snd r) (snd l) else 0"
  have eq: "(\<lambda>l r :: document \<times> nat. compare_ordered (<) (snd r) (snd l)) = (\<lambda>l r. - compare_ordered (<) (snd l) (snd r))"
    by (intro ext) (auto simp: compare_ordered_def)
  have "cmp_ok (\<lambda>l r :: document \<times> nat. compare_ordered (<) (snd r) (snd l))"
    unfolding eq by (rule cmp_minus [OF cmp_image [OF compare_ordered_less]])
  then have "cmp_ok ?score" by (cases "sorts = []") (simp_all add: cmp_const)
  from cmp_lex [OF cmp_image [OF compare_sorts_ok [of rt s sorts], of fst] cmp_lex [OF this
      cmp_image [OF compare_ordered_str(1), of "\<lambda>x. doc_id (fst x)"]]]
  show ?thesis
    unfolding compare_scored_def Let_def
    by (rule subst [of _ _ cmp_ok, rotated]) (intro ext, auto simp: compare_ordered_def)
qed


section \<open>Sorted lists\<close>

lemma mset_insert_by [simp]: "mset (insert_by c x xs) = add_mset x (mset xs)"
  by (induction xs) auto

lemma mset_sort_by [simp]: "mset (sort_by c xs) = mset xs"
  unfolding sort_by_def by (induction xs) auto

lemma set_sort_by [simp]: "set (sort_by c xs) = set xs"
  by (metis mset_sort_by set_mset_mset)

lemma length_sort_by [simp]: "length (sort_by c xs) = length xs"
  by (metis mset_sort_by size_mset)

lemma sorted_insert_by:
  assumes "cmp_ok c" and "sorted_wrt (\<lambda>a b. c a b \<le> 0) xs"
  shows "sorted_wrt (\<lambda>a b. c a b \<le> 0) (insert_by c x xs)"
  using assms(2)
proof (induction xs)
  case (Cons y ys)
  have set: "set (insert_by c x ys) = insert x (set ys)" by (metis mset_insert_by set_mset_add_mset_insert set_mset_mset)
  show ?case
  proof (cases "c x y \<le> 0")
    case True
    then show ?thesis using Cons.prems cmp_trans [OF assms(1) True] by auto
  next
    case False
    then have "c y x \<le> 0" using cmp_flip [OF assms(1), of y x] by simp
    then show ?thesis using False Cons set by auto
  qed
qed simp

lemma sorted_sort_by: "cmp_ok c \<Longrightarrow> sorted_wrt (\<lambda>a b. c a b \<le> 0) (sort_by c xs)"
  unfolding sort_by_def by (induction xs) (auto simp: sorted_insert_by)

text \<open>A comparator that tells the elements apart leaves one sorted list.\<close>

lemma sorted_unique:
  assumes "\<And>a b. a \<in> set xs \<Longrightarrow> b \<in> set xs \<Longrightarrow> c a b \<le> 0 \<Longrightarrow> c b a \<le> 0 \<Longrightarrow> a = b"
    and "sorted_wrt (\<lambda>a b. c a b \<le> 0) xs" "sorted_wrt (\<lambda>a b. c a b \<le> 0) ys" "mset xs = mset ys"
  shows "xs = ys"
  using assms
proof (induction xs arbitrary: ys)
  case (Cons x xs)
  then obtain y ys' where ys: "ys = y # ys'" by (cases ys) auto
  have sets: "insert x (set xs) = insert y (set ys')"
    using Cons.prems(4) ys by (metis list.simps(15) set_mset_mset)
  have "x = y"
  proof (rule ccontr)
    assume "x \<noteq> y"
    then have "y \<in> set xs" "x \<in> set ys'" using sets by auto
    then have "c x y \<le> 0" "c y x \<le> 0" using Cons.prems(2,3) ys by auto
    then show False using Cons.prems(1) [of x y] \<open>y \<in> set xs\<close> \<open>x \<noteq> y\<close> by simp
  qed
  moreover have "xs = ys'"
    using Cons.prems ys \<open>x = y\<close> by (intro Cons.IH) auto
  ultimately show ?case using ys by simp
qed simp

section \<open>What a search matches\<close>

definition matches :: "go_runtime \<Rightarrow> schema \<Rightarrow> string \<Rightarrow> search_filter list \<Rightarrow> document \<Rightarrow> bool" where
  "matches rt s query fs d \<longleftrightarrow> match_query rt d s query \<noteq> None \<and> match_filters rt d s fs"

definition score_of :: "go_runtime \<Rightarrow> schema \<Rightarrow> string \<Rightarrow> document \<Rightarrow> nat" where
  "score_of rt s query d = (case match_query rt d s query of None \<Rightarrow> 0 | Some n \<Rightarrow> n)"

definition matched :: "go_runtime \<Rightarrow> schema \<Rightarrow> string \<Rightarrow> search_filter list \<Rightarrow> document list \<Rightarrow> (document \<times> nat) list" where
  "matched rt s query fs ds = map (\<lambda>d. (d, score_of rt s query d)) (filter (matches rt s query fs) ds)"

lemma filter_documents_Some:
  "filter_documents rt ctx k s query fs ds = Some ms \<Longrightarrow> ms = matched rt s query fs ds"
  by (induction ds arbitrary: k ms) (auto simp: matched_def matches_def score_of_def split: option.splits if_splits)

lemma filter_documents_never:
  "\<forall>k. \<not> ctx k \<Longrightarrow> filter_documents rt ctx k s query fs ds = Some (matched rt s query fs ds)"
  by (induction ds arbitrary: k) (auto simp: matched_def matches_def score_of_def split: option.split)

lemma build_facets_Some:
  assumes "build_facets rt ctx k s r ds fs = Some res" and "(field, bs) \<in> set res"
  obtains f where "f \<in> set fs" "facet_field f = field"
    "bs = aggregate_facet rt (type_of_field s field) f
       (matched rt s (sr_query r) (if facet_mode f = Disjunctive then filters_without_field (sr_filters r) field else sr_filters r) ds)"
  using assms
proof (induction fs arbitrary: k res thesis)
  case (Cons f fs)
  let ?filters = "if facet_mode f = Disjunctive then filters_without_field (sr_filters r) (facet_field f) else sr_filters r"
  obtain ms rest where ms: "filter_documents rt ctx k s (sr_query r) ?filters ds = Some ms"
      and rest: "build_facets rt ctx (k + length ds) s r ds fs = Some rest"
      and res: "res = (facet_field f, aggregate_facet rt (type_of_field s (facet_field f)) f ms) # rest"
    using Cons.prems(2) by (auto simp: Let_def split: option.splits)
  show ?case
  proof (cases "(field, bs) \<in> set rest")
    case True
    then show ?thesis using Cons.IH [OF _ rest True] Cons.prems(1) by auto
  next
    case False
    then show ?thesis using Cons.prems(1) [of f] Cons.prems(3) res filter_documents_Some [OF ms] by auto
  qed
qed simp

lemma build_facets_never: "\<forall>k. \<not> ctx k \<Longrightarrow> build_facets rt ctx k s r ds fs \<noteq> None"
  by (induction fs arbitrary: k) (auto simp: Let_def filter_documents_never)

section \<open>Paging\<close>

fun follow :: "nat \<Rightarrow> (string \<Rightarrow> 'e + search_result) \<Rightarrow> string \<Rightarrow> (document \<times> nat) list option" where
  "follow 0 search cursor = None"
| "follow (Suc n) search cursor =
     (case search cursor of
        Inl e \<Rightarrow> None
      | Inr res \<Rightarrow>
          if res_next_cursor res = [] then Some (res_items res)
          else map_option ((@) (res_items res)) (follow n search (res_next_cursor res)))"

lemma encode_cursor_Nil: "0 < n \<Longrightarrow> encode_cursor n \<noteq> []"
proof -
  assume "0 < n"
  moreover have "b64_encode (''v1:'' @ itoa n) \<noteq> []"
    using b64_decode_encode [OF b64_alphabets_ok(1), of False "''v1:'' @ itoa n"] by (auto simp: b64_decode_in_def)
  ultimately show ?thesis by (simp add: encode_cursor_def)
qed

lemma memory_search_page:
  assumes "\<forall>k. \<not> ctx k" and "decode_cursor (sr_cursor r) = Inr (int off)"
    and "1 \<le> sr_limit r" and "ms = sort_documents rt s (sr_sort r) (matched rt s (sr_query r) (sr_filters r) (snapshot rt b resource))"
  shows "\<exists>res. memory_search rt ctx b resource s r = Inr res \<and>
    res_items res = take (nat (sr_limit r)) (drop off ms) \<and> res_total res = int (length ms) \<and>
    res_next_cursor res = (if int off + sr_limit r < int (length ms) then encode_cursor (int off + sr_limit r) else [])"
proof -
  obtain facets where facets: "build_facets rt ctx (length (snapshot rt b resource)) s r (snapshot rt b resource) (sr_facets r) = Some facets"
    using build_facets_never [OF assms(1)] by blast
  have "page_documents ms r = Inr (take (nat (sr_limit r)) (drop off ms),
      if int off + sr_limit r < int (length ms) then encode_cursor (int off + sr_limit r) else [])"
    using assms(2,3) by (auto simp: page_documents_def Let_def min_def nat_diff_distrib nat_add_distrib)
  then show ?thesis
    using assms(4) facets by (simp add: memory_search_def Let_def filter_documents_never [OF assms(1)])
qed

lemma take_add_drop: "take n (drop k xs) @ drop (k + n) xs = drop k xs"
  by (metis add.commute append_take_drop_id drop_drop)

lemma follow_pages:
  assumes "\<forall>k. \<not> ctx k" and "1 \<le> sr_limit r" and "int64 (int (length ms))"
    and "ms = sort_documents rt s (sr_sort r) (matched rt s (sr_query r) (sr_filters r) (snapshot rt b resource))"
    and "off \<le> length ms" and "length ms - off < n"
  shows "follow n (\<lambda>cur. memory_search rt ctx b resource s (r\<lparr>sr_cursor := cur\<rparr>)) (encode_cursor (int off)) = Some (drop off ms)"
  using assms(5,6)
proof (induction n arbitrary: off)
  case (Suc n)
  have "int64 (int off)" using Suc.prems(1) assms(3) by (simp add: int64_def)
  then have dec: "decode_cursor (encode_cursor (int off)) = Inr (int off)"
    by (intro decode_encode_cursor) auto
  obtain res where res: "memory_search rt ctx b resource s (r\<lparr>sr_cursor := encode_cursor (int off)\<rparr>) = Inr res"
      "res_items res = take (nat (sr_limit r)) (drop off ms)"
      "res_next_cursor res = (if int off + sr_limit r < int (length ms) then encode_cursor (int off + sr_limit r) else [])"
    using memory_search_page [of ctx "r\<lparr>sr_cursor := encode_cursor (int off)\<rparr>" off ms rt s b resource] assms(1,2,4) dec by auto
  show ?case
  proof (cases "int off + sr_limit r < int (length ms)")
    case False
    then have "take (nat (sr_limit r)) (drop off ms) = drop off ms" by simp
    then show ?thesis using res False by simp
  next
    case True
    let ?off = "off + nat (sr_limit r)"
    have off: "int off + sr_limit r = int ?off" using assms(2) by simp
    have "follow n (\<lambda>cur. memory_search rt ctx b resource s (r\<lparr>sr_cursor := cur\<rparr>)) (encode_cursor (int ?off)) = Some (drop ?off ms)"
      using True Suc.prems assms(2) by (intro Suc.IH) auto
    moreover have cur: "res_next_cursor res = encode_cursor (int ?off)"
      using res(3) True unfolding off by simp
    moreover have "encode_cursor (int ?off) \<noteq> []" using assms(2) by (intro encode_cursor_Nil) simp
    ultimately show ?thesis
      using res(1,2) by (simp only: follow.simps sum.case if_False option.map take_add_drop)
  qed
qed simp


section \<open>Counting facet values\<close>

definition has_value :: "go_runtime \<Rightarrow> attribute_type \<Rightarrow> facet_request \<Rightarrow> attr_value \<Rightarrow> document \<Rightarrow> bool" where
  "has_value rt ty f v d \<longleftrightarrow> value_key rt v \<in> value_key rt ` set (facet_values rt ty f d)"

definition count_of :: "(string \<times> bucket_entry) list \<Rightarrow> string \<Rightarrow> int" where
  "count_of counts key = (case map_of counts key of None \<Rightarrow> 0 | Some b \<Rightarrow> bk_count b)"

definition counts_ok :: "go_runtime \<Rightarrow> (string \<times> bucket_entry) list \<Rightarrow> bool" where
  "counts_ok rt counts \<longleftrightarrow> distinct (map fst counts) \<and> (\<forall>(k, b)\<in>set counts. value_key rt (bk_value b) = k)"

lemma count_value_ok: "counts_ok rt counts \<Longrightarrow> counts_ok rt (count_value rt v counts)"
  unfolding counts_ok_def count_value_def
  by (intro conjI distinct_update) (auto dest!: set_alist_update)

lemma count_value_of: "count_of (count_value rt v counts) key = count_of counts key + (if key = value_key rt v then 1 else 0)"
  by (simp add: count_of_def count_value_def update_conv')

lemma count_values:
  "counts_ok rt counts \<Longrightarrow> distinct (map (value_key rt) vs) \<Longrightarrow>
     counts_ok rt (fold (count_value rt) vs counts) \<and>
     count_of (fold (count_value rt) vs counts) key = count_of counts key + (if key \<in> value_key rt ` set vs then 1 else 0)"
  by (induction vs arbitrary: counts) (auto simp: count_value_ok count_value_of image_iff)

lemma unique_keys:
  "\<forall>(k, x)\<in>set m. value_key rt x = k \<Longrightarrow> distinct (map fst m) \<Longrightarrow>
     (\<forall>(k, x)\<in>set (fold (\<lambda>x. AList.update (value_key rt x) x) vs m). value_key rt x = k) \<and>
     distinct (map fst (fold (\<lambda>x. AList.update (value_key rt x) x) vs m))"
proof (induction vs arbitrary: m)
  case (Cons v vs)
  have "\<forall>(k, x)\<in>set (AList.update (value_key rt v) v m). value_key rt x = k"
    using Cons.prems(1) by (auto dest!: set_alist_update)
  then show ?case using Cons.IH Cons.prems(2) by (simp add: distinct_update)
qed simp

lemma distinct_facet_values: "distinct (map (value_key rt) (facet_values rt ty f d))"
proof -
  let ?m = "fold (\<lambda>x. AList.update (value_key rt x) x) (attribute_values (field_or_null d (facet_field f))) []"
  have "\<forall>(k, x)\<in>set ?m. value_key rt x = k" "distinct (map fst ?m)"
    using unique_keys [of "[]" rt] by auto
  then have "map (value_key rt) (map snd ?m) = map fst ?m" by auto
  then have "distinct (map (value_key rt) (map snd ?m))" using \<open>distinct (map fst ?m)\<close> by argo
  moreover have "mset (map (value_key rt) (unique_attribute_values rt ty (field_or_null d (facet_field f)))) = mset (map (value_key rt) (map snd ?m))"
    unfolding unique_attribute_values_def by (simp only: mset_map mset_sort_by)
  ultimately have "distinct (map (value_key rt) (unique_attribute_values rt ty (field_or_null d (facet_field f))))"
    using mset_eq_imp_distinct_iff by blast
  then show ?thesis by (simp add: facet_values_def Let_def)
qed

lemma facet_counts_of:
  "counts_ok rt (facet_counts rt ty f ds) \<and>
   count_of (facet_counts rt ty f ds) (value_key rt v) = int (length (filter (has_value rt ty f v) (map fst ds)))"
proof -
  have "counts_ok rt (fold (\<lambda>(d, score). fold (count_value rt) (facet_values rt ty f d)) ds counts) \<and>
     count_of (fold (\<lambda>(d, score). fold (count_value rt) (facet_values rt ty f d)) ds counts) (value_key rt v) =
     count_of counts (value_key rt v) + int (length (filter (has_value rt ty f v) (map fst ds)))" if "counts_ok rt counts" for counts
    using that
  proof (induction ds arbitrary: counts)
    case (Cons x ds)
    have "counts_ok rt (fold (count_value rt) (facet_values rt ty f (fst x)) counts)"
        "count_of (fold (count_value rt) (facet_values rt ty f (fst x)) counts) (value_key rt v) =
         count_of counts (value_key rt v) + (if has_value rt ty f v (fst x) then 1 else 0)"
      using count_values [OF Cons.prems distinct_facet_values] by (auto simp: has_value_def)
    then show ?case using Cons.IH by (simp add: case_prod_unfold)
  qed simp
  from this [of "[]"] show ?thesis by (simp add: facet_counts_def counts_ok_def count_of_def)
qed

lemma aggregate_facet_counts:
  assumes "bk \<in> set (aggregate_facet rt ty f ds)"
  shows "bk_count bk = int (length (filter (has_value rt ty f (bk_value bk)) (map fst ds)))"
proof -
  have "bk \<in> set (map snd (facet_counts rt ty f ds))"
    using assms unfolding aggregate_facet_def by (metis in_set_takeD set_sort_by)
  then obtain k where k: "(k, bk) \<in> set (facet_counts rt ty f ds)" by auto
  moreover have "counts_ok rt (facet_counts rt ty f ds)" using facet_counts_of by blast
  ultimately have "k = value_key rt (bk_value bk)" "map_of (facet_counts rt ty f ds) k = Some bk"
    by (auto simp: counts_ok_def)
  then show ?thesis using facet_counts_of [of rt ty f ds "bk_value bk"] by (simp add: count_of_def)
qed


text \<open>A null number is compared as zero: a stored null passes the validation of documents, and a range
  filter then treats it as the value 0 although an equality filter never matches it.\<close>

lemma null_number_is_zero_in_ranges:
  "match_filter rt (Some V_Null) Ty_Integer \<lparr>f_field = k, f_operator = Op_Lt, f_value = V_Float q, mandatory = m\<rparr> \<longleftrightarrow> 0 < q"
  "\<not> match_filter rt (Some V_Null) Ty_Integer \<lparr>f_field = k, f_operator = Op_Eq, f_value = v, mandatory = m\<rparr>"
  by (simp_all add: match_filter_def match_range_def compare_value_def compare_ordered_def number_or_zero_def number_value_def
      attribute_values_def slice_values_def Let_def)

end
