(* ===== verification/Search_Resource.thy ===== *)
theory Search_Resource
  imports Search_Memory
begin

text \<open>
  \<^verbatim>\<open>search/resource.go\<close>: resources, which bind a schema and an optional authorisation scope to a
  backend, and the registry of resources. The \<^verbatim>\<open>Backend\<close> interface is the locale \<open>search_backend\<close>; what a
  resource guarantees is proved there and holds for the in-memory backend, its interpretation.
\<close>

section \<open>Resources\<close>

datatype resource_error =
    Invalid_Resource_Name | Backend_Required | Schema_Key_Mismatch string | Schema_Error search_error
  | Nil_Resource_Option | Nil_Scope | Nil_Resource | Duplicate_Resource string | Not_Registered string
  | Invalid_Request search_error | Execution_Failed

type_synonym 'c scope_func = "'c \<Rightarrow> string + search_filter list"

datatype 'c resource_option = Nil_Option | With_Scope "'c scope_func option"

record 'c resource =
  rs_name :: string
  rs_schema :: schema
  rs_scope :: "'c scope_func option"

text \<open>The regular expression \<^verbatim>\<open>^[A-Za-z][A-Za-z0-9_-]{0,63}$\<close>.\<close>

definition valid_resource_name :: "string \<Rightarrow> bool" where
  "valid_resource_name n \<longleftrightarrow> (case n of [] \<Rightarrow> False
     | c # cs \<Rightarrow> letter c \<and> list_all (\<lambda>c. letter c \<or> byte_in c 48 57 \<or> c \<in> {CHR ''_'', CHR ''-''}) cs \<and> length cs \<le> 63)"

fun apply_options :: "'c resource_option list \<Rightarrow> 'c resource \<Rightarrow> resource_error + 'c resource" where
  "apply_options [] res = Inr res"
| "apply_options (Nil_Option # opts) res = Inl Nil_Resource_Option"
| "apply_options (With_Scope None # opts) res = Inl Nil_Scope"
| "apply_options (With_Scope (Some sc) # opts) res = apply_options opts (res\<lparr>rs_scope := Some sc\<rparr>)"

definition new_resource :: "string \<Rightarrow> schema \<Rightarrow> bool \<Rightarrow> 'c resource_option list \<Rightarrow> resource_error + 'c resource" where
  "new_resource n s has_backend opts =
     (if \<not> valid_resource_name n then Inl Invalid_Resource_Name
      else if \<not> has_backend then Inl Backend_Required
      else (case first_error (\<lambda>(key, d). if key \<noteq> attr_key d then Some (Schema_Key_Mismatch key)
                 else map_option Schema_Error (validate_definition d)) (schema_attrs s) of
          Some e \<Rightarrow> Inl e
        | None \<Rightarrow> apply_options opts \<lparr>rs_name = n, rs_schema = s, rs_scope = None\<rparr>))"

definition resource_index :: "go_runtime \<Rightarrow> 'c resource \<Rightarrow> document \<Rightarrow> backend \<Rightarrow> search_error option \<times> backend" where
  "resource_index rt res d b =
     (case validate_document rt (rs_schema res) d of
        Some e \<Rightarrow> (Some e, b)
      | None \<Rightarrow> (None, index_document rt (rs_name res) d b))"

definition resource_delete :: "'c resource \<Rightarrow> string \<Rightarrow> backend \<Rightarrow> search_error option \<times> backend" where
  "resource_delete res i b =
     (if i = [] then (Some Document_Id_Required, b) else (None, delete_document (rs_name res) i b))"

definition run_backend :: "('e + search_result) \<Rightarrow> resource_error + search_result" where
  "run_backend r = (case r of Inl e \<Rightarrow> Inl Execution_Failed | Inr res \<Rightarrow> Inr res)"

definition resource_search :: "go_runtime \<Rightarrow> (search_request \<Rightarrow> 'e + search_result) \<Rightarrow> 'c resource \<Rightarrow> 'c \<Rightarrow> search_request \<Rightarrow>
    resource_error + search_result" where
  "resource_search rt search res c r =
     (case normalize_request rt (rs_schema res) r of
        Inl e \<Rightarrow> Inl (Invalid_Request e)
      | Inr normalized \<Rightarrow>
          (case rs_scope res of
             None \<Rightarrow> run_backend (search normalized)
           | Some sc \<Rightarrow>
               (case sc c of
                  Inl e \<Rightarrow> Inl Execution_Failed
                | Inr fs \<Rightarrow>
                    (case normalize_request rt (rs_schema res)
                        (normalized\<lparr>sr_filters := sr_filters normalized @ map (\<lambda>f. f\<lparr>mandatory := True\<rparr>) fs\<rparr>) of
                       Inl e \<Rightarrow> Inl Execution_Failed
                     | Inr scoped \<Rightarrow> run_backend (search scoped)))))"

section \<open>The registry\<close>

type_synonym 'c registry = "(string \<times> 'c resource) list"

definition register :: "'c resource option \<Rightarrow> 'c registry \<Rightarrow> resource_error option \<times> 'c registry" where
  "register r reg =
     (case r of
        None \<Rightarrow> (Some Nil_Resource, reg)
      | Some res \<Rightarrow>
          if map_of reg (rs_name res) \<noteq> None then (Some (Duplicate_Resource (rs_name res)), reg)
          else (None, (rs_name res, res) # reg))"

fun register_all :: "'c resource option list \<Rightarrow> 'c registry \<Rightarrow> resource_error + 'c registry" where
  "register_all [] reg = Inr reg"
| "register_all (r # rs) reg =
     (case register r reg of
        (Some e, reg) \<Rightarrow> Inl e
      | (None, reg) \<Rightarrow> register_all rs reg)"

definition new_registry :: "'c resource option list \<Rightarrow> resource_error + 'c registry" where
  "new_registry rs = register_all rs []"

definition registry_search :: "go_runtime \<Rightarrow> ('c resource \<Rightarrow> search_request \<Rightarrow> 'e + search_result) \<Rightarrow> 'c registry \<Rightarrow>
    string \<Rightarrow> 'c \<Rightarrow> search_request \<Rightarrow> resource_error + search_result" where
  "registry_search rt search reg n c r =
     (case map_of reg n of
        None \<Rightarrow> Inl (Not_Registered n)
      | Some res \<Rightarrow> resource_search rt (search res) res c r)"

section \<open>The backend interface\<close>

lemma run_backend_Inr: "run_backend r = Inr out \<longleftrightarrow> r = Inr out"
  by (simp add: run_backend_def split: sum.split)

lemma resource_search_scoped:
  assumes "resource_search rt search res c r = Inr out" and "rs_scope res = Some sc"
  shows "\<exists>n fs scoped. normalize_request rt (rs_schema res) r = Inr n \<and> sc c = Inr fs \<and>
    normalize_request rt (rs_schema res) (n\<lparr>sr_filters := sr_filters n @ map (\<lambda>f. f\<lparr>mandatory := True\<rparr>) fs\<rparr>) = Inr scoped \<and>
    search scoped = Inr out"
proof (cases "normalize_request rt (rs_schema res) r")
  case (Inr n)
  show ?thesis
  proof (cases "sc c")
    case fs: (Inr fs)
    show ?thesis
    proof (cases "normalize_request rt (rs_schema res) (n\<lparr>sr_filters := sr_filters n @ map (\<lambda>f. f\<lparr>mandatory := True\<rparr>) fs\<rparr>)")
      case (Inr scoped)
      then show ?thesis
        using assms \<open>normalize_request rt (rs_schema res) r = Inr n\<close> fs by (simp add: resource_search_def run_backend_Inr)
    qed (use assms Inr fs in \<open>simp add: resource_search_def\<close>)
  qed (use assms Inr in \<open>simp add: resource_search_def\<close>)
qed (use assms in \<open>simp add: resource_search_def\<close>)

locale search_backend =
  fixes search :: "search_request \<Rightarrow> 'e + search_result"
    and docs :: "document list"
    and meets :: "search_filter \<Rightarrow> document \<Rightarrow> bool"
    and owns :: "facet_request \<Rightarrow> attr_value \<Rightarrow> document \<Rightarrow> bool"
  assumes hits: "search r = Inr res \<Longrightarrow> (d, n) \<in> set (res_items res) \<Longrightarrow> d \<in> set docs \<and> list_all (\<lambda>f. meets f d) (sr_filters r)"
    and buckets: "search r = Inr res \<Longrightarrow> (field, bs) \<in> set (res_facets res) \<Longrightarrow> bk \<in> set bs \<Longrightarrow>
      \<exists>f\<in>set (sr_facets r). facet_field f = field \<and>
        bk_count bk \<le> int (length (filter (\<lambda>d. owns f (bk_value bk) d \<and> list_all (\<lambda>g. mandatory g \<longrightarrow> meets g d) (sr_filters r)) docs))"
    and mandatory_mark: "meets (f\<lparr>mandatory := True\<rparr>) d = meets f d"
begin

lemma scoped_search:
  assumes "resource_search rt search res c r = Inr out" and "rs_scope res = Some sc"
  obtains fs scoped where "sc c = Inr fs" "search scoped = Inr out"
    "sr_filters scoped = sr_filters r @ map (\<lambda>f. f\<lparr>mandatory := True\<rparr>) fs"
    "map facet_field (sr_facets scoped) = map facet_field (sr_facets r)"
proof -
  from resource_search_scoped [OF assms] obtain n fs scoped where n: "normalize_request rt (rs_schema res) r = Inr n" and fs: "sc c = Inr fs"
      and sc: "normalize_request rt (rs_schema res) (n\<lparr>sr_filters := sr_filters n @ map (\<lambda>f. f\<lparr>mandatory := True\<rparr>) fs\<rparr>) = Inr scoped"
      and out: "search scoped = Inr out"
    by blast
  show thesis
    by (rule that [OF fs out]) (simp_all add: normalize_request_keeps [OF n] normalize_request_keeps [OF sc])
qed

lemma scope_is_enforced:
  assumes "resource_search rt search res c r = Inr out" and "rs_scope res = Some sc" and "sc c = Inr fs"
  shows "list_all (\<lambda>(d, n). d \<in> set docs \<and> list_all (\<lambda>f. meets f d) (sr_filters r @ fs)) (res_items out)"
    and "list_all (\<lambda>(field, bs). list_all (\<lambda>bk. \<exists>f. facet_field f = field \<and>
       bk_count bk \<le> int (length (filter (\<lambda>d. owns f (bk_value bk) d \<and> list_all (\<lambda>g. meets g d) fs) docs))) bs) (res_facets out)"
proof -
  obtain scoped where out: "search scoped = Inr out"
      and filters: "sr_filters scoped = sr_filters r @ map (\<lambda>f. f\<lparr>mandatory := True\<rparr>) fs"
  proof (rule scoped_search [OF assms(1,2)])
    fix fs' scoped
    assume "sc c = Inr fs'" and s: "search scoped = Inr out"
      "sr_filters scoped = sr_filters r @ map (\<lambda>f. f\<lparr>mandatory := True\<rparr>) fs'"
    then have "fs' = fs" using assms(3) by simp
    then show thesis using that s by simp
  qed
  show "list_all (\<lambda>(d, n). d \<in> set docs \<and> list_all (\<lambda>f. meets f d) (sr_filters r @ fs)) (res_items out)"
  proof -
    have "d \<in> set docs \<and> list_all (\<lambda>f. meets f d) (sr_filters r @ fs)" if "(d, n) \<in> set (res_items out)" for d n
      using hits [OF out that] by (simp add: filters list.pred_map comp_def mandatory_mark)
    then show ?thesis by (auto simp: list_all_iff)
  qed
  have "\<exists>f. facet_field f = field \<and>
       bk_count bk \<le> int (length (filter (\<lambda>d. owns f (bk_value bk) d \<and> list_all (\<lambda>g. meets g d) fs) docs))"
    if bk: "(field, bs) \<in> set (res_facets out)" "bk \<in> set bs" for field bs bk
  proof -
    obtain f where f: "facet_field f = field"
        "bk_count bk \<le> int (length (filter (\<lambda>d. owns f (bk_value bk) d \<and> list_all (\<lambda>g. mandatory g \<longrightarrow> meets g d) (sr_filters scoped)) docs))"
      using buckets [OF out bk] by blast
    have "length (filter (\<lambda>d. owns f (bk_value bk) d \<and> list_all (\<lambda>g. mandatory g \<longrightarrow> meets g d) (sr_filters scoped)) docs) \<le>
        length (filter (\<lambda>d. owns f (bk_value bk) d \<and> list_all (\<lambda>g. meets g d) fs) docs)"
      by (rule length_filter_mono) (simp add: filters list.pred_map comp_def mandatory_mark)
    then show ?thesis using f by (intro exI [of _ f] conjI) linarith+
  qed
  then show "list_all (\<lambda>(field, bs). list_all (\<lambda>bk. \<exists>f. facet_field f = field \<and>
       bk_count bk \<le> int (length (filter (\<lambda>d. owns f (bk_value bk) d \<and> list_all (\<lambda>g. meets g d) fs) docs))) bs) (res_facets out)"
    by (auto simp: list_all_iff)
qed

end


section \<open>The in-memory backend keeps the contract\<close>

lemma memory_search_Inr:
  assumes "memory_search rt ctx b resource s r = Inr res"
  obtains page where "page_documents (sort_documents rt s (sr_sort r) (matched rt s (sr_query r) (sr_filters r) (snapshot rt b resource))) r
      = Inr (res_items res, page)"
    "build_facets rt ctx (length (snapshot rt b resource)) s r (snapshot rt b resource) (sr_facets r) = Some (res_facets res)"
  using assms unfolding memory_search_def Let_def
  by (auto split: option.splits sum.splits prod.splits dest!: filter_documents_Some)

lemma page_documents_subset: "page_documents ms r = Inr (items, cur) \<Longrightarrow> set items \<subseteq> set ms"
  by (auto simp: page_documents_def Let_def split: sum.splits if_splits dest!: in_set_takeD in_set_dropD)

lemma set_sort_documents [simp]: "set (sort_documents rt s so ms) = set ms"
  by (simp add: sort_documents_def)

lemma filters_without_field_mandatory:
  "list_all (\<lambda>g. P g) (filters_without_field fs field) \<Longrightarrow> list_all (\<lambda>g. mandatory g \<longrightarrow> P g) fs"
  by (auto simp: filters_without_field_def list_all_iff)

interpretation memory: search_backend "memory_search rt ctx b resource s" "snapshot rt b resource"
  "\<lambda>f d. match_filter rt (map_of (doc_attrs d) (f_field f)) (type_of_field s (f_field f)) f"
  "\<lambda>f. has_value rt (type_of_field s (facet_field f)) f"
  for rt ctx b resource s
proof
  fix r res d n
  assume res: "memory_search rt ctx b resource s r = Inr res" and hit: "(d, n) \<in> set (res_items res)"
  from memory_search_Inr [OF res] obtain page where
    "page_documents (sort_documents rt s (sr_sort r) (matched rt s (sr_query r) (sr_filters r) (snapshot rt b resource))) r = Inr (res_items res, page)" .
  from page_documents_subset [OF this] hit
  have "d \<in> set (snapshot rt b resource) \<and> matches rt s (sr_query r) (sr_filters r) d"
    by (auto simp: matched_def)
  then show "d \<in> set (snapshot rt b resource) \<and>
      list_all (\<lambda>f. match_filter rt (map_of (doc_attrs d) (f_field f)) (type_of_field s (f_field f)) f) (sr_filters r)"
    by (simp add: matches_def match_filters_def)
next
  fix r res field bs bk
  assume res: "memory_search rt ctx b resource s r = Inr res" and bk: "(field, bs) \<in> set (res_facets res)" "bk \<in> set bs"
  let ?meets = "\<lambda>f d. match_filter rt (map_of (doc_attrs d) (f_field f)) (type_of_field s (f_field f)) f"
  from memory_search_Inr [OF res] have "build_facets rt ctx (length (snapshot rt b resource)) s r (snapshot rt b resource) (sr_facets r) = Some (res_facets res)" .
  from build_facets_Some [OF this bk(1)] obtain f where f: "f \<in> set (sr_facets r)" "facet_field f = field"
    and bs: "bs = aggregate_facet rt (type_of_field s field) f (matched rt s (sr_query r)
       (if facet_mode f = Disjunctive then filters_without_field (sr_filters r) field else sr_filters r) (snapshot rt b resource))" .
  let ?fs = "if facet_mode f = Disjunctive then filters_without_field (sr_filters r) field else sr_filters r"
  have "bk_count bk = int (length (filter (has_value rt (type_of_field s field) f (bk_value bk))
      (filter (matches rt s (sr_query r) ?fs) (snapshot rt b resource))))"
    using aggregate_facet_counts [OF bk(2) [unfolded bs]] by (simp add: matched_def comp_def)
  moreover have "length (filter (has_value rt (type_of_field s field) f (bk_value bk)) (filter (matches rt s (sr_query r) ?fs) (snapshot rt b resource)))
     \<le> length (filter (\<lambda>d. has_value rt (type_of_field s (facet_field f)) f (bk_value bk) d \<and>
          list_all (\<lambda>g. mandatory g \<longrightarrow> ?meets g d) (sr_filters r)) (snapshot rt b resource))"
    unfolding filter_filter f(2)
    by (rule length_filter_mono)
      (auto simp: matches_def match_filters_def list_all_iff intro: filters_without_field_mandatory [unfolded list_all_iff, rule_format] split: if_splits)
  ultimately show "\<exists>f\<in>set (sr_facets r). facet_field f = field \<and>
        bk_count bk \<le> int (length (filter (\<lambda>d. has_value rt (type_of_field s (facet_field f)) f (bk_value bk) d \<and>
          list_all (\<lambda>g. mandatory g \<longrightarrow> ?meets g d) (sr_filters r)) (snapshot rt b resource)))"
    using f by (intro bexI [of _ f]) auto
next
  fix f :: search_filter and d :: document
  show "match_filter rt (map_of (doc_attrs d) (f_field (f\<lparr>mandatory := True\<rparr>))) (type_of_field s (f_field (f\<lparr>mandatory := True\<rparr>))) (f\<lparr>mandatory := True\<rparr>)
     = match_filter rt (map_of (doc_attrs d) (f_field f)) (type_of_field s (f_field f)) f"
    unfolding match_filter_def match_range_def by (cases f) (simp only: search_filter.simps)
qed


section \<open>Stores that operations build\<close>

datatype backend_op = Index_Document string document | Delete_Document string string

fun apply_op :: "go_runtime \<Rightarrow> backend_op \<Rightarrow> backend \<Rightarrow> backend" where
  "apply_op rt (Index_Document resource d) b = index_document rt resource d b"
| "apply_op rt (Delete_Document resource i) b = delete_document resource i b"

definition stored :: "go_runtime \<Rightarrow> backend_op list \<Rightarrow> backend" where
  "stored rt ops = fold (apply_op rt) ops []"

definition docs_ok :: "(string \<times> document) list \<Rightarrow> bool" where
  "docs_ok ds \<longleftrightarrow> distinct (map fst ds) \<and> (\<forall>(i, d)\<in>set ds. doc_id d = i)"

lemma clone_id [simp]: "doc_id (clone_document rt d) = doc_id d"
  by (simp add: clone_document_def)

lemma docs_ok_update: "docs_ok ds \<Longrightarrow> docs_ok (AList.update (doc_id d) (clone_document rt d) ds)"
  unfolding docs_ok_def by (intro conjI distinct_update) (auto dest!: set_alist_update)

lemma docs_ok_delete: "docs_ok ds \<Longrightarrow> docs_ok (AList.delete i ds)"
  unfolding docs_ok_def by (intro conjI distinct_delete) (auto simp: AList.delete_eq)

definition backend_ok :: "backend \<Rightarrow> bool" where
  "backend_ok b \<longleftrightarrow> (\<forall>ds\<in>snd ` set b. docs_ok ds)"

lemma backend_ok_Nil: "backend_ok []"
  by (simp add: backend_ok_def)

lemma backend_docs_ok: "backend_ok b \<Longrightarrow> docs_ok (backend_docs b resource)"
proof (cases "map_of b resource")
  case None
  then show ?thesis by (simp add: backend_docs_def docs_ok_def)
next
  case (Some ds)
  then have "ds \<in> snd ` set b" using map_of_SomeD by force
  then show "backend_ok b \<Longrightarrow> ?thesis" using Some by (auto simp: backend_docs_def backend_ok_def)
qed

lemma update_docs_ok: "backend_ok b \<Longrightarrow> docs_ok ds \<Longrightarrow> backend_ok (AList.update k ds b)"
  unfolding backend_ok_def by (fastforce dest: set_alist_update)

lemma apply_op_ok: "backend_ok b \<Longrightarrow> backend_ok (apply_op rt op b)"
proof -
  assume ok: "backend_ok b"
  show ?thesis
  proof (cases op)
    case (Index_Document resource d)
    have "docs_ok (AList.update (doc_id d) (clone_document rt d) (backend_docs b resource))"
      by (rule docs_ok_update [OF backend_docs_ok [OF ok]])
    from update_docs_ok [OF ok this] show ?thesis by (simp only: Index_Document apply_op.simps index_document_def)
  next
    case (Delete_Document resource i)
    show ?thesis
    proof (cases "map_of b resource")
      case None
      then show ?thesis using ok by (simp add: Delete_Document delete_document_def)
    next
      case (Some ds)
      then have "ds \<in> snd ` set b" using map_of_SomeD by force
      then have "docs_ok (AList.delete i ds)" using ok unfolding backend_ok_def by (intro docs_ok_delete) blast
      from update_docs_ok [OF ok this] show ?thesis using Some by (simp only: Delete_Document apply_op.simps delete_document_def option.case)
    qed
  qed
qed

lemma stored_ids: "distinct (map doc_id (snapshot rt (stored rt ops) resource))"
proof -
  have "backend_ok (fold (apply_op rt) ops b)" if "backend_ok b" for b
    using that by (induction ops arbitrary: b) (simp_all add: apply_op_ok)
  from this [OF backend_ok_Nil] have ok: "docs_ok (backend_docs (stored rt ops) resource)"
    unfolding stored_def by (rule backend_docs_ok)
  then have "map doc_id (snapshot rt (stored rt ops) resource) = map fst (backend_docs (stored rt ops) resource)"
    by (auto simp: snapshot_def docs_ok_def)
  then show ?thesis using ok by (simp add: docs_ok_def)
qed

lemma sorted_strict:
  "distinct (map f xs) \<Longrightarrow> sorted_wrt (\<lambda>a b. c a b \<le> (0 :: int)) xs \<Longrightarrow> (\<And>a b. f a \<noteq> f b \<Longrightarrow> c a b \<noteq> 0) \<Longrightarrow>
     sorted_wrt (\<lambda>a b. c a b < 0) xs"
  by (induction xs) (fastforce simp: order_less_le)+

subsection \<open>A small resource\<close>

definition demo_rt :: go_runtime where
  "demo_rt = \<lparr>rt_sprint = (\<lambda>v. case v of V_Text s \<Rightarrow> s | _ \<Rightarrow> ''?''), rt_type_name = (\<lambda>v. ''string''), rt_float = of_int,
     rt_date = (\<lambda>s. None), rt_zero_date = 0, rt_lower = to_lower\<rparr>"

definition demo_schema :: schema where
  "demo_schema = \<lparr>schema_attrs = [(''tenant'', \<lparr>attr_key = ''tenant'', attr_type = Ty_String, multi_value = False,
     filterable = True, facetable = True, searchable = True, sortable = True, enum_values = []\<rparr>)], allow_unknown = False\<rparr>"

definition tenant_is :: "string \<Rightarrow> search_filter" where
  "tenant_is t = \<lparr>f_field = ''tenant'', f_operator = Op_Eq, f_value = V_Text t, mandatory = False\<rparr>"

definition demo_resource :: "string resource" where
  "demo_resource = \<lparr>rs_name = ''orders'', rs_schema = demo_schema, rs_scope = Some (\<lambda>t. Inr [tenant_is t])\<rparr>"

definition demo_ops :: "backend_op list" where
  "demo_ops = [Index_Document ''orders'' \<lparr>doc_id = ''1'', doc_attrs = [(''tenant'', V_Text ''a'')]\<rparr>,
     Index_Document ''orders'' \<lparr>doc_id = ''2'', doc_attrs = [(''tenant'', V_Text ''b'')]\<rparr>,
     Index_Document ''orders'' \<lparr>doc_id = ''3'', doc_attrs = [(''tenant'', V_Text ''a'')]\<rparr>]"

definition demo_request :: search_request where
  "demo_request = \<lparr>sr_query = [], sr_filters = [],
     sr_facets = [\<lparr>facet_field = ''tenant'', facet_mode = Mode_Default, facet_limit = 0, facet_sort = Facet_Default, include_missing = False\<rparr>],
     sr_sort = [], sr_cursor = [], sr_limit = 1\<rparr>"

definition demo_answer :: "resource_error + search_result" where
  "demo_answer = resource_search demo_rt (memory_search demo_rt (\<lambda>k. False) (stored demo_rt demo_ops)
     (rs_name demo_resource) (rs_schema demo_resource)) demo_resource ''a'' demo_request"

lemma demo_answer_ok:
  "\<not> isl demo_answer \<and> length (res_items (projr demo_answer)) = 1 \<and>
   map (\<lambda>(field, bs). map bk_count bs) (res_facets (projr demo_answer)) = [[2]]"
  by code_simp

section \<open>Properties\<close>

text \<open>C17. The scope of a resource cannot be escaped: every hit of a search is a stored document that meets
  the filters of the request and of the scope, and no facet bucket, however its facet treats filters on its own
  field, counts a document outside the scope.\<close>

theorem search_scope_is_enforced:
  assumes "resource_search rt (memory_search rt ctx b (rs_name res) (rs_schema res)) res c r = Inr out"
    and "rs_scope res = Some sc" and "sc c = Inr fs"
  shows "list_all (\<lambda>(d, n). d \<in> set (snapshot rt b (rs_name res)) \<and> match_filters rt d (rs_schema res) (sr_filters r @ fs)) (res_items out) \<and>
    list_all (\<lambda>(field, bs). list_all (\<lambda>bk. \<exists>f. facet_field f = field \<and> bk_count bk \<le> int (length
      (filter (\<lambda>d. has_value rt (type_of_field (rs_schema res) (facet_field f)) f (bk_value bk) d \<and> match_filters rt d (rs_schema res) fs)
        (snapshot rt b (rs_name res))))) bs) (res_facets out)"
  using memory.scope_is_enforced [OF assms] by (simp only: match_filters_def)

theorem search_scope_is_enforced_witness:
  "length (res_items (projr demo_answer)) = 1 \<and>
   list_all (\<lambda>(d, n). match_filters demo_rt d demo_schema [tenant_is ''a'']) (res_items (projr demo_answer))"
proof -
  have "demo_answer = Inr (projr demo_answer)" using demo_answer_ok by (metis sum.collapse(2))
  moreover have scope: "rs_scope demo_resource = Some (\<lambda>t. Inr [tenant_is t])" by (simp add: demo_resource_def)
  moreover have parts: "rs_schema demo_resource = demo_schema" "sr_filters demo_request = []"
    by (simp_all add: demo_resource_def demo_request_def)
  ultimately have "list_all (\<lambda>(d, n). d \<in> set (snapshot demo_rt (stored demo_rt demo_ops) (rs_name demo_resource)) \<and>
      match_filters demo_rt d (rs_schema demo_resource) (sr_filters demo_request @ [tenant_is ''a''])) (res_items (projr demo_answer))"
    using search_scope_is_enforced [OF _ scope refl] unfolding demo_answer_def by blast
  then show ?thesis
    using demo_answer_ok unfolding parts append_Nil by (auto simp: list_all_iff)
qed

text \<open>C30. Following the cursors of a search visits every matching document exactly once, in the order of the
  request with ties broken by id, whatever the page size and the order in which the store walks its map.\<close>

theorem search_pages_partition_the_matches:
  assumes "normalize_request rt s r = Inr r'" and "int64 (int (length (snapshot rt (stored rt ops) resource)))"
    and "length (snapshot rt (stored rt ops) resource) < n"
  shows "\<exists>hits. follow n (\<lambda>cur. memory_search rt (\<lambda>k. False) (stored rt ops) resource s (r'\<lparr>sr_cursor := cur\<rparr>)) [] = Some hits \<and>
    sorted_wrt (\<lambda>a b. compare_scored rt s (sr_sort r') a b < 0) hits \<and>
    set hits = {(d, score_of rt s (sr_query r') d) |d. d \<in> set (snapshot rt (stored rt ops) resource) \<and>
      matches rt s (sr_query r') (sr_filters r') d}"
proof -
  let ?docs = "snapshot rt (stored rt ops) resource"
  let ?found = "matched rt s (sr_query r') (sr_filters r') ?docs"
  let ?hits = "sort_documents rt s (sr_sort r') ?found" and ?c = "compare_scored rt s (sr_sort r')"
  have len: "length ?hits \<le> length ?docs"
    by (simp add: sort_documents_def matched_def)
  have "follow n (\<lambda>cur. memory_search rt (\<lambda>k. False) (stored rt ops) resource s (r'\<lparr>sr_cursor := cur\<rparr>)) (encode_cursor (int 0)) = Some (drop 0 ?hits)"
    using assms(2,3) len normalize_request_limit [OF assms(1)] by (intro follow_pages) (auto simp: int64_def)
  moreover have "sorted_wrt (\<lambda>a b. ?c a b < 0) ?hits"
  proof -
    have "distinct (map doc_id (filter (matches rt s (sr_query r') (sr_filters r')) ?docs))"
      using stored_ids [of rt ops resource] by (simp add: distinct_map_filter)
    then have dist: "distinct (map (doc_id \<circ> fst) ?found)" by (simp add: matched_def comp_def)
    then have "distinct (map (doc_id \<circ> fst) ?hits)"
      unfolding sort_documents_def by (metis mset_eq_imp_distinct_iff mset_map mset_sort_by)
    moreover have "sorted_wrt (\<lambda>a b. ?c a b \<le> 0) ?hits"
      unfolding sort_documents_def by (rule sorted_sort_by [OF compare_scored_ok])
    moreover have "?c x y \<noteq> 0" if "(doc_id \<circ> fst) x \<noteq> (doc_id \<circ> fst) y" for x y
      using that compare_ordered_str(2) [of "doc_id (fst x)" "doc_id (fst y)"]
      by (auto simp: compare_scored_def Let_def compare_ordered_def [of "(<)"])
    ultimately show ?thesis by (rule sorted_strict)
  qed
  moreover have "set ?hits = {(d, score_of rt s (sr_query r') d) |d. d \<in> set ?docs \<and> matches rt s (sr_query r') (sr_filters r') d}"
    by (auto simp: matched_def)
  ultimately show ?thesis by (auto simp: encode_cursor_def)
qed


theorem search_pages_partition_the_matches_witness:
  "\<exists>hits. follow 4 (\<lambda>cur. memory_search demo_rt (\<lambda>k. False) (stored demo_rt demo_ops) ''orders'' demo_schema
       (projr (normalize_request demo_rt demo_schema demo_request)\<lparr>sr_cursor := cur\<rparr>)) [] = Some hits \<and>
     (\<lambda>(d, n). doc_id d) ` set hits = {''1'', ''2'', ''3''}"
proof -
  let ?r = "projr (normalize_request demo_rt demo_schema demo_request)" and ?docs = "snapshot demo_rt (stored demo_rt demo_ops) ''orders''"
  have "\<not> isl (normalize_request demo_rt demo_schema demo_request)" by code_simp
  then have r: "normalize_request demo_rt demo_schema demo_request = Inr ?r" by (metis sum.collapse(2))
  have docs: "length ?docs = 3" "map doc_id (filter (matches demo_rt demo_schema (sr_query ?r) (sr_filters ?r)) ?docs) = [''1'', ''2'', ''3'']"
    by code_simp+
  from search_pages_partition_the_matches [OF r, of demo_ops "''orders''" 4] docs(1) obtain hits where
    hits: "follow 4 (\<lambda>cur. memory_search demo_rt (\<lambda>k. False) (stored demo_rt demo_ops) ''orders'' demo_schema (?r\<lparr>sr_cursor := cur\<rparr>)) [] = Some hits"
      "set hits = {(d, score_of demo_rt demo_schema (sr_query ?r) d) |d. d \<in> set ?docs \<and> matches demo_rt demo_schema (sr_query ?r) (sr_filters ?r) d}"
    by (auto simp: int64_def)
  have "(\<lambda>(d, n). doc_id d) ` set hits = set (map doc_id (filter (matches demo_rt demo_schema (sr_query ?r) (sr_filters ?r)) ?docs))"
    unfolding hits(2) by force
  then show ?thesis using hits(1) docs(2) by auto
qed

end
