(* ===== verification/Context_Values.thy ===== *)
theory Context_Values
  imports Go_Maps Go_Strconv Request_Errors
begin

text \<open>
  \<^verbatim>\<open>context.go\<close>: the values a request carries (\<^verbatim>\<open>Set\<close>, \<^verbatim>\<open>Get\<close>, \<^verbatim>\<open>Delete\<close>), the getters that convert
  them and the identity helpers \<^verbatim>\<open>UserID\<close> and \<^verbatim>\<open>UserSubject\<close>. A value is one of the types the getters
  look for, or an \<open>Opaque\<close> one of any other type; floating-point values are left out.
\<close>

datatype 'a ctx_value = Text_Val string | Int_Val int | Uint_Val int | Bool_Val bool | Opaque 'a

type_synonym 'a ctx_values = "(string \<times> 'a ctx_value) list"

definition ctx_set :: "string \<Rightarrow> 'a ctx_value \<Rightarrow> 'a ctx_values \<Rightarrow> 'a ctx_values" where
  "ctx_set key v c = AList.update key v c"

definition ctx_delete :: "string \<Rightarrow> 'a ctx_values \<Rightarrow> 'a ctx_values" where
  "ctx_delete key c = AList.delete key c"

definition ctx_get :: "'a ctx_values \<Rightarrow> string \<Rightarrow> 'a ctx_value option" where
  "ctx_get c key = map_of c key"

text \<open>\<^verbatim>\<open>GetString\<close>; \<open>print\<close> is what \<^verbatim>\<open>fmt\<close> makes of a value of another type.\<close>

definition get_string :: "('a \<Rightarrow> string) \<Rightarrow> 'a ctx_values \<Rightarrow> string \<Rightarrow> string" where
  "get_string print c key =
     (case ctx_get c key of
        None \<Rightarrow> []
      | Some (Text_Val s) \<Rightarrow> s
      | Some (Int_Val i) \<Rightarrow> itoa i
      | Some (Uint_Val i) \<Rightarrow> itoa i
      | Some (Bool_Val b) \<Rightarrow> if b then ''true'' else ''false''
      | Some (Opaque x) \<Rightarrow> print x)"

text \<open>\<^verbatim>\<open>GetInt64\<close>: an unsigned value from \<open>2 ^ 63\<close> wraps, a string is parsed.\<close>

definition get_int64 :: "'a ctx_values \<Rightarrow> string \<Rightarrow> int" where
  "get_int64 c key =
     (case ctx_get c key of
        Some (Int_Val i) \<Rightarrow> i
      | Some (Uint_Val i) \<Rightarrow> wrap64 i
      | Some (Text_Val s) \<Rightarrow> (case parse_int 64 s of Some i \<Rightarrow> i | None \<Rightarrow> 0)
      | _ \<Rightarrow> 0)"

text \<open>\<^verbatim>\<open>strconv.ParseBool\<close> and \<^verbatim>\<open>GetBool\<close>, which does not look at unsigned values.\<close>

definition parse_bool :: "string \<Rightarrow> bool option" where
  "parse_bool s =
     (if s \<in> set [''1'', ''t'', ''T'', ''true'', ''TRUE'', ''True''] then Some True
      else if s \<in> set [''0'', ''f'', ''F'', ''false'', ''FALSE'', ''False''] then Some False else None)"

definition get_bool :: "'a ctx_values \<Rightarrow> string \<Rightarrow> bool" where
  "get_bool c key =
     (case ctx_get c key of
        Some (Bool_Val b) \<Rightarrow> b
      | Some (Int_Val i) \<Rightarrow> i \<noteq> 0
      | Some (Text_Val s) \<Rightarrow> (case parse_bool s of Some b \<Rightarrow> b | None \<Rightarrow> False)
      | _ \<Rightarrow> False)"

definition query_bool :: "string \<Rightarrow> bool list \<Rightarrow> bool" where
  "query_bool val defaults =
     (let fallback = (case defaults of d # _ \<Rightarrow> d | [] \<Rightarrow> False)
      in if val = [] then fallback else (case parse_bool val of Some b \<Rightarrow> b | None \<Rightarrow> fallback))"

section \<open>Identity helpers\<close>

definition user_id :: "'a ctx_values \<Rightarrow> int" where
  "user_id c =
     (if 0 < get_int64 c ''user_id'' then get_int64 c ''user_id''
      else if 0 < get_int64 c ''sub'' then get_int64 c ''sub'' else 0)"

definition require_user_id :: "'a ctx_values \<Rightarrow> problem + int" where
  "require_user_id c = (if user_id c \<le> 0 then Inl (err_unauthorized ''Authentication required'') else Inr (user_id c))"

definition user_subject :: "('a \<Rightarrow> string) \<Rightarrow> 'a ctx_values \<Rightarrow> string" where
  "user_subject print c = get_string print c ''sub''"

definition require_user_subject :: "('a \<Rightarrow> string) \<Rightarrow> 'a ctx_values \<Rightarrow> problem + string" where
  "require_user_subject print c =
     (if user_subject print c = [] then Inl (err_unauthorized ''Authentication required'')
      else Inr (user_subject print c))"

section \<open>Lookup after update\<close>

lemma ctx_get_set [simp]: "ctx_get (ctx_set k v c) k' = (if k' = k then Some v else ctx_get c k')"
  by (simp add: ctx_get_def ctx_set_def update_conv')

lemma ctx_get_delete [simp]: "ctx_get (ctx_delete k c) k' = (if k' = k then None else ctx_get c k')"
  by (simp add: ctx_get_def ctx_delete_def delete_conv')

lemma require_user_id_positive: "require_user_id c = Inr i \<Longrightarrow> 0 < i"
  by (auto simp: require_user_id_def split: if_splits)

end
