(* ===== verification/Auth_Identity.thy ===== *)
theory Auth_Identity
  imports Context_Values
begin

text \<open>
  \<^verbatim>\<open>auth/identity.go\<close> and \<^verbatim>\<open>auth/auth.go\<close>: verified claims, their canonical form, where a request keeps
  them, and the guards on roles, policies and one-time codes. Letters outside ASCII are not folded when
  roles are compared.
\<close>

record user_claims =
  claim_id :: string
  claim_subject :: string
  claim_email :: string
  claim_roles :: "string list"
  claim_attributes :: "string \<rightharpoonup> string"
  claim_tenant :: string

datatype identity_error =
    Identity_Id_Invalid | Numeric_Identity_Not_Positive | Subject_Conflicts | Invalid_Verified_Identity

section \<open>Canonical identities\<close>

text \<open>The canonical text, the number it stands for and whether it is a number.\<close>

definition canonical_identity_id :: "string \<Rightarrow> identity_error + string \<times> int \<times> bool" where
  "canonical_identity_id v =
     (if v = [] \<or> 256 < length v then Inl Identity_Id_Invalid
      else if list_ex (\<lambda>r. rune_is_control r \<or> rune_is_space r) (runes v) then Inl Identity_Id_Invalid
      else (case parse_int 64 (trim_prefix v ''usr_'') of
          Some n \<Rightarrow> if n \<le> 0 then Inl Numeric_Identity_Not_Positive else Inr (itoa n, n, True)
        | None \<Rightarrow> Inr (v, 0, False)))"

definition canonical_user_claims :: "user_claims \<Rightarrow> identity_error + user_claims \<times> int \<times> bool" where
  "canonical_user_claims claims =
     (case canonical_identity_id (claim_id claims) of
        Inl e \<Rightarrow> Inl e
      | Inr (canon, n, numeric) \<Rightarrow>
          (let subject = (if claim_subject claims = [] then canon else claim_subject claims)
           in case canonical_identity_id subject of
                Inl e \<Rightarrow> Inl Subject_Conflicts
              | Inr (sub, m, subject_numeric) \<Rightarrow>
                  if sub \<noteq> canon \<or> subject_numeric \<noteq> numeric \<or> m \<noteq> n then Inl Subject_Conflicts
                  else Inr (claims\<lparr>claim_id := canon, claim_subject := sub\<rparr>, n, numeric)))"

section \<open>The identity of a request\<close>

definition clear_verified_identity :: "user_claims ctx_values \<Rightarrow> user_claims ctx_values" where
  "clear_verified_identity c = ctx_delete ''sub'' (ctx_delete ''user_id'' (ctx_delete ''user'' c))"

definition install_verified_identity :: "user_claims ctx_values \<Rightarrow> user_claims \<Rightarrow> identity_error + user_claims ctx_values" where
  "install_verified_identity c claims =
     (case canonical_user_claims claims of
        Inl e \<Rightarrow> Inl Invalid_Verified_Identity
      | Inr (verified, n, numeric) \<Rightarrow>
          (let c = ctx_set ''user'' (Opaque verified) (clear_verified_identity c);
               c = ctx_set ''user_id'' (if numeric then Int_Val n else Text_Val (claim_id verified)) c
           in Inr (ctx_set ''sub'' (Text_Val (claim_subject verified)) c)))"

definition get_user :: "user_claims ctx_values \<Rightarrow> user_claims option" where
  "get_user c = (case ctx_get c ''user'' of Some (Opaque claims) \<Rightarrow> Some claims | _ \<Rightarrow> None)"

section \<open>Guards\<close>

text \<open>A guard lets the chain continue (\<open>None\<close>) or answers with a problem.\<close>

definition equal_fold :: "string \<Rightarrow> string \<Rightarrow> bool" where
  "equal_fold s t \<longleftrightarrow> to_lower s = to_lower t"

definition has_role :: "user_claims \<Rightarrow> string \<Rightarrow> bool" where
  "has_role u role = list_ex (\<lambda>assigned. equal_fold assigned role) (claim_roles u)"

definition require_roles :: "string list \<Rightarrow> string \<Rightarrow> user_claims ctx_values \<Rightarrow> problem option" where
  "require_roles required printed c =
     (case get_user c of
        None \<Rightarrow> Some (err_unauthorized ''Unauthenticated user context'')
      | Some claims \<Rightarrow>
          if list_ex (has_role claims) required then None
          else Some (err_forbidden (''Forbidden: Requires one of roles '' @ printed)))"

definition require_policy :: "(user_claims \<Rightarrow> bool) option \<Rightarrow> user_claims ctx_values \<Rightarrow> problem option" where
  "require_policy policy c =
     (case get_user c of
        None \<Rightarrow> Some (err_unauthorized ''Unauthenticated user context'')
      | Some claims \<Rightarrow>
          (case policy of
             None \<Rightarrow> Some (err_forbidden ''Forbidden: Request failed ABAC policy'')
           | Some p \<Rightarrow> if p claims then None else Some (err_forbidden ''Forbidden: Request failed ABAC policy'')))"

section \<open>One-time codes\<close>

text \<open>\<open>mac\<close> is HMAC-SHA1 on lists of bytes; times are Unix seconds. Go's division truncates.\<close>

definition be_bytes64 :: "int \<Rightarrow> nat list" where
  "be_bytes64 x = map (\<lambda>i. nat ((x mod 2 ^ 64) div 256 ^ (7 - i) mod 256)) [0..<8]"

definition trunc_div :: "int \<Rightarrow> int \<Rightarrow> int" where
  "trunc_div a b = (if a < 0 then - ((- a) div b) else a div b)"

definition pad_decimal :: "nat \<Rightarrow> nat \<Rightarrow> string" where
  "pad_decimal w n = replicate (w - length (decimal n)) CHR ''0'' @ decimal n"

definition generate_totp_code :: "(string \<Rightarrow> nat list \<Rightarrow> nat list) \<Rightarrow> string \<Rightarrow> int \<Rightarrow> string" where
  "generate_totp_code mac secret at =
     (let hash = mac secret (be_bytes64 (trunc_div at 30));
          offset = hash ! (length hash - 1) mod 16;
          word = ((hash ! offset * 256 + hash ! (offset + 1)) * 256 + hash ! (offset + 2)) * 256 + hash ! (offset + 3)
      in pad_decimal 6 (word mod 2 ^ 31 mod 1000000))"

definition verify_totp_code :: "(string \<Rightarrow> nat list \<Rightarrow> nat list) \<Rightarrow> string \<Rightarrow> string \<Rightarrow> int \<Rightarrow> bool" where
  "verify_totp_code mac secret code at =
     (if length secret < 16 \<or> length code \<noteq> 6 then False
      else if list_ex (\<lambda>c. \<not> byte_in c 48 57) code then False
      else list_ex (\<lambda>k. code = generate_totp_code mac secret (at + k * 30)) [- 1, 0, 1])"

definition require_mfa :: "(string \<Rightarrow> nat list \<Rightarrow> nat list) \<Rightarrow> string \<Rightarrow> string \<Rightarrow> int \<Rightarrow> problem option" where
  "require_mfa mac secret code now =
     (if \<not> verify_totp_code mac secret code now then Some (err_unauthorized ''Missing or invalid MFA code'') else None)"

section \<open>Canonical identities are stable\<close>

lemma itoa_pos: "0 < n \<Longrightarrow> itoa n = decimal (nat n)"
  by (simp add: itoa_def)

lemma decimal_ascii: "\<forall>c\<in>set (decimal n). byte_in c 0 127"
  using decimal_set by (fastforce simp: byte_in_def)

lemma decimal_runes_plain: "\<not> list_ex (\<lambda>r. rune_is_control r \<or> rune_is_space r) (runes (decimal n))"
proof -
  have "runes (decimal n) = map of_char (decimal n)" using decimal_ascii by (rule runes_ascii)
  moreover have "\<forall>c\<in>set (decimal n). \<not> (rune_is_control (of_char c) \<or> rune_is_space (of_char c))"
    using decimal_set by (fastforce simp: byte_in_def rune_is_control_def rune_is_space_def)
  ultimately show ?thesis by (simp add: list_ex_iff)
qed

lemma decimal_no_prefix: "trim_prefix (decimal n) (CHR ''u'' # p) = decimal n"
proof -
  have "CHR ''u'' \<notin> set (decimal n)" using decimal_set by (fastforce simp: byte_in_def)
  then have "\<not> has_prefix (decimal n) (CHR ''u'' # p)" by (auto simp: has_prefix_iff)
  then show ?thesis by (simp add: trim_prefix_def)
qed

lemma canonical_identity_number: "0 < n \<Longrightarrow> n < 2 ^ 63 \<Longrightarrow> canonical_identity_id (itoa n) = Inr (itoa n, n, True)"
proof -
  assume n: "0 < n" "n < 2 ^ 63"
  have "length (decimal (nat n)) \<le> 19" by (rule length_decimal) (use n in auto)
  moreover have "decimal (nat n) \<noteq> []" using decimal_head [of "nat n"] by auto
  moreover have "parse_int 64 (decimal (nat n)) = Some n"
    using parse_int_itoa [of 64 n] n by (simp add: itoa_pos)
  ultimately show ?thesis
    using n decimal_runes_plain [of "nat n"] by (simp add: canonical_identity_id_def itoa_pos decimal_no_prefix)
qed

lemma canonical_identity_id_Inr:
  assumes "canonical_identity_id v = Inr (s, n, numeric)"
  shows "canonical_identity_id s = Inr (s, n, numeric)"
    and "if numeric then 0 < n \<and> n < 2 ^ 63 \<and> s = itoa n else n = 0 \<and> s = v \<and> parse_int 64 (trim_prefix v ''usr_'') = None"
    and "s \<noteq> []"
proof -
  consider "parse_int 64 (trim_prefix v ''usr_'') = Some n" "0 < n" "s = itoa n" "numeric"
    | "parse_int 64 (trim_prefix v ''usr_'') = None" "n = 0" "s = v" "\<not> numeric"
    using assms by (auto simp: canonical_identity_id_def split: if_splits option.splits)
  then have "canonical_identity_id s = Inr (s, n, numeric) \<and>
    (if numeric then 0 < n \<and> n < 2 ^ 63 \<and> s = itoa n else n = 0 \<and> s = v \<and> parse_int 64 (trim_prefix v ''usr_'') = None)"
  proof cases
    case 1
    then show ?thesis using parse_int_range [OF 1(1)] by (simp add: canonical_identity_number)
  next
    case 2
    then show ?thesis using assms by simp
  qed
  then show again: "canonical_identity_id s = Inr (s, n, numeric)"
    and "if numeric then 0 < n \<and> n < 2 ^ 63 \<and> s = itoa n else n = 0 \<and> s = v \<and> parse_int 64 (trim_prefix v ''usr_'') = None"
    by blast+
  from again show "s \<noteq> []" by (auto simp: canonical_identity_id_def)
qed

lemma canonical_user_claims_Inr:
  assumes "canonical_user_claims claims = Inr (verified, n, numeric)"
  shows "canonical_identity_id (claim_id claims) = Inr (claim_id verified, n, numeric)"
    and "claim_subject verified = claim_id verified"
    and "verified = claims\<lparr>claim_id := claim_id verified, claim_subject := claim_id verified\<rparr>"
  using assms by (auto simp: canonical_user_claims_def Let_def split: sum.splits if_splits)

lemma canonical_user_claims_again:
  assumes "canonical_user_claims claims = Inr (verified, n, numeric)"
  shows "canonical_user_claims verified = Inr (verified, n, numeric)"
proof -
  note c = canonical_user_claims_Inr [OF assms]
  have "canonical_identity_id (claim_id verified) = Inr (claim_id verified, n, numeric)"
    "claim_id verified \<noteq> []"
    using canonical_identity_id_Inr [OF c(1)] by simp_all
  then show ?thesis using c(2) by (simp add: canonical_user_claims_def)
qed

section \<open>What a request reads of its identity\<close>

lemma opaque_identity_no_number:
  assumes "canonical_identity_id v = Inr (s, n, False)"
  shows "parse_int 64 s = None"
proof -
  have v: "s = v" "parse_int 64 (trim_prefix v ''usr_'') = None" using canonical_identity_id_Inr(2) [OF assms] by simp_all
  show ?thesis
  proof (cases "has_prefix v ''usr_''")
    case True
    then obtain r where "v = CHR ''u'' # ''sr_'' @ r" by (auto simp: has_prefix_iff)
    then show ?thesis using v(1) by (simp add: parse_int_def)
  qed (use v in \<open>simp add: trim_prefix_def\<close>)
qed

lemma install_verified_identity_Inr:
  "install_verified_identity c claims = Inr c' \<longleftrightarrow>
     (\<exists>verified n numeric. canonical_user_claims claims = Inr (verified, n, numeric)
        \<and> c' = ctx_set ''sub'' (Text_Val (claim_subject verified))
             (ctx_set ''user_id'' (if numeric then Int_Val n else Text_Val (claim_id verified))
               (ctx_set ''user'' (Opaque verified) (clear_verified_identity c))))"
  by (auto simp: install_verified_identity_def Let_def split: sum.splits)

lemma installed_identity:
  assumes "install_verified_identity c claims = Inr c'"
  obtains verified n numeric where "canonical_user_claims claims = Inr (verified, n, numeric)"
    "get_user c' = Some verified" "user_subject print c' = claim_id verified" "user_id c' = n"
    "0 < n \<longleftrightarrow> numeric"
proof -
  obtain verified n numeric where v: "canonical_user_claims claims = Inr (verified, n, numeric)"
    and c': "c' = ctx_set ''sub'' (Text_Val (claim_subject verified))
             (ctx_set ''user_id'' (if numeric then Int_Val n else Text_Val (claim_id verified))
               (ctx_set ''user'' (Opaque verified) (clear_verified_identity c)))"
    using assms unfolding install_verified_identity_Inr by blast
  note inr = canonical_user_claims_Inr [OF v]
  note canon = canonical_identity_id_Inr [OF inr(1)]
  have "get_user c' = Some verified" "user_subject print c' = claim_id verified"
    using inr(2) by (simp_all add: get_user_def user_subject_def get_string_def c')
  moreover have "user_id c' = n"
    using canon inr(1,2) opaque_identity_no_number [of "claim_id claims" "claim_id verified" n]
    by (cases numeric) (auto simp: user_id_def get_int64_def c')
  moreover have "0 < n \<longleftrightarrow> numeric" using canon(2) by (cases numeric) auto
  ultimately show thesis using that v by blast
qed

section \<open>Codes of the neighbouring steps are accepted\<close>

lemma pad_decimal_digits: "n < 10 ^ w \<Longrightarrow> 0 < w \<Longrightarrow> length (pad_decimal w n) = w \<and> (\<forall>c\<in>set (pad_decimal w n). byte_in c 48 57)"
  using length_decimal [of n w] decimal_set [of _ n] by (auto simp: pad_decimal_def byte_in_def)

lemma totp_code_digits:
  "length (generate_totp_code mac secret at) = 6" "\<forall>c\<in>set (generate_totp_code mac secret at). byte_in c 48 57"
proof -
  have "pad_decimal 6 (w mod 2 ^ 31 mod 1000000) = p \<Longrightarrow> length p = 6 \<and> (\<forall>c\<in>set p. byte_in c 48 57)" for w p
    using pad_decimal_digits [of "w mod 2 ^ 31 mod 1000000" 6] by simp
  then show "length (generate_totp_code mac secret at) = 6"
    "\<forall>c\<in>set (generate_totp_code mac secret at). byte_in c 48 57"
    unfolding generate_totp_code_def Let_def by blast+
qed

theorem totp_window_is_accepted:
  "16 \<le> length secret \<Longrightarrow> k \<in> {- 1, 0, 1} \<Longrightarrow>
     verify_totp_code mac secret (generate_totp_code mac secret (at + k * 30)) at"
  by (auto simp: verify_totp_code_def totp_code_digits list_ex_iff)

end
