(* ===== verification/Auth_Session.thy ===== *)
theory Auth_Session
  imports Auth_Identity
begin

text \<open>
  \<^verbatim>\<open>auth/session.go\<close>: the bounded process-local sessions. Times are nanoseconds; the clock reading, the
  random bytes and the cookie a request presents are arguments, and every section under the lock is one
  step. The history of a manager says what each identifier stands for, and requests are answered by it.
\<close>

record session_rec =
  sr_claims :: user_claims
  sr_expires :: int

record session_config =
  sc_ttl :: int
  sc_cookie_name :: string
  sc_allow_insecure :: bool
  sc_same_site :: int
  sc_max_sessions :: int

record session_manager =
  sm_store :: "(string \<times> session_rec) list"
  sm_ttl :: int
  sm_cookie_name :: string
  sm_secure :: bool
  sm_same_site :: int
  sm_max_sessions :: int

definition go_second :: int where "go_second = 1000000000"

definition is_safe_cookie_name :: "string \<Rightarrow> bool" where
  "is_safe_cookie_name name \<longleftrightarrow> name \<noteq> [] \<and> length name \<le> 128 \<and>
     list_all (\<lambda>r. 32 < r \<and> r < 127 \<and> r \<notin> set (map of_char (''()<>@,;:'' @ [CHR 0x5C, CHR 0x22] @ ''/[]?={}''))) (runes name)"

datatype session_error = Session_Ttl_Unsafe | Cookie_Name_Invalid | Same_Site_Invalid | Session_Count_Unsafe

definition new_session_manager :: "session_config \<Rightarrow> session_error + session_manager" where
  "new_session_manager config =
     (let name = (if sc_cookie_name config = [] then ''gpp_session_id'' else sc_cookie_name config);
          same_site = (if sc_same_site config = 0 then 2 else sc_same_site config);
          maximum = (if sc_max_sessions config = 0 then 100000 else sc_max_sessions config)
      in if sc_ttl config < 5 * 60 * go_second \<or> 30 * 24 * 3600 * go_second < sc_ttl config then Inl Session_Ttl_Unsafe
         else if \<not> is_safe_cookie_name name then Inl Cookie_Name_Invalid
         else if same_site < 1 \<or> 4 < same_site then Inl Same_Site_Invalid
         else if maximum < 1 \<or> 1000000 < maximum then Inl Session_Count_Unsafe
         else Inr \<lparr>sm_store = [], sm_ttl = sc_ttl config, sm_cookie_name = name, sm_secure = \<not> sc_allow_insecure config,
                sm_same_site = same_site, sm_max_sessions = maximum\<rparr>)"

record set_cookie =
  ck_name :: string
  ck_content :: string
  ck_path :: string
  ck_http_only :: bool
  ck_secure :: bool
  ck_same_site :: int
  ck_expires :: int
  ck_max_age :: int

section \<open>Operations\<close>

definition revoke_session :: "session_manager \<Rightarrow> string \<Rightarrow> session_manager" where
  "revoke_session m identifier =
     (if identifier = [] then m else m\<lparr>sm_store := AList.delete identifier (sm_store m)\<rparr>)"

definition purge_expired_locked :: "int \<Rightarrow> session_manager \<Rightarrow> session_manager" where
  "purge_expired_locked now m = m\<lparr>sm_store := filter (\<lambda>p. now < sr_expires (snd p)) (sm_store m)\<rparr>"

text \<open>The section under the lock; \<open>None\<close> when the store is full.\<close>

definition store_session :: "session_manager \<Rightarrow> int \<Rightarrow> string \<Rightarrow> user_claims \<Rightarrow> session_manager \<times> bool" where
  "store_session m now identifier verified =
     (let m = purge_expired_locked now m
      in if sm_max_sessions m \<le> int (length (sm_store m)) then (m, False)
         else (m\<lparr>sm_store := AList.update identifier \<lparr>sr_claims = verified, sr_expires = now + sm_ttl m\<rparr> (sm_store m)\<rparr>, True))"

definition session_cookie :: "session_manager \<Rightarrow> int \<Rightarrow> string \<Rightarrow> set_cookie" where
  "session_cookie m now identifier =
     \<lparr>ck_name = sm_cookie_name m, ck_content = identifier, ck_path = ''/'', ck_http_only = True, ck_secure = sm_secure m,
      ck_same_site = sm_same_site m, ck_expires = now + sm_ttl m, ck_max_age = sm_ttl m div go_second\<rparr>"

text \<open>\<open>random\<close> is what the generator delivers, \<open>None\<close> its failure; the answer is the cookie, \<open>None\<close> the
  empty identifier.\<close>

definition create_session ::
  "session_manager \<Rightarrow> string option \<Rightarrow> string option \<Rightarrow> int \<Rightarrow> user_claims \<Rightarrow> session_manager \<times> set_cookie option" where
  "create_session m presented random now claims =
     (case canonical_user_claims claims of
        Inl e \<Rightarrow> (m, None)
      | Inr (verified, n, numeric) \<Rightarrow>
          (let m = (case presented of None \<Rightarrow> m | Some old \<Rightarrow> revoke_session m old)
           in case random of
                None \<Rightarrow> (m, None)
              | Some bytes \<Rightarrow>
                  (case store_session m now (b64_encode bytes) verified of
                     (m, False) \<Rightarrow> (m, None)
                   | (m, True) \<Rightarrow> (m, Some (session_cookie m now (b64_encode bytes))))))"

definition claims_for_request :: "session_manager \<Rightarrow> string option \<Rightarrow> int \<Rightarrow> session_manager \<times> user_claims option" where
  "claims_for_request m presented now =
     (case presented of
        None \<Rightarrow> (m, None)
      | Some identifier \<Rightarrow>
          if identifier = [] then (m, None)
          else (case map_of (sm_store m) identifier of
              None \<Rightarrow> (m, None)
            | Some r \<Rightarrow>
                if \<not> now < sr_expires r then (revoke_session m identifier, None)
                else (case canonical_user_claims (sr_claims r) of
                    Inl e \<Rightarrow> (m, None)
                  | Inr v \<Rightarrow> (m, Some (sr_claims r)))))"

definition session_problem :: problem where
  "session_problem = err_unauthorized ''Missing, invalid, or expired session''"

definition session_middleware ::
  "session_manager \<Rightarrow> string option \<Rightarrow> int \<Rightarrow> user_claims ctx_values \<Rightarrow> session_manager \<times> user_claims ctx_values \<times> problem option" where
  "session_middleware m presented now c =
     (let c = clear_verified_identity c
      in case claims_for_request m presented now of
           (m, None) \<Rightarrow> (m, c, Some session_problem)
         | (m, Some claims) \<Rightarrow>
             (case install_verified_identity c claims of
                Inl e \<Rightarrow> (m, c, Some session_problem)
              | Inr c \<Rightarrow> (m, c, None)))"

section \<open>The history of a manager\<close>

datatype session_event = Created string user_claims int | Revoked string

text \<open>What an identifier stands for after a history, the latest event first.\<close>

fun session_of :: "session_event list \<Rightarrow> string \<Rightarrow> (user_claims \<times> int) option" where
  "session_of [] identifier = None"
| "session_of (Created i claims expires # h) identifier =
     (if i = identifier then Some (claims, expires) else session_of h identifier)"
| "session_of (Revoked i # h) identifier = (if i = identifier then None else session_of h identifier)"

definition create_events ::
  "session_manager \<Rightarrow> string option \<Rightarrow> string option \<Rightarrow> int \<Rightarrow> user_claims \<Rightarrow> session_event list" where
  "create_events m presented random now claims =
     (case canonical_user_claims claims of
        Inl e \<Rightarrow> []
      | Inr (verified, n, numeric) \<Rightarrow>
          (case snd (create_session m presented random now claims) of
             None \<Rightarrow> [] | Some ck \<Rightarrow> [Created (ck_content ck) verified (ck_expires ck)]) @
          (case presented of None \<Rightarrow> [] | Some old \<Rightarrow> if old = [] then [] else [Revoked old]))"

text \<open>Operations on a manager as they reach its lock; an operation may have read the clock earlier.\<close>

inductive session_reach :: "session_manager \<Rightarrow> session_manager \<Rightarrow> int \<Rightarrow> session_event list \<Rightarrow> bool" where
  start: "session_reach m0 m0 clock []"
| tick: "session_reach m0 m clock h \<Longrightarrow> clock \<le> clock' \<Longrightarrow> session_reach m0 m clock' h"
| create: "session_reach m0 m clock h \<Longrightarrow> now \<le> clock \<Longrightarrow> (case random of None \<Rightarrow> True | Some b \<Rightarrow> length b = 32) \<Longrightarrow>
    session_reach m0 (fst (create_session m presented random now claims)) clock
      (create_events m presented random now claims @ h)"
| revoke: "session_reach m0 m clock h \<Longrightarrow> identifier \<noteq> [] \<Longrightarrow>
    session_reach m0 (revoke_session m identifier) clock (Revoked identifier # h)"
| request: "session_reach m0 m clock h \<Longrightarrow> now \<le> clock \<Longrightarrow>
    session_reach m0 (fst (claims_for_request m presented now)) clock h"

text \<open>The store holds what the history says, apart from sessions that are over.\<close>

definition session_inv :: "session_manager \<Rightarrow> session_manager \<Rightarrow> int \<Rightarrow> session_event list \<Rightarrow> bool" where
  "session_inv m0 m clock h \<longleftrightarrow>
     distinct (map fst (sm_store m)) \<and> int (length (sm_store m)) \<le> sm_max_sessions m0
     \<and> m = m0\<lparr>sm_store := sm_store m\<rparr>
     \<and> (\<forall>i r. map_of (sm_store m) i = Some r \<longrightarrow> session_of h i = Some (sr_claims r, sr_expires r))
     \<and> (\<forall>i c e. session_of h i = Some (c, e) \<longrightarrow> clock < e \<longrightarrow> map_of (sm_store m) i = Some \<lparr>sr_claims = c, sr_expires = e\<rparr>)
     \<and> (\<forall>i c e. session_of h i = Some (c, e) \<longrightarrow> i \<noteq> [] \<and> (\<exists>n numeric. canonical_user_claims c = Inr (c, n, numeric)))"

section \<open>The store follows the history\<close>

lemma canonical_ok: "canonical_user_claims c = Inr (v, n, b) \<Longrightarrow> \<exists>n b. canonical_user_claims v = Inr (v, n, b)"
  using canonical_user_claims_again by blast

lemma manager_update: "m = m0\<lparr>sm_store := sm_store m\<rparr> \<Longrightarrow> m\<lparr>sm_store := s\<rparr> = m0\<lparr>sm_store := s\<rparr>"
  by (cases m; cases m0) simp

lemma inv_update:
  assumes "session_inv m0 m clock h" "distinct (map fst s)" "length s \<le> length (sm_store m)"
    and "\<And>i r. map_of s i = Some r \<Longrightarrow> session_of h' i = Some (sr_claims r, sr_expires r)"
    and "\<And>i c e. session_of h' i = Some (c, e) \<Longrightarrow> clock < e \<Longrightarrow> map_of s i = Some \<lparr>sr_claims = c, sr_expires = e\<rparr>"
    and "\<And>i c e. session_of h' i = Some (c, e) \<Longrightarrow> session_of h i = Some (c, e)"
  shows "session_inv m0 (m\<lparr>sm_store := s\<rparr>) clock h'"
  unfolding session_inv_def
proof (intro conjI)
  show "int (length (sm_store (m\<lparr>sm_store := s\<rparr>))) \<le> sm_max_sessions m0"
    using assms(1,3) by (simp add: session_inv_def)
  show "m\<lparr>sm_store := s\<rparr> = m0\<lparr>sm_store := sm_store (m\<lparr>sm_store := s\<rparr>)\<rparr>"
    using assms(1) manager_update [of m m0 s] by (simp add: session_inv_def)
  show "\<forall>i c e. session_of h' i = Some (c, e) \<longrightarrow> i \<noteq> [] \<and> (\<exists>n numeric. canonical_user_claims c = Inr (c, n, numeric))"
    using assms(1,6) unfolding session_inv_def by blast
qed (use assms in auto)

lemma inv_revoke:
  assumes "session_inv m0 m clock h" "i \<noteq> []"
  shows "session_inv m0 (revoke_session m i) clock (Revoked i # h)"
proof -
  have "session_inv m0 (m\<lparr>sm_store := AList.delete i (sm_store m)\<rparr>) clock (Revoked i # h)"
  proof (rule inv_update [OF assms(1)])
    show "distinct (map fst (AList.delete i (sm_store m)))"
      using assms(1) distinct_delete by (auto simp: session_inv_def)
  qed (use assms(1) in \<open>auto simp: session_inv_def delete_conv' length_delete_le split: if_splits\<close>)
  then show ?thesis using assms(2) by (simp add: revoke_session_def)
qed

lemma inv_drop:
  assumes "session_inv m0 m clock h" "map_of (sm_store m) i = Some r" "sr_expires r \<le> clock"
  shows "session_inv m0 (revoke_session m i) clock h"
proof -
  have "session_inv m0 (m\<lparr>sm_store := AList.delete i (sm_store m)\<rparr>) clock h"
  proof (rule inv_update [OF assms(1)])
    show "distinct (map fst (AList.delete i (sm_store m)))"
      using assms(1) distinct_delete by (auto simp: session_inv_def)
    fix j c e
    assume "session_of h j = Some (c, e)" "clock < e"
    then have "map_of (sm_store m) j = Some \<lparr>sr_claims = c, sr_expires = e\<rparr>" and "j \<noteq> i"
      using assms unfolding session_inv_def by fastforce+
    then show "map_of (AList.delete i (sm_store m)) j = Some \<lparr>sr_claims = c, sr_expires = e\<rparr>"
      by (simp add: delete_conv')
  qed (use assms(1) in \<open>auto simp: session_inv_def delete_conv' length_delete_le split: if_splits\<close>)
  then show ?thesis using assms(1) by (cases "i = []") (simp_all add: revoke_session_def)
qed

lemma inv_purge:
  assumes "session_inv m0 m clock h" "now \<le> clock"
  shows "session_inv m0 (purge_expired_locked now m) clock h"
  unfolding purge_expired_locked_def
proof (rule inv_update [OF assms(1)])
  have d: "distinct (map fst (sm_store m))" using assms(1) by (simp add: session_inv_def)
  then show "distinct (map fst (filter (\<lambda>p. now < sr_expires (snd p)) (sm_store m)))"
    by (rule distinct_filter_keys)
  fix i c e
  assume "session_of h i = Some (c, e)" "clock < e"
  then show "map_of (filter (\<lambda>p. now < sr_expires (snd p)) (sm_store m)) i = Some \<lparr>sr_claims = c, sr_expires = e\<rparr>"
  proof -
    have "map_of (sm_store m) i = Some \<lparr>sr_claims = c, sr_expires = e\<rparr>"
      using assms(1) \<open>session_of h i = Some (c, e)\<close> \<open>clock < e\<close> unfolding session_inv_def by blast
    then show ?thesis using \<open>clock < e\<close> assms(2) d by (simp add: map_of_filter_snd [where P = "\<lambda>r. now < sr_expires r"])
  qed
next
  fix i r
  have d: "distinct (map fst (sm_store m))" using assms(1) by (simp add: session_inv_def)
  assume "map_of (filter (\<lambda>p. now < sr_expires (snd p)) (sm_store m)) i = Some r"
  then show "session_of h i = Some (sr_claims r, sr_expires r)"
    using assms(1) d
    by (auto simp: map_of_filter_snd [where P = "\<lambda>r. now < sr_expires r"] session_inv_def split: option.splits if_splits)
qed simp_all

lemma inv_store:
  assumes inv: "session_inv m0 m clock h" and ok: "canonical_user_claims v = Inr (v, n, b)" and i: "i \<noteq> []"
    and now: "now \<le> clock" and store: "store_session m now i v = (m', stored)"
  shows "session_inv m0 m' clock (if stored then Created i v (now + sm_ttl m) # h else h)" "sm_ttl m' = sm_ttl m"
proof -
  let ?p = "purge_expired_locked now m"
  have p: "session_inv m0 ?p clock h" using inv now by (rule inv_purge)
  have ttl: "sm_ttl ?p = sm_ttl m" "sm_max_sessions ?p = sm_max_sessions m0"
  proof -
    have "?p = m0\<lparr>sm_store := sm_store ?p\<rparr>" using p by (simp add: session_inv_def)
    from arg_cong [OF this, of sm_max_sessions] show "sm_max_sessions ?p = sm_max_sessions m0" by simp
  qed (simp add: purge_expired_locked_def)
  show "sm_ttl m' = sm_ttl m" using store ttl by (auto simp: store_session_def Let_def split: if_splits)
  show "session_inv m0 m' clock (if stored then Created i v (now + sm_ttl m) # h else h)"
  proof (cases stored)
    case False
    then show ?thesis using store p by (auto simp: store_session_def Let_def split: if_splits)
  next
    case True
    let ?r = "\<lparr>sr_claims = v, sr_expires = now + sm_ttl m\<rparr>"
    have full: "int (length (sm_store ?p)) < sm_max_sessions m0"
      and m': "m' = ?p\<lparr>sm_store := AList.update i ?r (sm_store ?p)\<rparr>"
      using store True ttl by (auto simp: store_session_def Let_def split: if_splits)
    have "session_inv m0 m' clock (Created i v (now + sm_ttl m) # h)"
      unfolding session_inv_def
    proof (intro conjI)
      show "distinct (map fst (sm_store m'))" using p m' by (simp add: session_inv_def distinct_update)
      show "int (length (sm_store m')) \<le> sm_max_sessions m0" using full m' by (simp add: length_update)
      show "m' = m0\<lparr>sm_store := sm_store m'\<rparr>"
        using p manager_update [of ?p m0] m' by (simp add: session_inv_def)
      show "\<forall>j r. map_of (sm_store m') j = Some r \<longrightarrow>
          session_of (Created i v (now + sm_ttl m) # h) j = Some (sr_claims r, sr_expires r)"
        using p m' by (auto simp: session_inv_def update_conv')
      show "\<forall>j c e. session_of (Created i v (now + sm_ttl m) # h) j = Some (c, e) \<longrightarrow> clock < e \<longrightarrow>
          map_of (sm_store m') j = Some \<lparr>sr_claims = c, sr_expires = e\<rparr>"
        using p m' by (auto simp: session_inv_def update_conv')
      show "\<forall>j c e. session_of (Created i v (now + sm_ttl m) # h) j = Some (c, e) \<longrightarrow>
          j \<noteq> [] \<and> (\<exists>n numeric. canonical_user_claims c = Inr (c, n, numeric))"
        using p ok i by (auto simp: session_inv_def)
    qed
    then show ?thesis using True by simp
  qed
qed

lemma b64_encode_not_Nil: "s \<noteq> [] \<Longrightarrow> b64_encode_in a s \<noteq> []"
  by (cases s; cases "tl s"; cases "tl (tl s)") (auto simp: b64_encode_in_def)

lemma inv_create:
  assumes inv: "session_inv m0 m clock h" and now: "now \<le> clock"
    and len: "case random of None \<Rightarrow> True | Some b \<Rightarrow> length b = 32"
  shows "session_inv m0 (fst (create_session m presented random now claims)) clock
           (create_events m presented random now claims @ h)"
proof (cases "canonical_user_claims claims")
  case (Inl e)
  then show ?thesis using inv by (simp add: create_session_def create_events_def)
next
  case (Inr q)
  then obtain v n b where v: "canonical_user_claims claims = Inr (v, n, b)" by (cases q) auto
  define m1 where "m1 = (case presented of None \<Rightarrow> m | Some old \<Rightarrow> revoke_session m old)"
  define h1 where "h1 = (case presented of None \<Rightarrow> [] | Some old \<Rightarrow> if old = [] then [] else [Revoked old]) @ h"
  have m1: "session_inv m0 m1 clock h1"
    using inv inv_revoke by (auto simp: m1_def h1_def revoke_session_def split: option.splits)
  have ttl: "sm_ttl m1 = sm_ttl m" by (simp add: m1_def revoke_session_def split: option.splits)
  show ?thesis
  proof (cases random)
    case None
    then show ?thesis using m1 v by (simp add: create_session_def create_events_def m1_def h1_def)
  next
    case (Some bytes)
    then have ne: "b64_encode bytes \<noteq> []" using len by (intro b64_encode_not_Nil) auto
    obtain m2 stored where st: "store_session m1 now (b64_encode bytes) v = (m2, stored)" by fastforce
    note s = inv_store [OF m1 canonical_user_claims_again [OF v] ne now st]
    then show ?thesis
      using v Some st ttl
      by (cases stored) (simp_all add: create_session_def create_events_def m1_def [symmetric] h1_def session_cookie_def)
  qed
qed

lemma inv_request: "session_inv m0 m clock h \<Longrightarrow> now \<le> clock \<Longrightarrow> session_inv m0 (fst (claims_for_request m presented now)) clock h"
  using inv_drop [of m0 m clock h]
  by (auto simp: claims_for_request_def split: option.split sum.split)

lemma inv_tick: "session_inv m0 m clock h \<Longrightarrow> clock \<le> clock' \<Longrightarrow> session_inv m0 m clock' h"
  unfolding session_inv_def by (meson le_less_trans)

lemma session_reach_inv:
  "session_reach m0 m clock h \<Longrightarrow> sm_store m0 = [] \<Longrightarrow> 0 \<le> sm_max_sessions m0 \<Longrightarrow> session_inv m0 m clock h"
proof (induction rule: session_reach.induct)
  case (start m0 clock)
  then show ?case by (simp add: session_inv_def)
qed (simp_all add: inv_tick inv_create inv_revoke inv_request)

lemma new_session_manager_empty:
  "new_session_manager config = Inr m \<Longrightarrow> sm_store m = [] \<and> 1 \<le> sm_max_sessions m \<and> 300 * go_second \<le> sm_ttl m"
  by (auto simp: new_session_manager_def Let_def split: if_splits)

text \<open>C7. Sessions follow their history: after any interleaving of logins, revocations and requests, a request
  is authenticated exactly when its cookie names a session that was created, was not revoked or rotated
  since and is not over, and it gets the claims of that login in canonical form; the store never holds
  more sessions than configured.\<close>
theorem sessions_follow_their_history:
  assumes "new_session_manager config = Inr m0" "session_reach m0 m clock h" "clock \<le> now"
  shows "snd (claims_for_request m presented now) =
           (case presented of None \<Rightarrow> None
            | Some i \<Rightarrow> (case session_of h i of Some (c, e) \<Rightarrow> if now < e then Some c else None | None \<Rightarrow> None))
         \<and> int (length (sm_store m)) \<le> sm_max_sessions m0"
proof -
  have inv: "session_inv m0 m now h"
    using session_reach_inv [OF assms(2)] new_session_manager_empty [OF assms(1)] inv_tick assms(3) by force
  show ?thesis
  proof (cases presented)
    case None
    then show ?thesis using inv by (simp add: claims_for_request_def session_inv_def)
  next
    case (Some i)
    show ?thesis
    proof (cases "map_of (sm_store m) i")
      case None
      then show ?thesis using inv \<open>presented = Some i\<close>
        unfolding session_inv_def claims_for_request_def by (fastforce split: option.splits prod.splits)
    next
      case r: (Some r)
      then have s: "session_of h i = Some (sr_claims r, sr_expires r)" using inv unfolding session_inv_def by blast
      then obtain n b where "i \<noteq> []" "canonical_user_claims (sr_claims r) = Inr (sr_claims r, n, b)"
        using inv unfolding session_inv_def by blast
      then show ?thesis using inv s r \<open>presented = Some i\<close>
        by (simp add: claims_for_request_def session_inv_def)
    qed
  qed
qed

definition sample_claims :: user_claims where
  "sample_claims = \<lparr>claim_id = ''usr_7'', claim_subject = [], claim_email = [], claim_roles = [''Admin''],
     claim_attributes = Map.empty, claim_tenant = []\<rparr>"

definition sample_session_config :: session_config where
  "sample_session_config = \<lparr>sc_ttl = 400 * go_second, sc_cookie_name = ''s'', sc_allow_insecure = False, sc_same_site = 0,
     sc_max_sessions = 1\<rparr>"

definition sample_manager :: session_manager where
  "sample_manager = projr (new_session_manager sample_session_config)"

definition sample_login :: "session_manager \<times> set_cookie option" where
  "sample_login = create_session sample_manager None (Some (replicate 32 CHR ''k'')) 5 sample_claims"

definition sample_history :: "session_event list" where
  "sample_history = create_events sample_manager None (Some (replicate 32 CHR ''k'')) 5 sample_claims @ []"

lemma sample_canonical:
  "canonical_user_claims sample_claims = Inr (sample_claims\<lparr>claim_id := ''7'', claim_subject := ''7''\<rparr>, 7, True)"
proof -
  have "canonical_identity_id ''usr_7'' = Inr (''7'', 7, True)"
    by (simp add: canonical_identity_id_def utf8_head_def byte_in_def rune_of_def rune_is_control_def rune_is_space_def
        trim_prefix_def has_prefix_def parse_int_def itoa_def decimal.simps digit_char_def char_of_eq_iff take_bit_eq_mod)
  with canonical_identity_id_Inr(1) [OF this] show ?thesis
    by (simp add: canonical_user_claims_def sample_claims_def)
qed

lemma sample_manager_simps: "new_session_manager sample_session_config = Inr sample_manager"
  "sm_max_sessions sample_manager = 1" "sm_ttl sample_manager = 400 * go_second" "sm_store sample_manager = []"
proof -
  have "is_safe_cookie_name ''s''" by (simp add: is_safe_cookie_name_def utf8_head_def byte_in_def rune_of_def)
  then show "new_session_manager sample_session_config = Inr sample_manager"
    "sm_max_sessions sample_manager = 1" "sm_ttl sample_manager = 400 * go_second" "sm_store sample_manager = []"
    by (simp_all add: sample_manager_def new_session_manager_def sample_session_config_def go_second_def)
qed

lemma sample_login_cookie: "map_option ck_content (snd sample_login) = Some (b64_encode (replicate 32 CHR ''k''))"
  unfolding sample_login_def create_session_def sample_canonical
  by (simp add: store_session_def purge_expired_locked_def sample_manager_simps session_cookie_def)

lemma sample_history_of: "session_of sample_history (b64_encode (replicate 32 CHR ''k'')) =
  Some (sample_claims\<lparr>claim_id := ''7'', claim_subject := ''7''\<rparr>, 5 + 400 * go_second)"
  unfolding sample_history_def create_events_def create_session_def sample_canonical
  by (simp add: store_session_def purge_expired_locked_def sample_manager_simps session_cookie_def)

theorem sessions_follow_their_history_witness:
  "map_option claim_id (snd (claims_for_request (fst sample_login) (map_option ck_content (snd sample_login)) 6)) = Some ''7''
   \<and> int (length (sm_store (fst sample_login))) \<le> 1"
proof -
  have reach: "session_reach sample_manager (fst sample_login) 5 sample_history"
    unfolding sample_login_def sample_history_def
    by (rule session_reach.create [OF session_reach.start]) simp_all
  have "(5 :: int) \<le> 6" by simp
  from sessions_follow_their_history [OF sample_manager_simps(1) reach this, of "map_option ck_content (snd sample_login)"]
  show ?thesis by (simp add: sample_login_cookie sample_history_of sample_manager_simps go_second_def)
qed

end
