(* ===== verification/Auth_Token.thy ===== *)
theory Auth_Token
  imports Auth_Session
begin

text \<open>
  \<^verbatim>\<open>auth/token.go\<close>: signed tokens, the chain of compatibility verifiers and the middlewares that put
  the identity of a token into a request. HMAC-SHA256 and the JSON coding of the headers and the claims are
  parameters; splitting, base64, the checks and their order are the code's. Times are nanoseconds since
  1970, one clock reading per request; \<open>ctx n\<close> says whether the request is cancelled at its n-th look.
\<close>

section \<open>Claims, headers and their coding\<close>

record token_claims =
  tc_subject :: string
  tc_user_id :: int
  tc_user_id_string :: string
  tc_email :: string
  tc_roles :: "string list"
  tc_attributes :: "string \<rightharpoonup> string"
  tc_tenant :: string
  tc_issuer :: string
  tc_audience :: string
  tc_expires_at :: int
  tc_not_before :: int
  tc_issued_at :: int
  tc_jwt_id :: string

text \<open>The field \<^verbatim>\<open>user_id\<close> as it is in the document: absent, null, a string, an integer, or anything else.\<close>

datatype raw_id = Raw_Absent | Raw_Null | Raw_Text string | Raw_Int int | Raw_Other

record token_claims_wire =
  w_subject :: string
  w_user_id :: raw_id
  w_email :: string
  w_roles :: "string list"
  w_attributes :: "string \<rightharpoonup> string"
  w_tenant :: string
  w_issuer :: string
  w_audience :: string
  w_expires_at :: int
  w_not_before :: int
  w_issued_at :: int
  w_jwt_id :: string

record token_header =
  th_algorithm :: string
  th_type :: string
  th_key_id :: string

record legacy_claims =
  lc_user_id :: int
  lc_email :: string
  lc_expires_at :: int

record token_codec =
  mac256 :: "string \<Rightarrow> string \<Rightarrow> string"
  put_header :: "token_header \<Rightarrow> string"
  get_header :: "string \<Rightarrow> token_header option"
  put_wire :: "token_claims_wire \<Rightarrow> string"
  get_wire :: "string \<Rightarrow> token_claims_wire option"
  get_legacy :: "string \<Rightarrow> legacy_claims option"

definition claims_to_wire :: "token_claims \<Rightarrow> token_claims_wire" where
  "claims_to_wire c =
     \<lparr>w_subject = tc_subject c,
      w_user_id = (if tc_user_id_string c \<noteq> [] then Raw_Text (tc_user_id_string c)
                   else if tc_user_id c \<noteq> 0 then Raw_Int (tc_user_id c) else Raw_Absent),
      w_email = tc_email c, w_roles = tc_roles c, w_attributes = tc_attributes c, w_tenant = tc_tenant c,
      w_issuer = tc_issuer c, w_audience = tc_audience c, w_expires_at = tc_expires_at c,
      w_not_before = tc_not_before c, w_issued_at = tc_issued_at c, w_jwt_id = tc_jwt_id c\<rparr>"

definition wire_claims :: "token_claims_wire \<Rightarrow> int \<Rightarrow> string \<Rightarrow> token_claims" where
  "wire_claims w n s =
     \<lparr>tc_subject = w_subject w, tc_user_id = n, tc_user_id_string = s, tc_email = w_email w, tc_roles = w_roles w,
      tc_attributes = w_attributes w, tc_tenant = w_tenant w, tc_issuer = w_issuer w, tc_audience = w_audience w,
      tc_expires_at = w_expires_at w, tc_not_before = w_not_before w, tc_issued_at = w_issued_at w,
      tc_jwt_id = w_jwt_id w\<rparr>"

definition wire_to_claims :: "token_claims_wire \<Rightarrow> token_claims option" where
  "wire_to_claims w =
     (case w_user_id w of
        Raw_Absent \<Rightarrow> Some (wire_claims w 0 [])
      | Raw_Null \<Rightarrow> Some (wire_claims w 0 [])
      | Raw_Text s \<Rightarrow> Some (wire_claims w 0 s)
      | Raw_Int n \<Rightarrow> Some (wire_claims w n [])
      | Raw_Other \<Rightarrow> None)"

definition get_claims :: "token_codec \<Rightarrow> string \<Rightarrow> token_claims option" where
  "get_claims codec payload = Option.bind (get_wire codec payload) wire_to_claims"

definition put_claims :: "token_codec \<Rightarrow> token_claims \<Rightarrow> string" where
  "put_claims codec c = put_wire codec (claims_to_wire c)"

section \<open>Errors, verifiers and managers\<close>

datatype token_error = Format_Not_Recognized | Ctx_Done | Token_Rejected string

type_synonym token_verifier = "int \<Rightarrow> bool \<Rightarrow> string \<Rightarrow> token_error + user_claims"

text \<open>A deadline of the configuration is \<open>None\<close> when it is the zero time.\<close>

record legacy_config =
  lg_signing_key :: string
  lg_accept_until :: "int option"
  lg_max_ttl :: int
  lg_max_bytes :: int

record compat_config =
  cc_verifier :: "token_verifier option"
  cc_accept_until :: "int option"
  cc_max_bytes :: int

record token_compat =
  tcm_verifier :: token_verifier
  tcm_accept_until :: int
  tcm_max_bytes :: int

record token_config =
  tg_issuer :: string
  tg_audience :: string
  tg_active_key :: string
  tg_keys :: "(string \<times> string) list"
  tg_max_ttl :: int
  tg_clock_skew :: int
  tg_legacy :: "legacy_config option"
  tg_compat :: "compat_config list"

record token_manager =
  tm_issuer :: string
  tm_audience :: string
  tm_active_key :: string
  tm_keys :: "(string \<times> string) list"
  tm_max_ttl :: int
  tm_clock_skew :: int
  tm_compat :: "token_compat list"

definition max_encoded_token_bytes :: nat where "max_encoded_token_bytes = 16384"

text \<open>\<^verbatim>\<open>time.Unix(s, 0)\<close> counts seconds since year one in 64 bits.\<close>

definition go_unix :: "int \<Rightarrow> int" where
  "go_unix s = (wrap64 (s + 62135596800) - 62135596800) * go_second"

lemma go_unix_id: "- (2 ^ 62) \<le> s \<Longrightarrow> s < 2 ^ 62 \<Longrightarrow> go_unix s = s * go_second"
  by (simp add: go_unix_def int64_def)

section \<open>Legacy tokens\<close>

definition verify_legacy :: "token_codec \<Rightarrow> string \<Rightarrow> int \<Rightarrow> token_verifier" where
  "verify_legacy codec key max_ttl now cancelled token =
     (if cancelled then Inl Ctx_Done
      else (case split_byte CHR ''.'' token of
          [payload, signature] \<Rightarrow>
            (case b64_decode_strict signature of
               None \<Rightarrow> Inl (Token_Rejected ''auth: invalid legacy token'')
             | Some sg \<Rightarrow>
                 if length sg \<noteq> 32 then Inl (Token_Rejected ''auth: invalid legacy token'')
                 else if sg \<noteq> mac256 codec key payload then Inl (Token_Rejected ''auth: invalid legacy token'')
                 else (case Option.bind (b64_decode_strict payload) (get_legacy codec) of
                     None \<Rightarrow> Inl (Token_Rejected ''auth: invalid legacy token'')
                   | Some c \<Rightarrow>
                       if lc_user_id c \<le> 0 \<or> lc_expires_at c \<le> 0 then Inl (Token_Rejected ''auth: invalid legacy token'')
                       else if \<not> now < go_unix (lc_expires_at c) \<or> now + max_ttl < go_unix (lc_expires_at c)
                       then Inl (Token_Rejected ''auth: invalid legacy token'')
                       else Inr \<lparr>claim_id = itoa (lc_user_id c), claim_subject = itoa (lc_user_id c),
                              claim_email = lc_email c, claim_roles = [], claim_attributes = Map.empty, claim_tenant = []\<rparr>))
        | _ \<Rightarrow> Inl Format_Not_Recognized))"

definition new_legacy_verifier :: "token_codec \<Rightarrow> legacy_config \<Rightarrow> string + token_verifier" where
  "new_legacy_verifier codec g =
     (if length (lg_signing_key g) < 32 \<or> lg_accept_until g = None \<or> lg_max_ttl g < go_second
         \<or> 30 * 24 * 3600 * go_second < lg_max_ttl g \<or> lg_max_bytes g < 1 \<or> int max_encoded_token_bytes < lg_max_bytes g
      then Inl ''auth: legacy token compatibility configuration is outside safe bounds''
      else Inr (verify_legacy codec (lg_signing_key g) (lg_max_ttl g)))"

section \<open>Construction\<close>

fun build_compat_entries :: "compat_config list \<Rightarrow> string + token_compat list" where
  "build_compat_entries [] = Inr []"
| "build_compat_entries (e # es) =
     (case (cc_verifier e, cc_accept_until e) of
        (Some v, Some until) \<Rightarrow>
          if cc_max_bytes e < 1 \<or> int max_encoded_token_bytes < cc_max_bytes e
          then Inl ''auth: token compatibility requires a verifier, deadline, and bounded token size''
          else (case build_compat_entries es of
              Inl err \<Rightarrow> Inl err
            | Inr rs \<Rightarrow> Inr (\<lparr>tcm_verifier = v, tcm_accept_until = until, tcm_max_bytes = cc_max_bytes e\<rparr> # rs))
      | _ \<Rightarrow> Inl ''auth: token compatibility requires a verifier, deadline, and bounded token size'')"

definition build_token_compatibility :: "token_codec \<Rightarrow> token_config \<Rightarrow> string + token_compat list" where
  "build_token_compatibility codec g =
     (case tg_legacy g of
        None \<Rightarrow> build_compat_entries (tg_compat g)
      | Some l \<Rightarrow>
          (case (new_legacy_verifier codec l, lg_accept_until l) of
             (Inr v, Some until) \<Rightarrow>
               (case build_compat_entries (tg_compat g) of
                  Inl err \<Rightarrow> Inl err
                | Inr rs \<Rightarrow> Inr (\<lparr>tcm_verifier = v, tcm_accept_until = until, tcm_max_bytes = lg_max_bytes l\<rparr> # rs))
           | (Inl err, _) \<Rightarrow> Inl err
           | (Inr v, None) \<Rightarrow> Inl ''auth: legacy token compatibility configuration is outside safe bounds''))"

definition new_token_manager :: "token_codec \<Rightarrow> token_config \<Rightarrow> string + token_manager" where
  "new_token_manager codec g =
     (if tg_issuer g = [] \<or> tg_audience g = [] \<or> tg_active_key g = []
      then Inl ''auth: issuer, audience, and active key ID are required''
      else if tg_max_ttl g < go_second \<or> 30 * 24 * 3600 * go_second < tg_max_ttl g
        \<or> tg_clock_skew g < 0 \<or> 5 * 60 * go_second < tg_clock_skew g
      then Inl ''auth: token lifetime configuration is outside safe bounds''
      else if list_ex (\<lambda>(key_id, key). key_id = [] \<or> length key < 32) (tg_keys g)
      then Inl ''auth: every signing key requires an ID and at least 32 bytes''
      else if map_of (tg_keys g) (tg_active_key g) = None then Inl ''auth: active signing key is missing''
      else (case build_token_compatibility codec g of
          Inl err \<Rightarrow> Inl err
        | Inr entries \<Rightarrow> Inr \<lparr>tm_issuer = tg_issuer g, tm_audience = tg_audience g, tm_active_key = tg_active_key g,
                          tm_keys = tg_keys g, tm_max_ttl = tg_max_ttl g, tm_clock_skew = tg_clock_skew g,
                          tm_compat = entries\<rparr>))"

section \<open>Verification\<close>

definition validate_claims :: "token_manager \<Rightarrow> int \<Rightarrow> token_claims \<Rightarrow> bool" where
  "validate_claims m now c =
     (case canonical_identity_id (tc_subject c) of
        Inl e \<Rightarrow> False
      | Inr (subject, n, numeric) \<Rightarrow>
          if subject \<noteq> tc_subject c \<or> tc_user_id c < 0
            \<or> (numeric \<and> (tc_user_id c \<noteq> n \<or> tc_user_id_string c \<noteq> []))
            \<or> (\<not> numeric \<and> (tc_user_id c \<noteq> 0 \<or> tc_user_id_string c \<noteq> subject)) \<or> tc_jwt_id c = []
            \<or> tc_issuer c \<noteq> tm_issuer m \<or> tc_audience c \<noteq> tm_audience m
            \<or> tc_expires_at c \<le> 0 \<or> tc_not_before c \<le> 0 \<or> tc_issued_at c \<le> 0
          then False
          else if now + tm_clock_skew m < go_unix (tc_issued_at c) \<or> tc_not_before c < tc_issued_at c then False
          else if \<not> now < go_unix (tc_expires_at c) + tm_clock_skew m
            \<or> now + tm_clock_skew m < go_unix (tc_not_before c)
          then False
          else \<not> (tc_expires_at c - tc_issued_at c \<le> 0
                 \<or> tm_max_ttl m div go_second < tc_expires_at c - tc_issued_at c))"

definition recognized_jwt_header :: "token_codec \<Rightarrow> string \<Rightarrow> bool" where
  "recognized_jwt_header codec encoded =
     (case Option.bind (b64_decode_strict encoded) (get_header codec) of
        None \<Rightarrow> False
      | Some h \<Rightarrow> th_type h = ''JWT'' \<or> th_algorithm h \<noteq> [] \<or> th_key_id h \<noteq> [])"

definition verify_jwt :: "token_manager \<Rightarrow> token_codec \<Rightarrow> int \<Rightarrow> (nat \<Rightarrow> bool) \<Rightarrow> string \<Rightarrow> token_error + token_claims" where
  "verify_jwt m codec now ctx token =
     (if ctx 0 then Inl Ctx_Done
      else if token = [] \<or> max_encoded_token_bytes < length token then Inl (Token_Rejected ''auth: invalid token'')
      else (case split_byte CHR ''.'' token of
          [header, payload, signature] \<Rightarrow>
            (case b64_decode_strict header of
               None \<Rightarrow> Inl (Token_Rejected ''auth: invalid token'')
             | Some header_bytes \<Rightarrow>
                 (case get_header codec header_bytes of
                    None \<Rightarrow> Inl (Token_Rejected ''auth: unsupported token header'')
                  | Some h \<Rightarrow>
                      if th_algorithm h \<noteq> ''HS256'' \<or> th_type h \<noteq> ''JWT'' \<or> th_key_id h = []
                      then Inl (Token_Rejected ''auth: unsupported token header'')
                      else (case map_of (tm_keys m) (th_key_id h) of
                          None \<Rightarrow> Inl (Token_Rejected ''auth: unknown signing key'')
                        | Some key \<Rightarrow>
                            (case b64_decode_strict signature of
                               None \<Rightarrow> Inl (Token_Rejected ''auth: invalid token signature'')
                             | Some sg \<Rightarrow>
                                 if sg \<noteq> mac256 codec key (header @ ''.'' @ payload)
                                 then Inl (Token_Rejected ''auth: invalid token signature'')
                                 else if ctx 1 then Inl Ctx_Done
                                 else (case b64_decode_strict payload of
                                     None \<Rightarrow> Inl (Token_Rejected ''auth: invalid token claims'')
                                   | Some payload_bytes \<Rightarrow>
                                       (case get_claims codec payload_bytes of
                                          None \<Rightarrow> Inl (Token_Rejected ''auth: invalid token claims'')
                                        | Some c \<Rightarrow>
                                            if \<not> validate_claims m now c
                                            then Inl (Token_Rejected ''auth: invalid token claims'')
                                            else Inr c))))))
        | first # rest \<Rightarrow>
            if recognized_jwt_header codec first then Inl (Token_Rejected ''auth: invalid token'')
            else Inl Format_Not_Recognized
        | [] \<Rightarrow> Inl Format_Not_Recognized))"

definition token_user_claims :: "token_claims \<Rightarrow> user_claims" where
  "token_user_claims c =
     \<lparr>claim_id = tc_subject c, claim_subject = tc_subject c, claim_email = tc_email c, claim_roles = tc_roles c,
      claim_attributes = tc_attributes c, claim_tenant = tc_tenant c\<rparr>"

definition manager_verify_token :: "token_manager \<Rightarrow> token_codec \<Rightarrow> int \<Rightarrow> (nat \<Rightarrow> bool) \<Rightarrow> string \<Rightarrow> token_error + user_claims" where
  "manager_verify_token m codec now ctx token =
     (case verify_jwt m codec now ctx token of Inl e \<Rightarrow> Inl e | Inr c \<Rightarrow> Inr (token_user_claims c))"

definition manager_verify :: "token_manager \<Rightarrow> token_codec \<Rightarrow> int \<Rightarrow> string \<Rightarrow> token_error + token_claims" where
  "manager_verify m codec now token =
     (case verify_jwt m codec now (\<lambda>_. False) token of
        Inl Format_Not_Recognized \<Rightarrow> Inl (Token_Rejected ''auth: invalid token'')
      | r \<Rightarrow> r)"

text \<open>The compatibility chain; the look before an entry and the look its verifier takes are numbered.\<close>

fun verify_chain :: "token_compat list \<Rightarrow> nat \<Rightarrow> int \<Rightarrow> (nat \<Rightarrow> bool) \<Rightarrow> string \<Rightarrow> token_error + user_claims" where
  "verify_chain [] i now ctx token = Inl (Token_Rejected ''auth: invalid token'')"
| "verify_chain (e # es) i now ctx token =
     (if ctx i then Inl Ctx_Done
      else if \<not> now < tcm_accept_until e then verify_chain es (i + 2) now ctx token
      else if tcm_max_bytes e < int (length token) then Inl (Token_Rejected ''auth: compatibility token is too large'')
      else (case tcm_verifier e now (ctx (i + 1)) token of
          Inr claims \<Rightarrow>
            (case canonical_user_claims claims of
               Inl err \<Rightarrow> Inl (Token_Rejected ''auth: compatibility verifier returned invalid identity'')
             | Inr (verified, n, numeric) \<Rightarrow> Inr verified)
        | Inl Format_Not_Recognized \<Rightarrow> verify_chain es (i + 2) now ctx token
        | Inl err \<Rightarrow> Inl (Token_Rejected ''auth: compatibility token verification failed'')))"

definition verify_compatible :: "token_manager \<Rightarrow> token_codec \<Rightarrow> int \<Rightarrow> (nat \<Rightarrow> bool) \<Rightarrow> string \<Rightarrow> token_error + user_claims" where
  "verify_compatible m codec now ctx token =
     (case manager_verify_token m codec now ctx token of
        Inr claims \<Rightarrow> Inr claims
      | Inl Format_Not_Recognized \<Rightarrow> verify_chain (tm_compat m) 2 now ctx token
      | Inl e \<Rightarrow> Inl e)"

section \<open>Issuing\<close>

definition signing_header :: "token_manager \<Rightarrow> token_header" where
  "signing_header m = \<lparr>th_algorithm = ''HS256'', th_type = ''JWT'', th_key_id = tm_active_key m\<rparr>"

definition sign_claims :: "token_manager \<Rightarrow> token_codec \<Rightarrow> token_claims \<Rightarrow> string" where
  "sign_claims m codec c =
     (let header = b64_encode (put_header codec (signing_header m));
          payload = b64_encode (put_claims codec c);
          signing_input = header @ ''.'' @ payload;
          key = (case map_of (tm_keys m) (tm_active_key m) of Some k \<Rightarrow> k | None \<Rightarrow> [])
      in signing_input @ ''.'' @ b64_encode (mac256 codec key signing_input))"

definition issued_claims :: "token_manager \<Rightarrow> int \<Rightarrow> string \<Rightarrow> user_claims \<Rightarrow> int \<Rightarrow> bool \<Rightarrow> int \<Rightarrow> token_claims" where
  "issued_claims m now jti v n numeric ttl =
     \<lparr>tc_subject = claim_subject v, tc_user_id = n, tc_user_id_string = (if numeric then [] else claim_id v),
      tc_email = claim_email v, tc_roles = claim_roles v, tc_attributes = claim_attributes v, tc_tenant = claim_tenant v,
      tc_issuer = tm_issuer m, tc_audience = tm_audience m, tc_expires_at = (now + ttl) div go_second,
      tc_not_before = now div go_second, tc_issued_at = now div go_second, tc_jwt_id = jti\<rparr>"

definition issue_user ::
  "token_manager \<Rightarrow> token_codec \<Rightarrow> int \<Rightarrow> string option \<Rightarrow> user_claims \<Rightarrow> int \<Rightarrow> string + string" where
  "issue_user m codec now random user ttl =
     (case canonical_user_claims user of
        Inl e \<Rightarrow> Inl ''auth: user ID and explicit token TTL must be valid''
      | Inr (v, n, numeric) \<Rightarrow>
          if ttl < go_second \<or> tm_max_ttl m < ttl then Inl ''auth: user ID and explicit token TTL must be valid''
          else (case random of
              None \<Rightarrow> Inl ''auth: secure random generation failed''
            | Some bytes \<Rightarrow> Inr (sign_claims m codec (issued_claims m now (b64_encode bytes) v n numeric ttl))))"

definition issue :: "token_manager \<Rightarrow> token_codec \<Rightarrow> int \<Rightarrow> string option \<Rightarrow> int \<Rightarrow> string \<Rightarrow> int \<Rightarrow> string + string" where
  "issue m codec now random uid email ttl =
     issue_user m codec now random
       \<lparr>claim_id = itoa uid, claim_subject = [], claim_email = email, claim_roles = [], claim_attributes = Map.empty, claim_tenant = []\<rparr> ttl"

definition default_token_manager :: "token_codec \<Rightarrow> string \<Rightarrow> string + token_manager" where
  "default_token_manager codec secret =
     new_token_manager codec \<lparr>tg_issuer = ''goplusplus'', tg_audience = ''goplusplus-api'', tg_active_key = ''default'',
       tg_keys = [(''default'', secret)], tg_max_ttl = 24 * 3600 * go_second, tg_clock_skew = 60 * go_second,
       tg_legacy = None, tg_compat = []\<rparr>"

text \<open>\<^verbatim>\<open>GenerateJWT\<close>: exactly one lifetime is required; the empty string is its failure.\<close>

definition generate_jwt :: "token_codec \<Rightarrow> int \<Rightarrow> string option \<Rightarrow> user_claims \<Rightarrow> string \<Rightarrow> int list \<Rightarrow> string" where
  "generate_jwt codec now random user secret ttls =
     (case ttls of
        [ttl] \<Rightarrow>
          (case default_token_manager codec secret of
             Inl e \<Rightarrow> []
           | Inr m \<Rightarrow> (case issue_user m codec now random user ttl of Inl e \<Rightarrow> [] | Inr token \<Rightarrow> token))
      | _ \<Rightarrow> [])"

section \<open>Middlewares\<close>

text \<open>A middleware delivers the context values and, when it stops the request, the problem it answers with.\<close>

definition bearer_token :: "string list \<Rightarrow> string option" where
  "bearer_token vals =
     (case vals of
        [header] \<Rightarrow>
          if length header \<le> 7 \<or> 7 + max_encoded_token_bytes < length header \<or> \<not> has_prefix header ''Bearer '' then None
          else (let token = drop 7 header
                in if list_ex (\<lambda>c. c \<in> set [CHR 0x20, CHR 0x09, CHR 0x0D, CHR 0x0A]) token then None else Some token)
      | _ \<Rightarrow> None)"

definition token_problem :: problem where
  "token_problem = err_unauthorized ''Invalid or expired bearer token''"

definition authenticate_with_manager ::
  "token_manager option \<Rightarrow> token_codec \<Rightarrow> int \<Rightarrow> (nat \<Rightarrow> bool) \<Rightarrow> string list \<Rightarrow> user_claims ctx_values
     \<Rightarrow> user_claims ctx_values \<times> problem option" where
  "authenticate_with_manager manager codec now ctx vals c =
     (let c = clear_verified_identity c
      in case (bearer_token vals, manager) of
           (Some token, Some m) \<Rightarrow>
             (case verify_compatible m codec now ctx token of
                Inl e \<Rightarrow> (c, Some token_problem)
              | Inr claims \<Rightarrow>
                  (case install_verified_identity c claims of
                     Inl e \<Rightarrow> (c, Some token_problem)
                   | Inr c \<Rightarrow> (c, None)))
         | _ \<Rightarrow> (c, Some (err_unauthorized ''Missing or invalid bearer token'')))"

definition optional_authenticate ::
  "token_manager option \<Rightarrow> token_codec \<Rightarrow> int \<Rightarrow> (nat \<Rightarrow> bool) \<Rightarrow> string list \<Rightarrow> user_claims ctx_values \<Rightarrow> user_claims ctx_values" where
  "optional_authenticate manager codec now ctx vals c =
     (let c = clear_verified_identity c
      in case (bearer_token vals, manager) of
           (Some token, Some m) \<Rightarrow>
             (case verify_compatible m codec now ctx token of
                Inl e \<Rightarrow> c
              | Inr claims \<Rightarrow> (case install_verified_identity c claims of Inl e \<Rightarrow> c | Inr c \<Rightarrow> c))
         | _ \<Rightarrow> c)"

definition universal_problem :: problem where
  "universal_problem = err_unauthorized ''Valid session or bearer token required''"

definition universal_auth ::
  "token_manager option \<Rightarrow> token_codec \<Rightarrow> int \<Rightarrow> (nat \<Rightarrow> bool) \<Rightarrow> string list \<Rightarrow> session_manager option \<Rightarrow> string option
     \<Rightarrow> user_claims ctx_values \<Rightarrow> session_manager option \<times> user_claims ctx_values \<times> problem option" where
  "universal_auth manager codec now ctx vals sessions cookie c =
     (let c = clear_verified_identity c;
          (sessions, session) = (case sessions of
              None \<Rightarrow> (None, None)
            | Some s \<Rightarrow> (case claims_for_request s cookie now of (s, claims) \<Rightarrow> (Some s, claims)))
      in case Option.bind session (\<lambda>claims. case install_verified_identity c claims of Inl e \<Rightarrow> None | Inr c \<Rightarrow> Some c) of
           Some c \<Rightarrow> (sessions, c, None)
         | None \<Rightarrow>
             (case (bearer_token vals, manager) of
                (Some token, Some m) \<Rightarrow>
                  (case verify_compatible m codec now ctx token of
                     Inl e \<Rightarrow> (sessions, c, Some universal_problem)
                   | Inr claims \<Rightarrow>
                       (case install_verified_identity c claims of
                          Inl e \<Rightarrow> (sessions, c, Some universal_problem)
                        | Inr c \<Rightarrow> (sessions, c, None)))
              | _ \<Rightarrow> (sessions, c, Some universal_problem)))"

section \<open>Accepted tokens are genuine\<close>

text \<open>A token of the manager's own format: signed with a configured key, within its lifetime, for these claims.\<close>

definition jwt_genuine :: "token_manager \<Rightarrow> token_codec \<Rightarrow> int \<Rightarrow> string \<Rightarrow> user_claims \<Rightarrow> bool" where
  "jwt_genuine m codec now token claims \<longleftrightarrow>
     (\<exists>header payload signature key_id key c.
        token = header @ ''.'' @ payload @ ''.'' @ signature \<and> map_of (tm_keys m) key_id = Some key
        \<and> b64_decode_strict signature = Some (mac256 codec key (header @ ''.'' @ payload))
        \<and> Option.bind (b64_decode_strict payload) (get_claims codec) = Some c \<and> claims = token_user_claims c
        \<and> tc_issuer c = tm_issuer m \<and> tc_audience c = tm_audience m
        \<and> go_unix (tc_issued_at c) \<le> now + tm_clock_skew m \<and> now < go_unix (tc_expires_at c) + tm_clock_skew m
        \<and> tc_issued_at c < tc_expires_at c \<and> tc_expires_at c - tc_issued_at c \<le> tm_max_ttl m div go_second)"

text \<open>A compatibility verifier within its deadline and size took the token; the manager and every live
  verifier before it said that the format is not theirs.\<close>

definition compat_accepts :: "token_compat list \<Rightarrow> int \<Rightarrow> string \<Rightarrow> user_claims \<Rightarrow> bool" where
  "compat_accepts es now token claims \<longleftrightarrow>
     (\<exists>pre e post cancelled found n numeric.
        es = pre @ e # post \<and> now < tcm_accept_until e \<and> int (length token) \<le> tcm_max_bytes e
        \<and> tcm_verifier e now cancelled token = Inr found \<and> canonical_user_claims found = Inr (claims, n, numeric)
        \<and> list_all (\<lambda>d. now < tcm_accept_until d \<longrightarrow> (\<exists>b. tcm_verifier d now b token = Inl Format_Not_Recognized)) pre)"

lemma validate_claims_subject: "validate_claims m now c \<Longrightarrow> \<exists>n b. canonical_identity_id (tc_subject c) = Inr (tc_subject c, n, b)"
  by (auto simp: validate_claims_def split: sum.splits if_splits)

lemma validate_claims_lifetime:
  "validate_claims m now c \<Longrightarrow> tc_issuer c = tm_issuer m \<and> tc_audience c = tm_audience m
     \<and> go_unix (tc_issued_at c) \<le> now + tm_clock_skew m \<and> now < go_unix (tc_expires_at c) + tm_clock_skew m
     \<and> tc_issued_at c < tc_expires_at c \<and> tc_expires_at c - tc_issued_at c \<le> tm_max_ttl m div go_second"
  by (simp add: validate_claims_def split: sum.splits prod.splits if_splits)

lemma verify_jwt_Inr:
  assumes "verify_jwt m codec now ctx token = Inr c"
  shows "validate_claims m now c \<and> jwt_genuine m codec now token (token_user_claims c)"
proof -
  obtain header payload signature where parts: "split_byte CHR ''.'' token = [header, payload, signature]"
    using assms by (auto simp: verify_jwt_def split: if_splits list.splits)
  have v: "validate_claims m now c"
    "\<exists>key_id key. map_of (tm_keys m) key_id = Some key
       \<and> b64_decode_strict signature = Some (mac256 codec key (header @ ''.'' @ payload))"
    "Option.bind (b64_decode_strict payload) (get_claims codec) = Some c"
    using assms unfolding verify_jwt_def parts by (auto split: if_splits option.splits)
  have "token = header @ ''.'' @ payload @ ''.'' @ signature" using parts by (simp add: split_byte_three)
  then show ?thesis unfolding jwt_genuine_def using v validate_claims_lifetime [OF v(1)] by blast
qed

lemma verify_jwt_not_recognized: "verify_jwt m codec now ctx token = Inl Format_Not_Recognized \<Longrightarrow> length (split_byte CHR ''.'' token) \<noteq> 3"
  by (auto simp: verify_jwt_def length_Suc_conv eval_nat_numeral split: if_splits option.splits)

lemma verify_chain_Inr: "verify_chain es i now ctx token = Inr claims \<Longrightarrow> compat_accepts es now token claims"
proof (induction es i now ctx token rule: verify_chain.induct)
  case (2 e es i now ctx token)
  show ?case
  proof (cases "\<not> now < tcm_accept_until e \<or> tcm_verifier e now (ctx (i + 1)) token = Inl Format_Not_Recognized")
    case True
    then have "compat_accepts es now token claims" using 2 by (auto split: if_splits)
    then obtain pre d post cancelled found n numeric where
      d: "es = pre @ d # post" "now < tcm_accept_until d" "int (length token) \<le> tcm_max_bytes d"
        "tcm_verifier d now cancelled token = Inr found" "canonical_user_claims found = Inr (claims, n, numeric)"
        "list_all (\<lambda>d. now < tcm_accept_until d \<longrightarrow> (\<exists>b. tcm_verifier d now b token = Inl Format_Not_Recognized)) pre"
      unfolding compat_accepts_def by blast
    then have "e # es = (e # pre) @ d # post"
      "list_all (\<lambda>d. now < tcm_accept_until d \<longrightarrow> (\<exists>b. tcm_verifier d now b token = Inl Format_Not_Recognized)) (e # pre)"
      using True by auto
    then show ?thesis unfolding compat_accepts_def using d by blast
  next
    case False
    obtain found n numeric where "tcm_verifier e now (ctx (i + 1)) token = Inr found"
      "canonical_user_claims found = Inr (claims, n, numeric)" "int (length token) \<le> tcm_max_bytes e"
      using 2(3) False by (auto split: if_splits sum.splits token_error.splits)
    then have "e # es = [] @ e # es \<and> now < tcm_accept_until e \<and> int (length token) \<le> tcm_max_bytes e
        \<and> tcm_verifier e now (ctx (i + 1)) token = Inr found \<and> canonical_user_claims found = Inr (claims, n, numeric)
        \<and> list_all (\<lambda>d. now < tcm_accept_until d \<longrightarrow> (\<exists>b. tcm_verifier d now b token = Inl Format_Not_Recognized)) []"
      using False by simp
    then show ?thesis unfolding compat_accepts_def by blast
  qed
qed simp

lemma verify_compatible_Inr:
  assumes "verify_compatible m codec now ctx token = Inr claims"
  shows "(\<exists>n b. canonical_user_claims claims = Inr (claims, n, b))
    \<and> (jwt_genuine m codec now token claims
       \<or> compat_accepts (tm_compat m) now token claims \<and> length (split_byte CHR ''.'' token) \<noteq> 3)"
proof (cases "verify_jwt m codec now ctx token")
  case (Inr c)
  then have c: "claims = token_user_claims c" using assms by (simp add: verify_compatible_def manager_verify_token_def)
  obtain n b where "canonical_identity_id (tc_subject c) = Inr (tc_subject c, n, b)"
    using validate_claims_subject verify_jwt_Inr [OF Inr] by blast
  then have "canonical_user_claims claims = Inr (claims, n, b)"
    using canonical_identity_id_Inr(3) [of "tc_subject c" "tc_subject c" n b]
    by (simp add: c token_user_claims_def canonical_user_claims_def)
  then show ?thesis using verify_jwt_Inr [OF Inr] c by blast
next
  case (Inl e)
  then have e: "e = Format_Not_Recognized" and chain: "verify_chain (tm_compat m) 2 now ctx token = Inr claims"
    using assms by (auto simp: verify_compatible_def manager_verify_token_def split: token_error.splits)
  have a: "compat_accepts (tm_compat m) now token claims" using chain by (rule verify_chain_Inr)
  moreover have "length (split_byte CHR ''.'' token) \<noteq> 3" using Inl e verify_jwt_not_recognized by blast
  moreover have "\<exists>n b. canonical_user_claims claims = Inr (claims, n, b)"
    using a canonical_user_claims_again unfolding compat_accepts_def by blast
  ultimately show ?thesis by blast
qed

lemma bearer_token_Some: "bearer_token vals = Some token \<Longrightarrow> vals = [''Bearer '' @ token]"
  by (auto simp: bearer_token_def has_prefix_iff Let_def split: list.splits if_splits)

lemma install_canonical:
  assumes "canonical_user_claims claims = Inr (claims, n, b)"
  obtains c' where "install_verified_identity c claims = Inr c'" "get_user c' = Some claims"
  using assms by (simp add: install_verified_identity_def get_user_def)

text \<open>C5. A request that passes the bearer middleware carries exactly one bearer token; the token is signed with
  a configured key, issued for this audience and within its lifetime, or a compatibility verifier within
  its deadline accepted it after every other live format was ruled out, and it has not the form of a
  signed token; the handler sees the claims of that token and no others.\<close>
theorem authenticated_requests_are_genuine:
  assumes "authenticate_with_manager manager codec now ctx vals c = (c', None)"
  shows "\<exists>m token claims. manager = Some m \<and> vals = [''Bearer '' @ token] \<and> get_user c' = Some claims
    \<and> (jwt_genuine m codec now token claims
       \<or> compat_accepts (tm_compat m) now token claims \<and> length (split_byte CHR ''.'' token) \<noteq> 3)"
proof -
  obtain token m claims where t: "bearer_token vals = Some token" "manager = Some m"
    and v: "verify_compatible m codec now ctx token = Inr claims"
    and i: "install_verified_identity (clear_verified_identity c) claims = Inr c'"
    using assms by (auto simp: authenticate_with_manager_def Let_def split: option.splits sum.splits)
  obtain n b where "canonical_user_claims claims = Inr (claims, n, b)" using verify_compatible_Inr [OF v] by blast
  then obtain c'' where "install_verified_identity (clear_verified_identity c) claims = Inr c''" "get_user c'' = Some claims"
    by (rule install_canonical)
  then have "get_user c' = Some claims" using i by simp
  then show ?thesis using t(2) bearer_token_Some [OF t(1)] verify_compatible_Inr [OF v] by blast
qed

section \<open>Issued tokens are accepted\<close>

text \<open>What the manager writes into this token, the JSON package reads back.\<close>

definition json_reads_back :: "token_codec \<Rightarrow> token_manager \<Rightarrow> token_claims \<Rightarrow> bool" where
  "json_reads_back codec m c \<longleftrightarrow>
     get_header codec (put_header codec (signing_header m)) = Some (signing_header m)
     \<and> get_wire codec (put_wire codec (claims_to_wire c)) = Some (claims_to_wire c)"

lemma wire_round_trip:
  "tc_user_id_string c = [] \<or> tc_user_id c = 0 \<Longrightarrow> wire_to_claims (claims_to_wire c) = Some c"
  by (cases c) (auto simp: wire_to_claims_def claims_to_wire_def wire_claims_def)

lemma get_put_claims:
  "json_reads_back codec m c \<Longrightarrow> tc_user_id_string c = [] \<or> tc_user_id c = 0 \<Longrightarrow> get_claims codec (put_claims codec c) = Some c"
  by (simp add: json_reads_back_def get_claims_def put_claims_def wire_round_trip)

lemma div_lifetime:
  assumes "(0 :: int) < s" "s \<le> ttl" "ttl \<le> maximum" "s dvd maximum"
  shows "t div s < (t + ttl) div s" "(t + ttl) div s - t div s \<le> maximum div s"
proof -
  have "t div s + 1 = (t + s) div s" using div_add_self2 [of s t] assms(1) by simp
  also have "\<dots> \<le> (t + ttl) div s" using assms(1,2) by (simp add: zdiv_mono1)
  finally show "t div s < (t + ttl) div s" by simp
  have "(t + ttl) div s \<le> (t + maximum) div s" using assms(1,3) by (simp add: zdiv_mono1)
  also have "\<dots> = t div s + maximum div s" using assms(4) by (rule div_plus_div_distrib_dvd_right)
  finally show "(t + ttl) div s - t div s \<le> maximum div s" by simp
qed

lemma issued_claims_valid:
  assumes v: "canonical_user_claims user = Inr (v, n, numeric)" and jti: "jti \<noteq> []"
    and t0: "go_second \<le> t0" "t0 + ttl < 2 ^ 62" and ttl: "go_second \<le> ttl" "ttl \<le> tm_max_ttl m" "go_second dvd tm_max_ttl m"
    and skew: "0 \<le> tm_clock_skew m" and now: "t0 \<le> now + tm_clock_skew m" "now + go_second \<le> t0 + ttl + tm_clock_skew m"
  shows "validate_claims m now (issued_claims m t0 jti v n numeric ttl)"
proof -
  have s: "(0 :: int) < go_second" by (simp add: go_second_def)
  note c = canonical_user_claims_Inr [OF v]
  note id = canonical_identity_id_Inr [OF c(1)]
  note life = div_lifetime [OF s ttl, of t0]
  have pos: "0 < t0 div go_second" using t0(1) s by (simp add: pos_imp_zdiv_pos_iff)
  have "(t0 + ttl) div go_second \<le> t0 + ttl" using int_div_less_self [of "t0 + ttl" go_second] t0(1) ttl(1) by (simp add: go_second_def)
  then have unix: "go_unix ((t0 + ttl) div go_second) = (t0 + ttl) div go_second * go_second"
    "go_unix (t0 div go_second) = t0 div go_second * go_second"
    using pos life(1) t0(2) by (simp_all add: go_unix_id)
  have "t0 div go_second * go_second \<le> t0" "t0 + ttl < (t0 + ttl) div go_second * go_second + go_second"
    using s div_mult_mod_eq [of t0 go_second] div_mult_mod_eq [of "t0 + ttl" go_second]
      pos_mod_bound [OF s, of "t0 + ttl"] pos_mod_sign [OF s, of t0] by linarith+
  then show ?thesis
    using c(2) id pos life unix now jti
    by (cases numeric) (simp_all add: validate_claims_def issued_claims_def)
qed

lemma sign_claims_shape:
  obtains h p s where "sign_claims m codec c = h @ ''.'' @ p @ ''.'' @ s"
    "h = b64_encode (put_header codec (signing_header m))" "p = b64_encode (put_claims codec c)"
    "s = b64_encode (mac256 codec (case map_of (tm_keys m) (tm_active_key m) of Some k \<Rightarrow> k | None \<Rightarrow> []) (h @ ''.'' @ p))"
  by (simp add: sign_claims_def Let_def)

lemma b64_encode_no: "b64_alphabet_ok a \<Longrightarrow> c \<notin> set a \<Longrightarrow> c \<notin> set (b64_encode_in a s)"
  using b64_encode_set by blast

lemma signed_token_split:
  "split_byte CHR ''.'' (b64_encode h @ ''.'' @ b64_encode p @ ''.'' @ b64_encode s) = [b64_encode h, b64_encode p, b64_encode s]"
  using b64_encode_no [OF b64_alphabets_ok(1), of "CHR ''.''"] b64_alphabets_ok(1)
  by (simp add: split_byte_three b64_alphabet_ok_def)

lemma signed_token_plain:
  "c \<in> set [CHR 0x20, CHR 0x09, CHR 0x0D, CHR 0x0A] \<Longrightarrow> c \<notin> set (b64_encode h @ ''.'' @ b64_encode p @ ''.'' @ b64_encode s)"
  using b64_encode_no [OF b64_alphabets_ok(1), of c] b64_alphabets_ok(1)
  by (auto simp: b64_alphabet_ok_def)

lemma verify_signed:
  assumes "json_reads_back codec m c" "tc_user_id_string c = [] \<or> tc_user_id c = 0" "validate_claims m now c"
    and "map_of (tm_keys m) (tm_active_key m) = Some key" "tm_active_key m \<noteq> []"
    and "length (sign_claims m codec c) \<le> max_encoded_token_bytes"
  shows "verify_jwt m codec now (\<lambda>_. False) (sign_claims m codec c) = Inr c"
proof -
  obtain h p s where t: "sign_claims m codec c = h @ ''.'' @ p @ ''.'' @ s"
    and h: "h = b64_encode (put_header codec (signing_header m))" and p: "p = b64_encode (put_claims codec c)"
    and s: "s = b64_encode (mac256 codec key (h @ ''.'' @ p))"
    using sign_claims_shape assms(4) by (metis option.simps(5))
  have split: "split_byte CHR ''.'' (sign_claims m codec c) = [h, p, s]"
    unfolding t h p s by (rule signed_token_split)
  have "b64_decode_strict h = Some (put_header codec (signing_header m))" "b64_decode_strict p = Some (put_claims codec c)"
    "b64_decode_strict s = Some (mac256 codec key (h @ ''.'' @ p))"
    unfolding h p s by (simp_all add: b64_decode_encode)
  moreover have "get_claims codec (put_claims codec c) = Some c" using assms(1,2) by (rule get_put_claims)
  moreover have "get_header codec (put_header codec (signing_header m)) = Some (signing_header m)"
    using assms(1) by (simp add: json_reads_back_def)
  moreover have "sign_claims m codec c \<noteq> []" using t by simp
  ultimately show ?thesis
    using assms(3-6) unfolding verify_jwt_def split by (simp add: signing_header_def)
qed



lemma bearer_token_plain:
  assumes "token \<noteq> []" "length token \<le> max_encoded_token_bytes"
    and "\<And>c. c \<in> set [CHR 0x20, CHR 0x09, CHR 0x0D, CHR 0x0A] \<Longrightarrow> c \<notin> set token"
  shows "bearer_token [''Bearer '' @ token] = Some token"
proof -
  have "\<not> list_ex (\<lambda>c. c \<in> set [CHR 0x20, CHR 0x09, CHR 0x0D, CHR 0x0A]) token"
    using assms(3) unfolding list_ex_iff by blast
  then show ?thesis
    using assms(1,2) has_prefix_append [of "''Bearer ''" token] by (simp add: bearer_token_def Let_def)
qed

lemma signed_token_bearer:
  assumes "length (sign_claims m codec c) \<le> max_encoded_token_bytes"
  shows "bearer_token [''Bearer '' @ sign_claims m codec c] = Some (sign_claims m codec c)"
proof (rule bearer_token_plain)
  show "sign_claims m codec c \<noteq> []" by (simp add: sign_claims_def Let_def)
  fix x
  assume x: "x \<in> set [CHR 0x20, CHR 0x09, CHR 0x0D, CHR 0x0A]"
  obtain h p s where "sign_claims m codec c = b64_encode h @ ''.'' @ b64_encode p @ ''.'' @ b64_encode s"
    using sign_claims_shape by metis
  then show "x \<notin> set (sign_claims m codec c)" using signed_token_plain [OF x] by simp
qed (rule assms)

lemma jwt_request_passes:
  assumes "verify_jwt m codec now ctx token = Inr tc" "bearer_token vals = Some token"
  shows "\<exists>c'. authenticate_with_manager (Some m) codec now ctx vals c = (c', None) \<and> get_user c' = Some (token_user_claims tc)"
proof -
  have v: "verify_compatible m codec now ctx token = Inr (token_user_claims tc)"
    using assms(1) by (simp add: verify_compatible_def manager_verify_token_def)
  obtain n b where "canonical_user_claims (token_user_claims tc) = Inr (token_user_claims tc, n, b)"
    using verify_compatible_Inr [OF v] by blast
  then obtain c' where "install_verified_identity (clear_verified_identity c) (token_user_claims tc) = Inr c'"
    "get_user c' = Some (token_user_claims tc)"
    by (rule install_canonical)
  then show ?thesis using v assms(2) by (simp add: authenticate_with_manager_def)
qed


text \<open>With a maximum that is not a whole number of seconds a token of that lifetime can be issued that no
  request is let through with: the lifetime is compared in seconds after both ends were rounded down.\<close>
lemma fractional_lifetime_is_rejected:
  "tm_max_ttl m = 1500000000 \<Longrightarrow> \<not> validate_claims m now (issued_claims m 10600000000 jti v n numeric 1500000000)"
  by (auto simp: validate_claims_def issued_claims_def go_second_def split: sum.splits)

section \<open>Witnesses\<close>


definition sample_token_manager :: token_manager where
  "sample_token_manager = \<lparr>tm_issuer = ''i'', tm_audience = ''a'', tm_active_key = ''k'',
     tm_keys = [(''k'', replicate 32 CHR ''x'')], tm_max_ttl = 3600 * go_second, tm_clock_skew = 0, tm_compat = []\<rparr>"

definition sample_verified :: user_claims where
  "sample_verified = sample_claims\<lparr>claim_id := ''7'', claim_subject := ''7''\<rparr>"

definition sample_token_claims :: token_claims where
  "sample_token_claims = issued_claims sample_token_manager (5 * go_second) (b64_encode ''r'') sample_verified 7 True (60 * go_second)"

definition sample_codec :: token_codec where
  "sample_codec = \<lparr>mac256 = (\<lambda>key message. take 4 key), put_header = (\<lambda>h. ''h''),
     get_header = (\<lambda>s. Some (signing_header sample_token_manager)), put_wire = (\<lambda>w. ''p''),
     get_wire = (\<lambda>s. Some (claims_to_wire sample_token_claims)), get_legacy = (\<lambda>s. None)\<rparr>"

definition sample_token :: string where
  "sample_token = sign_claims sample_token_manager sample_codec sample_token_claims"


lemma sample_token_length: "length sample_token \<le> max_encoded_token_bytes"
  using length_b64_encode [of b64_alphabet "''h''"] length_b64_encode [of b64_alphabet "''p''"]
    length_b64_encode [of b64_alphabet "take 4 (replicate 32 CHR ''x'')"]
  by (simp add: sample_token_def sign_claims_def Let_def sample_codec_def put_claims_def sample_token_manager_def
      max_encoded_token_bytes_def)


theorem authenticated_requests_are_genuine_witness:
  "\<exists>token claims. get_user (fst (authenticate_with_manager (Some sample_token_manager) sample_codec (6 * go_second) (\<lambda>_. False)
     [''Bearer '' @ sample_token] [])) = Some claims \<and> jwt_genuine sample_token_manager sample_codec (6 * go_second) token claims"
proof -
  have v: "verify_jwt sample_token_manager sample_codec (6 * go_second) (\<lambda>_. False) sample_token = Inr sample_token_claims"
    unfolding sample_token_def
  proof (rule verify_signed)
    show "validate_claims sample_token_manager (6 * go_second) sample_token_claims"
      unfolding sample_token_claims_def
    proof (rule issued_claims_valid)
      show "canonical_user_claims sample_claims = Inr (sample_verified, 7, True)"
        by (simp add: sample_canonical sample_verified_def)
    qed (simp_all add: sample_token_manager_def go_second_def b64_encode_not_Nil)
    show "length (sign_claims sample_token_manager sample_codec sample_token_claims) \<le> max_encoded_token_bytes"
      using sample_token_length by (simp add: sample_token_def)
  qed (simp_all add: json_reads_back_def sample_codec_def sample_token_claims_def issued_claims_def sample_token_manager_def)
  have bearer: "bearer_token [''Bearer '' @ sample_token] = Some sample_token"
    using sample_token_length unfolding sample_token_def by (rule signed_token_bearer)
  obtain c' where c': "authenticate_with_manager (Some sample_token_manager) sample_codec (6 * go_second) (\<lambda>_. False)
      [''Bearer '' @ sample_token] [] = (c', None)"
    using jwt_request_passes [OF v bearer, of "[]"] by blast
  have "\<not> compat_accepts (tm_compat sample_token_manager) now token claims" for now token claims
    by (simp add: compat_accepts_def sample_token_manager_def)
  with authenticated_requests_are_genuine [OF c'] c' show ?thesis by auto
qed

end
