(* ===== verification/Auth_Password.thy ===== *)
theory Auth_Password
  imports Go_Strconv
begin

text \<open>
  \<^verbatim>\<open>auth/password.go\<close> and \<^verbatim>\<open>auth/password_policy.go\<close>: Argon2id hashes in the PHC format, the policy that
  hashes and verifies, and its chain of legacy verifiers. The key derivation and HMAC-SHA256 are
  parameters; the random salt and the clock reading are arguments. A verification also delivers the
  number of derivations it ran.
\<close>

record password_config =
  pc_memory :: nat
  pc_iterations :: nat
  pc_parallelism :: nat
  pc_salt_length :: nat
  pc_key_length :: nat

definition default_password_config :: password_config where
  "default_password_config = \<lparr>pc_memory = 64 * 1024, pc_iterations = 3, pc_parallelism = 4, pc_salt_length = 16, pc_key_length = 32\<rparr>"

definition max_password_bytes :: nat where "max_password_bytes = 1024"

definition max_hash_bytes :: nat where "max_hash_bytes = 1024"

text \<open>\<^verbatim>\<open>derive password pepper salt config\<close>.\<close>

type_synonym password_deriver = "string \<Rightarrow> string \<Rightarrow> string \<Rightarrow> password_config \<Rightarrow> string"

definition derive_password_key :: "(string \<Rightarrow> string \<Rightarrow> nat \<Rightarrow> nat \<Rightarrow> nat \<Rightarrow> nat \<Rightarrow> string) \<Rightarrow> password_deriver" where
  "derive_password_key id_key password pepper salt c =
     id_key (password @ pepper) salt (pc_iterations c) (pc_memory c) (pc_parallelism c) (pc_key_length c)"

datatype password_error =
    Password_Length_Invalid | Pepper_Length_Invalid | Argon2id_Parameters_Unsafe | Salt_Generation_Failed
  | Malformed_Hash | Malformed_Parameters | Malformed_Salt | Malformed_Key
  | Policy_Invalid | Legacy_Deadline_Missing | Compat_Incomplete | Password_Format_Not_Recognized | Verifier_Failed

definition validate_password_config :: "password_config \<Rightarrow> bool" where
  "validate_password_config c \<longleftrightarrow>
     \<not> (pc_memory c < 8 * 1024 \<or> 128 * 1024 < pc_memory c \<or> pc_iterations c < 1 \<or> 5 < pc_iterations c
        \<or> pc_parallelism c < 1 \<or> 16 < pc_parallelism c \<or> pc_salt_length c < 16 \<or> 64 < pc_salt_length c
        \<or> pc_key_length c < 16 \<or> 64 < pc_key_length c)"

definition validate_password_inputs :: "string \<Rightarrow> string \<Rightarrow> password_config \<Rightarrow> password_error option" where
  "validate_password_inputs password pepper c =
     (if password = [] \<or> max_password_bytes < length password then Some Password_Length_Invalid
      else if length pepper < 16 \<or> 1024 < length pepper then Some Pepper_Length_Invalid
      else if \<not> validate_password_config c then Some Argon2id_Parameters_Unsafe else None)"

section \<open>The PHC format\<close>

definition print_parameters :: "nat \<Rightarrow> nat \<Rightarrow> nat \<Rightarrow> string" where
  "print_parameters m t p = ''m='' @ decimal m @ '',t='' @ decimal t @ '',p='' @ decimal p"

definition encode_argon2id_hash :: "password_config \<Rightarrow> string \<Rightarrow> string \<Rightarrow> string" where
  "encode_argon2id_hash c salt key =
     ''$argon2id$v=19$'' @ print_parameters (pc_memory c) (pc_iterations c) (pc_parallelism c) @ ''$''
       @ b64_encode_in b64_std_alphabet salt @ ''$'' @ b64_encode_in b64_std_alphabet key"

text \<open>\<^verbatim>\<open>fmt.Sscanf\<close> of an unsigned number and of the parameters; it skips spaces before a number, which the
  comparison with the printed form rules out.\<close>

definition scan_uint :: "nat \<Rightarrow> string \<Rightarrow> (nat \<times> string) option" where
  "scan_uint bits s =
     (let ds = takeWhile (\<lambda>c. byte_in c 48 57) s; r = dropWhile (\<lambda>c. byte_in c 48 57) s
      in if ds = [] then None
         else (case digits_value 0 ds of Some v \<Rightarrow> if v < 2 ^ bits then Some (v, r) else None | None \<Rightarrow> None))"

definition scan_literal :: "string \<Rightarrow> string \<Rightarrow> string option" where
  "scan_literal l s = (if has_prefix s l then Some (drop (length l) s) else None)"

definition scan_parameters :: "string \<Rightarrow> (nat \<times> nat \<times> nat) option" where
  "scan_parameters s =
     (case Option.bind (scan_literal ''m='' s) (scan_uint 32) of
        None \<Rightarrow> None
      | Some (m, s) \<Rightarrow>
          (case Option.bind (scan_literal '',t='' s) (scan_uint 32) of
             None \<Rightarrow> None
           | Some (t, s) \<Rightarrow>
               (case Option.bind (scan_literal '',p='' s) (scan_uint 8) of
                  None \<Rightarrow> None
                | Some (p, s) \<Rightarrow> Some (m, t, p))))"

definition parse_argon2id_hash :: "string \<Rightarrow> password_error + password_config \<times> string \<times> string" where
  "parse_argon2id_hash hash =
     (if hash = [] \<or> max_hash_bytes < length hash then Inl Malformed_Hash
      else (case split_byte CHR ''$'' hash of
          [part0, part1, part2, part3, part4, part5] \<Rightarrow>
            if part1 \<noteq> ''argon2id'' \<or> part2 \<noteq> ''v=19'' then Inl Malformed_Hash
            else (case scan_parameters part3 of
                None \<Rightarrow> Inl Malformed_Parameters
              | Some (m, t, p) \<Rightarrow>
                  if part3 \<noteq> print_parameters m t p then Inl Malformed_Parameters
                  else (case b64_decode_in b64_std_alphabet True part4 of
                      None \<Rightarrow> Inl Malformed_Salt
                    | Some salt \<Rightarrow>
                        (case b64_decode_in b64_std_alphabet True part5 of
                           None \<Rightarrow> Inl Malformed_Key
                         | Some key \<Rightarrow>
                             (let c = \<lparr>pc_memory = m, pc_iterations = t, pc_parallelism = p,
                                       pc_salt_length = length salt, pc_key_length = length key\<rparr>
                              in if \<not> validate_password_config c then Inl Argon2id_Parameters_Unsafe
                                 else Inr (c, salt, key)))))
        | _ \<Rightarrow> Inl Malformed_Hash))"

definition config_needs_rehash :: "password_config \<Rightarrow> password_config \<Rightarrow> bool" where
  "config_needs_rehash actual desired \<longleftrightarrow>
     pc_memory actual \<noteq> pc_memory desired \<or> pc_iterations actual \<noteq> pc_iterations desired
     \<or> pc_parallelism actual \<noteq> pc_parallelism desired \<or> pc_salt_length actual \<noteq> pc_salt_length desired
     \<or> pc_key_length actual \<noteq> pc_key_length desired"

definition needs_rehash :: "string \<Rightarrow> password_config \<Rightarrow> bool" where
  "needs_rehash hash desired =
     (case parse_argon2id_hash hash of Inl e \<Rightarrow> True | Inr (c, salt, key) \<Rightarrow> config_needs_rehash c desired)"

section \<open>Hashing and verifying\<close>

definition hash_password_with_config ::
  "password_deriver \<Rightarrow> string \<Rightarrow> string \<Rightarrow> password_config \<Rightarrow> string option \<Rightarrow> password_error + string" where
  "hash_password_with_config derive password pepper c random =
     (case validate_password_inputs password pepper c of
        Some e \<Rightarrow> Inl e
      | None \<Rightarrow>
          (case random of
             None \<Rightarrow> Inl Salt_Generation_Failed
           | Some salt \<Rightarrow> Inr (encode_argon2id_hash c salt (derive password pepper salt c))))"

text \<open>The answer, the parameters of the hash, and the number of derivations.\<close>

definition verify_argon2id :: "password_deriver \<Rightarrow> string \<Rightarrow> string \<Rightarrow> string \<Rightarrow> (bool \<times> password_config option) \<times> nat" where
  "verify_argon2id derive password pepper hash =
     (case parse_argon2id_hash hash of
        Inl e \<Rightarrow> ((False, None), 0)
      | Inr (c, salt, expected) \<Rightarrow>
          if password = [] \<or> max_password_bytes < length password \<or> length pepper < 16 \<or> 1024 < length pepper
          then ((False, None), 0)
          else ((derive password pepper salt c = expected, Some c), 1))"

type_synonym legacy_verifier = "string \<Rightarrow> string \<Rightarrow> password_error + bool"

definition legacy_v1_verify :: "(string \<Rightarrow> string \<Rightarrow> string) \<Rightarrow> string \<Rightarrow> legacy_verifier" where
  "legacy_v1_verify mac pepper password hash =
     (if length hash \<noteq> 43 then Inl Password_Format_Not_Recognized
      else (case b64_decode_strict hash of
          None \<Rightarrow> Inl Password_Format_Not_Recognized
        | Some expected \<Rightarrow>
            if length expected \<noteq> 32 then Inl Password_Format_Not_Recognized else Inr (mac pepper password = expected)))"

definition legacy_inputs_ok :: "string \<Rightarrow> string \<Rightarrow> bool" where
  "legacy_inputs_ok password secret \<longleftrightarrow>
     \<not> (password = [] \<or> max_password_bytes < length password \<or> length secret < 16 \<or> 1024 < length secret)"

definition hash_legacy_password :: "(string \<Rightarrow> string \<Rightarrow> string) \<Rightarrow> string \<Rightarrow> string \<Rightarrow> string" where
  "hash_legacy_password mac password secret =
     (if \<not> legacy_inputs_ok password secret then [] else b64_encode (mac secret password))"

definition verify_legacy_password :: "(string \<Rightarrow> string \<Rightarrow> string) \<Rightarrow> string \<Rightarrow> string \<Rightarrow> string \<Rightarrow> bool" where
  "verify_legacy_password mac password secret hash =
     (if \<not> legacy_inputs_ok password secret \<or> max_hash_bytes < length hash then False
      else legacy_v1_verify mac secret password hash = Inr True)"

definition verify_with_migration ::
  "password_deriver \<Rightarrow> (string \<Rightarrow> string \<Rightarrow> string) \<Rightarrow> string \<Rightarrow> string \<Rightarrow> string \<Rightarrow> bool \<times> bool" where
  "verify_with_migration derive mac password secret hash =
     (if has_prefix hash ''$argon2id$'' then
        (case fst (verify_argon2id derive password secret hash) of
           (valid, Some c) \<Rightarrow> (valid, valid \<and> config_needs_rehash c default_password_config)
         | (valid, None) \<Rightarrow> (valid, False))
      else (let valid = verify_legacy_password mac password secret hash in (valid, valid)))"

section \<open>The policy\<close>

datatype password_verification = Password_Invalid | Password_Valid | Password_Valid_Needs_Rehash

record password_compat_config =
  pcc_verifier :: "legacy_verifier option"
  pcc_accept_until :: "int option"

record password_compat =
  pcm_verifier :: legacy_verifier
  pcm_accept_until :: int

record password_policy_config =
  ppc_pepper :: string
  ppc_argon2id :: password_config
  ppc_legacy_until :: "int option option"
  ppc_compat :: "password_compat_config list"

record password_policy =
  pp_pepper :: string
  pp_config :: password_config
  pp_dummy_hash :: string
  pp_compat :: "password_compat list"

fun build_password_compat :: "password_compat_config list \<Rightarrow> password_error + password_compat list" where
  "build_password_compat [] = Inr []"
| "build_password_compat (e # es) =
     (case (pcc_verifier e, pcc_accept_until e) of
        (Some v, Some until) \<Rightarrow>
          (case build_password_compat es of
             Inl err \<Rightarrow> Inl err
           | Inr rs \<Rightarrow> Inr (\<lparr>pcm_verifier = v, pcm_accept_until = until\<rparr> # rs))
      | _ \<Rightarrow> Inl Compat_Incomplete)"

definition legacy_entries :: "(string \<Rightarrow> string \<Rightarrow> string) \<Rightarrow> password_policy_config \<Rightarrow> password_error + password_compat list" where
  "legacy_entries mac g =
     (case ppc_legacy_until g of
        None \<Rightarrow> Inr []
      | Some None \<Rightarrow> Inl Legacy_Deadline_Missing
      | Some (Some until) \<Rightarrow>
          Inr [\<lparr>pcm_verifier = legacy_v1_verify mac (ppc_pepper g), pcm_accept_until = until\<rparr>])"

definition new_password_policy ::
  "password_deriver \<Rightarrow> (string \<Rightarrow> string \<Rightarrow> string) \<Rightarrow> password_policy_config \<Rightarrow> string option \<Rightarrow> password_error + password_policy" where
  "new_password_policy derive mac g random =
     (if length (ppc_pepper g) < 16 \<or> 1024 < length (ppc_pepper g) \<or> \<not> validate_password_config (ppc_argon2id g)
      then Inl Policy_Invalid
      else (case legacy_entries mac g of
          Inl e \<Rightarrow> Inl e
        | Inr legacy \<Rightarrow>
            (case build_password_compat (ppc_compat g) of
               Inl e \<Rightarrow> Inl e
             | Inr rs \<Rightarrow>
                 (case hash_password_with_config derive ''goplusplus-password-timing-guard'' (ppc_pepper g) (ppc_argon2id g) random of
                    Inl e \<Rightarrow> Inl Policy_Invalid
                  | Inr dummy \<Rightarrow> Inr \<lparr>pp_pepper = ppc_pepper g, pp_config = ppc_argon2id g, pp_dummy_hash = dummy,
                                  pp_compat = legacy @ rs\<rparr>))))"

definition policy_hash :: "password_policy \<Rightarrow> password_deriver \<Rightarrow> string \<Rightarrow> string option \<Rightarrow> password_error + string" where
  "policy_hash policy derive password random =
     hash_password_with_config derive password (pp_pepper policy) (pp_config policy) random"

fun verify_password_chain :: "password_compat list \<Rightarrow> int \<Rightarrow> string \<Rightarrow> string \<Rightarrow> password_verification" where
  "verify_password_chain [] now password hash = Password_Invalid"
| "verify_password_chain (e # es) now password hash =
     (if \<not> now < pcm_accept_until e then verify_password_chain es now password hash
      else (case pcm_verifier e password hash of
          Inr valid \<Rightarrow> if valid then Password_Valid_Needs_Rehash else Password_Invalid
        | Inl Password_Format_Not_Recognized \<Rightarrow> verify_password_chain es now password hash
        | Inl err \<Rightarrow> Password_Invalid))"

definition policy_verify :: "password_policy \<Rightarrow> password_deriver \<Rightarrow> int \<Rightarrow> string \<Rightarrow> string \<Rightarrow> password_verification \<times> nat" where
  "policy_verify policy derive now password hash =
     (if password = [] \<or> max_password_bytes < length password \<or> max_hash_bytes < length hash then (Password_Invalid, 0)
      else if has_prefix hash ''$argon2id$'' then
        (case verify_argon2id derive password (pp_pepper policy) hash of
           ((True, Some c), k) \<Rightarrow>
             (if config_needs_rehash c (pp_config policy) then Password_Valid_Needs_Rehash else Password_Valid, k)
         | (_, k) \<Rightarrow> (Password_Invalid, k))
      else (let k = snd (verify_argon2id derive password (pp_pepper policy) (pp_dummy_hash policy))
            in (if hash = [] then Password_Invalid else verify_password_chain (pp_compat policy) now password hash, k)))"

definition policy_verify_missing :: "password_policy \<Rightarrow> password_deriver \<Rightarrow> int \<Rightarrow> string \<Rightarrow> password_verification \<times> nat" where
  "policy_verify_missing policy derive now password = policy_verify policy derive now password []"

section \<open>A hash is read back\<close>

lemma scan_uint_decimal:
  assumes "n < 2 ^ bits" "r = [] \<or> \<not> byte_in (hd r) 48 57"
  shows "scan_uint bits (decimal n @ r) = Some (n, r)"
proof -
  have digits: "\<And>c. c \<in> set (decimal n) \<Longrightarrow> byte_in c 48 57" using decimal_set by blast
  have "takeWhile (\<lambda>c. byte_in c 48 57) r = []" "dropWhile (\<lambda>c. byte_in c 48 57) r = r"
    using assms(2) by (cases r; simp)+
  moreover have "decimal n \<noteq> []" using decimal_head [of n] by auto
  ultimately show ?thesis
    using digits assms(1) digits_value_decimal [of n] by (simp add: scan_uint_def)
qed

lemma scan_literal_append [simp]: "scan_literal l (l @ r) = Some r"
  by (simp add: scan_literal_def)

lemma scan_print_parameters:
  assumes "m < 2 ^ 32" "t < 2 ^ 32" "p < 2 ^ 8"
  shows "scan_parameters (print_parameters m t p) = Some (m, t, p)"
proof -
  have "scan_uint 32 (decimal m @ '',t='' @ decimal t @ '',p='' @ decimal p) = Some (m, '',t='' @ decimal t @ '',p='' @ decimal p)"
    "scan_uint 32 (decimal t @ '',p='' @ decimal p) = Some (t, '',p='' @ decimal p)"
    "scan_uint 8 (decimal p @ []) = Some (p, [])"
    by (rule scan_uint_decimal; use assms in \<open>simp add: byte_in_def\<close>)+
  then show ?thesis
    using scan_literal_append [of "''m=''"] scan_literal_append [of "'',t=''"] scan_literal_append [of "'',p=''"]
    by (simp add: scan_parameters_def print_parameters_def del: scan_literal_append)
qed

lemma dollar_free:
  "CHR ''$'' \<notin> set (decimal n)" "CHR ''$'' \<notin> set (b64_encode_in b64_std_alphabet s)"
proof -
  show "CHR ''$'' \<notin> set (decimal n)" using decimal_set [of "CHR ''$''" n] by (auto simp: byte_in_def)
  show "CHR ''$'' \<notin> set (b64_encode_in b64_std_alphabet s)"
    using b64_encode_set [OF b64_alphabets_ok(2), of s] b64_alphabets_ok(2) by (auto simp: b64_alphabet_ok_def)
qed

lemma split_encoded_hash:
  "split_byte CHR ''$'' (encode_argon2id_hash c salt key) =
     [[], ''argon2id'', ''v=19'', print_parameters (pc_memory c) (pc_iterations c) (pc_parallelism c),
      b64_encode_in b64_std_alphabet salt, b64_encode_in b64_std_alphabet key]"
proof -
  have "encode_argon2id_hash c salt key = [] @ CHR ''$'' # ''argon2id'' @ CHR ''$'' # ''v=19'' @ CHR ''$''
      # print_parameters (pc_memory c) (pc_iterations c) (pc_parallelism c) @ CHR ''$''
      # b64_encode_in b64_std_alphabet salt @ CHR ''$'' # b64_encode_in b64_std_alphabet key"
    by (simp add: encode_argon2id_hash_def)
  moreover have "CHR ''$'' \<notin> set (print_parameters (pc_memory c) (pc_iterations c) (pc_parallelism c))"
    by (simp add: print_parameters_def dollar_free)
  ultimately show ?thesis
    by (simp only: split_byte_append split_byte_none dollar_free) (simp add: split_byte_append split_byte_none dollar_free)
qed

lemma encoded_hash_length:
  assumes "validate_password_config c" "length salt = pc_salt_length c" "length key = pc_key_length c"
  shows "length (encode_argon2id_hash c salt key) \<le> max_hash_bytes"
proof -
  have "length (decimal (pc_memory c)) \<le> 6" "length (decimal (pc_iterations c)) \<le> 6" "length (decimal (pc_parallelism c)) \<le> 6"
    by (rule length_decimal; use assms(1) in \<open>simp add: validate_password_config_def\<close>)+
  then show ?thesis
    using assms length_b64_encode [of b64_std_alphabet salt] length_b64_encode [of b64_std_alphabet key]
    by (simp add: encode_argon2id_hash_def print_parameters_def max_hash_bytes_def validate_password_config_def)
qed

lemma parse_encoded_hash:
  assumes "validate_password_config c" "length salt = pc_salt_length c" "length key = pc_key_length c"
  shows "parse_argon2id_hash (encode_argon2id_hash c salt key) = Inr (c, salt, key)"
proof -
  have "scan_parameters (print_parameters (pc_memory c) (pc_iterations c) (pc_parallelism c))
      = Some (pc_memory c, pc_iterations c, pc_parallelism c)"
    by (rule scan_print_parameters) (use assms(1) in \<open>simp_all add: validate_password_config_def\<close>)
  moreover have "\<lparr>pc_memory = pc_memory c, pc_iterations = pc_iterations c, pc_parallelism = pc_parallelism c,
      pc_salt_length = length salt, pc_key_length = length key\<rparr> = c"
    using assms by simp
  moreover have "encode_argon2id_hash c salt key \<noteq> []" by (simp add: encode_argon2id_hash_def)
  ultimately show ?thesis
    using encoded_hash_length [OF assms] assms(1) split_encoded_hash [of c salt key]
    by (simp add: parse_argon2id_hash_def b64_decode_encode)
qed

section \<open>What verification decides\<close>

lemma hash_password_Inr:
  "hash_password_with_config derive password pepper c random = Inr h \<longleftrightarrow>
     validate_password_inputs password pepper c = None \<and> (\<exists>salt. random = Some salt \<and> h = encode_argon2id_hash c salt (derive password pepper salt c))"
  by (auto simp: hash_password_with_config_def split: option.splits)

text \<open>C8. A hash made under a policy verifies exactly for the passwords that derive the same key: with the same
  parameters as valid, under a policy with other parameters as valid and to be rehashed, and any other
  password is invalid; the verification runs exactly one derivation.\<close>
theorem hashed_passwords_verify:
  assumes hash: "policy_hash policy derive password (Some salt) = Inr hash"
    and salt: "length salt = pc_salt_length (pp_config policy)"
    and key: "length (derive password (pp_pepper policy) salt (pp_config policy)) = pc_key_length (pp_config policy)"
    and attempt: "attempt \<noteq> []" "length attempt \<le> max_password_bytes"
    and pepper: "pp_pepper policy' = pp_pepper policy"
  shows "policy_verify policy' derive now attempt hash =
           (if derive attempt (pp_pepper policy) salt (pp_config policy) = derive password (pp_pepper policy) salt (pp_config policy)
            then (if pp_config policy' = pp_config policy then Password_Valid else Password_Valid_Needs_Rehash)
            else Password_Invalid, 1)"
proof -
  let ?c = "pp_config policy" and ?p = "pp_pepper policy"
  have ok: "validate_password_inputs password ?p ?c = None" and h: "hash = encode_argon2id_hash ?c salt (derive password ?p salt ?c)"
    using hash by (auto simp: policy_hash_def hash_password_Inr)
  then have c: "validate_password_config ?c" "16 \<le> length ?p" "length ?p \<le> 1024"
    by (auto simp: validate_password_inputs_def split: if_splits)
  have "parse_argon2id_hash hash = Inr (?c, salt, derive password ?p salt ?c)"
    unfolding h using c(1) salt key by (rule parse_encoded_hash)
  then have "verify_argon2id derive attempt ?p hash = ((derive attempt ?p salt ?c = derive password ?p salt ?c, Some ?c), 1)"
    using attempt c by (simp add: verify_argon2id_def)
  moreover have "length hash \<le> max_hash_bytes" unfolding h using c(1) salt key by (rule encoded_hash_length)
  moreover have "has_prefix hash ''$argon2id$''"
    by (simp add: h encode_argon2id_hash_def)
  moreover have "config_needs_rehash ?c (pp_config policy') \<longleftrightarrow> pp_config policy' \<noteq> ?c"
    by (cases ?c; cases "pp_config policy'") (auto simp: config_needs_rehash_def)
  ultimately show ?thesis using attempt pepper by (simp add: policy_verify_def)
qed

definition sample_password_config :: password_config where
  "sample_password_config = \<lparr>pc_memory = 8192, pc_iterations = 1, pc_parallelism = 1, pc_salt_length = 16, pc_key_length = 16\<rparr>"

definition sample_password_policy :: password_policy where
  "sample_password_policy = \<lparr>pp_pepper = replicate 16 CHR ''p'', pp_config = sample_password_config, pp_dummy_hash = [], pp_compat = []\<rparr>"

definition sample_deriver :: password_deriver where
  "sample_deriver password pepper salt c = take 16 (password @ salt)"

theorem hashed_passwords_verify_witness:
  "policy_verify sample_password_policy sample_deriver 0 ''guess''
     (projr (policy_hash sample_password_policy sample_deriver ''secret'' (Some (replicate 16 CHR ''s'')))) = (Password_Invalid, 1)"
proof -
  have "policy_hash sample_password_policy sample_deriver ''secret'' (Some (replicate 16 CHR ''s'')) =
      Inr (projr (policy_hash sample_password_policy sample_deriver ''secret'' (Some (replicate 16 CHR ''s''))))"
    by (simp add: policy_hash_def hash_password_with_config_def validate_password_inputs_def validate_password_config_def
        sample_password_policy_def sample_password_config_def max_password_bytes_def)
  from hashed_passwords_verify [OF this, of "''guess''" sample_password_policy 0]
  show ?thesis
    by (simp add: sample_password_policy_def sample_password_config_def sample_deriver_def max_password_bytes_def)
qed

section \<open>How many derivations a verification runs\<close>

lemma new_password_policy_Inr:
  assumes "new_password_policy derive mac g (Some salt) = Inr policy"
  shows "pp_dummy_hash policy = encode_argon2id_hash (pp_config policy) salt
           (derive ''goplusplus-password-timing-guard'' (pp_pepper policy) salt (pp_config policy))"
    and "16 \<le> length (pp_pepper policy)" "length (pp_pepper policy) \<le> 1024" "validate_password_config (pp_config policy)"
  using assms by (auto simp: new_password_policy_def hash_password_Inr split: if_splits sum.splits)

text \<open>Every verification of an admissible password runs exactly one derivation, whether the account exists
  or not, except for a stored hash that has the prefix of Argon2id but cannot be parsed: it runs none.\<close>
theorem verification_runs_one_derivation:
  assumes policy: "new_password_policy derive mac g (Some salt) = Inr policy" "length salt = pc_salt_length (pp_config policy)"
    and key: "length (derive ''goplusplus-password-timing-guard'' (pp_pepper policy) salt (pp_config policy)) = pc_key_length (pp_config policy)"
    and attempt: "attempt \<noteq> []" "length attempt \<le> max_password_bytes" "length hash \<le> max_hash_bytes"
  shows "snd (policy_verify policy derive now attempt hash) =
           (if has_prefix hash ''$argon2id$'' \<and> isl (parse_argon2id_hash hash) then 0 else 1)"
proof -
  note p = new_password_policy_Inr [OF policy(1)]
  have "parse_argon2id_hash (pp_dummy_hash policy) = Inr (pp_config policy, salt,
      derive ''goplusplus-password-timing-guard'' (pp_pepper policy) salt (pp_config policy))"
    unfolding p(1) using p(4) policy(2) key by (rule parse_encoded_hash)
  then have dummy: "snd (verify_argon2id derive attempt (pp_pepper policy) (pp_dummy_hash policy)) = 1"
    using p attempt by (simp add: verify_argon2id_def)
  have "snd (verify_argon2id derive attempt (pp_pepper policy) hash) = (if isl (parse_argon2id_hash hash) then 0 else 1)"
    using p attempt by (auto simp: verify_argon2id_def split: sum.splits)
  then show ?thesis
    using attempt dummy
    by (auto simp: policy_verify_def Let_def split: prod.splits option.splits bool.splits)
qed

theorem verification_runs_one_derivation_witness:
  "(let g = \<lparr>ppc_pepper = replicate 16 CHR ''p'', ppc_argon2id = sample_password_config, ppc_legacy_until = None, ppc_compat = []\<rparr>;
        policy = projr (new_password_policy sample_deriver (\<lambda>_ _. []) g (Some (replicate 16 CHR ''s'')))
    in snd (policy_verify policy sample_deriver 0 ''guess'' ''$argon2id$'') = 0)"
proof -
  let ?g = "\<lparr>ppc_pepper = replicate 16 CHR ''p'', ppc_argon2id = sample_password_config, ppc_legacy_until = None, ppc_compat = []\<rparr>"
  let ?policy = "projr (new_password_policy sample_deriver (\<lambda>_ _. []) ?g (Some (replicate 16 CHR ''s'')))"
  have policy: "new_password_policy sample_deriver (\<lambda>_ _. []) ?g (Some (replicate 16 CHR ''s'')) = Inr ?policy"
    and c: "pp_config ?policy = sample_password_config"
    by (simp_all add: new_password_policy_def hash_password_with_config_def validate_password_inputs_def validate_password_config_def
        sample_password_config_def max_password_bytes_def legacy_entries_def)
  have "isl (parse_argon2id_hash ''$argon2id$'')" by (simp add: parse_argon2id_hash_def max_hash_bytes_def)
  with verification_runs_one_derivation [OF policy, of "''guess''" "''$argon2id$''" 0] c
  show ?thesis
    by (simp add: sample_password_config_def sample_deriver_def max_password_bytes_def max_hash_bytes_def)
qed

end
