(* ===== verification/Redis_Idempotency.thy ===== *)
theory Redis_Idempotency
  imports Idempotency
begin

text \<open>
  \<^verbatim>\<open>middleware/idempotency_redis.go\<close>: the store of claims that several instances share. The server is
  a map from keys to records with a deadline, a key is gone once its deadline has passed, and a command or a
  transaction is one step; \<open>now\<close> is the server's clock. A transaction that fails because the key changed
  is repeated: \<open>vanished\<close> and \<open>conflicts\<close> count the turns that failed that way.
\<close>

record redis_config =
  rs_prefix :: string
  rs_retries :: int

datatype redis_config_error = Client_Required | Prefix_Invalid

definition new_redis_idempotency_store :: "bool \<Rightarrow> redis_config \<Rightarrow> redis_config_error + redis_config" where
  "new_redis_idempotency_store has_client config =
     (if \<not> has_client then Inl Client_Required
      else (let prefix = (if rs_prefix config = [] then ''gpp:idempotency:'' else rs_prefix config)
            in if list_ex (\<lambda>c. c = CHR 0x0D \<or> c = CHR 0x0A) prefix then Inl Prefix_Invalid
               else Inr \<lparr>rs_prefix = prefix, rs_retries = (if rs_retries config \<le> 0 then 8 else rs_retries config)\<rparr>))"

type_synonym redis_db = "(string \<times> idem_entry) list"

definition redis_read :: "int \<Rightarrow> string \<Rightarrow> redis_db \<Rightarrow> idem_entry option" where
  "redis_read now key db =
     (case map_of db key of None \<Rightarrow> None | Some e \<Rightarrow> if now < entry_expires e then Some e else None)"

definition redis_claim ::
  "redis_config \<Rightarrow> nat \<Rightarrow> bool \<Rightarrow> int \<Rightarrow> string \<Rightarrow> string \<Rightarrow> string \<Rightarrow> int \<Rightarrow> redis_db \<Rightarrow> (idem_error + idem_claim) \<times> redis_db" where
  "redis_claim config vanished ctx_done now key fp owner ttl db =
     (case validate_input ctx_done key fp owner ttl of
        Some err \<Rightarrow> (Inl err, db)
      | None \<Rightarrow>
          if rs_retries config \<le> int vanished then (Inl Retry_Limit, db)
          else (case redis_read now (rs_prefix config @ key) db of
              Some e \<Rightarrow> (Inr (memory_claim e), db)
            | None \<Rightarrow>
                (Inr \<lparr>acquired = True, claim_state = Idem_Pending, claim_fingerprint = fp, claim_response = None\<rparr>,
                 AList.update (rs_prefix config @ key) (pending_entry fp owner (now + ttl)) db)))"

text \<open>\<^verbatim>\<open>update\<close>: read, decide, write, unless another client wrote in between in every turn.\<close>

definition redis_update ::
  "redis_config \<Rightarrow> nat \<Rightarrow> int \<Rightarrow> string \<Rightarrow> (idem_entry \<Rightarrow> idem_error + idem_entry) \<Rightarrow> redis_db \<Rightarrow> idem_error option \<times> redis_db" where
  "redis_update config conflicts now key mutate db =
     (if rs_retries config \<le> int conflicts then (Some Retry_Limit, db)
      else (case redis_read now key db of
          None \<Rightarrow> (Some Ownership_Lost, db)
        | Some e \<Rightarrow> (case mutate e of Inl err \<Rightarrow> (Some err, db) | Inr e' \<Rightarrow> (None, AList.update key e' db))))"

definition redis_complete ::
  "redis_config \<Rightarrow> nat \<Rightarrow> bool \<Rightarrow> int \<Rightarrow> string \<Rightarrow> string \<Rightarrow> string \<Rightarrow> idem_response \<Rightarrow> int \<Rightarrow> redis_db \<Rightarrow>
     idem_error option \<times> redis_db" where
  "redis_complete config conflicts ctx_done now key fp owner resp ttl db =
     (case validate_input ctx_done key fp owner ttl of
        Some err \<Rightarrow> (Some err, db)
      | None \<Rightarrow>
          redis_update config conflicts now (rs_prefix config @ key)
            (\<lambda>e. if entry_state e \<noteq> Idem_Pending \<or> entry_owner e \<noteq> owner \<or> entry_fingerprint e \<noteq> fp then Inl Ownership_Lost
                 else Inr \<lparr>entry_fingerprint = fp, entry_owner = [], entry_state = Idem_Complete, entry_response = Some resp,
                        entry_expires = now + ttl\<rparr>) db)"

definition redis_release :: "redis_config \<Rightarrow> nat \<Rightarrow> bool \<Rightarrow> int \<Rightarrow> string \<Rightarrow> string \<Rightarrow> redis_db \<Rightarrow> idem_error option \<times> redis_db" where
  "redis_release config conflicts ctx_done now key owner db =
     (if ctx_done then (Some Ctx_Err, db)
      else if key = [] \<or> owner = [] then (Some Input_Required, db)
      else if rs_retries config \<le> int conflicts then (Some Retry_Limit, db)
      else (case redis_read now (rs_prefix config @ key) db of
          None \<Rightarrow> (None, db)
        | Some e \<Rightarrow>
            if entry_state e \<noteq> Idem_Pending \<or> entry_owner e \<noteq> owner then (Some Ownership_Lost, db)
            else (None, AList.delete (rs_prefix config @ key) db)))"

section \<open>The laws of a store of claims\<close>

definition redis_view :: "redis_config \<Rightarrow> redis_db \<Rightarrow> string \<Rightarrow> idem_entry option" where
  "redis_view config db key = map_of db (rs_prefix config @ key)"

lemma redis_read_view:
  "redis_read now (rs_prefix config @ key) db =
     (if is_expired now (redis_view config db key) then None else redis_view config db key)"
  by (auto simp: redis_read_def redis_view_def is_expired_def split: option.splits)

lemma redis_view_update [simp]:
  "redis_view config (AList.update (rs_prefix config @ key) e db) = (redis_view config db)(key \<mapsto> e)"
  by (auto simp: redis_view_def fun_eq_iff update_conv')

lemma redis_view_delete [simp]:
  "redis_view config (AList.delete (rs_prefix config @ key) db) = (redis_view config db)(key := None)"
  by (auto simp: redis_view_def fun_eq_iff delete_conv')

lemma redis_claim_cases:
  assumes "redis_claim config vanished cd now key fp owner ttl db = (r, db')"
  obtains err where "r = Inl err" "db' = db"
  | e where "redis_view config db key = Some e" "now < entry_expires e" "r = Inr (memory_claim e)" "db' = db"
  | "redis_view config db key = None \<or> is_expired now (redis_view config db key)" "0 < ttl"
    "r = Inr \<lparr>acquired = True, claim_state = Idem_Pending, claim_fingerprint = fp, claim_response = None\<rparr>"
    "redis_view config db' = (redis_view config db)(key \<mapsto> pending_entry fp owner (now + ttl))"
proof (cases "validate_input cd key fp owner ttl")
  case (Some err)
  then show thesis using assms that(1) [of err] by (simp add: redis_claim_def)
next
  case None
  then have "0 < ttl" by (simp add: validate_input_def split: if_splits)
  show thesis
  proof (cases "rs_retries config \<le> int vanished")
    case True
    then show thesis using assms None that(1) [of Retry_Limit] by (simp add: redis_claim_def)
  next
    case False
    then show thesis
      using assms None \<open>0 < ttl\<close> that(2,3)
      by (cases "redis_view config db key") (auto simp: redis_claim_def redis_read_view is_expired_def split: if_splits)
  qed
qed

lemma completed_record:
  "\<lparr>entry_fingerprint = entry_fingerprint a, entry_owner = [], entry_state = Idem_Complete, entry_response = Some resp,
     entry_expires = t\<rparr> = (completed_entry a resp t)\<lparr>entry_owner := []\<rparr>"
  by (cases a) (simp add: completed_entry_def)

lemma redis_complete_cases:
  assumes "redis_complete config conflicts cd now key fp owner resp ttl db = (er, db')"
  obtains err where "er = Some err" "db' = db"
  | e where "er = None" "redis_view config db key = Some e" "entry_state e = Idem_Pending" "entry_owner e = owner"
    "entry_fingerprint e = fp"
    "redis_view config db' = (redis_view config db)(key \<mapsto> (completed_entry e resp (now + ttl))\<lparr>entry_owner := []\<rparr>)"
proof (cases "validate_input cd key fp owner ttl")
  case (Some err)
  then show thesis using assms that(1) [of err] by (simp add: redis_complete_def)
next
  case None
  show thesis
  proof (cases "rs_retries config \<le> int conflicts")
    case True
    then show thesis using assms None that(1) [of Retry_Limit] by (simp add: redis_complete_def redis_update_def)
  next
    case False
    then show thesis
      using assms None that
      by (cases "redis_view config db key")
         (auto simp: redis_complete_def redis_update_def redis_read_view completed_record split: if_splits)
  qed
qed

interpretation redis_claims: claim_store
  "redis_claim config vanished" "redis_complete config conflicts" "redis_release config conflicts" "\<lambda>_. True" "redis_view config"
proof unfold_locales
  fix s s' :: redis_db and cd now k fp own ttl r k' e c resp er
  { assume cl: "redis_claim config vanished cd now k fp own ttl s = (r, s')"
    show "redis_view config s' k' = redis_view config s k' \<or>
        redis_view config s' k' = None \<and> (\<exists>e. redis_view config s k' = Some e \<and> droppable now e)" if "k' \<noteq> k"
      using that by (cases rule: redis_claim_cases [OF cl]) auto
    show "redis_view config s' k = Some e \<and> ((\<exists>err. r = Inl err) \<or> r = Inr (memory_claim e))"
      if "redis_view config s k = Some e" "now < entry_expires e"
      using that by (cases rule: redis_claim_cases [OF cl]) (auto simp: is_expired_def)
    show "(\<exists>c. r = Inr c \<and> acquired c) \<or>
        (\<exists>err. r = Inl err) \<and> (redis_view config s' k = None \<or> redis_view config s' k = redis_view config s k)"
      if "redis_view config s k = None \<or> is_expired now (redis_view config s k)"
      using that by (cases rule: redis_claim_cases [OF cl]) (auto simp: is_expired_def) }
  { assume cl: "redis_claim config vanished cd now k fp own ttl s = (Inr c, s')"
    show "(redis_view config s k = None \<or> is_expired now (redis_view config s k)) \<and>
        redis_view config s' k = Some (pending_entry fp own (now + ttl)) \<and>
        c = \<lparr>acquired = True, claim_state = Idem_Pending, claim_fingerprint = fp, claim_response = None\<rparr> \<and> 0 < ttl"
      if "acquired c"
      using that by (cases rule: redis_claim_cases [OF cl]) (auto simp: memory_claim_def)
    show "\<exists>e. redis_view config s k = Some e \<and> now < entry_expires e \<and> c = memory_claim e" if "\<not> acquired c"
      using that by (cases rule: redis_claim_cases [OF cl]) auto }
  { assume co: "redis_complete config conflicts cd now k fp own resp ttl s = (er, s')"
    show "True \<and> (er \<noteq> None \<longrightarrow> s' = s) \<and> (er = None \<longrightarrow> held_by own (redis_view config s k) \<and>
        (\<exists>e ow'. redis_view config s k = Some e \<and> entry_fingerprint e = fp \<and>
          redis_view config s' = (redis_view config s)(k \<mapsto> (completed_entry e resp (now + ttl))\<lparr>entry_owner := ow'\<rparr>)))"
      by (cases rule: redis_complete_cases [OF co]) (auto simp: held_by_def) }
  { assume re: "redis_release config conflicts cd now k own s = (er, s')"
    show "True \<and> (er \<noteq> None \<longrightarrow> s' = s) \<and> (\<forall>k'. k' \<noteq> k \<longrightarrow> redis_view config s' k' = redis_view config s k') \<and>
        (er = None \<longrightarrow> (redis_view config s k = None \<or> is_expired now (redis_view config s k) \<or> held_by own (redis_view config s k))
           \<and> (redis_view config s' k = None \<or> is_expired now (redis_view config s' k)))"
      using re by (auto simp: redis_release_def redis_read_view held_by_def split: option.splits if_splits) }
qed simp_all

section \<open>Properties\<close>



text \<open>A client whose claim ran out cannot complete it once another client claimed the key.\<close>
lemma stale_owner_cannot_complete:
  assumes "redis_view config db key = Some (pending_entry fp' owner' d)" "owner' \<noteq> owner"
  shows "fst (redis_complete config conflicts cd now key fp owner resp ttl db) \<noteq> None"
proof -
  obtain er db' where co: "redis_complete config conflicts cd now key fp owner resp ttl db = (er, db')" by fastforce
  show ?thesis
    using redis_claims.complete_ok [OF TrueI co] assms by (cases er) (auto simp: held_by_def pending_entry_def co)
qed

end
