(* ===== verification/Singleflight.thy ===== *)
theory Singleflight
  imports Idempotency Go_Strconv
begin

text \<open>
  \<^verbatim>\<open>middleware/singleflight.go\<close>: concurrent equivalent GET and HEAD requests share one run of the handler.
  SHA-256 is the parameter \<open>hash\<close>. The sections under the mutex are the steps of a transition system in
  which leaders, followers and endings interleave. Header maps have canonical keys.
\<close>

section \<open>Requests and keys\<close>

text \<open>\<^verbatim>\<open>http.CanonicalHeaderKey\<close>: upper case at the start and after a hyphen, lower case elsewhere; a name
  with a character outside the token alphabet is left alone.\<close>

definition token_char :: "char \<Rightarrow> bool" where
  "token_char c \<longleftrightarrow> byte_in c 48 57 \<or> byte_in c 65 90 \<or> byte_in c 97 122 \<or> c \<in> set ''!#$%&*+-.^_`|~'' \<or> c = CHR 0x27"

fun canonical_chars :: "bool \<Rightarrow> string \<Rightarrow> string" where
  "canonical_chars upper [] = []"
| "canonical_chars upper (c # cs) =
     (if upper then upper_char c else lower_char c) # canonical_chars (c = CHR ''-'') cs"

definition canonical_header_key :: "string \<Rightarrow> string" where
  "canonical_header_key s = (if list_all token_char s then canonical_chars True s else s)"

definition header_values :: "http_header \<Rightarrow> string \<Rightarrow> string list" where
  "header_values h key = (case map_of h (canonical_header_key key) of None \<Rightarrow> [] | Some vs \<Rightarrow> vs)"

definition header_get :: "http_header \<Rightarrow> string \<Rightarrow> string" where
  "header_get h key = (case header_values h key of [] \<Rightarrow> [] | v # _ \<Rightarrow> v)"

record sf_request =
  rq_method :: string
  rq_host :: string
  rq_uri :: string
  rq_header :: http_header
  rq_tenant :: string
  rq_user_id :: string
  rq_subject :: string

record sf_config =
  sf_max_bytes :: int
  sf_scope :: "(sf_request \<Rightarrow> string) option"
  sf_vary :: "string list"

definition normalize_sf_config :: "sf_config list \<Rightarrow> sf_config" where
  "normalize_sf_config configs =
     (case configs of
        [] \<Rightarrow> \<lparr>sf_max_bytes = 1048576, sf_scope = None, sf_vary = []\<rparr>
      | g # _ \<Rightarrow> \<lparr>sf_max_bytes = (if 0 < sf_max_bytes g then sf_max_bytes g else 1048576), sf_scope = sf_scope g, sf_vary = sf_vary g\<rparr>)"

definition sf_eligible :: "sf_request \<Rightarrow> bool" where
  "sf_eligible r \<longleftrightarrow>
     (rq_method r = ''GET'' \<or> rq_method r = ''HEAD'') \<and> header_get (rq_header r) ''Upgrade'' = []
     \<and> \<not> contains_str (to_lower (header_get (rq_header r) ''Accept'')) ''text/event-stream''"

definition security_headers :: "string list" where
  "security_headers = [''Authorization'', ''Cookie'', ''Accept'', ''Accept-Encoding'', ''Accept-Language'']"

text \<open>What is hashed: each part after its length in eight bytes.\<close>

definition length_bytes :: "nat \<Rightarrow> string" where
  "length_bytes n = map (\<lambda>i. char_of (n div 256 ^ (7 - i) mod 256)) [0..<8]"

definition key_part :: "string \<Rightarrow> string" where
  "key_part v = length_bytes (length v mod 2 ^ 64) @ v"

definition sf_key_parts :: "sf_config \<Rightarrow> sf_request \<Rightarrow> string list" where
  "sf_key_parts g r =
     [rq_method r, rq_host r, rq_uri r, rq_tenant r, rq_user_id r, rq_subject r]
     @ (case sf_scope g of None \<Rightarrow> [] | Some f \<Rightarrow> [f r])
     @ concat (map (\<lambda>h. [canonical_header_key h, join_with [CHR 0x00] (header_values (rq_header r) h)]) (security_headers @ sf_vary g))"

definition sf_input :: "sf_config \<Rightarrow> sf_request \<Rightarrow> string" where
  "sf_input g r = concat (map key_part (sf_key_parts g r))"

definition sf_key :: "(string \<Rightarrow> string) \<Rightarrow> sf_config \<Rightarrow> sf_request \<Rightarrow> string" where
  "sf_key hash g r = hash (sf_input g r)"

section \<open>Responses\<close>

text \<open>What the recorder holds when the handler is done; \<open>rec_failed\<close>: the handler returned an error.\<close>

record sf_recorded =
  rec_failed :: bool
  rec_overflow :: bool
  rec_status :: int
  rec_header :: http_header
  rec_body :: string

definition comma_fields :: "string list \<Rightarrow> string list" where
  "comma_fields lines = concat (map (split_byte CHR '','') lines)"

definition vary_contains_wildcard :: "http_header \<Rightarrow> bool" where
  "vary_contains_wildcard h = list_ex (\<lambda>f. trim_space f = ''*'') (comma_fields (header_values h ''Vary''))"

definition private_directive :: "string \<Rightarrow> bool" where
  "private_directive d \<longleftrightarrow> trim_space (hd (split_byte CHR ''='' d)) \<in> set [''private'', ''no-store'']"

definition sf_shareable :: "sf_recorded \<Rightarrow> bool" where
  "sf_shareable r \<longleftrightarrow>
     \<not> (rec_failed r \<or> rec_overflow r \<or> rec_status r < 200 \<or> 300 \<le> rec_status r)
     \<and> header_values (rec_header r) ''Set-Cookie'' = [] \<and> \<not> vary_contains_wildcard (rec_header r)
     \<and> \<not> list_ex private_directive (split_byte CHR '','' (to_lower (join_with '','' (header_values (rec_header r) ''Cache-Control''))))"

definition sf_vary_matches :: "http_header \<Rightarrow> http_header \<Rightarrow> http_header \<Rightarrow> bool" where
  "sf_vary_matches request leader response \<longleftrightarrow>
     list_all (\<lambda>f. let f = canonical_header_key (trim_space f)
                   in f = [] \<or> header_values request f = header_values leader f)
       (comma_fields (header_values response ''Vary''))"

definition request_specific_header :: "string \<Rightarrow> bool" where
  "request_specific_header h \<longleftrightarrow> h \<in> set [''X-Request-Id'', ''Traceparent'', ''Tracestate'', ''Server-Timing'']"

definition hop_by_hop_header :: "string \<Rightarrow> bool" where
  "hop_by_hop_header h \<longleftrightarrow> h \<in> set [''Connection'', ''Keep-Alive'', ''Proxy-Authenticate'', ''Proxy-Authorization'',
     ''Te'', ''Trailer'', ''Transfer-Encoding'', ''Upgrade'']"

definition copy_sf_headers :: "http_header \<Rightarrow> http_header \<Rightarrow> http_header" where
  "copy_sf_headers destination source =
     (let connection = map (\<lambda>f. canonical_header_key (trim_space f)) (comma_fields (header_values source ''Connection''))
      in fold (\<lambda>(h, vs) d.
           let c = canonical_header_key h
           in if c \<in> set connection \<or> hop_by_hop_header c \<or> request_specific_header c then d else AList.update c vs d)
         source destination)"

text \<open>A replay: the status, the headers and, unless it is a HEAD request, the body.\<close>

definition sf_replay :: "sf_request \<Rightarrow> http_header \<Rightarrow> sf_recorded \<Rightarrow> int \<times> http_header \<times> string" where
  "sf_replay r own rec =
     (rec_status rec, AList.update ''X-Singleflight'' [''HIT''] (copy_sf_headers own (rec_header rec)),
      if rq_method r = ''HEAD'' then [] else rec_body rec)"

section \<open>Flights\<close>

text \<open>A call: the request that leads it and, when it is done, what was recorded; a handler that panics
  leaves \<open>None\<close> inside, which is not shareable. \<open>in_flight\<close> maps a key to the number of its call.\<close>

record sf_call =
  call_request :: sf_request
  call_done :: "sf_recorded option option"

record sf_state =
  in_flight :: "(string \<times> nat) list"
  calls :: "sf_call list"

datatype sf_role = Lead nat | Follow nat

definition sf_arrive :: "string \<Rightarrow> sf_request \<Rightarrow> sf_state \<Rightarrow> sf_role \<times> sf_state" where
  "sf_arrive key r s =
     (case map_of (in_flight s) key of
        Some i \<Rightarrow> (Follow i, s)
      | None \<Rightarrow>
          (Lead (length (calls s)),
           s\<lparr>in_flight := AList.update key (length (calls s)) (in_flight s),
             calls := calls s @ [\<lparr>call_request = r, call_done = None\<rparr>]\<rparr>))"

definition sf_finish :: "string \<Rightarrow> nat \<Rightarrow> sf_recorded option \<Rightarrow> sf_state \<Rightarrow> sf_state" where
  "sf_finish key i outcome s =
     s\<lparr>in_flight := (if map_of (in_flight s) key = Some i then AList.delete key (in_flight s) else in_flight s),
       calls := (calls s)[i := (calls s ! i)\<lparr>call_done := Some outcome\<rparr>]\<rparr>"

datatype sf_answer = Still_Waiting | Run_Alone | Replayed "int \<times> http_header \<times> string"

definition sf_wake :: "sf_request \<Rightarrow> http_header \<Rightarrow> nat \<Rightarrow> sf_state \<Rightarrow> sf_answer" where
  "sf_wake r own i s =
     (case call_done (calls s ! i) of
        None \<Rightarrow> Still_Waiting
      | Some None \<Rightarrow> Run_Alone
      | Some (Some rec) \<Rightarrow>
          if \<not> sf_shareable rec \<or> \<not> sf_vary_matches (rq_header r) (rq_header (call_request (calls s ! i))) (rec_header rec)
          then Run_Alone else Replayed (sf_replay r own rec))"

text \<open>Leaders run their handler, followers wait for the call they found.\<close>

record sf_system =
  sys :: sf_state
  leaders :: "(nat \<times> sf_request) list"
  followers :: "(nat \<times> sf_request) list"

inductive sf_reach for hash :: "string \<Rightarrow> string" and g :: sf_config where
  sf_start: "sf_reach hash g \<lparr>sys = \<lparr>in_flight = [], calls = []\<rparr>, leaders = [], followers = []\<rparr>"
| sf_lead: "sf_reach hash g y \<Longrightarrow> sf_eligible r \<Longrightarrow> sf_arrive (sf_key hash g r) r (sys y) = (Lead i, s) \<Longrightarrow>
    sf_reach hash g (y\<lparr>sys := s, leaders := (i, r) # leaders y\<rparr>)"
| sf_follow: "sf_reach hash g y \<Longrightarrow> sf_eligible r \<Longrightarrow> sf_arrive (sf_key hash g r) r (sys y) = (Follow i, s) \<Longrightarrow>
    sf_reach hash g (y\<lparr>sys := s, followers := (i, r) # followers y\<rparr>)"
| sf_end: "sf_reach hash g y \<Longrightarrow> (i, r) \<in> set (leaders y) \<Longrightarrow>
    sf_reach hash g (y\<lparr>sys := sf_finish (sf_key hash g r) i outcome (sys y), leaders := removeAll (i, r) (leaders y)\<rparr>)"
| sf_leave: "sf_reach hash g y \<Longrightarrow> sf_reach hash g (y\<lparr>followers := remove1 f (followers y)\<rparr>)"

definition sf_inv :: "(string \<Rightarrow> string) \<Rightarrow> sf_config \<Rightarrow> sf_system \<Rightarrow> bool" where
  "sf_inv hash g y \<longleftrightarrow>
     (\<forall>key i. map_of (in_flight (sys y)) key = Some i \<longleftrightarrow> (\<exists>r. (i, r) \<in> set (leaders y) \<and> sf_key hash g r = key))
     \<and> (\<forall>i r. (i, r) \<in> set (leaders y) \<longrightarrow> i < length (calls (sys y)) \<and> calls (sys y) ! i = \<lparr>call_request = r, call_done = None\<rparr>)
     \<and> (\<forall>i. i < length (calls (sys y)) \<longrightarrow> call_done (calls (sys y) ! i) = None \<longrightarrow> (\<exists>r. (i, r) \<in> set (leaders y)))
     \<and> (\<forall>i r. (i, r) \<in> set (followers y) \<longrightarrow> i < length (calls (sys y))
          \<and> sf_key hash g (call_request (calls (sys y) ! i)) = sf_key hash g r)
     \<and> distinct (map fst (leaders y))"

lemma sf_invD:
  assumes "sf_inv hash g y"
  shows "map_of (in_flight (sys y)) key = Some i \<longleftrightarrow> (\<exists>r. (i, r) \<in> set (leaders y) \<and> sf_key hash g r = key)"
    and "(i, r) \<in> set (leaders y) \<Longrightarrow> i < length (calls (sys y)) \<and> calls (sys y) ! i = \<lparr>call_request = r, call_done = None\<rparr>"
    and "i < length (calls (sys y)) \<Longrightarrow> call_done (calls (sys y) ! i) = None \<Longrightarrow> \<exists>r. (i, r) \<in> set (leaders y)"
    and "(i, r) \<in> set (followers y) \<Longrightarrow> i < length (calls (sys y))
          \<and> sf_key hash g (call_request (calls (sys y) ! i)) = sf_key hash g r"
    and "distinct (map fst (leaders y))"
  using assms unfolding sf_inv_def by blast+

lemma sf_inv_lead:
  assumes inv: "sf_inv hash g y" and arrive: "sf_arrive (sf_key hash g r) r (sys y) = (Lead i, s)"
  shows "sf_inv hash g (y\<lparr>sys := s, leaders := (i, r) # leaders y\<rparr>)"
proof -
  note old = sf_invD [OF inv]
  have free: "map_of (in_flight (sys y)) (sf_key hash g r) = None" and i: "i = length (calls (sys y))"
    and s: "s = (sys y)\<lparr>in_flight := AList.update (sf_key hash g r) i (in_flight (sys y)),
                 calls := calls (sys y) @ [\<lparr>call_request = r, call_done = None\<rparr>]\<rparr>"
    using arrive by (auto simp: sf_arrive_def split: option.splits)
  have other: "sf_key hash g r' \<noteq> sf_key hash g r" if "(j, r') \<in> set (leaders y)" for j r'
    using old(1) [of "sf_key hash g r" j] free that by auto
  have below: "j < i" if "(j, r') \<in> set (leaders y)" for j r' using old(2) [OF that] i by simp
  show ?thesis
    unfolding sf_inv_def
  proof (intro conjI allI impI)
    fix key j
    show "map_of (in_flight (sys (y\<lparr>sys := s, leaders := (i, r) # leaders y\<rparr>))) key = Some j \<longleftrightarrow>
        (\<exists>r'. (j, r') \<in> set (leaders (y\<lparr>sys := s, leaders := (i, r) # leaders y\<rparr>)) \<and> sf_key hash g r' = key)"
      using old(1) [of key j] other s by (auto simp: update_conv')
  next
    fix j r'
    assume "(j, r') \<in> set (followers (y\<lparr>sys := s, leaders := (i, r) # leaders y\<rparr>))"
    then show "j < length (calls (sys (y\<lparr>sys := s, leaders := (i, r) # leaders y\<rparr>)))"
      "sf_key hash g (call_request (calls (sys (y\<lparr>sys := s, leaders := (i, r) # leaders y\<rparr>)) ! j)) = sf_key hash g r'"
      using old(4) [of j r'] s by (simp_all add: nth_append)
  next
    show "distinct (map fst (leaders (y\<lparr>sys := s, leaders := (i, r) # leaders y\<rparr>)))"
      using old(5) below by fastforce
  qed (use old(2,3) s i below in \<open>auto simp: nth_append less_Suc_eq split: if_splits\<close>)
qed

lemma sf_inv_end:
  assumes inv: "sf_inv hash g y" and mine: "(i, r) \<in> set (leaders y)"
  shows "sf_inv hash g (y\<lparr>sys := sf_finish (sf_key hash g r) i outcome (sys y), leaders := removeAll (i, r) (leaders y)\<rparr>)"
proof -
  note old = sf_invD [OF inv]
  have here: "map_of (in_flight (sys y)) (sf_key hash g r) = Some i" using old(1) mine by blast
  have only: "r' = r" if "(i, r') \<in> set (leaders y)" for r'
    using old(2) [OF that] old(2) [OF mine] by simp
  have same: "j = i" if "(j, r') \<in> set (leaders y)" "sf_key hash g r' = sf_key hash g r" for j r'
    using old(1) [of "sf_key hash g r" j] here that by auto
  have s: "in_flight (sf_finish (sf_key hash g r) i outcome (sys y)) = AList.delete (sf_key hash g r) (in_flight (sys y))"
    "calls (sf_finish (sf_key hash g r) i outcome (sys y)) = (calls (sys y))[i := (calls (sys y) ! i)\<lparr>call_done := Some outcome\<rparr>]"
    using here by (simp_all add: sf_finish_def)
  have lt: "i < length (calls (sys y))" using old(2) [OF mine] by simp
  show ?thesis
    unfolding sf_inv_def
  proof (intro conjI allI impI, goal_cases)
    case (1 key j)
    show ?case using old(1) [of key j] same only s by (auto simp: delete_conv')
  next
    case (2 j r')
    then show ?case using old(2) [of j r'] s by simp
  next
    case (3 j r')
    then have "j \<noteq> i" using only by auto
    then show ?case using 3 old(2) [of j r'] s by simp
  next
    case (4 j)
    then have "j \<noteq> i" using s lt by auto
    then show ?case using 4 old(3) [of j] s by auto
  next
    case (5 j r')
    then show ?case using old(4) [of j r'] s by simp
  next
    case (6 j r')
    then show ?case using old(4) [of j r'] s lt by (cases "j = i") simp_all
  next
    case 7
    then show ?case using old(5) by (simp add: distinct_map inj_on_def removeAll_filter_not_eq)
  qed
qed

lemma sf_reach_inv: "sf_reach hash g y \<Longrightarrow> sf_inv hash g y"
proof (induction rule: sf_reach.induct)
  case sf_start
  then show ?case by (simp add: sf_inv_def)
next
  case (sf_lead y r i s)
  then show ?case by (intro sf_inv_lead)
next
  case (sf_follow y r i s)
  then have flying: "map_of (in_flight (sys y)) (sf_key hash g r) = Some i" and s: "s = sys y"
    by (auto simp: sf_arrive_def split: option.splits)
  note old = sf_invD [OF sf_follow.IH]
  obtain r' where "(i, r') \<in> set (leaders y)" "sf_key hash g r' = sf_key hash g r" using old(1) flying by blast
  then have "i < length (calls (sys y)) \<and> sf_key hash g (call_request (calls (sys y) ! i)) = sf_key hash g r"
    using old(2) by fastforce
  then show ?case using sf_follow.IH s by (auto simp: sf_inv_def)
next
  case (sf_end y i r outcome)
  then show ?case by (intro sf_inv_end)
next
  case (sf_leave y f)
  have "set (remove1 f (followers y)) \<subseteq> set (followers y)" by (rule set_remove1_subset)
  with sf_leave.IH show ?case by (simp add: sf_inv_def) blast
qed

section \<open>Keys tell requests apart\<close>

lemma byte_digits_inj:
  assumes "(n :: nat) < 256 ^ k" "m < 256 ^ k" "\<forall>i<k. n div 256 ^ i mod 256 = m div 256 ^ i mod 256"
  shows "n = m"
proof -
  have "n div 256 ^ (k - j) = m div 256 ^ (k - j)" if "j \<le> k" for j
    using that
  proof (induction j)
    case 0
    then show ?case using assms(1,2) by simp
  next
    case (Suc j)
    then have "k - j = Suc (k - Suc j)" "k - Suc j < k" by simp_all
    then have "n div 256 ^ (k - Suc j) div 256 = m div 256 ^ (k - Suc j) div 256"
      "n div 256 ^ (k - Suc j) mod 256 = m div 256 ^ (k - Suc j) mod 256"
      using Suc assms(3) by (simp_all add: div_mult2_eq [symmetric] mult.commute)
    then show ?case by (metis div_mult_mod_eq)
  qed
  from this [of k] show ?thesis by simp
qed

lemma length_length_bytes [simp]: "length (length_bytes n) = 8"
  by (simp add: length_bytes_def)

lemma length_bytes_inj:
  assumes "n < 2 ^ 64" "m < 2 ^ 64" "length_bytes n = length_bytes m"
  shows "n = m"
proof (rule byte_digits_inj [of n 8])
  show "\<forall>i<8. n div 256 ^ i mod 256 = m div 256 ^ i mod 256"
  proof (intro allI impI)
    fix i :: nat
    assume "i < 8"
    then have "length_bytes n ! (7 - i) = length_bytes m ! (7 - i)" "7 - i < 8" "7 - (7 - i) = i"
      using assms(3) by simp_all
    then have "(char_of (n div 256 ^ i mod 256) :: char) = char_of (m div 256 ^ i mod 256)"
      by (simp add: length_bytes_def)
    from arg_cong [OF this, of "of_char :: char \<Rightarrow> nat"]
    show "n div 256 ^ i mod 256 = m div 256 ^ i mod 256" by simp
  qed
qed (use assms in simp_all)

lemma key_part_inj:
  assumes "length v < 2 ^ 64" "length w < 2 ^ 64" "key_part v @ xs = key_part w @ ys"
  shows "v = w \<and> xs = ys"
proof -
  have "length_bytes (length v) @ v @ xs = length_bytes (length w) @ w @ ys"
    using assms by (simp add: key_part_def)
  then have "length_bytes (length v) = length_bytes (length w) \<and> v @ xs = w @ ys" by (simp add: append_eq_append_conv)
  moreover from this have "length v = length w" using length_bytes_inj assms(1,2) by blast
  ultimately show ?thesis by simp
qed

definition short_parts :: "string list \<Rightarrow> bool" where
  "short_parts ps \<longleftrightarrow> list_all (\<lambda>p. length p < 2 ^ 64) ps"

lemma key_parts_inj:
  "length ps = length qs \<Longrightarrow> short_parts ps \<Longrightarrow> short_parts qs \<Longrightarrow>
     concat (map key_part ps) = concat (map key_part qs) \<Longrightarrow> ps = qs"
proof (induction ps qs rule: list_induct2)
  case (Cons p ps q qs)
  then have "p = q \<and> concat (map key_part ps) = concat (map key_part qs)"
    by (intro key_part_inj) (simp_all add: short_parts_def)
  then show ?case using Cons by (simp add: short_parts_def)
qed simp

lemma sf_key_parts_length: "length (sf_key_parts g r) = length (sf_key_parts g r')"
proof -
  have "length (concat (map (\<lambda>h. [canonical_header_key h, f h]) hs)) = 2 * length hs" for f :: "string \<Rightarrow> string" and hs
    by (induction hs) simp_all
  then show ?thesis by (cases "sf_scope g") (simp_all add: sf_key_parts_def)
qed

lemma key_parts_fields:
  "sf_key_parts g r = sf_key_parts g l \<Longrightarrow>
     rq_method r = rq_method l \<and> rq_host r = rq_host l \<and> rq_uri r = rq_uri l
     \<and> rq_tenant r = rq_tenant l \<and> rq_user_id r = rq_user_id l \<and> rq_subject r = rq_subject l"
  by (simp add: sf_key_parts_def)

section \<open>Properties\<close>

text \<open>C11. However requests interleave, at most one handler runs for a key; a request that is answered with
  the response of another one got a successful, shareable response whose leader agrees with it in every
  field the response varies on, and unless the hash collides on the two inputs, in method, host, URI,
  tenant, user, scope and every header of the key.\<close>
theorem singleflight_shares_only_equivalent_responses:
  assumes "sf_reach hash g y"
  shows "distinct (map (\<lambda>(i, r). sf_key hash g r) (leaders y))
    \<and> (\<forall>i r own reply. (i, r) \<in> set (followers y) \<longrightarrow> sf_wake r own i (sys y) = Replayed reply \<longrightarrow>
         short_parts (sf_key_parts g r) \<longrightarrow> short_parts (sf_key_parts g (call_request (calls (sys y) ! i))) \<longrightarrow>
         (\<exists>leader rec. leader = call_request (calls (sys y) ! i) \<and> call_done (calls (sys y) ! i) = Some (Some rec)
            \<and> reply = sf_replay r own rec \<and> sf_shareable rec \<and> 200 \<le> rec_status rec \<and> rec_status rec < 300
            \<and> header_values (rec_header rec) ''Set-Cookie'' = []
            \<and> sf_vary_matches (rq_header r) (rq_header leader) (rec_header rec)
            \<and> (inj_on hash {sf_input g r, sf_input g leader} \<longrightarrow>
                 sf_key_parts g r = sf_key_parts g leader
                 \<and> rq_method r = rq_method leader \<and> rq_host r = rq_host leader \<and> rq_uri r = rq_uri leader
                 \<and> rq_tenant r = rq_tenant leader \<and> rq_user_id r = rq_user_id leader \<and> rq_subject r = rq_subject leader)))"
proof (intro conjI allI impI)
  note inv = sf_invD [OF sf_reach_inv [OF assms]]
  have "i = j \<and> r = r'" if "(i, r) \<in> set (leaders y)" "(j, r') \<in> set (leaders y)" "sf_key hash g r = sf_key hash g r'" for i r j r'
  proof -
    have "i = j" using inv(1) [of "sf_key hash g r" i] inv(1) [of "sf_key hash g r" j] that by auto
    then show ?thesis using inv(2) [OF that(1)] inv(2) [OF that(2)] by simp
  qed
  then have "inj_on (\<lambda>(i, r). sf_key hash g r) (set (leaders y))" by (auto simp: inj_on_def)
  then show "distinct (map (\<lambda>(i, r). sf_key hash g r) (leaders y))"
    using inv(5) by (auto simp: distinct_map)
next
  note inv = sf_invD [OF sf_reach_inv [OF assms]]
  fix i r own reply
  let ?l = "call_request (calls (sys y) ! i)"
  assume f: "(i, r) \<in> set (followers y)" and wake: "sf_wake r own i (sys y) = Replayed reply"
    and short: "short_parts (sf_key_parts g r)" "short_parts (sf_key_parts g ?l)"
  obtain rec where rec: "call_done (calls (sys y) ! i) = Some (Some rec)" "sf_shareable rec"
    "sf_vary_matches (rq_header r) (rq_header ?l) (rec_header rec)" "reply = sf_replay r own rec"
    using wake by (auto simp: sf_wake_def split: option.splits if_splits)
  have "sf_key hash g ?l = sf_key hash g r" using inv(4) [OF f] by simp
  then have parts: "sf_key_parts g r = sf_key_parts g ?l" if "inj_on hash {sf_input g r, sf_input g ?l}"
    using key_parts_inj [OF sf_key_parts_length short] that by (auto simp: sf_key_def sf_input_def)
  have fields: "sf_key_parts g r = sf_key_parts g ?l
      \<and> rq_method r = rq_method ?l \<and> rq_host r = rq_host ?l \<and> rq_uri r = rq_uri ?l
      \<and> rq_tenant r = rq_tenant ?l \<and> rq_user_id r = rq_user_id ?l \<and> rq_subject r = rq_subject ?l"
    if "inj_on hash {sf_input g r, sf_input g ?l}"
    by (rule conjI [OF parts [OF that] key_parts_fields [OF parts [OF that]]])
  have shareable: "200 \<le> rec_status rec" "rec_status rec < 300" "header_values (rec_header rec) ''Set-Cookie'' = []"
    using rec(2) by (simp_all add: sf_shareable_def)
  show "\<exists>leader rec. leader = ?l \<and> call_done (calls (sys y) ! i) = Some (Some rec)
      \<and> reply = sf_replay r own rec \<and> sf_shareable rec \<and> 200 \<le> rec_status rec \<and> rec_status rec < 300
      \<and> header_values (rec_header rec) ''Set-Cookie'' = []
      \<and> sf_vary_matches (rq_header r) (rq_header leader) (rec_header rec)
      \<and> (inj_on hash {sf_input g r, sf_input g leader} \<longrightarrow>
           sf_key_parts g r = sf_key_parts g leader
           \<and> rq_method r = rq_method leader \<and> rq_host r = rq_host leader \<and> rq_uri r = rq_uri leader
           \<and> rq_tenant r = rq_tenant leader \<and> rq_user_id r = rq_user_id leader \<and> rq_subject r = rq_subject leader)"
    by (intro exI [of _ ?l] exI [of _ rec] conjI impI refl rec shareable) (use fields in blast)+
qed

definition sample_get :: sf_request where
  "sample_get = \<lparr>rq_method = ''GET'', rq_host = ''h'', rq_uri = ''/'', rq_header = [], rq_tenant = [], rq_user_id = [], rq_subject = []\<rparr>"

definition sample_recorded :: sf_recorded where
  "sample_recorded = \<lparr>rec_failed = False, rec_overflow = False, rec_status = 200, rec_header = [], rec_body = ''b''\<rparr>"

definition sample_flight :: sf_state where
  "sample_flight = sf_finish (sf_key id (normalize_sf_config []) sample_get) 0 (Some sample_recorded)
     (snd (sf_arrive (sf_key id (normalize_sf_config []) sample_get) sample_get \<lparr>in_flight = [], calls = []\<rparr>))"

lemma canonical_chars_length [simp]: "length (canonical_chars u s) = length s"
  by (induction s arbitrary: u) simp_all

lemma canonical_header_key_length [simp]: "length (canonical_header_key s) = length s"
  by (simp add: canonical_header_key_def)

lemma header_values_Nil [simp]: "header_values [] k = []"
  by (simp add: header_values_def)

lemma sample_short: "short_parts (sf_key_parts (normalize_sf_config []) sample_get)"
  by (simp add: short_parts_def sf_key_parts_def sample_get_def normalize_sf_config_def security_headers_def)

theorem singleflight_shares_only_equivalent_responses_witness:
  "\<exists>rec. sf_wake sample_get [] 0 sample_flight = Replayed (sf_replay sample_get [] rec) \<and> sf_shareable rec"
proof -
  let ?g = "normalize_sf_config []" and ?k = "sf_key id (normalize_sf_config []) sample_get"
  let ?s0 = "\<lparr>in_flight = [], calls = []\<rparr>"
  let ?s1 = "snd (sf_arrive ?k sample_get ?s0)"
  have el: "sf_eligible sample_get"
    by (simp add: sf_eligible_def sample_get_def header_get_def to_lower_def)
  have a1: "sf_arrive ?k sample_get ?s0 = (Lead 0, ?s1)" by (simp add: sf_arrive_def)
  have a2: "sf_arrive ?k sample_get ?s1 = (Follow 0, ?s1)" by (simp add: sf_arrive_def)
  have "sf_reach id ?g \<lparr>sys = ?s1, leaders = [(0, sample_get)], followers = []\<rparr>"
    using sf_lead [OF sf_start el, of id ?g 0 ?s1] a1 by simp
  from sf_follow [OF this el, of 0 ?s1] a2
  have "sf_reach id ?g \<lparr>sys = ?s1, leaders = [(0, sample_get)], followers = [(0, sample_get)]\<rparr>" by simp
  from sf_end [OF this, of 0 sample_get "Some sample_recorded"]
  have y: "sf_reach id ?g \<lparr>sys = sample_flight, leaders = [], followers = [(0, sample_get)]\<rparr>"
    by (simp add: sample_flight_def)
  have call: "calls sample_flight ! 0 = \<lparr>call_request = sample_get, call_done = Some (Some sample_recorded)\<rparr>"
    by (simp add: sample_flight_def sf_finish_def sf_arrive_def)
  have "sf_wake sample_get [] 0 sample_flight = Replayed (sf_replay sample_get [] sample_recorded)"
    by (simp add: sf_wake_def call sf_shareable_def sample_recorded_def vary_contains_wildcard_def
        comma_fields_def sf_vary_matches_def to_lower_def private_directive_def trim_space_def)
  moreover have "(0, sample_get) \<in> set (followers \<lparr>sys = sample_flight, leaders = [], followers = [(0, sample_get)]\<rparr>)" by simp
  moreover have "short_parts (sf_key_parts ?g (call_request (calls sample_flight ! 0)))" using sample_short call by simp
  ultimately show ?thesis
    using conjunct2 [OF singleflight_shares_only_equivalent_responses [OF y], rule_format, of 0 sample_get "[]"] sample_short
    by (metis sf_system.select_convs(1))
qed

end
