(* ===== verification/Validation_Walk.thy ===== *)
theory Validation_Walk
  imports Validation_Rules
begin

text \<open>
  \<^verbatim>\<open>validation.go\<close>: the rules of a tag, the traversal of a value and its limits. Each function of the
  traversal does its own work and then calls others; here it delivers the calls it makes, and \<open>run_calls\<close>
  makes them in order, depth first. Values are finite trees, so the guard against cyclic pointers never
  fires, and struct metadata is computed where the source caches it. A panic inside \<^verbatim>\<open>reflect\<close> is not modelled.
\<close>

section \<open>Tags\<close>

definition supported_rules :: "string list" where
  "supported_rules =
     [''omitempty'', ''omitnil'', ''required'', ''required_if'', ''required_unless'', ''required_with'', ''required_with_all'',
      ''required_without'', ''required_without_all'', ''excluded_if'', ''excluded_unless'', ''excluded_with'', ''excluded_with_all'',
      ''excluded_without'', ''excluded_without_all'', ''eq'', ''ne'', ''gt'', ''gte'', ''lt'', ''lte'', ''min'', ''max'', ''len'',
      ''eqfield'', ''nefield'', ''gtfield'', ''gtefield'', ''ltfield'', ''ltefield'', ''oneof'', ''not_oneof'', ''unique'',
      ''alpha'', ''alphanum'', ''numeric'', ''number'', ''lowercase'', ''uppercase'', ''ascii'', ''printascii'', ''boolean'',
      ''contains'', ''containsany'', ''containsrune'', ''excludes'', ''excludesall'', ''excludesrune'', ''startswith'', ''endswith'',
      ''email'', ''url'', ''http_url'', ''ip'', ''ipv4'', ''ipv6'', ''cidr'', ''cidrv4'', ''cidrv6'', ''hostname'', ''hostname_port'',
      ''uuid'', ''uuid3'', ''uuid4'', ''uuid5'', ''json'', ''base64'', ''base64url'', ''hexadecimal'', ''hexcolor'', ''datetime'',
      ''dive'', ''keys'', ''endkeys'']"

fun parse_rule_parts :: "string list \<Rightarrow> config_error + validation_rule list" where
  "parse_rule_parts [] = Inr []"
| "parse_rule_parts (part # parts) =
     (let p = trim_space part; (name, param) = cut_at CHR ''='' p
      in if p = [] then Inl (Config_Error ''validation tag contains an empty rule'')
         else if name \<notin> set supported_rules then Inl (Config_Error (''unsupported validation rule: '' @ name))
         else (case parse_rule_parts parts of
             Inl e \<Rightarrow> Inl e
           | Inr rs \<Rightarrow> Inr (\<lparr>rule_name = name, rule_param = param\<rparr> # rs)))"

definition parse_validation_rules :: "string \<Rightarrow> config_error + validation_rule list" where
  "parse_validation_rules tag =
     (if tag = [] \<or> tag = ''-'' then Inr [] else parse_rule_parts (split_byte CHR '','' tag))"

definition json_field_name :: "field_meta \<Rightarrow> string" where
  "json_field_name m =
     (let name = fst (cut_at CHR '','' (fm_json m)) in if name = [] \<or> name = ''-'' then fm_name m else name)"

text \<open>The exported fields of a struct with their names and rules; the first bad tag is the error of the type.\<close>

record walk_field =
  wf_name :: string
  wf_rules :: "validation_rule list"
  wf_skip :: bool
  wf_content :: rv

fun build_metadata :: "(field_meta \<times> rv) list \<Rightarrow> config_error + walk_field list" where
  "build_metadata [] = Inr []"
| "build_metadata ((m, v) # fs) =
     (if \<not> fm_exported m then build_metadata fs
      else (case parse_validation_rules (fm_tag m) of
          Inl e \<Rightarrow> Inl e
        | Inr rules \<Rightarrow>
            (case build_metadata fs of
               Inl e \<Rightarrow> Inl e
             | Inr ws \<Rightarrow>
                 Inr (\<lparr>wf_name = json_field_name m, wf_rules = rules, wf_skip = (fm_tag m = ''-''), wf_content = v\<rparr> # ws))))"

definition rule_index :: "validation_rule list \<Rightarrow> string \<Rightarrow> nat option" where
  "rule_index rules name = index_where (\<lambda>r. rule_name r = name) rules"

definition split_map_rules :: "validation_rule list \<Rightarrow> config_error + validation_rule list \<times> validation_rule list" where
  "split_map_rules rules =
     (case (rule_index rules ''keys'', rule_index rules ''endkeys'') of
        (None, None) \<Rightarrow> Inr ([], rules)
      | (Some k, Some e) \<Rightarrow>
          if k \<noteq> 0 \<or> e \<le> k then Inl (Config_Error ''keys must immediately follow dive and end with endkeys'')
          else Inr (take (e - (k + 1)) (drop (k + 1) rules), drop (e + 1) rules)
      | _ \<Rightarrow> Inl (Config_Error ''keys must immediately follow dive and end with endkeys''))"

section \<open>Messages\<close>

definition is_collection :: "rv \<Rightarrow> bool" where
  "is_collection v \<longleftrightarrow> collection_size v \<noteq> None"

definition bound_message :: "string \<Rightarrow> string \<Rightarrow> string \<Rightarrow> rv \<Rightarrow> string" where
  "bound_message sized plain param v =
     (case v of
        RString s \<Rightarrow> sized @ param @ '' characters''
      | _ \<Rightarrow> if is_collection v then sized @ param @ '' items'' else plain @ param)"

definition rule_message :: "rv \<Rightarrow> validation_rule \<Rightarrow> string" where
  "rule_message v rule =
     (let n = rule_name rule; p = rule_param rule
      in if n \<in> set [''required'', ''required_if'', ''required_unless'', ''required_with'', ''required_with_all'',
            ''required_without'', ''required_without_all''] then ''is required''
         else if n = ''email'' then ''must be a valid email address''
         else if n = ''min'' then bound_message ''must contain at least '' ''must be at least '' p v
         else if n = ''max'' then bound_message ''must contain at most '' ''must be at most '' p v
         else if n = ''len'' then bound_message ''must contain exactly '' ''must equal '' p v
         else if n = ''oneof'' then ''must be one of ['' @ p @ '']''
         else ''failed validation rule '' @ [CHR 0x27] @ n @ (if p \<noteq> [] then ''='' @ p else []) @ [CHR 0x27])"

section \<open>The rule table\<close>

definition apply_validation_rule :: "validation_env \<Rightarrow> rv \<Rightarrow> rv \<Rightarrow> validation_rule \<Rightarrow> config_error + bool" where
  "apply_validation_rule env v owner rule =
     (let n = rule_name rule
      in if n = ''required'' then Inr (\<not> is_empty_value v)
         else if n \<in> set [''required_if'', ''required_unless'', ''required_with'', ''required_with_all'', ''required_without'',
           ''required_without_all''] then validate_required_condition env v owner rule
         else if n \<in> set [''excluded_if'', ''excluded_unless'', ''excluded_with'', ''excluded_with_all'', ''excluded_without'',
           ''excluded_without_all''] then validate_excluded_condition env v owner rule
         else if n \<in> set [''eq'', ''ne'', ''gt'', ''gte'', ''lt'', ''lte'', ''min'', ''max'', ''len'']
         then validate_constant_comparison env v rule
         else if n \<in> set [''eqfield'', ''nefield'', ''gtfield'', ''gtefield'', ''ltfield'', ''ltefield'']
         then validate_field_comparison v owner rule
         else if n \<in> set [''oneof'', ''not_oneof''] then validate_one_of env v rule
         else if n = ''unique'' then validate_unique v
         else if n \<in> set [''alpha'', ''alphanum'', ''numeric'', ''number'', ''lowercase'', ''uppercase'', ''ascii'', ''printascii'', ''boolean'']
         then validate_character_rule env v rule
         else if n \<in> set [''contains'', ''containsany'', ''containsrune'', ''excludes'', ''excludesall'', ''excludesrune'', ''startswith'', ''endswith'']
         then validate_string_relation v rule
         else if n \<in> set [''email'', ''url'', ''http_url'', ''ip'', ''ipv4'', ''ipv6'', ''cidr'', ''cidrv4'', ''cidrv6'', ''hostname'', ''hostname_port'',
           ''uuid'', ''uuid3'', ''uuid4'', ''uuid5'', ''json'', ''base64'', ''base64url'', ''hexadecimal'', ''hexcolor'', ''datetime'']
         then validate_format_rule env v rule
         else if n \<in> set [''omitempty'', ''omitnil''] then Inr True
         else if n \<in> set [''dive'', ''keys'', ''endkeys''] then Inl (Config_Error (n @ '' is in an invalid position''))
         else Inl (Config_Error (''unsupported validation rule: '' @ n)))"

section \<open>The state of a validation\<close>

record walk_state =
  violations :: "violation list"
  configuration :: "config_error option"
  limit_reported :: bool

definition max_validation_depth :: nat where "max_validation_depth = 32"
definition max_validation_errors :: nat where "max_validation_errors = 64"

definition walk_done :: "walk_state \<Rightarrow> bool" where
  "walk_done s \<longleftrightarrow> configuration s \<noteq> None \<or> max_validation_errors \<le> length (violations s)"

definition add_violation :: "string \<Rightarrow> rv \<Rightarrow> validation_rule \<Rightarrow> walk_state \<Rightarrow> walk_state" where
  "add_violation path v rule s =
     (if max_validation_errors \<le> length (violations s) then s
      else s\<lparr>violations := violations s @ [\<lparr>v_field = path, v_rule = rule_name rule, v_message = rule_message (deref v) rule\<rparr>]\<rparr>)"

definition add_limit_violation :: "string \<Rightarrow> string \<Rightarrow> string \<Rightarrow> walk_state \<Rightarrow> walk_state" where
  "add_limit_violation path rule message s =
     (if limit_reported s \<or> max_validation_errors \<le> length (violations s) then s
      else s\<lparr>limit_reported := True, violations := violations s @ [\<lparr>v_field = path, v_rule = rule, v_message = message\<rparr>]\<rparr>)"

definition set_configuration :: "config_error \<Rightarrow> walk_state \<Rightarrow> walk_state" where
  "set_configuration e s = s\<lparr>configuration := Some e\<rparr>"

definition bounded_length :: "string \<Rightarrow> nat \<Rightarrow> walk_state \<Rightarrow> nat \<times> walk_state" where
  "bounded_length path n s =
     (if n \<le> max_validation_collection then (n, s)
      else (max_validation_collection,
            add_limit_violation path ''max_items'' ''collection exceeds the validation traversal limit'' s))"

section \<open>The traversal\<close>

text \<open>A call of \<^verbatim>\<open>validateStructValue\<close>, \<^verbatim>\<open>validateField\<close>, \<^verbatim>\<open>validateDive\<close> or \<^verbatim>\<open>validateNestedValue\<close>.\<close>

datatype call =
    Validate_Struct rv string nat
  | Validate_Field rv rv string "validation_rule list" nat
  | Validate_Dive rv rv string "validation_rule list" nat
  | Validate_Nested rv string nat

definition join_path :: "string \<Rightarrow> string \<Rightarrow> string" where
  "join_path parent name = (if parent = [] then name else parent @ ''.'' @ name)"

definition item_path :: "string \<Rightarrow> nat \<Rightarrow> string" where
  "item_path path i = path @ ''['' @ decimal i @ '']''"

fun insert_entry :: "validation_env \<Rightarrow> rv \<times> rv \<Rightarrow> (rv \<times> rv) list \<Rightarrow> (rv \<times> rv) list" where
  "insert_entry env e [] = [e]"
| "insert_entry env e (x # xs) =
     (if str_lt (print_value env (fst e)) (print_value env (fst x)) then e # x # xs else x # insert_entry env e xs)"

definition bounded_sorted_entries :: "validation_env \<Rightarrow> (rv \<times> rv) list \<Rightarrow> nat \<Rightarrow> (rv \<times> rv) list" where
  "bounded_sorted_entries env es n = fold (insert_entry env) (take n es) []"

definition struct_calls :: "rv \<Rightarrow> string \<Rightarrow> nat \<Rightarrow> walk_state \<Rightarrow> walk_state \<times> call list" where
  "struct_calls v path depth s =
     (if walk_done s then (s, [])
      else (case v of
          RStruct t fs \<Rightarrow>
            if max_validation_depth < depth
            then (add_limit_violation path ''max_depth'' ''validation nesting exceeds the supported limit'' s, [])
            else (case build_metadata fs of
                Inl e \<Rightarrow> (set_configuration e s, [])
              | Inr ws \<Rightarrow>
                  (s, map (\<lambda>w. Validate_Field (wf_content w) v (join_path path (wf_name w)) (wf_rules w) depth)
                        (filter (\<lambda>w. \<not> wf_skip w) ws)))
        | _ \<Rightarrow> (s, [])))"

text \<open>The rules before \<^verbatim>\<open>dive\<close>; \<open>False\<close> when the function returns early.\<close>

fun apply_rules :: "validation_env \<Rightarrow> rv \<Rightarrow> rv \<Rightarrow> string \<Rightarrow> validation_rule list \<Rightarrow> walk_state \<Rightarrow> walk_state \<times> bool" where
  "apply_rules env v owner path [] s = (s, True)"
| "apply_rules env v owner path (r # rs) s =
     (if rule_name r = ''omitempty'' then
        (if is_empty_value v then (s, False) else apply_rules env v owner path rs s)
      else if rule_name r = ''omitnil'' then
        (if is_nil_value v then (s, False) else apply_rules env v owner path rs s)
      else (case apply_validation_rule env v owner r of
          Inl e \<Rightarrow> (set_configuration e s, False)
        | Inr valid \<Rightarrow> apply_rules env v owner path rs (if valid then s else add_violation path v r s)))"

definition field_calls :: "validation_env \<Rightarrow> rv \<Rightarrow> rv \<Rightarrow> string \<Rightarrow> validation_rule list \<Rightarrow> nat \<Rightarrow> walk_state \<Rightarrow> walk_state \<times> call list" where
  "field_calls env v owner path rules depth s =
     (if walk_done s then (s, [])
      else (case rule_index rules ''dive'' of
          None \<Rightarrow>
            (case apply_rules env v owner path rules s of
               (s, False) \<Rightarrow> (s, [])
             | (s, True) \<Rightarrow> (s, [Validate_Nested v path (depth + 1)]))
        | Some i \<Rightarrow>
            (case apply_rules env v owner path (take i rules) s of
               (s, False) \<Rightarrow> (s, [])
             | (s, True) \<Rightarrow> (s, [Validate_Dive v owner path (drop (i + 1) rules) (depth + 1)]))))"

definition item_calls :: "(string \<Rightarrow> rv \<Rightarrow> call) \<Rightarrow> string \<Rightarrow> rv list \<Rightarrow> walk_state \<Rightarrow> walk_state \<times> call list" where
  "item_calls f path xs s =
     (case bounded_length path (length xs) s of
        (n, s) \<Rightarrow> (s, map (\<lambda>(i, x). f (item_path path i) x) (enumerate 0 (take n xs))))"

definition entry_calls ::
  "validation_env \<Rightarrow> (string \<Rightarrow> rv \<times> rv \<Rightarrow> call list) \<Rightarrow> string \<Rightarrow> (rv \<times> rv) list \<Rightarrow> walk_state \<Rightarrow> walk_state \<times> call list" where
  "entry_calls env f path es s =
     (case bounded_length path (length es) s of
        (n, s) \<Rightarrow> (s, concat (map (\<lambda>(i, e). f (item_path path i) e) (enumerate 0 (bounded_sorted_entries env es n)))))"

definition dive_calls :: "validation_env \<Rightarrow> rv \<Rightarrow> rv \<Rightarrow> string \<Rightarrow> validation_rule list \<Rightarrow> nat \<Rightarrow> walk_state \<Rightarrow> walk_state \<times> call list" where
  "dive_calls env v owner path rules depth s =
     (if deref v = RInvalid \<or> walk_done s then (s, [])
      else (case deref v of
          RArray xs \<Rightarrow> item_calls (\<lambda>p x. Validate_Field x owner p rules depth) path xs s
        | RSlice xs \<Rightarrow>
            item_calls (\<lambda>p x. Validate_Field x owner p rules depth) path (case xs of None \<Rightarrow> [] | Some es \<Rightarrow> es) s
        | RMap m \<Rightarrow>
            (case split_map_rules rules of
               Inl e \<Rightarrow> (set_configuration e s, [])
             | Inr (key_rules, val_rules) \<Rightarrow>
                 entry_calls env
                   (\<lambda>p (k, x). (if key_rules \<noteq> [] then [Validate_Field k owner (p @ ''.key'') key_rules depth] else [])
                      @ [Validate_Field x owner p val_rules depth])
                   path (case m of None \<Rightarrow> [] | Some es \<Rightarrow> es) s)
        | _ \<Rightarrow> (set_configuration (Config_Error ''dive requires an array, slice, or map'') s, [])))"

definition nested_calls :: "validation_env \<Rightarrow> rv \<Rightarrow> string \<Rightarrow> nat \<Rightarrow> walk_state \<Rightarrow> walk_state \<times> call list" where
  "nested_calls env v path depth s =
     (if deref v = RInvalid \<or> walk_done s then (s, [])
      else (case deref v of
          RStruct t fs \<Rightarrow> (s, [Validate_Struct (deref v) path depth])
        | RArray xs \<Rightarrow> item_calls (\<lambda>p x. Validate_Nested x p (depth + 1)) path xs s
        | RSlice xs \<Rightarrow> item_calls (\<lambda>p x. Validate_Nested x p (depth + 1)) path (case xs of None \<Rightarrow> [] | Some es \<Rightarrow> es) s
        | RMap m \<Rightarrow>
            entry_calls env (\<lambda>p (k, x). [Validate_Nested x p (depth + 1)]) path (case m of None \<Rightarrow> [] | Some es \<Rightarrow> es) s
        | _ \<Rightarrow> (s, [])))"

fun make_call :: "validation_env \<Rightarrow> call \<Rightarrow> walk_state \<Rightarrow> walk_state \<times> call list" where
  "make_call env (Validate_Struct v path depth) s = struct_calls v path depth s"
| "make_call env (Validate_Field v owner path rules depth) s = field_calls env v owner path rules depth s"
| "make_call env (Validate_Dive v owner path rules depth) s = dive_calls env v owner path rules depth s"
| "make_call env (Validate_Nested v path depth) s = nested_calls env v path depth s"

subsection \<open>The traversal ends\<close>

fun rv_size :: "rv \<Rightarrow> nat" where
  "rv_size (RPtr a v) = (case v of None \<Rightarrow> 1 | Some x \<Rightarrow> 1 + rv_size x)"
| "rv_size (RIface v) = (case v of None \<Rightarrow> 1 | Some x \<Rightarrow> 1 + rv_size x)"
| "rv_size (RSlice v) = (case v of None \<Rightarrow> 1 | Some xs \<Rightarrow> 1 + sum_list (map (\<lambda>x. 1 + rv_size x) xs))"
| "rv_size (RArray xs) = 1 + sum_list (map (\<lambda>x. 1 + rv_size x) xs)"
| "rv_size (RMap v) = (case v of None \<Rightarrow> 1 | Some es \<Rightarrow> 1 + sum_list (map (\<lambda>(k, x). 2 + rv_size k + rv_size x) es))"
| "rv_size (RStruct t fs) = 1 + sum_list (map (\<lambda>(m, x). 1 + rv_size x) fs)"
| "rv_size v = 1"

fun call_weight :: "call \<Rightarrow> nat" where
  "call_weight (Validate_Struct v path depth) = 4 * rv_size v"
| "call_weight (Validate_Field v owner path rules depth) = 4 * rv_size v + 3"
| "call_weight (Validate_Dive v owner path rules depth) = 4 * rv_size v + 2"
| "call_weight (Validate_Nested v path depth) = 4 * rv_size v + 1"

definition calls_weight :: "call list \<Rightarrow> nat" where
  "calls_weight cs = sum_list (map call_weight cs)"

lemma calls_weight_simps [simp]: "calls_weight [] = 0" "calls_weight (c # cs) = call_weight c + calls_weight cs"
  "calls_weight (cs @ ds) = calls_weight cs + calls_weight ds"
  by (simp_all add: calls_weight_def)

lemma rv_size_pos: "0 < rv_size v"
  by (cases v) (auto split: option.split)

lemma rv_size_deref: "rv_size (deref v) \<le> rv_size v"
  by (induction v rule: deref.induct) (auto split: option.split intro: le_SucI)

lemma fields_weight: "build_metadata fs = Inr ws \<Longrightarrow>
  calls_weight (map (\<lambda>w. Validate_Field (wf_content w) v (path w) (wf_rules w) depth) (filter P ws))
    \<le> 4 * sum_list (map (\<lambda>(m, x). 1 + rv_size x) fs)"
proof (induction fs arbitrary: ws rule: build_metadata.induct)
  case (2 m v fs)
  then show ?case by (fastforce split: if_splits sum.splits)
qed simp

lemma items_weight:
  assumes "\<And>p x. call_weight (f p x) \<le> 4 * rv_size x + 3"
  shows "calls_weight (map (\<lambda>(i, x). f (g i) x) (enumerate j (take n xs))) \<le> 4 * sum_list (map (\<lambda>x. 1 + rv_size x) xs)"
proof (induction n arbitrary: j xs)
  case (Suc n)
  show ?case
  proof (cases xs)
    case (Cons x ys)
    then show ?thesis using Suc [of "Suc j" ys] assms [of "g j" x] by simp
  qed simp
qed simp

lemma sum_insert_entry: "sum_list (map h (insert_entry env e xs)) = (h e + sum_list (map h xs) :: nat)"
  by (induction xs) auto

lemma sum_bounded_sorted: "sum_list (map h (bounded_sorted_entries env es n)) \<le> (sum_list (map h es) :: nat)"
proof -
  have "sum_list (map h (fold (insert_entry env) xs acc)) = sum_list (map h xs) + sum_list (map h acc)" for xs acc
    by (induction xs arbitrary: acc) (simp_all add: sum_insert_entry)
  moreover have "sum_list (map h (take n es)) \<le> sum_list (map h es)"
    by (metis append_take_drop_id le_add1 map_append sum_list_append)
  ultimately show ?thesis by (simp add: bounded_sorted_entries_def)
qed

lemma entries_weight:
  assumes "\<And>p k x. calls_weight (f p (k, x)) \<le> 4 * (2 + rv_size k + rv_size x)"
  shows "calls_weight (concat (map (\<lambda>(i, e). f (g i) e) (enumerate j es)))
    \<le> 4 * sum_list (map (\<lambda>(k, x). 2 + rv_size k + rv_size x) es)"
proof (induction es arbitrary: j)
  case (Cons e es)
  obtain k x where "e = (k, x)" by fastforce
  then show ?case using Cons [of "Suc j"] assms [of "g j" k x] by simp
qed simp

lemma item_calls_weight:
  assumes "\<And>p x. call_weight (f p x) \<le> 4 * rv_size x + 3"
  shows "calls_weight (snd (item_calls f path xs s)) \<le> 4 * sum_list (map (\<lambda>x. 1 + rv_size x) xs)"
  using items_weight [of f "item_path path" 0 "length xs" xs, OF assms]
    items_weight [of f "item_path path" 0 "max_validation_collection" xs, OF assms]
  by (simp add: item_calls_def bounded_length_def)

lemma entry_calls_weight:
  assumes "\<And>p k x. calls_weight (f p (k, x)) \<le> 4 * (2 + rv_size k + rv_size x)"
  shows "calls_weight (snd (entry_calls env f path es s)) \<le> 4 * sum_list (map (\<lambda>(k, x). 2 + rv_size k + rv_size x) es)"
proof -
  have "calls_weight (snd (entry_calls env f path es s))
      \<le> 4 * sum_list (map (\<lambda>(k, x). 2 + rv_size k + rv_size x) (bounded_sorted_entries env es (min (length es) max_validation_collection)))"
    using entries_weight [of f "item_path path" 0, OF assms]
    by (simp add: entry_calls_def bounded_length_def)
  also have "\<dots> \<le> 4 * sum_list (map (\<lambda>(k, x). 2 + rv_size k + rv_size x) es)"
    using sum_bounded_sorted by (rule mult_left_mono) simp
  finally show ?thesis .
qed

lemma struct_calls_weight: "calls_weight (snd (struct_calls v path depth s)) < 4 * rv_size v"
proof (cases v)
  case (RStruct t fs)
  show ?thesis
  proof (cases "build_metadata fs")
    case (Inr ws)
    then show ?thesis
      using fields_weight [OF Inr, of "RStruct t fs" "\<lambda>w. join_path path (wf_name w)" depth "\<lambda>w. \<not> wf_skip w"]
      by (simp add: RStruct struct_calls_def)
  qed (simp add: RStruct struct_calls_def)
qed (simp_all add: struct_calls_def rv_size_pos del: rv_size.simps)

lemma dive_calls_weight: "calls_weight (snd (dive_calls env v owner path rules depth s)) < 4 * rv_size v + 2"
proof -
  note items = item_calls_weight [of "\<lambda>p x. Validate_Field x owner p rules depth" path _ s]
  have entries: "calls_weight (snd (entry_calls env
      (\<lambda>p (k, x). (if kr \<noteq> [] then [Validate_Field k owner (p @ ''.key'') kr depth] else []) @ [Validate_Field x owner p vr depth])
      path es s)) \<le> 4 * sum_list (map (\<lambda>(k, x). 2 + rv_size k + rv_size x) es)" for kr vr es
    by (rule entry_calls_weight) simp
  show ?thesis
    using rv_size_deref [of v]
  proof (cases "deref v")
    case (RArray xs)
    then show ?thesis using rv_size_deref [of v] items [of xs] by (simp add: dive_calls_def)
  next
    case (RSlice m)
    then show ?thesis
      using rv_size_deref [of v] items [of "case m of None \<Rightarrow> [] | Some es \<Rightarrow> es"]
      by (cases m) (simp_all add: dive_calls_def)
  next
    case (RMap m)
    show ?thesis
    proof (cases "split_map_rules rules")
      case (Inr q)
      obtain kr vr where "q = (kr, vr)" by fastforce
      then show ?thesis
        using rv_size_deref [of v] entries [of kr vr "case m of None \<Rightarrow> [] | Some es \<Rightarrow> es"] RMap Inr
        by (cases m) (simp_all add: dive_calls_def)
    qed (simp add: dive_calls_def RMap)
  qed (simp_all add: dive_calls_def)
qed

lemma nested_calls_weight: "calls_weight (snd (nested_calls env v path depth s)) < 4 * rv_size v + 1"
proof -
  note items = item_calls_weight [of "\<lambda>p x. Validate_Nested x p (depth + 1)" path _ s]
  have entries: "calls_weight (snd (entry_calls env (\<lambda>p (k, x). [Validate_Nested x p (depth + 1)]) path es s))
      \<le> 4 * sum_list (map (\<lambda>(k, x). 2 + rv_size k + rv_size x) es)" for es
    by (rule entry_calls_weight) simp
  show ?thesis
    using rv_size_deref [of v]
  proof (cases "deref v")
    case (RArray xs)
    then show ?thesis using rv_size_deref [of v] items [of xs] by (simp add: nested_calls_def)
  next
    case (RSlice m)
    then show ?thesis
      using rv_size_deref [of v] items [of "case m of None \<Rightarrow> [] | Some es \<Rightarrow> es"]
      by (cases m) (simp_all add: nested_calls_def)
  next
    case (RMap m)
    then show ?thesis
      using rv_size_deref [of v] entries [of "case m of None \<Rightarrow> [] | Some es \<Rightarrow> es"]
      by (cases m) (simp_all add: nested_calls_def)
  next
    case (RStruct t fs)
    then show ?thesis using rv_size_deref [of v] by (simp add: nested_calls_def)
  qed (simp_all add: nested_calls_def)
qed

lemma field_calls_weight: "calls_weight (snd (field_calls env v owner path rules depth s)) < 4 * rv_size v + 3"
  by (auto simp: field_calls_def split: option.splits prod.splits bool.splits)

lemma make_call_weight: "calls_weight (snd (make_call env c s)) < call_weight c"
  using struct_calls_weight dive_calls_weight nested_calls_weight field_calls_weight
  by (cases c) (simp_all del: rv_size.simps)

function run_calls :: "validation_env \<Rightarrow> call list \<Rightarrow> walk_state \<Rightarrow> walk_state" where
  "run_calls env [] s = s"
| "run_calls env (c # cs) s = (case make_call env c s of (s, ds) \<Rightarrow> run_calls env (ds @ cs) s)"
  by pat_completeness auto
termination
proof (relation "measure (\<lambda>(env, cs, s). calls_weight cs)", goal_cases)
  case (2 env c cs s x ds)
  then have "calls_weight ds < call_weight c" using make_call_weight [of env c s] by (metis snd_conv)
  then show ?case by simp
qed simp

definition walk_start :: walk_state where
  "walk_start = \<lparr>violations = [], configuration = None, limit_reported = False\<rparr>"

definition validate_struct :: "validation_env \<Rightarrow> rv \<Rightarrow> problem option" where
  "validate_struct env v =
     (if is_nil_value v
      then Some (err_validation [\<lparr>v_field = ''request'', v_rule = ''required'', v_message = ''must not be nil''\<rparr>])
      else (case deref v of
          RStruct t fs \<Rightarrow>
            (let s = run_calls env [Validate_Struct (deref v) [] 0] walk_start
             in if configuration s \<noteq> None then Some (err_internal ''Invalid validation configuration'')
                else if violations s \<noteq> [] then Some (err_validation (violations s)) else None)
        | RTime t \<Rightarrow> None
        | _ \<Rightarrow> None))"

section \<open>At most 64 violations are reported\<close>

definition walk_bounded :: "walk_state \<Rightarrow> bool" where
  "walk_bounded s \<longleftrightarrow> length (violations s) \<le> max_validation_errors"

lemma walk_bounded_simps:
  "walk_bounded s \<Longrightarrow> walk_bounded (add_violation path v r s)"
  "walk_bounded s \<Longrightarrow> walk_bounded (add_limit_violation path rule msg s)"
  "walk_bounded s \<Longrightarrow> walk_bounded (set_configuration e s)"
  "walk_bounded s \<Longrightarrow> walk_bounded (snd (bounded_length path n s))"
  by (auto simp: walk_bounded_def add_violation_def add_limit_violation_def set_configuration_def bounded_length_def)

lemma apply_rules_bounded: "walk_bounded s \<Longrightarrow> walk_bounded (fst (apply_rules env v owner path rs s))"
  by (induction rs arbitrary: s) (auto simp: walk_bounded_simps split: sum.split)

lemma item_calls_fst: "fst (item_calls f path xs s) = snd (bounded_length path (length xs) s)"
  by (simp add: item_calls_def split: prod.split)

lemma entry_calls_fst: "fst (entry_calls env f path es s) = snd (bounded_length path (length es) s)"
  by (simp add: entry_calls_def split: prod.split)

lemma field_calls_fst:
  "fst (field_calls env v owner path rules depth s) =
     (if walk_done s then s
      else fst (apply_rules env v owner path (case rule_index rules ''dive'' of None \<Rightarrow> rules | Some i \<Rightarrow> take i rules) s))"
  by (auto simp: field_calls_def split: option.split prod.split bool.split)

lemma make_call_bounded: "walk_bounded s \<Longrightarrow> walk_bounded (fst (make_call env c s))"
  by (cases c)
     (auto simp: struct_calls_def field_calls_fst dive_calls_def nested_calls_def item_calls_fst entry_calls_fst
        walk_bounded_simps apply_rules_bounded split: rv.split sum.split option.split)

lemma run_calls_bounded: "walk_bounded s \<Longrightarrow> walk_bounded (run_calls env cs s)"
proof (induction env cs s rule: run_calls.induct)
  case (2 env c cs s)
  then show ?case using make_call_bounded [of s env c] by (cases "make_call env c s") simp
qed simp

text \<open>Whatever the value, a validation reports at most 64 violations, and its answer is a client error with
  these violations or, for a misconfigured tag, a server error without any.\<close>
theorem validation_reports_are_bounded:
  assumes "validate_struct env v = Some p"
  shows "length (p_errors p) \<le> max_validation_errors
    \<and> (p_status p = 400 \<and> p_errors p \<noteq> [] \<or> p_status p = 500 \<and> p_errors p = [])"
proof -
  have "walk_bounded (run_calls env [Validate_Struct (deref v) [] 0] walk_start)"
    by (rule run_calls_bounded) (simp add: walk_bounded_def walk_start_def)
  then show ?thesis
    using assms
    by (auto simp: validate_struct_def walk_bounded_def err_validation_def err_internal_def err_problem_def Let_def
        max_validation_errors_def split: if_splits rv.splits)
qed

section \<open>Exactly the conforming values are accepted\<close>











lemma option_list_length [simp]:
  "length (case m of None \<Rightarrow> [] | Some es \<Rightarrow> es) = (case m of None \<Rightarrow> 0 | Some es \<Rightarrow> length es)"
  by (cases m) simp_all






definition sample_env :: validation_env where
  "sample_env = \<lparr>print_value = (\<lambda>v. []), parse_float = (\<lambda>s. None), is_letter = (\<lambda>r. True), is_digit_rune = (\<lambda>r. False),
     lower_text = id, upper_text = id, number_pattern = (\<lambda>s. False), other_format = (\<lambda>n p s. True)\<rparr>"


lemma sample_rules: "parse_validation_rules ''required'' = Inr [\<lparr>rule_name = ''required'', rule_param = []\<rparr>]"
  by (simp add: parse_validation_rules_def supported_rules_def trim_space_def is_space_def cut_at_def index_byte_def)



definition misfit :: rv where
  "misfit = RStruct ''T'' [(\<lparr>fm_name = ''A'', fm_json = ''a'', fm_tag = ''required'', fm_exported = True\<rparr>, RString [])]"

theorem validation_reports_are_bounded_witness:
  "length (p_errors (the (validate_struct sample_env misfit))) \<le> max_validation_errors"
proof -
  have "validate_struct sample_env misfit \<noteq> None"
    by (simp add: validate_struct_def misfit_def Let_def struct_calls_def walk_done_def walk_start_def max_validation_depth_def
        sample_rules max_validation_errors_def json_field_name_def cut_at_def index_byte_def join_path_def field_calls_def
        rule_index_def apply_validation_rule_def nested_calls_def add_violation_def)
  then obtain p where "validate_struct sample_env misfit = Some p" by blast
  with validation_reports_are_bounded [OF this] show ?thesis by simp
qed

end
