(* ===== verification/Search_Sql.thy ===== *)
theory Search_Sql
  imports Search_Memory Context_Values
begin

text \<open>
  \<^verbatim>\<open>search/database.go\<close>: the queries the PostgreSQL backend compiles for a normalised request. A statement
  is a list of pieces, the texts of the program, the configured table name and the numbered placeholders;
  \<open>statement\<close> prints it as the code's format strings do. Running the statements is the database's, a
  parameter of \<open>database_search\<close>; so is the JSON encoder.
\<close>

section \<open>Statements\<close>

datatype sql_arg = Arg_Text string | Arg_Int int | Arg_Value attr_value

datatype piece = Lit string | Ident string | Bound nat

type_synonym sql_args = "sql_arg list"

record sql_query =
  q_pieces :: "piece list"
  q_args :: sql_args

fun print_piece :: "piece \<Rightarrow> string" where
  "print_piece (Lit t) = t"
| "print_piece (Ident t) = t"
| "print_piece (Bound n) = ''$'' @ decimal n"

definition statement :: "sql_query \<Rightarrow> string" where
  "statement q = concat (map print_piece (q_pieces q))"

text \<open>The regular expression \<^verbatim>\<open>^[A-Za-z_][A-Za-z0-9_]{0,47}$\<close>.\<close>

definition sql_identifier :: "string \<Rightarrow> bool" where
  "sql_identifier s \<longleftrightarrow>
     (case s of [] \<Rightarrow> False
      | c # cs \<Rightarrow> (letter c \<or> c = CHR ''_'') \<and> list_all (\<lambda>d. letter d \<or> byte_in d 48 57 \<or> d = CHR ''_'') cs \<and> length cs \<le> 47)"

definition new_database_backend :: "string \<Rightarrow> string option" where
  "new_database_backend table =
     (let table = (if table = [] then ''gpp_search_documents'' else table)
      in if sql_identifier table then Some table else None)"

text \<open>\<^verbatim>\<open>sqlBuilder.bind\<close>.\<close>

definition bind :: "sql_arg \<Rightarrow> sql_args \<Rightarrow> piece \<times> sql_args" where
  "bind v args = (Bound (length args + 1), args @ [v])"

fun join_pieces :: "string \<Rightarrow> piece list list \<Rightarrow> piece list" where
  "join_pieces sep [] = []"
| "join_pieces sep [p] = p"
| "join_pieces sep (p # ps) = p @ Lit sep # join_pieces sep ps"

section \<open>Conditions\<close>

definition zero_attribute :: attribute_def where
  "zero_attribute = \<lparr>attr_key = [], attr_type = Ty_Other [], multi_value = False, filterable = False,
     facetable = False, searchable = False, sortable = False, enum_values = []\<rparr>"

definition attribute_of :: "schema \<Rightarrow> string \<Rightarrow> attribute_def" where
  "attribute_of s key = (case map_of (schema_attrs s) key of None \<Rightarrow> zero_attribute | Some d \<Rightarrow> d)"

definition sql_equality ::
  "(string \<Rightarrow> attr_value \<Rightarrow> string) \<Rightarrow> attribute_def \<Rightarrow> string \<Rightarrow> attr_value \<Rightarrow> sql_args \<Rightarrow> piece list \<times> sql_args" where
  "sql_equality json d field v args =
     (case bind (Arg_Text (json field (if multi_value d then V_List [v] else v))) args of
        (p, args) \<Rightarrow> ([Lit ''d.document @> '', p, Lit ''::jsonb''], args))"

fun sql_equalities ::
  "(string \<Rightarrow> attr_value \<Rightarrow> string) \<Rightarrow> attribute_def \<Rightarrow> string \<Rightarrow> attr_value list \<Rightarrow> sql_args \<Rightarrow> piece list list \<times> sql_args" where
  "sql_equalities json d field [] args = ([], args)"
| "sql_equalities json d field (v # vs) args =
     (case sql_equality json d field v args of
        (p, args) \<Rightarrow> (case sql_equalities json d field vs args of (ps, args) \<Rightarrow> (p # ps, args)))"

definition typed_column :: "attribute_type \<Rightarrow> piece \<Rightarrow> piece list" where
  "typed_column ty key =
     (if ty = Ty_Date then [Lit ''(d.document ->> '', key, Lit '')::timestamptz'']
      else if ty = Ty_Integer \<or> ty = Ty_Decimal
        then [Lit ''CASE WHEN jsonb_typeof(d.document -> '', key, Lit '') = 'number' THEN (d.document ->> '', key, Lit '')::numeric END'']
      else [Lit ''d.document ->> '', key])"

definition range_operator :: "operator \<Rightarrow> string" where
  "range_operator x =
     (case x of Op_Gt \<Rightarrow> '' > '' | Op_Gte \<Rightarrow> '' >= '' | Op_Lt \<Rightarrow> '' < '' | Op_Lte \<Rightarrow> '' <= '' | _ \<Rightarrow> ''  '')"

text \<open>\<^verbatim>\<open>bounds[0]\<close> and \<^verbatim>\<open>bounds[1]\<close> exist in a normalised request; the code panics without them.\<close>

definition range_filter :: "attribute_def \<Rightarrow> piece \<Rightarrow> search_filter \<Rightarrow> sql_args \<Rightarrow> (piece list \<times> sql_args) option" where
  "range_filter d key f args =
     (if f_operator f = Op_Between
      then (case slice_values (f_value f) of
          Some (lo # hi # _) \<Rightarrow>
            (case bind (Arg_Value lo) args of (p, args) \<Rightarrow>
             case bind (Arg_Value hi) args of (q, args) \<Rightarrow>
               Some (typed_column (attr_type d) key @ [Lit '' BETWEEN '', p, Lit '' AND '', q], args))
        | _ \<Rightarrow> None)
      else (case bind (Arg_Value (f_value f)) args of
          (p, args) \<Rightarrow> Some (typed_column (attr_type d) key @ [Lit (range_operator (f_operator f)), p], args)))"

definition like_suffix :: string where
  "like_suffix = '') || '%'' @ [CHR 0x27]"

definition sql_filter ::
  "(string \<Rightarrow> attr_value \<Rightarrow> string) \<Rightarrow> (attr_value \<Rightarrow> string) \<Rightarrow> attribute_def \<Rightarrow> search_filter \<Rightarrow> sql_args \<Rightarrow>
     (piece list \<times> sql_args) option" where
  "sql_filter json sprint d f args =
     (let values = (case slice_values (f_value f) of None \<Rightarrow> [] | Some vs \<Rightarrow> vs)
      in case f_operator f of
        Op_Exists \<Rightarrow>
          (case bind (Arg_Text (f_field f)) args of
             (key, args) \<Rightarrow>
               Some (if f_value f = V_Bool False then [Lit ''NOT (d.document ? '', key, Lit '')''] else [Lit ''d.document ? '', key], args))
      | Op_Eq \<Rightarrow> Some (sql_equality json d (f_field f) (f_value f) args)
      | Op_Neq \<Rightarrow>
          (case sql_equality json d (f_field f) (f_value f) args of (p, args) \<Rightarrow> Some (Lit ''NOT ('' # p @ [Lit '')''], args))
      | Op_In \<Rightarrow>
          (case sql_equalities json d (f_field f) values args of
             (ps, args) \<Rightarrow> Some (Lit ''('' # join_pieces '' OR '' ps @ [Lit '')''], args))
      | Op_Not_In \<Rightarrow>
          (case sql_equalities json d (f_field f) values args of
             (ps, args) \<Rightarrow> Some (Lit ''NOT ('' # join_pieces '' OR '' ps @ [Lit '')''], args))
      | Op_Contains \<Rightarrow>
          (case bind (Arg_Text (f_field f)) args of (key, args) \<Rightarrow>
           case bind (Arg_Text (sprint (f_value f))) args of (v, args) \<Rightarrow>
             Some ([Lit ''LOWER(d.document ->> '', key, Lit '') LIKE '%' || LOWER('', v, Lit like_suffix], args))
      | _ \<Rightarrow> (case bind (Arg_Text (f_field f)) args of (key, args) \<Rightarrow> range_filter d key f args))"

fun sql_filters ::
  "(string \<Rightarrow> attr_value \<Rightarrow> string) \<Rightarrow> (attr_value \<Rightarrow> string) \<Rightarrow> schema \<Rightarrow> search_filter list \<Rightarrow> sql_args \<Rightarrow>
     (piece list list \<times> sql_args) option" where
  "sql_filters json sprint s [] args = Some ([], args)"
| "sql_filters json sprint s (f # fs) args =
     (case sql_filter json sprint (attribute_of s (f_field f)) f args of
        None \<Rightarrow> None
      | Some (p, args) \<Rightarrow>
          (case sql_filters json sprint s fs args of None \<Rightarrow> None | Some (ps, args) \<Rightarrow> Some (p # ps, args)))"

definition text_match :: "piece \<Rightarrow> piece list" where
  "text_match p = [Lit ''to_tsvector('simple', d.search_text) @@ websearch_to_tsquery('simple', '', p, Lit '')'']"

definition sql_where ::
  "(string \<Rightarrow> attr_value \<Rightarrow> string) \<Rightarrow> (attr_value \<Rightarrow> string) \<Rightarrow> schema \<Rightarrow> string \<Rightarrow> search_filter list \<Rightarrow> sql_args \<Rightarrow>
     (piece list \<times> sql_args) option" where
  "sql_where json sprint s query fs args =
     (let (qs, args) = (if query = [] then ([], args)
                        else (case bind (Arg_Text query) args of (p, args) \<Rightarrow> ([text_match p], args)))
      in case sql_filters json sprint s fs args of
           None \<Rightarrow> None
         | Some (ps, args) \<Rightarrow> Some (join_pieces '' AND '' ([Lit ''d.resource = '', Bound 1] # qs @ ps), args))"

fun sort_clauses :: "schema \<Rightarrow> sort_spec list \<Rightarrow> sql_args \<Rightarrow> piece list list \<times> sql_args" where
  "sort_clauses s [] args = ([], args)"
| "sort_clauses s (x # xs) args =
     (case bind (Arg_Text (sort_field x)) args of (key, args) \<Rightarrow>
      case sort_clauses s xs args of (ps, args) \<Rightarrow>
        ((typed_column (attr_type (attribute_of s (sort_field x))) key
          @ [Lit (if sort_direction x = Descending then '' DESC'' else '' ASC''), Lit '' NULLS LAST'']) # ps, args))"

definition order_by :: "schema \<Rightarrow> search_request \<Rightarrow> piece list \<Rightarrow> sql_args \<Rightarrow> piece list \<times> sql_args" where
  "order_by s r score args =
     (if sr_sort r = [] then
        (if sr_query r = [] then ([Lit ''d.id ASC''], args) else (score @ [Lit '' DESC, d.id ASC''], args))
      else (case sort_clauses s (sr_sort r) args of
          (ps, args) \<Rightarrow> (join_pieces '', '' (ps @ [[Lit ''d.id ASC'']]), args)))"

section \<open>Queries\<close>

definition compile_count where
  "compile_count json sprint table resource s r =
     (case sql_where json sprint s (sr_query r) (sr_filters r) [Arg_Text resource] of
        None \<Rightarrow> None
      | Some (cond, args) \<Rightarrow>
          Some \<lparr>q_pieces = [Lit ''SELECT COUNT(*) FROM '', Ident table, Lit '' d WHERE ''] @ cond, q_args = args\<rparr>)"

definition rank_score :: "piece \<Rightarrow> piece list" where
  "rank_score p =
     [Lit ''ts_rank_cd(to_tsvector('simple', d.search_text), websearch_to_tsquery('simple', '', p, Lit ''))'']"

definition compile_hits where
  "compile_hits json sprint table resource s r =
     (case sql_where json sprint s (sr_query r) (sr_filters r) [Arg_Text resource] of
        None \<Rightarrow> None
      | Some (cond, args) \<Rightarrow>
         (let (score, args) = (if sr_query r = [] then ([Lit ''0::double precision''], args)
                               else (case bind (Arg_Text (sr_query r)) args of (p, args) \<Rightarrow> (rank_score p, args)));
              (order, args) = order_by s r score args
          in case decode_cursor (sr_cursor r) of
               Inl e \<Rightarrow> Some (Inl e)
             | Inr offset \<Rightarrow>
                 (case bind (Arg_Int (sr_limit r)) args of (l, args) \<Rightarrow>
                  case bind (Arg_Int offset) args of (o', args) \<Rightarrow>
                    Some (Inr \<lparr>q_pieces = [Lit ''SELECT d.id, d.document, ''] @ score @ [Lit '' FROM '', Ident table, Lit '' d WHERE '']
                        @ cond @ [Lit '' ORDER BY ''] @ order @ [Lit '' LIMIT '', l, Lit '' OFFSET '', o'], q_args = args\<rparr>))))"

text \<open>A line break followed by \<open>n\<close> tabs.\<close>

definition nl :: "nat \<Rightarrow> string" where
  "nl n = CHR 0x0A # replicate n CHR 0x09"

definition compile_facet where
  "compile_facet json sprint table resource s r f =
     (let filters = (if facet_mode f = Disjunctive then filters_without_field (sr_filters r) (facet_field f) else sr_filters r)
      in case sql_where json sprint s (sr_query r) filters [Arg_Text resource] of
           None \<Rightarrow> None
         | Some (cond, args) \<Rightarrow>
             (case bind (Arg_Text (facet_field f)) args of (k, args) \<Rightarrow>
              case bind (Arg_Int (facet_limit f)) args of (l, args) \<Rightarrow>
                Some \<lparr>q_pieces =
                  [Lit ''SELECT facet.value, COUNT(DISTINCT d.id)'', Lit (nl 2), Lit ''FROM '', Ident table, Lit '' d'', Lit (nl 2),
                   Lit ''LEFT JOIN LATERAL jsonb_array_elements_text('', Lit (nl 3), Lit ''CASE'', Lit (nl 4),
                   Lit ''WHEN NOT (d.document ? '', k, Lit '') OR d.document -> '', k, Lit '' = 'null'::jsonb THEN '[]'::jsonb'', Lit (nl 4),
                   Lit ''WHEN jsonb_typeof(d.document -> '', k, Lit '') = 'array' THEN d.document -> '', k, Lit (nl 4),
                   Lit ''ELSE jsonb_build_array(d.document -> '', k, Lit '')'', Lit (nl 3), Lit ''END'', Lit (nl 2),
                   Lit '') facet(value) ON TRUE'', Lit (nl 2), Lit ''WHERE '']
                  @ cond @ [Lit '' AND '', Lit (if include_missing f then ''TRUE'' else ''facet.value IS NOT NULL''), Lit (nl 2),
                   Lit ''GROUP BY facet.value'', Lit (nl 2), Lit ''ORDER BY '',
                   Lit (if facet_sort f = By_Value then ''facet.value ASC'' else ''COUNT(DISTINCT d.id) DESC, facet.value ASC''),
                   Lit (nl 2), Lit ''LIMIT '', l], q_args = args\<rparr>))"

fun compile_facets where
  "compile_facets json sprint table resource s r acc [] = Some acc"
| "compile_facets json sprint table resource s r acc (f # fs) =
     (case compile_facet json sprint table resource s r f of
        None \<Rightarrow> None
      | Some q \<Rightarrow> compile_facets json sprint table resource s r (AList.update (facet_field f) q acc) fs)"

record query_plan =
  plan_count :: sql_query
  plan_hits :: sql_query
  plan_facets :: "(string \<times> sql_query) list"

text \<open>\<^verbatim>\<open>Compile\<close>; \<open>None\<close> is the panic of an unnormalised range.\<close>

definition compile_plan :: "go_runtime \<Rightarrow> (string \<Rightarrow> attr_value \<Rightarrow> string) \<Rightarrow> string \<Rightarrow> string \<Rightarrow> schema \<Rightarrow> search_request \<Rightarrow>
    (search_error + query_plan) option" where
  "compile_plan rt json table resource s r =
     (case normalize_request rt s r of
        Inl e \<Rightarrow> Some (Inl e)
      | Inr r \<Rightarrow>
          (case compile_count json (rt_sprint rt) table resource s r of
             None \<Rightarrow> None
           | Some counting \<Rightarrow>
               (case compile_hits json (rt_sprint rt) table resource s r of
                  None \<Rightarrow> None
                | Some (Inl e) \<Rightarrow> Some (Inl e)
                | Some (Inr hits) \<Rightarrow>
                    map_option (\<lambda>fs. Inr \<lparr>plan_count = counting, plan_hits = hits, plan_facets = fs\<rparr>)
                      (compile_facets json (rt_sprint rt) table resource s r [] (sr_facets r)))))"

section \<open>Running a request\<close>

text \<open>\<^verbatim>\<open>Index\<close> and \<^verbatim>\<open>Delete\<close>; the attributes are encoded by \<open>json_doc\<close>, and the searchable attributes are
  visited in the order of the schema here (the order of a Go map).\<close>

definition searchable_text :: "(attr_value \<Rightarrow> string) \<Rightarrow> schema \<Rightarrow> document \<Rightarrow> string" where
  "searchable_text sprint s d =
     join_with '' '' (concat (map (\<lambda>(key, a). if searchable a
         then map sprint (attribute_values (case map_of (doc_attrs d) key of None \<Rightarrow> V_Null | Some v \<Rightarrow> v)) else []) (schema_attrs s)))"

definition index_query :: "((string \<times> attr_value) list \<Rightarrow> string option) \<Rightarrow> (attr_value \<Rightarrow> string) \<Rightarrow> string \<Rightarrow> string \<Rightarrow> schema \<Rightarrow>
    document \<Rightarrow> sql_query option" where
  "index_query json_doc sprint table resource s d =
     map_option (\<lambda>payload.
       \<lparr>q_pieces = [Lit ''INSERT INTO '', Ident table, Lit '' (resource, id, document, search_text, updated_at)'', Lit (nl 2),
            Lit ''VALUES ('', Bound 1, Lit '', '', Bound 2, Lit '', '', Bound 3, Lit ''::jsonb, '', Bound 4, Lit '', CURRENT_TIMESTAMP)'',
            Lit (nl 2), Lit ''ON CONFLICT (resource, id) DO UPDATE SET'', Lit (nl 3), Lit ''document = EXCLUDED.document,'', Lit (nl 3),
            Lit ''search_text = EXCLUDED.search_text,'', Lit (nl 3), Lit ''updated_at = CURRENT_TIMESTAMP''],
        q_args = [Arg_Text resource, Arg_Text (doc_id d), Arg_Text payload, Arg_Text (searchable_text sprint s d)]\<rparr>)
       (json_doc (doc_attrs d))"

definition delete_query :: "string \<Rightarrow> string \<Rightarrow> string \<Rightarrow> sql_query" where
  "delete_query table resource key =
     \<lparr>q_pieces = [Lit ''DELETE FROM '', Ident table, Lit '' WHERE resource = '', Bound 1, Lit '' AND id = '', Bound 2],
      q_args = [Arg_Text resource, Arg_Text key]\<rparr>"

text \<open>\<^verbatim>\<open>parseFacetValue\<close>; \<open>parse_decimal\<close> is \<^verbatim>\<open>strconv.ParseFloat\<close>.\<close>

definition parse_facet_value :: "(string \<Rightarrow> rat option) \<Rightarrow> attribute_type \<Rightarrow> string \<Rightarrow> attr_value" where
  "parse_facet_value parse_decimal ty v =
     (case ty of
        Ty_Integer \<Rightarrow> (case parse_int 64 v of Some i \<Rightarrow> V_Int i | None \<Rightarrow> V_Text v)
      | Ty_Decimal \<Rightarrow> (case parse_decimal v of Some q \<Rightarrow> V_Float q | None \<Rightarrow> V_Text v)
      | Ty_Boolean \<Rightarrow> (case parse_bool v of Some b \<Rightarrow> V_Bool b | None \<Rightarrow> V_Text v)
      | _ \<Rightarrow> V_Text v)"

text \<open>The database answers a query with its rows: the count, the hits with their scores, the facet buckets.\<close>

record 'e sql_database =
  run_count :: "sql_query \<Rightarrow> 'e + int"
  run_hits :: "sql_query \<Rightarrow> 'e + (document \<times> nat) list"
  run_facet :: "sql_query \<Rightarrow> 'e + (string option \<times> int) list"

datatype 'e database_error = Bad_Request search_error | Database_Error 'e

fun database_facets :: "(string \<Rightarrow> rat option) \<Rightarrow> 'e sql_database \<Rightarrow> schema \<Rightarrow> (string \<times> sql_query) list \<Rightarrow> facet_request list \<Rightarrow>
    'e + (string \<times> bucket_entry list) list" where
  "database_facets pf db s plan [] = Inr []"
| "database_facets pf db s plan (f # fs) =
     (case map_of plan (facet_field f) of
        None \<Rightarrow> Inr []
      | Some q \<Rightarrow>
          (case run_facet db q of
             Inl e \<Rightarrow> Inl e
           | Inr rows \<Rightarrow>
               (case database_facets pf db s plan fs of
                  Inl e \<Rightarrow> Inl e
                | Inr rest \<Rightarrow>
                    Inr ((facet_field f,
                      map (\<lambda>(raw, n). \<lparr>bk_value = (case raw of None \<Rightarrow> V_Null
                             | Some v \<Rightarrow> parse_facet_value pf (attr_type (attribute_of s (facet_field f))) v), bk_count = n\<rparr>) rows) # rest))))"

definition database_search ::
  "go_runtime \<Rightarrow> (string \<Rightarrow> attr_value \<Rightarrow> string) \<Rightarrow> (string \<Rightarrow> rat option) \<Rightarrow> 'e sql_database \<Rightarrow> string \<Rightarrow> string \<Rightarrow> schema \<Rightarrow> search_request \<Rightarrow>
     ('e database_error + search_result) option" where
  "database_search rt json pf db table resource s request =
     (case normalize_request rt s request of
        Inl e \<Rightarrow> Some (Inl (Bad_Request e))
      | Inr r \<Rightarrow>
          (case compile_plan rt json table resource s r of
             None \<Rightarrow> None
           | Some (Inl e) \<Rightarrow> Some (Inl (Bad_Request e))
           | Some (Inr plan) \<Rightarrow>
               Some (case run_count db (plan_count plan) of
                  Inl e \<Rightarrow> Inl (Database_Error e)
                | Inr found \<Rightarrow>
                    (case run_hits db (plan_hits plan) of
                       Inl e \<Rightarrow> Inl (Database_Error e)
                     | Inr items \<Rightarrow>
                         (case database_facets pf db s (plan_facets plan) (sr_facets r) of
                            Inl e \<Rightarrow> Inl (Database_Error e)
                          | Inr facets \<Rightarrow>
                              (let offset = (case decode_cursor (sr_cursor r) of Inr n \<Rightarrow> n | Inl _ \<Rightarrow> 0);
                                   reached = offset + int (length items)
                               in Inr \<lparr>res_items = items, res_total = found, res_facets = facets,
                                    res_next_cursor = (if reached < found then encode_cursor reached else [])\<rparr>))))))"

section \<open>Texts and placeholders\<close>

text \<open>\<open>emits table args ps args'\<close>: the pieces hold no text but the program's and the table name, the arguments
  of \<open>args\<close> are kept, and the placeholders are those of the arguments that were added.\<close>

definition sql_texts :: "string list" where
  "sql_texts =
     [''d.document @> '', ''::jsonb'', ''(d.document ->> '', '')::timestamptz'', ''CASE WHEN jsonb_typeof(d.document -> '',
      '') = 'number' THEN (d.document ->> '', '')::numeric END'', ''d.document ->> '', '' > '', '' >= '', '' < '', '' <= '', ''  '',
      '' BETWEEN '', '' AND '', ''NOT (d.document ? '', '')'', ''d.document ? '', ''NOT ('', ''('', '' OR '',
      ''LOWER(d.document ->> '', '') LIKE '%' || LOWER('', like_suffix,
      ''to_tsvector('simple', d.search_text) @@ websearch_to_tsquery('simple', '', ''d.resource = '',
      '' DESC'', '' ASC'', '' NULLS LAST'', ''d.id ASC'', '' DESC, d.id ASC'', '', '', ''SELECT COUNT(*) FROM '', '' d WHERE '',
      ''ts_rank_cd(to_tsvector('simple', d.search_text), websearch_to_tsquery('simple', '', ''))'', ''0::double precision'',
      ''SELECT d.id, d.document, '', '' FROM '', '' ORDER BY '', '' LIMIT '', '' OFFSET '',
      ''SELECT facet.value, COUNT(DISTINCT d.id)'', nl 2, nl 3, nl 4, ''FROM '', '' d'', ''LEFT JOIN LATERAL jsonb_array_elements_text('',
      ''CASE'', ''WHEN NOT (d.document ? '', '') OR d.document -> '', '' = 'null'::jsonb THEN '[]'::jsonb'',
      ''WHEN jsonb_typeof(d.document -> '', '') = 'array' THEN d.document -> '', ''ELSE jsonb_build_array(d.document -> '', ''END'',
      '') facet(value) ON TRUE'', ''WHERE '', ''TRUE'', ''facet.value IS NOT NULL'', ''GROUP BY facet.value'', ''ORDER BY '',
      ''facet.value ASC'', ''COUNT(DISTINCT d.id) DESC, facet.value ASC'', ''LIMIT '']"

lemma sql_text_members [simp]:
  "''d.document @> '' \<in> set sql_texts"
  "''::jsonb'' \<in> set sql_texts"
  "''(d.document ->> '' \<in> set sql_texts"
  "'')::timestamptz'' \<in> set sql_texts"
  "''CASE WHEN jsonb_typeof(d.document -> '' \<in> set sql_texts"
  "'') = 'number' THEN (d.document ->> '' \<in> set sql_texts"
  "'')::numeric END'' \<in> set sql_texts"
  "''d.document ->> '' \<in> set sql_texts"
  "'' > '' \<in> set sql_texts"
  "'' >= '' \<in> set sql_texts"
  "'' < '' \<in> set sql_texts"
  "'' <= '' \<in> set sql_texts"
  "''  '' \<in> set sql_texts"
  "'' BETWEEN '' \<in> set sql_texts"
  "'' AND '' \<in> set sql_texts"
  "''NOT (d.document ? '' \<in> set sql_texts"
  "'')'' \<in> set sql_texts"
  "''d.document ? '' \<in> set sql_texts"
  "''NOT ('' \<in> set sql_texts"
  "''('' \<in> set sql_texts"
  "'' OR '' \<in> set sql_texts"
  "''LOWER(d.document ->> '' \<in> set sql_texts"
  "'') LIKE '%' || LOWER('' \<in> set sql_texts"
  "like_suffix \<in> set sql_texts"
  "''to_tsvector('simple', d.search_text) @@ websearch_to_tsquery('simple', '' \<in> set sql_texts"
  "''d.resource = '' \<in> set sql_texts"
  "'' DESC'' \<in> set sql_texts"
  "'' ASC'' \<in> set sql_texts"
  "'' NULLS LAST'' \<in> set sql_texts"
  "''d.id ASC'' \<in> set sql_texts"
  "'' DESC, d.id ASC'' \<in> set sql_texts"
  "'', '' \<in> set sql_texts"
  "''SELECT COUNT(*) FROM '' \<in> set sql_texts"
  "'' d WHERE '' \<in> set sql_texts"
  "''ts_rank_cd(to_tsvector('simple', d.search_text), websearch_to_tsquery('simple', '' \<in> set sql_texts"
  "''))'' \<in> set sql_texts"
  "''0::double precision'' \<in> set sql_texts"
  "''SELECT d.id, d.document, '' \<in> set sql_texts"
  "'' FROM '' \<in> set sql_texts"
  "'' ORDER BY '' \<in> set sql_texts"
  "'' LIMIT '' \<in> set sql_texts"
  "'' OFFSET '' \<in> set sql_texts"
  "''SELECT facet.value, COUNT(DISTINCT d.id)'' \<in> set sql_texts"
  "nl 2 \<in> set sql_texts"
  "nl 3 \<in> set sql_texts"
  "nl 4 \<in> set sql_texts"
  "''FROM '' \<in> set sql_texts"
  "'' d'' \<in> set sql_texts"
  "''LEFT JOIN LATERAL jsonb_array_elements_text('' \<in> set sql_texts"
  "''CASE'' \<in> set sql_texts"
  "''WHEN NOT (d.document ? '' \<in> set sql_texts"
  "'') OR d.document -> '' \<in> set sql_texts"
  "'' = 'null'::jsonb THEN '[]'::jsonb'' \<in> set sql_texts"
  "''WHEN jsonb_typeof(d.document -> '' \<in> set sql_texts"
  "'') = 'array' THEN d.document -> '' \<in> set sql_texts"
  "''ELSE jsonb_build_array(d.document -> '' \<in> set sql_texts"
  "''END'' \<in> set sql_texts"
  "'') facet(value) ON TRUE'' \<in> set sql_texts"
  "''WHERE '' \<in> set sql_texts"
  "''TRUE'' \<in> set sql_texts"
  "''facet.value IS NOT NULL'' \<in> set sql_texts"
  "''GROUP BY facet.value'' \<in> set sql_texts"
  "''ORDER BY '' \<in> set sql_texts"
  "''facet.value ASC'' \<in> set sql_texts"
  "''COUNT(DISTINCT d.id) DESC, facet.value ASC'' \<in> set sql_texts"
  "''LIMIT '' \<in> set sql_texts"
  by (simp_all only: sql_texts_def list.set insert_iff simp_thms)

fun piece_ok :: "string \<Rightarrow> piece \<Rightarrow> bool" where
  "piece_ok table (Lit t) = (t \<in> set sql_texts)"
| "piece_ok table (Ident t) = (t = table)"
| "piece_ok table (Bound n) = True"

definition placeholders :: "piece list \<Rightarrow> nat set" where
  "placeholders ps = {n. Bound n \<in> set ps}"

definition emits :: "string \<Rightarrow> sql_args \<Rightarrow> piece list \<Rightarrow> sql_args \<Rightarrow> bool" where
  "emits table args ps args' \<longleftrightarrow>
     (\<forall>p\<in>set ps. piece_ok table p) \<and> (\<exists>new. args' = args @ new) \<and> placeholders ps = {length args <.. length args'}"

named_theorems sql_pieces

lemma placeholders_simps [simp]:
  "placeholders [] = {}" "placeholders (Lit t # ps) = placeholders ps" "placeholders (Ident t # ps) = placeholders ps"
  "placeholders (Bound n # ps) = insert n (placeholders ps)" "placeholders (ps @ qs) = placeholders ps \<union> placeholders qs"
  by (auto simp: placeholders_def)


lemma emits_bind: "bind v args = (p, args') \<Longrightarrow> emits table args [p] args'"
  by (auto simp: emits_def bind_def)




lemma emits_placeholders: "emits table a ps b \<Longrightarrow> placeholders ps = {length a <.. length b}"
  by (simp add: emits_def)

lemma bind_Bound: "bind v args = (p, args') \<Longrightarrow> p = Bound (length args') \<and> length args' = length args + 1"
  by (auto simp: bind_def)







lemma typed_column_placeholders [simp]: "placeholders (typed_column ty (Bound n)) = {n}"
  by (simp add: typed_column_def)


























section \<open>Properties\<close>



section \<open>The table of the backend\<close>

text \<open>The statements of \<^verbatim>\<open>Setup\<close>; they carry the table name only.\<close>

definition setup_statements :: "string \<Rightarrow> string list" where
  "setup_statements table =
     [''CREATE TABLE IF NOT EXISTS '' @ table @ '' ('' @ nl 3 @ ''resource TEXT NOT NULL,'' @ nl 3 @ ''id TEXT NOT NULL,'' @ nl 3
        @ ''document JSONB NOT NULL,'' @ nl 3 @ ''search_text TEXT NOT NULL DEFAULT '' @ [CHR 0x27, CHR 0x27] @ '','' @ nl 3
        @ ''updated_at TIMESTAMPTZ NOT NULL DEFAULT CURRENT_TIMESTAMP,'' @ nl 3 @ ''PRIMARY KEY (resource, id)'' @ nl 2 @ '')'',
      ''CREATE INDEX IF NOT EXISTS '' @ table @ ''_document_gin ON '' @ table @ '' USING GIN (document)'',
      ''CREATE INDEX IF NOT EXISTS '' @ table @ ''_search_gin ON '' @ table @ '' USING GIN (to_tsvector('simple', search_text))'']"

end
