(* ===== verification/Migrations.thy ===== *)
theory Migrations
  imports Go_Strconv Go_Maps "HOL-Library.Multiset"
begin

text \<open>
  \<^verbatim>\<open>dbcore/migrate.go\<close>: preparing a list of migrations and applying it in one transaction. The database is
  the history table \<^verbatim>\<open>gpp_migrations\<close> and the rest of the schema, of any type; running the text of a
  migration is the parameter \<open>exec\<close>, the checksum the parameter \<open>hash\<close>. The locks the code takes make a run
  of \<^verbatim>\<open>AutoMigrate\<close> one step of the database. Names are folded on ASCII.
\<close>

section \<open>Preparing\<close>

record migration =
  mig_id :: string
  mig_version :: int
  mig_name :: string
  mig_sql :: string
  mig_up :: string

record prepared =
  pr_id :: string
  pr_version :: int
  pr_name :: string
  pr_sql :: string
  pr_checksum :: string

datatype 'e migrate_error =
    Invalid_Version nat int | Duplicate_Id string | Duplicate_Version int | Empty_Migration string
  | Lock_Failed 'e | Checksum_Changed string | Apply_Failed string 'e | Record_Failed string | Commit_Failed 'e
  | No_Migrations | Invalid_Filename string | Read_Failed string

text \<open>\<^verbatim>\<open>strings.Fields\<close>.\<close>

function fields :: "string \<Rightarrow> string list" where
  "fields s =
     (case dropWhile is_space s of
        [] \<Rightarrow> []
      | c # cs \<Rightarrow> (c # takeWhile (\<lambda>d. \<not> is_space d) cs) # fields (dropWhile (\<lambda>d. \<not> is_space d) cs))"
  by auto

termination
proof (relation "measure length", goal_cases)
  case (2 s c cs)
  have "length (dropWhile (\<lambda>d. \<not> is_space d) cs) \<le> length cs" by (rule length_dropWhile_le)
  also have "length cs < length (dropWhile is_space s)" using 2 by simp
  also have "\<dots> \<le> length s" by (rule length_dropWhile_le)
  finally show ?case by simp
qed simp

declare fields.simps [simp del]

definition sanitize_name :: "string \<Rightarrow> string" where
  "sanitize_name v =
     (let v = trim_space (to_lower v) in if v = [] then ''migration'' else join_with ''_'' (fields v))"

text \<open>The verb \<^verbatim>\<open>%04d\<close>.\<close>

definition four_digits :: "int \<Rightarrow> string" where
  "four_digits n = replicate (4 - length (itoa n)) CHR ''0'' @ itoa n"

text \<open>One turn of the loop of \<^verbatim>\<open>prepareMigrations\<close>, after \<open>ids\<close> and \<open>versions\<close>.\<close>

definition prepare_one :: "(string \<Rightarrow> string) \<Rightarrow> string set \<Rightarrow> int set \<Rightarrow> nat \<Rightarrow> migration \<Rightarrow> 'e migrate_error + prepared" where
  "prepare_one hash ids versions index m =
     (let version = (if mig_version m = 0 then int index + 1 else mig_version m) in
      if version < 1 then Inl (Invalid_Version index version)
      else let key = trim_space (if trim_space (mig_id m) = [] then four_digits version @ ''_'' @ sanitize_name (mig_name m) else mig_id m) in
        if key \<in> ids then Inl (Duplicate_Id key)
        else if version \<in> versions then Inl (Duplicate_Version version)
        else let sql = (if trim_space (mig_sql m) = [] then mig_up m else mig_sql m) in
          if trim_space sql = [] then Inl (Empty_Migration key)
          else Inr \<lparr>pr_id = key, pr_version = version, pr_name = mig_name m, pr_sql = sql, pr_checksum = hash sql\<rparr>)"

fun prepare_loop :: "(string \<Rightarrow> string) \<Rightarrow> prepared list \<Rightarrow> migration list \<Rightarrow> 'e migrate_error + prepared list" where
  "prepare_loop hash ps [] = Inr ps"
| "prepare_loop hash ps (m # ms) =
     (case prepare_one hash (set (map pr_id ps)) (set (map pr_version ps)) (length ps) m of
        Inl e \<Rightarrow> Inl e
      | Inr p \<Rightarrow> prepare_loop hash (ps @ [p]) ms)"

text \<open>The versions are distinct, so sorting by them decides the order; equal versions, which the code would
  order by their ID, do not occur.\<close>

definition prepare_migrations :: "(string \<Rightarrow> string) \<Rightarrow> migration list \<Rightarrow> 'e migrate_error + prepared list" where
  "prepare_migrations hash ms = map_sum id (sort_key pr_version) (prepare_loop hash [] ms)"

section \<open>Applying\<close>

record 's migration_db =
  db_history :: "prepared list"
  db_schema :: 's

text \<open>What the surroundings do to a run: the lock and the commit may fail.\<close>

record 'e run_env =
  lock_error :: "'e option"
  commit_error :: "'e option"

text \<open>The insertion into \<^verbatim>\<open>gpp_migrations\<close>, whose \<^verbatim>\<open>id\<close> is the key and whose \<^verbatim>\<open>version\<close> is unique.\<close>

definition record_migration :: "prepared \<Rightarrow> prepared list \<Rightarrow> prepared list option" where
  "record_migration p h =
     (if pr_id p \<in> set (map pr_id h) \<or> pr_version p \<in> set (map pr_version h) then None else Some (h @ [p]))"

text \<open>The loop over the prepared migrations; \<open>applied\<close> is what \<^verbatim>\<open>loadAppliedMigrations\<close> read before it.\<close>

fun apply_loop :: "(string \<Rightarrow> 's \<Rightarrow> 'e + 's) \<Rightarrow> (string \<times> string) list \<Rightarrow> prepared list \<Rightarrow> 's migration_db \<Rightarrow>
    'e migrate_error + 's migration_db" where
  "apply_loop exec applied [] db = Inr db"
| "apply_loop exec applied (p # ps) db =
     (case map_of applied (pr_id p) of
        Some checksum \<Rightarrow>
          if checksum \<noteq> pr_checksum p then Inl (Checksum_Changed (pr_id p)) else apply_loop exec applied ps db
      | None \<Rightarrow>
          (case exec (pr_sql p) (db_schema db) of
             Inl e \<Rightarrow> Inl (Apply_Failed (pr_id p) e)
           | Inr schema \<Rightarrow>
               (case record_migration p (db_history db) of
                  None \<Rightarrow> Inl (Record_Failed (pr_id p))
                | Some h \<Rightarrow> apply_loop exec applied ps \<lparr>db_history = h, db_schema = schema\<rparr>)))"

definition load_applied :: "prepared list \<Rightarrow> (string \<times> string) list" where
  "load_applied h = map (\<lambda>p. (pr_id p, pr_checksum p)) h"

text \<open>\<^verbatim>\<open>AutoMigrate\<close>: an error rolls the transaction back.\<close>

definition auto_migrate :: "(string \<Rightarrow> string) \<Rightarrow> (string \<Rightarrow> 's \<Rightarrow> 'e + 's) \<Rightarrow> 'e run_env \<Rightarrow> migration list \<Rightarrow> 's migration_db \<Rightarrow>
    'e migrate_error option \<times> 's migration_db" where
  "auto_migrate hash exec env ms db =
     (case prepare_migrations hash ms of
        Inl e \<Rightarrow> (Some e, db)
      | Inr ps \<Rightarrow>
          (case lock_error env of
             Some e \<Rightarrow> (Some (Lock_Failed e), db)
           | None \<Rightarrow>
               (case apply_loop exec (load_applied (db_history db)) ps db of
                  Inl e \<Rightarrow> (Some e, db)
                | Inr db' \<Rightarrow>
                    (case commit_error env of Some e \<Rightarrow> (Some (Commit_Failed e), db) | None \<Rightarrow> (None, db')))))"

section \<open>Embedded files\<close>

text \<open>\<^verbatim>\<open>path.Ext\<close> of a name without slashes.\<close>

definition path_ext :: "string \<Rightarrow> string" where
  "path_ext s = (if CHR ''.'' \<in> set s then CHR ''.'' # rev (takeWhile (\<lambda>c. c \<noteq> CHR ''.'') (rev s)) else [])"

definition parse_migration_filename :: "string \<Rightarrow> nat \<Rightarrow> 'e migrate_error + int \<times> string" where
  "parse_migration_filename filename index =
     (let name = trim_suffix filename (path_ext filename)
      in case index_byte name CHR ''_'' of
           None \<Rightarrow> Inr (int index + 1, name)
         | Some i \<Rightarrow>
             (case atoi (take i name) of
                None \<Rightarrow> Inl (Invalid_Filename filename)
              | Some v \<Rightarrow> if v < 1 \<or> trim_space (drop (i + 1) name) = [] then Inl (Invalid_Filename filename)
                          else Inr (v, drop (i + 1) name)))"

record dir_entry =
  entry_name :: string
  entry_dir :: bool
  entry_content :: "string option"

fun load_files :: "nat \<Rightarrow> dir_entry list \<Rightarrow> 'e migrate_error + migration list" where
  "load_files index [] = Inr []"
| "load_files index (f # fs) =
     (case entry_content f of
        None \<Rightarrow> Inl (Read_Failed (entry_name f))
      | Some content \<Rightarrow>
          (case parse_migration_filename (entry_name f) index of
             Inl e \<Rightarrow> Inl e
           | Inr (version, name) \<Rightarrow>
               (case load_files (index + 1) fs of
                  Inl e \<Rightarrow> Inl e
                | Inr ms \<Rightarrow> Inr (\<lparr>mig_id = entry_name f, mig_version = version, mig_name = name, mig_sql = content, mig_up = []\<rparr> # ms))))"

fun insert_name :: "dir_entry \<Rightarrow> dir_entry list \<Rightarrow> dir_entry list" where
  "insert_name e [] = [e]"
| "insert_name e (x # xs) = (if str_lt (entry_name e) (entry_name x) then e # x # xs else x # insert_name e xs)"

definition migrate_embed :: "(string \<Rightarrow> string) \<Rightarrow> (string \<Rightarrow> 's \<Rightarrow> 'e + 's) \<Rightarrow> 'e run_env \<Rightarrow> dir_entry list \<Rightarrow> 's migration_db \<Rightarrow>
    'e migrate_error option \<times> 's migration_db" where
  "migrate_embed hash exec env entries db =
     (let files = filter (\<lambda>e. \<not> entry_dir e \<and> has_suffix (to_lower (entry_name e)) ''.sql'') entries in
      if files = [] then (Some No_Migrations, db)
      else (case load_files 0 (fold insert_name files []) of
          Inl e \<Rightarrow> (Some e, db)
        | Inr ms \<Rightarrow> auto_migrate hash exec env ms db))"

section \<open>Facts\<close>

fun replay :: "(string \<Rightarrow> 's \<Rightarrow> 'e + 's) \<Rightarrow> prepared list \<Rightarrow> 's \<Rightarrow> 's option" where
  "replay exec [] s = Some s"
| "replay exec (p # ps) s = (case exec (pr_sql p) s of Inl e \<Rightarrow> None | Inr s' \<Rightarrow> replay exec ps s')"

lemma replay_append: "replay exec (ps @ qs) s = (case replay exec ps s of None \<Rightarrow> None | Some s' \<Rightarrow> replay exec qs s')"
  by (induction ps arbitrary: s) (auto split: sum.split)

definition history_ok :: "(string \<Rightarrow> string) \<Rightarrow> prepared list \<Rightarrow> bool" where
  "history_ok hash h \<longleftrightarrow>
     distinct (map pr_id h) \<and> distinct (map pr_version h) \<and> (\<forall>p\<in>set h. pr_checksum p = hash (pr_sql p) \<and> 1 \<le> pr_version p)"

lemma prepare_one_Inr:
  assumes "prepare_one hash ids versions i m = Inr p"
  shows "pr_id p \<notin> ids" "pr_version p \<notin> versions" "pr_checksum p = hash (pr_sql p)" "1 \<le> pr_version p"
  using assms by (auto simp: prepare_one_def Let_def split: if_splits)

lemma prepare_loop_ok:
  "(prepare_loop hash ps ms :: 'e migrate_error + prepared list) = Inr qs \<Longrightarrow> history_ok hash ps \<Longrightarrow> history_ok hash qs"
proof (induction ms arbitrary: ps)
  case (Cons m ms)
  obtain p where p:
      "(prepare_one hash (set (map pr_id ps)) (set (map pr_version ps)) (length ps) m :: 'e migrate_error + prepared) = Inr p"
      "(prepare_loop hash (ps @ [p]) ms :: 'e migrate_error + prepared list) = Inr qs"
    using Cons.prems(1) by (auto split: sum.splits)
  have "history_ok hash (ps @ [p])"
    using Cons.prems(2) prepare_one_Inr [OF p(1)] by (auto simp: history_ok_def)
  then show ?case by (rule Cons.IH [OF p(2)])
qed simp

lemma prepare_migrations_ok:
  assumes "(prepare_migrations hash ms :: 'e migrate_error + prepared list) = Inr ps"
  shows "history_ok hash ps \<and> sorted (map pr_version ps)"
proof -
  obtain qs where qs: "(prepare_loop hash [] ms :: 'e migrate_error + prepared list) = Inr qs" and ps: "ps = sort_key pr_version qs"
    using assms by (cases "prepare_loop hash [] ms :: 'e migrate_error + prepared list") (auto simp: prepare_migrations_def)
  have ok: "history_ok hash qs" by (rule prepare_loop_ok [OF qs]) (simp add: history_ok_def)
  moreover have "mset (map pr_id ps) = mset (map pr_id qs)" by (metis mset_map mset_sort ps)
  moreover have "mset (map pr_version ps) = mset (map pr_version qs)" by (metis mset_map mset_sort ps)
  ultimately have "distinct (map pr_id ps)" "distinct (map pr_version ps)"
    using mset_eq_imp_distinct_iff unfolding history_ok_def by blast+
  then show ?thesis using ok by (simp add: history_ok_def ps)
qed

definition pending :: "prepared list \<Rightarrow> prepared list \<Rightarrow> prepared list" where
  "pending h ps = filter (\<lambda>p. pr_id p \<notin> set (map pr_id h)) ps"

lemma applied_None: "map_of (load_applied h) k = None \<longleftrightarrow> k \<notin> set (map pr_id h)"
  by (simp add: load_applied_def map_of_eq_None_iff image_image)

lemma applied_member:
  "distinct (map pr_id h) \<Longrightarrow> p \<in> set h \<Longrightarrow> map_of (load_applied h) (pr_id p) = Some (pr_checksum p)"
  by (auto simp: load_applied_def map_of_eq_Some_iff comp_def)

lemma apply_loop_Inr:
  "apply_loop exec (load_applied h) ps db = Inr db' \<Longrightarrow>
     db_history db' = db_history db @ pending h ps
     \<and> replay exec (pending h ps) (db_schema db) = Some (db_schema db')
     \<and> (\<forall>p\<in>set ps. pr_id p \<in> set (map pr_id h) \<longrightarrow> map_of (load_applied h) (pr_id p) = Some (pr_checksum p))
     \<and> (history_ok hash (db_history db) \<longrightarrow> (\<forall>p\<in>set ps. pr_checksum p = hash (pr_sql p) \<and> 1 \<le> pr_version p) \<longrightarrow>
          history_ok hash (db_history db'))"
proof (induction ps arbitrary: db)
  case (Cons p ps)
  show ?case
  proof (cases "map_of (load_applied h) (pr_id p)")
    case None
    then obtain s' where s': "exec (pr_sql p) (db_schema db) = Inr s'" "record_migration p (db_history db) = Some (db_history db @ [p])"
        and rest: "apply_loop exec (load_applied h) ps \<lparr>db_history = db_history db @ [p], db_schema = s'\<rparr> = Inr db'"
      using Cons.prems by (auto simp: record_migration_def split: sum.splits option.splits if_splits)
    have fresh: "pr_id p \<notin> set (map pr_id (db_history db))" "pr_version p \<notin> set (map pr_version (db_history db))"
      using s'(2) by (auto simp: record_migration_def split: if_splits)
    have ok: "history_ok hash (db_history db) \<Longrightarrow> pr_checksum p = hash (pr_sql p) \<and> 1 \<le> pr_version p \<Longrightarrow>
        history_ok hash (db_history db @ [p])"
      using fresh by (auto simp: history_ok_def)
    have "pr_id p \<notin> set (map pr_id h)" using None applied_None by blast
    then show ?thesis
      using Cons.IH [OF rest] s'(1) ok by (auto simp: pending_def)
  next
    case (Some c)
    then have c: "c = pr_checksum p" "apply_loop exec (load_applied h) ps db = Inr db'"
      using Cons.prems by (auto split: if_splits)
    have "pr_id p \<in> set (map pr_id h)" using Some applied_None [of h "pr_id p"] by auto
    then show ?thesis
      using Cons.IH [OF c(2)] Some c(1) by (auto simp: pending_def)
  qed
qed (simp add: pending_def)

lemma apply_loop_applied:
  "\<forall>p\<in>set ps. map_of applied (pr_id p) = Some (pr_checksum p) \<Longrightarrow> apply_loop exec applied ps db = Inr db"
  by (induction ps) auto

lemma map_of_applied_append: "map_of (load_applied (h @ new)) k = (case map_of (load_applied h) k of Some c \<Rightarrow> Some c | None \<Rightarrow> map_of (load_applied new) k)"
  by (simp add: load_applied_def map_add_def split: option.split)

text \<open>The databases that runs of any lists of migrations, successful or not, lead to from an empty history.\<close>

inductive migration_reach for hash :: "string \<Rightarrow> string" and exec :: "string \<Rightarrow> 's \<Rightarrow> 'e + 's" and start :: 's where
  fresh_db: "migration_reach hash exec start \<lparr>db_history = [], db_schema = start\<rparr>"
| run_migrations: "migration_reach hash exec start db \<Longrightarrow> auto_migrate hash exec env ms db = (e, db') \<Longrightarrow>
    migration_reach hash exec start db'"

lemma auto_migrate_cases:
  fixes exec :: "string \<Rightarrow> 's \<Rightarrow> 'e + 's"
  assumes "auto_migrate hash exec env ms db = (e, db')"
  obtains err where "e = Some err" "db' = db"
  | ps where "e = None" "prepare_migrations hash ms = (Inr ps :: 'e migrate_error + prepared list)"
    "apply_loop exec (load_applied (db_history db)) ps db = (Inr db' :: 'e migrate_error + 's migration_db)"
  using assms unfolding auto_migrate_def
  by (auto split: sum.splits option.splits)

lemma migration_reach_inv:
  "migration_reach hash exec start db \<Longrightarrow> history_ok hash (db_history db) \<and> replay exec (db_history db) start = Some (db_schema db)"
proof (induction rule: migration_reach.induct)
  case (run_migrations db env ms e db')
  from run_migrations.hyps(2) show ?case
  proof (cases rule: auto_migrate_cases)
    case (2 ps)
    have "\<forall>p\<in>set ps. pr_checksum p = hash (pr_sql p) \<and> 1 \<le> pr_version p"
      using prepare_migrations_ok [OF 2(2)] by (simp add: history_ok_def)
    then show ?thesis
      using apply_loop_Inr [OF 2(3), of hash] run_migrations.IH by (auto simp: replay_append)
  qed (use run_migrations.IH in simp)
qed (simp add: history_ok_def)

section \<open>Properties\<close>

text \<open>C13. The schema is at every moment what the recorded migrations make of the initial one, each run exactly
  once and in the order of the record, whose IDs and versions are distinct and whose checksums are those of the
  texts that ran. A run that fails changes nothing. A run that succeeds appends exactly the migrations that were
  not recorded, in the order of their versions, records every migration of its list with its checksum, and
  running the list again changes nothing.\<close>

theorem migrations_run_exactly_once:
  fixes exec :: "string \<Rightarrow> 's \<Rightarrow> 'e + 's"
  assumes "migration_reach hash exec start db"
  shows "history_ok hash (db_history db) \<and> replay exec (db_history db) start = Some (db_schema db)
    \<and> (case auto_migrate hash exec env ms db of
         (Some err, db') \<Rightarrow> db' = db
       | (None, db') \<Rightarrow>
           (\<exists>ps. prepare_migrations hash ms = (Inr ps :: 'e migrate_error + prepared list) \<and> sorted (map pr_version ps)
              \<and> db_history db' = db_history db @ pending (db_history db) ps
              \<and> (\<forall>p\<in>set ps. map_of (load_applied (db_history db')) (pr_id p) = Some (hash (pr_sql p)))
              \<and> (\<forall>env'. lock_error env' = None \<longrightarrow> commit_error env' = None \<longrightarrow> auto_migrate hash exec env' ms db' = (None, db'))))"
proof (intro conjI)
  show ok: "history_ok hash (db_history db)" "replay exec (db_history db) start = Some (db_schema db)"
    using migration_reach_inv [OF assms] by simp_all
  obtain e db' where run: "auto_migrate hash exec env ms db = (e, db')" by fastforce
  from run show "case auto_migrate hash exec env ms db of
         (Some err, db') \<Rightarrow> db' = db
       | (None, db') \<Rightarrow>
           (\<exists>ps. prepare_migrations hash ms = (Inr ps :: 'e migrate_error + prepared list) \<and> sorted (map pr_version ps)
              \<and> db_history db' = db_history db @ pending (db_history db) ps
              \<and> (\<forall>p\<in>set ps. map_of (load_applied (db_history db')) (pr_id p) = Some (hash (pr_sql p)))
              \<and> (\<forall>env'. lock_error env' = None \<longrightarrow> commit_error env' = None \<longrightarrow> auto_migrate hash exec env' ms db' = (None, db')))"
  proof (cases rule: auto_migrate_cases)
    case (2 ps)
    note prep = prepare_migrations_ok [OF 2(2)]
    note loop = apply_loop_Inr [OF 2(3), of hash]
    have sums: "pr_checksum p = hash (pr_sql p)" if "p \<in> set ps" for p using prep that by (simp add: history_ok_def)
    have dist: "distinct (map pr_id (pending (db_history db) ps))"
      using prep by (simp add: pending_def history_ok_def distinct_map_filter)
    have rec: "map_of (load_applied (db_history db')) (pr_id p) = Some (pr_checksum p)" if "p \<in> set ps" for p
    proof (cases "pr_id p \<in> set (map pr_id (db_history db))")
      case True
      then show ?thesis using loop that by (simp add: map_of_applied_append)
    next
      case False
      then have "p \<in> set (pending (db_history db) ps)" using that by (simp add: pending_def)
      then show ?thesis
        using loop applied_member [OF dist] False applied_None [of "db_history db" "pr_id p"]
        by (simp add: map_of_applied_append)
    qed
    then have again: "auto_migrate hash exec env' ms db' = (None, db')" if "lock_error env' = None" "commit_error env' = None" for env'
    proof -
      have "\<forall>p\<in>set ps. map_of (load_applied (db_history db')) (pr_id p) = Some (pr_checksum p)" using rec by blast
      then show ?thesis using that 2(2) by (simp add: auto_migrate_def apply_loop_applied)
    qed
    show ?thesis unfolding run 2(1) prod.case option.case
      by (intro exI [of _ ps] conjI) (use 2 loop prep rec again sums in simp_all)
  qed (use run in simp)
qed

definition sample_migrations :: "migration list" where
  "sample_migrations =
     [\<lparr>mig_id = ''b'', mig_version = 2, mig_name = [], mig_sql = ''y'', mig_up = []\<rparr>,
      \<lparr>mig_id = ''a'', mig_version = 1, mig_name = [], mig_sql = ''x'', mig_up = []\<rparr>]"

definition sample_exec :: "string \<Rightarrow> string list \<Rightarrow> unit + string list" where
  "sample_exec sql s = Inr (s @ [sql])"

definition sample_run :: "unit run_env" where
  "sample_run = \<lparr>lock_error = None, commit_error = None\<rparr>"

lemma sample_prepared:
  "prepare_migrations (\<lambda>s. s) sample_migrations =
     Inr [\<lparr>pr_id = ''a'', pr_version = 1, pr_name = [], pr_sql = ''x'', pr_checksum = ''x''\<rparr>,
          \<lparr>pr_id = ''b'', pr_version = 2, pr_name = [], pr_sql = ''y'', pr_checksum = ''y''\<rparr>]"
  by (simp add: prepare_migrations_def sample_migrations_def prepare_one_def trim_space_def is_space_def Let_def)

theorem migrations_run_exactly_once_witness:
  "\<exists>db. auto_migrate (\<lambda>s. s) sample_exec sample_run sample_migrations \<lparr>db_history = [], db_schema = []\<rparr> = (None, db)
     \<and> db_schema db = [''x'', ''y''] \<and> auto_migrate (\<lambda>s. s) sample_exec sample_run sample_migrations db = (None, db)"
proof -
  let ?db = "\<lparr>db_history = [\<lparr>pr_id = ''a'', pr_version = 1, pr_name = [], pr_sql = ''x'', pr_checksum = ''x''\<rparr>,
      \<lparr>pr_id = ''b'', pr_version = 2, pr_name = [], pr_sql = ''y'', pr_checksum = ''y''\<rparr>], db_schema = [''x'', ''y'']\<rparr>"
  have run: "auto_migrate (\<lambda>s. s) sample_exec sample_run sample_migrations \<lparr>db_history = [], db_schema = []\<rparr> = (None, ?db)"
    by (simp add: auto_migrate_def sample_prepared sample_run_def sample_exec_def load_applied_def record_migration_def)
  have env: "lock_error sample_run = None" "commit_error sample_run = None" by (simp_all add: sample_run_def)
  have "auto_migrate (\<lambda>s. s) sample_exec sample_run sample_migrations ?db = (None, ?db)"
    using migrations_run_exactly_once [where hash = "\<lambda>s. s" and exec = sample_exec and env = sample_run and ms = sample_migrations, OF fresh_db [of _ _ "[]"]] env
    unfolding run by auto
  then show ?thesis using run by auto
qed

end
