(* ===== verification/Redis_Cache.thy ===== *)
theory Redis_Cache
  imports Go_Strconv Go_Maps
begin

text \<open>
  \<^verbatim>\<open>cache/redis.go\<close>: the cache over Redis and the load lock of \<^verbatim>\<open>GetOrSet\<close>. Redis is a list of keys with
  their data and the instant they expire; each command and each script is atomic. The codec, the fetcher,
  the hash of the lock key, the random tokens and the failures of the network are parameters. Times are
  nanoseconds.
\<close>

section \<open>Configuration\<close>

record redis_cache_config =
  cc_prefix :: string
  cc_ping_timeout :: int
  cc_scan_count :: int
  cc_lock_ttl :: int
  cc_poll :: int

definition normalize_redis_config :: "redis_cache_config \<Rightarrow> redis_cache_config" where
  "normalize_redis_config c =
     c\<lparr>cc_prefix := (if cc_prefix c = [] then ''gpp:cache:'' else cc_prefix c),
       cc_ping_timeout := (if cc_ping_timeout c \<le> 0 then 2000000000 else cc_ping_timeout c),
       cc_scan_count := (if cc_scan_count c \<le> 0 then 100 else cc_scan_count c),
       cc_lock_ttl := (if cc_lock_ttl c \<le> 0 then 30000000000 else cc_lock_ttl c),
       cc_poll := (if cc_poll c \<le> 0 then 25000000 else cc_poll c)\<rparr>"

datatype cache_error =
    Client_Missing | Lock_Ttl_Short | Ping_Failed | Ttl_Not_Positive | Bad_Cache_Key | Network | Encode_Failed | Decode_Failed
  | Fetch_Failed | Lock_Lost | Cancelled

definition new_redis_store :: "bool \<Rightarrow> bool \<Rightarrow> redis_cache_config \<Rightarrow> cache_error + redis_cache_config" where
  "new_redis_store client_ok ping_ok c =
     (let c = normalize_redis_config c in
      if \<not> client_ok then Inl Client_Missing
      else if cc_lock_ttl c < 100000000 then Inl Lock_Ttl_Short
      else if \<not> ping_ok then Inl Ping_Failed else Inr c)"

section \<open>Commands and scripts\<close>

type_synonym redis_data = "(string \<times> string \<times> int) list"

definition r_get :: "int \<Rightarrow> redis_data \<Rightarrow> string \<Rightarrow> string option" where
  "r_get now db k = (case map_of db k of None \<Rightarrow> None | Some (v, e) \<Rightarrow> if now < e then Some v else None)"

definition r_pttl :: "int \<Rightarrow> redis_data \<Rightarrow> string \<Rightarrow> int" where
  "r_pttl now db k = (case map_of db k of None \<Rightarrow> 0 | Some (v, e) \<Rightarrow> e - now)"

definition r_set :: "int \<Rightarrow> string \<Rightarrow> string \<Rightarrow> int \<Rightarrow> redis_data \<Rightarrow> redis_data" where
  "r_set now k v ttl db = AList.update k (v, now + ttl) db"

definition r_unlink :: "string list \<Rightarrow> redis_data \<Rightarrow> redis_data" where
  "r_unlink ks db = fold AList.delete ks db"

definition r_setnx :: "int \<Rightarrow> string \<Rightarrow> string \<Rightarrow> int \<Rightarrow> redis_data \<Rightarrow> bool \<times> redis_data" where
  "r_setnx now k v ttl db = (if r_get now db k = None then (True, r_set now k v ttl db) else (False, db))"

text \<open>The scripts \<^verbatim>\<open>redisCompareDelete\<close>, \<^verbatim>\<open>redisCompareExpire\<close> (in milliseconds) and \<^verbatim>\<open>redisCompareOwner\<close>.\<close>

definition compare_delete :: "int \<Rightarrow> string \<Rightarrow> string \<Rightarrow> redis_data \<Rightarrow> redis_data" where
  "compare_delete now k token db = (if r_get now db k = Some token then AList.delete k db else db)"

definition compare_expire :: "int \<Rightarrow> string \<Rightarrow> string \<Rightarrow> int \<Rightarrow> redis_data \<Rightarrow> bool \<times> redis_data" where
  "compare_expire now k token ms db =
     (if r_get now db k = Some token then (True, r_set now k token (ms * 1000000) db) else (False, db))"

definition compare_owner :: "int \<Rightarrow> string \<Rightarrow> string \<Rightarrow> redis_data \<Rightarrow> bool" where
  "compare_owner now k token db \<longleftrightarrow> r_get now db k = Some token"

section \<open>The operations of the store\<close>

definition redis_cache_key :: "string \<Rightarrow> string \<Rightarrow> cache_error + string" where
  "redis_cache_key pfx key = (if key = [] \<or> 1024 < length key then Inl Bad_Cache_Key else Inr (pfx @ key))"

text \<open>\<open>net\<close> says whether the command reaches Redis; \<open>Inr None\<close> is a miss.\<close>

definition cache_read :: "(string \<Rightarrow> 'v option) \<Rightarrow> bool \<Rightarrow> int \<Rightarrow> string \<Rightarrow> redis_data \<Rightarrow> cache_error + 'v option" where
  "cache_read decode net now rk db =
     (if \<not> net then Inl Network
      else (case r_get now db rk of
          None \<Rightarrow> Inr None
        | Some data \<Rightarrow> (case decode data of None \<Rightarrow> Inl Decode_Failed | Some v \<Rightarrow> Inr (Some v))))"

definition redis_cache_get :: "(string \<Rightarrow> 'v option) \<Rightarrow> bool \<Rightarrow> int \<Rightarrow> string \<Rightarrow> string \<Rightarrow> redis_data \<Rightarrow> cache_error + 'v option" where
  "redis_cache_get decode net now pfx key db =
     (case redis_cache_key pfx key of Inl e \<Rightarrow> Inl e | Inr rk \<Rightarrow> cache_read decode net now rk db)"

definition redis_cache_get_ttl :: "(string \<Rightarrow> 'v option) \<Rightarrow> bool \<Rightarrow> int \<Rightarrow> string \<Rightarrow> string \<Rightarrow> redis_data \<Rightarrow>
    cache_error + ('v \<times> int) option" where
  "redis_cache_get_ttl decode net now pfx key db =
     (case redis_cache_key pfx key of
        Inl e \<Rightarrow> Inl e
      | Inr rk \<Rightarrow> (case cache_read decode net now rk db of
          Inl e \<Rightarrow> Inl e | Inr None \<Rightarrow> Inr None | Inr (Some v) \<Rightarrow> Inr (Some (v, r_pttl now db rk))))"

definition redis_cache_set :: "('v \<Rightarrow> string option) \<Rightarrow> bool \<Rightarrow> int \<Rightarrow> string \<Rightarrow> string \<Rightarrow> 'v \<Rightarrow> int \<Rightarrow> redis_data \<Rightarrow>
    cache_error option \<times> redis_data" where
  "redis_cache_set encode net now pfx key v ttl db =
     (if ttl \<le> 0 then (Some Ttl_Not_Positive, db)
      else (case redis_cache_key pfx key of
          Inl e \<Rightarrow> (Some e, db)
        | Inr rk \<Rightarrow> (case encode v of
            None \<Rightarrow> (Some Encode_Failed, db)
          | Some data \<Rightarrow> if net then (None, r_set now rk data ttl db) else (Some Network, db))))"

definition redis_cache_delete :: "bool \<Rightarrow> string \<Rightarrow> string \<Rightarrow> redis_data \<Rightarrow> cache_error option \<times> redis_data" where
  "redis_cache_delete net pfx key db =
     (case redis_cache_key pfx key of
        Inl e \<Rightarrow> (Some e, db)
      | Inr rk \<Rightarrow> if net then (None, r_unlink [rk] db) else (Some Network, db))"

definition escape_redis_pattern :: "string \<Rightarrow> string" where
  "escape_redis_pattern s =
     concat (map (\<lambda>c. if c \<in> {CHR 0x5C, CHR ''*'', CHR ''?'', CHR ''['', CHR '']''} then [CHR 0x5C, c] else [c]) s)"

definition invalidation_pattern :: "string \<Rightarrow> string \<Rightarrow> string" where
  "invalidation_pattern store_prefix pfx = store_prefix @ escape_redis_pattern pfx @ ''*''"

text \<open>\<^verbatim>\<open>InvalidatePrefix\<close>; \<open>scan\<close> holds the answers of the scan by \<open>invalidation_pattern\<close> until its cursor is zero.\<close>

fun redis_invalidate :: "(cache_error + string list) list \<Rightarrow> redis_data \<Rightarrow> cache_error option \<times> redis_data" where
  "redis_invalidate [] db = (None, db)"
| "redis_invalidate (Inl e # scan) db = (Some e, db)"
| "redis_invalidate (Inr ks # scan) db = redis_invalidate scan (if ks = [] then db else r_unlink ks db)"

section \<open>Loading under the lock\<close>

definition load_lock_key :: "(string \<Rightarrow> string) \<Rightarrow> string \<Rightarrow> string" where
  "load_lock_key hash rk = ''gpp:cache-load-lock:'' @ hash rk"

text \<open>Where an execution of \<^verbatim>\<open>getOrSetDistributed\<close> stands, with the token of its lock and what it will return.\<close>

datatype 'v phase =
    Polling | Probing | Holding string | Fetching string | Fetched string 'v | Checked string 'v | Lost string
  | Releasing string "cache_error + 'v" | Returned "cache_error + 'v"

fun token_of :: "'v phase \<Rightarrow> string option" where
  "token_of (Holding t) = Some t"
| "token_of (Fetching t) = Some t"
| "token_of (Fetched t v) = Some t"
| "token_of (Checked t v) = Some t"
| "token_of (Lost t) = Some t"
| "token_of (Releasing t r) = Some t"
| "token_of _ = None"

fun holds_lock :: "'v phase \<Rightarrow> bool" where
  "holds_lock (Lost t) = False"
| "holds_lock (Releasing t r) = False"
| "holds_lock p \<longleftrightarrow> token_of p \<noteq> None"

text \<open>One command of an execution: \<open>token\<close> is the random token, \<open>fetched\<close> what the fetcher answers, \<open>net\<close>
  whether the command reaches Redis, \<open>live\<close> whether the context lives on.\<close>

record 'v load_input =
  li_token :: string
  li_fetched :: "'v option"
  li_net :: bool
  li_live :: bool

definition load_act :: "('v \<Rightarrow> string option) \<Rightarrow> (string \<Rightarrow> 'v option) \<Rightarrow> int \<Rightarrow> int \<Rightarrow> string \<Rightarrow> string \<Rightarrow> int \<Rightarrow> 'v load_input \<Rightarrow>
    'v phase \<times> redis_data \<Rightarrow> 'v phase \<times> redis_data" where
  "load_act encode decode lock_ttl ttl lk rk now i s =
     (case s of (phase, db) \<Rightarrow>
        (case phase of
           Polling \<Rightarrow>
             (case cache_read decode (li_net i) now rk db of
                Inl e \<Rightarrow> (Returned (Inl e), db)
              | Inr (Some v) \<Rightarrow> (Returned (Inr v), db)
              | Inr None \<Rightarrow> (Probing, db))
         | Probing \<Rightarrow>
             (if \<not> li_net i then (Returned (Inl Network), db)
              else (case r_setnx now lk (li_token i) lock_ttl db of
                  (True, db) \<Rightarrow> (Holding (li_token i), db)
                | (False, db) \<Rightarrow> (if li_live i then Polling else Returned (Inl Cancelled), db)))
         | Holding t \<Rightarrow>
             (case cache_read decode (li_net i) now rk db of
                Inl e \<Rightarrow> (Releasing t (Inl e), db)
              | Inr (Some v) \<Rightarrow> (Releasing t (Inr v), db)
              | Inr None \<Rightarrow> (Fetching t, db))
         | Fetching t \<Rightarrow>
             (case li_fetched i of None \<Rightarrow> (Releasing t (Inl Fetch_Failed), db) | Some v \<Rightarrow> (Fetched t v, db))
         | Fetched t v \<Rightarrow>
             (if encode v = None then (Releasing t (Inl Encode_Failed), db)
              else if \<not> li_net i then (Releasing t (Inl Network), db)
              else (if compare_owner now lk t db then Checked t v else Lost t, db))
         | Checked t v \<Rightarrow>
             (case encode v of
                Some data \<Rightarrow> if li_net i then (Releasing t (Inr v), r_set now rk data ttl db) else (Releasing t (Inl Network), db)
              | None \<Rightarrow> (Releasing t (Inl Encode_Failed), db))
         | Lost t \<Rightarrow>
             (case cache_read decode (li_net i) now rk db of
                Inr (Some v) \<Rightarrow> (Releasing t (Inr v), db)
              | _ \<Rightarrow> (Releasing t (Inl Lock_Lost), db))
         | Releasing t r \<Rightarrow> (Returned r, if li_net i then compare_delete now lk t db else db)
         | Returned r \<Rightarrow> (Returned r, db)))"

text \<open>A turn of the renewal that runs beside it.\<close>

definition renew_lock :: "int \<Rightarrow> string \<Rightarrow> int \<Rightarrow> string \<Rightarrow> redis_data \<Rightarrow> redis_data" where
  "renew_lock lock_ttl lk now t db = snd (compare_expire now lk t (lock_ttl div 1000000) db)"

section \<open>Executions side by side\<close>

text \<open>Executions for one key, of any number of instances. The clock moves only while every holder's lock
  outlives the move, that is, while the renewals are in time; other clients may change any key but the lock.\<close>

record 'v load_system =
  ls_now :: int
  ls_db :: redis_data
  ls_loads :: "'v phase list"
  ls_tokens :: nat

record 'v load_config =
  lc_encode :: "'v \<Rightarrow> string option"
  lc_decode :: "string \<Rightarrow> 'v option"
  lc_token :: "nat \<Rightarrow> string"
  lc_lock_ttl :: int
  lc_ttl :: int
  lc_lock_key :: string
  lc_key :: string

definition config_ok :: "'v load_config \<Rightarrow> bool" where
  "config_ok c \<longleftrightarrow> inj (lc_token c) \<and> 100000000 \<le> lc_lock_ttl c \<and> 0 < lc_ttl c \<and> lc_lock_key c \<noteq> lc_key c"

definition locks_outlive :: "'v load_config \<Rightarrow> int \<Rightarrow> 'v load_system \<Rightarrow> bool" where
  "locks_outlive c now' s \<longleftrightarrow>
     (\<forall>p\<in>set (ls_loads s). holds_lock p \<longrightarrow> r_get now' (ls_db s) (lc_lock_key c) = token_of p)"

inductive load_reach for c :: "'v load_config" where
  load_start: "load_reach c \<lparr>ls_now = now, ls_db = db, ls_loads = [], ls_tokens = 0\<rparr>"
| load_call: "load_reach c s \<Longrightarrow> load_reach c (s\<lparr>ls_loads := ls_loads s @ [Polling]\<rparr>)"
| load_step: "load_reach c s \<Longrightarrow> k < length (ls_loads s) \<Longrightarrow> li_token i = lc_token c (ls_tokens s) \<Longrightarrow>
    load_act (lc_encode c) (lc_decode c) (lc_lock_ttl c) (lc_ttl c) (lc_lock_key c) (lc_key c) (ls_now s) i (ls_loads s ! k, ls_db s) = (p, db) \<Longrightarrow>
    load_reach c (s\<lparr>ls_db := db, ls_loads := (ls_loads s)[k := p], ls_tokens := Suc (ls_tokens s)\<rparr>)"
| load_renew: "load_reach c s \<Longrightarrow> p \<in> set (ls_loads s) \<Longrightarrow> token_of p = Some t \<Longrightarrow>
    load_reach c (s\<lparr>ls_db := renew_lock (lc_lock_ttl c) (lc_lock_key c) (ls_now s) t (ls_db s)\<rparr>)"
| load_tick: "load_reach c s \<Longrightarrow> ls_now s \<le> now' \<Longrightarrow> locks_outlive c now' s \<Longrightarrow> load_reach c (s\<lparr>ls_now := now'\<rparr>)"
| load_other: "load_reach c s \<Longrightarrow> map_of db (lc_lock_key c) = map_of (ls_db s) (lc_lock_key c) \<Longrightarrow> load_reach c (s\<lparr>ls_db := db\<rparr>)"

section \<open>Facts\<close>

lemma r_get_set [simp]: "r_get now (r_set t k v ttl db) k' = (if k' = k then (if now < t + ttl then Some v else None) else r_get now db k')"
  by (simp add: r_get_def r_set_def update_conv')

lemma r_get_delete [simp]: "r_get now (AList.delete k db) k' = (if k' = k then None else r_get now db k')"
  by (simp add: r_get_def delete_conv')

text \<open>What one command does to the lock and to the token it has.\<close>

lemma load_act_effect:
  assumes "load_act enc dec lock_ttl ttl lk rk now i (p, db) = (p', db')" "lk \<noteq> rk" "0 < lock_ttl"
  shows "(token_of p = None \<and> token_of p' = Some (li_token i) \<and> r_get now db lk = None \<and> r_get now db' lk = Some (li_token i))
    \<or> (token_of p' = token_of p \<and> (holds_lock p' \<longrightarrow> holds_lock p) \<and> r_get now db' lk = r_get now db lk)
    \<or> (\<exists>t. token_of p = Some t \<and> token_of p' = None \<and>
          (r_get now db' lk = r_get now db lk \<or> r_get now db lk = Some t \<and> r_get now db' lk = None))"
  using assms
  by (cases p) (auto simp: load_act_def r_setnx_def compare_delete_def split: sum.splits option.splits if_splits)

lemma renew_keeps:
  "100000000 \<le> lock_ttl \<Longrightarrow> r_get now (renew_lock lock_ttl lk now t db) lk = r_get now db lk"
  by (auto simp: renew_lock_def compare_expire_def)

definition load_inv :: "'v load_config \<Rightarrow> 'v load_system \<Rightarrow> bool" where
  "load_inv c s \<longleftrightarrow>
     (\<forall>k<length (ls_loads s). \<forall>t. token_of (ls_loads s ! k) = Some t \<longrightarrow> t \<in> lc_token c ` {..<ls_tokens s})
     \<and> (\<forall>k<length (ls_loads s). \<forall>j<length (ls_loads s). \<forall>t. token_of (ls_loads s ! k) = Some t \<longrightarrow> token_of (ls_loads s ! j) = Some t \<longrightarrow> k = j)
     \<and> (\<forall>k<length (ls_loads s). holds_lock (ls_loads s ! k) \<longrightarrow> r_get (ls_now s) (ls_db s) (lc_lock_key c) = token_of (ls_loads s ! k))"

lemma holds_lock_token: "holds_lock p \<Longrightarrow> \<exists>t. token_of p = Some t"
  by (cases p) auto

lemma load_invD:
  assumes "load_inv c s"
  shows "k < length (ls_loads s) \<Longrightarrow> token_of (ls_loads s ! k) = Some t \<Longrightarrow> t \<in> lc_token c ` {..<ls_tokens s}"
    and "k < length (ls_loads s) \<Longrightarrow> j < length (ls_loads s) \<Longrightarrow> token_of (ls_loads s ! k) = Some t \<Longrightarrow>
      token_of (ls_loads s ! j) = Some t \<Longrightarrow> k = j"
    and "k < length (ls_loads s) \<Longrightarrow> holds_lock (ls_loads s ! k) \<Longrightarrow>
      r_get (ls_now s) (ls_db s) (lc_lock_key c) = token_of (ls_loads s ! k)"
  using assms unfolding load_inv_def by metis+

lemma load_inv_step:
  assumes inv: "load_inv c s" and ok: "config_ok c" and k: "k < length (ls_loads s)" and tok: "li_token i = lc_token c (ls_tokens s)"
    and act: "load_act (lc_encode c) (lc_decode c) (lc_lock_ttl c) (lc_ttl c) (lc_lock_key c) (lc_key c) (ls_now s) i (ls_loads s ! k, ls_db s) = (p, db)"
  shows "load_inv c (s\<lparr>ls_db := db, ls_loads := (ls_loads s)[k := p], ls_tokens := Suc (ls_tokens s)\<rparr>)"
proof -
  let ?old = "ls_loads s ! k" and ?lk = "lc_lock_key c" and ?new = "(ls_loads s)[k := p]"
  have keys: "lc_lock_key c \<noteq> lc_key c" "0 < lc_lock_ttl c" using ok by (auto simp: config_ok_def)
  have fresh: "li_token i \<notin> lc_token c ` {..<ls_tokens s}"
    using ok by (auto simp: tok config_ok_def inj_eq)
  note eff = load_act_effect [OF act keys]
  have old_or_fresh: "token_of p = token_of ?old \<or> token_of p = None \<or> token_of ?old = None \<and> token_of p = Some (li_token i)"
    using eff by auto
  have at: "?new ! j = (if j = k then p else ls_loads s ! j)" if "j < length (ls_loads s)" for j
    using that k by simp
  have one: "t \<in> lc_token c ` {..<Suc (ls_tokens s)}" if "j < length (ls_loads s)" "token_of (?new ! j) = Some t" for j t
  proof -
    have "token_of (ls_loads s ! j) = Some t \<or> t = lc_token c (ls_tokens s)"
      using that at [OF that(1)] old_or_fresh tok by (auto split: if_splits)
    then show ?thesis using load_invD(1) [OF inv that(1)] by (auto simp: lessThan_Suc)
  qed
  have two: "j = m" if "j < length (ls_loads s)" "m < length (ls_loads s)" "token_of (?new ! j) = Some t" "token_of (?new ! m) = Some t" for j m t
  proof (rule ccontr)
    assume ne: "j \<noteq> m"
    have other: "token_of (ls_loads s ! n) = Some t \<Longrightarrow> n < length (ls_loads s) \<Longrightarrow> n \<noteq> k \<Longrightarrow> token_of p \<noteq> Some t" for n
      using old_or_fresh load_invD(2) [OF inv, of n k t] load_invD(1) [OF inv, of n t] fresh k by auto
    show False
      using that ne at [OF that(1)] at [OF that(2)] other [of j] other [of m] load_invD(2) [OF inv that(1,2), of t]
      by (auto split: if_splits)
  qed
  have three: "r_get (ls_now s) db ?lk = token_of (?new ! j)" if "j < length (ls_loads s)" "holds_lock (?new ! j)" for j
  proof -
    note held = that(2)
    obtain t where t: "token_of (?new ! j) = Some t" using holds_lock_token [OF held] by blast
    from eff show ?thesis
    proof (elim disjE conjE exE)
      assume e: "token_of ?old = None" "token_of p = Some (li_token i)" "r_get (ls_now s) (ls_db s) ?lk = None"
        "r_get (ls_now s) db ?lk = Some (li_token i)"
      have "j = k"
      proof (rule ccontr)
        assume "j \<noteq> k"
        then have "holds_lock (ls_loads s ! j)" using that at by simp
        then show False using load_invD(3) [OF inv that(1)] e(3) holds_lock_token by fastforce
      qed
      then show ?thesis using e k by simp
    next
      assume "token_of p = token_of ?old" "holds_lock p \<longrightarrow> holds_lock ?old" "r_get (ls_now s) db ?lk = r_get (ls_now s) (ls_db s) ?lk"
      then show ?thesis using load_invD(3) [OF inv that(1)] that at [OF that(1)] by (auto split: if_splits)
    next
      fix u assume e: "token_of ?old = Some u" "token_of p = None"
        "r_get (ls_now s) db ?lk = r_get (ls_now s) (ls_db s) ?lk"
      have "j \<noteq> k" using e(2) t k that(1) by auto
      then show ?thesis using load_invD(3) [OF inv that(1)] that at [OF that(1)] e(3) by simp
    next
      fix u assume e: "token_of ?old = Some u" "token_of p = None"
        "r_get (ls_now s) (ls_db s) ?lk = Some u" "r_get (ls_now s) db ?lk = None"
      have "j \<noteq> k" using e(2) t k that(1) by auto
      then have "token_of (ls_loads s ! j) = Some u" using load_invD(3) [OF inv that(1)] that at [OF that(1)] e(3) by simp
      then show ?thesis using load_invD(2) [OF inv that(1) k, of u] e(1) \<open>j \<noteq> k\<close> by simp
    qed
  qed
  show ?thesis unfolding load_inv_def using one two three by simp
qed

lemma load_reach_inv: "load_reach c s \<Longrightarrow> config_ok c \<Longrightarrow> load_inv c s"
proof (induction rule: load_reach.induct)
  case (load_call s)
  then show ?case by (auto simp: load_inv_def nth_append less_Suc_eq)
next
  case (load_step s k i p db)
  then show ?case by (intro load_inv_step) simp_all
next
  case (load_renew s p t)
  then show ?case using renew_keeps by (simp add: load_inv_def config_ok_def)
next
  case (load_tick s now')
  then show ?case by (auto simp: load_inv_def locks_outlive_def)
next
  case (load_other s db)
  then show ?case by (simp add: load_inv_def r_get_def)
qed (simp add: load_inv_def)

lemma load_act_value:
  assumes "load_act enc dec lock_ttl ttl lk rk now i (p, db) = (p', db')" "lk \<noteq> rk"
  shows "r_get now db' rk \<noteq> r_get now db rk \<Longrightarrow> holds_lock p"
  using assms by (cases p) (auto simp: load_act_def r_setnx_def compare_delete_def split: sum.splits option.splits if_splits)

lemma load_act_lock:
  assumes "load_act enc dec lock_ttl ttl lk rk now i (p, db) = (p', db')" "lk \<noteq> rk"
  shows "r_get now db' lk = None \<Longrightarrow> r_get now db lk \<in> {None, token_of p}"
  using assms by (cases p) (auto simp: load_act_def r_setnx_def compare_delete_def split: sum.splits option.splits if_splits)

lemma filter_at_most_one:
  assumes "\<And>k j. k < length xs \<Longrightarrow> j < length xs \<Longrightarrow> P (xs ! k) \<Longrightarrow> P (xs ! j) \<Longrightarrow> k = j"
  shows "length (filter P xs) \<le> 1"
proof -
  have "card {k. k < length xs \<and> P (xs ! k)} \<le> Suc 0"
    using assms by (subst card_le_Suc0_iff_eq) auto
  then show ?thesis by (simp add: length_filter_conv_card)
qed

section \<open>Properties\<close>

fun fetches :: "'v phase \<Rightarrow> bool" where
  "fetches (Fetching t) = True"
| "fetches _ = False"

text \<open>C14. However executions of \<^verbatim>\<open>GetOrSet\<close> for one key interleave over all instances, as long as the renewals
  keep a holder's lock alive, the lock has one holder: at most one fetcher runs, the holder's token is in
  Redis, no release removes the lock of another execution, and an execution stores its value only as the holder.\<close>

theorem one_fetcher_runs_per_key:
  assumes "config_ok c" "load_reach c s"
  shows "length (filter fetches (ls_loads s)) \<le> 1 \<and> length (filter holds_lock (ls_loads s)) \<le> 1
    \<and> list_all (\<lambda>p. holds_lock p \<longrightarrow> r_get (ls_now s) (ls_db s) (lc_lock_key c) = token_of p) (ls_loads s)
    \<and> list_all (\<lambda>p. \<forall>i p' db. load_act (lc_encode c) (lc_decode c) (lc_lock_ttl c) (lc_ttl c) (lc_lock_key c) (lc_key c) (ls_now s) i (p, ls_db s) = (p', db) \<longrightarrow>
         (r_get (ls_now s) db (lc_key c) \<noteq> r_get (ls_now s) (ls_db s) (lc_key c) \<longrightarrow> holds_lock p)
         \<and> (r_get (ls_now s) db (lc_lock_key c) = None \<longrightarrow> r_get (ls_now s) (ls_db s) (lc_lock_key c) \<in> {None, token_of p})) (ls_loads s)"
proof -
  have inv: "load_inv c s" by (rule load_reach_inv [OF assms(2,1)])
  have unique: "k = j" if "k < length (ls_loads s)" "j < length (ls_loads s)" "holds_lock (ls_loads s ! k)" "holds_lock (ls_loads s ! j)" for k j
  proof -
    note held = that(3)
    obtain t where "token_of (ls_loads s ! k) = Some t" using holds_lock_token [OF held] by blast
    then show ?thesis using load_invD(2) [OF inv that(1,2)] load_invD(3) [OF inv that(1,3)] load_invD(3) [OF inv that(2,4)] by simp
  qed
  have holders: "length (filter holds_lock (ls_loads s)) \<le> 1" using unique by (rule filter_at_most_one)
  have "length (filter fetches (ls_loads s)) \<le> length (filter holds_lock (ls_loads s))"
    by (rule length_filter_mono) (auto elim: fetches.elims)
  moreover have "r_get (ls_now s) (ls_db s) (lc_lock_key c) = token_of p" if "p \<in> set (ls_loads s)" "holds_lock p" for p
    using that load_invD(3) [OF inv] by (auto simp: in_set_conv_nth)
  moreover have "(r_get (ls_now s) db (lc_key c) \<noteq> r_get (ls_now s) (ls_db s) (lc_key c) \<longrightarrow> holds_lock p)
      \<and> (r_get (ls_now s) db (lc_lock_key c) = None \<longrightarrow> r_get (ls_now s) (ls_db s) (lc_lock_key c) \<in> {None, token_of p})"
    if "load_act (lc_encode c) (lc_decode c) (lc_lock_ttl c) (lc_ttl c) (lc_lock_key c) (lc_key c) (ls_now s) i (p, ls_db s) = (p', db)" for p i p' db
    using load_act_lock [OF that] load_act_value [OF that] assms(1) by (simp add: config_ok_def)
  ultimately show ?thesis using holders by (auto simp: list_all_iff)
qed

definition sample_load_config :: "string load_config" where
  "sample_load_config = \<lparr>lc_encode = Some, lc_decode = Some, lc_token = (\<lambda>n. replicate n CHR ''t''), lc_lock_ttl = 100000000,
     lc_ttl = 5, lc_lock_key = ''l'', lc_key = ''k''\<rparr>"

definition sample_input :: "nat \<Rightarrow> string load_input" where
  "sample_input n = \<lparr>li_token = replicate n CHR ''t'', li_fetched = Some ''v'', li_net = True, li_live = True\<rparr>"

text \<open>Two executions: the first one fetches while the second one found the lock taken.\<close>

definition sample_load :: "string phase list \<Rightarrow> redis_data \<Rightarrow> nat \<Rightarrow> string load_system" where
  "sample_load loads db n = \<lparr>ls_now = 0, ls_db = db, ls_loads = loads, ls_tokens = n\<rparr>"

abbreviation sample_lock :: redis_data where
  "sample_lock \<equiv> [(''l'', [CHR ''t''], 100000000)]"

lemma sample_load_act:
  "load_act Some Some 100000000 5 ''l'' ''k'' 0 (sample_input n) (Polling, []) = (Probing, [])"
  "load_act Some Some 100000000 5 ''l'' ''k'' 0 (sample_input (Suc 0)) (Probing, []) = (Holding [CHR ''t''], sample_lock)"
  "load_act Some Some 100000000 5 ''l'' ''k'' 0 (sample_input n) (Holding [CHR ''t''], sample_lock) = (Fetching [CHR ''t''], sample_lock)"
  "load_act Some Some 100000000 5 ''l'' ''k'' 0 (sample_input n) (Polling, sample_lock) = (Probing, sample_lock)"
  "load_act Some Some 100000000 5 ''l'' ''k'' 0 (sample_input n) (Probing, sample_lock) = (Polling, sample_lock)"
  by (simp_all add: sample_input_def load_act_def cache_read_def r_get_def r_setnx_def r_set_def)

lemma sample_load_step:
  assumes "load_reach sample_load_config (sample_load loads db n)" "k < length loads"
    and "load_act Some Some 100000000 5 ''l'' ''k'' 0 (sample_input n) (loads ! k, db) = (p, db')"
  shows "load_reach sample_load_config (sample_load (loads[k := p]) db' (Suc n))"
  using load_step [OF assms(1), of k "sample_input n" p db'] assms(2,3)
  by (simp add: sample_load_def sample_load_config_def sample_input_def)

text \<open>Two executions: the first one fetches while the second one found the lock taken.\<close>

lemma sample_load_reach:
  "load_reach sample_load_config (sample_load [Fetching [CHR ''t''], Polling] sample_lock (Suc (Suc (Suc (Suc (Suc 0))))))"
proof -
  have "load_reach sample_load_config (sample_load [Polling, Polling] [] 0)"
    using load_call [OF load_call [OF load_start [of sample_load_config 0 "[]"]]] by (simp add: sample_load_def)
  from sample_load_step [OF this, of 0 Probing "[]"]
  have "load_reach sample_load_config (sample_load [Probing, Polling] [] (Suc 0))" by (simp add: sample_load_act)
  from sample_load_step [OF this, of 0 "Holding [CHR ''t'']" sample_lock]
  have "load_reach sample_load_config (sample_load [Holding [CHR ''t''], Polling] sample_lock (Suc (Suc 0)))" by (simp add: sample_load_act)
  from sample_load_step [OF this, of 0 "Fetching [CHR ''t'']" sample_lock]
  have "load_reach sample_load_config (sample_load [Fetching [CHR ''t''], Polling] sample_lock (Suc (Suc (Suc 0))))" by (simp add: sample_load_act)
  from sample_load_step [OF this, of 1 Probing sample_lock]
  have "load_reach sample_load_config (sample_load [Fetching [CHR ''t''], Probing] sample_lock (Suc (Suc (Suc (Suc 0)))))" by (simp add: sample_load_act)
  from sample_load_step [OF this, of 1 Polling sample_lock]
  show ?thesis by (simp add: sample_load_act)
qed

theorem one_fetcher_runs_per_key_witness:
  "length (filter fetches [Fetching [CHR ''t''], Polling :: string phase]) = 1
   \<and> r_get 0 sample_lock ''l'' = token_of (Fetching [CHR ''t''] :: string phase)"
proof -
  have "config_ok sample_load_config"
    by (simp add: config_ok_def sample_load_config_def inj_def replicate_eq_replicate)
  from one_fetcher_runs_per_key [OF this sample_load_reach] show ?thesis
    by (simp add: sample_load_def sample_load_config_def)
qed

text \<open>The check of the owner and the write of the value are two commands: an execution whose lock ran out in
  between writes all the same, here over the value of the next holder.\<close>

lemma stale_holder_overwrites:
  "load_act Some Some 100000000 5 ''l'' ''k'' 0 (sample_input 0) (Checked ''a'' ''old'', [(''l'', ''b'', 9), (''k'', ''new'', 9)])
     = (Releasing ''a'' (Inr ''old''), [(''l'', ''b'', 9), (''k'', ''old'', 5)])"
  by (simp add: load_act_def sample_input_def r_set_def)

end
