(* ===== verification/Orm.thy ===== *)
theory Orm
  imports Go_Strconv Go_Maps Complex_Main
begin

text \<open>
  \<^verbatim>\<open>dbcore/orm.go\<close> and the row scanner of \<^verbatim>\<open>dbcore/repository.go\<close>: what the mapper learns from a struct
  type, the statements it prints, and its operations on a table. A struct type is its list of fields, an
  entity the list of their values. Fields of one byte string each are ASCII.
\<close>

section \<open>Struct types and values\<close>

datatype go_kind =
    K_Int | K_Int8 | K_Int16 | K_Int32 | K_Int64 | K_Uint | K_Uint8 | K_Uint16 | K_Uint32 | K_Uint64
  | K_Float32 | K_Float64 | K_Bool | K_String | K_Time | K_Other

record orm_field =
  of_name :: string
  of_exported :: bool
  of_db :: string
  of_kind :: go_kind

datatype db_value = D_Int int | D_Text string | D_Bool bool | D_Time int | D_Float rat | D_Null

type_synonym entity = "db_value list"
type_synonym row = "(string \<times> db_value) list"

definition zero_of :: "go_kind \<Rightarrow> db_value" where
  "zero_of k =
     (case k of K_String \<Rightarrow> D_Text [] | K_Bool \<Rightarrow> D_Bool False | K_Time \<Rightarrow> D_Time 0
      | K_Float32 \<Rightarrow> D_Float 0 | K_Float64 \<Rightarrow> D_Float 0 | K_Other \<Rightarrow> D_Null | _ \<Rightarrow> D_Int 0)"

text \<open>\<^verbatim>\<open>toSnakeCase\<close>; its loop is shared with the one of the package \<^verbatim>\<open>config\<close>.\<close>

definition to_snake_case :: "string \<Rightarrow> string" where
  "to_snake_case s = to_lower (snake_loop None s)"

record struct_meta =
  sm_table :: string
  sm_pk_field :: string
  sm_pk_column :: string
  sm_columns :: "string list"
  sm_fields :: "(string \<times> nat) list"
  sm_auto_create :: "nat option"
  sm_auto_id :: string

definition tag_options :: "string \<Rightarrow> string list" where
  "tag_options tag = map trim_space (tl (split_byte CHR '','' tag))"

definition meta_option :: "nat \<Rightarrow> string \<Rightarrow> bool \<times> struct_meta \<Rightarrow> bool \<times> struct_meta" where
  "meta_option i x s =
     (case s of (pk, m) \<Rightarrow>
        if x = ''primary_key'' \<or> x = ''pk'' then (True, m)
        else if x = ''auto_create'' then (pk, m\<lparr>sm_auto_create := Some i\<rparr>)
        else if has_prefix x ''auto_id='' then (pk, m\<lparr>sm_auto_id := trim_prefix x ''auto_id=''\<rparr>)
        else s)"

definition meta_field :: "nat \<Rightarrow> orm_field \<Rightarrow> struct_meta \<Rightarrow> struct_meta" where
  "meta_field i f m =
     (if \<not> of_exported f \<or> of_db f = ''-'' then m
      else let col = (if of_db f = [] then to_snake_case (of_name f) else trim_space (hd (split_byte CHR '','' (of_db f))));
               (pk, m) = (if of_db f = [] then (False, m) else fold (meta_option i) (tag_options (of_db f)) (False, m));
               m = (if col = ''id'' \<or> pk then m\<lparr>sm_pk_field := of_name f, sm_pk_column := col\<rparr> else m)
           in m\<lparr>sm_columns := sm_columns m @ [col], sm_fields := AList.update col i (sm_fields m)\<rparr>)"

definition struct_meta_of :: "string \<Rightarrow> orm_field list \<Rightarrow> struct_meta" where
  "struct_meta_of type_name fs =
     (let m = fold (\<lambda>(i, f). meta_field i f) (enumerate 0 fs)
        \<lparr>sm_table = to_lower type_name @ ''s'', sm_pk_field = [], sm_pk_column = [], sm_columns = [], sm_fields = [],
         sm_auto_create = None, sm_auto_id = []\<rparr>
      in if sm_pk_column m = [] \<and> sm_columns m \<noteq> []
         then m\<lparr>sm_pk_column := hd (sm_columns m), sm_pk_field := of_name (hd fs)\<rparr> else m)"

section \<open>Statements\<close>

record orm =
  o_table :: string
  o_meta :: struct_meta
  o_conds :: "string list"
  o_args :: "db_value list"
  o_order :: string

definition new_orm :: "string \<Rightarrow> orm_field list \<Rightarrow> string list \<Rightarrow> orm" where
  "new_orm type_name fs names =
     (let m = struct_meta_of type_name fs
      in \<lparr>o_table = (case names of n # _ \<Rightarrow> if n \<noteq> [] then n else sm_table m | [] \<Rightarrow> sm_table m),
          o_meta = m, o_conds = [], o_args = [], o_order = []\<rparr>)"

definition dollar :: "nat \<Rightarrow> string" where "dollar n = CHR ''$'' # decimal n"

definition orm_where :: "string \<Rightarrow> db_value \<Rightarrow> orm \<Rightarrow> orm" where
  "orm_where field v q =
     q\<lparr>o_conds := o_conds q @ [if CHR '' '' \<notin> set field \<and> CHR ''='' \<notin> set field
                               then field @ '' = '' @ dollar (length (o_conds q) + 1) else field],
       o_args := o_args q @ [v]\<rparr>"

definition orm_order_by :: "string \<Rightarrow> orm \<Rightarrow> orm" where
  "orm_order_by clause q = q\<lparr>o_order := clause\<rparr>"

definition find_by_id_sql :: "orm \<Rightarrow> string" where
  "find_by_id_sql q = ''SELECT '' @ join_with '', '' (sm_columns (o_meta q)) @ '' FROM '' @ o_table q
     @ '' WHERE '' @ sm_pk_column (o_meta q) @ '' = $1 LIMIT 1''"

definition where_sql :: "orm \<Rightarrow> string" where
  "where_sql q = (if o_conds q = [] then [] else '' WHERE '' @ join_with '' AND '' (o_conds q))"

definition find_sql :: "orm \<Rightarrow> string" where
  "find_sql q = ''SELECT '' @ join_with '', '' (sm_columns (o_meta q)) @ '' FROM '' @ o_table q @ where_sql q
     @ (if o_order q = [] then [] else '' ORDER BY '' @ o_order q)"

definition count_sql :: "orm \<Rightarrow> string" where
  "count_sql q = ''SELECT COUNT(*) FROM '' @ o_table q @ where_sql q"

text \<open>\<^verbatim>\<open>Paginate\<close>: the page, its limit and the offset in 64 bits, and the two statements.\<close>

definition page_window :: "int \<Rightarrow> int \<Rightarrow> int \<times> int" where
  "page_window page limit =
     (let page = (if page < 1 then 1 else page); limit = (if limit < 1 then 20 else limit)
      in (limit, wrap64 ((page - 1) * limit)))"

definition page_sql :: "orm \<Rightarrow> string" where
  "page_sql q = find_sql q @ '' LIMIT '' @ dollar (length (o_args q) + 1) @ '' OFFSET '' @ dollar (length (o_args q) + 2)"

definition page_args :: "orm \<Rightarrow> int \<Rightarrow> int \<Rightarrow> db_value list" where
  "page_args q page limit = (case page_window page limit of (l, off) \<Rightarrow> o_args q @ [D_Int l, D_Int off])"

definition insert_sql :: "orm \<Rightarrow> string list \<Rightarrow> string" where
  "insert_sql q cols = ''INSERT INTO '' @ o_table q @ '' ('' @ join_with '', '' cols @ '') VALUES (''
     @ join_with '', '' (map (\<lambda>i. dollar (i + 1)) [0..<length cols]) @ '')''"

definition update_sql :: "orm \<Rightarrow> string list \<Rightarrow> string" where
  "update_sql q cols = ''UPDATE '' @ o_table q @ '' SET ''
     @ join_with '', '' (map (\<lambda>(i, c). c @ '' = '' @ dollar (i + 1)) (enumerate 0 cols))
     @ '' WHERE '' @ sm_pk_column (o_meta q) @ '' = '' @ dollar (length cols + 1)"

definition delete_sql :: "orm \<Rightarrow> string" where
  "delete_sql q = ''DELETE FROM '' @ o_table q @ '' WHERE '' @ sm_pk_column (o_meta q) @ '' = $1''"

section \<open>Tables\<close>

text \<open>What the printed statements do to a table, the list of its rows. How the database compares a column with
  an argument of another type, the key it gives to an inserted row and whether its driver reports it are parameters.\<close>

record table_env =
  te_eq :: "db_value \<Rightarrow> db_value \<Rightarrow> bool"
  te_fresh :: "row list \<Rightarrow> db_value"
  te_returns_key :: bool

definition col_of :: "row \<Rightarrow> string \<Rightarrow> db_value" where
  "col_of r c = (case map_of r c of None \<Rightarrow> D_Null | Some v \<Rightarrow> v)"

definition select_rows :: "table_env \<Rightarrow> string \<Rightarrow> db_value \<Rightarrow> row list \<Rightarrow> row list" where
  "select_rows env c v rows = filter (\<lambda>r. te_eq env (col_of r c) v) rows"

definition update_rows :: "table_env \<Rightarrow> (string \<times> db_value) list \<Rightarrow> string \<Rightarrow> db_value \<Rightarrow> row list \<Rightarrow> row list" where
  "update_rows env sets c v rows =
     map (\<lambda>r. if te_eq env (col_of r c) v then fold (\<lambda>(k, x). AList.update k x) sets r else r) rows"

definition delete_rows :: "table_env \<Rightarrow> string \<Rightarrow> db_value \<Rightarrow> row list \<Rightarrow> row list" where
  "delete_rows env c v rows = filter (\<lambda>r. \<not> te_eq env (col_of r c) v) rows"

section \<open>Operations\<close>

text \<open>\<^verbatim>\<open>scanStruct\<close>: a column fills the field whose name, folded, is the first part of the tag or, without a tag,
  the field name folded (and not in snake case).\<close>

definition scan_column :: "orm_field \<Rightarrow> string option" where
  "scan_column f =
     (if of_db f = ''-'' then None
      else Some (to_lower (if of_db f = [] then to_lower (of_name f) else trim_space (hd (split_byte CHR '','' (of_db f))))))"

definition scan_map :: "orm_field list \<Rightarrow> (string \<times> nat) list" where
  "scan_map fs = fold (\<lambda>(i, f) m. case scan_column f of None \<Rightarrow> m | Some c \<Rightarrow> AList.update c i m) (enumerate 0 fs) []"

definition scan_one :: "orm_field list \<Rightarrow> row \<Rightarrow> string \<Rightarrow> entity \<Rightarrow> entity" where
  "scan_one fs r col e =
     (case map_of (scan_map fs) (to_lower col) of
        None \<Rightarrow> e
      | Some i \<Rightarrow> if of_exported (fs ! i) then e[i := col_of r col] else e)"

definition scan_struct :: "orm_field list \<Rightarrow> string list \<Rightarrow> row \<Rightarrow> entity" where
  "scan_struct fs cols r = fold (scan_one fs r) cols (map (\<lambda>f. zero_of (of_kind f)) fs)"

definition find_by_id :: "table_env \<Rightarrow> orm_field list \<Rightarrow> orm \<Rightarrow> db_value \<Rightarrow> row list \<Rightarrow> entity option" where
  "find_by_id env fs q v rows =
     (case select_rows env (sm_pk_column (o_meta q)) v rows of
        [] \<Rightarrow> None
      | r # _ \<Rightarrow> Some (scan_struct fs (sm_columns (o_meta q)) r))"

text \<open>\<^verbatim>\<open>Paginate\<close> of a query with one equality; no order is asked for. A negative offset is an error of the database.\<close>

definition paginate_rows :: "table_env \<Rightarrow> orm_field list \<Rightarrow> orm \<Rightarrow> string \<Rightarrow> db_value \<Rightarrow> int \<Rightarrow> int \<Rightarrow> row list \<Rightarrow> (entity list \<times> nat) option" where
  "paginate_rows env fs q c v page limit rows =
     (case page_window page limit of
        (l, off) \<Rightarrow>
          if off < 0 then None
          else let found = select_rows env c v rows
               in Some (map (scan_struct fs (sm_columns (o_meta q))) (take (nat l) (drop (nat off) found)), length found))"

text \<open>The field of a name, the values of the columns but the key in the order of the field map.\<close>

definition field_index :: "orm_field list \<Rightarrow> string \<Rightarrow> nat option" where
  "field_index fs name = index_where (\<lambda>f. of_name f = name) fs"

definition set_columns :: "struct_meta \<Rightarrow> entity \<Rightarrow> (string \<times> db_value) list" where
  "set_columns m e = map (\<lambda>(c, i). (c, e ! i)) (filter (\<lambda>(c, i). c \<noteq> sm_pk_column m) (sm_fields m))"

text \<open>\<^verbatim>\<open>Save\<close> at time \<open>now\<close> with the generated ID \<open>auto\<close>: the entity it leaves and the table.\<close>

definition stamp_created :: "orm_field list \<Rightarrow> struct_meta \<Rightarrow> int \<Rightarrow> entity \<Rightarrow> entity" where
  "stamp_created fs m now e =
     (case sm_auto_create m of Some i \<Rightarrow> if of_kind (fs ! i) = K_Time then e[i := D_Time now] else e | None \<Rightarrow> e)"

definition fill_key :: "orm_field list \<Rightarrow> struct_meta \<Rightarrow> db_value \<Rightarrow> nat \<Rightarrow> entity \<Rightarrow> entity" where
  "fill_key fs m auto i e =
     (if e ! i = zero_of (of_kind (fs ! i)) \<and> sm_auto_id m \<noteq> [] \<and> of_exported (fs ! i)
      then (case (of_kind (fs ! i), auto) of
          (K_String, D_Text s) \<Rightarrow> e[i := D_Text s]
        | (K_Int64, D_Int n) \<Rightarrow> e[i := D_Int n]
        | _ \<Rightarrow> e)
      else e)"

definition insert_row :: "table_env \<Rightarrow> struct_meta \<Rightarrow> entity \<Rightarrow> row list \<Rightarrow> db_value \<times> row list" where
  "insert_row env m e rows =
     (let key = te_fresh env rows in (key, rows @ [(sm_pk_column m, key) # set_columns m e]))"

definition save :: "table_env \<Rightarrow> orm_field list \<Rightarrow> orm \<Rightarrow> int \<Rightarrow> db_value \<Rightarrow> entity \<Rightarrow> row list \<Rightarrow> entity \<times> row list" where
  "save env fs q now auto e rows =
     (let m = o_meta q; e = stamp_created fs m now e
      in case field_index fs (sm_pk_field m) of
           None \<Rightarrow> (e, snd (insert_row env m e rows))
         | Some i \<Rightarrow>
             (let e = fill_key fs m auto i e
              in if e ! i = zero_of (of_kind (fs ! i))
                 then (case insert_row env m e rows of
                     (key, rows) \<Rightarrow> (case key of
                         D_Int n \<Rightarrow> (if te_returns_key env \<and> of_exported (fs ! i) \<and> of_kind (fs ! i) = K_Int64 \<and> 0 < n then e[i := D_Int n] else e, rows)
                       | _ \<Rightarrow> (e, rows)))
                 else (e, update_rows env (set_columns m e) (sm_pk_column m) (e ! i) rows)))"

definition delete_entity :: "table_env \<Rightarrow> orm_field list \<Rightarrow> orm \<Rightarrow> entity \<Rightarrow> row list \<Rightarrow> row list" where
  "delete_entity env fs q e rows =
     (case field_index fs (sm_pk_field (o_meta q)) of
        None \<Rightarrow> rows
      | Some i \<Rightarrow> delete_rows env (sm_pk_column (o_meta q)) (e ! i) rows)"

end
