(* ===== verification/User_Resource.thy ===== *)
theory User_Resource
  imports Orm Context_Values Request_Params
begin

text \<open>
  \<^verbatim>\<open>user_resource.go\<close>: the routes \<^verbatim>\<open>BindUserResource\<close> mounts for a struct type, over the mapper of \<open>Orm\<close>. A
  handler takes the values of the request, its parameters and body and the table, and returns the answer and
  the table. Binding and validating a body are the arguments \<open>body\<close>.
\<close>

section \<open>Fields of the entity\<close>

definition owner_field :: "orm_field \<Rightarrow> bool" where
  "owner_field f \<longleftrightarrow>
     (of_name f = ''UserID'' \<or> contains_str (of_db f) ''user_id'' \<or> contains_str (of_db f) ''user_scope'')
     \<and> of_kind f \<in> {K_Int64, K_Int}"

definition get_user_id_from_struct :: "orm_field list \<Rightarrow> entity \<Rightarrow> db_value option" where
  "get_user_id_from_struct fs e = map_option (\<lambda>i. e ! i) (index_where owner_field fs)"

definition set_user_id_on_struct :: "orm_field list \<Rightarrow> int \<Rightarrow> entity \<Rightarrow> entity" where
  "set_user_id_on_struct fs u e =
     (case index_where (\<lambda>f. owner_field f \<and> of_exported f) fs of None \<Rightarrow> e | Some i \<Rightarrow> e[i := D_Int u])"

text \<open>\<^verbatim>\<open>fmt.Sscanf(s, "%d", &id)\<close>: leading spaces, a sign and digits are read; the rest is ignored and an
  unreadable or too large number leaves zero.\<close>

definition scan_decimal :: "string \<Rightarrow> int" where
  "scan_decimal s =
     (let s = dropWhile is_space s;
          (sign, rest) = (case s of c # cs \<Rightarrow> if c = CHR ''+'' \<or> c = CHR ''-'' then ([c], cs) else ([], s) | [] \<Rightarrow> ([], []))
      in case parse_int 64 (sign @ takeWhile is_digit rest) of Some n \<Rightarrow> n | None \<Rightarrow> 0)"

definition id_field :: "orm_field \<Rightarrow> bool" where
  "id_field f \<longleftrightarrow>
     (of_name f = ''ID'' \<or> contains_str (of_db f) ''pk'') \<and> of_exported f \<and> of_kind f \<in> {K_Int64, K_Int, K_String}"

definition set_id_on_struct :: "orm_field list \<Rightarrow> string \<Rightarrow> entity \<Rightarrow> entity" where
  "set_id_on_struct fs s e =
     (case index_where id_field fs of
        None \<Rightarrow> e
      | Some i \<Rightarrow> e[i := (if of_kind (fs ! i) = K_String then D_Text s else D_Int (scan_decimal s))])"

section \<open>Handlers\<close>

datatype user_reply =
    Reply_Page "entity list" int int nat | Reply_Entity int entity | Reply_Deleted string
  | Reply_Refused problem | Reply_Internal string

record resource_env =
  re_table :: table_env
  re_fields :: "orm_field list"
  re_orm :: orm
  re_now :: int
  re_auto :: db_value
  re_write_ok :: bool

definition not_found :: problem where "not_found = err_not_found ''Resource not found''"

definition user_list :: "resource_env \<Rightarrow> 'a ctx_values \<Rightarrow> (string \<Rightarrow> string list option) \<Rightarrow> row list \<Rightarrow> user_reply \<times> row list" where
  "user_list env ctx query rows =
     (case require_user_id ctx of
        Inl p \<Rightarrow> (Reply_Refused p, rows)
      | Inr u \<Rightarrow>
          (case get_page_and_limit query [20] of
             (page, limit) \<Rightarrow>
               (case paginate_rows (re_table env) (re_fields env) (re_orm env) ''user_id'' (D_Int u) page limit rows of
                  None \<Rightarrow> (Reply_Internal ''resource.list'', rows)
                | Some (items, n) \<Rightarrow> (Reply_Page items page limit n, rows))))"

text \<open>The lookup and the comparison of the owner that three of the handlers share.\<close>

definition owned_entity :: "resource_env \<Rightarrow> int \<Rightarrow> string \<Rightarrow> row list \<Rightarrow> entity option" where
  "owned_entity env u key rows =
     (case find_by_id (re_table env) (re_fields env) (re_orm env) (D_Text key) rows of
        None \<Rightarrow> None
      | Some e \<Rightarrow>
          (case get_user_id_from_struct (re_fields env) e of
             Some owner \<Rightarrow> if owner \<noteq> D_Int u then None else Some e
           | None \<Rightarrow> Some e))"

definition user_get :: "resource_env \<Rightarrow> 'a ctx_values \<Rightarrow> string \<Rightarrow> row list \<Rightarrow> user_reply \<times> row list" where
  "user_get env ctx key rows =
     (case require_user_id ctx of
        Inl p \<Rightarrow> (Reply_Refused p, rows)
      | Inr u \<Rightarrow>
          (case owned_entity env u key rows of
             None \<Rightarrow> (Reply_Refused not_found, rows)
           | Some e \<Rightarrow> (Reply_Entity 200 e, rows)))"

definition save_entity :: "resource_env \<Rightarrow> string \<Rightarrow> int \<Rightarrow> entity \<Rightarrow> row list \<Rightarrow> user_reply \<times> row list" where
  "save_entity env operation status e rows =
     (if \<not> re_write_ok env then (Reply_Internal operation, rows)
      else (case save (re_table env) (re_fields env) (re_orm env) (re_now env) (re_auto env) e rows of
          (e, rows) \<Rightarrow> (Reply_Entity status e, rows)))"

definition user_create :: "resource_env \<Rightarrow> 'a ctx_values \<Rightarrow> problem + entity \<Rightarrow> row list \<Rightarrow> user_reply \<times> row list" where
  "user_create env ctx body rows =
     (case require_user_id ctx of
        Inl p \<Rightarrow> (Reply_Refused p, rows)
      | Inr u \<Rightarrow>
          (case body of
             Inl p \<Rightarrow> (Reply_Refused p, rows)
           | Inr e \<Rightarrow> save_entity env ''resource.create'' 201 (set_user_id_on_struct (re_fields env) u e) rows))"

definition user_update :: "resource_env \<Rightarrow> 'a ctx_values \<Rightarrow> string \<Rightarrow> problem + entity \<Rightarrow> row list \<Rightarrow> user_reply \<times> row list" where
  "user_update env ctx key body rows =
     (case require_user_id ctx of
        Inl p \<Rightarrow> (Reply_Refused p, rows)
      | Inr u \<Rightarrow>
          (case owned_entity env u key rows of
             None \<Rightarrow> (Reply_Refused not_found, rows)
           | Some _ \<Rightarrow>
               (case body of
                  Inl p \<Rightarrow> (Reply_Refused p, rows)
                | Inr e \<Rightarrow>
                    save_entity env ''resource.update'' 200
                      (set_id_on_struct (re_fields env) key (set_user_id_on_struct (re_fields env) u e)) rows)))"

definition user_delete :: "resource_env \<Rightarrow> 'a ctx_values \<Rightarrow> string \<Rightarrow> row list \<Rightarrow> user_reply \<times> row list" where
  "user_delete env ctx key rows =
     (case require_user_id ctx of
        Inl p \<Rightarrow> (Reply_Refused p, rows)
      | Inr u \<Rightarrow>
          (case owned_entity env u key rows of
             None \<Rightarrow> (Reply_Refused not_found, rows)
           | Some e \<Rightarrow>
               if \<not> re_write_ok env then (Reply_Internal ''resource.delete'', rows)
               else (Reply_Deleted key, delete_entity (re_table env) (re_fields env) (re_orm env) e rows)))"

datatype user_op =
    List_Own "string \<Rightarrow> string list option" | Get_One string | Create_One "problem + entity"
  | Update_One string "problem + entity" | Delete_One string

definition user_request :: "resource_env \<Rightarrow> 'a ctx_values \<Rightarrow> user_op \<Rightarrow> row list \<Rightarrow> user_reply \<times> row list" where
  "user_request env ctx request rows =
     (case request of
        List_Own query \<Rightarrow> user_list env ctx query rows
      | Get_One key \<Rightarrow> user_get env ctx key rows
      | Create_One body \<Rightarrow> user_create env ctx body rows
      | Update_One key body \<Rightarrow> user_update env ctx key body rows
      | Delete_One key \<Rightarrow> user_delete env ctx key rows)"

section \<open>Types with an owner\<close>

text \<open>The mapper and the scanner agree on the field \<open>oi\<close> of the owner and the field \<open>ki\<close> of an integer key.\<close>

definition scans :: "orm_field list \<Rightarrow> string list \<Rightarrow> string \<Rightarrow> nat \<Rightarrow> bool" where
  "scans fs cols c i \<longleftrightarrow>
     c \<in> set cols \<and> i < length fs \<and> of_exported (fs ! i)
     \<and> list_all (\<lambda>d. map_of (scan_map fs) (to_lower d) = Some i \<longleftrightarrow> d = c) cols"

definition scoped_type :: "resource_env \<Rightarrow> nat \<Rightarrow> nat \<Rightarrow> bool" where
  "scoped_type env oi ki \<longleftrightarrow>
     (let fs = re_fields env; m = o_meta (re_orm env) in
      index_where owner_field fs = Some oi \<and> scans fs (sm_columns m) ''user_id'' oi \<and> map_of (sm_fields m) ''user_id'' = Some oi
      \<and> index_where id_field fs = Some ki \<and> field_index fs (sm_pk_field m) = Some ki \<and> scans fs (sm_columns m) (sm_pk_column m) ki
      \<and> of_kind (fs ! ki) \<in> {K_Int64, K_Int} \<and> sm_pk_column m \<noteq> ''user_id'' \<and> sm_auto_id m = [] \<and> sm_auto_create m = None
      \<and> distinct (map fst (sm_fields m)))"

text \<open>The database compares integers as integers, and a text equals an integer column only when the scanner
  reads that integer from it.\<close>

definition compares :: "table_env \<Rightarrow> bool" where
  "compares env \<longleftrightarrow>
     (\<forall>a b. te_eq env (D_Int a) (D_Int b) \<longleftrightarrow> a = b) \<and> (\<forall>a s. te_eq env (D_Int a) (D_Text s) \<longrightarrow> scan_decimal s = a)"

definition table_ok :: "string \<Rightarrow> row list \<Rightarrow> bool" where
  "table_ok pk rows \<longleftrightarrow>
     distinct (map (\<lambda>r. col_of r pk) rows)
     \<and> (\<forall>r\<in>set rows. (\<exists>n. col_of r pk = D_Int n \<and> n \<noteq> 0) \<and> (\<exists>u. col_of r ''user_id'' = D_Int u))"

section \<open>Facts\<close>

lemma length_scan_one [simp]: "length (scan_one fs r d e) = length e"
  by (simp add: scan_one_def split: option.split)

lemma scan_fold:
  assumes "\<forall>d\<in>set ds. map_of (scan_map fs) (to_lower d) = Some i \<longleftrightarrow> d = c" "i < length e" "of_exported (fs ! i)"
  shows "fold (scan_one fs r) ds e ! i = (if c \<in> set ds then col_of r c else e ! i)"
  using assms
proof (induction ds arbitrary: e)
  case (Cons d ds)
  have one: "scan_one fs r d e ! i = (if d = c then col_of r c else e ! i)"
  proof (cases "d = c")
    case True
    then have "map_of (scan_map fs) (to_lower d) = Some i" using Cons.prems(1) by simp
    then show ?thesis using Cons.prems True by (simp add: scan_one_def)
  next
    case False
    then have "map_of (scan_map fs) (to_lower d) \<noteq> Some i" using Cons.prems(1) by simp
    then show ?thesis using False by (auto simp: scan_one_def split: option.split)
  qed
  have "fold (scan_one fs r) ds (scan_one fs r d e) ! i = (if c \<in> set ds then col_of r c else scan_one fs r d e ! i)"
    by (rule Cons.IH) (use Cons.prems in auto)
  then show ?case using one by (cases "d = c") simp_all
qed simp

lemma scan_struct_nth: "scans fs cols c i \<Longrightarrow> scan_struct fs cols r ! i = col_of r c"
  using scan_fold [of cols fs i c "map (\<lambda>f. zero_of (of_kind f)) fs" r]
  by (simp add: scans_def scan_struct_def list_all_iff)

definition foreign :: "int \<Rightarrow> row \<Rightarrow> bool" where
  "foreign u r \<longleftrightarrow> col_of r ''user_id'' \<noteq> D_Int u"

lemma owned_entity_Some:
  assumes "scoped_type env oi ki" "owned_entity env u key rows = Some e"
  obtains r where "r \<in> set rows" "te_eq (re_table env) (col_of r (sm_pk_column (o_meta (re_orm env)))) (D_Text key)"
    "col_of r ''user_id'' = D_Int u" "e = scan_struct (re_fields env) (sm_columns (o_meta (re_orm env))) r"
    "e ! oi = D_Int u" "e ! ki = col_of r (sm_pk_column (o_meta (re_orm env)))"
proof -
  obtain r rs where r: "select_rows (re_table env) (sm_pk_column (o_meta (re_orm env))) (D_Text key) rows = r # rs"
      and e: "e = scan_struct (re_fields env) (sm_columns (o_meta (re_orm env))) r"
    using assms(2) by (auto simp: owned_entity_def find_by_id_def split: list.splits option.splits if_splits)
  have own: "e ! oi = D_Int u"
    using assms by (auto simp: owned_entity_def scoped_type_def get_user_id_from_struct_def Let_def split: option.splits if_splits)
  have scan: "e ! oi = col_of r ''user_id''" "e ! ki = col_of r (sm_pk_column (o_meta (re_orm env)))"
    using assms(1) by (auto simp: e scoped_type_def Let_def intro!: scan_struct_nth)
  have "r \<in> set (select_rows (re_table env) (sm_pk_column (o_meta (re_orm env))) (D_Text key) rows)" by (simp add: r)
  then show thesis using that [of r] e own scan by (simp add: select_rows_def)
qed

lemma col_of_update: "col_of (AList.update k v r) c = (if c = k then v else col_of r c)"
  by (simp add: col_of_def update_conv')

lemma col_of_sets: "distinct (map fst sets) \<Longrightarrow>
    col_of (fold (\<lambda>(k, x). AList.update k x) sets r) c = (case map_of sets c of Some v \<Rightarrow> v | None \<Rightarrow> col_of r c)"
proof (induction sets arbitrary: r)
  case (Cons p sets)
  obtain k v where p: "p = (k, v)" by fastforce
  have "k \<notin> dom (map_of sets)" using Cons.prems by (simp add: p dom_map_of_conv_image_fst)
  then have k: "map_of sets k = None" by auto
  show ?case using Cons.IH [of "AList.update k v r"] Cons.prems k by (simp add: p col_of_update split: option.split)
qed simp

text \<open>A statement that touches only own rows keeps the foreign ones.\<close>

lemma update_keeps_foreign:
  assumes "\<forall>r\<in>set rows. te_eq env (col_of r c) v \<longrightarrow> \<not> foreign u r"
    and "\<And>r. col_of (fold (\<lambda>(k, x). AList.update k x) sets r) ''user_id'' = D_Int u"
  shows "filter (foreign u) (update_rows env sets c v rows) = filter (foreign u) rows"
  using assms(1)
  by (induction rows) (auto simp: update_rows_def foreign_def assms(2))

lemma delete_keeps_foreign:
  assumes "\<forall>r\<in>set rows. te_eq env (col_of r c) v \<longrightarrow> \<not> foreign u r"
  shows "filter (foreign u) (delete_rows env c v rows) = filter (foreign u) rows"
  using assms by (induction rows) (auto simp: delete_rows_def)

lemma index_where_conj: "index_where P xs = Some i \<Longrightarrow> Q (xs ! i) \<Longrightarrow> index_where (\<lambda>x. P x \<and> Q x) xs = Some i"
  by (auto simp: index_where_Some)

lemma scoped_typeD:
  assumes "scoped_type env oi ki"
  shows "oi \<noteq> ki" "ki < length (re_fields env)" "oi < length (re_fields env)"
    and "map_of (set_columns (o_meta (re_orm env)) e) ''user_id'' = Some (e ! oi)"
    and "distinct (map fst (set_columns (o_meta (re_orm env)) e))"
    and "set_user_id_on_struct (re_fields env) u e = e[oi := D_Int u]"
    and "set_id_on_struct (re_fields env) key e = e[ki := D_Int (scan_decimal key)]"
proof -
  let ?fs = "re_fields env" and ?m = "o_meta (re_orm env)"
  have own: "index_where owner_field ?fs = Some oi" "scans ?fs (sm_columns ?m) ''user_id'' oi"
      and key: "index_where id_field ?fs = Some ki" "scans ?fs (sm_columns ?m) (sm_pk_column ?m) ki" "of_kind (?fs ! ki) \<in> {K_Int64, K_Int}"
      and ne: "sm_pk_column ?m \<noteq> ''user_id''" and uid: "map_of (sm_fields ?m) ''user_id'' = Some oi" "distinct (map fst (sm_fields ?m))"
    using assms by (simp_all add: scoped_type_def Let_def)
  show "oi \<noteq> ki" using own(2) key(2) ne by (auto simp: scans_def list_all_iff)
  show "ki < length ?fs" "oi < length ?fs" using own(2) key(2) by (simp_all add: scans_def)
  have cols: "map fst (set_columns ?m e) = filter (\<lambda>c. c \<noteq> sm_pk_column ?m) (map fst (sm_fields ?m))"
    by (simp add: set_columns_def filter_map comp_def split_def)
  show dist: "distinct (map fst (set_columns ?m e))" using uid(2) by (simp only: cols distinct_filter)
  have "(''user_id'', oi) \<in> set (sm_fields ?m)" using uid(1) by (rule map_of_SomeD)
  then have "(''user_id'', e ! oi) \<in> set (set_columns ?m e)" using ne by (force simp: set_columns_def)
  then show "map_of (set_columns ?m e) ''user_id'' = Some (e ! oi)" using dist by (simp add: map_of_eq_Some_iff)
  have "index_where (\<lambda>f. owner_field f \<and> of_exported f) ?fs = Some oi"
    using index_where_conj [OF own(1)] own(2) by (simp add: scans_def)
  then show "set_user_id_on_struct ?fs u e = e[oi := D_Int u]" by (simp add: set_user_id_on_struct_def)
  show "set_id_on_struct ?fs key e = e[ki := D_Int (scan_decimal key)]"
    using key(1,3) by (auto simp: set_id_on_struct_def)
qed

lemma save_scoped:
  assumes "scoped_type env oi ki"
  shows "save (re_table env) (re_fields env) (re_orm env) now auto e rows =
    (if e ! ki = D_Int 0
     then (case insert_row (re_table env) (o_meta (re_orm env)) e rows of
         (key, rows) \<Rightarrow> (case key of
             D_Int n \<Rightarrow> (if te_returns_key (re_table env) \<and> of_kind (re_fields env ! ki) = K_Int64 \<and> 0 < n then e[ki := D_Int n] else e, rows)
           | _ \<Rightarrow> (e, rows)))
     else (e, update_rows (re_table env) (set_columns (o_meta (re_orm env)) e) (sm_pk_column (o_meta (re_orm env))) (e ! ki) rows))"
proof -
  have "sm_auto_id (o_meta (re_orm env)) = []" "sm_auto_create (o_meta (re_orm env)) = None"
      "field_index (re_fields env) (sm_pk_field (o_meta (re_orm env))) = Some ki"
      "of_kind (re_fields env ! ki) \<in> {K_Int64, K_Int}" "of_exported (re_fields env ! ki)"
    using assms by (auto simp: scoped_type_def Let_def scans_def)
  then show ?thesis
    by (auto simp: save_def Let_def stamp_created_def fill_key_def zero_of_def split: prod.splits db_value.splits)
qed

text \<open>Saving an own entity whose key is zero, or names an own row only.\<close>

lemma save_keeps_foreign:
  assumes "scoped_type env oi ki" "e ! oi = D_Int u"
    and "e ! ki \<noteq> D_Int 0 \<Longrightarrow> \<forall>r\<in>set rows. te_eq (re_table env) (col_of r (sm_pk_column (o_meta (re_orm env)))) (e ! ki) \<longrightarrow> \<not> foreign u r"
    and "save (re_table env) (re_fields env) (re_orm env) now auto e rows = (e', rows')"
  shows "filter (foreign u) rows' = filter (foreign u) rows \<and> e' ! oi = D_Int u"
proof -
  let ?m = "o_meta (re_orm env)"
  note t = scoped_typeD [OF assms(1)]
  have own: "col_of (fold (\<lambda>(k, x). AList.update k x) (set_columns ?m e) r) ''user_id'' = D_Int u" for r
    unfolding col_of_sets [OF t(5)] t(4) option.case by (rule assms(2))
  show ?thesis
  proof (cases "e ! ki = D_Int 0")
    case True
    have ne: "sm_pk_column ?m \<noteq> ''user_id''" using assms(1) by (simp add: scoped_type_def Let_def)
    have new: "\<not> foreign u ((sm_pk_column ?m, key) # set_columns ?m e)" for key
      unfolding foreign_def col_of_def map_of.simps using ne t(4) [of e] assms(2) by (simp del: map_of_eq_Some_iff)
    have "rows' = snd (insert_row (re_table env) ?m e rows)" "e' ! oi = e ! oi"
      using assms(4) True t(1) by (auto simp: save_scoped [OF assms(1)] insert_row_def Let_def split: db_value.splits if_splits)
    then show ?thesis using new assms(2) by (simp add: insert_row_def Let_def)
  next
    case False
    then show ?thesis
      using assms(2,4) update_keeps_foreign [OF assms(3) [OF False] own] by (auto simp: save_scoped [OF assms(1)])
  qed
qed

lemma table_row:
  assumes "table_ok pk rows" "r \<in> set rows"
  obtains n w where "col_of r pk = D_Int n" "n \<noteq> 0" "col_of r ''user_id'' = D_Int w"
  using assms by (auto simp: table_ok_def)

lemma same_key:
  assumes "table_ok pk rows" "r \<in> set rows" "r' \<in> set rows" "col_of r pk = col_of r' pk"
  shows "r = r'"
  using assms unfolding table_ok_def distinct_map inj_on_def by blast

text \<open>The rows a statement by the key of an owned entity touches are that entity's row only.\<close>

lemma own_key_rows:
  assumes "compares env" "table_ok pk rows" "r \<in> set rows" "\<not> foreign u r"
  shows "\<forall>r'\<in>set rows. te_eq env (col_of r' pk) (col_of r pk) \<longrightarrow> \<not> foreign u r'"
proof (intro ballI impI)
  fix r' assume r': "r' \<in> set rows" "te_eq env (col_of r' pk) (col_of r pk)"
  obtain n w where "col_of r pk = D_Int n" by (rule table_row [OF assms(2,3)])
  moreover obtain n' w' where "col_of r' pk = D_Int n'" by (rule table_row [OF assms(2) r'(1)])
  ultimately have "col_of r' pk = col_of r pk" using r'(2) assms(1) by (simp add: compares_def)
  then show "\<not> foreign u r'" using same_key [OF assms(2) r'(1) assms(3)] assms(4) by simp
qed

definition shown :: "user_reply \<Rightarrow> entity list" where
  "shown reply = (case reply of Reply_Page es p l n \<Rightarrow> es | Reply_Entity c e \<Rightarrow> [e] | _ \<Rightarrow> [])"

lemma shown_simps [simp]:
  "shown (Reply_Page es p l n) = es" "shown (Reply_Entity c e) = [e]" "shown (Reply_Refused x) = []"
  "shown (Reply_Internal s) = []" "shown (Reply_Deleted s) = []"
  by (simp_all add: shown_def)

definition body_ok :: "nat \<Rightarrow> nat \<Rightarrow> user_op \<Rightarrow> bool" where
  "body_ok n ki request =
     (case request of
        Create_One (Inr e) \<Rightarrow> length e = n \<and> e ! ki = D_Int 0
      | Update_One key (Inr e) \<Rightarrow> length e = n
      | _ \<Rightarrow> True)"

definition isolated :: "nat \<Rightarrow> int \<Rightarrow> row list \<Rightarrow> user_reply \<times> row list \<Rightarrow> bool" where
  "isolated oi u rows answer \<longleftrightarrow>
     (\<forall>e\<in>set (shown (fst answer)). e ! oi = D_Int u) \<and> filter (foreign u) (snd answer) = filter (foreign u) rows"

lemma user_list_isolated:
  assumes "scoped_type env oi ki" "compares (re_table env)" "table_ok pk rows" "require_user_id ctx = Inr u"
  shows "isolated oi u rows (user_list env ctx query rows)"
proof -
  have "scan_struct (re_fields env) (sm_columns (o_meta (re_orm env))) r ! oi = D_Int u"
    if r: "r \<in> set rows" "te_eq (re_table env) (col_of r ''user_id'') (D_Int u)" for r
  proof -
    obtain n w where "col_of r ''user_id'' = D_Int w" by (rule table_row [OF assms(3) r(1)])
    then show ?thesis
      using r(2) assms(1,2) scan_struct_nth [of "re_fields env" "sm_columns (o_meta (re_orm env))" "''user_id''" oi r]
      by (simp add: compares_def scoped_type_def Let_def)
  qed
  then show ?thesis
    using assms(4)
    by (auto simp: isolated_def user_list_def paginate_rows_def select_rows_def Let_def split: prod.splits option.splits
        dest!: in_set_takeD in_set_dropD)
qed

lemma user_create_isolated:
  assumes "scoped_type env oi ki" "require_user_id ctx = Inr u" "body_ok (length (re_fields env)) ki (Create_One body)"
  shows "isolated oi u rows (user_create env ctx body rows)"
proof (cases body)
  case (Inr e)
  let ?e = "e[oi := D_Int u]"
  note t = scoped_typeD [OF assms(1)]
  have own: "?e ! oi = D_Int u" "?e ! ki = D_Int 0" using assms(3) Inr t(1-3) by (auto simp: body_ok_def)
  obtain e' rows' where sv: "save (re_table env) (re_fields env) (re_orm env) (re_now env) (re_auto env) ?e rows = (e', rows')"
    by fastforce
  show ?thesis
    using save_keeps_foreign [OF assms(1) own(1) _ sv] own(2) sv assms(2) Inr
    by (simp add: isolated_def user_create_def save_entity_def t(6))
qed (use assms(2) in \<open>simp add: isolated_def user_create_def\<close>)

lemma user_update_isolated:
  assumes "scoped_type env oi ki" "compares (re_table env)" "table_ok (sm_pk_column (o_meta (re_orm env))) rows"
    "require_user_id ctx = Inr u" "body_ok (length (re_fields env)) ki (Update_One key body)"
  shows "isolated oi u rows (user_update env ctx key body rows)"
proof (cases "owned_entity env u key rows")
  case (Some x)
  show ?thesis
  proof (cases body)
    case (Inr e)
    let ?e = "e[oi := D_Int u, ki := D_Int (scan_decimal key)]" and ?pk = "sm_pk_column (o_meta (re_orm env))"
    note t = scoped_typeD [OF assms(1)]
    obtain r where r: "r \<in> set rows" "te_eq (re_table env) (col_of r ?pk) (D_Text key)" "col_of r ''user_id'' = D_Int u"
      by (rule owned_entity_Some [OF assms(1) Some])
    obtain n w where "col_of r ?pk = D_Int n" by (rule table_row [OF assms(3) r(1)])
    then have key: "col_of r ?pk = D_Int (scan_decimal key)" using r(2) assms(2) by (auto simp: compares_def)
    have own: "?e ! oi = D_Int u" "?e ! ki = D_Int (scan_decimal key)" using assms(5) Inr t(1-3) by (auto simp: body_ok_def)
    have touched: "\<forall>r'\<in>set rows. te_eq (re_table env) (col_of r' ?pk) (?e ! ki) \<longrightarrow> \<not> foreign u r'"
      using own_key_rows [OF assms(2,3) r(1), of u] r(3) unfolding own(2) key by (simp add: foreign_def)
    obtain e' rows' where sv: "save (re_table env) (re_fields env) (re_orm env) (re_now env) (re_auto env) ?e rows = (e', rows')"
      by fastforce
    show ?thesis
      using save_keeps_foreign [OF assms(1) own(1) touched sv] sv assms(4) Inr Some
      by (simp add: isolated_def user_update_def save_entity_def t(6,7))
  qed (use Some assms(4) in \<open>simp add: isolated_def user_update_def\<close>)
qed (use assms(4) in \<open>simp add: isolated_def user_update_def\<close>)

lemma user_delete_isolated:
  assumes "scoped_type env oi ki" "compares (re_table env)" "table_ok (sm_pk_column (o_meta (re_orm env))) rows"
    "require_user_id ctx = Inr u"
  shows "isolated oi u rows (user_delete env ctx key rows)"
proof (cases "owned_entity env u key rows")
  case (Some e)
  let ?pk = "sm_pk_column (o_meta (re_orm env))"
  obtain r where r: "r \<in> set rows" "col_of r ''user_id'' = D_Int u" "e ! ki = col_of r ?pk"
    by (rule owned_entity_Some [OF assms(1) Some])
  have "field_index (re_fields env) (sm_pk_field (o_meta (re_orm env))) = Some ki" using assms(1) by (simp add: scoped_type_def Let_def)
  moreover have "filter (foreign u) (delete_rows (re_table env) ?pk (e ! ki) rows) = filter (foreign u) rows"
    by (rule delete_keeps_foreign) (use own_key_rows [OF assms(2,3) r(1), of u] r in \<open>simp add: foreign_def\<close>)
  ultimately show ?thesis using Some assms(4) by (simp add: isolated_def user_delete_def delete_entity_def)
qed (use assms(4) in \<open>simp add: isolated_def user_delete_def\<close>)

lemma user_get_isolated:
  assumes "scoped_type env oi ki" "require_user_id ctx = Inr u"
  shows "isolated oi u rows (user_get env ctx key rows)"
proof (cases "owned_entity env u key rows")
  case (Some e)
  have "e ! oi = D_Int u" by (rule owned_entity_Some [OF assms(1) Some])
  then show ?thesis using Some assms(2) by (simp add: isolated_def user_get_def)
qed (use assms(2) in \<open>simp add: isolated_def user_get_def\<close>)

section \<open>Properties\<close>

text \<open>C12. For an entity type whose owner and integer key the mapper and the scanner agree on, no request of a user
  shows or changes a row of another user: every entity of an answer is the user's own, and the rows of others
  are the same before and after, provided that a body that creates an entity does not name its key.\<close>

theorem users_cannot_reach_foreign_rows:
  assumes "scoped_type env oi ki" "compares (re_table env)" "table_ok (sm_pk_column (o_meta (re_orm env))) rows"
    and "require_user_id ctx = Inr u" "body_ok (length (re_fields env)) ki request"
    and "user_request env ctx request rows = (reply, rows')"
  shows "(\<forall>e\<in>set (shown reply). e ! oi = D_Int u)
    \<and> filter (\<lambda>r. col_of r ''user_id'' \<noteq> D_Int u) rows' = filter (\<lambda>r. col_of r ''user_id'' \<noteq> D_Int u) rows"
proof -
  have "isolated oi u rows (user_request env ctx request rows)"
  proof (cases request)
    case (List_Own query)
    then show ?thesis using user_list_isolated [OF assms(1-4)] by (simp add: user_request_def)
  next
    case (Get_One key)
    then show ?thesis using user_get_isolated [OF assms(1,4)] by (simp add: user_request_def)
  next
    case (Create_One body)
    then show ?thesis using user_create_isolated [OF assms(1,4)] assms(5) by (simp add: user_request_def)
  next
    case (Update_One key body)
    then show ?thesis using user_update_isolated [OF assms(1-4)] assms(5) by (simp add: user_request_def)
  next
    case (Delete_One key)
    then show ?thesis using user_delete_isolated [OF assms(1-4)] by (simp add: user_request_def)
  qed
  then show ?thesis using assms(6) by (simp add: isolated_def foreign_def [abs_def])
qed

text \<open>The condition on a created entity is needed: \<^verbatim>\<open>POST\<close> saves a body that names a key as an update of
  that row, whoever owns it. Afterwards the row belongs to the user who posted it, with the posted content.\<close>

theorem posted_key_takes_over_the_row:
  assumes "scoped_type env oi ki" "compares (re_table env)" "table_ok (sm_pk_column (o_meta (re_orm env))) rows"
    and "require_user_id ctx = Inr u" "re_write_ok env" "length e = length (re_fields env)" "e ! ki = D_Int n" "n \<noteq> 0"
    and "user_request env ctx (Create_One (Inr e)) rows = (reply, rows')"
  shows "length rows' = length rows
    \<and> (\<forall>k<length rows. col_of (rows ! k) (sm_pk_column (o_meta (re_orm env))) = D_Int n \<longrightarrow>
         col_of (rows' ! k) ''user_id'' = D_Int u)"
proof -
  let ?pk = "sm_pk_column (o_meta (re_orm env))" and ?e = "e[oi := D_Int u]"
  note t = scoped_typeD [OF assms(1)]
  have own: "?e ! oi = D_Int u" "?e ! ki = D_Int n" using assms(6,7) t(1-3) by auto
  have "rows' = update_rows (re_table env) (set_columns (o_meta (re_orm env)) ?e) ?pk (D_Int n) rows"
    using assms(4,5,8,9) own by (simp add: user_request_def user_create_def save_entity_def t(6) save_scoped [OF assms(1)])
  moreover have "col_of (fold (\<lambda>(k, x). AList.update k x) (set_columns (o_meta (re_orm env)) ?e) r) ''user_id'' = D_Int u" for r
    unfolding col_of_sets [OF t(5)] t(4) option.case by (rule own(1))
  ultimately show ?thesis using assms(2) by (simp add: update_rows_def compares_def)
qed

definition sample_note :: "orm_field list" where
  "sample_note =
     [\<lparr>of_name = ''ID'', of_exported = True, of_db = ''id,pk'', of_kind = K_Int64\<rparr>,
      \<lparr>of_name = ''UserID'', of_exported = True, of_db = ''user_id'', of_kind = K_Int64\<rparr>,
      \<lparr>of_name = ''Text'', of_exported = True, of_db = ''text'', of_kind = K_String\<rparr>]"

definition sample_eq :: "db_value \<Rightarrow> db_value \<Rightarrow> bool" where
  "sample_eq a b = (case (a, b) of (D_Int x, D_Text s) \<Rightarrow> scan_decimal s = x | _ \<Rightarrow> a = b)"

definition sample_resource :: resource_env where
  "sample_resource = \<lparr>re_table = \<lparr>te_eq = sample_eq, te_fresh = (\<lambda>rows. D_Int (int (length rows) + 1)), te_returns_key = True\<rparr>,
     re_fields = sample_note, re_orm = new_orm ''Note'' sample_note [], re_now = 0, re_auto = D_Null, re_write_ok = True\<rparr>"

lemma sample_meta:
  "struct_meta_of ''Note'' sample_note =
     \<lparr>sm_table = ''notes'', sm_pk_field = ''ID'', sm_pk_column = ''id'', sm_columns = [''id'', ''user_id'', ''text''],
      sm_fields = [(''id'', 0), (''user_id'', 1), (''text'', 2)], sm_auto_create = None, sm_auto_id = []\<rparr>"
  by code_simp

lemma sample_scan: "scan_map sample_note = [(''id'', 0), (''user_id'', 1), (''text'', 2)]"
  by code_simp

lemma sample_orm [simp]: "o_meta (re_orm sample_resource) = struct_meta_of ''Note'' sample_note"
  "re_fields sample_resource = sample_note"
  by (simp_all add: sample_resource_def new_orm_def Let_def)

lemma sample_indices: "index_where owner_field sample_note = Some 1" "index_where id_field sample_note = Some 0"
    "field_index sample_note ''ID'' = Some 0"
  by code_simp+

lemma sample_scoped: "scoped_type sample_resource 1 0"
  by (simp add: scoped_type_def sample_meta sample_indices scans_def sample_scan to_lower_def)
    (simp add: sample_note_def lower_char_def)

definition sample_rows :: "row list" where
  "sample_rows = [[(''id'', D_Int 1), (''user_id'', D_Int 9), (''text'', D_Text ''a'')],
                  [(''id'', D_Int 2), (''user_id'', D_Int 7), (''text'', D_Text ''b'')]]"

definition sample_user :: "unit ctx_values" where
  "sample_user = [(''user_id'', Int_Val 7)]"

lemma length_sample_note [simp]: "length sample_note = 3"
  by (simp add: sample_note_def)

lemma sample_facts:
  "compares (re_table sample_resource)" "table_ok (sm_pk_column (o_meta (re_orm sample_resource))) sample_rows"
  "require_user_id sample_user = Inr 7" "re_write_ok sample_resource" "length (re_fields sample_resource) = 3"
  by (simp_all add: compares_def sample_meta table_ok_def sample_rows_def col_of_def require_user_id_def user_id_def
      sample_user_def get_int64_def ctx_get_def)
    (simp_all add: sample_resource_def sample_eq_def)

theorem users_cannot_reach_foreign_rows_witness:
  "\<exists>reply rows'. user_request sample_resource sample_user (Update_One ''1'' (Inr [D_Int 1, D_Int 7, D_Text ''x''])) sample_rows = (reply, rows')
     \<and> filter (\<lambda>r. col_of r ''user_id'' \<noteq> D_Int 7) rows' = [hd sample_rows]"
proof -
  obtain reply rows' where run: "user_request sample_resource sample_user (Update_One ''1'' (Inr [D_Int 1, D_Int 7, D_Text ''x''])) sample_rows = (reply, rows')"
    by fastforce
  have "body_ok (length (re_fields sample_resource)) 0 (Update_One ''1'' (Inr [D_Int 1, D_Int 7, D_Text ''x'']))"
    unfolding sample_facts by (simp add: body_ok_def)
  from users_cannot_reach_foreign_rows [OF sample_scoped sample_facts(1-3) this run]
  have "filter (\<lambda>r. col_of r ''user_id'' \<noteq> D_Int 7) rows' = [hd sample_rows]"
    by (simp add: sample_rows_def col_of_def)
  then show ?thesis using run by blast
qed

theorem posted_key_takes_over_the_row_witness:
  "\<exists>reply rows'. user_request sample_resource sample_user (Create_One (Inr [D_Int 1, D_Int 0, D_Text ''x''])) sample_rows = (reply, rows')
     \<and> col_of (sample_rows ! 0) ''user_id'' = D_Int 9 \<and> col_of (rows' ! 0) ''user_id'' = D_Int 7"
proof -
  obtain reply rows' where run: "user_request sample_resource sample_user (Create_One (Inr [D_Int 1, D_Int 0, D_Text ''x''])) sample_rows = (reply, rows')"
    by fastforce
  have "length [D_Int 1, D_Int 0, D_Text ''x''] = length (re_fields sample_resource)" unfolding sample_facts by simp
  from posted_key_takes_over_the_row [OF sample_scoped sample_facts(1-4) this _ _ run, of 1]
  have "col_of (rows' ! 0) ''user_id'' = D_Int 7"
    by (simp add: sample_rows_def col_of_def sample_meta)
  then show ?thesis using run by (auto simp: sample_rows_def col_of_def)
qed

text \<open>A field without a tag is selected by its name in snake case but scanned by its folded name, so the mapper
  never fills a field such as \<^verbatim>\<open>FirstName\<close>.\<close>

lemma untagged_field_is_not_loaded:
  "scan_struct [\<lparr>of_name = ''ID'', of_exported = True, of_db = [], of_kind = K_Int64\<rparr>,
      \<lparr>of_name = ''FirstName'', of_exported = True, of_db = [], of_kind = K_String\<rparr>] [''id'', ''first_name'']
     [(''id'', D_Int 1), (''first_name'', D_Text ''Ada'')] = [D_Int 1, D_Text []]"
  "sm_columns (struct_meta_of ''User'' [\<lparr>of_name = ''ID'', of_exported = True, of_db = [], of_kind = K_Int64\<rparr>,
      \<lparr>of_name = ''FirstName'', of_exported = True, of_db = [], of_kind = K_String\<rparr>]) = [''id'', ''first_name'']"
  by code_simp+

text \<open>With a generated key \<^verbatim>\<open>Save\<close> never inserts: the key it fills in makes the entity look stored, so it runs an
  update that finds no row.\<close>

lemma generated_key_is_never_inserted:
  assumes "sm_auto_create (o_meta q) = None" "field_index fs (sm_pk_field (o_meta q)) = Some i" "i < length e"
    and "sm_auto_id (o_meta q) \<noteq> []" "of_exported (fs ! i)" "of_kind (fs ! i) = K_String" "e ! i = D_Text []" "s \<noteq> []"
  shows "save env fs q now (D_Text s) e [] = (e[i := D_Text s], [])"
  using assms by (simp add: save_def stamp_created_def fill_key_def zero_of_def update_rows_def)

end
