(* ===== verification/Config.thy ===== *)
theory Config
  imports Go_Strconv Go_Maps Context_Values
begin

text \<open>
  \<^verbatim>\<open>config/config.go\<close> and \<^verbatim>\<open>config/loader.go\<close>: dotenv files, the two ways to read configuration values (the
  process-wide store with \<^verbatim>\<open>Unmarshal\<close>, the immutable \<^verbatim>\<open>Loader\<close>), and the checks of single values. A
  struct type is the list of its fields, a struct value pairs them with what they hold. Floating-point
  values are opaque: \<^verbatim>\<open>strconv.ParseFloat\<close> and \<^verbatim>\<open>time.ParseDuration\<close> (which scales fractions in floating
  point) are fields of \<open>config_runtime\<close>. Names and keys are ASCII.
\<close>

section \<open>Dotenv files\<close>

text \<open>\<^verbatim>\<open>bufio.Scanner\<close> over a file: the lines without their ends, until a line does not fit the buffer of
  64 KiB; \<open>failed\<close> says that reading stops with an error after the content.\<close>

datatype scan_error = Line_Too_Long | Read_Failed

definition max_scan_token :: nat where
  "max_scan_token = 64 * 1024"

definition drop_cr :: "string \<Rightarrow> string" where
  "drop_cr l = (if l \<noteq> [] \<and> last l = CHR 0x0D then butlast l else l)"

definition file_lines :: "string \<Rightarrow> string list" where
  "file_lines content =
     (let ls = split_byte (CHR 0x0A) content in if last ls = [] then butlast ls else ls)"

definition scan :: "string \<Rightarrow> bool \<Rightarrow> string list \<times> scan_error option" where
  "scan content failed =
     (let ls = file_lines content; fitting = takeWhile (\<lambda>l. length l < max_scan_token) ls
      in (map drop_cr fitting,
          if length fitting < length ls then Some Line_Too_Long
          else if failed then Some Read_Failed else None))"

text \<open>The regular expression \<^verbatim>\<open>^[A-Za-z_][A-Za-z0-9_]*$\<close>.\<close>

definition env_letter :: "char \<Rightarrow> bool" where
  "env_letter c \<longleftrightarrow> is_upper c \<or> is_lower c \<or> c = CHR ''_''"

definition env_key :: "string \<Rightarrow> bool" where
  "env_key k = (case k of [] \<Rightarrow> False | c # cs \<Rightarrow> env_letter c \<and> list_all (\<lambda>d. env_letter d \<or> is_digit d) cs)"

definition quote_chars :: "char set" where
  "quote_chars = {CHR 0x22, CHR 0x27}"

datatype open_error = Not_Exist | Other_Open_Error

datatype dotenv_error = Open_Failed open_error | Malformed_Line nat | Scan_Failed scan_error

text \<open>\<^verbatim>\<open>parseDotEnv\<close>; the scanner is asked for its error once the lines are used up.\<close>

fun parse_lines :: "nat \<Rightarrow> string list \<Rightarrow> (string \<times> string) list \<Rightarrow> nat + (string \<times> string) list" where
  "parse_lines n [] values = Inr values"
| "parse_lines n (l # ls) values =
     (let line = trim_space l
      in if line = [] \<or> has_prefix line ''#'' then parse_lines (Suc n) ls values
         else (case split_first (CHR ''='') line of
             (k, None) \<Rightarrow> Inl n
           | (k, Some v) \<Rightarrow>
               if \<not> env_key (trim_space k) then Inl n
               else parse_lines (Suc n) ls
                      (AList.update (trim_space k) (trim_set quote_chars (trim_space v)) values)))"

definition parse_dot_env :: "string \<Rightarrow> bool \<Rightarrow> dotenv_error + (string \<times> string) list" where
  "parse_dot_env content failed =
     (case scan content failed of (ls, err) \<Rightarrow>
       (case parse_lines 1 ls [] of
          Inl n \<Rightarrow> Inl (Malformed_Line n)
        | Inr values \<Rightarrow> (case err of Some e \<Rightarrow> Inl (Scan_Failed e) | None \<Rightarrow> Inr values)))"

text \<open>A file system: opening a path fails, or gives the content and whether reading it fails at the end.\<close>

type_synonym file_system = "string \<Rightarrow> open_error + (string \<times> bool)"

definition read_dot_env :: "file_system \<Rightarrow> string \<Rightarrow> dotenv_error + (string \<times> string) list" where
  "read_dot_env open_file path =
     (case open_file path of Inl e \<Rightarrow> Inl (Open_Failed e) | Inr (content, failed) \<Rightarrow> parse_dot_env content failed)"

section \<open>The loader\<close>

record loader_options =
  lo_environment :: "(string \<times> string) list option"
  lo_dotenv_path :: string
  lo_optional :: bool

text \<open>\<^verbatim>\<open>currentEnvironment\<close>: an entry without an equals sign is an index out of range.\<close>

fun current_environment :: "string list \<Rightarrow> (string \<times> string) list \<Rightarrow> (string \<times> string) list option" where
  "current_environment [] values = Some values"
| "current_environment (item # items) values =
     (case split_first (CHR ''='') item of
        (k, None) \<Rightarrow> None
      | (k, Some v) \<Rightarrow> current_environment items (AList.update k v values))"

definition merge_values :: "(string \<times> string) list \<Rightarrow> (string \<times> string) list \<Rightarrow> (string \<times> string) list" where
  "merge_values file environment = fold (\<lambda>(k, v). AList.update k v) environment (fold (\<lambda>(k, v). AList.update k v) file [])"

text \<open>\<open>None\<close> is the panic above.\<close>

definition new_loader ::
    "string list \<Rightarrow> file_system \<Rightarrow> loader_options \<Rightarrow> (dotenv_error + (string \<times> string) list) option" where
  "new_loader os_environ open_file opts =
     (let file =
        (if lo_dotenv_path opts = [] then Inr []
         else (case read_dot_env open_file (lo_dotenv_path opts) of
             Inl e \<Rightarrow> if lo_optional opts \<and> e = Open_Failed Not_Exist then Inr [] else Inl e
           | Inr parsed \<Rightarrow> Inr parsed))
      in (case file of
          Inl e \<Rightarrow> Some (Inl e)
        | Inr file_values \<Rightarrow>
            (case (case lo_environment opts of Some env \<Rightarrow> Some env | None \<Rightarrow> current_environment os_environ []) of
               None \<Rightarrow> None
             | Some environment \<Rightarrow> Some (Inr (merge_values file_values environment)))))"

definition loader_lookup :: "(string \<times> string) list \<Rightarrow> string \<Rightarrow> string" where
  "loader_lookup values key = (case map_of values key of Some v \<Rightarrow> v | None \<Rightarrow> [])"

section \<open>Structs\<close>

datatype config_kind = Kind_String | Kind_Bool | Kind_Int nat | Kind_Uint nat | Kind_Float nat | Kind_Duration | Kind_Other

datatype 'f config_value = Cfg_Text string | Cfg_Bool bool | Cfg_Int int | Cfg_Uint nat | Cfg_Float 'f | Cfg_Opaque

record config_field =
  cf_name :: string
  cf_settable :: bool
  cf_tags :: "(string \<times> string) list"
  cf_kind :: config_kind

type_synonym 'f config_struct = "(config_field \<times> 'f config_value) list"

record 'f config_runtime =
  cr_duration :: "string \<Rightarrow> int option"
  cr_float :: "nat \<Rightarrow> string \<Rightarrow> 'f option"   \<comment> \<open>the number of bits and the text\<close>
  cr_narrow :: "nat \<Rightarrow> 'f \<Rightarrow> 'f"                \<comment> \<open>what a field of so many bits keeps of a number\<close>

definition tag_get :: "config_field \<Rightarrow> string \<Rightarrow> string" where
  "tag_get fd key = (case map_of (cf_tags fd) key of Some v \<Rightarrow> v | None \<Rightarrow> [])"

definition field_tag :: "config_field \<Rightarrow> string" where
  "field_tag fd = (if tag_get fd ''env'' = [] then tag_get fd ''config'' else tag_get fd ''env'')"

definition tag_required :: "config_field \<Rightarrow> bool" where
  "tag_required fd \<longleftrightarrow> tag_get fd ''required'' = ''true'' \<or> tag_get fd ''required'' = ''1''"

definition env_snake_case :: "string \<Rightarrow> string" where
  "env_snake_case s = to_upper (snake_loop None s)"

datatype cfg_error =
    Unknown_Option string string | Invalid_Key string | Required_Missing string
  | Not_A_Duration string | Invalid_Value string config_kind

text \<open>The options after the key; the result is the fallback and the required flag.\<close>

fun parse_options :: "string \<Rightarrow> string list \<Rightarrow> string \<Rightarrow> bool \<Rightarrow> cfg_error + string \<times> bool" where
  "parse_options nm [] fallback required = Inr (fallback, required)"
| "parse_options nm (opt # opts) fallback required =
     (let opt = trim_space opt
      in if opt = ''required'' then parse_options nm opts fallback True
         else if has_prefix opt ''default='' then parse_options nm opts (trim_prefix opt ''default='') required
         else if opt \<noteq> [] then Inl (Unknown_Option nm opt)
         else parse_options nm opts fallback required)"

definition parse_config_field :: "config_field \<Rightarrow> cfg_error + string \<times> string \<times> bool" where
  "parse_config_field fd =
     (let tag = field_tag fd;
          parsed = (if tag = [] then Inr ([], tag_get fd ''default'', tag_required fd)
                    else let parts = split_byte (CHR '','') tag
                         in (case parse_options (cf_name fd) (tl parts) (tag_get fd ''default'') (tag_required fd) of
                               Inl e \<Rightarrow> Inl e
                             | Inr (fallback, required) \<Rightarrow> Inr (trim_space (hd parts), fallback, required)))
      in (case parsed of
          Inl e \<Rightarrow> Inl e
        | Inr (key, fallback, required) \<Rightarrow>
            let key = (if key = [] then env_snake_case (cf_name fd) else key)
            in if env_key key then Inr (key, fallback, required) else Inl (Invalid_Key (cf_name fd))))"

definition set_config_value :: "'f config_runtime \<Rightarrow> config_kind \<Rightarrow> string \<Rightarrow> 'f config_value option" where
  "set_config_value rt kind raw =
     (case kind of
        Kind_String \<Rightarrow> Some (Cfg_Text raw)
      | Kind_Bool \<Rightarrow> map_option Cfg_Bool (parse_bool raw)
      | Kind_Int bits \<Rightarrow> map_option Cfg_Int (parse_int bits raw)
      | Kind_Uint bits \<Rightarrow> map_option Cfg_Uint (parse_uint bits raw)
      | Kind_Float bits \<Rightarrow> map_option (\<lambda>x. Cfg_Float (cr_narrow rt bits x)) (cr_float rt bits raw)
      | Kind_Duration \<Rightarrow> None
      | Kind_Other \<Rightarrow> None)"

text \<open>One iteration of \<^verbatim>\<open>populateStruct\<close>.\<close>

definition populate_field ::
    "'f config_runtime \<Rightarrow> (string \<Rightarrow> string) \<Rightarrow> config_field \<Rightarrow> 'f config_value \<Rightarrow> cfg_error + 'f config_value" where
  "populate_field rt look fd old =
     (if \<not> cf_settable fd then Inr old
      else (case parse_config_field fd of
          Inl e \<Rightarrow> Inl e
        | Inr (key, fallback, required) \<Rightarrow>
            let raw = (if look key = [] then fallback else look key)
            in if raw = [] then (if required then Inl (Required_Missing (cf_name fd)) else Inr old)
               else if cf_kind fd = Kind_Duration then
                 (case cr_duration rt raw of Some d \<Rightarrow> Inr (Cfg_Int d) | None \<Rightarrow> Inl (Not_A_Duration (cf_name fd)))
               else (case set_config_value rt (cf_kind fd) raw of
                   Some v \<Rightarrow> Inr v
                 | None \<Rightarrow> Inl (Invalid_Value (cf_name fd) (cf_kind fd)))))"

text \<open>The loop: the fields before a failing one are already set.\<close>

fun populate_struct ::
    "'f config_runtime \<Rightarrow> (string \<Rightarrow> string) \<Rightarrow> 'f config_struct \<Rightarrow> 'f config_struct \<times> cfg_error option" where
  "populate_struct rt look [] = ([], None)"
| "populate_struct rt look ((fd, old) # fs) =
     (case populate_field rt look fd old of
        Inl e \<Rightarrow> ((fd, old) # fs, Some e)
      | Inr v \<Rightarrow> (case populate_struct rt look fs of (gs, err) \<Rightarrow> ((fd, v) # gs, err)))"

datatype 'e load_error =
    Loader_Nil | Target_Invalid | Populate_Failed cfg_error | Normalization_Failed 'e | Validation_Failed 'e

text \<open>\<^verbatim>\<open>LoadValue\<close>: \<open>zero\<close> is the zero value of the type; the callbacks may be nil.\<close>

definition load_value ::
    "'f config_runtime \<Rightarrow> (string \<times> string) list option \<Rightarrow> 'f config_struct
       \<Rightarrow> ('f config_struct \<Rightarrow> 'e option \<times> 'f config_struct) option \<Rightarrow> ('f config_struct \<Rightarrow> 'e option) option
       \<Rightarrow> 'f config_struct \<times> 'e load_error option" where
  "load_value rt loader zero normalizer validator =
     (case loader of
        None \<Rightarrow> (zero, Some Loader_Nil)
      | Some values \<Rightarrow>
          (case populate_struct rt (loader_lookup values) zero of
             (partial, Some e) \<Rightarrow> (partial, Some (Populate_Failed e))
           | (populated, None) \<Rightarrow>
               (case (case normalizer of None \<Rightarrow> (None, populated) | Some f \<Rightarrow> f populated) of
                  (Some e, _) \<Rightarrow> (zero, Some (Normalization_Failed e))
                | (None, normal) \<Rightarrow>
                    (case (case validator of None \<Rightarrow> None | Some f \<Rightarrow> f normal) of
                       Some e \<Rightarrow> (zero, Some (Validation_Failed e))
                     | None \<Rightarrow> (normal, None)))))"

text \<open>\<^verbatim>\<open>Loader.Load\<close> on a target, \<open>None\<close> when it is not a pointer to a struct.\<close>

definition loader_load ::
    "'f config_runtime \<Rightarrow> (string \<times> string) list option \<Rightarrow> 'f config_struct option
       \<Rightarrow> ('f config_struct \<Rightarrow> 'e option \<times> 'f config_struct) option \<Rightarrow> ('f config_struct \<Rightarrow> 'e option) option
       \<Rightarrow> 'f config_struct option \<times> 'e load_error option" where
  "loader_load rt loader target normalizer validator =
     (case loader of
        None \<Rightarrow> (target, Some Loader_Nil)
      | Some values \<Rightarrow>
          (case target of
             None \<Rightarrow> (None, Some Target_Invalid)
           | Some t \<Rightarrow>
               (case populate_struct rt (loader_lookup values) t of
                  (t, Some e) \<Rightarrow> (Some t, Some (Populate_Failed e))
                | (t, None) \<Rightarrow>
                    (case (case normalizer of None \<Rightarrow> (None, t) | Some f \<Rightarrow> f t) of
                       (Some e, t) \<Rightarrow> (Some t, Some (Normalization_Failed e))
                     | (None, t) \<Rightarrow>
                         (case (case validator of None \<Rightarrow> None | Some f \<Rightarrow> f t) of
                            Some e \<Rightarrow> (Some t, Some (Validation_Failed e))
                          | None \<Rightarrow> (Some t, None))))))"

section \<open>The process-wide store\<close>

record config_store =
  cs_vars :: "(string \<times> string) list"
  cs_environ :: "(string \<times> string) list"

text \<open>\<^verbatim>\<open>os.Setenv\<close> refuses keys and values the system cannot hold; the error is dropped.\<close>

definition set_env :: "string \<Rightarrow> string \<Rightarrow> (string \<times> string) list \<Rightarrow> (string \<times> string) list" where
  "set_env k v env =
     (if k = [] \<or> CHR ''='' \<in> set k \<or> CHR 0x00 \<in> set k \<or> CHR 0x00 \<in> set v then env else AList.update k v env)"

text \<open>\<^verbatim>\<open>Load\<close>: a missing file, a line without an equals sign and a scanner error are all ignored.\<close>

fun load_lines :: "string list \<Rightarrow> config_store \<Rightarrow> config_store" where
  "load_lines [] st = st"
| "load_lines (l # ls) st =
     (let line = trim_space l
      in if line = [] \<or> has_prefix line ''#'' then load_lines ls st
         else (case split_first (CHR ''='') line of
             (k, None) \<Rightarrow> load_lines ls st
           | (k, Some v) \<Rightarrow>
               let k = trim_space k; v = trim_set quote_chars (trim_space v)
               in load_lines ls (st\<lparr>cs_vars := AList.update k v (cs_vars st), cs_environ := set_env k v (cs_environ st)\<rparr>)))"

definition load_env_file :: "file_system \<Rightarrow> string list \<Rightarrow> config_store \<Rightarrow> config_store" where
  "load_env_file open_file paths st =
     (let path = (case paths of p # _ \<Rightarrow> if p = [] then ''.env'' else p | [] \<Rightarrow> ''.env'')
      in case open_file path of
           Inl e \<Rightarrow> st
         | Inr (content, failed) \<Rightarrow> load_lines (fst (scan content failed)) st)"

definition config_string :: "config_store \<Rightarrow> string \<Rightarrow> string list \<Rightarrow> string" where
  "config_string st key defaults =
     (if loader_lookup (cs_environ st) key \<noteq> [] then loader_lookup (cs_environ st) key
      else if loader_lookup (cs_vars st) key \<noteq> [] then loader_lookup (cs_vars st) key
      else (case defaults of d # _ \<Rightarrow> d | [] \<Rightarrow> []))"

text \<open>\<^verbatim>\<open>GetInt\<close>, \<^verbatim>\<open>GetBool\<close> and \<^verbatim>\<open>GetDuration\<close> differ in the parser and the zero value.\<close>

definition config_typed :: "(string \<Rightarrow> 'a option) \<Rightarrow> 'a \<Rightarrow> config_store \<Rightarrow> string \<Rightarrow> 'a list \<Rightarrow> 'a" where
  "config_typed parse zero st key defaults =
     (let fallback = (case defaults of d # _ \<Rightarrow> d | [] \<Rightarrow> zero); str = config_string st key []
      in if str = [] then fallback else (case parse str of Some v \<Rightarrow> v | None \<Rightarrow> fallback))"

definition config_int :: "config_store \<Rightarrow> string \<Rightarrow> int list \<Rightarrow> int" where
  "config_int = config_typed atoi 0"

definition config_bool :: "config_store \<Rightarrow> string \<Rightarrow> bool list \<Rightarrow> bool" where
  "config_bool = config_typed parse_bool False"

definition config_duration :: "'f config_runtime \<Rightarrow> config_store \<Rightarrow> string \<Rightarrow> int list \<Rightarrow> int" where
  "config_duration rt = config_typed (cr_duration rt) 0"

definition mask_secret :: "string \<Rightarrow> string" where
  "mask_secret secret =
     (if length secret \<le> 6 then ''******'' else take 3 secret @ ''...'' @ drop (length secret - 3) secret)"

text \<open>The tag as \<^verbatim>\<open>Unmarshal\<close> reads it: unknown options are skipped, an empty default is none.\<close>

fun lenient_options :: "string list \<Rightarrow> string \<Rightarrow> bool \<Rightarrow> string \<times> bool" where
  "lenient_options [] def required = (def, required)"
| "lenient_options (opt # opts) def required =
     (let opt = trim_space opt
      in if has_prefix opt ''default='' then lenient_options opts (trim_prefix opt ''default='') required
         else if opt = ''required'' then lenient_options opts def True
         else lenient_options opts def required)"

definition lenient_field :: "config_field \<Rightarrow> string \<times> string \<times> bool" where
  "lenient_field fd =
     (let parts = split_byte (CHR '','') (field_tag fd);
          key = (if field_tag fd = [] then [] else trim_space (hd parts));
          (def, required) = (if field_tag fd = [] then ([], False) else lenient_options (tl parts) [] False)
      in (key, if def = [] then tag_get fd ''default'' else def, required \<or> tag_required fd))"

definition lenient_lookup :: "config_store \<Rightarrow> config_field \<Rightarrow> string \<Rightarrow> string" where
  "lenient_lookup st fd key =
     (if key \<noteq> [] then config_string st key []
      else let snake = env_snake_case (cf_name fd); upper = to_upper (cf_name fd)
           in if config_string st snake [] = [] \<and> upper \<noteq> snake then config_string st upper []
              else config_string st snake [])"

text \<open>\<^verbatim>\<open>SetInt\<close> and \<^verbatim>\<open>SetUint\<close> keep the low bits of a number that was parsed with 64 bits.\<close>

definition keep_bits :: "nat \<Rightarrow> int \<Rightarrow> int" where
  "keep_bits bits v = (v + 2 ^ (bits - 1)) mod 2 ^ bits - 2 ^ (bits - 1)"

definition set_wide_value :: "'f config_runtime \<Rightarrow> config_kind \<Rightarrow> string \<Rightarrow> 'f config_value \<Rightarrow> 'f config_value option" where
  "set_wide_value rt kind raw old =
     (case kind of
        Kind_String \<Rightarrow> Some (Cfg_Text raw)
      | Kind_Bool \<Rightarrow> map_option Cfg_Bool (parse_bool raw)
      | Kind_Int bits \<Rightarrow> map_option (\<lambda>v. Cfg_Int (keep_bits bits v)) (parse_int 64 raw)
      | Kind_Uint bits \<Rightarrow> map_option (\<lambda>v. Cfg_Uint (v mod 2 ^ bits)) (parse_uint 64 raw)
      | Kind_Float bits \<Rightarrow> map_option (\<lambda>x. Cfg_Float (cr_narrow rt bits x)) (cr_float rt 64 raw)
      | Kind_Duration \<Rightarrow> map_option Cfg_Int (cr_duration rt raw)
      | Kind_Other \<Rightarrow> Some old)"

definition unmarshal_field ::
    "'f config_runtime \<Rightarrow> config_store \<Rightarrow> config_field \<Rightarrow> 'f config_value \<Rightarrow> cfg_error + 'f config_value" where
  "unmarshal_field rt st fd old =
     (if \<not> cf_settable fd then Inr old
      else (case lenient_field fd of
          (key, def, required) \<Rightarrow>
            let raw = (if lenient_lookup st fd key = [] then def else lenient_lookup st fd key)
            in if raw = [] then (if required then Inl (Required_Missing (cf_name fd)) else Inr old)
               else (case set_wide_value rt (cf_kind fd) raw old of
                   Some v \<Rightarrow> Inr v
                 | None \<Rightarrow> Inl (if cf_kind fd = Kind_Duration then Not_A_Duration (cf_name fd)
                                else Invalid_Value (cf_name fd) (cf_kind fd)))))"

fun unmarshal_fields ::
    "'f config_runtime \<Rightarrow> config_store \<Rightarrow> 'f config_struct \<Rightarrow> 'f config_struct \<times> cfg_error option" where
  "unmarshal_fields rt st [] = ([], None)"
| "unmarshal_fields rt st ((fd, old) # fs) =
     (case unmarshal_field rt st fd old of
        Inl e \<Rightarrow> ((fd, old) # fs, Some e)
      | Inr v \<Rightarrow> (case unmarshal_fields rt st fs of (gs, err) \<Rightarrow> ((fd, v) # gs, err)))"

text \<open>\<^verbatim>\<open>LoadStruct\<close>: the dotenv file, then the struct, nil on an error; \<^verbatim>\<open>MustLoad\<close> panics instead.\<close>

definition load_struct ::
    "'f config_runtime \<Rightarrow> file_system \<Rightarrow> string list \<Rightarrow> 'f config_struct \<Rightarrow> config_store \<Rightarrow> (cfg_error + 'f config_struct) \<times> config_store" where
  "load_struct rt open_file paths zero st =
     (let st = load_env_file open_file paths st
      in (case unmarshal_fields rt st zero of (_, Some e) \<Rightarrow> Inl e | (t, None) \<Rightarrow> Inr t, st))"

section \<open>Checks of single values\<close>

datatype check_error = Required_Value string | Bad_Length_Bounds string | Length_Not_Between string int int
  | Not_Between string int int | Not_Allowed string

definition check_required :: "string \<Rightarrow> string \<Rightarrow> check_error option" where
  "check_required field v = (if trim_space v = [] then Some (Required_Value field) else None)"

definition string_length :: "string \<Rightarrow> string \<Rightarrow> int \<Rightarrow> int \<Rightarrow> check_error option" where
  "string_length field v minimum maximum =
     (if minimum < 0 \<or> maximum < minimum then Some (Bad_Length_Bounds field)
      else let n = int (length (runes v))
           in if n < minimum \<or> maximum < n then Some (Length_Not_Between field minimum maximum) else None)"

definition int_range :: "string \<Rightarrow> int \<Rightarrow> int \<Rightarrow> int \<Rightarrow> check_error option" where
  "int_range field v minimum maximum =
     (if maximum < minimum \<or> v < minimum \<or> maximum < v then Some (Not_Between field minimum maximum) else None)"

definition one_of :: "string \<Rightarrow> string \<Rightarrow> string list \<Rightarrow> check_error option" where
  "one_of field v allowed = (if v \<in> set allowed then None else Some (Not_Allowed field))"

definition port :: "string \<Rightarrow> int \<Rightarrow> check_error option" where
  "port field v = int_range field v 1 65535"

section \<open>Dotenv files are read back\<close>

definition dotenv_line :: "string \<times> string \<Rightarrow> string" where
  "dotenv_line kv = fst kv @ CHR ''='' # CHR 0x22 # snd kv @ [CHR 0x22]"

definition render_dotenv :: "(string \<times> string) list \<Rightarrow> string" where
  "render_dotenv kvs = concat (map (\<lambda>kv. dotenv_line kv @ [CHR 0x0A]) kvs)"

text \<open>What a quoted line can carry: no line end, no quote at either end, and not too long.\<close>

definition quotable :: "string \<times> string \<Rightarrow> bool" where
  "quotable kv \<longleftrightarrow> env_key (fst kv) \<and> CHR 0x0A \<notin> set (snd kv) \<and> length (dotenv_line kv) < max_scan_token
     \<and> (snd kv \<noteq> [] \<longrightarrow> hd (snd kv) \<notin> quote_chars \<and> last (snd kv) \<notin> quote_chars)"

lemma env_key_chars:
  assumes "env_key k" "c \<in> set k"
  shows "\<not> is_space c \<and> c \<noteq> CHR ''='' \<and> c \<noteq> CHR ''#'' \<and> c \<noteq> CHR 0x0A"
proof -
  have "env_letter c \<or> is_digit c" using assms by (auto simp: env_key_def list_all_iff split: list.splits)
  then show ?thesis
    by (auto simp: env_letter_def is_digit_def is_upper_def is_lower_def byte_in_def is_space_def)
qed

lemma env_key_not_Nil: "env_key k \<Longrightarrow> k \<noteq> []"
  by (auto simp: env_key_def)

lemma trim_ends:
  assumes "xs \<noteq> []" "\<not> P (hd xs)" "\<not> P (last xs)"
  shows "rev (dropWhile P (rev (dropWhile P xs))) = xs"
proof -
  have "dropWhile P xs = xs" using assms by (cases xs) auto
  moreover have "dropWhile P (rev xs) = rev xs" using assms by (cases xs rule: rev_cases) auto
  ultimately show ?thesis by simp
qed

lemma trim_space_ends: "xs \<noteq> [] \<Longrightarrow> \<not> is_space (hd xs) \<Longrightarrow> \<not> is_space (last xs) \<Longrightarrow> trim_space xs = xs"
  unfolding trim_space_def by (rule trim_ends)

lemma trim_set_quoted:
  assumes "q \<in> cs" "v \<noteq> [] \<longrightarrow> hd v \<notin> cs \<and> last v \<notin> cs"
  shows "trim_set cs (q # v @ [q]) = v"
proof (cases "v = []")
  case False
  have "dropWhile (\<lambda>c. c \<in> cs) (q # v @ [q]) = v @ [q]" using assms False by (cases v) auto
  moreover have "dropWhile (\<lambda>c. c \<in> cs) (rev (v @ [q])) = rev v"
    using assms False by (cases v rule: rev_cases) auto
  ultimately show ?thesis by (simp add: trim_set_def)
qed (use assms in \<open>simp add: trim_set_def\<close>)

lemma split_first_at: "c \<notin> set k \<Longrightarrow> split_first c (k @ c # v) = (k, Some v)"
proof -
  assume "c \<notin> set k"
  then have "index_byte (k @ c # v) c = Some (length k)"
    by (auto simp: index_byte_Some nth_append)
  then show ?thesis by (simp add: split_first_def)
qed

declare parse_lines.simps(2) [simp del]

lemma parse_quoted_line:
  assumes "quotable (k, v)"
  shows "parse_lines n (dotenv_line (k, v) # ls) acc = parse_lines (Suc n) ls (AList.update k v acc)"
proof -
  let ?l = "dotenv_line (k, v)" and ?q = "CHR 0x22 # v @ [CHR 0x22]"
  have key: "env_key k" using assms by (simp add: quotable_def)
  have ends: "last k \<in> set k" "hd k \<in> set k" using env_key_not_Nil [OF key] by auto
  have first: "hd ?l = hd k" "?l \<noteq> []" using env_key_not_Nil [OF key] by (simp_all add: dotenv_line_def)
  have line: "trim_space ?l = ?l"
    using env_key_chars [OF key ends(2)] first by (intro trim_space_ends) (simp_all add: dotenv_line_def is_space_def)
  have trimmed: "trim_space k = k"
    using env_key_chars [OF key] ends env_key_not_Nil [OF key] by (intro trim_space_ends) auto
  have quoted: "trim_space ?q = ?q"
    by (rule trim_space_ends) (auto simp: is_space_def)
  have unquoted: "trim_set quote_chars ?q = v"
    using assms by (intro trim_set_quoted) (auto simp: quotable_def quote_chars_def)
  have "CHR ''='' \<notin> set k" using env_key_chars [OF key] by blast
  then have split: "split_first (CHR ''='') ?l = (k, Some ?q)"
    by (simp add: dotenv_line_def split_first_at)
  have plain: "\<not> has_prefix ?l ''#''"
    using env_key_chars [OF key ends(2)] first by (cases ?l) (auto simp: has_prefix_def)
  show ?thesis
    unfolding parse_lines.simps(2) Let_def line split prod.case option.case trimmed quoted unquoted
    using key plain first by simp
qed

lemma parse_quoted_lines:
  "list_all quotable kvs \<Longrightarrow>
     parse_lines n (map dotenv_line kvs) acc = Inr (fold (\<lambda>(k, v). AList.update k v) kvs acc)"
  by (induction kvs arbitrary: n acc) (auto simp: parse_quoted_line)

lemma lines_of_render:
  assumes "list_all quotable kvs"
  shows "file_lines (render_dotenv kvs) = map dotenv_line kvs"
proof -
  have "CHR 0x0A \<notin> set (dotenv_line kv)" if "quotable kv" for kv
    using that env_key_chars [of "fst kv"] by (auto simp: quotable_def dotenv_line_def)
  then have "split_byte (CHR 0x0A) (render_dotenv kvs) = map dotenv_line kvs @ [[]]"
    using assms by (induction kvs) (simp_all add: render_dotenv_def split_byte_append)
  then show ?thesis by (simp add: file_lines_def)
qed

lemma scan_render: "list_all quotable kvs \<Longrightarrow> scan (render_dotenv kvs) False = (map dotenv_line kvs, None)"
proof -
  assume ok: "list_all quotable kvs"
  then have fit: "takeWhile (\<lambda>l. length l < max_scan_token) (map dotenv_line kvs) = map dotenv_line kvs"
    by (auto simp: takeWhile_eq_all_conv list_all_iff quotable_def)
  have "drop_cr (dotenv_line kv) = dotenv_line kv" for kv by (simp add: drop_cr_def dotenv_line_def)
  then have cr: "map drop_cr (map dotenv_line kvs) = map dotenv_line kvs" by simp
  show ?thesis by (simp only: scan_def Let_def lines_of_render [OF ok] fit cr less_irrefl if_False)
qed

lemma map_of_fold_update: "map_of (fold (\<lambda>(k, v). AList.update k v) kvs acc) = map_of acc ++ map_of (rev kvs)"
proof (induction kvs arbitrary: acc)
  case (Cons kv kvs)
  then show ?case by (cases kv) (simp add: update_conv' map_add_def fun_eq_iff split: option.splits)
qed simp

text \<open>A dotenv file that writes its keys plainly and its values in double quotes is read back: every key has
  the value of its last line, and no key is added.\<close>

theorem dotenv_files_are_read_back:
  assumes "list_all quotable kvs"
  shows "\<exists>values. parse_dot_env (render_dotenv kvs) False = Inr values \<and> map_of values = map_of (rev kvs)"
  using parse_quoted_lines [OF assms, of 1 "[]"]
  by (simp add: parse_dot_env_def scan_render [OF assms] map_of_fold_update)

section \<open>What a load stores\<close>

text \<open>A field and what it holds afterwards, read from a lookup: the declarative counterpart of the loop.\<close>

definition field_loaded ::
    "'f config_runtime \<Rightarrow> (string \<Rightarrow> string) \<Rightarrow> config_field \<times> 'f config_value \<Rightarrow> config_field \<times> 'f config_value \<Rightarrow> bool" where
  "field_loaded rt look old new \<longleftrightarrow> fst new = fst old \<and>
     (if cf_settable (fst old)
      then \<exists>key fallback required raw. parse_config_field (fst old) = Inr (key, fallback, required)
         \<and> raw = (if look key = [] then fallback else look key)
         \<and> (if raw = [] then \<not> required \<and> snd new = snd old
            else if cf_kind (fst old) = Kind_Duration then \<exists>d. cr_duration rt raw = Some d \<and> snd new = Cfg_Int d
            else set_config_value rt (cf_kind (fst old)) raw = Some (snd new))
      else snd new = snd old)"

lemma populate_field_iff:
  "populate_field rt look fd old = Inr v \<longleftrightarrow> field_loaded rt look (fd, old) (fd, v)"
proof (cases "cf_settable fd")
  case True
  show ?thesis
  proof (cases "parse_config_field fd")
    case (Inr parsed)
    obtain key fallback required where parsed: "parsed = (key, fallback, required)" by (cases parsed)
    let ?raw = "if look key = [] then fallback else look key"
    have "populate_field rt look fd old = Inr v \<longleftrightarrow>
        (if ?raw = [] then \<not> required \<and> v = old
         else if cf_kind fd = Kind_Duration then \<exists>d. cr_duration rt ?raw = Some d \<and> v = Cfg_Int d
         else set_config_value rt (cf_kind fd) ?raw = Some v)"
      using True by (simp only: populate_field_def Inr parsed Let_def sum.case prod.case)
        (auto split: option.splits)
    then show ?thesis using True by (simp only: field_loaded_def Inr parsed fst_conv snd_conv) auto
  qed (simp add: populate_field_def field_loaded_def True)
qed (auto simp: populate_field_def field_loaded_def)

lemma field_loaded_iff:
  "field_loaded rt look (fd, old) g \<longleftrightarrow> (\<exists>v. g = (fd, v) \<and> populate_field rt look fd old = Inr v)"
proof (cases g)
  case (Pair fd' v)
  have "field_loaded rt look (fd, old) (fd', v) \<Longrightarrow> fd' = fd" by (simp add: field_loaded_def)
  then show ?thesis using populate_field_iff [of rt look fd old v] by (auto simp: Pair)
qed

lemma populate_struct_iff:
  "populate_struct rt look fs = (gs, None) \<longleftrightarrow> list_all2 (field_loaded rt look) fs gs"
proof (induction fs arbitrary: gs)
  case (Cons f fs)
  obtain fd old where f: "f = (fd, old)" by (cases f)
  obtain rest err where rest: "populate_struct rt look fs = (rest, err)" by (cases "populate_struct rt look fs")
  show ?case
    using Cons.IH [of "tl gs"] rest
    by (cases gs; cases "populate_field rt look fd old") (auto simp: f field_loaded_iff)
qed auto

lemma load_value_success:
  "load_value rt (Some values) zero None None = (gs, None) \<longleftrightarrow> populate_struct rt (loader_lookup values) zero = (gs, None)"
  by (auto simp: load_value_def split: prod.splits option.splits)

lemma loader_precedence:
  assumes "distinct (map fst file)" "distinct (map fst env)"
  shows "loader_lookup (merge_values file env) key =
    (case map_of env key of Some v \<Rightarrow> v | None \<Rightarrow> loader_lookup file key)"
proof -
  have "map_of (rev kvs) = map_of kvs" if "distinct (map fst kvs)" for kvs :: "(string \<times> string) list"
    using that by (induction kvs) (force simp: map_add_def fun_eq_iff split: option.splits dest!: map_of_SomeD)+
  then show ?thesis
    using assms by (auto simp: loader_lookup_def merge_values_def map_of_fold_update map_add_def split: option.splits)
qed

text \<open>A configuration loads exactly when every settable field has a value that can be read: the environment's
  before the file's before the default of the tag, in the format and the range of the field. The loaded
  value holds exactly these, other fields keep their zero value, and no required field is empty.\<close>

theorem configuration_is_loaded_exactly:
  assumes "new_loader os_environ open_file opts = Some (Inr values)"
    and "lo_environment opts = Some env" "distinct (map fst env)"
    and "lo_dotenv_path opts = path" "path \<noteq> []" "read_dot_env open_file path = Inr file" "distinct (map fst file)"
  shows "load_value rt (Some values) zero None None = (loaded, None) \<longleftrightarrow>
    list_all2 (field_loaded rt (\<lambda>key. case map_of env key of Some v \<Rightarrow> v
      | None \<Rightarrow> (case map_of file key of Some v \<Rightarrow> v | None \<Rightarrow> []))) zero loaded"
proof -
  have "values = merge_values file env" using assms by (simp add: new_loader_def)
  then have look: "loader_lookup values = (\<lambda>key. case map_of env key of Some v \<Rightarrow> v | None \<Rightarrow> loader_lookup file key)"
    using loader_precedence [OF assms(7,3)] by (simp add: fun_eq_iff)
  show ?thesis by (simp only: load_value_success populate_struct_iff look) (simp only: loader_lookup_def)
qed

section \<open>The two readers agree\<close>

lemma parse_int_wider: "parse_int bits raw = Some i \<Longrightarrow> 0 < bits \<Longrightarrow> bits \<le> 64 \<Longrightarrow> parse_int 64 raw = Some i"
proof -
  assume i: "parse_int bits raw = Some i" "0 < bits" "bits \<le> 64"
  have wide: "(2 :: int) ^ (bits - 1) \<le> 2 ^ (64 - 1)" using i by (intro power_increasing) auto
  obtain neg ds where sign: "(case raw of [] \<Rightarrow> (False, []) | c # cs \<Rightarrow> if c = CHR ''-'' then (True, cs)
      else if c = CHR ''+'' then (False, cs) else (False, raw)) = (neg, ds)" by fastforce
  show ?thesis
    using i(1) wide unfolding parse_int_def sign Let_def
    by (cases "digits_value 0 ds") (simp_all split: if_splits)
qed

lemma parse_uint_wider: "parse_uint bits raw = Some n \<Longrightarrow> bits \<le> 64 \<Longrightarrow> parse_uint 64 raw = Some n"
proof -
  assume n: "parse_uint bits raw = Some n" "bits \<le> 64"
  have "(2 :: nat) ^ bits \<le> 2 ^ 64" using n by (intro power_increasing) auto
  then show ?thesis using n(1) by (auto simp: parse_uint_def split: option.splits if_splits)
qed

lemma keep_bits_in_range: "0 < bits \<Longrightarrow> - (2 ^ (bits - 1)) \<le> i \<Longrightarrow> i < 2 ^ (bits - 1) \<Longrightarrow> keep_bits bits i = i"
proof -
  assume i: "0 < bits" "- (2 ^ (bits - 1)) \<le> i" "i < 2 ^ (bits - 1)"
  have "(2 :: int) ^ bits = 2 ^ (bits - 1) + 2 ^ (bits - 1)" using i(1) by (cases bits) auto
  then show ?thesis using i by (simp add: keep_bits_def)
qed

lemma parse_uint_range: "parse_uint bits raw = Some n \<Longrightarrow> n < 2 ^ bits"
  by (auto simp: parse_uint_def split: option.splits if_splits)

text \<open>The fields on which both readers mean the same: integers of a possible width, floating-point numbers of
  64 bits (a shorter one is rounded twice by \<^verbatim>\<open>Unmarshal\<close>), no empty default option in the tag, and
  no setting that only \<^verbatim>\<open>Unmarshal\<close> finds, under the plain upper-case name.\<close>

definition common_kind :: "config_kind \<Rightarrow> bool" where
  "common_kind k = (case k of Kind_Int b \<Rightarrow> 0 < b \<and> b \<le> 64 | Kind_Uint b \<Rightarrow> b \<le> 64 | Kind_Float b \<Rightarrow> b = 64 | _ \<Rightarrow> True)"

definition common_field :: "(string \<Rightarrow> string) \<Rightarrow> config_field \<Rightarrow> bool" where
  "common_field look fd \<longleftrightarrow> common_kind (cf_kind fd)
     \<and> (\<forall>opt\<in>set (tl (split_byte (CHR '','') (field_tag fd))). trim_space opt \<noteq> ''default='')
     \<and> (look (to_upper (cf_name fd)) = [] \<or> look (env_snake_case (cf_name fd)) \<noteq> []
         \<or> to_upper (cf_name fd) = env_snake_case (cf_name fd))"

lemma wide_value_agrees:
  "set_config_value rt kind raw = Some v \<Longrightarrow> common_kind kind \<Longrightarrow> set_wide_value rt kind raw old = Some v"
  using parse_int_range [of _ raw] parse_uint_range [of _ raw]
  by (cases kind) (auto simp: set_config_value_def set_wide_value_def common_kind_def parse_int_wider parse_uint_wider
      keep_bits_in_range)

lemma options_agree:
  assumes "parse_options nm opts fallback required = Inr (fallback', required')"
    and "\<forall>opt\<in>set opts. trim_space opt \<noteq> ''default=''"
    and "fallback = (if d = [] then tagged else d)" "required \<longleftrightarrow> r \<or> q"
  shows "fallback' = (if fst (lenient_options opts d r) = [] then tagged else fst (lenient_options opts d r))
    \<and> (required' \<longleftrightarrow> snd (lenient_options opts d r) \<or> q)"
  using assms
proof (induction opts arbitrary: fallback required d r)
  case (Cons opt opts)
  let ?o = "trim_space opt"
  consider (required) "?o = ''required''" | (default) "has_prefix ?o ''default=''" | (empty) "?o = []"
    using Cons.prems(1) by (auto simp: Let_def split: if_splits)
  then show ?case
  proof cases
    case required
    then have "\<not> has_prefix ?o ''default=''" by (simp add: has_prefix_def)
    then show ?thesis
      using required Cons.prems Cons.IH [of fallback True d True] by (simp add: Let_def)
  next
    case default
    then have "trim_prefix ?o ''default='' \<noteq> []"
      using Cons.prems(2) by (auto simp: has_prefix_iff trim_prefix_def)
    moreover have other: "?o \<noteq> ''required''" using default by (auto simp: has_prefix_def)
    ultimately show ?thesis
      using default Cons.prems Cons.IH [of "trim_prefix ?o ''default=''" required "trim_prefix ?o ''default=''" r]
        other by (simp add: Let_def)
  next
    case empty
    then show ?thesis
      using Cons.prems Cons.IH [of fallback required d r] by (simp add: Let_def has_prefix_def)
  qed
qed auto

lemma fields_agree:
  assumes "parse_config_field fd = Inr (key, fallback, required)"
    and "\<forall>opt\<in>set (tl (split_byte (CHR '','') (field_tag fd))). trim_space opt \<noteq> ''default=''"
  shows "\<exists>key'. lenient_field fd = (key', fallback, required) \<and> key = (if key' = [] then env_snake_case (cf_name fd) else key')"
proof (cases "field_tag fd = []")
  case True
  then show ?thesis using assms(1) by (auto simp: parse_config_field_def lenient_field_def Let_def split: if_splits)
next
  case False
  let ?opts = "tl (split_byte (CHR '','') (field_tag fd))" and ?key = "trim_space (hd (split_byte (CHR '','') (field_tag fd)))"
  obtain fb req where parsed: "parse_options (cf_name fd) ?opts (tag_get fd ''default'') (tag_required fd) = Inr (fb, req)"
    and same: "fallback = fb" "required = req" "key = (if ?key = [] then env_snake_case (cf_name fd) else ?key)"
    using assms(1) False unfolding parse_config_field_def Let_def
    by (cases "parse_options (cf_name fd) ?opts (tag_get fd ''default'') (tag_required fd)") (auto split: if_splits)
  show ?thesis
    using options_agree [OF parsed assms(2), of "[]" "tag_get fd ''default''" False "tag_required fd"] False
    by (cases "lenient_options ?opts [] False") (simp add: lenient_field_def Let_def same)
qed

lemma field_agrees:
  assumes "populate_field rt look fd old = Inr v" "common_field look fd"
    and look: "\<And>key. config_string st key [] = look key"
  shows "unmarshal_field rt st fd old = Inr v"
proof (cases "cf_settable fd")
  case True
  obtain key fallback required where parsed: "parse_config_field fd = Inr (key, fallback, required)"
    using assms(1) True by (auto simp: populate_field_def split: sum.splits)
  obtain key' where lenient: "lenient_field fd = (key', fallback, required)"
    and key: "key = (if key' = [] then env_snake_case (cf_name fd) else key')"
    using fields_agree [OF parsed] assms(2) by (auto simp: common_field_def)
  have found: "lenient_lookup st fd key' = look key"
    using assms(2) by (auto simp: lenient_lookup_def look key common_field_def Let_def)
  have "common_kind (cf_kind fd)" using assms(2) by (simp add: common_field_def)
  then show ?thesis
    using assms(1) True
    by (auto simp: populate_field_def unmarshal_field_def parsed lenient found Let_def wide_value_agrees
        set_wide_value_def [of rt Kind_Duration] split: if_splits option.splits)
qed (use assms(1) in \<open>simp add: populate_field_def unmarshal_field_def\<close>)

text \<open>Where both readers see the same settings, a struct that the loader accepts is read by \<^verbatim>\<open>Unmarshal\<close> to the
  same values.\<close>

theorem unmarshal_agrees_with_the_loader:
  assumes "populate_struct rt look fs = (gs, None)"
    and "\<And>key. config_string st key [] = look key"
    and "\<forall>f\<in>set fs. common_field look (fst f)"
  shows "unmarshal_fields rt st fs = (gs, None)"
  using assms(1,3)
proof (induction fs arbitrary: gs)
  case (Cons f fs)
  obtain fd old where f: "f = (fd, old)" by (cases f)
  obtain v rest where v: "populate_field rt look fd old = Inr v" and rest: "populate_struct rt look fs = (rest, None)"
    and gs: "gs = (fd, v) # rest"
    using Cons.prems by (auto simp: f split: sum.splits prod.splits)
  have "unmarshal_field rt st fd old = Inr v"
    using field_agrees [OF v _ assms(2)] Cons.prems by (simp add: f)
  then show ?case using Cons.IH [OF rest] Cons.prems by (simp add: f gs)
qed simp

section \<open>Concrete values\<close>

definition sample_runtime :: "unit config_runtime" where
  "sample_runtime = \<lparr>cr_duration = (\<lambda>s. None), cr_float = (\<lambda>bits s. None), cr_narrow = (\<lambda>bits x. x)\<rparr>"

definition conns_field :: config_field where
  "conns_field = \<lparr>cf_name = ''MaxConns'', cf_settable = True, cf_tags = [(''default'', ''10'')], cf_kind = Kind_Int 8\<rparr>"

definition secret_field :: config_field where
  "secret_field = \<lparr>cf_name = ''Secret'', cf_settable = True, cf_tags = [(''env'', ''SECRET,required'')], cf_kind = Kind_String\<rparr>"

lemma sample_quotable: "list_all quotable [(''MAX_CONNS'', ''80''), (''SECRET'', ''a = #b'')]"
  by (simp add: quotable_def env_key_def env_letter_def is_upper_def is_lower_def is_digit_def byte_in_def
      dotenv_line_def quote_chars_def max_scan_token_def)

lemma sample_tags:
  "parse_config_field conns_field = Inr (''MAX_CONNS'', ''10'', False)"
  "parse_config_field secret_field = Inr (''SECRET'', [], True)"
  by code_simp+

lemma sample_fields:
  "cf_settable conns_field" "cf_kind conns_field = Kind_Int 8" "cf_settable secret_field" "cf_kind secret_field = Kind_String"
  by (simp_all add: conns_field_def secret_field_def)

lemma dotenv_files_are_read_back_witness:
  "\<exists>values. parse_dot_env (render_dotenv [(''MAX_CONNS'', ''80''), (''SECRET'', ''a = #b'')]) False = Inr values
     \<and> map_of values = map_of (rev [(''MAX_CONNS'', ''80''), (''SECRET'', ''a = #b'')])"
  by (rule dotenv_files_are_read_back [OF sample_quotable])

lemma sample_file:
  "read_dot_env (\<lambda>p. Inr (render_dotenv [(''MAX_CONNS'', ''80''), (''SECRET'', ''a = #b'')], False)) path
     = Inr [(''MAX_CONNS'', ''80''), (''SECRET'', ''a = #b'')]"
  using parse_quoted_lines [OF sample_quotable, of 1 "[]"]
  by (simp add: read_dot_env_def parse_dot_env_def scan_render [OF sample_quotable])

lemma configuration_is_loaded_exactly_witness:
  "load_value sample_runtime (Some [(''MAX_CONNS'', ''90''), (''SECRET'', ''a = #b'')])
     [(conns_field, Cfg_Int 0), (secret_field, Cfg_Text [])] None None
   = ([(conns_field, Cfg_Int 90), (secret_field, Cfg_Text ''a = #b'')], None :: unit load_error option)"
proof -
  let ?open = "\<lambda>p. Inr (render_dotenv [(''MAX_CONNS'', ''80''), (''SECRET'', ''a = #b'')], False)"
  let ?opts = "\<lparr>lo_environment = Some [(''MAX_CONNS'', ''90'')], lo_dotenv_path = ''.env'', lo_optional = False\<rparr>"
  have loader: "new_loader [] ?open ?opts = Some (Inr [(''MAX_CONNS'', ''90''), (''SECRET'', ''a = #b'')])"
    by (simp add: new_loader_def sample_file merge_values_def)
  have "parse_int 8 ''90'' = Some 90" by code_simp
  then show ?thesis
    by (subst configuration_is_loaded_exactly [OF loader, of "[(''MAX_CONNS'', ''90'')]" "''.env''"
          "[(''MAX_CONNS'', ''80''), (''SECRET'', ''a = #b'')]"])
      (simp_all add: sample_file field_loaded_def sample_tags sample_fields set_config_value_def ex_bool_eq)
qed

lemma unmarshal_agrees_with_the_loader_witness:
  "unmarshal_fields sample_runtime \<lparr>cs_vars = [(''SECRET'', ''x'')], cs_environ = [(''MAX_CONNS'', ''90'')]\<rparr>
     [(conns_field, Cfg_Int 0), (secret_field, Cfg_Text [])]
   = ([(conns_field, Cfg_Int 90), (secret_field, Cfg_Text ''x'')], None)"
proof -
  let ?st = "\<lparr>cs_vars = [(''SECRET'', ''x'')], cs_environ = [(''MAX_CONNS'', ''90'')]\<rparr>"
  have "populate_struct sample_runtime (\<lambda>key. config_string ?st key []) [(conns_field, Cfg_Int 0), (secret_field, Cfg_Text [])]
      = ([(conns_field, Cfg_Int 90), (secret_field, Cfg_Text ''x'')], None)" by code_simp
  then show ?thesis
    by (rule unmarshal_agrees_with_the_loader [OF _ refl]) code_simp
qed

text \<open>Without these conditions they differ: a number that is too large for its field is refused by the loader and
  wrapped by \<^verbatim>\<open>Unmarshal\<close>.\<close>

lemma wide_numbers_wrap:
  "populate_field sample_runtime (\<lambda>key. ''300'') conns_field (Cfg_Int 0) = Inl (Invalid_Value ''MaxConns'' (Kind_Int 8))"
  "unmarshal_field sample_runtime \<lparr>cs_vars = [], cs_environ = [(''MAX_CONNS'', ''300'')]\<rparr> conns_field (Cfg_Int 0) = Inr (Cfg_Int 44)"
  by code_simp+

text \<open>\<^verbatim>\<open>LoadValue\<close> hands out the fields it had set before the one that failed.\<close>

lemma partial_value_is_exposed:
  "load_value sample_runtime (Some [(''MAX_CONNS'', ''90'')]) [(conns_field, Cfg_Int 0), (secret_field, Cfg_Text [])] None None
   = ([(conns_field, Cfg_Int 90), (secret_field, Cfg_Text [])], Some (Populate_Failed (Required_Missing ''Secret'') :: unit load_error))"
  by code_simp

text \<open>The file wins over the environment in \<^verbatim>\<open>Load\<close>, and loses against it in the loader.\<close>

lemma dotenv_precedence_differs:
  "config_string (load_lines [''PORT=80''] \<lparr>cs_vars = [], cs_environ = [(''PORT'', ''90'')]\<rparr>) ''PORT'' [] = ''80''"
  "loader_lookup (merge_values [(''PORT'', ''80'')] [(''PORT'', ''90'')]) ''PORT'' = ''90''"
  by code_simp+

text \<open>A masked secret shows six of its characters, which may be all but one of them.\<close>

lemma mask_shows_six: "6 < length s \<Longrightarrow> \<exists>a b m. s = a @ m @ b \<and> mask_secret s = a @ ''...'' @ b \<and> length a = 3 \<and> length b = 3"
proof -
  assume s: "6 < length s"
  have "drop (length s - 3) s = drop (length s - 6) (drop 3 s)" using s by simp
  then have "drop 3 s = take (length s - 6) (drop 3 s) @ drop (length s - 3) s" by (metis append_take_drop_id)
  then have "s = take 3 s @ take (length s - 6) (drop 3 s) @ drop (length s - 3) s" by (metis append_take_drop_id)
  then show ?thesis using s by (intro exI [of _ "take 3 s"] exI [of _ "drop (length s - 3) s"] exI) (auto simp: mask_secret_def)
qed

end
