(* ===== verification/Graphql_Guard.thy ===== *)
theory Graphql_Guard
  imports Search_Resource Request_Errors
begin

text \<open>
  \<^verbatim>\<open>autographql.go\<close> and \<^verbatim>\<open>search_binding.go\<close>: the registry of GraphQL fields with its cached schema, the
  limits a document must keep before it is executed, the handler, and the search routes. A document is what
  the parser of \<^verbatim>\<open>graphql-go\<close> delivers; parsing, building a schema and executing are parameters.
\<close>

section \<open>Documents\<close>

text \<open>A selection set may be nil, and so may the name of a fragment or of a spread.\<close>

datatype selection =
    Field_Selection "selection list option" | Inline_Fragment "selection list option"
  | Fragment_Spread "string option" | Other_Selection

datatype gql_definition =
    Operation_Definition "selection list option"
  | Fragment_Definition "string option" "selection list option"
  | Other_Definition

type_synonym fragments = "(string \<times> selection list option) list"

definition max_gql_query_length :: nat where "max_gql_query_length = 16384"
definition max_gql_fields :: nat where "max_gql_fields = 100"
definition max_gql_depth :: nat where "max_gql_depth = 12"

datatype gql_error = Query_Too_Long | Query_Not_Valid | Query_Too_Deep | Fragment_Cycle string | Query_Too_Many_Fields

fun graphql_fragments :: "gql_definition list \<Rightarrow> fragments \<Rightarrow> fragments" where
  "graphql_fragments [] frags = frags"
| "graphql_fragments (Fragment_Definition (Some n) sels # ds) frags = graphql_fragments ds (AList.update n sels frags)"
| "graphql_fragments (d # ds) frags = graphql_fragments ds frags"

text \<open>The loop over the selections of a set; it ends early once there are too many fields.\<close>

fun count_list :: "(selection \<Rightarrow> gql_error + nat) \<Rightarrow> selection list \<Rightarrow> nat \<Rightarrow> gql_error + nat" where
  "count_list one [] acc = Inr acc"
| "count_list one (s # ss) acc =
     (case one s of
        Inl e \<Rightarrow> Inl e
      | Inr n \<Rightarrow> if max_gql_fields < acc + n then Inr (acc + n) else count_list one ss (acc + n))"

text \<open>One selection: \<open>sub\<close> is the count of a selection set one level deeper, given the active fragments.\<close>

definition count_selection ::
    "fragments \<Rightarrow> (string list \<Rightarrow> selection list option \<Rightarrow> gql_error + nat) \<Rightarrow> string list \<Rightarrow> selection \<Rightarrow> gql_error + nat" where
  "count_selection frags sub active s =
     (case s of
        Field_Selection sels \<Rightarrow> (case sub active sels of Inl e \<Rightarrow> Inl e | Inr n \<Rightarrow> Inr (1 + n))
      | Inline_Fragment sels \<Rightarrow> sub active sels
      | Fragment_Spread None \<Rightarrow> Inr 0
      | Fragment_Spread (Some n) \<Rightarrow>
          (if n \<in> set active then Inl (Fragment_Cycle n)
           else (case map_of frags n of None \<Rightarrow> Inr 0 | Some sels \<Rightarrow> sub (n # active) sels))
      | Other_Selection \<Rightarrow> Inr 0)"

text \<open>\<^verbatim>\<open>countGraphQLSelections\<close>; \<open>levels\<close> is the number of depths left, \<open>maxGraphQLDepth + 1 - depth\<close>.\<close>

primrec count_selections :: "fragments \<Rightarrow> nat \<Rightarrow> string list \<Rightarrow> selection list option \<Rightarrow> gql_error + nat" where
  "count_selections frags 0 = (\<lambda>active sels. case sels of None \<Rightarrow> Inr 0 | Some _ \<Rightarrow> Inl Query_Too_Deep)"
| "count_selections frags (Suc levels) = (\<lambda>active sels.
     case sels of None \<Rightarrow> Inr 0
     | Some ss \<Rightarrow> count_list (count_selection frags (count_selections frags levels) active) ss 0)"

fun count_operations :: "fragments \<Rightarrow> gql_definition list \<Rightarrow> nat \<Rightarrow> gql_error + nat" where
  "count_operations frags [] acc = Inr acc"
| "count_operations frags (Operation_Definition sels # ds) acc =
     (case count_selections frags max_gql_depth [] sels of
        Inl e \<Rightarrow> Inl e
      | Inr n \<Rightarrow> count_operations frags ds (acc + n))"
| "count_operations frags (d # ds) acc = count_operations frags ds acc"

type_synonym gql_parser = "string \<Rightarrow> gql_definition list option"

definition validate_graphql_complexity :: "gql_parser \<Rightarrow> string \<Rightarrow> gql_error option" where
  "validate_graphql_complexity parse query =
     (if max_gql_query_length < length query then Some Query_Too_Long
      else (case parse query of
          None \<Rightarrow> Some Query_Not_Valid
        | Some ds \<Rightarrow>
            (case count_operations (graphql_fragments ds []) ds 0 of
               Inl e \<Rightarrow> Some e
             | Inr acc \<Rightarrow> if max_gql_fields < acc then Some Query_Too_Many_Fields else None)))"

section \<open>The registry of fields\<close>

text \<open>\<open>'f\<close> is a field and \<open>'s\<close> a schema of the library.\<close>

record ('f, 's) gql_registry =
  gr_fields :: "(string \<times> 'f) list"
  gr_schema :: "'s option"

datatype register_error = Bad_Field_Name string | Nil_Field string | Field_Exists string

text \<open>The regular expression \<^verbatim>\<open>^[_A-Za-z][_0-9A-Za-z]*$\<close>.\<close>

definition gql_field_name :: "string \<Rightarrow> bool" where
  "gql_field_name n \<longleftrightarrow>
     (case n of [] \<Rightarrow> False
      | c # cs \<Rightarrow> (letter c \<or> c = CHR ''_'') \<and> list_all (\<lambda>d. letter d \<or> is_digit d \<or> d = CHR ''_'') cs)"

definition register_gql_query ::
    "string \<Rightarrow> 'f option \<Rightarrow> ('f, 's) gql_registry \<Rightarrow> register_error option \<times> ('f, 's) gql_registry" where
  "register_gql_query n field reg =
     (if \<not> gql_field_name n then (Some (Bad_Field_Name n), reg)
      else (case field of
          None \<Rightarrow> (Some (Nil_Field n), reg)
        | Some f \<Rightarrow>
            if map_of (gr_fields reg) n \<noteq> None then (Some (Field_Exists n), reg)
            else (None, reg\<lparr>gr_fields := AList.update n f (gr_fields reg), gr_schema := None\<rparr>)))"

text \<open>\<^verbatim>\<open>autoGraphQLSchema\<close>: the field \<open>gpp\<close> replaces a registered one of that name.\<close>

definition schema_fields :: "'f \<Rightarrow> (string \<times> 'f) list \<Rightarrow> (string \<times> 'f) list" where
  "schema_fields gpp registered = AList.update ''gpp'' gpp registered"

definition auto_gql_schema ::
    "((string \<times> 'f) list \<Rightarrow> 's option) \<Rightarrow> 'f \<Rightarrow> ('f, 's) gql_registry \<Rightarrow> 's option \<times> ('f, 's) gql_registry" where
  "auto_gql_schema build gpp reg =
     (case gr_schema reg of
        Some s \<Rightarrow> (Some s, reg)
      | None \<Rightarrow>
          (case build (schema_fields gpp (gr_fields reg)) of
             None \<Rightarrow> (None, reg)
           | Some s \<Rightarrow> (Some s, reg\<lparr>gr_schema := Some s\<rparr>)))"

section \<open>The handler\<close>

record 'v gql_request =
  gq_query :: string
  gq_operation :: string
  gq_variables :: 'v

text \<open>The answer: a status and one message, or what the execution returned, without its error texts.\<close>

datatype 'd gql_reply = Gql_Message int string | Gql_Failed 'd | Gql_Data 'd

definition gql_error_text :: "gql_error \<Rightarrow> string" where
  "gql_error_text e =
     (case e of
        Query_Too_Long \<Rightarrow> ''GraphQL query exceeds 16384 bytes''
      | Query_Not_Valid \<Rightarrow> ''invalid GraphQL query''
      | Query_Too_Deep \<Rightarrow> ''GraphQL query exceeds depth 12''
      | Fragment_Cycle n \<Rightarrow> ''GraphQL fragment cycle detected at '' @ [CHR 0x22] @ n @ [CHR 0x22]
      | Query_Too_Many_Fields \<Rightarrow> ''GraphQL query exceeds 100 fields'')"

text \<open>\<open>run\<close> executes a query on a schema: the errors it reports and the data. \<open>None\<close> for the request is a
  body that does not bind.\<close>

definition auto_graphql_handler ::
    "gql_parser \<Rightarrow> ((string \<times> 'f) list \<Rightarrow> 's option) \<Rightarrow> 'f
       \<Rightarrow> ('s \<Rightarrow> string \<Rightarrow> string \<Rightarrow> 'v \<Rightarrow> string list \<times> 'd) \<Rightarrow> 'v gql_request option
       \<Rightarrow> ('f, 's) gql_registry \<Rightarrow> 'd gql_reply \<times> ('f, 's) gql_registry" where
  "auto_graphql_handler parse build gpp run req reg =
     (case req of
        None \<Rightarrow> (Gql_Message 400 ''Invalid GraphQL request body'', reg)
      | Some r \<Rightarrow>
          let q = trim_space (gq_query r)
          in if q = [] then (Gql_Message 400 ''Query cannot be empty'', reg)
             else (case validate_graphql_complexity parse q of
                 Some e \<Rightarrow> (Gql_Message 400 (gql_error_text e), reg)
               | None \<Rightarrow>
                   (case auto_gql_schema build gpp reg of
                      (None, reg) \<Rightarrow> (Gql_Message 500 ''GraphQL service is unavailable'', reg)
                    | (Some s, reg) \<Rightarrow>
                        (case run s q (gq_operation r) (gq_variables r) of
                           (errors, data) \<Rightarrow> (if errors = [] then Gql_Data data else Gql_Failed data, reg)))))"

section \<open>Search routes\<close>

text \<open>\<^verbatim>\<open>BindSearchResource\<close>: \<open>show\<close> prints an error of the request; a failed search is not explained.\<close>

definition bind_search_resource ::
    "go_runtime \<Rightarrow> (search_error \<Rightarrow> string) \<Rightarrow> schema \<Rightarrow> (search_request \<Rightarrow> 'e + search_result)
       \<Rightarrow> problem + search_request \<Rightarrow> problem + search_result" where
  "bind_search_resource rt show s search bound =
     (case bound of
        Inl p \<Rightarrow> Inl p
      | Inr request \<Rightarrow>
          (case normalize_request rt s request of
             Inl e \<Rightarrow> Inl (err_bad_request (show e))
           | Inr _ \<Rightarrow> (case search request of
               Inl _ \<Rightarrow> Inl (err_internal ''search execution failed'')
             | Inr result \<Rightarrow> Inr result)))"

datatype gql_literal =
    Lit_String string | Lit_Boolean bool | Lit_Int string | Lit_Float string | Lit_Enum string
  | Lit_List "gql_literal list" | Lit_Object "(string \<times> gql_literal) list" | Lit_Variable string

datatype 'x json_value =
    J_Text string | J_Bool bool | J_Int int | J_Float 'x | J_List "'x json_value list"
  | J_Object "(string \<times> 'x json_value) list" | J_Opaque string

text \<open>\<^verbatim>\<open>strconv.ParseInt\<close> with its error dropped: a number that is too large becomes the nearest one.\<close>

definition parse_int_lossy :: "string \<Rightarrow> int" where
  "parse_int_lossy s =
     (let (neg, ds) = (case s of [] \<Rightarrow> (False, [])
            | c # cs \<Rightarrow> if c = CHR ''-'' then (True, cs) else if c = CHR ''+'' then (False, cs) else (False, s))
      in if ds = [] then 0
         else (case digits_value 0 ds of
             None \<Rightarrow> 0
           | Some n \<Rightarrow> if neg then max (- (2 ^ 63)) (- int n) else min (2 ^ 63 - 1) (int n)))"

fun parse_json_literal :: "(string \<Rightarrow> 'x) \<Rightarrow> gql_literal \<Rightarrow> 'x json_value" where
  "parse_json_literal flt (Lit_String s) = J_Text s"
| "parse_json_literal flt (Lit_Boolean b) = J_Bool b"
| "parse_json_literal flt (Lit_Int s) = J_Int (parse_int_lossy s)"
| "parse_json_literal flt (Lit_Float s) = J_Float (flt s)"
| "parse_json_literal flt (Lit_Enum s) = J_Text s"
| "parse_json_literal flt (Lit_List vs) = J_List (map (parse_json_literal flt) vs)"
| "parse_json_literal flt (Lit_Object fs) =
     J_Object (fold (\<lambda>(k, v). AList.update k v) (map (\<lambda>(k, v). (k, parse_json_literal flt v)) fs) [])"
| "parse_json_literal flt (Lit_Variable s) = J_Opaque s"

text \<open>\<^verbatim>\<open>graphQLSearchResult\<close> lists the facets in the order of their fields.\<close>

definition gql_facets :: "(string \<times> 'b) list \<Rightarrow> (string \<times> 'b) list" where
  "gql_facets facets = map (\<lambda>f. (f, the (map_of facets f))) (sort_by str_compare (map fst facets))"

section \<open>What the limits mean\<close>

text \<open>Within \<open>l\<close> levels a selection set expands to \<open>n\<close> fields: every field counts once and again what it
  selects, a spread stands for its fragment, and no fragment lies inside itself.\<close>

inductive expansion :: "fragments \<Rightarrow> nat \<Rightarrow> string list \<Rightarrow> selection list option \<Rightarrow> nat \<Rightarrow> bool" for frags where
  no_set: "expansion frags l active None 0"
| empty_set: "expansion frags (Suc l) active (Some []) 0"
| field: "expansion frags l active sels n \<Longrightarrow> expansion frags (Suc l) active (Some ss) m
    \<Longrightarrow> expansion frags (Suc l) active (Some (Field_Selection sels # ss)) (1 + n + m)"
| inline: "expansion frags l active sels n \<Longrightarrow> expansion frags (Suc l) active (Some ss) m
    \<Longrightarrow> expansion frags (Suc l) active (Some (Inline_Fragment sels # ss)) (n + m)"
| spread: "map_of frags f = Some sels \<Longrightarrow> f \<notin> set active \<Longrightarrow> expansion frags l (f # active) sels n
    \<Longrightarrow> expansion frags (Suc l) active (Some ss) m
    \<Longrightarrow> expansion frags (Suc l) active (Some (Fragment_Spread (Some f) # ss)) (n + m)"
| unknown: "map_of frags f = None \<Longrightarrow> f \<notin> set active \<Longrightarrow> expansion frags (Suc l) active (Some ss) m
    \<Longrightarrow> expansion frags (Suc l) active (Some (Fragment_Spread (Some f) # ss)) m"
| unnamed: "expansion frags (Suc l) active (Some ss) m
    \<Longrightarrow> expansion frags (Suc l) active (Some (Fragment_Spread None # ss)) m"
| other: "expansion frags (Suc l) active (Some ss) m
    \<Longrightarrow> expansion frags (Suc l) active (Some (Other_Selection # ss)) m"

inductive operations_expand :: "fragments \<Rightarrow> gql_definition list \<Rightarrow> nat \<Rightarrow> bool" for frags where
  "operations_expand frags [] 0"
| "expansion frags max_gql_depth [] sels n \<Longrightarrow> operations_expand frags ds m
    \<Longrightarrow> operations_expand frags (Operation_Definition sels # ds) (n + m)"
| "operations_expand frags ds m \<Longrightarrow> operations_expand frags (Fragment_Definition f sels # ds) m"
| "operations_expand frags ds m \<Longrightarrow> operations_expand frags (Other_Definition # ds) m"

text \<open>A count that is exact up to the limit of fields and beyond it only says so.\<close>

definition counts :: "gql_error + nat \<Rightarrow> nat \<Rightarrow> bool" where
  "counts r n \<longleftrightarrow> (if n \<le> max_gql_fields then r = Inr n else \<exists>k. r = Inr k \<and> max_gql_fields < k)"

lemma counts_Cons:
  assumes one: "counts (one s) n" and rest: "\<And>acc. acc \<le> max_gql_fields \<Longrightarrow> counts (count_list one ss acc) (acc + m)"
    and "acc \<le> max_gql_fields"
  shows "counts (count_list one (s # ss) acc) (acc + (n + m))"
proof (cases "acc + n \<le> max_gql_fields")
  case True
  then have "one s = Inr n" using one by (simp add: counts_def)
  then show ?thesis using True rest [OF True] by (simp add: add.assoc)
next
  case False
  then obtain k where "one s = Inr k" "max_gql_fields < acc + k"
    using one by (cases "n \<le> max_gql_fields") (auto simp: counts_def)
  then show ?thesis using False by (simp add: counts_def)
qed

lemma expansion_counts:
  assumes "expansion frags l active sels n"
  shows "counts (count_selections frags l active sels) n
    \<and> (\<forall>ss l'. sels = Some ss \<longrightarrow> l = Suc l' \<longrightarrow> (\<forall>acc. acc \<le> max_gql_fields \<longrightarrow>
         counts (count_list (count_selection frags (count_selections frags l') active) ss acc) (acc + n)))"
  using assms
proof induction
  case (no_set l active)
  then show ?case by (cases l) (simp_all add: counts_def)
next
  case (empty_set l active)
  then show ?case by (simp add: counts_def)
next
  case (field l active sels n ss m)
  let ?one = "count_selection frags (count_selections frags l) active"
  have "counts (?one (Field_Selection sels)) (1 + n)"
    using field.IH(1) by (auto simp: count_selection_def counts_def split: if_splits)
  then have "counts (count_list ?one (Field_Selection sels # ss) acc) (acc + ((1 + n) + m))" if "acc \<le> max_gql_fields" for acc
    using field.IH(2) that by (intro counts_Cons) auto
  from this this [of 0] show ?case by (simp add: add.assoc)
next
  case (inline l active sels n ss m)
  let ?one = "count_selection frags (count_selections frags l) active"
  have "counts (?one (Inline_Fragment sels)) n" using inline.IH(1) by (simp add: count_selection_def)
  then have "counts (count_list ?one (Inline_Fragment sels # ss) acc) (acc + (n + m))" if "acc \<le> max_gql_fields" for acc
    using inline.IH(2) that by (intro counts_Cons) auto
  from this this [of 0] show ?case by simp
next
  case (spread f sels active l n ss m)
  let ?one = "count_selection frags (count_selections frags l) active"
  have "counts (?one (Fragment_Spread (Some f))) n" using spread by (simp add: count_selection_def)
  then have "counts (count_list ?one (Fragment_Spread (Some f) # ss) acc) (acc + (n + m))" if "acc \<le> max_gql_fields" for acc
    using spread.IH(2) that by (intro counts_Cons) auto
  from this this [of 0] show ?case by simp
qed (auto simp: count_selection_def)

lemma count_list_Cons_Inr:
  "count_list one (s # ss) acc = Inr k \<Longrightarrow> k \<le> max_gql_fields
     \<Longrightarrow> \<exists>n. one s = Inr n \<and> n \<le> max_gql_fields \<and> count_list one ss (acc + n) = Inr k"
  by (auto split: sum.splits if_splits)

lemma counted_expansion:
  "count_selections frags l active sels = Inr n \<Longrightarrow> n \<le> max_gql_fields \<Longrightarrow> expansion frags l active sels n"
proof (induction l arbitrary: active sels n)
  case 0
  then show ?case by (auto intro: expansion.intros split: option.splits)
next
  case (Suc l)
  let ?one = "count_selection frags (count_selections frags l) active"
  have walk: "count_list ?one ss acc = Inr k \<Longrightarrow> k \<le> max_gql_fields \<Longrightarrow> \<exists>m. k = acc + m \<and> expansion frags (Suc l) active (Some ss) m"
    for ss acc k
  proof (induction ss arbitrary: acc)
    case Nil
    then show ?case by (auto intro: expansion.intros)
  next
    case (Cons s ss)
    obtain n where n: "?one s = Inr n" "n \<le> max_gql_fields" and rest: "count_list ?one ss (acc + n) = Inr k"
      using count_list_Cons_Inr [OF Cons.prems] by blast
    obtain m where m: "k = acc + n + m" "expansion frags (Suc l) active (Some ss) m"
      using Cons.IH [OF rest Cons.prems(2)] by blast
    have "expansion frags (Suc l) active (Some (s # ss)) (n + m)"
    proof (cases s)
      case (Field_Selection sels)
      then obtain i where "count_selections frags l active sels = Inr i" "n = 1 + i"
        using n(1) by (auto simp: count_selection_def split: sum.splits)
      then show ?thesis using Suc.IH [of active sels i] n(2) m(2) expansion.field by (auto simp: Field_Selection)
    next
      case (Inline_Fragment sels)
      then show ?thesis using Suc.IH [of active sels n] n m(2) expansion.inline by (auto simp: count_selection_def)
    next
      case (Fragment_Spread f)
      show ?thesis
      proof (cases f)
        case None
        then show ?thesis using n m(2) expansion.unnamed by (auto simp: count_selection_def Fragment_Spread)
      next
        case (Some nm)
        then have fresh: "nm \<notin> set active" using n(1) by (auto simp: count_selection_def Fragment_Spread split: if_splits)
        show ?thesis
        proof (cases "map_of frags nm")
          case None
          then show ?thesis
            using n m(2) fresh expansion.unknown [OF None fresh] by (auto simp: count_selection_def Fragment_Spread Some)
        next
          case sels: (Some sels)
          then have "count_selections frags l (nm # active) sels = Inr n"
            using n(1) fresh by (simp add: count_selection_def Fragment_Spread Some)
          then show ?thesis
            using expansion.spread [OF sels fresh Suc.IH m(2)] n(2) by (simp add: Fragment_Spread Some)
        qed
      qed
    next
      case Other_Selection
      then show ?thesis using n m(2) expansion.other by (auto simp: count_selection_def)
    qed
    then show ?case using m(1) by (intro exI [of _ "n + m"]) simp
  qed
  show ?case
  proof (cases sels)
    case None
    then show ?thesis using Suc.prems expansion.no_set by auto
  next
    case (Some ss)
    then have "count_list ?one ss 0 = Inr n" using Suc.prems by simp
    from walk [OF this Suc.prems(2)] show ?thesis by (auto simp: Some)
  qed
qed

lemma count_operations_iff:
  assumes "acc \<le> max_gql_fields"
  shows "(\<exists>k. count_operations frags ds acc = Inr k \<and> k \<le> max_gql_fields)
    \<longleftrightarrow> (\<exists>n. operations_expand frags ds n \<and> acc + n \<le> max_gql_fields)"
  using assms
proof (induction frags ds acc rule: count_operations.induct)
  case (1 frags acc)
  then show ?case by (auto intro: operations_expand.intros)
next
  case (2 frags sels ds acc)
  have grows: "count_operations frags ds a = Inr k \<Longrightarrow> a \<le> k" for a k
    by (induction frags ds a rule: count_operations.induct) (auto split: sum.splits)
  show ?case (is "?l \<longleftrightarrow> ?r")
  proof
    assume ?l
    then obtain n k where n: "count_selections frags max_gql_depth [] sels = Inr n"
      and k: "count_operations frags ds (acc + n) = Inr k" "k \<le> max_gql_fields"
      by (auto split: sum.splits)
    have le: "acc + n \<le> max_gql_fields" using grows [OF k(1)] k(2) by simp
    then obtain m where "operations_expand frags ds m" "acc + n + m \<le> max_gql_fields"
      using "2.IH" [OF n] k by blast
    then show ?r
      using operations_expand.intros(2) [OF counted_expansion [OF n]] le by (intro exI [of _ "n + m"]) simp
  next
    assume ?r
    then obtain n m where n: "expansion frags max_gql_depth [] sels n" and m: "operations_expand frags ds m"
      and le: "acc + (n + m) \<le> max_gql_fields"
      by (auto elim: operations_expand.cases)
    have count: "count_selections frags max_gql_depth [] sels = Inr n"
      using expansion_counts [OF n] le by (simp add: counts_def)
    moreover have "\<exists>k. count_operations frags ds (acc + n) = Inr k \<and> k \<le> max_gql_fields"
      using "2.IH" [OF count] m le by (auto simp: add.assoc)
    ultimately show ?l by simp
  qed
qed (auto intro: operations_expand.intros elim: operations_expand.cases)

text \<open>C16. The check before the execution accepts a query exactly when it is at most 16 KiB long, parses, and its
  operations expand, all fragments included, to at most 100 fields within 12 levels without a fragment
  inside itself.\<close>

theorem accepted_queries_expand_within_limits:
  "validate_graphql_complexity parse q = None \<longleftrightarrow>
     length q \<le> max_gql_query_length \<and>
     (\<exists>ds n. parse q = Some ds \<and> operations_expand (graphql_fragments ds []) ds n \<and> n \<le> max_gql_fields)"
proof (cases "parse q")
  case (Some ds)
  have "(case count_operations (graphql_fragments ds []) ds 0 of
           Inl e \<Rightarrow> Some e | Inr acc \<Rightarrow> if max_gql_fields < acc then Some Query_Too_Many_Fields else None) = None
        \<longleftrightarrow> (\<exists>k. count_operations (graphql_fragments ds []) ds 0 = Inr k \<and> k \<le> max_gql_fields)"
    by (auto split: sum.splits)
  then show ?thesis
    using count_operations_iff [of 0 "graphql_fragments ds []" ds] by (auto simp: validate_graphql_complexity_def Some)
qed (simp add: validate_graphql_complexity_def)

text \<open>A selection set that is reached from an operation, with its depth.\<close>

inductive lies_at :: "gql_definition list \<Rightarrow> nat \<Rightarrow> selection list \<Rightarrow> bool" for ds where
  "Operation_Definition (Some ss) \<in> set ds \<Longrightarrow> lies_at ds 1 ss"
| "lies_at ds d ss \<Longrightarrow> Field_Selection (Some cs) \<in> set ss \<Longrightarrow> lies_at ds (Suc d) cs"
| "lies_at ds d ss \<Longrightarrow> Inline_Fragment (Some cs) \<in> set ss \<Longrightarrow> lies_at ds (Suc d) cs"
| "lies_at ds d ss \<Longrightarrow> Fragment_Spread (Some f) \<in> set ss \<Longrightarrow> map_of (graphql_fragments ds []) f = Some (Some cs)
    \<Longrightarrow> lies_at ds (Suc d) cs"

lemma operation_expands:
  "operations_expand frags ds n \<Longrightarrow> Operation_Definition (Some ss) \<in> set ds \<Longrightarrow> \<exists>m. expansion frags max_gql_depth [] (Some ss) m"
  by (induction rule: operations_expand.induct) auto

lemma expansion_Some: "expansion frags l active (Some ss) n \<Longrightarrow> \<exists>l'. l = Suc l'"
  by (erule expansion.cases) auto

lemma expansion_member:
  assumes "expansion frags l active sels n" "sels = Some ss"
  shows "(\<forall>cs. Field_Selection cs \<in> set ss \<or> Inline_Fragment cs \<in> set ss \<longrightarrow> (\<exists>m. expansion frags (l - 1) active cs m))
    \<and> (\<forall>f cs. Fragment_Spread (Some f) \<in> set ss \<longrightarrow> map_of frags f = Some cs \<longrightarrow> (\<exists>m. expansion frags (l - 1) (f # active) cs m))"
  using assms by (induction arbitrary: ss) (auto, blast)

lemma lies_at_depth:
  assumes "operations_expand (graphql_fragments ds []) ds n" "lies_at ds d ss"
  shows "0 < d \<and> d \<le> max_gql_depth \<and> (\<exists>active m. expansion (graphql_fragments ds []) (Suc max_gql_depth - d) active (Some ss) m)"
  using assms(2)
proof induction
  case (1 ss)
  then show ?case using operation_expands [OF assms(1)] by (simp add: max_gql_depth_def) blast
next
  case (2 d ss cs)
  then obtain m active where "expansion (graphql_fragments ds []) (Suc max_gql_depth - d - 1) active (Some cs) m"
    using expansion_member [OF _ refl] by blast
  then show ?case using 2 expansion_Some by fastforce
next
  case (3 d ss cs)
  then obtain m active where "expansion (graphql_fragments ds []) (Suc max_gql_depth - d - 1) active (Some cs) m"
    using expansion_member [OF _ refl] by blast
  then show ?case using 3 expansion_Some by fastforce
next
  case (4 d ss f cs)
  then obtain m active where "expansion (graphql_fragments ds []) (Suc max_gql_depth - d - 1) active (Some cs) m"
    using expansion_member [OF _ refl] by blast
  then show ?case using 4 expansion_Some by fastforce
qed

lemma accepted_query_document:
  assumes "validate_graphql_complexity parse q = None"
  shows "\<exists>ds n. parse q = Some ds \<and> operations_expand (graphql_fragments ds []) ds n"
proof -
  obtain ds k where ds: "parse q = Some ds" and k: "count_operations (graphql_fragments ds []) ds 0 = Inr k" "k \<le> max_gql_fields"
    using assms by (auto simp: validate_graphql_complexity_def split: option.splits sum.splits if_splits)
  have "\<exists>n. operations_expand (graphql_fragments ds []) ds n \<and> 0 + n \<le> max_gql_fields"
    using count_operations_iff [of 0 "graphql_fragments ds []" ds] k by blast
  then show ?thesis using ds by blast
qed

text \<open>The handler executes only queries in which every selection set that is reached, through spreads too, lies at
  depth 12 or less, so a fragment never reaches itself.\<close>

theorem executed_queries_are_shallow:
  assumes "auto_graphql_handler parse build gpp run (Some r) reg = (reply, reg')" "\<forall>m. reply \<noteq> Gql_Message 400 m"
  shows "\<exists>ds. parse (trim_space (gq_query r)) = Some ds \<and> (\<forall>d ss. lies_at ds d ss \<longrightarrow> d \<le> max_gql_depth)"
proof -
  have "validate_graphql_complexity parse (trim_space (gq_query r)) = None"
    using assms by (auto simp: auto_graphql_handler_def Let_def split: if_splits option.splits)
  then show ?thesis using accepted_query_document lies_at_depth by blast
qed

section \<open>The cached schema\<close>

text \<open>The cached schema is always the one of the registered fields.\<close>

definition registry_ok :: "((string \<times> 'f) list \<Rightarrow> 's option) \<Rightarrow> 'f \<Rightarrow> ('f, 's) gql_registry \<Rightarrow> bool" where
  "registry_ok build gpp reg \<longleftrightarrow> (\<forall>s. gr_schema reg = Some s \<longrightarrow> build (schema_fields gpp (gr_fields reg)) = Some s)"

lemma register_gql_query_ok:
  "registry_ok build gpp reg \<Longrightarrow> registry_ok build gpp (snd (register_gql_query n field reg))"
  by (auto simp: registry_ok_def register_gql_query_def split: option.splits)

lemma auto_gql_schema_ok:
  "registry_ok build gpp reg \<Longrightarrow> auto_gql_schema build gpp reg = (s, reg')
     \<Longrightarrow> registry_ok build gpp reg' \<and> s = build (schema_fields gpp (gr_fields reg)) \<and> gr_fields reg' = gr_fields reg"
  by (auto simp: registry_ok_def auto_gql_schema_def split: option.splits)

text \<open>A registered field named \<open>gpp\<close> is accepted and never served.\<close>

lemma gpp_field_is_replaced:
  "fst (register_gql_query ''gpp'' (Some f) \<lparr>gr_fields = [], gr_schema = None\<rparr>) = None"
  "map_of (schema_fields gpp (gr_fields reg)) ''gpp'' = Some gpp"
  by (simp_all add: register_gql_query_def gql_field_name_def letter_def byte_in_def schema_fields_def update_conv')

text \<open>A literal beyond 64 bits is silently the largest number.\<close>

lemma large_literals_are_clamped: "parse_int_lossy ''99999999999999999999'' = 9223372036854775807"
  by (simp add: parse_int_lossy_def)

section \<open>Concrete queries and the cost of the check\<close>

definition sample_query_document :: "gql_definition list" where
  "sample_query_document =
     [Operation_Definition (Some [Field_Selection None, Fragment_Spread (Some ''f'')]),
      Fragment_Definition (Some ''f'') (Some [Field_Selection (Some [Field_Selection None])])]"

lemma executed_queries_are_shallow_witness:
  "\<exists>ds. Some sample_query_document = Some ds \<and> (\<forall>d ss. lies_at ds d ss \<longrightarrow> d \<le> max_gql_depth)"
proof -
  let ?r = "\<lparr>gq_query = '' {a} '', gq_operation = [], gq_variables = ()\<rparr>"
  have check: "validate_graphql_complexity (\<lambda>q. Some sample_query_document) (trim_space '' {a} '') = None"
    by code_simp
  have "trim_space '' {a} '' \<noteq> []" by code_simp
  then have "auto_graphql_handler (\<lambda>q. Some sample_query_document) Some () (\<lambda>s q operation v. ([], ())) (Some ?r)
      \<lparr>gr_fields = [], gr_schema = None\<rparr> =
    (Gql_Data (), \<lparr>gr_fields = [], gr_schema = Some (schema_fields () [])\<rparr>)"
    by (simp add: auto_graphql_handler_def check auto_gql_schema_def)
  from executed_queries_are_shallow [OF this] show ?thesis by simp
qed

text \<open>How many selections the count looks at, with the same early exit.\<close>

fun visit_list :: "(selection \<Rightarrow> gql_error + nat) \<Rightarrow> (selection \<Rightarrow> nat) \<Rightarrow> selection list \<Rightarrow> nat \<Rightarrow> nat" where
  "visit_list one cost [] acc = 0"
| "visit_list one cost (s # ss) acc =
     1 + cost s + (case one s of
        Inl e \<Rightarrow> 0
      | Inr n \<Rightarrow> if max_gql_fields < acc + n then 0 else visit_list one cost ss (acc + n))"

definition visit_selection ::
    "fragments \<Rightarrow> (string list \<Rightarrow> selection list option \<Rightarrow> nat) \<Rightarrow> string list \<Rightarrow> selection \<Rightarrow> nat" where
  "visit_selection frags sub active s =
     (case s of
        Field_Selection sels \<Rightarrow> sub active sels
      | Inline_Fragment sels \<Rightarrow> sub active sels
      | Fragment_Spread (Some n) \<Rightarrow>
          (if n \<in> set active then 0 else (case map_of frags n of None \<Rightarrow> 0 | Some sels \<Rightarrow> sub (n # active) sels))
      | _ \<Rightarrow> 0)"

primrec selections_visited :: "fragments \<Rightarrow> nat \<Rightarrow> string list \<Rightarrow> selection list option \<Rightarrow> nat" where
  "selections_visited frags 0 = (\<lambda>active sels. 0)"
| "selections_visited frags (Suc levels) = (\<lambda>active sels.
     case sels of None \<Rightarrow> 0
     | Some ss \<Rightarrow> visit_list (count_selection frags (count_selections frags levels) active)
         (visit_selection frags (selections_visited frags levels) active) ss 0)"

text \<open>Fragment \<open>i\<close> spreads fragment \<open>i + 1\<close> \<open>w\<close> times; the last one spreads a fragment that does not exist.\<close>

definition nth_fragment :: "nat \<Rightarrow> string" where
  "nth_fragment i = replicate i (CHR ''a'') @ ''b''"

definition spreads :: "nat \<Rightarrow> nat \<Rightarrow> selection list option" where
  "spreads w i = Some (replicate w (Fragment_Spread (Some (nth_fragment i))))"

definition fragment_chain :: "nat \<Rightarrow> nat \<Rightarrow> fragments" where
  "fragment_chain w k = map (\<lambda>i. (nth_fragment i, spreads w (Suc i))) [0..<k]"

lemma nth_fragment_eq [simp]: "nth_fragment i = nth_fragment j \<longleftrightarrow> i = j"
  by (auto simp: nth_fragment_def dest: arg_cong [of _ _ length])

lemma fragment_chain_lookup: "map_of (fragment_chain w k) (nth_fragment i) = (if i < k then Some (spreads w (Suc i)) else None)"
proof -
  have "map_of (map (\<lambda>i. (nth_fragment i, spreads w (Suc i))) is) (nth_fragment i) =
      (if i \<in> set is then Some (spreads w (Suc i)) else None)" for "is"
    by (induction "is") auto
  then show ?thesis by (simp add: fragment_chain_def)
qed

lemma count_replicate: "one s = Inr 0 \<Longrightarrow> count_list one (replicate w s) 0 = Inr 0"
  by (induction w) simp_all

lemma visit_replicate: "one s = Inr 0 \<Longrightarrow> visit_list one cost (replicate w s) 0 = w * (1 + cost s)"
  by (induction w) simp_all

lemma chain_cost:
  "k - i \<le> l \<Longrightarrow> i \<le> k \<Longrightarrow> \<forall>j. nth_fragment j \<in> set active \<longrightarrow> j < i \<Longrightarrow>
     count_selections (fragment_chain w k) (Suc l) active (spreads w i) = Inr 0
     \<and> w ^ Suc (k - i) \<le> selections_visited (fragment_chain w k) (Suc l) active (spreads w i)"
proof (induction l arbitrary: i active)
  case 0
  let ?s = "Fragment_Spread (Some (nth_fragment i))"
  have "nth_fragment i \<notin> set active" "i = k" using 0 by auto
  then have one: "count_selection (fragment_chain w k) (count_selections (fragment_chain w k) 0) active ?s = Inr 0"
    by (simp add: count_selection_def fragment_chain_lookup)
  then show ?case using \<open>i = k\<close> by (simp add: spreads_def count_replicate visit_replicate del: count_selections.simps(1))
next
  case (Suc l)
  let ?F = "fragment_chain w k" and ?s = "Fragment_Spread (Some (nth_fragment i))"
  have fresh: "nth_fragment i \<notin> set active" using Suc.prems(3) by auto
  show ?case
  proof (cases "i < k")
    case True
    have sub: "count_selections ?F (Suc l) (nth_fragment i # active) (spreads w (Suc i)) = Inr 0
      \<and> w ^ Suc (k - Suc i) \<le> selections_visited ?F (Suc l) (nth_fragment i # active) (spreads w (Suc i))"
      using Suc.prems True by (intro Suc.IH) auto
    have one: "count_selection ?F (count_selections ?F (Suc l)) active ?s = Inr 0"
      using sub fresh True by (simp add: count_selection_def fragment_chain_lookup del: count_selections.simps)
    have cost: "w ^ Suc (k - Suc i) \<le> visit_selection ?F (selections_visited ?F (Suc l)) active ?s"
      using sub fresh True by (simp add: visit_selection_def fragment_chain_lookup del: selections_visited.simps)
    have "w ^ Suc (k - i) = w * w ^ Suc (k - Suc i)" using True by (simp add: Suc_diff_Suc flip: power_Suc)
    also have "\<dots> \<le> w * (1 + visit_selection ?F (selections_visited ?F (Suc l)) active ?s)"
      using cost by (intro mult_left_mono) auto
    finally show ?thesis
      using one by (simp add: spreads_def [of w i] count_replicate visit_replicate
        selections_visited.simps(2) [of ?F "Suc l"] count_selections.simps(2) [of ?F "Suc l"]
        del: selections_visited.simps count_selections.simps)
  next
    case False
    then have "i = k" using Suc.prems by simp
    have one: "count_selection ?F (count_selections ?F (Suc l)) active ?s = Inr 0"
      using fresh \<open>i = k\<close> by (simp add: count_selection_def fragment_chain_lookup del: count_selections.simps)
    then show ?thesis
      using \<open>i = k\<close> by (simp add: spreads_def [of w k] count_replicate visit_replicate
        selections_visited.simps(2) [of ?F "Suc l"] count_selections.simps(2) [of ?F "Suc l"]
        del: selections_visited.simps count_selections.simps)
  qed
qed

text \<open>Spreads that end in a missing fragment count no field, so no limit stops the count: a document of 11
  fragments with \<open>w\<close> spreads each counts as no field at all and is looked at \<open>w ^ 12\<close> times.\<close>

theorem missing_fragments_defeat_the_limit:
  "count_selections (fragment_chain w 11) max_gql_depth [] (spreads w 0) = Inr 0
   \<and> w ^ 12 \<le> selections_visited (fragment_chain w 11) max_gql_depth [] (spreads w 0)"
proof -
  have "max_gql_depth = Suc 11" "Suc (11 - 0) = (12 :: nat)" by (simp_all add: max_gql_depth_def)
  then show ?thesis using chain_cost [of 11 0 11 "[]" w] by simp
qed

end
