(* ===== verification/Edge_Middleware.thy ===== *)
theory Edge_Middleware
  imports Complex_Main Singleflight Context_Values Context_Chain Ids
begin

text \<open>
  The middlewares that only look at the request's header and set the response's: \<^verbatim>\<open>middleware/cors.go\<close>,
  \<^verbatim>\<open>middleware/security.go\<close>, \<^verbatim>\<open>middleware/requestid.go\<close>, \<^verbatim>\<open>versioning/versioning.go\<close>, \<^verbatim>\<open>tenant/tenant.go\<close>, the
  counters of \<^verbatim>\<open>middleware/observability.go\<close> and the defaults of \<^verbatim>\<open>auto_app.go\<close>. A middleware maps the
  response and the values of the request so far to new ones and says whether it calls \<^verbatim>\<open>Next\<close>.
\<close>

section \<open>Requests and responses\<close>

record edge_request =
  er_method :: string
  er_header :: http_header
  er_query :: "string \<Rightarrow> string"
  er_host :: string
  er_tls :: bool

record edge_response =
  es_header :: http_header
  es_values :: "unit ctx_values"
  es_status :: "int option"
  es_aborted :: bool

definition fresh_response :: edge_response where
  "fresh_response = \<lparr>es_header = [], es_values = [], es_status = None, es_aborted = False\<rparr>"

definition set_header :: "string \<Rightarrow> string \<Rightarrow> edge_response \<Rightarrow> edge_response" where
  "set_header k v s = s\<lparr>es_header := AList.update (canonical_header_key k) [v] (es_header s)\<rparr>"

definition set_value :: "string \<Rightarrow> string \<Rightarrow> edge_response \<Rightarrow> edge_response" where
  "set_value k v s = s\<lparr>es_values := ctx_set k (Text_Val v) (es_values s)\<rparr>"

definition set_header_unless_empty :: "string \<Rightarrow> string \<Rightarrow> edge_response \<Rightarrow> edge_response" where
  "set_header_unless_empty k v s = (if v = [] then s else set_header k v s)"

text \<open>\<^verbatim>\<open>Status\<close> writes the header once; a later status is ignored by \<^verbatim>\<open>net/http\<close>.\<close>

definition write_status :: "int \<Rightarrow> edge_response \<Rightarrow> edge_response" where
  "write_status code s = (case es_status s of None \<Rightarrow> s\<lparr>es_status := Some code\<rparr> | Some _ \<Rightarrow> s)"

type_synonym middleware = "edge_request \<Rightarrow> edge_response \<Rightarrow> edge_response \<times> bool"

section \<open>Cross-origin requests\<close>

record cors_config =
  allow_origins :: "string list"
  allow_methods :: "string list"
  allow_headers :: "string list"
  expose_headers :: "string list"
  allow_credentials :: bool
  cors_max_age :: string

definition default_cors_config :: cors_config where
  "default_cors_config =
     \<lparr>allow_origins = [''*''], allow_methods = [''GET'', ''POST'', ''PUT'', ''DELETE'', ''PATCH'', ''OPTIONS''],
      allow_headers = [''Origin'', ''Content-Type'', ''Accept'', ''Authorization'', ''X-Requested-With''],
      expose_headers = [], allow_credentials = False, cors_max_age = ''86400''\<rparr>"

definition cors_origin :: "cors_config \<Rightarrow> string \<Rightarrow> edge_response \<Rightarrow> edge_response" where
  "cors_origin cfg origin s =
     (if allow_origins cfg = [''*''] then set_header ''Access-Control-Allow-Origin'' ''*'' s
      else if list_ex (\<lambda>allowed. allowed = ''*'' \<or> allowed = origin) (allow_origins cfg)
      then set_header ''Access-Control-Allow-Origin'' origin s
      else s)"

definition cors :: "cors_config list \<Rightarrow> middleware" where
  "cors configs r s =
     (let cfg = (case configs of [] \<Rightarrow> default_cors_config | g # _ \<Rightarrow> g);
          origin = header_get (er_header r) ''Origin'';
          s = (if origin = [] then s
               else let s = cors_origin cfg origin s;
                        s = (if allow_credentials cfg then set_header ''Access-Control-Allow-Credentials'' ''true'' s else s)
                    in set_header_unless_empty ''Access-Control-Expose-Headers'' (join_with '', '' (expose_headers cfg)) s)
      in if er_method r = ''OPTIONS''
         then let s = set_header ''Access-Control-Allow-Methods'' (join_with '', '' (allow_methods cfg)) s;
                  s = set_header ''Access-Control-Allow-Headers'' (join_with '', '' (allow_headers cfg)) s;
                  s = set_header_unless_empty ''Access-Control-Max-Age'' (cors_max_age cfg) s
              in (write_status 204 (s\<lparr>es_aborted := True\<rparr>), False)
         else (s, True))"

section \<open>Security headers\<close>

record security_config =
  x_frame_options :: string
  x_content_type_options :: string
  x_xss_protection :: string
  hsts_max_age :: string
  content_security_policy :: string
  referrer_policy :: string

definition default_security_config :: security_config where
  "default_security_config =
     \<lparr>x_frame_options = ''DENY'', x_content_type_options = ''nosniff'', x_xss_protection = ''1; mode=block'',
      hsts_max_age = ''max-age=31536000; includeSubDomains'', content_security_policy = ''default-src '' @ [CHR 0x27] @ ''self'' @ [CHR 0x27],
      referrer_policy = ''no-referrer-when-downgrade''\<rparr>"

definition or_default :: "string \<Rightarrow> string \<Rightarrow> string" where
  "or_default chosen std = (if chosen = [] then std else chosen)"

definition merge_security :: "security_config list \<Rightarrow> security_config" where
  "merge_security configs =
     (let d = default_security_config
      in case configs of
           [] \<Rightarrow> d
         | u # _ \<Rightarrow>
             \<lparr>x_frame_options = or_default (x_frame_options u) (x_frame_options d),
              x_content_type_options = or_default (x_content_type_options u) (x_content_type_options d),
              x_xss_protection = or_default (x_xss_protection u) (x_xss_protection d),
              hsts_max_age = or_default (hsts_max_age u) (hsts_max_age d),
              content_security_policy = or_default (content_security_policy u) (content_security_policy d),
              referrer_policy = or_default (referrer_policy u) (referrer_policy d)\<rparr>)"

definition security :: "security_config list \<Rightarrow> middleware" where
  "security configs r s =
     (let cfg = merge_security configs;
          s = set_header_unless_empty ''X-Frame-Options'' (x_frame_options cfg) s;
          s = set_header_unless_empty ''X-Content-Type-Options'' (x_content_type_options cfg) s;
          s = set_header_unless_empty ''X-XSS-Protection'' (x_xss_protection cfg) s;
          s = (if er_tls r then set_header_unless_empty ''Strict-Transport-Security'' (hsts_max_age cfg) s else s);
          s = set_header_unless_empty ''Content-Security-Policy'' (content_security_policy cfg) s;
          s = set_header_unless_empty ''Referrer-Policy'' (referrer_policy cfg) s
      in (s, True))"

section \<open>Request identifiers\<close>

definition request_id_char :: "char \<Rightarrow> bool" where
  "request_id_char c \<longleftrightarrow> is_lower c \<or> is_upper c \<or> is_digit c \<or> c \<in> {CHR ''-'', CHR ''_'', CHR ''.'', CHR '':''}"

definition valid_request_id :: "string \<Rightarrow> bool" where
  "valid_request_id v \<longleftrightarrow> v \<noteq> [] \<and> length v \<le> 128 \<and> list_all request_id_char v"

text \<open>\<open>random\<close> is what the generator delivers for 16 bytes, \<open>None\<close> its failure; then the clock and a counter stand in.\<close>

definition generate_request_id :: "byte list option \<Rightarrow> int \<Rightarrow> nat \<Rightarrow> string" where
  "generate_request_id random now counter =
     (case random of Some bs \<Rightarrow> hex_bytes bs | None \<Rightarrow> ''req_'' @ itoa now @ ''_'' @ decimal counter)"

text \<open>An empty identifier is replaced, and so is one that is not valid.\<close>

definition request_id :: "byte list option \<Rightarrow> int \<Rightarrow> nat \<Rightarrow> middleware" where
  "request_id random now counter r s =
     (let fresh = generate_request_id random now counter;
          given = header_get (er_header r) ''X-Request-ID'';
          given = (if given = [] then fresh else given);
          chosen = (if valid_request_id given then given else fresh)
      in (set_header ''X-Request-ID'' chosen (set_value ''request_id'' chosen s), True))"

section \<open>Versions\<close>

record version_manager =
  default_version :: string
  deprecated :: "(string \<times> string) list"

definition new_version_manager :: "string \<Rightarrow> version_manager" where
  "new_version_manager v = \<lparr>default_version = (if v = [] then ''v1'' else v), deprecated = []\<rparr>"

definition deprecate :: "string \<Rightarrow> string \<Rightarrow> version_manager \<Rightarrow> version_manager" where
  "deprecate v sunset m = m\<lparr>deprecated := AList.update v sunset (deprecated m)\<rparr>"

text \<open>A string around the first occurrence of a separator.\<close>

fun cut_string :: "string \<Rightarrow> string \<Rightarrow> (string \<times> string) option" where
  "cut_string sep [] = (if sep = [] then Some ([], []) else None)"
| "cut_string sep (c # cs) =
     (if has_prefix (c # cs) sep then Some ([], drop (length sep) (c # cs))
      else map_option (\<lambda>(a, b). (c # a, b)) (cut_string sep cs))"

definition accept_version :: "string \<Rightarrow> string" where
  "accept_version accept =
     (if contains_str accept ''vnd.'' \<and> contains_str accept ''+json''
      then (case cut_string ''vnd.'' accept of
          None \<Rightarrow> []
        | Some (_, rest) \<Rightarrow>
            hd (split_byte (CHR ''+'') (case cut_string ''vnd.'' rest of None \<Rightarrow> rest | Some (part, _) \<Rightarrow> part)))
      else [])"

definition negotiate_version :: "version_manager \<Rightarrow> edge_request \<Rightarrow> string" where
  "negotiate_version m r =
     (let v = header_get (er_header r) ''X-API-Version'';
          v = (if v = [] then er_query r ''version'' else v);
          v = (if v = [] then er_query r ''v'' else v);
          v = (if v = [] then accept_version (header_get (er_header r) ''Accept'') else v)
      in if v = [] then default_version m else v)"

text \<open>\<open>now\<close> is the printed time.\<close>

definition versioning :: "version_manager \<Rightarrow> string \<Rightarrow> middleware" where
  "versioning m now r s =
     (let v = negotiate_version m r;
          s = set_header ''X-API-Version'' v (set_value ''api_version'' v s)
      in case map_of (deprecated m) v of
           None \<Rightarrow> (s, True)
         | Some sunset \<Rightarrow>
             (set_header_unless_empty ''Sunset'' sunset (set_header ''Deprecation'' (CHR ''@'' # now) s), True))"

definition get_version :: "edge_response \<Rightarrow> string" where
  "get_version s = (case ctx_get (es_values s) ''api_version'' of Some (Text_Val v) \<Rightarrow> v | _ \<Rightarrow> ''v1'')"

section \<open>Tenants\<close>

definition tenant :: middleware where
  "tenant r s =
     (let t = header_get (er_header r) ''X-Tenant-ID'';
          t = (if t = [] \<and> 2 < length (split_byte (CHR ''.'') (er_host r)) then hd (split_byte (CHR ''.'') (er_host r)) else t);
          t = (if t = [] then ''default'' else t)
      in (set_header ''X-Tenant-ID'' t (set_value ''tenant_id'' t s), True))"

definition get_tenant_id :: "edge_response \<Rightarrow> string" where
  "get_tenant_id s = (case ctx_get (es_values s) ''tenant_id'' of Some (Text_Val v) \<Rightarrow> v | _ \<Rightarrow> ''default'')"

definition scope_query :: "string \<Rightarrow> string \<Rightarrow> string" where
  "scope_query query t = query @ '' /* tenant:'' @ t @ '' */''"

section \<open>Counters\<close>

record metrics_store =
  total_requests :: nat
  active_requests :: int
  status_counts :: "(int \<times> nat) list"
  latencies :: "rat list"

definition observe_begin :: "metrics_store \<Rightarrow> metrics_store" where
  "observe_begin m = m\<lparr>active_requests := active_requests m + 1, total_requests := (total_requests m + 1) mod 2 ^ 64\<rparr>"

text \<open>The status after \<^verbatim>\<open>Next\<close>, from its error; it is skipped when the handler panics.\<close>

definition observe_status :: "bool \<Rightarrow> metrics_store \<Rightarrow> metrics_store" where
  "observe_status failed m =
     (let status = (if failed then 500 else 200)
      in m\<lparr>status_counts := AList.update status ((case map_of (status_counts m) status of None \<Rightarrow> 0 | Some n \<Rightarrow> n) + 1) (status_counts m)\<rparr>)"

definition observe_end :: "rat \<Rightarrow> metrics_store \<Rightarrow> metrics_store" where
  "observe_end duration m =
     (let ls = latencies m @ [duration]
      in m\<lparr>active_requests := active_requests m - 1, latencies := (if 10000 < length ls then drop 5000 ls else ls)\<rparr>)"

section \<open>The defaults of \<open>NewApp\<close>\<close>

definition default_security_middleware :: middleware where
  "default_security_middleware r s =
     (set_header ''X-XSS-Protection'' ''1; mode=block'' (set_header ''X-Frame-Options'' ''DENY''
        (set_header ''X-Content-Type-Options'' ''nosniff'' s)), True)"

definition default_cors_middleware :: middleware where
  "default_cors_middleware r s =
     (let s = set_header ''Access-Control-Allow-Origin'' ''*'' s;
          s = set_header ''Access-Control-Allow-Methods'' ''GET, POST, PUT, DELETE, PATCH, OPTIONS'' s;
          s = set_header ''Access-Control-Allow-Headers'' ''Authorization, Content-Type, Accept, X-Requested-With'' s
      in if er_method r = ''OPTIONS'' then (write_status 204 s, False) else (s, True))"

section \<open>What the headers say\<close>

lemma header_of_set:
  "map_of (es_header (set_header k v s)) k' = (if k' = canonical_header_key k then Some [v] else map_of (es_header s) k')"
  by (simp add: set_header_def update_conv')

lemma values_of_set:
  "es_values (set_header k v s) = es_values s"
  "es_header (set_value k v s) = es_header s"
  "ctx_get (es_values (set_value k v s)) k' = (if k' = k then Some (Text_Val v) else ctx_get (es_values s) k')"
  by (simp_all add: set_header_def set_value_def)

lemma canonical_names:
  "canonical_header_key ''Access-Control-Allow-Origin'' = ''Access-Control-Allow-Origin''"
  "canonical_header_key ''Access-Control-Allow-Credentials'' = ''Access-Control-Allow-Credentials''"
  "canonical_header_key ''Access-Control-Expose-Headers'' = ''Access-Control-Expose-Headers''"
  "canonical_header_key ''Access-Control-Allow-Methods'' = ''Access-Control-Allow-Methods''"
  "canonical_header_key ''Access-Control-Allow-Headers'' = ''Access-Control-Allow-Headers''"
  "canonical_header_key ''Access-Control-Max-Age'' = ''Access-Control-Max-Age''"
  "canonical_header_key ''X-Request-ID'' = ''X-Request-Id''"
  "canonical_header_key ''X-API-Version'' = ''X-Api-Version''"
  "canonical_header_key ''X-Tenant-ID'' = ''X-Tenant-Id''"
  "canonical_header_key ''Deprecation'' = ''Deprecation''"
  "canonical_header_key ''Sunset'' = ''Sunset''"
  by code_simp+

lemma header_unless_empty:
  "k' \<noteq> canonical_header_key k \<Longrightarrow> map_of (es_header (set_header_unless_empty k v s)) k' = map_of (es_header s) k'"
  by (simp add: set_header_unless_empty_def header_of_set)

lemma header_of_status [simp]:
  "es_header (write_status n s) = es_header s" "es_header (s\<lparr>es_aborted := b\<rparr>) = es_header s"
  "es_aborted (write_status n s) = es_aborted s"
  by (simp_all add: write_status_def split: option.splits)

definition chosen_cors :: "cors_config list \<Rightarrow> cors_config" where
  "chosen_cors configs = (case configs of [] \<Rightarrow> default_cors_config | g # _ \<Rightarrow> g)"

definition origin_of :: "edge_request \<Rightarrow> string" where
  "origin_of r = header_get (er_header r) ''Origin''"

text \<open>A response names an origin only when the configuration allows it: the star where it is the only entry,
  otherwise the origin of the request, which is listed or the list contains the star. A preflight request
  is answered with the chain aborted, every other request goes on.\<close>

theorem cors_names_only_allowed_origins:
  assumes "cors configs r s = (s', continues)" "map_of (es_header s) ''Access-Control-Allow-Origin'' = None"
    and "map_of (es_header s') ''Access-Control-Allow-Origin'' = Some values"
  shows "(values = [''*''] \<and> allow_origins (chosen_cors configs) = [''*''] \<or>
      values = [origin_of r] \<and> origin_of r \<noteq> []
        \<and> (origin_of r \<in> set (allow_origins (chosen_cors configs)) \<or> ''*'' \<in> set (allow_origins (chosen_cors configs))))
    \<and> continues = (er_method r \<noteq> ''OPTIONS'') \<and> (continues \<or> es_aborted s')"
proof -
  let ?cfg = "chosen_cors configs" and ?o = "origin_of r" and ?k = "''Access-Control-Allow-Origin''"
  have same: "map_of (es_header s') ?k = map_of (es_header (if ?o = [] then s else cors_origin ?cfg ?o s)) ?k"
    using assms(1) unfolding cors_def Let_def chosen_cors_def [symmetric] origin_of_def [symmetric]
    by (auto simp: header_unless_empty header_of_set canonical_names split: if_splits)
  then have origin: "?o \<noteq> []" using assms(2,3) by (auto split: if_splits)
  then have "values = [''*''] \<and> allow_origins ?cfg = [''*''] \<or>
      values = [?o] \<and> (?o \<in> set (allow_origins ?cfg) \<or> ''*'' \<in> set (allow_origins ?cfg))"
    using same assms(2,3) by (auto simp: cors_origin_def header_of_set canonical_names list_ex_iff split: if_splits)
  moreover have "continues = (er_method r \<noteq> ''OPTIONS'') \<and> (continues \<or> es_aborted s')"
    using assms(1) unfolding cors_def Let_def by (auto split: if_splits)
  ultimately show ?thesis using origin by blast
qed

lemma hex_digit_char: "n < 16 \<Longrightarrow> request_id_char (hex_digits ! n)"
proof -
  have "list_all (\<lambda>n. request_id_char (hex_digits ! n)) [0..<16]" by code_simp
  then show "n < 16 \<Longrightarrow> ?thesis" by (simp add: list_all_iff)
qed

lemma hex_bytes_valid: "list_all request_id_char (hex_bytes bs) \<and> length (hex_bytes bs) = 2 * length bs"
proof (induction bs)
  case (Cons b bs)
  have "unat b div 16 < 16" "unat b mod 16 < 16" using unsigned_less [where ?'a = nat, of b] by auto
  then show ?case using Cons by (simp add: hex_bytes_def hex_byte_def hex_digit_char)
qed (simp add: hex_bytes_def)

lemma decimal_valid: "list_all request_id_char (decimal n)"
  using decimal_set [of _ n] by (auto simp: list_all_iff request_id_char_def is_digit_def)

lemma itoa_valid: "list_all request_id_char (itoa i)"
  using decimal_valid by (simp add: itoa_def request_id_char_def)

lemma length_itoa: "int64 i \<Longrightarrow> length (itoa i) \<le> 20"
proof -
  assume "int64 i"
  then have "nat (- i) < 10 ^ 19" "nat i < 10 ^ 19" by (auto simp: int64_def)
  then have "length (decimal (nat (- i))) \<le> 19" "length (decimal (nat i)) \<le> 19" by (auto intro!: length_decimal)
  then show ?thesis by (simp add: itoa_def)
qed

lemma generated_request_id_valid:
  assumes "\<forall>bs. random = Some bs \<longrightarrow> length bs = 16" "int64 now" "counter < 2 ^ 64"
  shows "valid_request_id (generate_request_id random now counter)"
proof (cases random)
  case None
  have "length (decimal counter) \<le> 20" using assms(3) by (intro length_decimal) auto
  then show ?thesis
    using None length_itoa [OF assms(2)] itoa_valid decimal_valid
    by (simp add: valid_request_id_def generate_request_id_def) (simp add: request_id_char_def is_lower_def byte_in_def)
next
  case (Some bs)
  then show ?thesis
    using assms(1) hex_bytes_valid [of bs]
    by (auto simp: valid_request_id_def generate_request_id_def simp del: length_0_conv simp flip: length_greater_0_conv)
qed

text \<open>Every request gets an identifier of 1 to 128 safe characters, the same in the response and in the request's
  values. It is the client's exactly when that one is valid.\<close>

theorem request_identifiers_are_safe:
  assumes "\<forall>bs. random = Some bs \<longrightarrow> length bs = 16" "int64 now" "counter < 2 ^ 64"
    and "request_id random now counter r s = (s', continues)"
  shows "\<exists>i. valid_request_id i \<and> map_of (es_header s') ''X-Request-Id'' = Some [i]
    \<and> ctx_get (es_values s') ''request_id'' = Some (Text_Val i) \<and> continues
    \<and> i = (if valid_request_id (header_get (er_header r) ''X-Request-ID'') then header_get (er_header r) ''X-Request-ID''
           else generate_request_id random now counter)"
proof -
  let ?given = "header_get (er_header r) ''X-Request-ID''" and ?fresh = "generate_request_id random now counter"
  have fresh: "valid_request_id ?fresh" by (rule generated_request_id_valid) (use assms in auto)
  have empty: "\<not> valid_request_id []" by (simp add: valid_request_id_def)
  have "s' = set_header ''X-Request-ID'' (if valid_request_id ?given then ?given else ?fresh)
      (set_value ''request_id'' (if valid_request_id ?given then ?given else ?fresh) s) \<and> continues"
    using assms(4) fresh empty by (auto simp: request_id_def Let_def split: if_splits)
  then show ?thesis using fresh by (auto simp: header_of_set canonical_names values_of_set)
qed

text \<open>A version carries the deprecation headers exactly when it was deprecated, and a tenant is never empty.\<close>

lemma deprecated_versions_are_announced:
  assumes "versioning m now r s = (s', continues)" "map_of (es_header s) ''Deprecation'' = None"
  shows "(map_of (es_header s') ''Deprecation'' \<noteq> None \<longleftrightarrow> map_of (deprecated m) (negotiate_version m r) \<noteq> None)
    \<and> get_version s' = negotiate_version m r \<and> continues"
proof -
  have "map_of (es_header (set_header_unless_empty ''Sunset'' v x)) ''Deprecation'' = map_of (es_header x) ''Deprecation''"
    "ctx_get (es_values (set_header_unless_empty ''Sunset'' v x)) k = ctx_get (es_values x) k" for v x k
    by (simp_all add: header_unless_empty canonical_names) (simp add: set_header_unless_empty_def values_of_set)
  then show ?thesis
    using assms by (auto simp: versioning_def Let_def header_of_set canonical_names values_of_set get_version_def split: option.splits)
qed

lemma tenant_is_never_empty: "get_tenant_id (fst (tenant r s)) \<noteq> [] \<and> snd (tenant r s)"
  by (simp add: tenant_def Let_def get_tenant_id_def values_of_set)

lemma latencies_are_bounded: "length (latencies m) \<le> 10000 \<Longrightarrow> length (latencies (observe_end d m)) \<le> 10000"
  by (cases "10000 < length (latencies m @ [d])") (auto simp: observe_end_def Let_def)

text \<open>\<^verbatim>\<open>ScopeQuery\<close> only adds a comment; a tenant with the end of a comment adds a statement.\<close>

lemma scope_query_adds_statements:
  "\<exists>t. scope_query q t = q @ '' /* tenant:'' @ ''*/; DROP TABLE users; /*'' @ '' */''"
  by (rule exI [of _ "''*/; DROP TABLE users; /*''"]) (simp add: scope_query_def)

text \<open>The default preflight answer of \<^verbatim>\<open>NewApp\<close> neither aborts nor returns an error, so the chain goes on.\<close>

lemma default_preflight_goes_on:
  "fst (default_cors_middleware r fresh_response) = s' \<Longrightarrow> er_method r = ''OPTIONS'' \<Longrightarrow> \<not> es_aborted s'"
  "run_chain [Emit 204 (Return None), Emit 1 (Return (None :: unit option))] =
     Finished None \<lparr>chain_index = 2, aborted = False, marks = [204, 1]\<rparr>"
  by (auto simp: default_cors_middleware_def fresh_response_def set_header_def write_status_def) code_simp

section \<open>Concrete requests\<close>

definition sample_edge_request :: edge_request where
  "sample_edge_request = \<lparr>er_method = ''GET'', er_header = [(''Origin'', [''https://a.example'']), (''X-Request-Id'', [''abc 1''])],
     er_query = (\<lambda>k. []), er_host = ''t1.api.example'', er_tls = True\<rparr>"

definition sample_cors :: cors_config where
  "sample_cors = default_cors_config\<lparr>allow_origins := [''https://a.example'']\<rparr>"

lemma cors_names_only_allowed_origins_witness:
  "map_of (es_header (fst (cors [sample_cors] sample_edge_request fresh_response))) ''Access-Control-Allow-Origin'' = Some [''https://a.example'']
   \<and> origin_of sample_edge_request \<in> set (allow_origins sample_cors)"
proof -
  let ?s = "fst (cors [sample_cors] sample_edge_request fresh_response)"
  have run: "cors [sample_cors] sample_edge_request fresh_response = (?s, True)"
    by (simp add: cors_def Let_def sample_edge_request_def)
  have "header_get (er_header sample_edge_request) ''Origin'' = ''https://a.example''" by code_simp
  then have some: "map_of (es_header ?s) ''Access-Control-Allow-Origin'' = Some [''https://a.example'']"
    by (simp add: cors_def Let_def sample_cors_def default_cors_config_def cors_origin_def set_header_unless_empty_def
        header_of_set canonical_names)
  have "map_of (es_header fresh_response) ''Access-Control-Allow-Origin'' = None" by (simp add: fresh_response_def)
  note named = cors_names_only_allowed_origins [OF run this some]
  have allowed: "allow_origins (chosen_cors [sample_cors]) = allow_origins sample_cors" by (simp add: chosen_cors_def)
  have "[''https://a.example''] \<noteq> [''*'']" "''*'' \<notin> set (allow_origins sample_cors)" by (simp_all add: sample_cors_def)
  then show ?thesis using named some unfolding allowed by blast
qed

lemma request_identifiers_are_safe_witness:
  "\<exists>i. valid_request_id i
    \<and> map_of (es_header (fst (request_id None 7 1 sample_edge_request fresh_response))) ''X-Request-Id'' = Some [i] \<and> i = ''req_7_1''"
proof -
  have run: "request_id None 7 1 sample_edge_request fresh_response =
      (fst (request_id None 7 1 sample_edge_request fresh_response), True)" by (simp add: request_id_def Let_def)
  have "\<not> valid_request_id (header_get (er_header sample_edge_request) ''X-Request-ID'')"
    "generate_request_id None 7 1 = ''req_7_1''" by code_simp+
  then show ?thesis using request_identifiers_are_safe [OF _ _ _ run] by (auto simp: int64_def)
qed

end
