(* ===== verification/Context_Timeout.thy ===== *)
theory Context_Timeout
  imports Idempotency Context_Values
begin

text \<open>
  \<^verbatim>\<open>context_timeout.go\<close> and \<^verbatim>\<open>middleware/timeout.go\<close>: the rest of the chain runs in a goroutine against a buffered
  response, while the request waits for its end or for the deadline. The two goroutines are the steps of
  one transition system, in which the handler may go on after the deadline. Header maps have canonical keys.
\<close>

section \<open>The buffered response\<close>

record buffered =
  br_header :: http_header
  br_body :: string
  br_status :: int

definition new_buffered :: "http_header \<Rightarrow> buffered" where
  "new_buffered initial = \<lparr>br_header = initial, br_body = [], br_status = 0\<rparr>"

definition buffered_write_header :: "int \<Rightarrow> buffered \<Rightarrow> buffered" where
  "buffered_write_header status b = (if br_status b = 0 then b\<lparr>br_status := status\<rparr> else b)"

definition buffered_write :: "string \<Rightarrow> buffered \<Rightarrow> buffered" where
  "buffered_write data b =
     (let b = (if br_status b = 0 then b\<lparr>br_status := 200\<rparr> else b) in b\<lparr>br_body := br_body b @ data\<rparr>)"

text \<open>The client's response: the status is \<open>None\<close> until the header is sent.\<close>

record client_response =
  cl_header :: http_header
  cl_status :: "int option"
  cl_body :: string

definition send_status :: "int \<Rightarrow> client_response \<Rightarrow> client_response" where
  "send_status code cl = (case cl_status cl of None \<Rightarrow> cl\<lparr>cl_status := Some code\<rparr> | Some _ \<Rightarrow> cl)"

definition buffered_commit :: "buffered \<Rightarrow> client_response \<Rightarrow> client_response" where
  "buffered_commit b cl =
     (let cl = cl\<lparr>cl_header := br_header b\<rparr>;
          cl = send_status (if br_status b = 0 then 200 else br_status b) cl
      in cl\<lparr>cl_body := cl_body cl @ br_body b\<rparr>)"

section \<open>The two goroutines\<close>

datatype response_action =
    Set_Header_Values string "string list" | Delete_Header string | Write_Status int | Write_Bytes string

fun buffer_action :: "response_action \<Rightarrow> buffered \<Rightarrow> buffered" where
  "buffer_action (Set_Header_Values k vs) b = b\<lparr>br_header := AList.update k vs (br_header b)\<rparr>"
| "buffer_action (Delete_Header k) b = b\<lparr>br_header := AList.delete k (br_header b)\<rparr>"
| "buffer_action (Write_Status n) b = buffered_write_header n b"
| "buffer_action (Write_Bytes d) b = buffered_write d b"

datatype 'e timeout_error = Duration_Not_Positive | Handler_Error 'e | Deadline_Exceeded








text \<open>A duration that is not positive is refused at once.\<close>

definition run_with_timeout_guard :: "int \<Rightarrow> 'e timeout_error option" where
  "run_with_timeout_guard duration = (if duration \<le> 0 then Some Duration_Not_Positive else None)"

section \<open>The same handler without the buffer\<close>

text \<open>What \<^verbatim>\<open>net/http\<close> makes of the actions: the header is fixed by the first status or byte.\<close>

fun direct_action :: "response_action \<Rightarrow> client_response \<Rightarrow> client_response" where
  "direct_action (Set_Header_Values k vs) cl =
     (if cl_status cl = None then cl\<lparr>cl_header := AList.update k vs (cl_header cl)\<rparr> else cl)"
| "direct_action (Delete_Header k) cl =
     (if cl_status cl = None then cl\<lparr>cl_header := AList.delete k (cl_header cl)\<rparr> else cl)"
| "direct_action (Write_Status n) cl = send_status n cl"
| "direct_action (Write_Bytes d) cl = (send_status 200 cl)\<lparr>cl_body := cl_body cl @ d\<rparr>"

definition direct_response :: "response_action list \<Rightarrow> client_response \<Rightarrow> client_response" where
  "direct_response acts cl = send_status 200 (fold direct_action acts cl)"









text \<open>A header that is set after the first byte is lost without the timeout and sent with it.\<close>

lemma late_headers_are_sent:
  "buffered_commit (fold buffer_action [Write_Bytes ''a'', Set_Header_Values ''X'' [''1'']] (new_buffered [])) \<lparr>cl_header = [], cl_status = None, cl_body = []\<rparr>
     = \<lparr>cl_header = [(''X'', [''1''])], cl_status = Some 200, cl_body = ''a''\<rparr>"
  "direct_response [Write_Bytes ''a'', Set_Header_Values ''X'' [''1'']] \<lparr>cl_header = [], cl_status = None, cl_body = []\<rparr>
     = \<lparr>cl_header = [], cl_status = Some 200, cl_body = ''a''\<rparr>"
  by code_simp+


end
