(* ===== verification/Task_Tracker.thy ===== *)
theory Task_Tracker
  imports Go_Maps Go_Strconv
begin

text \<open>
  \<^verbatim>\<open>queue/task_tracker.go\<close>: process-local background tasks with retries. Every section under the mutex is one
  step; the workers of all tasks interleave. A panic of a task is an error with a message.
\<close>

section \<open>Tasks and workers\<close>

datatype task_status = Status_Pending | Status_Running | Status_Completed | Status_Failed | Status_Retrying

record task_info =
  ti_id :: string
  ti_name :: string
  ti_status :: task_status
  ti_retries :: int
  ti_max_retries :: int
  ti_last_error :: string
  ti_created :: int
  ti_completed :: "int option"

type_synonym task_table = "(string \<times> task_info) list"

text \<open>Where the goroutine of a task is: before attempt \<open>n\<close>, inside it, or at its end.\<close>

datatype task_phase = Ready int | Busy int | Succeeded int | Gave_Up

record worker =
  wk_id :: string
  wk_max :: int
  wk_phase :: task_phase

record tracker =
  tk_tasks :: task_table
  tk_workers :: "worker list"

definition new_task_tracker :: tracker where
  "new_task_tracker = \<lparr>tk_tasks = [], tk_workers = []\<rparr>"

definition task_id :: "int \<Rightarrow> string" where
  "task_id now = ''task_'' @ itoa now"

definition effective_retries :: "int \<Rightarrow> int" where
  "effective_retries n = (if n \<le> 0 then 3 else n)"

text \<open>\<^verbatim>\<open>Dispatch\<close>: \<open>now\<close> is the clock in nanoseconds.\<close>

definition dispatch :: "int \<Rightarrow> string \<Rightarrow> int \<Rightarrow> tracker \<Rightarrow> tracker" where
  "dispatch now nm max_retries t =
     (let i = task_id now; m = effective_retries max_retries;
          info = \<lparr>ti_id = i, ti_name = nm, ti_status = Status_Pending, ti_retries = 0, ti_max_retries = m,
                  ti_last_error = [], ti_created = now, ti_completed = None\<rparr>
      in t\<lparr>tk_tasks := AList.update i info (tk_tasks t), tk_workers := tk_workers t @ [\<lparr>wk_id = i, wk_max = m, wk_phase = Ready 0\<rparr>]\<rparr>)"


text \<open>The sections of a worker: the start of an attempt, its success, its failure, and the end after the last one.\<close>

definition begin_attempt :: "int \<Rightarrow> task_info \<Rightarrow> task_info" where
  "begin_attempt n info =
     (if 0 < n then info\<lparr>ti_status := Status_Retrying, ti_retries := n\<rparr> else info\<lparr>ti_status := Status_Running\<rparr>)"

definition complete_task :: "int \<Rightarrow> task_info \<Rightarrow> task_info" where
  "complete_task now info = info\<lparr>ti_status := Status_Completed, ti_completed := Some now\<rparr>"

datatype event = Attempt_Begins | Attempt_Succeeds int | Attempt_Fails string | All_Failed

fun worker_step :: "event \<Rightarrow> worker \<Rightarrow> (task_phase \<times> (task_info \<Rightarrow> task_info)) option" where
  "worker_step e w =
     (case (wk_phase w, e) of
        (Ready n, Attempt_Begins) \<Rightarrow> if n \<le> wk_max w then Some (Busy n, begin_attempt n) else None
      | (Ready n, All_Failed) \<Rightarrow> if wk_max w < n then Some (Gave_Up, \<lambda>info. info\<lparr>ti_status := Status_Failed\<rparr>) else None
      | (Busy n, Attempt_Succeeds now) \<Rightarrow> Some (Succeeded n, complete_task now)
      | (Busy n, Attempt_Fails err) \<Rightarrow> Some (Ready (n + 1), \<lambda>info. info\<lparr>ti_last_error := err\<rparr>)
      | _ \<Rightarrow> None)"


definition get_task_status :: "tracker \<Rightarrow> string \<Rightarrow> task_info option" where
  "get_task_status t i = map_of (tk_tasks t) i"


section \<open>The status is the history\<close>



lemma worker_step_cases:
  assumes "worker_step e w = Some (p, f)"
  obtains (begins) n where "wk_phase w = Ready n" "n \<le> wk_max w" "p = Busy n" "f = begin_attempt n"
    | (fails) n err where "wk_phase w = Busy n" "p = Ready (n + 1)" "f = (\<lambda>info. info\<lparr>ti_last_error := err\<rparr>)"
    | (succeeds) n now where "wk_phase w = Busy n" "p = Succeeded n" "f = complete_task now"
    | (gives_up) n where "wk_phase w = Ready n" "wk_max w < n" "p = Gave_Up" "f = (\<lambda>info. info\<lparr>ti_status := Status_Failed\<rparr>)"
  using assms by (auto split: task_phase.splits event.splits if_splits)






section \<open>Every task ends\<close>

definition steps_left :: "worker \<Rightarrow> nat" where
  "steps_left w = (case wk_phase w of
       Ready n \<Rightarrow> nat (2 * (wk_max w + 1 - n) + 1) | Busy n \<Rightarrow> nat (2 * (wk_max w + 1 - n)) | _ \<Rightarrow> 0)"

text \<open>Every step of a worker brings it nearer to its end, and a worker that has not ended can step.\<close>

lemma worker_progress:
  "worker_step e w = Some (p, f) \<Longrightarrow> (\<forall>n. wk_phase w = Busy n \<longrightarrow> n \<le> wk_max w) \<Longrightarrow> (\<forall>n. wk_phase w = Ready n \<longrightarrow> n \<le> wk_max w + 1)
     \<Longrightarrow> steps_left (w\<lparr>wk_phase := p\<rparr>) < steps_left w"
  by (erule worker_step_cases) (auto simp: steps_left_def nat_less_iff)

lemma worker_not_stuck: "steps_left w \<noteq> 0 \<Longrightarrow> \<exists>e r. worker_step e w = Some r"
proof (cases "wk_phase w")
  case (Ready n)
  then show ?thesis
    by (cases "n \<le> wk_max w") (force intro: exI [of _ Attempt_Begins], force intro: exI [of _ All_Failed])
next
  case (Busy n)
  then show ?thesis by (intro exI [of _ "Attempt_Fails []"]) simp
qed (simp_all add: steps_left_def)

text \<open>Two tasks of one nanosecond share an entry: the first is forgotten.\<close>

lemma same_nanosecond_forgets_a_task:
  "map_option ti_name (get_task_status (dispatch 7 ''b'' 0 (dispatch 7 ''a'' 0 new_task_tracker)) (task_id 7)) = Some ''b''"
  "map wk_id (tk_workers (dispatch 7 ''b'' 0 (dispatch 7 ''a'' 0 new_task_tracker))) = [task_id 7, task_id 7]"
  by (simp_all add: dispatch_def Let_def get_task_status_def new_task_tracker_def)


end
