(* ===== verification/Realtime.thy ===== *)
theory Realtime
  imports Go_Strconv Request_Errors
begin

unbundle bit_operations_syntax

text \<open>
  \<^verbatim>\<open>realtime/websocket.go\<close> and \<^verbatim>\<open>realtime/sse.go\<close>: the handshake, the frames of a WebSocket connection and the
  events of a stream. A connection is what is still to be read and what was written; SHA-1 and the JSON
  encoding are parameters.
\<close>

section \<open>Handshake\<close>

definition magic_guid :: string where
  "magic_guid = ''258EAFA5-E914-47DA-95CA-C5AB0DC85B11''"

definition b64_std_padded :: "string \<Rightarrow> string" where
  "b64_std_padded s = b64_encode_in b64_std_alphabet s @ replicate ((3 - length s mod 3) mod 3) (CHR ''='')"

definition accept_key :: "(string \<Rightarrow> string) \<Rightarrow> string \<Rightarrow> string" where
  "accept_key sha1 key = b64_std_padded (sha1 (key @ magic_guid))"

definition crlf :: string where "crlf = [CHR 0x0D, CHR 0x0A]"

datatype upgrade_error = Bad_Upgrade problem | Hijack_Unsupported | Hijack_Failed | Handshake_Write_Failed

definition upgrade :: "(string \<Rightarrow> string) \<Rightarrow> string \<Rightarrow> bool \<Rightarrow> bool \<Rightarrow> bool \<Rightarrow> upgrade_error + string" where
  "upgrade sha1 key can_hijack hijacked written =
     (if key = [] then Inl (Bad_Upgrade (err_bad_request ''Missing Sec-WebSocket-Key header''))
      else if \<not> can_hijack then Inl Hijack_Unsupported
      else if \<not> hijacked then Inl Hijack_Failed
      else if \<not> written then Inl Handshake_Write_Failed
      else Inr (''HTTP/1.1 101 Switching Protocols'' @ crlf @ ''Upgrade: websocket'' @ crlf @ ''Connection: Upgrade'' @ crlf
                @ ''Sec-WebSocket-Accept: '' @ accept_key sha1 key @ crlf @ crlf))"

section \<open>Frames\<close>

definition read_full :: "nat \<Rightarrow> string \<Rightarrow> (string \<times> string) option" where
  "read_full n s = (if length s < n then None else Some (take n s, drop n s))"

definition xor_char :: "char \<Rightarrow> char \<Rightarrow> char" where
  "xor_char a b = char_of (unat ((word_of_nat (of_char a) :: 8 word) XOR word_of_nat (of_char b)))"

definition unmask :: "string \<Rightarrow> string \<Rightarrow> string" where
  "unmask key payload = map (\<lambda>i. xor_char (payload ! i) (key ! (i mod 4))) [0..<length payload]"

text \<open>\<^verbatim>\<open>ReadMessage\<close>: the message and what is left to read, \<open>None\<close> when the connection ends inside it. The first
  byte is not looked at, and 127 is a length like any other.\<close>

definition read_message :: "string \<Rightarrow> (string \<times> string) option" where
  "read_message s =
     (case read_full 2 s of
        None \<Rightarrow> None
      | Some (head, s) \<Rightarrow>
          let second = of_char (head ! 1) :: nat; masked = 128 \<le> second; len = second mod 128
          in (case (if len = 126 then map_option (\<lambda>(lb, s). (256 * of_char (lb ! 0) + of_char (lb ! 1), s)) (read_full 2 s)
                    else Some (len, s)) of
              None \<Rightarrow> None
            | Some (len, s) \<Rightarrow>
                (case (if masked then read_full 4 s else Some ([], s)) of
                   None \<Rightarrow> None
                 | Some (key, s) \<Rightarrow>
                     map_option (\<lambda>(payload, s). (if masked then unmask key payload else payload, s)) (read_full len s))))"

text \<open>\<^verbatim>\<open>WriteMessage\<close>; a conversion to a byte keeps the low eight bits.\<close>

definition write_message :: "string \<Rightarrow> string" where
  "write_message m =
     CHR 0x81 # (if length m \<le> 125 then [char_of (length m)]
                 else [char_of (126 :: nat), char_of (length m div 256 mod 256), char_of (length m mod 256)]) @ m"

text \<open>The reader called again and again.\<close>

fun read_messages :: "nat \<Rightarrow> string \<Rightarrow> (string list \<times> string) option" where
  "read_messages 0 s = Some ([], s)"
| "read_messages (Suc n) s =
     (case read_message s of
        None \<Rightarrow> None
      | Some (m, s) \<Rightarrow> map_option (\<lambda>(ms, s). (m # ms, s)) (read_messages n s))"

section \<open>What is written is read\<close>

text \<open>The frames of RFC 6455 below 64 KiB: the server's are plain, a client masks its payload with a key.\<close>

datatype frame = Plain_Frame string | Masked_Frame string string

fun frame_payload :: "frame \<Rightarrow> string" where
  "frame_payload (Plain_Frame m) = m"
| "frame_payload (Masked_Frame key m) = m"

definition client_frame :: "string \<Rightarrow> string \<Rightarrow> string" where
  "client_frame key m =
     CHR 0x81 # (if length m \<le> 125 then [char_of (128 + length m)]
                 else [char_of (254 :: nat), char_of (length m div 256 mod 256), char_of (length m mod 256)]) @ key @ unmask key m"

fun encode_frame :: "frame \<Rightarrow> string" where
  "encode_frame (Plain_Frame m) = write_message m"
| "encode_frame (Masked_Frame key m) = client_frame key m"

fun short_frame :: "frame \<Rightarrow> bool" where
  "short_frame (Plain_Frame m) \<longleftrightarrow> length m < 65536"
| "short_frame (Masked_Frame key m) \<longleftrightarrow> length m < 65536 \<and> length key = 4"

lemma xor_char_twice: "xor_char (xor_char a k) k = a"
proof -
  have byte: "(of_char (char_of (unat w)) :: nat) = unat w" for w :: "8 word"
    using unsigned_less [where ?'a = nat, of w] by (simp add: of_char_of)
  have "xor_char (xor_char a k) k = char_of (unat (word_of_nat (of_char a) :: 8 word))"
    unfolding xor_char_def [of "xor_char a k"] unfolding xor_char_def [of a] byte by (simp add: xor.assoc)
  also have "unat (word_of_nat (of_char a) :: 8 word) = of_char a"
    by (simp add: unat_of_nat)
  finally show ?thesis by simp
qed

lemma length_unmask [simp]: "length (unmask key m) = length m"
  by (simp add: unmask_def)

lemma unmask_twice: "unmask key (unmask key m) = m"
  by (rule nth_equalityI) (simp_all add: unmask_def xor_char_twice)

lemma read_full_append: "length a = n \<Longrightarrow> read_full n (a @ b) = Some (a, b)"
  by (simp add: read_full_def)

lemma read_two: "read_full 2 (a # b # s) = Some ([a, b], s)"
  by (simp add: read_full_def)

lemma two_byte_length:
  assumes "n < 65536"
  shows "256 * (n div 256 mod 256) + n mod 256 = (n :: nat)"
proof -
  have "n div 256 < 256" using assms by (simp add: div_less_iff_less_mult)
  then show ?thesis by simp
qed

lemma read_frame:
  assumes "short_frame f"
  shows "read_message (encode_frame f @ rest) = Some (frame_payload f, rest)"
proof (cases f)
  case (Plain_Frame m)
  show ?thesis
  proof (cases "length m \<le> 125")
    case True
    then show ?thesis
      by (simp add: Plain_Frame read_message_def write_message_def read_two read_full_append Let_def of_char_of)
  next
    case False
    then show ?thesis
      using assms two_byte_length [of "length m"]
      by (simp add: Plain_Frame read_message_def write_message_def read_two read_full_append Let_def of_char_of)
  qed
next
  case (Masked_Frame key m)
  show ?thesis
  proof (cases "length m \<le> 125")
    case True
    then have "(128 + length m) mod 256 = 128 + length m" "(128 + length m) mod 128 = length m" by simp_all
    then show ?thesis
      using assms
      by (simp add: Masked_Frame read_message_def client_frame_def read_two read_full_append Let_def of_char_of unmask_twice)
  next
    case False
    then show ?thesis
      using assms two_byte_length [of "length m"]
      by (simp add: Masked_Frame read_message_def client_frame_def read_two read_full_append Let_def of_char_of unmask_twice)
  qed
qed

text \<open>C35. A sequence of messages below 64 KiB, whether written by the server or masked by a client, is read back
  message by message, and nothing else of the stream is consumed.\<close>

theorem websocket_messages_are_read_back:
  assumes "list_all short_frame fs"
  shows "read_messages (length fs) (concat (map encode_frame fs) @ rest) = Some (map frame_payload fs, rest)"
  using assms by (induction fs) (simp_all add: read_frame)

lemma websocket_messages_are_read_back_witness:
  "read_messages 2 (write_message ''hello'' @ client_frame ''abcd'' ''hi'' @ ''x'') = Some ([''hello'', ''hi''], ''x'')"
  using websocket_messages_are_read_back [of "[Plain_Frame ''hello'', Masked_Frame ''abcd'' ''hi'']" "''x''"] by (simp add: numeral_2_eq_2)

text \<open>A longer message is sent with the low 16 bits of its length: one of 64 KiB is an empty message, and the
  client reads its content as the frames that follow.\<close>

lemma long_messages_become_frames: "length m = 65536 \<Longrightarrow> read_message (write_message m) = Some ([], m)"
  by (simp add: read_message_def write_message_def read_two read_full_def Let_def of_char_of)

text \<open>A frame with a 64-bit length is read as one of 127 bytes that begins with its length.\<close>

lemma extended_length_is_misread:
  "length s = 127 \<Longrightarrow> read_message (CHR 0x81 # CHR 0x7F # s @ rest) = Some (s, rest)"
  by (simp add: read_message_def read_two read_full_append Let_def)

section \<open>Server-sent events\<close>

record sse_event =
  sse_name :: string
  sse_data :: string
  sse_id :: string

datatype sse_item = Event_Item sse_event | Plain_Item string

definition newline :: string where "newline = [CHR 0x0A]"

text \<open>The data of an item is its JSON text.\<close>

definition sse_payload :: "sse_item \<Rightarrow> string" where
  "sse_payload item =
     (case item of
        Event_Item e \<Rightarrow>
          (if sse_name e = [] then [] else ''event: '' @ sse_name e @ newline)
          @ (if sse_id e = [] then [] else ''id: '' @ sse_id e @ newline)
          @ ''data: '' @ sse_data e @ newline @ newline
      | Plain_Item d \<Rightarrow> ''data: '' @ d @ newline @ newline)"

text \<open>What arrives at the loop: an item, the closed channel, or the end of the request.\<close>

datatype sse_input = Item sse_item | Channel_Closed | Request_Over

fun stream_sse :: "sse_input list \<Rightarrow> string" where
  "stream_sse [] = []"
| "stream_sse (Item i # is) = sse_payload i @ stream_sse is"
| "stream_sse (Channel_Closed # is) = []"
| "stream_sse (Request_Over # is) = []"

text \<open>A name with a line end adds fields of its own to the event.\<close>

lemma event_names_are_not_escaped:
  "sse_payload (Event_Item \<lparr>sse_name = ''a'' @ newline @ ''data: 1'', sse_data = ''2'', sse_id = []\<rparr>)
     = ''event: a'' @ newline @ ''data: 1'' @ newline @ ''data: 2'' @ newline @ newline"
  by (simp add: sse_payload_def)

end
