(* ===== verification/Storage_Keys.thy ===== *)
theory Storage_Keys
  imports Router_Engine Go_Maps Go_Strconv
begin

text \<open>
  \<^verbatim>\<open>storage/storage.go\<close> and \<^verbatim>\<open>storage/s3.go\<close>: object keys, uploads below a local directory, and the keys and
  limits of the S3 client. A file system maps absolute paths, as lists of names, to files and directories;
  the requests of the AWS client are left out.
\<close>

section \<open>Keys\<close>

definition slashes :: "string \<Rightarrow> string" where
  "slashes key = map (\<lambda>c. if c = CHR 0x5C then CHR ''/'' else c) key"

definition clean_object_key :: "string \<Rightarrow> string option" where
  "clean_object_key key =
     (let normalized = slashes key; cleaned = path_clean normalized
      in if cleaned \<noteq> normalized \<or> cleaned = ''.'' \<or> \<not> fs_valid_path cleaned then None else Some cleaned)"

abbreviation elements :: "string \<Rightarrow> string list" where
  "elements k \<equiv> split_byte (CHR ''/'') k"

section \<open>Local storage\<close>

text \<open>\<^verbatim>\<open>url.URL.EscapedPath\<close>.\<close>

definition upper_hex :: string where "upper_hex = ''0123456789ABCDEF''"

definition plain_in_path :: "char \<Rightarrow> bool" where
  "plain_in_path c \<longleftrightarrow> is_lower c \<or> is_upper c \<or> is_digit c \<or> c \<in> set ''-_.~$&+,/:;=@''"

definition escape_char :: "char \<Rightarrow> string" where
  "escape_char c =
     (if plain_in_path c then [c] else [CHR ''%'', upper_hex ! (of_char c div 16), upper_hex ! (of_char c mod 16)])"

definition path_escape :: "string \<Rightarrow> string" where
  "path_escape s = concat (map escape_char s)"

definition local_storage_url :: "string \<Rightarrow> string" where
  "local_storage_url key = path_escape (''/uploads/'' @ key)"

datatype fs_entry = Dir_Entry | File_Entry string

type_synonym fs_state = "(string list \<times> fs_entry) list"

text \<open>How a path is resolved below a directory.\<close>

fun resolve :: "string list \<Rightarrow> string list \<Rightarrow> string list" where
  "resolve base [] = base"
| "resolve base (e # es) =
     (if e = [] \<or> e = ''.'' then resolve base es
      else if e = ''..'' then resolve (butlast base) es
      else resolve (base @ [e]) es)"

text \<open>\<^verbatim>\<open>MkdirAll\<close> and \<^verbatim>\<open>WriteFile\<close>; \<open>None\<close> is an error.\<close>

fun mkdir_all :: "string list \<Rightarrow> string list \<Rightarrow> fs_state \<Rightarrow> fs_state option" where
  "mkdir_all base [] fs = Some fs"
| "mkdir_all base (e # es) fs =
     (let p = resolve base [e]
      in case map_of fs p of
           Some (File_Entry d) \<Rightarrow> None
         | Some Dir_Entry \<Rightarrow> mkdir_all p es fs
         | None \<Rightarrow> mkdir_all p es (AList.update p Dir_Entry fs))"

definition write_file :: "string list \<Rightarrow> string \<Rightarrow> fs_state \<Rightarrow> fs_state option" where
  "write_file p data fs =
     (if map_of fs p = Some Dir_Entry then None else Some (AList.update p (File_Entry data) fs))"

datatype storage_error = Init_Failed | Context_Over | Invalid_Object_Key | Root_Unavailable | Directory_Failed | Write_Failed

text \<open>\<^verbatim>\<open>Upload\<close>: the flags say whether the provider was initialised, whether the context is over at its two checks
  and whether the root can be opened.\<close>

definition local_upload ::
    "bool \<Rightarrow> bool \<Rightarrow> bool \<Rightarrow> bool \<Rightarrow> string list \<Rightarrow> string \<Rightarrow> string \<Rightarrow> fs_state \<Rightarrow> (storage_error + string) \<times> fs_state" where
  "local_upload init_ok over_before root_ok over_after root key data fs =
     (if \<not> init_ok then (Inl Init_Failed, fs)
      else if over_before then (Inl Context_Over, fs)
      else (case clean_object_key key of
          None \<Rightarrow> (Inl Invalid_Object_Key, fs)
        | Some k \<Rightarrow>
            if \<not> root_ok then (Inl Root_Unavailable, fs)
            else (case mkdir_all root (butlast (elements k)) fs of
                None \<Rightarrow> (Inl Directory_Failed, fs)
              | Some fs \<Rightarrow>
                  if over_after then (Inl Context_Over, fs)
                  else (case write_file (resolve root (elements k)) data fs of
                      None \<Rightarrow> (Inl Write_Failed, fs)
                    | Some fs \<Rightarrow> (Inr (local_storage_url k), fs)))))"

definition local_presigned_url :: "bool \<Rightarrow> bool \<Rightarrow> string \<Rightarrow> storage_error + string" where
  "local_presigned_url init_ok over key =
     (if \<not> init_ok then Inl Init_Failed else if over then Inl Context_Over
      else (case clean_object_key key of None \<Rightarrow> Inl Invalid_Object_Key | Some k \<Rightarrow> Inr (local_storage_url k)))"

section \<open>S3\<close>

record s3_config =
  s3_bucket :: string
  s3_region :: string
  s3_prefix :: string
  s3_endpoint :: string
  s3_public :: string
  s3_allow_http :: bool
  s3_max_upload :: int
  s3_timeout :: int

datatype s3_error =
    S3_Not_Configured | Bad_Bucket | Bad_Region | Bad_Prefix | Bad_Base_Url | Bad_Key | Key_Too_Long
  | Bad_Content_Type | Object_Too_Large | Bad_Expiry | S3_Request_Failed

definition bucket_char :: "char \<Rightarrow> bool" where
  "bucket_char c \<longleftrightarrow> is_lower c \<or> is_digit c \<or> c = CHR ''-'' \<or> c = CHR ''.''"

text \<open>\<open>is_ip\<close> is \<^verbatim>\<open>net.ParseIP\<close>.\<close>

definition valid_s3_bucket :: "(string \<Rightarrow> bool) \<Rightarrow> string \<Rightarrow> bool" where
  "valid_s3_bucket is_ip b \<longleftrightarrow>
     3 \<le> length b \<and> length b \<le> 63 \<and> \<not> is_ip b \<and> \<not> contains_str b ''..'' \<and> list_all bucket_char b
     \<and> hd b \<notin> {CHR ''-'', CHR ''.''} \<and> last b \<notin> {CHR ''-'', CHR ''.''}
     \<and> \<not> contains_str b ''.-'' \<and> \<not> contains_str b ''-.''"

definition normalize_s3_config ::
    "(string \<Rightarrow> bool) \<Rightarrow> (string \<Rightarrow> bool \<Rightarrow> bool) \<Rightarrow> s3_config \<Rightarrow> s3_error + s3_config" where
  "normalize_s3_config is_ip base_url_ok g =
     (if \<not> valid_s3_bucket is_ip (s3_bucket g) then Inl Bad_Bucket
      else if trim_space (s3_region g) = [] \<or> list_ex (\<lambda>c. c \<in> {CHR 0x0D, CHR 0x0A, CHR 0x09, CHR '' ''}) (s3_region g) then Inl Bad_Region
      else (case (if s3_prefix g = [] then Some [] else clean_object_key (trim_suffix (s3_prefix g) ''/'')) of
          None \<Rightarrow> Inl Bad_Prefix
        | Some p \<Rightarrow>
            if s3_endpoint g \<noteq> [] \<and> \<not> base_url_ok (s3_endpoint g) (s3_allow_http g) then Inl Bad_Base_Url
            else if s3_public g \<noteq> [] \<and> \<not> base_url_ok (s3_public g) False then Inl Bad_Base_Url
            else Inr (g\<lparr>s3_prefix := p, s3_max_upload := (if s3_max_upload g \<le> 0 then 16777216 else s3_max_upload g),
                        s3_timeout := (if s3_timeout g \<le> 0 then 30000000000 else s3_timeout g)\<rparr>)))"

definition s3_object_key :: "s3_config \<Rightarrow> string \<Rightarrow> s3_error + string" where
  "s3_object_key g key =
     (case clean_object_key key of
        None \<Rightarrow> Inl Bad_Key
      | Some k \<Rightarrow>
          let k = (if s3_prefix g = [] then k else s3_prefix g @ ''/'' @ k)
          in if 1024 < length k then Inl Key_Too_Long else Inr k)"

text \<open>\<open>media\<close> is \<^verbatim>\<open>mime.ParseMediaType\<close>, \<open>put\<close> the request for a bucket, a key, a type and the data.\<close>

definition s3_upload ::
    "(string \<Rightarrow> string option) \<Rightarrow> (string \<Rightarrow> string \<Rightarrow> string \<Rightarrow> string \<Rightarrow> bool) \<Rightarrow> s3_config option \<Rightarrow> string \<Rightarrow> string \<Rightarrow> string \<Rightarrow> s3_error + string" where
  "s3_upload media put client key data content_type =
     (case client of
        None \<Rightarrow> Inl S3_Not_Configured
      | Some g \<Rightarrow>
          (case s3_object_key g key of
             Inl e \<Rightarrow> Inl e
           | Inr full \<Rightarrow>
               (case media content_type of
                  None \<Rightarrow> Inl Bad_Content_Type
                | Some ty \<Rightarrow>
                    if ty = [] then Inl Bad_Content_Type
                    else if s3_max_upload g < int (length data) then Inl Object_Too_Large
                    else if put (s3_bucket g) full ty data then Inr full else Inl S3_Request_Failed)))"

definition s3_presign ::
    "(string \<Rightarrow> string \<Rightarrow> int \<Rightarrow> string option) \<Rightarrow> s3_config option \<Rightarrow> string \<Rightarrow> int \<Rightarrow> s3_error + string" where
  "s3_presign sign client key expiry =
     (case client of
        None \<Rightarrow> Inl S3_Not_Configured
      | Some g \<Rightarrow>
          if expiry < 1000000000 \<or> 7 * 24 * 3600 * 1000000000 < expiry then Inl Bad_Expiry
          else (case s3_object_key g key of
              Inl e \<Rightarrow> Inl e
            | Inr full \<Rightarrow> (case sign (s3_bucket g) full expiry of Some u \<Rightarrow> Inr u | None \<Rightarrow> Inl S3_Request_Failed)))"

section \<open>Keys stay below their root\<close>

lemma clean_object_key_elements:
  assumes "clean_object_key key = Some k"
  shows "\<forall>e\<in>set (elements k). e \<notin> {[], ''.'', ''..''}" "k = slashes key" "CHR 0x5C \<notin> set k"
proof -
  have k: "k = slashes key" "k \<noteq> ''.''" "fs_valid_path k"
    using assms by (auto simp: clean_object_key_def Let_def split: if_splits)
  then show "\<forall>e\<in>set (elements k). e \<notin> {[], ''.'', ''..''}" "k = slashes key" by (auto simp: fs_valid_path_def)
  show "CHR 0x5C \<notin> set k" by (auto simp: k(1) slashes_def)
qed

lemma slashes_id: "CHR 0x5C \<notin> set k \<Longrightarrow> slashes k = k"
  by (auto simp: slashes_def intro!: map_idI)

lemma clean_object_key_idem: "clean_object_key key = Some k \<Longrightarrow> clean_object_key k = Some k"
proof -
  assume c: "clean_object_key key = Some k"
  have "slashes k = slashes key" using clean_object_key_elements [OF c] slashes_id by simp
  then show ?thesis using c by (simp add: clean_object_key_def)
qed

lemma resolve_plain: "\<forall>e\<in>set es. e \<notin> {[], ''.'', ''..''} \<Longrightarrow> resolve base es = base @ es"
  by (induction es arbitrary: base) auto

lemma mkdir_all_effect:
  assumes "mkdir_all base es fs = Some fs'" "\<forall>e\<in>set es. e \<notin> {[], ''.'', ''..''}"
  shows "(\<forall>p. \<not> (\<exists>q. p = base @ q) \<longrightarrow> map_of fs' p = map_of fs p) \<and> (\<forall>p d. map_of fs' p = Some (File_Entry d) \<longleftrightarrow> map_of fs p = Some (File_Entry d))"
  using assms
proof (induction es arbitrary: base fs)
  case (Cons e es)
  have p: "resolve base [e] = base @ [e]" using Cons.prems(2) by simp
  have ok: "\<forall>e\<in>set es. e \<notin> {[], ''.'', ''..''}" using Cons.prems(2) by simp
  show ?case
  proof (cases "map_of fs (base @ [e])")
    case None
    then have "mkdir_all (base @ [e]) es (AList.update (base @ [e]) Dir_Entry fs) = Some fs'"
      using Cons.prems(1) by (simp add: p Let_def del: resolve.simps)
    from Cons.IH [OF this ok] show ?thesis using None by (auto simp: update_conv')
  next
    case (Some en)
    then have "mkdir_all (base @ [e]) es fs = Some fs'"
      using Cons.prems(1) by (simp add: p Let_def del: resolve.simps split: fs_entry.splits)
    from Cons.IH [OF this ok] show ?thesis by auto
  qed
qed simp

lemma upper_hex_val: "n < 16 \<Longrightarrow> hex_val (upper_hex ! n) = Some n"
proof -
  have "list_all (\<lambda>n. hex_val (upper_hex ! n) = Some n) [0..<16]" by code_simp
  then show "n < 16 \<Longrightarrow> ?thesis" by (simp add: list_all_iff)
qed

lemma path_unescape_escape: "path_unescape (path_escape s @ t) = map_option ((@) s) (path_unescape t)"
proof (induction s)
  case Nil
  then show ?case by (cases "path_unescape t") (simp_all add: path_escape_def)
next
  case (Cons c s)
  have "(of_char c :: nat) < 256" by simp
  then have small: "of_char c div 16 < (16 :: nat)" "of_char c mod 16 < (16 :: nat)" by (auto simp: div_less_iff_less_mult)
  have plain: "plain_in_path c \<Longrightarrow> c \<noteq> CHR ''%''"
    by (auto simp: plain_in_path_def is_lower_def is_upper_def is_digit_def byte_in_def)
  have step: "path_escape (c # s) = escape_char c @ path_escape s" by (simp add: path_escape_def)
  show ?case
    using Cons.IH plain small
    by (cases "path_unescape t"; cases "plain_in_path c") (simp_all add: step escape_char_def upper_hex_val)
qed

text \<open>C34. An upload that succeeds writes exactly one file: the one the key names element by element below the root, with
  the given content. No other file changes, nothing outside the root changes at all, and the answered URL
  decodes to the key.\<close>

theorem uploads_stay_below_the_root:
  assumes "local_upload init_ok over_before root_ok over_after root key data fs = (Inr url, fs')"
  shows "\<exists>k. clean_object_key key = Some k \<and> map_of fs' (root @ elements k) = Some (File_Entry data)
    \<and> (\<forall>p. p \<noteq> root @ elements k \<longrightarrow> (\<forall>d. map_of fs' p = Some (File_Entry d) \<longleftrightarrow> map_of fs p = Some (File_Entry d)))
    \<and> (\<forall>p. \<not> (\<exists>q. p = root @ q) \<longrightarrow> map_of fs' p = map_of fs p)
    \<and> path_unescape url = Some (''/uploads/'' @ k)"
proof -
  obtain k fs1 where k: "clean_object_key key = Some k"
    and dirs: "mkdir_all root (butlast (elements k)) fs = Some fs1"
    and stored: "write_file (resolve root (elements k)) data fs1 = Some fs'" and url: "url = local_storage_url k"
    using assms by (auto simp: local_upload_def split: if_splits option.splits)
  have plain: "\<forall>e\<in>set (elements k). e \<notin> {[], ''.'', ''..''}" by (rule clean_object_key_elements(1) [OF k])
  then have path: "resolve root (elements k) = root @ elements k" by (rule resolve_plain)
  have "\<forall>e\<in>set (butlast (elements k)). e \<notin> {[], ''.'', ''..''}" using plain by (meson in_set_butlastD)
  note effect = mkdir_all_effect [OF dirs this]
  have fs': "fs' = AList.update (root @ elements k) (File_Entry data) fs1"
    using stored by (simp add: write_file_def path split: if_splits)
  have "path_unescape url = Some (''/uploads/'' @ k)"
    using path_unescape_escape [of "''/uploads/'' @ k" "[]"] by (simp add: url local_storage_url_def)
  then show ?thesis using k effect by (intro exI [of _ k]) (auto simp: fs' update_conv')
qed

text \<open>A key of the S3 client begins with the configured prefix and goes on element by element, within 1024 bytes.\<close>

lemma s3_keys_stay_below_their_prefix:
  assumes "s3_object_key g key = Inr full"
  shows "\<exists>k. clean_object_key key = Some k \<and> full = (if s3_prefix g = [] then k else s3_prefix g @ ''/'' @ k) \<and> length full \<le> 1024
    \<and> (\<forall>e\<in>set (elements k). e \<notin> {[], ''.'', ''..''})"
  using assms clean_object_key_elements(1) by (auto simp: s3_object_key_def Let_def split: option.splits if_splits)

lemma s3_uploads_are_bounded:
  assumes "s3_upload media put (Some g) key data content_type = Inr full"
  shows "int (length data) \<le> s3_max_upload g \<and> s3_object_key g key = Inr full"
  using assms by (auto simp: s3_upload_def split: sum.splits option.splits if_splits)

text \<open>Keys that differ only in the kind of slash name the same object.\<close>

lemma backslash_keys_collide:
  "clean_object_key ''a/b'' = Some ''a/b''" "clean_object_key (''a'' @ [CHR 0x5C] @ ''b'') = Some ''a/b''"
  by code_simp+

lemma uploads_stay_below_the_root_witness:
  "snd (local_upload True False True False [''srv''] ''img/a b.png'' ''xyz'' [([''srv''], Dir_Entry)]) =
     [([''srv''], Dir_Entry), ([''srv'', ''img''], Dir_Entry), ([''srv'', ''img'', ''a b.png''], File_Entry ''xyz'')]
   \<and> (\<exists>k. clean_object_key ''img/a b.png'' = Some k \<and> path_unescape ''/uploads/img/a%20b.png'' = Some (''/uploads/'' @ k))"
proof -
  let ?fs' = "[([''srv''], Dir_Entry), ([''srv'', ''img''], Dir_Entry), ([''srv'', ''img'', ''a b.png''], File_Entry ''xyz'')]"
  have run: "local_upload True False True False [''srv''] ''img/a b.png'' ''xyz'' [([''srv''], Dir_Entry)] =
      (Inr ''/uploads/img/a%20b.png'', ?fs')" by code_simp
  from uploads_stay_below_the_root [OF run] show ?thesis by (auto simp: run)
qed

end
