(* ===== verification/Kafka_Queue.thy ===== *)
theory Kafka_Queue
  imports Go_Strconv Go_Maps
begin

text \<open>
  \<^verbatim>\<open>queue/kafka.go\<close>: the options of the client, the producer, and the loop of the consumer with its retries,
  its dead letters and its commits. The client library is a parameter: what a poll, a publication, a commit,
  a wait and a call of the handler answer may depend on everything that happened before, which is the log.
\<close>

section \<open>Configuration\<close>

record kafka_sasl =
  ks_mechanism :: string
  ks_username :: string
  ks_password :: string

record kafka_config =
  kc_brokers :: "string list"
  kc_client_id :: string
  kc_tls :: "nat option"               \<comment> \<open>\<^verbatim>\<open>MinVersion\<close> of the TLS configuration, when there is one\<close>
  kc_sasl :: kafka_sasl
  kc_dial_timeout :: int
  kc_delivery_timeout :: int
  kc_max_message_bytes :: int
  kc_max_buffered_bytes :: int
  kc_record_retries :: int

datatype kafka_error =
    Kafka_Not_Configured | Kafka_Already_Running | Kafka_Handler_Required
  | Kafka_Brokers_Required | Kafka_Invalid_Broker string | Kafka_Message_Limit_Too_Large
  | Kafka_Mechanism_Required | Kafka_Sasl_Needs_Tls | Kafka_Credentials_Required | Kafka_Unsupported_Mechanism string
  | Kafka_Invalid_Topic | Kafka_Group_Required | Kafka_Topics_Required | Kafka_Invalid_Dlq | Kafka_Negative_Retries
  | Kafka_Message_Too_Large | Kafka_Create string | Kafka_Connect string | Kafka_Publish string
  | Kafka_Fetch string | Kafka_Commit string | Kafka_Dlq_Publish string | Kafka_Context string

datatype kafka_mechanism = Sasl_Plain | Sasl_Scram_256 | Sasl_Scram_512

datatype kafka_option =
    Seed_Brokers "string list" | Client_Id string | Dial_Timeout int | Dial_Tls nat
  | Sasl_Auth kafka_mechanism string string
  | Produce_Topic string | Acks_All | Record_Retries int | Delivery_Timeout int | Batch_Max_Bytes int
  | Max_Buffered_Bytes int | Stop_On_Data_Loss
  | Consumer_Group string | Consume_Topics "string list" | Reset_At_Start | Disable_Auto_Commit | Block_Rebalance_On_Poll

definition has_any_of :: "string \<Rightarrow> string \<Rightarrow> bool" where
  "has_any_of s chars = list_ex (\<lambda>c. c \<in> set chars) s"

abbreviation line_space :: string where "line_space \<equiv> [CHR 0x0D, CHR 0x0A, CHR 0x09]"

definition kafka_topic_char :: "char \<Rightarrow> bool" where
  "kafka_topic_char c \<longleftrightarrow> is_lower c \<or> is_upper c \<or> is_digit c \<or> c = CHR ''.'' \<or> c = CHR ''_'' \<or> c = CHR ''-''"

definition validate_kafka_topic :: "string \<Rightarrow> bool" where
  "validate_kafka_topic topic \<longleftrightarrow>
     \<not> (topic = [] \<or> 249 < length topic \<or> topic = ''.'' \<or> topic = ''..'') \<and> list_all kafka_topic_char topic"

definition kafka_sasl_mechanism :: "kafka_sasl \<Rightarrow> bool \<Rightarrow> kafka_error + kafka_option option" where
  "kafka_sasl_mechanism sasl tls_enabled =
     (let mechanism = to_lower (trim_space (ks_mechanism sasl))
      in if mechanism = [] then
           (if ks_username sasl \<noteq> [] \<or> ks_password sasl \<noteq> [] then Inl Kafka_Mechanism_Required else Inr None)
         else if \<not> tls_enabled then Inl Kafka_Sasl_Needs_Tls
         else if ks_username sasl = [] \<or> ks_password sasl = [] then Inl Kafka_Credentials_Required
         else if mechanism = ''plain'' then Inr (Some (Sasl_Auth Sasl_Plain (ks_username sasl) (ks_password sasl)))
         else if mechanism = ''scram-sha-256'' then Inr (Some (Sasl_Auth Sasl_Scram_256 (ks_username sasl) (ks_password sasl)))
         else if mechanism = ''scram-sha-512'' then Inr (Some (Sasl_Auth Sasl_Scram_512 (ks_username sasl) (ks_password sasl)))
         else Inl (Kafka_Unsupported_Mechanism (ks_mechanism sasl)))"

definition invalid_broker :: "string \<Rightarrow> bool" where
  "invalid_broker broker \<longleftrightarrow> trim_space broker = [] \<or> contains_str broker ''://'' \<or> has_any_of broker (line_space @ '' '')"

definition default_positive :: "int \<Rightarrow> int \<Rightarrow> int" where
  "default_positive d n = (if n \<le> 0 then d else n)"

text \<open>The defaults are in nanoseconds and bytes; 771 is \<^verbatim>\<open>tls.VersionTLS12\<close>.\<close>

definition kafka_client_options :: "kafka_config \<Rightarrow> kafka_error + kafka_config \<times> kafka_option list" where
  "kafka_client_options config =
     (if kc_brokers config = [] then Inl Kafka_Brokers_Required
      else case find invalid_broker (kc_brokers config) of
        Some broker \<Rightarrow> Inl (Kafka_Invalid_Broker broker)
      | None \<Rightarrow>
          (let config = config\<lparr>kc_client_id := if kc_client_id config = [] then ''goplusplus'' else kc_client_id config,
                 kc_dial_timeout := default_positive 10000000000 (kc_dial_timeout config),
                 kc_delivery_timeout := default_positive 30000000000 (kc_delivery_timeout config),
                 kc_max_message_bytes := default_positive 1048576 (kc_max_message_bytes config)\<rparr>
           in if 2147483647 < kc_max_message_bytes config then Inl Kafka_Message_Limit_Too_Large
              else let config = config\<lparr>kc_max_buffered_bytes := default_positive 67108864 (kc_max_buffered_bytes config),
                         kc_record_retries := default_positive 10 (kc_record_retries config)\<rparr>;
                       opts = [Seed_Brokers (kc_brokers config), Client_Id (kc_client_id config), Dial_Timeout (kc_dial_timeout config)];
                       opts = opts @ (case kc_tls config of None \<Rightarrow> [] | Some v \<Rightarrow> [Dial_Tls (if v = 0 then 771 else v)])
                   in case kafka_sasl_mechanism (kc_sasl config) (kc_tls config \<noteq> None) of
                        Inl e \<Rightarrow> Inl e
                      | Inr None \<Rightarrow> Inr (config, opts)
                      | Inr (Some m) \<Rightarrow> Inr (config, opts @ [m])))"

section \<open>Records\<close>

type_synonym kafka_headers = "(string \<times> string) list"

record kafka_record =
  kr_topic :: string
  kr_key :: string
  kr_value :: string
  kr_headers :: kafka_headers        \<comment> \<open>a list on the wire, with duplicates\<close>
  kr_partition :: int
  kr_offset :: int
  kr_time :: int

record kafka_message =
  km_topic :: string
  km_key :: string
  km_value :: string
  km_headers :: kafka_headers        \<comment> \<open>a map: one entry per key\<close>
  km_partition :: int
  km_offset :: int
  km_time :: int

definition kafka_message_of :: "kafka_record \<Rightarrow> kafka_message" where
  "kafka_message_of r =
     \<lparr>km_topic = kr_topic r, km_key = kr_key r, km_value = kr_value r,
      km_headers = fold (\<lambda>(k, v). AList.update k v) (kr_headers r) [],
      km_partition = kr_partition r, km_offset = kr_offset r, km_time = kr_time r\<rparr>"

definition truncate_kafka_error :: "string \<Rightarrow> string" where
  "truncate_kafka_error message = (if 512 < length message then take 512 message else message)"

definition dlq_headers :: "int \<Rightarrow> string \<Rightarrow> kafka_record \<Rightarrow> kafka_headers \<Rightarrow> kafka_headers" where
  "dlq_headers max_retries err r headers =
     AList.update ''gpp-handler-error'' (truncate_kafka_error err)
      (AList.update ''gpp-handler-attempts'' (itoa (max_retries + 1))
       (AList.update ''gpp-original-offset'' (itoa (kr_offset r))
        (AList.update ''gpp-original-partition'' (itoa (kr_partition r))
         (AList.update ''gpp-original-topic'' (kr_topic r) headers))))"

section \<open>The producer\<close>

record kafka_producer =
  kp_topic :: string
  kp_max_message_bytes :: int
  kp_options :: "kafka_option list"     \<comment> \<open>what the client was created with\<close>

text \<open>The answers of \<^verbatim>\<open>kgo.NewClient\<close> and \<^verbatim>\<open>Ping\<close> are parameters: an error, or none.\<close>

definition new_kafka_producer ::
    "(kafka_option list \<Rightarrow> string option) \<Rightarrow> (kafka_option list \<Rightarrow> string option) \<Rightarrow> kafka_config \<Rightarrow> string \<Rightarrow> kafka_error + kafka_producer" where
  "new_kafka_producer create ping config topic =
     (case kafka_client_options config of
        Inl e \<Rightarrow> Inl e
      | Inr (normalized, opts) \<Rightarrow>
          if \<not> validate_kafka_topic topic then Inl Kafka_Invalid_Topic
          else let opts = opts @ [Produce_Topic topic, Acks_All, Record_Retries (kc_record_retries normalized),
                    Delivery_Timeout (kc_delivery_timeout normalized), Batch_Max_Bytes (kc_max_message_bytes normalized),
                    Max_Buffered_Bytes (kc_max_buffered_bytes normalized), Stop_On_Data_Loss]
               in case create opts of
                    Some e \<Rightarrow> Inl (Kafka_Create e)
                  | None \<Rightarrow> (case ping opts of
                      Some e \<Rightarrow> Inl (Kafka_Connect e)
                    | None \<Rightarrow> Inr \<lparr>kp_topic = topic, kp_max_message_bytes = kc_max_message_bytes normalized, kp_options = opts\<rparr>))"

definition kafka_publish ::
    "(kafka_record \<Rightarrow> string option) \<Rightarrow> kafka_producer option \<Rightarrow> string \<Rightarrow> string \<Rightarrow> string \<Rightarrow> kafka_headers \<Rightarrow> kafka_error option \<times> kafka_record list" where
  "kafka_publish produce producer topic key payload headers =
     (case producer of
        None \<Rightarrow> (Some Kafka_Not_Configured, [])
      | Some p \<Rightarrow>
          if \<not> validate_kafka_topic topic then (Some Kafka_Invalid_Topic, [])
          else if kp_max_message_bytes p < int (length payload) then (Some Kafka_Message_Too_Large, [])
          else let r = \<lparr>kr_topic = topic, kr_key = key, kr_value = payload, kr_headers = headers, kr_partition = 0, kr_offset = 0, kr_time = 0\<rparr>
               in (map_option Kafka_Publish (produce r), [r]))"

definition publish_message ::
    "(kafka_record \<Rightarrow> string option) \<Rightarrow> kafka_producer \<Rightarrow> string \<Rightarrow> string \<Rightarrow> kafka_error option \<times> kafka_record list" where
  "publish_message produce p key payload = kafka_publish produce (Some p) (kp_topic p) key payload []"

section \<open>The consumer\<close>

record kafka_consumer_config =
  kcc_shared :: kafka_config
  kcc_topics :: "string list"
  kcc_group_id :: string
  kcc_dlq_topic :: string
  kcc_max_poll_records :: int
  kcc_max_handler_retries :: int
  kcc_retry_backoff :: int

record kafka_consumer =
  kq_dlq_topic :: string
  kq_max_poll_records :: int
  kq_max_handler_retries :: int
  kq_retry_backoff :: int
  kq_options :: "kafka_option list"

definition new_kafka_consumer ::
    "(kafka_option list \<Rightarrow> string option) \<Rightarrow> (kafka_option list \<Rightarrow> string option) \<Rightarrow> kafka_consumer_config \<Rightarrow> kafka_error + kafka_consumer" where
  "new_kafka_consumer create ping config =
     (case kafka_client_options (kcc_shared config) of
        Inl e \<Rightarrow> Inl e
      | Inr (normalized, opts) \<Rightarrow>
          if trim_space (kcc_group_id config) = [] \<or> has_any_of (kcc_group_id config) line_space then Inl Kafka_Group_Required
          else if kcc_topics config = [] then Inl Kafka_Topics_Required
          else if \<not> list_all validate_kafka_topic (kcc_topics config) then Inl Kafka_Invalid_Topic
          else let dlq = (if kcc_dlq_topic config = [] then hd (kcc_topics config) @ ''.dlq'' else kcc_dlq_topic config)
               in if \<not> validate_kafka_topic dlq then Inl Kafka_Invalid_Dlq
                  else if kcc_max_handler_retries config < 0 then Inl Kafka_Negative_Retries
                  else let opts = opts @ [Consumer_Group (kcc_group_id config), Consume_Topics (kcc_topics config), Reset_At_Start,
                             Disable_Auto_Commit, Block_Rebalance_On_Poll, Acks_All, Record_Retries (kc_record_retries normalized),
                             Delivery_Timeout (kc_delivery_timeout normalized), Batch_Max_Bytes (kc_max_message_bytes normalized),
                             Max_Buffered_Bytes (kc_max_buffered_bytes normalized), Stop_On_Data_Loss]
                       in case create opts of
                            Some e \<Rightarrow> Inl (Kafka_Create e)
                          | None \<Rightarrow> (case ping opts of
                              Some e \<Rightarrow> Inl (Kafka_Connect e)
                            | None \<Rightarrow> Inr \<lparr>kq_dlq_topic = dlq,
                                kq_max_poll_records = default_positive 100 (kcc_max_poll_records config),
                                kq_max_handler_retries = (if kcc_max_handler_retries config = 0 then 3 else kcc_max_handler_retries config),
                                kq_retry_backoff = default_positive 100000000 (kcc_retry_backoff config),
                                kq_options = opts\<rparr>))"

text \<open>Everything the consumer does, in order. A flag tells whether the call succeeded.\<close>

datatype kafka_event =
    Handler_Call kafka_message bool
  | Retry_Wait int
  | Dlq_Publish kafka_record bool
  | Offset_Commit kafka_record bool
  | Rebalance_Allowed

type_synonym kafka_log = "kafka_event list"

text \<open>
  The handler gets the message by value: what it writes into the bytes of the key and the value, or into the
  map of headers, is there in the next attempt.
\<close>

record kafka_env =
  ke_handler :: "kafka_log \<Rightarrow> kafka_message \<Rightarrow> string option \<times> kafka_message"
  ke_wait :: "kafka_log \<Rightarrow> int \<Rightarrow> string option"            \<comment> \<open>the error of the context, when it ends first\<close>
  ke_produce :: "kafka_log \<Rightarrow> kafka_record \<Rightarrow> string option"
  ke_commit :: "kafka_log \<Rightarrow> kafka_record \<Rightarrow> string option"

definition shared_parts :: "kafka_message \<Rightarrow> kafka_message \<Rightarrow> kafka_message" where
  "shared_parts m m' = m\<lparr>km_key := km_key m', km_value := km_value m', km_headers := km_headers m'\<rparr>"

definition kafka_retry_delay :: "int \<Rightarrow> nat \<Rightarrow> int" where
  "kafka_retry_delay base attempt = wrap64 (base * 2 ^ min attempt 8)"

datatype kafka_tried = Tried_Handled | Tried_Failed string | Tried_Cancelled string

fun try_handler :: "kafka_env \<Rightarrow> int \<Rightarrow> nat \<Rightarrow> nat \<Rightarrow> kafka_message \<Rightarrow> kafka_log \<Rightarrow> kafka_tried \<times> kafka_message \<times> kafka_log" where
  "try_handler env base left attempt m log =
     (let (err, m') = ke_handler env log m;
          m' = shared_parts m m';
          log = log @ [Handler_Call m (err = None)]
      in case err of
           None \<Rightarrow> (Tried_Handled, m', log)
         | Some e \<Rightarrow> (case left of
             0 \<Rightarrow> (Tried_Failed e, m', log)
           | Suc n \<Rightarrow> (case ke_wait env log (kafka_retry_delay base attempt) of
               Some ce \<Rightarrow> (Tried_Cancelled ce, m', log @ [Retry_Wait (kafka_retry_delay base attempt)])
             | None \<Rightarrow> try_handler env base n (attempt + 1) m' (log @ [Retry_Wait (kafka_retry_delay base attempt)]))))"

definition dlq_record :: "kafka_consumer \<Rightarrow> string \<Rightarrow> kafka_record \<Rightarrow> kafka_headers \<Rightarrow> kafka_record" where
  "dlq_record q err r headers =
     \<lparr>kr_topic = kq_dlq_topic q, kr_key = kr_key r, kr_value = kr_value r,
      kr_headers = dlq_headers (kq_max_handler_retries q) err r headers, kr_partition = 0, kr_offset = 0, kr_time = 0\<rparr>"

definition process_record :: "kafka_env \<Rightarrow> kafka_consumer \<Rightarrow> kafka_record \<Rightarrow> kafka_log \<Rightarrow> kafka_error option \<times> kafka_log" where
  "process_record env q r log =
     (case try_handler env (kq_retry_backoff q) (nat (kq_max_handler_retries q)) 0 (kafka_message_of r) log of
        (Tried_Handled, _, log) \<Rightarrow> (None, log)
      | (Tried_Cancelled ce, _, log) \<Rightarrow> (Some (Kafka_Context ce), log)
      | (Tried_Failed e, m, log) \<Rightarrow>
          (let d = dlq_record q e r (km_headers m); err = ke_produce env log d
           in (map_option Kafka_Dlq_Publish err, log @ [Dlq_Publish d (err = None)])))"

text \<open>The callback of \<^verbatim>\<open>EachRecord\<close>: after a failure the rest of the fetch is passed over.\<close>

fun each_record :: "kafka_env \<Rightarrow> kafka_consumer \<Rightarrow> kafka_record list \<Rightarrow> kafka_log \<Rightarrow> kafka_error option \<times> kafka_log" where
  "each_record env q [] log = (None, log)"
| "each_record env q (r # rs) log =
     (case process_record env q r log of
        (Some e, log) \<Rightarrow> (Some e, log)
      | (None, log) \<Rightarrow>
          (case ke_commit env log r of
             Some e \<Rightarrow> (Some (Kafka_Commit e), log @ [Offset_Commit r False])
           | None \<Rightarrow> each_record env q rs (log @ [Offset_Commit r True])))"

record kafka_fetch =
  kf_context_done :: bool
  kf_closed :: bool
  kf_errors :: "string list"
  kf_records :: "kafka_record list"

datatype kafka_run = Still_Polling | Returned "kafka_error option"

text \<open>The loop of \<^verbatim>\<open>Run\<close> over the fetches it has received so far.\<close>

fun run_polls :: "kafka_env \<Rightarrow> kafka_consumer \<Rightarrow> kafka_fetch list \<Rightarrow> kafka_log \<Rightarrow> kafka_run \<times> kafka_log" where
  "run_polls env q [] log = (Still_Polling, log)"
| "run_polls env q (f # fs) log =
     (if kf_context_done f \<or> kf_closed f then (Returned None, log)
      else case kf_errors f of
        e # _ \<Rightarrow> (Returned (Some (Kafka_Fetch e)), log @ [Rebalance_Allowed])
      | [] \<Rightarrow> (case each_record env q (kf_records f) log of
          (err, log) \<Rightarrow> (if err = None then run_polls env q fs (log @ [Rebalance_Allowed])
                         else (Returned err, log @ [Rebalance_Allowed]))))"

text \<open>The checks before the loop; the flag is the consumer's \<^verbatim>\<open>running\<close>.\<close>

definition kafka_run_guard :: "bool \<Rightarrow> bool \<Rightarrow> bool \<Rightarrow> kafka_error option" where
  "kafka_run_guard configured has_handler running =
     (if \<not> configured then Some Kafka_Not_Configured
      else if \<not> has_handler then Some Kafka_Handler_Required
      else if running then Some Kafka_Already_Running
      else None)"

section \<open>What the log shows\<close>

primrec commits :: "kafka_log \<Rightarrow> kafka_record list" where
  "commits [] = []"
| "commits (e # es) = (case e of Offset_Commit r b \<Rightarrow> r # commits es | _ \<Rightarrow> commits es)"

primrec handler_calls :: "kafka_log \<Rightarrow> nat" where
  "handler_calls [] = 0"
| "handler_calls (e # es) = (case e of Handler_Call m b \<Rightarrow> Suc (handler_calls es) | _ \<Rightarrow> handler_calls es)"

text \<open>A record is settled when the handler accepted it or the dead-letter topic acknowledged it.\<close>

definition same_record :: "kafka_message \<Rightarrow> kafka_record \<Rightarrow> bool" where
  "same_record m r \<longleftrightarrow> km_topic m = kr_topic r \<and> km_partition m = kr_partition r \<and> km_offset m = kr_offset r"

definition dead_letter_of :: "kafka_consumer \<Rightarrow> kafka_record \<Rightarrow> kafka_record \<Rightarrow> bool" where
  "dead_letter_of q r d \<longleftrightarrow>
     kr_topic d = kq_dlq_topic q \<and> kr_key d = kr_key r \<and> kr_value d = kr_value r
     \<and> map_of (kr_headers d) ''gpp-original-topic'' = Some (kr_topic r)
     \<and> map_of (kr_headers d) ''gpp-original-partition'' = Some (itoa (kr_partition r))
     \<and> map_of (kr_headers d) ''gpp-original-offset'' = Some (itoa (kr_offset r))"

definition settled :: "kafka_consumer \<Rightarrow> kafka_record \<Rightarrow> kafka_log \<Rightarrow> bool" where
  "settled q r log \<longleftrightarrow>
     (\<exists>m. Handler_Call m True \<in> set log \<and> same_record m r) \<or> (\<exists>d. Dlq_Publish d True \<in> set log \<and> dead_letter_of q r d)"

definition commit_safe :: "kafka_consumer \<Rightarrow> kafka_log \<Rightarrow> bool" where
  "commit_safe q log \<longleftrightarrow> (\<forall>pre r b post. log = pre @ Offset_Commit r b # post \<longrightarrow> settled q r pre)"

declare try_handler.simps [simp del]

lemma commits_append [simp]: "commits (xs @ ys) = commits xs @ commits ys"
  by (induction xs) (simp_all split: kafka_event.split)

lemma handler_calls_append [simp]: "handler_calls (xs @ ys) = handler_calls xs + handler_calls ys"
  by (induction xs) (simp_all split: kafka_event.split)

lemma commits_member: "Offset_Commit r b \<in> set log \<Longrightarrow> r \<in> set (commits log)"
  by (induction log) (auto split: kafka_event.split)

lemma commits_memberE: "r \<in> set (commits log) \<Longrightarrow> (\<And>b. Offset_Commit r b \<in> set log \<Longrightarrow> thesis) \<Longrightarrow> thesis"
  by (induction log) (auto split: kafka_event.splits)

lemma settled_mono: "settled q r log \<Longrightarrow> set log \<subseteq> set log' \<Longrightarrow> settled q r log'"
  unfolding settled_def by blast

lemma commit_safe_plain: "commits log = [] \<Longrightarrow> commit_safe q log"
  using commits_member by (fastforce simp: commit_safe_def)

lemma commit_safe_append:
  assumes "commit_safe q xs" "commit_safe q ys"
  shows "commit_safe q (xs @ ys)"
  unfolding commit_safe_def
proof (intro allI impI)
  fix pre r b post
  assume "xs @ ys = pre @ Offset_Commit r b # post"
  then consider us where "xs = pre @ us" "us @ ys = Offset_Commit r b # post"
    | us where "pre = xs @ us" "ys = us @ Offset_Commit r b # post"
    by (auto simp: append_eq_append_conv2)
  then consider us where "xs = pre @ Offset_Commit r b # us" | us where "pre = xs @ us" "ys = us @ Offset_Commit r b # post"
    by cases (simp_all add: append_eq_Cons_conv, metis append_Nil2)
  then show "settled q r pre"
  proof cases
    case 1
    then show ?thesis using assms(1) by (auto simp: commit_safe_def)
  next
    case (2 us)
    then have "settled q r us" using assms(2) by (auto simp: commit_safe_def)
    then show ?thesis by (rule settled_mono) (simp add: 2)
  qed
qed

lemma commit_safe_commit: "commits log = [] \<Longrightarrow> settled q r log \<Longrightarrow> commit_safe q (log @ [Offset_Commit r b])"
proof -
  assume plain: "commits log = []" and sett: "settled q r log"
  show ?thesis
    unfolding commit_safe_def
  proof (intro allI impI)
    fix pre r' b' post
    assume eq: "log @ [Offset_Commit r b] = pre @ Offset_Commit r' b' # post"
    show "settled q r' pre"
    proof (cases post rule: rev_cases)
      case Nil
      then show ?thesis using eq sett by simp
    next
      case (snoc post' x)
      then have "log = pre @ Offset_Commit r' b' # post'" using eq by simp
      then show ?thesis using plain by simp
    qed
  qed
qed

lemma try_handler_log:
  assumes "try_handler env base left attempt m log = (t, m', log')" "same_record m r"
  shows "\<exists>new. log' = log @ new \<and> commits new = [] \<and> same_record m' r \<and> handler_calls new \<le> Suc left
    \<and> (t = Tried_Handled \<longrightarrow> (\<exists>h. Handler_Call h True \<in> set new \<and> same_record h r))
    \<and> (\<forall>e. t = Tried_Failed e \<longrightarrow> handler_calls new = Suc left)"
  using assms
proof (induction left arbitrary: attempt m log)
  case 0
  obtain err n where call: "ke_handler env log m = (err, n)" by fastforce
  show ?case using 0 call
    by (cases err) (auto simp: try_handler.simps [of _ _ 0] same_record_def shared_parts_def)
next
  case (Suc left)
  obtain err n where call: "ke_handler env log m = (err, n)" by fastforce
  let ?m = "shared_parts m n" and ?log = "log @ [Handler_Call m (err = None)]"
  have same: "same_record ?m r" using Suc.prems(2) by (simp add: same_record_def shared_parts_def)
  show ?case
  proof (cases err)
    case None
    then show ?thesis using Suc.prems call same by (auto simp: try_handler.simps [of _ _ "Suc left"])
  next
    case (Some e)
    show ?thesis
    proof (cases "ke_wait env ?log (kafka_retry_delay base attempt)")
      case None
      let ?log2 = "?log @ [Retry_Wait (kafka_retry_delay base attempt)]"
      have "try_handler env base left (attempt + 1) ?m ?log2 = (t, m', log')"
        using Suc.prems(1) call Some None by (simp add: try_handler.simps [of _ _ "Suc left"])
      from Suc.IH [OF this same] obtain new where new: "log' = ?log2 @ new" "commits new = []" "same_record m' r"
        "handler_calls new \<le> Suc left" "t = Tried_Handled \<longrightarrow> (\<exists>h. Handler_Call h True \<in> set new \<and> same_record h r)"
        "\<forall>e. t = Tried_Failed e \<longrightarrow> handler_calls new = Suc left" by blast
      then show ?thesis using Some
        by (intro exI [of _ "Handler_Call m False # Retry_Wait (kafka_retry_delay base attempt) # new"]) auto
    next
      case (Some ce)
      then show ?thesis using Suc.prems(1) call \<open>err = _\<close> same by (auto simp: try_handler.simps [of _ _ "Suc left"])
    qed
  qed
qed

lemma dlq_headers_lookup:
  "map_of (dlq_headers n e r hs) ''gpp-original-topic'' = Some (kr_topic r)"
  "map_of (dlq_headers n e r hs) ''gpp-original-partition'' = Some (itoa (kr_partition r))"
  "map_of (dlq_headers n e r hs) ''gpp-original-offset'' = Some (itoa (kr_offset r))"
  "map_of (dlq_headers n e r hs) ''gpp-handler-attempts'' = Some (itoa (n + 1))"
  by (simp_all add: dlq_headers_def update_conv)

lemma dlq_record_dead_letter: "dead_letter_of q r (dlq_record q e r hs)"
  by (simp add: dead_letter_of_def dlq_record_def dlq_headers_lookup)

lemma process_record_log:
  assumes "process_record env q r log = (res, log')"
  shows "\<exists>new. log' = log @ new \<and> commits new = [] \<and> (res = None \<longrightarrow> settled q r new)
    \<and> handler_calls new \<le> Suc (nat (kq_max_handler_retries q))"
proof -
  obtain t m log1 where tries: "try_handler env (kq_retry_backoff q) (nat (kq_max_handler_retries q)) 0 (kafka_message_of r) log = (t, m, log1)"
    by (metis prod_cases3)
  have same: "same_record (kafka_message_of r) r" by (simp add: same_record_def kafka_message_of_def)
  obtain new where new: "log1 = log @ new" "commits new = []" "handler_calls new \<le> Suc (nat (kq_max_handler_retries q))"
    "t = Tried_Handled \<longrightarrow> (\<exists>h. Handler_Call h True \<in> set new \<and> same_record h r)"
    using try_handler_log [OF tries same] by blast
  show ?thesis
  proof (cases t)
    case Tried_Handled
    then show ?thesis using assms tries new by (auto simp: process_record_def settled_def)
  next
    case (Tried_Cancelled ce)
    then show ?thesis using assms tries new by (auto simp: process_record_def)
  next
    case (Tried_Failed e)
    let ?d = "dlq_record q e r (km_headers m)"
    have "res = map_option Kafka_Dlq_Publish (ke_produce env log1 ?d)" "log' = log1 @ [Dlq_Publish ?d (ke_produce env log1 ?d = None)]"
      using assms tries Tried_Failed by (simp_all add: process_record_def Let_def)
    then show ?thesis using new dlq_record_dead_letter [of q r e "km_headers m"]
      by (intro exI [of _ "new @ [Dlq_Publish ?d (ke_produce env log1 ?d = None)]"]) (auto simp: settled_def)
  qed
qed

lemma each_record_log:
  assumes "each_record env q rs log = (res, log')"
  shows "\<exists>new n. log' = log @ new \<and> commits new = take n rs \<and> (res = None \<longrightarrow> commits new = rs) \<and> commit_safe q new"
  using assms
proof (induction env q rs log rule: each_record.induct)
  case (1 env q log)
  then show ?case by (auto intro!: exI [of _ "[]"] simp: commit_safe_plain)
next
  case (2 env q r rs log)
  obtain pres log1 where p: "process_record env q r log = (pres, log1)" by fastforce
  obtain new1 where new1: "log1 = log @ new1" "commits new1 = []" "pres = None \<longrightarrow> settled q r new1"
    using process_record_log [OF p] by blast
  show ?case
  proof (cases pres)
    case (Some e)
    then show ?thesis using 2(2) p new1 by (auto intro!: exI [of _ new1] exI [of _ 0] simp: commit_safe_plain)
  next
    case None
    then have sett: "settled q r new1" using new1(3) by simp
    show ?thesis
    proof (cases "ke_commit env log1 r")
      case (Some e)
      then show ?thesis using 2(2) p new1 None commit_safe_commit [OF new1(2) sett]
        by (auto intro!: exI [of _ "new1 @ [Offset_Commit r False]"] exI [of _ 1])
    next
      case ok: None
      then have rest: "each_record env q rs (log1 @ [Offset_Commit r True]) = (res, log')"
        using 2(2) p None by simp
      obtain new2 n where new2: "log' = (log1 @ [Offset_Commit r True]) @ new2" "commits new2 = take n rs"
        "res = None \<longrightarrow> commits new2 = rs" "commit_safe q new2"
        using 2(1) [OF p [symmetric] None ok rest] by blast
      have "commit_safe q ((new1 @ [Offset_Commit r True]) @ new2)"
        by (rule commit_safe_append [OF commit_safe_commit [OF new1(2) sett] new2(4)])
      then show ?thesis using new1 new2
        by (intro exI [of _ "new1 @ [Offset_Commit r True] @ new2"] exI [of _ "Suc n"]) simp
    qed
  qed
qed

lemma run_polls_log:
  assumes "run_polls env q fs log = (res, log')"
  shows "\<exists>new n. log' = log @ new \<and> commits new = take n (concat (map kf_records fs)) \<and> commit_safe q new
    \<and> (res = Still_Polling \<longrightarrow> commits new = concat (map kf_records fs))"
  using assms
proof (induction env q fs log rule: run_polls.induct)
  case (1 env q log)
  then show ?case by (auto simp: commit_safe_plain)
next
  case (2 env q f fs log)
  show ?case
  proof (cases "kf_context_done f \<or> kf_closed f")
    case True
    then show ?thesis using 2(2) by (auto intro!: exI [of _ "[]"] exI [of _ 0] simp: commit_safe_plain)
  next
    case running: False
    show ?thesis
    proof (cases "kf_errors f")
      case (Cons e es)
      then show ?thesis using 2(2) running by (auto intro!: exI [of _ "[Rebalance_Allowed]"] exI [of _ 0] simp: commit_safe_plain)
    next
      case Nil
      obtain err log1 where e: "each_record env q (kf_records f) log = (err, log1)" by fastforce
      obtain new1 n1 where new1: "log1 = log @ new1" "commits new1 = take n1 (kf_records f)"
        "err = None \<longrightarrow> commits new1 = kf_records f" "commit_safe q new1"
        using each_record_log [OF e] by blast
      have safe1: "commit_safe q (new1 @ [Rebalance_Allowed])"
        by (rule commit_safe_append [OF new1(4) commit_safe_plain]) simp
      show ?thesis
      proof (cases err)
        case (Some x)
        then show ?thesis using 2(2) running Nil e new1 safe1
          by (intro exI [of _ "new1 @ [Rebalance_Allowed]"] exI [of _ "min n1 (length (kf_records f))"]) (auto simp: min_def)
      next
        case None
        then have rest: "run_polls env q fs (log1 @ [Rebalance_Allowed]) = (res, log')" using 2(2) running Nil e by simp
        obtain new2 n2 where new2: "log' = (log1 @ [Rebalance_Allowed]) @ new2"
          "commits new2 = take n2 (concat (map kf_records fs))" "commit_safe q new2"
          "res = Still_Polling \<longrightarrow> commits new2 = concat (map kf_records fs)"
          using 2(1) [OF running Nil e [symmetric] None rest] by blast
        have "commit_safe q ((new1 @ [Rebalance_Allowed]) @ new2)" by (rule commit_safe_append [OF safe1 new2(3)])
        then show ?thesis using new1 new2 None
          by (intro exI [of _ "new1 @ [Rebalance_Allowed] @ new2"] exI [of _ "length (kf_records f) + n2"]) simp
      qed
    qed
  qed
qed

section \<open>Properties\<close>

text \<open>C21. However the handler, the broker and the clock behave: the consumer commits the records it polled in
  their order and passes over none; it attempts a commit only after the handler accepted the record or the
  dead-letter topic acknowledged a copy that names topic, partition and offset; hence, where a partition
  delivers increasing offsets, every record at or below a committed offset is settled; and as long as
  the loop goes on, everything polled is committed.\<close>
theorem kafka_commits_only_settled_records:
  assumes "run_polls env q fs [] = (res, log)"
    and "sorted_wrt (\<lambda>r r'. kr_topic r = kr_topic r' \<and> kr_partition r = kr_partition r' \<longrightarrow> kr_offset r < kr_offset r')
           (concat (map kf_records fs))"
  shows "(\<exists>n. commits log = take n (concat (map kf_records fs)))
    \<and> (res = Still_Polling \<longrightarrow> commits log = concat (map kf_records fs))
    \<and> (\<forall>pre r b post. log = pre @ Offset_Commit r b # post \<longrightarrow> settled q r pre)
    \<and> (\<forall>r b r'. Offset_Commit r b \<in> set log \<longrightarrow> r' \<in> set (concat (map kf_records fs))
         \<longrightarrow> kr_topic r' = kr_topic r \<longrightarrow> kr_partition r' = kr_partition r \<longrightarrow> kr_offset r' \<le> kr_offset r \<longrightarrow> settled q r' log)"
proof -
  let ?rs = "concat (map kf_records fs)"
  obtain n where n: "commits log = take n ?rs" and safe: "commit_safe q log"
    and all: "res = Still_Polling \<longrightarrow> commits log = ?rs"
    using run_polls_log [OF assms(1)] unfolding append_Nil by blast
  have settled: "settled q r log" if "r \<in> set (take n ?rs)" for r
  proof -
    have "r \<in> set (commits log)" using that n by simp
    then obtain b where "Offset_Commit r b \<in> set log" by (rule commits_memberE)
    then obtain pre post where "log = pre @ Offset_Commit r b # post" by (meson split_list)
    then show ?thesis using safe settled_mono [of q r pre log] unfolding commit_safe_def by auto
  qed
  have below: "settled q r' log"
    if com: "Offset_Commit r b \<in> set log" and r': "r' \<in> set ?rs" "kr_topic r' = kr_topic r" "kr_partition r' = kr_partition r" "kr_offset r' \<le> kr_offset r"
    for r b r'
  proof -
    have "r \<in> set (take n ?rs)" using commits_member [OF com] n by simp
    then obtain i where i: "i < n" "i < length ?rs" "r = ?rs ! i" by (auto simp: in_set_conv_nth)
    obtain j where j: "j < length ?rs" "r' = ?rs ! j" using r'(1) unfolding in_set_conv_nth by blast
    have "\<not> i < j"
    proof
      assume "i < j"
      then have "kr_offset r < kr_offset r'" using sorted_wrt_nth_less [OF assms(2) \<open>i < j\<close> j(1)] i j r' by simp
      then show False using r' by simp
    qed
    then have "r' \<in> set (take n ?rs)" unfolding in_set_conv_nth using i j by (intro exI [of _ j]) simp
    then show ?thesis by (rule settled)
  qed
  show ?thesis using n all safe below unfolding commit_safe_def by blast
qed

definition sample_record :: "int \<Rightarrow> kafka_record" where
  "sample_record n = \<lparr>kr_topic = ''t'', kr_key = [], kr_value = ''v'', kr_headers = [], kr_partition = 0, kr_offset = n, kr_time = 0\<rparr>"

definition sample_fetch :: "int list \<Rightarrow> kafka_fetch" where
  "sample_fetch ns = \<lparr>kf_context_done = False, kf_closed = False, kf_errors = [], kf_records = map sample_record ns\<rparr>"

definition sample_consumer :: kafka_consumer where
  "sample_consumer = \<lparr>kq_dlq_topic = ''t.dlq'', kq_max_poll_records = 100, kq_max_handler_retries = 1, kq_retry_backoff = 5, kq_options = []\<rparr>"

text \<open>The handler refuses the record at offset 0; the dead-letter topic answers as \<open>dlq\<close> says.\<close>

definition sample_kafka_env :: "string option \<Rightarrow> kafka_env" where
  "sample_kafka_env dlq = \<lparr>ke_handler = (\<lambda>log m. (if km_offset m = 0 then Some ''bad'' else None, m)), ke_wait = (\<lambda>log d. None),
     ke_produce = (\<lambda>log r. dlq), ke_commit = (\<lambda>log r. None)\<rparr>"

lemma sample_commit: "ke_commit (sample_kafka_env dlq) log r = None"
  by (simp add: sample_kafka_env_def)

lemma sample_process:
  "process_record (sample_kafka_env dlq) sample_consumer (sample_record 0) log =
     (let m = kafka_message_of (sample_record 0); d = dlq_record sample_consumer ''bad'' (sample_record 0) []
      in (map_option Kafka_Dlq_Publish dlq,
          log @ [Handler_Call m False, Retry_Wait 5, Handler_Call m False, Dlq_Publish d (dlq = None)]))"
  "n \<noteq> 0 \<Longrightarrow> process_record (sample_kafka_env dlq) sample_consumer (sample_record n) log =
     (None, log @ [Handler_Call (kafka_message_of (sample_record n)) True])"
  by (simp_all add: process_record_def sample_kafka_env_def sample_consumer_def sample_record_def kafka_message_of_def
      try_handler.simps shared_parts_def kafka_retry_delay_def int64_def Let_def numeral_eq_Suc)

theorem kafka_commits_only_settled_records_witness:
  "\<exists>log. run_polls (sample_kafka_env None) sample_consumer [sample_fetch [0, 1]] [] = (Still_Polling, log)
     \<and> commits log = [sample_record 0, sample_record 1] \<and> settled sample_consumer (sample_record 0) log"
proof -
  obtain log where run: "run_polls (sample_kafka_env None) sample_consumer [sample_fetch [0, 1]] [] = (Still_Polling, log)"
    by (simp add: sample_fetch_def sample_process sample_commit Let_def)
  have polled: "concat (map kf_records [sample_fetch [0, 1]]) = [sample_record 0, sample_record 1]" by (simp add: sample_fetch_def)
  have sorted: "sorted_wrt (\<lambda>r r'. kr_topic r = kr_topic r' \<and> kr_partition r = kr_partition r' \<longrightarrow> kr_offset r < kr_offset r')
      (concat (map kf_records [sample_fetch [0, 1]]))"
    unfolding polled by (simp add: sample_record_def)
  note facts = kafka_commits_only_settled_records [OF run sorted]
  have "commits log = [sample_record 0, sample_record 1]" using facts polled by simp
  then obtain b where "Offset_Commit (sample_record 0) b \<in> set log"
    by (metis commits_memberE list.set_intros(1))
  then have "settled sample_consumer (sample_record 0) log"
    using facts [THEN conjunct2, THEN conjunct2, THEN conjunct2, rule_format, of "sample_record 0" b "sample_record 0"] polled by simp
  then show ?thesis using run \<open>commits log = _\<close> by blast
qed

text \<open>
  A second \<^verbatim>\<open>Run\<close> of a consumer whose first one failed goes on after the records that were already
  polled: its commit passes over the record that was neither handled nor dead-lettered.
\<close>

lemma a_second_run_commits_past_a_failure:
  "\<exists>log log2. run_polls (sample_kafka_env (Some ''down'')) sample_consumer [sample_fetch [0, 1]] [] = (Returned (Some (Kafka_Dlq_Publish ''down'')), log)
     \<and> run_polls (sample_kafka_env (Some ''down'')) sample_consumer [sample_fetch [2]] log = (Still_Polling, log2)
     \<and> Offset_Commit (sample_record 2) True \<in> set log2 \<and> \<not> settled sample_consumer (sample_record 0) log2"
  by (simp add: sample_fetch_def sample_process sample_commit Let_def)
     (simp add: settled_def same_record_def kafka_message_of_def sample_record_def)

section \<open>Credentials\<close>

lemma default_positive_pos: "0 < d \<Longrightarrow> 0 < default_positive d n"
  by (simp add: default_positive_def)

lemma kafka_client_options_cases:
  assumes "kafka_client_options config = Inr (n, opts)"
  shows "kc_brokers n = kc_brokers config \<and> list_all (\<lambda>b. \<not> invalid_broker b) (kc_brokers n) \<and> kc_brokers n \<noteq> []
    \<and> 0 < kc_dial_timeout n \<and> 0 < kc_delivery_timeout n \<and> 0 < kc_max_message_bytes n \<and> kc_max_message_bytes n < 2 ^ 31
    \<and> 0 < kc_max_buffered_bytes n \<and> 0 < kc_record_retries n
    \<and> (\<forall>m u p. Sasl_Auth m u p \<in> set opts \<longrightarrow> u \<noteq> [] \<and> p \<noteq> [] \<and> (\<exists>v. Dial_Tls v \<in> set opts \<and> v \<noteq> 0))"
proof -
  have sasl: "kafka_sasl_mechanism s tls = Inr (Some (Sasl_Auth m u p)) \<Longrightarrow> tls \<and> u \<noteq> [] \<and> p \<noteq> []" for s tls m u p
    by (auto simp: kafka_sasl_mechanism_def Let_def split: if_splits)
  have only: "kafka_sasl_mechanism s tls = Inr (Some a) \<Longrightarrow> \<exists>m u p. a = Sasl_Auth m u p" for s tls a
    by (auto simp: kafka_sasl_mechanism_def Let_def split: if_splits)
  have brokers: "find invalid_broker (kc_brokers config) = None" "kc_brokers config \<noteq> []"
    using assms by (auto simp: kafka_client_options_def split: if_splits option.splits)
  then have valid: "list_all (\<lambda>b. \<not> invalid_broker b) (kc_brokers config)" by (simp add: find_None_iff list_all_iff)
  obtain m where m: "kafka_sasl_mechanism (kc_sasl config) (kc_tls config \<noteq> None) = Inr m"
    using assms brokers by (cases "kafka_sasl_mechanism (kc_sasl config) (kc_tls config \<noteq> None)")
      (simp_all add: kafka_client_options_def Let_def split: if_splits)
  have n: "n = config\<lparr>kc_client_id := kc_client_id n, kc_dial_timeout := default_positive 10000000000 (kc_dial_timeout config),
      kc_delivery_timeout := default_positive 30000000000 (kc_delivery_timeout config),
      kc_max_message_bytes := default_positive 1048576 (kc_max_message_bytes config),
      kc_max_buffered_bytes := default_positive 67108864 (kc_max_buffered_bytes config),
      kc_record_retries := default_positive 10 (kc_record_retries config)\<rparr>"
    and small: "default_positive 1048576 (kc_max_message_bytes config) \<le> 2147483647"
    and opts: "opts = [Seed_Brokers (kc_brokers config), Client_Id (kc_client_id n), Dial_Timeout (kc_dial_timeout n)]
      @ (case kc_tls config of None \<Rightarrow> [] | Some v \<Rightarrow> [Dial_Tls (if v = 0 then 771 else v)]) @ (case m of None \<Rightarrow> [] | Some a \<Rightarrow> [a])"
    using assms brokers m by (cases m; force simp: kafka_client_options_def Let_def split: if_splits)+
  have tls: "u \<noteq> [] \<and> p \<noteq> [] \<and> (\<exists>v. Dial_Tls v \<in> set opts \<and> v \<noteq> 0)" if "Sasl_Auth a u p \<in> set opts" for a u p
  proof -
    have "m = Some (Sasl_Auth a u p)" using that only m unfolding opts by (cases m) (auto split: option.splits)
    then have "kc_tls config \<noteq> None" and up: "u \<noteq> []" "p \<noteq> []" using sasl m by blast+
    then obtain v where v: "kc_tls config = Some v" by blast
    then have "Dial_Tls (if v = 0 then 771 else v) \<in> set opts" unfolding opts by simp
    then show ?thesis using up by (intro conjI exI [of _ "if v = 0 then 771 else v"]) simp_all
  qed
  have defaults: "kc_brokers n = kc_brokers config" "0 < kc_dial_timeout n" "0 < kc_delivery_timeout n" "0 < kc_max_message_bytes n"
    "kc_max_message_bytes n < 2 ^ 31" "0 < kc_max_buffered_bytes n" "0 < kc_record_retries n"
    using small by (subst n, simp add: default_positive_def)+
  show ?thesis using defaults valid brokers(2) tls by (simp only: simp_thms) blast
qed

end
