(* ===== verification/Message_Bus.thy ===== *)
theory Message_Bus
  imports Kafka_Queue
begin

text \<open>
  \<^verbatim>\<open>pubsub/\<close> and \<^verbatim>\<open>queue/queue.go\<close>: the bus inside the process, the buses over Redis and RabbitMQ, and the queue that
  hands tasks to a durable publisher. The clients of the brokers are parameters whose answers may depend on
  the log of what happened before.
\<close>

section \<open>The bus inside the process\<close>

type_synonym 'h topics = "(string \<times> 'h list) list"

definition subscribe :: "string \<Rightarrow> 'h \<Rightarrow> 'h topics \<Rightarrow> 'h topics" where
  "subscribe topic handler b =
     AList.update topic ((case map_of b topic of None \<Rightarrow> [] | Some hs \<Rightarrow> hs) @ [handler]) b"

text \<open>The handlers \<^verbatim>\<open>Publish\<close> starts, each in its own goroutine.\<close>

definition publish :: "string \<Rightarrow> 'h topics \<Rightarrow> 'h list" where
  "publish topic b = (case map_of b topic of None \<Rightarrow> [] | Some hs \<Rightarrow> hs)"

lemma publish_subscribe: "publish topic (subscribe t h b) = publish topic b @ (if t = topic then [h] else [])"
  by (simp add: subscribe_def publish_def update_conv)

lemma publish_reaches_the_subscribers:
  "publish topic (fold (\<lambda>(t, h). subscribe t h) subs b) = publish topic b @ map snd (filter (\<lambda>(t, h). t = topic) subs)"
  by (induction subs arbitrary: b) (auto simp: publish_subscribe)

section \<open>Redis\<close>

datatype bus_error =
    Bus_Not_Configured | Bus_Client_Required | Bus_Invalid_Prefix | Bus_Connect string
  | Bus_Invalid_Channel | Bus_Encode string | Bus_Payload_Too_Large | Bus_Publish string
  | Bus_Handler_Required | Bus_Establish string | Bus_Receive string | Bus_Received_Too_Large | Bus_Decode string
  | Bus_Handler_Panic string

record redis_bus =
  rdb_prefix :: string
  rdb_max_payload :: int
  rdb_owns_client :: bool

text \<open>\<open>ping\<close> is the answer of the client within the timeout; the flag tells whether the client was closed.\<close>

definition new_redis_bus :: "(int \<Rightarrow> string option) option \<Rightarrow> string \<Rightarrow> int \<Rightarrow> int \<Rightarrow> bool \<Rightarrow> bus_error \<times> bool + redis_bus" where
  "new_redis_bus client channel_prefix max_payload ping_timeout owns =
     (case client of
        None \<Rightarrow> Inl (Bus_Client_Required, False)
      | Some ping \<Rightarrow>
          if has_any_of channel_prefix [CHR 0x0D, CHR 0x0A] then Inl (Bus_Invalid_Prefix, False)
          else case ping (default_positive 2000000000 ping_timeout) of
            Some e \<Rightarrow> Inl (Bus_Connect e, owns)
          | None \<Rightarrow> Inr \<lparr>rdb_prefix = channel_prefix, rdb_max_payload = default_positive 1048576 max_payload, rdb_owns_client = owns\<rparr>)"

definition redis_channel :: "redis_bus \<Rightarrow> string \<Rightarrow> string option" where
  "redis_channel bus channel =
     (let channel = trim_space channel
      in if channel = [] \<or> 256 < length channel \<or> has_any_of channel (line_space @ '' '') then None
         else Some (rdb_prefix bus @ channel))"

definition redis_publish ::
    "('p \<Rightarrow> string + string) \<Rightarrow> (string \<Rightarrow> string \<Rightarrow> string option) \<Rightarrow> redis_bus option \<Rightarrow> string \<Rightarrow> 'p \<Rightarrow> bus_error option" where
  "redis_publish encode send bus channel payload =
     (case bus of
        None \<Rightarrow> Some Bus_Not_Configured
      | Some b \<Rightarrow> (case redis_channel b channel of
          None \<Rightarrow> Some Bus_Invalid_Channel
        | Some ch \<Rightarrow> (case encode payload of
            Inl e \<Rightarrow> Some (Bus_Encode e)
          | Inr enc \<Rightarrow> if rdb_max_payload b < int (length enc) then Some Bus_Payload_Too_Large
                       else map_option Bus_Publish (send ch enc))))"

text \<open>What \<^verbatim>\<open>ReceiveMessage\<close> returns; the context may have ended when it fails.\<close>

datatype redis_received = Received string | Receive_Failed string bool

text \<open>
  The loop of \<^verbatim>\<open>Subscribe\<close> over what it has received so far, with the payloads it gave to the handler.
  \<open>handler\<close> tells whether the call with the given predecessors panics.
\<close>

fun redis_receive ::
    "(string \<Rightarrow> string + 'p) \<Rightarrow> ('p list \<Rightarrow> 'p \<Rightarrow> string option) \<Rightarrow> redis_bus \<Rightarrow> redis_received list \<Rightarrow> 'p list \<Rightarrow> bus_error option option \<times> 'p list" where
  "redis_receive decode handler b [] seen = (None, seen)"
| "redis_receive decode handler b (Receive_Failed e cancelled # ms) seen =
     (Some (if cancelled then None else Some (Bus_Receive e)), seen)"
| "redis_receive decode handler b (Received m # ms) seen =
     (if rdb_max_payload b < int (length m) then (Some (Some Bus_Received_Too_Large), seen)
      else case decode m of
        Inl e \<Rightarrow> (Some (Some (Bus_Decode e)), seen)
      | Inr p \<Rightarrow> (case handler seen p of
          Some e \<Rightarrow> (Some (Some (Bus_Handler_Panic e)), seen @ [p])
        | None \<Rightarrow> redis_receive decode handler b ms (seen @ [p])))"

definition redis_subscribe ::
    "(string \<Rightarrow> string option) \<Rightarrow> (string \<Rightarrow> string + 'p) \<Rightarrow> ('p list \<Rightarrow> 'p \<Rightarrow> string option) option \<Rightarrow> redis_bus option \<Rightarrow> string
       \<Rightarrow> redis_received list \<Rightarrow> bus_error option option \<times> 'p list" where
  "redis_subscribe establish decode handler bus channel ms =
     (case bus of
        None \<Rightarrow> (Some (Some Bus_Not_Configured), [])
      | Some b \<Rightarrow> (case handler of
          None \<Rightarrow> (Some (Some Bus_Handler_Required), [])
        | Some h \<Rightarrow> (case redis_channel b channel of
            None \<Rightarrow> (Some (Some Bus_Invalid_Channel), [])
          | Some ch \<Rightarrow> (case establish ch of
              Some e \<Rightarrow> (Some (Some (Bus_Establish e)), [])
            | None \<Rightarrow> redis_receive decode h b ms []))))"

text \<open>One message that is too large or is not JSON ends the subscription, whoever sent it.\<close>

lemma redis_subscription_ends_at_a_bad_message:
  assumes "\<forall>m \<in> set good. rdb_max_payload b \<ge> int (length m) \<and> (\<exists>p. decode m = Inr p)" "\<forall>seen p. handler seen p = None"
    and "decode bad = Inl e" "int (length bad) \<le> rdb_max_payload b"
  shows "redis_receive decode handler b (map Received good @ Received bad # later) seen
    = (Some (Some (Bus_Decode e)), seen @ map (\<lambda>m. projr (decode m)) good)"
  using assms by (induction good arbitrary: seen) auto

text \<open>Channels of one bus do not collide.\<close>

lemma redis_channel_inj:
  "redis_channel b c = Some ch \<Longrightarrow> redis_channel b c' = Some ch \<Longrightarrow> trim_space c = trim_space c'"
  by (auto simp: redis_channel_def Let_def split: if_splits)

section \<open>The task queue\<close>

datatype queue_error = Queue_Not_Configured | Queue_Invalid_Topic | Queue_Invalid_Task_Name | Queue_Encode string | Queue_Publish string

record task_queue =
  tq_topic :: string

definition new_with_publisher :: "bool \<Rightarrow> string \<Rightarrow> queue_error + task_queue" where
  "new_with_publisher has_publisher topic =
     (if \<not> has_publisher then Inl Queue_Not_Configured
      else if \<not> validate_kafka_topic topic then Inl Queue_Invalid_Topic
      else Inr \<lparr>tq_topic = topic\<rparr>)"

text \<open>\<open>encode\<close> is \<^verbatim>\<open>json.Marshal\<close> of the envelope with the identifier, the task, the payload and the time.\<close>

definition enqueue_task ::
    "(string \<Rightarrow> string \<Rightarrow> 'p \<Rightarrow> string + string) \<Rightarrow> (string \<Rightarrow> string \<Rightarrow> string \<Rightarrow> kafka_headers \<Rightarrow> string option) \<Rightarrow> task_queue option
       \<Rightarrow> string \<Rightarrow> string \<Rightarrow> 'p \<Rightarrow> queue_error option" where
  "enqueue_task encode send q i task_name payload =
     (case q of
        None \<Rightarrow> Some Queue_Not_Configured
      | Some q \<Rightarrow>
          (let task_name = trim_space task_name
           in if task_name = [] \<or> 128 < length task_name \<or> has_any_of task_name line_space then Some Queue_Invalid_Task_Name
              else case encode i task_name payload of
                Inl e \<Rightarrow> Some (Queue_Encode e)
              | Inr message \<Rightarrow> map_option Queue_Publish
                  (send (tq_topic q) i message [(''content-type'', ''application/json''), (''gpp-task-name'', task_name)])))"

section \<open>RabbitMQ\<close>

record rabbit_config =
  rc_url :: string
  rc_exchange :: string
  rc_exchange_type :: string
  rc_tls :: "nat option"
  rc_connection_timeout :: int
  rc_confirm_timeout :: int
  rc_heartbeat :: int
  rc_max_payload :: int
  rc_prefetch :: int
  rc_quorum :: bool

datatype rabbit_error =
    Rabbit_Not_Configured | Rabbit_Bad_Url | Rabbit_Tls_Scheme | Rabbit_Invalid_Name string | Rabbit_Bad_Exchange_Type
  | Rabbit_Wrong_Exchange | Rabbit_Payload_Too_Large | Rabbit_Publish string | Rabbit_Confirm string
  | Rabbit_Nacked | Rabbit_Unroutable string
  | Rabbit_Handler_Required | Rabbit_Reject string | Rabbit_Nack string string | Rabbit_Handler string | Rabbit_Ack string
  | Rabbit_Channel_Closed

definition validate_rabbit_name :: "string \<Rightarrow> bool" where
  "validate_rabbit_name v \<longleftrightarrow> \<not> (v = [] \<or> 255 < length v \<or> has_any_of v (line_space @ '' ''))"

text \<open>\<open>parse_url\<close> is \<^verbatim>\<open>url.Parse\<close>: the scheme and the host.\<close>

definition normalize_rabbit_config :: "(string \<Rightarrow> (string \<times> string) option) \<Rightarrow> rabbit_config \<Rightarrow> rabbit_error + rabbit_config" where
  "normalize_rabbit_config parse_url g =
     (case parse_url (rc_url g) of
        None \<Rightarrow> Inl Rabbit_Bad_Url
      | Some (scheme, host) \<Rightarrow>
          if host = [] \<or> scheme \<noteq> ''amqp'' \<and> scheme \<noteq> ''amqps'' then Inl Rabbit_Bad_Url
          else if rc_tls g \<noteq> None \<and> scheme \<noteq> ''amqps'' then Inl Rabbit_Tls_Scheme
          else if \<not> validate_rabbit_name (rc_exchange g) then Inl (Rabbit_Invalid_Name ''exchange'')
          else let kind = (if rc_exchange_type g = [] then ''topic'' else rc_exchange_type g)
               in if kind \<notin> {''direct'', ''fanout'', ''topic'', ''headers''} then Inl Rabbit_Bad_Exchange_Type
                  else Inr (g\<lparr>rc_exchange_type := kind,
                         rc_connection_timeout := default_positive 10000000000 (rc_connection_timeout g),
                         rc_confirm_timeout := default_positive 10000000000 (rc_confirm_timeout g),
                         rc_heartbeat := default_positive 10000000000 (rc_heartbeat g),
                         rc_max_payload := default_positive 1048576 (rc_max_payload g),
                         rc_prefetch := default_positive 10 (rc_prefetch g)\<rparr>))"

definition clone_rabbit_tls :: "nat option \<Rightarrow> nat option" where
  "clone_rabbit_tls tls = map_option (\<lambda>v. if v = 0 then 771 else v) tls"

subsection \<open>Publishing\<close>

text \<open>
  The channel of returned messages is a queue that outlives a publication. What the broker answers to one
  message: the send may fail; returns arrive before the confirmation is read, others after it.
\<close>

datatype rabbit_confirm = Acked | Nacked | Confirm_Failed string

record rabbit_answer =
  ra_send_error :: "string option"
  ra_returned :: "string list"
  ra_confirm :: rabbit_confirm
  ra_late :: "string list"

definition rabbit_publish ::
    "rabbit_config option \<Rightarrow> string \<Rightarrow> string \<Rightarrow> string \<Rightarrow> rabbit_answer \<Rightarrow> string list \<Rightarrow> rabbit_error option \<times> string list" where
  "rabbit_publish bus exchange routing_key payload answer returns =
     (case bus of
        None \<Rightarrow> (Some Rabbit_Not_Configured, returns)
      | Some g \<Rightarrow>
          (let exchange = (if exchange = [] then rc_exchange g else exchange)
           in if exchange \<noteq> rc_exchange g then (Some Rabbit_Wrong_Exchange, returns)
              else if \<not> validate_rabbit_name routing_key then (Some (Rabbit_Invalid_Name ''routing key''), returns)
              else if rc_max_payload g < int (length payload) then (Some Rabbit_Payload_Too_Large, returns)
              else case ra_send_error answer of
                Some e \<Rightarrow> (Some (Rabbit_Publish e), returns)
              | None \<Rightarrow>
                  (let returns = returns @ ra_returned answer
                   in case ra_confirm answer of
                        Confirm_Failed e \<Rightarrow> (Some (Rabbit_Confirm e), returns @ ra_late answer)
                      | Nacked \<Rightarrow> (Some Rabbit_Nacked, returns @ ra_late answer)
                      | Acked \<Rightarrow> (case returns of
                          text # returns \<Rightarrow> (Some (Rabbit_Unroutable text), returns @ ra_late answer)
                        | [] \<Rightarrow> (None, ra_late answer)))))"

fun rabbit_publish_all ::
    "rabbit_config \<Rightarrow> (string \<times> string \<times> rabbit_answer) list \<Rightarrow> string list \<Rightarrow> rabbit_error option list" where
  "rabbit_publish_all g [] returns = []"
| "rabbit_publish_all g ((key, payload, answer) # ps) returns =
     (case rabbit_publish (Some g) [] key payload answer returns of
        (res, returns) \<Rightarrow> res # rabbit_publish_all g ps returns)"

text \<open>
  The protocol sends the return of a message before its confirmation; a message is returned at most once.
  What a broker that keeps to it, and confirms in time, answers:
\<close>

definition prompt_answer :: "rabbit_answer \<Rightarrow> bool" where
  "prompt_answer a \<longleftrightarrow> ra_late a = [] \<and> length (ra_returned a) \<le> 1
     \<and> (ra_confirm a \<noteq> Acked \<longrightarrow> ra_returned a = []) \<and> (ra_send_error a \<noteq> None \<longrightarrow> ra_returned a = [])"

lemma rabbit_publish_prompt:
  assumes "prompt_answer a"
  shows "\<exists>res. rabbit_publish (Some g) [] key payload a [] = (res, [])
    \<and> (res = None \<longleftrightarrow> validate_rabbit_name key \<and> int (length payload) \<le> rc_max_payload g \<and> ra_send_error a = None
         \<and> ra_confirm a = Acked \<and> ra_returned a = [])
    \<and> (\<forall>text. res = Some (Rabbit_Unroutable text) \<longrightarrow> ra_returned a = [text])"
  using assms
  by (cases "ra_returned a"; cases "ra_confirm a"; cases "ra_send_error a") (auto simp: rabbit_publish_def prompt_answer_def Let_def)

text \<open>With such a broker every answer is about its own message: success means that the message was acknowledged and
  not returned.\<close>

lemma rabbit_results_are_attributed:
  assumes "\<forall>(key, payload, a) \<in> set ps. prompt_answer a"
  shows "list_all2 (\<lambda>(key, payload, a) res.
      (res = None \<longleftrightarrow> validate_rabbit_name key \<and> int (length payload) \<le> rc_max_payload g \<and> ra_send_error a = None
         \<and> ra_confirm a = Acked \<and> ra_returned a = [])
      \<and> (\<forall>text. res = Some (Rabbit_Unroutable text) \<longrightarrow> ra_returned a = [text])) ps (rabbit_publish_all g ps [])"
  using assms
proof (induction ps)
  case (Cons p ps)
  obtain key payload a where p: "p = (key, payload, a)" by (cases p)
  obtain res where "rabbit_publish (Some g) [] key payload a [] = (res, [])"
    "res = None \<longleftrightarrow> validate_rabbit_name key \<and> int (length payload) \<le> rc_max_payload g \<and> ra_send_error a = None
         \<and> ra_confirm a = Acked \<and> ra_returned a = []"
    "\<forall>text. res = Some (Rabbit_Unroutable text) \<longrightarrow> ra_returned a = [text]"
    using rabbit_publish_prompt [of a g key payload] Cons.prems p by auto
  then show ?case using Cons p by simp
qed simp

text \<open>A return that arrives after its publication gave up is taken for the next message.\<close>

lemma late_returns_are_misattributed:
  "rabbit_publish_all \<lparr>rc_url = ''amqp://h'', rc_exchange = ''e'', rc_exchange_type = ''topic'', rc_tls = None, rc_connection_timeout = 1,
       rc_confirm_timeout = 1, rc_heartbeat = 1, rc_max_payload = 10, rc_prefetch = 1, rc_quorum = False\<rparr>
     [(''nowhere'', ''a'', \<lparr>ra_send_error = None, ra_returned = [], ra_confirm = Confirm_Failed ''timeout'', ra_late = [''NO_ROUTE'']\<rparr>),
      (''somewhere'', ''b'', \<lparr>ra_send_error = None, ra_returned = [], ra_confirm = Acked, ra_late = []\<rparr>)] []
   = [Some (Rabbit_Confirm ''timeout''), Some (Rabbit_Unroutable ''NO_ROUTE'')]"
  by (simp add: rabbit_publish_def validate_rabbit_name_def has_any_of_def)

subsection \<open>Consuming\<close>

datatype rabbit_event = Consumed nat string bool | Positive_Ack nat bool | Negative_Ack nat bool bool

text \<open>A delivery is its tag and its body; the last flag of an event tells whether the call succeeded.\<close>

record rabbit_env =
  re_handler :: "rabbit_event list \<Rightarrow> string \<Rightarrow> string option"
  re_ack :: "rabbit_event list \<Rightarrow> nat \<Rightarrow> string option"
  re_nack :: "rabbit_event list \<Rightarrow> nat \<Rightarrow> bool \<Rightarrow> string option"

fun rabbit_consume :: "rabbit_env \<Rightarrow> rabbit_config \<Rightarrow> (nat \<times> string) list \<Rightarrow> rabbit_event list \<Rightarrow> rabbit_error option \<times> rabbit_event list" where
  "rabbit_consume env g [] log = (None, log)"
| "rabbit_consume env g ((tag, body) # ds) log =
     (if rc_max_payload g < int (length body) then
        (case re_nack env log tag False of
           Some e \<Rightarrow> (Some (Rabbit_Reject e), log @ [Negative_Ack tag False False])
         | None \<Rightarrow> rabbit_consume env g ds (log @ [Negative_Ack tag False True]))
      else case re_handler env log body of
        Some err \<Rightarrow>
          (let log = log @ [Consumed tag body False]
           in case re_nack env log tag True of
                Some e \<Rightarrow> (Some (Rabbit_Nack err e), log @ [Negative_Ack tag True False])
              | None \<Rightarrow> (Some (Rabbit_Handler err), log @ [Negative_Ack tag True True]))
      | None \<Rightarrow>
          (let log = log @ [Consumed tag body True]
           in case re_ack env log tag of
                Some e \<Rightarrow> (Some (Rabbit_Ack e), log @ [Positive_Ack tag False])
              | None \<Rightarrow> rabbit_consume env g ds (log @ [Positive_Ack tag True])))"

text \<open>When the deliveries end, the answer depends on the context.\<close>

definition rabbit_subscribe ::
    "rabbit_env \<Rightarrow> rabbit_config option \<Rightarrow> bool \<Rightarrow> string \<Rightarrow> string \<Rightarrow> (nat \<times> string) list \<Rightarrow> bool \<Rightarrow> rabbit_error option \<times> rabbit_event list" where
  "rabbit_subscribe env bus has_handler queue_name binding_key deliveries cancelled =
     (case bus of
        None \<Rightarrow> (Some Rabbit_Not_Configured, [])
      | Some g \<Rightarrow>
          if \<not> has_handler then (Some Rabbit_Handler_Required, [])
          else if \<not> validate_rabbit_name queue_name then (Some (Rabbit_Invalid_Name ''queue''), [])
          else if \<not> validate_rabbit_name binding_key then (Some (Rabbit_Invalid_Name ''binding key''), [])
          else case rabbit_consume env g deliveries [] of
            (Some e, log) \<Rightarrow> (Some e, log)
          | (None, log) \<Rightarrow> (if cancelled then None else Some Rabbit_Channel_Closed, log))"

text \<open>What happens to a delivery the loop goes on after.\<close>

definition settling_events :: "rabbit_config \<Rightarrow> nat \<times> string \<Rightarrow> rabbit_event list" where
  "settling_events g d =
     (if rc_max_payload g < int (length (snd d)) then [Negative_Ack (fst d) False True]
      else [Consumed (fst d) (snd d) True, Positive_Ack (fst d) True])"

text \<open>And to the one it stops at.\<close>

definition stopping_events :: "rabbit_config \<Rightarrow> nat \<times> string \<Rightarrow> rabbit_event list \<Rightarrow> bool" where
  "stopping_events g d tail \<longleftrightarrow>
     (if rc_max_payload g < int (length (snd d)) then tail = [Negative_Ack (fst d) False False]
      else tail = [Consumed (fst d) (snd d) True, Positive_Ack (fst d) False]
        \<or> tail \<in> range (\<lambda>b. [Consumed (fst d) (snd d) False, Negative_Ack (fst d) True b]))"

definition consumed_up_to :: "rabbit_config \<Rightarrow> (nat \<times> string) list \<Rightarrow> bool \<Rightarrow> rabbit_event list \<Rightarrow> bool" where
  "consumed_up_to g ds finished new \<longleftrightarrow>
     (if finished then new = concat (map (settling_events g) ds)
      else \<exists>n tail. n < length ds \<and> stopping_events g (ds ! n) tail \<and> new = concat (map (settling_events g) (take n ds)) @ tail)"

lemma consumed_up_to_Cons: "consumed_up_to g ds f new \<Longrightarrow> consumed_up_to g (d # ds) f (settling_events g d @ new)"
proof (cases f)
  case False
  assume "consumed_up_to g ds f new"
  then obtain n tail where "n < length ds" "stopping_events g (ds ! n) tail" "new = concat (map (settling_events g) (take n ds)) @ tail"
    using False by (auto simp: consumed_up_to_def)
  then show ?thesis using False
    by (simp add: consumed_up_to_def) (intro exI [of _ "Suc n"], simp)
qed (simp add: consumed_up_to_def)

lemma consumed_up_to_stop: "stopping_events g d tail \<Longrightarrow> consumed_up_to g (d # ds) False tail"
  by (simp add: consumed_up_to_def) (intro exI [of _ 0] exI [of _ tail], simp)

lemma rabbit_consume_log:
  "\<exists>new. snd (rabbit_consume env g ds log) = log @ new \<and> consumed_up_to g ds (fst (rabbit_consume env g ds log) = None) new"
proof (induction env g ds log rule: rabbit_consume.induct)
  case (1 env g log)
  then show ?case by (simp add: consumed_up_to_def)
next
  case (2 env g tag body ds log)
  let ?big = "rc_max_payload g < int (length body)" and ?r = "rabbit_consume env g ((tag, body) # ds) log"
  have step: ?case if "?r = rabbit_consume env g ds (log @ settling_events g (tag, body))"
    "\<exists>new. snd (rabbit_consume env g ds (log @ settling_events g (tag, body))) = (log @ settling_events g (tag, body)) @ new
       \<and> consumed_up_to g ds (fst (rabbit_consume env g ds (log @ settling_events g (tag, body))) = None) new"
    using that(2) consumed_up_to_Cons [of g ds _ _ "(tag, body)"] unfolding that(1) by (metis append_assoc)
  have stop: ?case if "fst ?r = Some e" "snd ?r = log @ tail" "stopping_events g (tag, body) tail" for e tail
    using that consumed_up_to_stop by (metis option.distinct(1))
  show ?case
  proof (cases ?big)
    case big: True
    show ?thesis
    proof (cases "re_nack env log tag False")
      case None
      have sett: "settling_events g (tag, body) = [Negative_Ack tag False True]" using big by (simp add: settling_events_def)
      show ?thesis by (rule step) (use 2(1) [OF big None] big None in \<open>simp_all add: sett\<close>)
    next
      case (Some e)
      show ?thesis by (rule stop) (use big Some in \<open>simp_all add: stopping_events_def\<close>)
    qed
  next
    case small: False
    show ?thesis
    proof (cases "re_handler env log body")
      case (Some err)
      show ?thesis
      proof (cases "re_nack env (log @ [Consumed tag body False]) tag True")
        case None
        show ?thesis by (rule stop) (use small Some None in \<open>auto simp: stopping_events_def\<close>)
      next
        case nack: (Some e)
        show ?thesis by (rule stop) (use small Some nack in \<open>auto simp: stopping_events_def\<close>)
      qed
    next
      case handled: None
      show ?thesis
      proof (cases "re_ack env (log @ [Consumed tag body True]) tag")
        case None
        have sett: "settling_events g (tag, body) = [Consumed tag body True, Positive_Ack tag True]"
          using small by (simp add: settling_events_def)
        show ?thesis by (rule step) (use 2(2) [OF small handled refl None] small handled None in \<open>simp_all add: sett\<close>)
      next
        case (Some e)
        show ?thesis by (rule stop) (use small handled Some in \<open>auto simp: stopping_events_def\<close>)
      qed
    qed
  qed
qed

section \<open>Properties\<close>

text \<open>The subscriber settles the deliveries one by one in their order: it rejects the ones that are too large
  without showing them to the handler, acknowledges the ones the handler accepted, and stops at the first one
  it could not settle, which it hands back if the handler refused it.\<close>
theorem rabbit_deliveries_are_settled_in_order:
  "\<exists>new. snd (rabbit_consume env g ds log) = log @ new
    \<and> (if fst (rabbit_consume env g ds log) = None then new = concat (map (settling_events g) ds)
       else \<exists>n tail. n < length ds \<and> stopping_events g (ds ! n) tail \<and> new = concat (map (settling_events g) (take n ds)) @ tail)"
  using rabbit_consume_log [of env g ds log] by (simp only: consumed_up_to_def)

end
