(* ===== verification/Database_Client.thy ===== *)
theory Database_Client
  imports Go_Strconv
begin

text \<open>
  \<^verbatim>\<open>dbcore/errors.go\<close>, \<^verbatim>\<open>dbcore/client.go\<close>, \<^verbatim>\<open>dbcore/slowquery.go\<close> and \<^verbatim>\<open>dbcore/sqlite.go\<close>: the categories of database
  errors, transactions, the configuration of the pools, and what the log of slow queries shows of a statement.
  The drivers and their pools are parameters. Statements are ASCII.
\<close>

section \<open>Error categories\<close>

datatype error_kind =
    Unique_Constraint | Foreign_Key_Constraint | Not_Null_Constraint | Check_Constraint | Busy_Or_Locked | Query_Canceled | Unknown_Kind

definition error_kind_text :: "error_kind \<Rightarrow> string" where
  "error_kind_text k =
     (case k of Unique_Constraint \<Rightarrow> ''unique_constraint'' | Foreign_Key_Constraint \<Rightarrow> ''foreign_key_constraint''
      | Not_Null_Constraint \<Rightarrow> ''not_null_constraint'' | Check_Constraint \<Rightarrow> ''check_constraint''
      | Busy_Or_Locked \<Rightarrow> ''busy_or_locked'' | Query_Canceled \<Rightarrow> ''query_canceled'' | Unknown_Kind \<Rightarrow> ''unknown'')"

text \<open>A Go error as this package sees it. A \<open>Database_Error\<close> unwraps to its cause.\<close>

datatype db_error =
    No_Rows | Context_Canceled | Context_Deadline
  | Database_Error error_kind db_error
  | Pg_Error string | Sqlite_Error int
  | Wrapped_Error string db_error | Joined_Errors "db_error list" | Other_Error string

text \<open>\<^verbatim>\<open>errors.As\<close> and \<^verbatim>\<open>errors.Is\<close>: the first error of the tree with a property.\<close>

fun first_db_error :: "(db_error \<Rightarrow> 'a option) \<Rightarrow> db_error \<Rightarrow> 'a option"
  and first_errors :: "(db_error \<Rightarrow> 'a option) \<Rightarrow> db_error list \<Rightarrow> 'a option" where
  "first_db_error p e =
     (case p e of
        Some x \<Rightarrow> Some x
      | None \<Rightarrow> (case e of
          Database_Error k cause \<Rightarrow> first_db_error p cause
        | Wrapped_Error s cause \<Rightarrow> first_db_error p cause
        | Joined_Errors es \<Rightarrow> first_errors p es
        | _ \<Rightarrow> None))"
| "first_errors p [] = None"
| "first_errors p (e # es) = (case first_db_error p e of Some x \<Rightarrow> Some x | None \<Rightarrow> first_errors p es)"

definition error_is :: "db_error \<Rightarrow> db_error \<Rightarrow> bool" where
  "error_is target e \<longleftrightarrow> first_db_error (\<lambda>x. if x = target then Some () else None) e \<noteq> None"

definition as_database_error :: "db_error \<Rightarrow> error_kind option" where
  "as_database_error = first_db_error (\<lambda>e. case e of Database_Error k cause \<Rightarrow> Some k | _ \<Rightarrow> None)"

definition is_error_kind :: "db_error \<Rightarrow> error_kind \<Rightarrow> bool" where
  "is_error_kind e k \<longleftrightarrow> as_database_error e = Some k"

definition pg_kind :: "string \<Rightarrow> error_kind option" where
  "pg_kind code =
     (if code = ''23505'' then Some Unique_Constraint
      else if code = ''23503'' then Some Foreign_Key_Constraint
      else if code = ''23502'' then Some Not_Null_Constraint
      else if code = ''23514'' then Some Check_Constraint
      else if code \<in> {''55P03'', ''40001'', ''40P01''} then Some Busy_Or_Locked
      else if code = ''57014'' then Some Query_Canceled
      else None)"

definition sqlite_kind :: "int \<Rightarrow> error_kind option" where
  "sqlite_kind code =
     (if code \<in> {2067, 1555} then Some Unique_Constraint
      else if code = 787 then Some Foreign_Key_Constraint
      else if code = 1299 then Some Not_Null_Constraint
      else if code = 275 then Some Check_Constraint
      else if code \<in> {5, 6, 261, 262, 517} then Some Busy_Or_Locked
      else if code = 9 then Some Query_Canceled
      else None)"

definition override :: "'a option \<Rightarrow> 'a \<Rightarrow> 'a" where
  "override x d = (case x of Some y \<Rightarrow> y | None \<Rightarrow> d)"

definition driver_kind :: "db_error \<Rightarrow> error_kind" where
  "driver_kind e =
     (let kind = (if error_is Context_Canceled e \<or> error_is Context_Deadline e then Query_Canceled else Unknown_Kind);
          kind = (case first_db_error (\<lambda>e. case e of Pg_Error c \<Rightarrow> Some c | _ \<Rightarrow> None) e of
            Some code \<Rightarrow> override (pg_kind code) kind | None \<Rightarrow> kind)
      in case first_db_error (\<lambda>e. case e of Sqlite_Error c \<Rightarrow> Some c | _ \<Rightarrow> None) e of
           Some code \<Rightarrow> override (sqlite_kind code) kind | None \<Rightarrow> kind)"

definition classify_error :: "db_error option \<Rightarrow> db_error option" where
  "classify_error err =
     (case err of
        None \<Rightarrow> None
      | Some e \<Rightarrow>
          if error_is No_Rows e then Some e
          else if as_database_error e \<noteq> None then Some e
          else Some (Database_Error (driver_kind e) e))"

text \<open>The text of a classified error names the category only.\<close>

definition database_error_text :: "error_kind \<Rightarrow> string" where
  "database_error_text k = ''database operation failed: '' @ error_kind_text k"

declare first_db_error.simps [simp del]

lemma as_database_error_Database_Error [simp]: "as_database_error (Database_Error k e) = Some k"
  by (simp add: as_database_error_def first_db_error.simps)

lemma classify_error_idem: "classify_error (classify_error err) = classify_error err"
  by (auto simp: classify_error_def split: option.splits)

lemma classify_error_None [simp]: "classify_error err = None \<longleftrightarrow> err = None"
  by (simp add: classify_error_def split: option.split)

lemma classified: "classify_error (Some e) = Some e' \<Longrightarrow> error_is No_Rows e' \<or> as_database_error e' \<noteq> None"
  by (auto simp: classify_error_def split: if_splits)

lemma classified_keeps_the_cause: "classify_error (Some e) = Some e' \<Longrightarrow> e' = e \<or> e' = Database_Error (driver_kind e) e"
  by (auto simp: classify_error_def split: if_splits)

section \<open>Transactions\<close>

text \<open>The callback works on its own copy of the state. It may return, fail, or panic.\<close>

datatype 's tx_outcome = Tx_Done 's | Tx_Failed 's db_error | Tx_Panicked 's

datatype tx_result = Tx_Returned "db_error option" | Tx_Unwound

record 's tx_pool =
  tp_state :: 's
  tp_open :: nat           \<comment> \<open>transactions begun and neither committed nor rolled back\<close>

text \<open>\<open>begin_error\<close> and \<open>commit_error\<close> are the driver's answers; a commit that fails leaves nothing behind.\<close>

definition in_tx ::
    "db_error option \<Rightarrow> db_error option \<Rightarrow> ('s \<Rightarrow> 's tx_outcome) option \<Rightarrow> 's tx_pool \<Rightarrow> tx_result \<times> 's tx_pool" where
  "in_tx begin_error commit_error fn p =
     (case fn of
        None \<Rightarrow> (Tx_Returned (Some (Other_Error ''dbcore: transaction callback is nil'')), p)
      | Some f \<Rightarrow> (case begin_error of
          Some e \<Rightarrow> (Tx_Returned (classify_error (Some e)), p)
        | None \<Rightarrow>
            (let p = p\<lparr>tp_open := tp_open p + 1\<rparr>
             in case f (tp_state p) of
                  Tx_Panicked s \<Rightarrow> (Tx_Unwound, p)
                | Tx_Failed s e \<Rightarrow> (Tx_Returned (Some e), p\<lparr>tp_open := tp_open p - 1\<rparr>)
                | Tx_Done s \<Rightarrow> (Tx_Returned (classify_error commit_error),
                    p\<lparr>tp_open := tp_open p - 1, tp_state := if commit_error = None then s else tp_state p\<rparr>))))"

lemma in_tx_commits_on_success:
  "in_tx b c fn p = (Tx_Returned None, p') \<longleftrightarrow>
     b = None \<and> c = None \<and> (\<exists>f s. fn = Some f \<and> f (tp_state p) = Tx_Done s \<and> p' = p\<lparr>tp_state := s\<rparr>)"
  by (cases fn; cases b; cases c) (auto simp: in_tx_def Let_def split: tx_outcome.splits)

lemma in_tx_is_all_or_nothing:
  "in_tx b c fn p = (r, p') \<Longrightarrow> r \<noteq> Tx_Returned None \<Longrightarrow> tp_state p' = tp_state p"
  by (cases fn; cases b; cases c) (auto simp: in_tx_def Let_def split: tx_outcome.splits)

lemma in_tx_closes: "in_tx b c fn p = (Tx_Returned e, p') \<Longrightarrow> tp_open p' = tp_open p"
  by (cases fn; cases b; cases c) (auto simp: in_tx_def Let_def split: tx_outcome.splits)

text \<open>A panic in the callback passes through: the transaction stays open, with its connection.\<close>

lemma a_panic_leaves_the_transaction_open:
  "f (tp_state p) = Tx_Panicked s \<Longrightarrow> in_tx None c (Some f) p = (Tx_Unwound, p\<lparr>tp_open := tp_open p + 1\<rparr>)"
  by (simp add: in_tx_def Let_def)

section \<open>Configuration of the pools\<close>




record pool_config =
  pc_max_open :: int
  pc_max_idle :: int
  pc_max_lifetime :: int
  pc_max_idle_time :: int
  pc_ping_timeout :: int

datatype db_config_error =
    Limits_Negative | Idle_Exceeds_Open | Durations_Negative | Bad_Dsn string
  | Path_And_Dsn | Memory_With_Path | Read_Only_Memory | Writable_Directory | Busy_Timeout_Range | Location_Required
  | Dsn_Not_File | Malformed_Query

definition validate_pool :: "pool_config \<Rightarrow> db_config_error option" where
  "validate_pool g =
     (if pc_max_open g < 0 \<or> pc_max_idle g < 0 then Some Limits_Negative
      else if 0 < pc_max_open g \<and> pc_max_open g < pc_max_idle g then Some Idle_Exceeds_Open
      else if pc_max_lifetime g < 0 \<or> pc_max_idle_time g < 0 \<or> pc_ping_timeout g < 0 then Some Durations_Negative
      else None)"

text \<open>\<open>parse_url\<close> is \<^verbatim>\<open>url.Parse\<close>: the scheme, the host and the path.\<close>

definition validate_postgres_dsn :: "(string \<Rightarrow> (string \<times> string \<times> string) option) \<Rightarrow> string \<Rightarrow> string \<Rightarrow> db_config_error option" where
  "validate_postgres_dsn parse_url dsn field =
     (case parse_url (trim_space dsn) of
        None \<Rightarrow> Some (Bad_Dsn field)
      | Some (scheme, host, path) \<Rightarrow>
          if scheme \<noteq> ''postgres'' \<and> scheme \<noteq> ''postgresql'' \<or> host = [] \<or> trim_prefix path ''/'' = [] then Some (Bad_Dsn field) else None)"

definition validate_postgres_config ::
    "(string \<Rightarrow> (string \<times> string \<times> string) option) \<Rightarrow> pool_config \<Rightarrow> string \<Rightarrow> string \<Rightarrow> db_config_error option" where
  "validate_postgres_config parse_url g rw ro =
     (case validate_pool g of
        Some e \<Rightarrow> Some e
      | None \<Rightarrow> (case validate_postgres_dsn parse_url rw ''RWDSN'' of
          Some e \<Rightarrow> Some e
        | None \<Rightarrow> if trim_space ro \<noteq> [] then validate_postgres_dsn parse_url ro ''RODSN'' else None))"

text \<open>\<^verbatim>\<open>NewClient\<close>: which driver a DSN selects.\<close>

definition selects_sqlite :: "string \<Rightarrow> bool" where
  "selects_sqlite dsn \<longleftrightarrow> (let dsn = trim_space dsn in dsn = '':memory:'' \<or> has_prefix dsn ''file:'')"

section \<open>SQLite\<close>

record sqlite_config =
  sl_path :: string
  sl_dsn :: string
  sl_directory_mode :: nat
  sl_busy_timeout :: int
  sl_foreign_keys :: "bool option"
  sl_pool :: pool_config
  sl_read_only :: bool
  sl_in_memory :: bool

definition group_or_world_writable :: "nat \<Rightarrow> bool" where
  "group_or_world_writable mode \<longleftrightarrow> mode div 16 mod 2 = 1 \<or> mode div 2 mod 2 = 1"

text \<open>
  Query strings are a parameter: \<open>parse\<close> is \<^verbatim>\<open>url.ParseQuery\<close> and \<open>encode\<close> is \<^verbatim>\<open>url.Values.Encode\<close>
  over lists of keys and values; \<open>clean\<close> is \<^verbatim>\<open>filepath.Clean\<close>.
\<close>

type_synonym query_values = "(string \<times> string) list"

definition dsn_query :: "(string \<Rightarrow> query_values option) \<Rightarrow> string \<Rightarrow> (string \<times> query_values) option" where
  "dsn_query parse dsn =
     (case split_first CHR ''?'' dsn of
        (base, None) \<Rightarrow> Some (base, [])
      | (base, Some q) \<Rightarrow> map_option (\<lambda>vs. (base, vs)) (parse q))"

definition sqlite_dsn_with_mode :: "(string \<Rightarrow> query_values option) \<Rightarrow> (query_values \<Rightarrow> string) \<Rightarrow> string \<Rightarrow> string \<Rightarrow> string option" where
  "sqlite_dsn_with_mode parse encode dsn mode =
     map_option (\<lambda>(base, vs). base @ ''?'' @ encode (filter (\<lambda>(k, v). k \<noteq> ''mode'') vs @ [(''mode'', mode)])) (dsn_query parse dsn)"

definition sqlite_dsn_with_pragmas ::
    "(string \<Rightarrow> query_values option) \<Rightarrow> (query_values \<Rightarrow> string) \<Rightarrow> string \<Rightarrow> bool \<Rightarrow> int \<Rightarrow> db_config_error + string" where
  "sqlite_dsn_with_pragmas parse encode dsn foreign_keys busy =
     (if \<not> has_prefix dsn ''file:'' then Inl Dsn_Not_File
      else case dsn_query parse dsn of
        None \<Rightarrow> Inl Malformed_Query
      | Some (base, vs) \<Rightarrow>
          Inr (base @ ''?'' @ encode (vs @ [(''_pragma'', ''foreign_keys('' @ (if foreign_keys then ''1'' else ''0'') @ '')''),
            (''_pragma'', ''busy_timeout('' @ itoa (busy div 1000000) @ '')'')])))"

definition normalize_sqlite_config ::
    "(string \<Rightarrow> query_values option) \<Rightarrow> (query_values \<Rightarrow> string) \<Rightarrow> (string \<Rightarrow> string) \<Rightarrow> string \<Rightarrow> sqlite_config \<Rightarrow> db_config_error + sqlite_config \<times> string" where
  "normalize_sqlite_config parse encode clean random_name g =
     (let has_path = trim_space (sl_path g) \<noteq> []; has_dsn = trim_space (sl_dsn g) \<noteq> []
      in if has_path \<and> has_dsn then Inl Path_And_Dsn
         else if sl_in_memory g \<and> (has_path \<or> has_dsn) then Inl Memory_With_Path
         else if sl_read_only g \<and> sl_in_memory g then Inl Read_Only_Memory
         else let g = g\<lparr>sl_directory_mode := if sl_directory_mode g = 0 then 488 else sl_directory_mode g\<rparr>
              in if group_or_world_writable (sl_directory_mode g) then Inl Writable_Directory
                 else let g = g\<lparr>sl_busy_timeout := if sl_busy_timeout g = 0 then 5000000000 else sl_busy_timeout g\<rparr>
                      in if sl_busy_timeout g < 0 \<or> 300000000000 < sl_busy_timeout g then Inl Busy_Timeout_Range
                         else if pc_max_open (sl_pool g) < 0 \<or> pc_max_idle (sl_pool g) < 0 \<or> pc_max_lifetime (sl_pool g) < 0
                           \<or> pc_max_idle_time (sl_pool g) < 0 \<or> pc_ping_timeout (sl_pool g) < 0 then Inl Limits_Negative
                         else if 0 < pc_max_open (sl_pool g) \<and> pc_max_open (sl_pool g) < pc_max_idle (sl_pool g) then Inl Idle_Exceeds_Open
                         else let fk = (case sl_foreign_keys g of None \<Rightarrow> True | Some b \<Rightarrow> b); g = g\<lparr>sl_foreign_keys := Some fk\<rparr>
                              in if \<not> sl_in_memory g \<and> \<not> has_path \<and> \<not> has_dsn then Inl Location_Required
                                 else let dsn = trim_space (sl_dsn g);
                                          (g, dsn) =
                                            (if sl_in_memory g then
                                               (g\<lparr>sl_pool := (sl_pool g)\<lparr>pc_max_open := if pc_max_open (sl_pool g) = 0 then 1 else pc_max_open (sl_pool g),
                                                                        pc_max_idle := if pc_max_idle (sl_pool g) = 0 then 1 else pc_max_idle (sl_pool g)\<rparr>\<rparr>,
                                                ''file:'' @ random_name @ ''?mode=memory&cache=shared'')
                                             else if dsn = [] then
                                               (g\<lparr>sl_path := clean (sl_path g)\<rparr>,
                                                ''file:'' @ clean (sl_path g) @ (if sl_read_only g then ''?mode=ro'' else []))
                                             else (g, dsn))
                                      in case (if sl_read_only g \<and> \<not> sl_in_memory g then sqlite_dsn_with_mode parse encode dsn ''ro'' else Some dsn) of
                                           None \<Rightarrow> Inl Malformed_Query
                                         | Some dsn \<Rightarrow> (case sqlite_dsn_with_pragmas parse encode dsn fk (sl_busy_timeout g) of
                                             Inl e \<Rightarrow> Inl e
                                           | Inr dsn \<Rightarrow> Inr (g, dsn)))"

lemma split_first_append: "c \<notin> set xs \<Longrightarrow> split_first c (xs @ c # ys) = (xs, Some ys)"
proof -
  assume "c \<notin> set xs"
  then have "index_byte (xs @ c # ys) c = Some (length xs)"
    by (auto simp: index_byte_Some nth_append)
  then show ?thesis by (simp add: split_first_def)
qed

lemma split_first_base: "split_first c s = (base, r) \<Longrightarrow> c \<notin> set base"
  by (auto simp: split_first_def index_byte_None dest!: index_byte_takeWhile dest: set_takeWhileD split: option.splits)

text \<open>A read-only configuration reaches the driver with \<^verbatim>\<open>mode=ro\<close> and no other mode, provided that the
  library reads back the query it wrote and writes no question mark.\<close>

lemma read_only_dsn:
  assumes "normalize_sqlite_config parse encode clean rnd g = Inr (g', dsn)" "sl_read_only g"
    and "\<And>vs. parse (encode vs) = Some vs"
  shows "\<exists>base vs. dsn = base @ ''?'' @ encode vs \<and> (''mode'', ''ro'') \<in> set vs \<and> (\<forall>v. (''mode'', v) \<in> set vs \<longrightarrow> v = ''ro'')"
proof -
  obtain d d' fk busy where d: "sqlite_dsn_with_mode parse encode d ''ro'' = Some d'"
    and p: "sqlite_dsn_with_pragmas parse encode d' fk busy = Inr dsn"
    using assms(1,2) unfolding normalize_sqlite_config_def Let_def
    by (auto split: if_splits option.splits sum.splits prod.splits)
  obtain base vs where b: "dsn_query parse d = Some (base, vs)"
    and d': "d' = base @ CHR ''?'' # encode (filter (\<lambda>(k, v). k \<noteq> ''mode'') vs @ [(''mode'', ''ro'')])"
    using d by (auto simp: sqlite_dsn_with_mode_def)
  have "CHR ''?'' \<notin> set base"
    using b split_first_base by (auto simp: dsn_query_def split: prod.splits option.splits)
  then have "dsn_query parse d' = Some (base, filter (\<lambda>(k, v). k \<noteq> ''mode'') vs @ [(''mode'', ''ro'')])"
    by (simp add: d' dsn_query_def split_first_append assms(3))
  then obtain pragmas where "dsn = base @ ''?'' @ encode (filter (\<lambda>(k, v). k \<noteq> ''mode'') vs @ [(''mode'', ''ro'')] @ pragmas)"
    "\<forall>(k, v) \<in> set pragmas. k = ''_pragma''"
    using p by (auto simp: sqlite_dsn_with_pragmas_def split: if_splits)
  then show ?thesis by (intro exI [of _ base] exI [of _ "filter (\<lambda>(k, v). k \<noteq> ''mode'') vs @ [(''mode'', ''ro'')] @ pragmas"]) auto
qed

section \<open>Slow queries\<close>

text \<open>\<^verbatim>\<open>strings.Join(strings.Fields(sql), " ")\<close>, with the state of the scanner: something was written, and blanks wait.\<close>

fun squeeze :: "bool \<Rightarrow> bool \<Rightarrow> string \<Rightarrow> string" where
  "squeeze started blank [] = []"
| "squeeze started blank (c # cs) =
     (if is_space c then squeeze started True cs
      else (if started \<and> blank then [CHR '' '', c] else [c]) @ squeeze True False cs)"

text \<open>The two replacements by regular expressions, as scanners: a dollar sign with digits; a quoted text or a number
  between word boundaries. The flag tells whether the byte before is a word byte.\<close>

definition word_byte :: "char \<Rightarrow> bool" where
  "word_byte c \<longleftrightarrow> is_lower c \<or> is_upper c \<or> is_digit c \<or> c = CHR ''_''"

definition quote :: char where "quote = CHR 0x27"

function replace_params :: "string \<Rightarrow> string" where
  "replace_params [] = []"
| "replace_params (c # cs) =
     (if c = CHR ''$'' \<and> cs \<noteq> [] \<and> is_digit (hd cs) then ''$?'' @ replace_params (dropWhile is_digit cs)
      else c # replace_params cs)"
  by pat_completeness auto
termination
  by (relation "measure length") (auto simp: less_Suc_eq_le length_dropWhile_le)

function replace_literals :: "bool \<Rightarrow> string \<Rightarrow> string" where
  "replace_literals word [] = []"
| "replace_literals word (c # cs) =
     (if c = quote \<and> quote \<in> set cs then CHR ''?'' # replace_literals False (tl (dropWhile (\<lambda>x. x \<noteq> quote) cs))
      else if is_digit c \<and> \<not> word \<and> (case dropWhile is_digit cs of [] \<Rightarrow> True | x # xs \<Rightarrow> \<not> word_byte x)
      then CHR ''?'' # replace_literals True (dropWhile is_digit cs)
      else c # replace_literals (word_byte c) cs)"
  by pat_completeness auto
termination
  by (relation "measure (\<lambda>(w, cs). length cs)")
     (auto simp: less_Suc_eq_le length_dropWhile_le le_trans [OF diff_le_self length_dropWhile_le])

definition generate_fingerprint :: "string \<Rightarrow> string" where
  "generate_fingerprint sql = to_lower (replace_literals False (replace_params (squeeze False False sql)))"





subsection \<open>What the fingerprint hides\<close>


lemma quote_class [simp]: "\<not> is_space quote" "\<not> is_digit quote" "\<not> word_byte quote" "quote \<noteq> CHR ''$''" "quote \<noteq> CHR ''?''" "quote \<noteq> CHR '' ''"
  by (simp_all add: quote_def is_space_def is_digit_def is_lower_def is_upper_def word_byte_def byte_in_def)












section \<open>Properties\<close>



text \<open>A text in any other notation of the database is not recognised: between double dollar signs it reaches the log.\<close>

lemma dollar_quoted_texts_are_logged:
  "generate_fingerprint ''SELECT $$secret$$'' = ''select $$secret$$''"
  by code_simp

end
