(* ===== verification/Ephemeral_Pages.thy ===== *)
theory Ephemeral_Pages
  imports Go_Maps
begin

text \<open>
  \<^verbatim>\<open>dbcore/ephemeral.go\<close>: results of a query kept in a table of their own and read page by page. The database is a
  map from table names to numbered rows; building a session, adding it and its clean-up are separate steps, so that
  concurrent calls interleave. The rows arrive encoded.
\<close>

section \<open>Sessions\<close>

record eph_session =
  es_id :: string
  es_table :: string
  es_total :: nat
  es_expires :: int

datatype eph_error = Eph_Client_Required | Eph_Capacity | Eph_Too_Large | Eph_Database string | Eph_Expired

definition max_sessions :: nat where "max_sessions = 10000"
definition max_rows :: nat where "max_rows = 100000"
definition max_bytes :: nat where "max_bytes = 67108864"

definition table_name :: "string \<Rightarrow> string" where "table_name i = ''gpp_tmp_page_'' @ i"

definition effective_ttl :: "int \<Rightarrow> int" where "effective_ttl ttl = (if ttl \<le> 0 then 600000000000 else ttl)"
definition history_ttl :: "int \<Rightarrow> int" where "history_ttl ttl = (if ttl \<le> 0 then 1800000000000 else ttl)"

text \<open>The loop over the rows of the query: a scan, an encoding or the cursor may fail.\<close>

fun collect_rows :: "(string + string) list \<Rightarrow> string list \<Rightarrow> nat \<Rightarrow> eph_error + string list" where
  "collect_rows [] acc bytes = Inr acc"
| "collect_rows (Inl e # rs) acc bytes = Inl (Eph_Database e)"
| "collect_rows (Inr r # rs) acc bytes =
     (if max_rows \<le> length acc \<or> max_bytes < bytes + length r then Inl Eph_Too_Large
      else collect_rows rs (acc @ [r]) (bytes + length r))"

record eph_state =
  em_sessions :: "(string \<times> eph_session) list"
  em_tables :: "(string \<times> (nat \<times> string) list) list"
  em_building :: "string list"                         \<comment> \<open>identifiers of calls between the table and the session\<close>

definition eph_initial :: eph_state where
  "eph_initial = \<lparr>em_sessions = [], em_tables = [], em_building = []\<rparr>"

definition has_capacity :: "eph_state \<Rightarrow> bool" where
  "has_capacity s \<longleftrightarrow> length (em_sessions s) < max_sessions"

text \<open>The first half of \<^verbatim>\<open>MaterializePagination\<close>: capacity, identifier, empty table.\<close>

definition eph_begin :: "bool \<Rightarrow> string + string \<Rightarrow> string option \<Rightarrow> eph_state \<Rightarrow> (eph_error + string) \<times> eph_state" where
  "eph_begin has_client random create_error s =
     (if \<not> has_client then (Inl Eph_Client_Required, s)
      else if \<not> has_capacity s then (Inl Eph_Capacity, s)
      else case random of
        Inl e \<Rightarrow> (Inl (Eph_Database e), s)
      | Inr i \<Rightarrow> (case create_error of
          Some e \<Rightarrow> (Inl (Eph_Database e), s)
        | None \<Rightarrow> (Inr i, s\<lparr>em_tables := (if map_of (em_tables s) (table_name i) = None
                                         then AList.update (table_name i) [] (em_tables s) else em_tables s),
                           em_building := i # em_building s\<rparr>)))"

text \<open>\<^verbatim>\<open>cleanupEphemeralTable\<close>; the session is forgotten even when the table could not be dropped.\<close>

definition eph_cleanup :: "bool \<Rightarrow> string \<Rightarrow> string option \<Rightarrow> eph_state \<Rightarrow> eph_state" where
  "eph_cleanup dropped table sid s =
     (let s = (if dropped then s\<lparr>em_tables := AList.delete table (em_tables s)\<rparr> else s)
      in case sid of None \<Rightarrow> s | Some i \<Rightarrow> s\<lparr>em_sessions := AList.delete i (em_sessions s)\<rparr>)"

text \<open>The second half: the rows, one transaction for all of them, the session. On a failure the deferred clean-up runs.\<close>

definition eph_finish ::
    "string \<Rightarrow> (string + string) list \<Rightarrow> string option \<Rightarrow> int \<Rightarrow> int \<Rightarrow> bool \<Rightarrow> eph_state \<Rightarrow> (eph_error + eph_session) \<times> eph_state" where
  "eph_finish i query insert_error now ttl dropped s =
     (let s = s\<lparr>em_building := removeAll i (em_building s)\<rparr>;
          fail = (\<lambda>e. (Inl e, eph_cleanup dropped (table_name i) None s))
      in case collect_rows query [] 0 of
           Inl e \<Rightarrow> fail e
         | Inr rows \<Rightarrow>
             (if rows \<noteq> [] \<and> insert_error \<noteq> None then fail (Eph_Database (the insert_error))
              else if \<not> has_capacity s then fail Eph_Capacity
              else let session = \<lparr>es_id = i, es_table = table_name i, es_total = length rows, es_expires = now + effective_ttl ttl\<rparr>
                   in (Inr session, s\<lparr>em_tables := AList.update (table_name i) (enumerate 1 rows) (em_tables s),
                                     em_sessions := AList.update i session (em_sessions s)\<rparr>)))"

section \<open>Pages\<close>

definition rows_between :: "int \<Rightarrow> int \<Rightarrow> (nat \<times> string) list \<Rightarrow> string list" where
  "rows_between first final rows = map snd (filter (\<lambda>(n, r). first \<le> int n \<and> int n \<le> final) rows)"

definition page_bounds :: "int \<Rightarrow> int \<Rightarrow> int \<times> int" where
  "page_bounds page limit =
     (let page = (if page < 1 then 1 else page); limit = (if limit < 1 then 20 else limit)
      in (wrap64 (wrap64 ((page - 1) * limit) + 1), wrap64 (page * limit)))"

definition paginate_session :: "string \<Rightarrow> int \<Rightarrow> int \<Rightarrow> int \<Rightarrow> eph_state \<Rightarrow> eph_error + string list \<times> nat" where
  "paginate_session sid page limit now s =
     (case map_of (em_sessions s) sid of
        None \<Rightarrow> Inl Eph_Expired
      | Some session \<Rightarrow>
          if es_expires session < now then Inl Eph_Expired
          else case map_of (em_tables s) (es_table session) of
            None \<Rightarrow> Inl (Eph_Database ''no such table'')
          | Some rows \<Rightarrow> (case page_bounds page limit of (first, final) \<Rightarrow> Inr (rows_between first final rows, es_total session)))"

text \<open>\<open>decode\<close> is \<^verbatim>\<open>json.Unmarshal\<close> into the type of the caller.\<close>

definition paginate_typed :: "(string \<Rightarrow> string + 'a) \<Rightarrow> string \<Rightarrow> int \<Rightarrow> int \<Rightarrow> int \<Rightarrow> eph_state \<Rightarrow> eph_error + 'a list \<times> nat" where
  "paginate_typed decode sid page limit now s =
     (case paginate_session sid page limit now s of
        Inl e \<Rightarrow> Inl e
      | Inr (rows, n) \<Rightarrow>
          (case find (\<lambda>r. isl (decode r)) rows of
             Some r \<Rightarrow> Inl (Eph_Database (projl (decode r)))
           | None \<Rightarrow> Inr (map (\<lambda>r. projr (decode r)) rows, n)))"

section \<open>Concurrent sessions\<close>

text \<open>The states concurrent calls reach, with the rows every session was built from. Identifiers are 64 random bits:
  that they do not repeat is the premise of the first rule.\<close>

inductive eph_reach :: "(string \<times> string list) list \<Rightarrow> eph_state \<Rightarrow> bool" where
  initial: "eph_reach [] eph_initial"
| opened: "eph_reach h s \<Longrightarrow> i \<notin> fst ` set h \<Longrightarrow> i \<notin> set (em_building s) \<Longrightarrow> map_of (em_tables s) (table_name i) = None
    \<Longrightarrow> eph_begin c (Inr i) e s = (Inr i, s') \<Longrightarrow> eph_reach h s'"
| finished: "eph_reach h s \<Longrightarrow> i \<in> set (em_building s) \<Longrightarrow> i \<notin> fst ` set h \<Longrightarrow> eph_finish i query e now ttl d s = (Inr session, s')
    \<Longrightarrow> eph_reach ((i, projr (collect_rows query [] 0)) # h) s'"
| failed: "eph_reach h s \<Longrightarrow> i \<in> set (em_building s) \<Longrightarrow> i \<notin> fst ` set h \<Longrightarrow> eph_finish i query e now ttl d s = (Inl err, s')
    \<Longrightarrow> eph_reach h s'"
| expired: "eph_reach h s \<Longrightarrow> map_of (em_sessions s) i = Some session
    \<Longrightarrow> eph_reach h (eph_cleanup d (es_table session) (Some i) s)"

section \<open>Lemmas\<close>

lemma collect_rows_bounds:
  "collect_rows query acc bytes = Inr rows \<Longrightarrow> length acc \<le> max_rows \<Longrightarrow> sum_list (map length acc) = bytes \<Longrightarrow> bytes \<le> max_bytes
     \<Longrightarrow> length rows \<le> max_rows \<and> sum_list (map length rows) \<le> max_bytes"
  by (induction query acc bytes rule: collect_rows.induct) (auto split: if_splits)

lemma collect_rows_result: "collect_rows query acc bytes = Inr rows \<Longrightarrow> rows = acc @ map projr query \<and> (\<forall>x \<in> set query. \<not> isl x)"
  by (induction query acc bytes rule: collect_rows.induct) (auto split: if_splits)

lemma table_name_inj [simp]: "table_name i = table_name j \<longleftrightarrow> i = j"
  by (simp add: table_name_def)

lemma enumerate_upto: "m \<le> n \<Longrightarrow> filter (\<lambda>(i, r). m \<le> i \<and> i < e) (enumerate n xs) = enumerate n (take (e - n) xs)"
proof (induction xs arbitrary: n)
  case (Cons x xs)
  have "take (e - n) (x # xs) = (if n < e then x # take (e - Suc n) xs else [])" by (simp add: take_Cons')
  then show ?case using Cons.IH [of "Suc n"] Cons.prems by simp
qed simp

lemma enumerate_between: "n \<le> m \<Longrightarrow> filter (\<lambda>(i, r). m \<le> i \<and> i < m + k) (enumerate n xs) = enumerate m (take k (drop (m - n) xs))"
proof (induction xs arbitrary: n)
  case (Cons x xs)
  show ?case
  proof (cases "n = m")
    case True
    then show ?thesis using enumerate_upto [of m m "m + k" "x # xs"] by simp
  next
    case False
    then show ?thesis using Cons.IH [of "Suc n"] Cons.prems by (auto simp: drop_Cons' Suc_diff_le)
  qed
qed simp

lemma page_bounds_exact:
  assumes "1 \<le> page" "1 \<le> limit" "page * limit < 2 ^ 63"
  shows "page_bounds page limit = ((page - 1) * limit + 1, page * limit)"
proof -
  have low: "0 \<le> (page - 1) * limit" using assms by simp
  have high: "page * limit = (page - 1) * limit + limit" by (simp add: algebra_simps)
  have "int64 ((page - 1) * limit)" "int64 ((page - 1) * limit + 1)" "int64 (page * limit)"
    unfolding int64_def using low high assms by linarith+
  then show ?thesis using assms by (simp add: page_bounds_def Let_def)
qed

lemma rows_between_page:
  assumes "1 \<le> (limit :: nat)"
  shows "rows_between (int (p * limit) + 1) (int (Suc p * limit)) (enumerate 1 rows) = take limit (drop (p * limit) rows)"
proof -
  have "(\<lambda>(n, r). int (p * limit) + 1 \<le> int n \<and> int n \<le> int (Suc p * limit)) = (\<lambda>(n, r :: string). Suc (p * limit) \<le> n \<and> n < Suc (p * limit) + limit)"
    by (rule ext) (auto simp del: of_nat_mult)
  then show ?thesis using enumerate_between [of 1 "Suc (p * limit)" limit rows] by (simp add: rows_between_def)
qed

lemma take_drop_concat: "concat (map (\<lambda>p. take k (drop (p * k) xs)) [0..<n]) = take (n * k) xs"
  by (induction n) (simp_all add: take_add [symmetric] add.commute [of k])
definition session_ok :: "(string \<times> string list) list \<Rightarrow> eph_state \<Rightarrow> string \<Rightarrow> eph_session \<Rightarrow> bool" where
  "session_ok h s i session \<longleftrightarrow>
     (\<exists>rows. map_of h i = Some rows \<and> es_id session = i \<and> es_table session = table_name i \<and> es_total session = length rows
        \<and> length rows \<le> max_rows \<and> sum_list (map length rows) \<le> max_bytes
        \<and> map_of (em_tables s) (table_name i) = Some (enumerate 1 rows))"

definition eph_ok :: "(string \<times> string list) list \<Rightarrow> eph_state \<Rightarrow> bool" where
  "eph_ok h s \<longleftrightarrow>
     distinct (map fst (em_sessions s)) \<and> length (em_sessions s) \<le> max_sessions \<and> set (em_building s) \<inter> fst ` set h = {}
     \<and> (\<forall>i session. map_of (em_sessions s) i = Some session \<longrightarrow> session_ok h s i session)"

lemma session_ok_keep:
  "session_ok h s i session \<Longrightarrow> map_of (em_tables s') (table_name i) = map_of (em_tables s) (table_name i)
     \<Longrightarrow> map_of h' i = map_of h i \<Longrightarrow> session_ok h' s' i session"
  by (simp add: session_ok_def)

lemma session_known: "session_ok h s i session \<Longrightarrow> i \<in> fst ` set h \<and> map_of (em_tables s) (table_name i) \<noteq> None"
  by (auto simp: session_ok_def dest: map_of_SomeD_dom)

lemma eph_okD: "eph_ok h s \<Longrightarrow> map_of (em_sessions s) i = Some session \<Longrightarrow> session_ok h s i session"
  by (simp add: eph_ok_def)

lemma eph_begin_ok:
  assumes "eph_ok h s" "i \<notin> fst ` set h" "map_of (em_tables s) (table_name i) = None" "eph_begin c (Inr i) e s = (Inr i, s')"
  shows "eph_ok h s'"
proof -
  have s': "s' = s\<lparr>em_tables := AList.update (table_name i) [] (em_tables s), em_building := i # em_building s\<rparr>"
    using assms(3,4) by (auto simp: eph_begin_def split: if_splits option.splits)
  show ?thesis
    unfolding eph_ok_def
  proof (intro conjI allI impI)
    fix j session assume "map_of (em_sessions s') j = Some session"
    then have old: "session_ok h s j session" using assms(1) by (simp add: s' eph_ok_def)
    show "session_ok h s' j session"
      by (rule session_ok_keep [OF old]) (use assms(2) session_known [OF old] in \<open>auto simp: s' update_conv\<close>)
  qed (use assms in \<open>auto simp: s' eph_ok_def\<close>)
qed

lemma eph_cleanup_ok:
  assumes "eph_ok h s" "i \<notin> fst ` set h"
  shows "eph_ok h (eph_cleanup d (table_name i) None s)"
  unfolding eph_ok_def
proof (intro conjI allI impI)
  fix j session assume "map_of (em_sessions (eph_cleanup d (table_name i) None s)) j = Some session"
  then have old: "session_ok h s j session" using assms(1) by (simp add: eph_cleanup_def eph_ok_def split: if_splits)
  show "session_ok h (eph_cleanup d (table_name i) None s) j session"
    by (rule session_ok_keep [OF old]) (use assms(2) session_known [OF old] in \<open>auto simp: eph_cleanup_def delete_conv\<close>)
qed (use assms in \<open>auto simp: eph_cleanup_def eph_ok_def\<close>)

lemma eph_expire_ok:
  assumes "eph_ok h s" "map_of (em_sessions s) i = Some session"
  shows "eph_ok h (eph_cleanup d (es_table session) (Some i) s)"
  unfolding eph_ok_def
proof (intro conjI allI impI)
  have tab: "es_table session = table_name i" using eph_okD [OF assms] by (auto simp: session_ok_def)
  let ?s = "eph_cleanup d (es_table session) (Some i) s"
  have sessions: "em_sessions ?s = AList.delete i (em_sessions s)" by (simp add: eph_cleanup_def)
  show "distinct (map fst (em_sessions ?s))" using assms(1) by (simp add: sessions eph_ok_def distinct_delete)
  show "length (em_sessions ?s) \<le> max_sessions"
    using assms(1) length_delete_le [of i "em_sessions s"] by (simp add: sessions eph_ok_def)
  show "set (em_building ?s) \<inter> fst ` set h = {}" using assms(1) by (simp add: eph_cleanup_def eph_ok_def)
  fix j other assume "map_of (em_sessions ?s) j = Some other"
  then have "j \<noteq> i" "map_of (em_sessions s) j = Some other" by (auto simp: sessions delete_conv split: if_splits)
  then have old: "session_ok h s j other" using assms(1) by (simp add: eph_ok_def)
  show "session_ok h ?s j other"
    by (rule session_ok_keep [OF old]) (use \<open>j \<noteq> i\<close> tab in \<open>auto simp: eph_cleanup_def delete_conv\<close>)
qed

lemma eph_finish_cases:
  assumes "eph_finish i query e now ttl d s = (r, s')"
  obtains (fails) err where "r = Inl err" "s' = eph_cleanup d (table_name i) None (s\<lparr>em_building := removeAll i (em_building s)\<rparr>)"
  | (adds) rows session where "collect_rows query [] 0 = Inr rows" "has_capacity s" "r = Inr session"
      "session = \<lparr>es_id = i, es_table = table_name i, es_total = length rows, es_expires = now + effective_ttl ttl\<rparr>"
      "s' = s\<lparr>em_building := removeAll i (em_building s), em_tables := AList.update (table_name i) (enumerate 1 rows) (em_tables s),
              em_sessions := AList.update i session (em_sessions s)\<rparr>"
proof (cases "collect_rows query [] 0")
  case (Inl err)
  then show ?thesis using assms fails by (auto simp: eph_finish_def Let_def)
next
  case (Inr rows)
  then show ?thesis
    using assms fails adds [OF Inr] unfolding eph_finish_def Let_def
    by (cases "rows \<noteq> [] \<and> e \<noteq> None"; cases "has_capacity s") (auto simp: has_capacity_def)
qed

lemma eph_finish_ok:
  assumes "eph_ok h s" "i \<notin> fst ` set h" "collect_rows query [] 0 = Inr rows" "has_capacity s"
    and session: "session = \<lparr>es_id = i, es_table = table_name i, es_total = length rows, es_expires = t\<rparr>"
    and s': "s' = s\<lparr>em_building := removeAll i (em_building s), em_tables := AList.update (table_name i) (enumerate 1 rows) (em_tables s),
              em_sessions := AList.update i session (em_sessions s)\<rparr>"
  shows "eph_ok ((i, rows) # h) s'"
  unfolding eph_ok_def
proof (intro conjI allI impI)
  show "distinct (map fst (em_sessions s'))" using assms(1) by (simp add: s' eph_ok_def distinct_update)
  show "length (em_sessions s') \<le> max_sessions" using assms(1,4) by (auto simp: s' eph_ok_def has_capacity_def length_update)
  show "set (em_building s') \<inter> fst ` set ((i, rows) # h) = {}" using assms(1) by (auto simp: s' eph_ok_def)
  fix j other assume j: "map_of (em_sessions s') j = Some other"
  show "session_ok ((i, rows) # h) s' j other"
  proof (cases "j = i")
    case True
    have "length rows \<le> max_rows" "sum_list (map length rows) \<le> max_bytes" using collect_rows_bounds [OF assms(3)] by simp_all
    moreover have "other = session" using j True by (simp add: s' update_conv)
    ultimately show ?thesis using True by (simp add: session_ok_def s' session update_conv)
  next
    case False
    then have old: "session_ok h s j other" using j assms(1) by (simp add: s' eph_ok_def update_conv)
    show ?thesis by (rule session_ok_keep [OF old]) (use False in \<open>auto simp: s' update_conv\<close>)
  qed
qed

lemma eph_reach_ok: "eph_reach h s \<Longrightarrow> eph_ok h s"
proof (induction rule: eph_reach.induct)
  case initial
  then show ?case by (simp add: eph_ok_def eph_initial_def)
next
  case (opened h s i c e s')
  show ?case by (rule eph_begin_ok [OF opened.IH opened.hyps(2,4,5)])
next
  case (finished h s i query e now ttl d session s')
  from finished.hyps(4) show ?case
  proof (cases rule: eph_finish_cases)
    case (adds rows session)
    from eph_finish_ok [OF finished.IH finished.hyps(3) adds(1,2,4,5)] show ?thesis by (simp add: adds(1))
  qed simp
next
  case (failed h s i query e now ttl d err s')
  have ok: "eph_ok h (s\<lparr>em_building := removeAll i (em_building s)\<rparr>)" using failed.IH by (auto simp: eph_ok_def session_ok_def)
  from failed.hyps(4) show ?case
  proof (cases rule: eph_finish_cases)
    case (fails err)
    show ?thesis unfolding fails(2) by (rule eph_cleanup_ok [OF ok failed.hyps(3)])
  qed simp
next
  case (expired h s i session d)
  show ?case by (rule eph_expire_ok [OF expired.IH expired.hyps(2)])
qed

section \<open>Properties\<close>

text \<open>C25. Whatever sessions are opened, finished, aborted and cleaned up concurrently: there are never more than 10000,
  and until it expires the pages of a session are consecutive pieces of at most \<open>limit\<close> rows that together are
  the rows it was built from, at most 100000 of them, each once and in order.\<close>
theorem session_pages_partition_the_rows:
  assumes "eph_reach h s" "map_of (em_sessions s) sid = Some session" "now \<le> es_expires session"
    and "1 \<le> (limit :: nat)" "int (pages * limit) < 2 ^ 63" "es_total session \<le> pages * limit"
  shows "length (em_sessions s) \<le> 10000 \<and>
    (\<exists>rows. map_of h sid = Some rows \<and> length rows = es_total session \<and> length rows \<le> 100000
      \<and> (\<forall>p < pages. paginate_session sid (int p + 1) (int limit) now s = Inr (take limit (drop (p * limit) rows), length rows))
      \<and> concat (map (\<lambda>p. fst (projr (paginate_session sid (int p + 1) (int limit) now s))) [0..<pages]) = rows)"
proof
  note ok = eph_reach_ok [OF assms(1)]
  show "length (em_sessions s) \<le> 10000" using ok by (simp add: eph_ok_def max_sessions_def)
  obtain rows where rows: "map_of h sid = Some rows" "es_table session = table_name sid" "es_total session = length rows"
    "length rows \<le> max_rows" "map_of (em_tables s) (table_name sid) = Some (enumerate 1 rows)"
    using eph_okD [OF ok assms(2)] unfolding session_ok_def by blast
  have page: "paginate_session sid (int p + 1) (int limit) now s = Inr (take limit (drop (p * limit) rows), length rows)" if "p < pages" for p
  proof -
    have "Suc p * limit \<le> pages * limit" using that by (intro mult_le_mono1) simp
    then have "int (Suc p * limit) < 2 ^ 63" using assms(5) by linarith
    then have "(int p + 1) * int limit < 2 ^ 63" by (simp add: algebra_simps)
    then have "page_bounds (int p + 1) (int limit) = (int (p * limit) + 1, int (Suc p * limit))"
      using page_bounds_exact [of "int p + 1" "int limit"] assms(4) by (simp add: algebra_simps)
    then show ?thesis using assms(2,3) rows rows_between_page [OF assms(4), of p rows]
      by (simp add: paginate_session_def)
  qed
  moreover have "concat (map (\<lambda>p. fst (projr (paginate_session sid (int p + 1) (int limit) now s))) [0..<pages]) = rows"
  proof -
    have pages: "map (\<lambda>p. fst (projr (paginate_session sid (int p + 1) (int limit) now s))) [0..<pages] = map (\<lambda>p. take limit (drop (p * limit) rows)) [0..<pages]"
      by (rule map_cong [OF refl]) (simp add: page)
    show ?thesis unfolding pages take_drop_concat using assms(6) rows(3) by simp
  qed
  ultimately show "\<exists>rows. map_of h sid = Some rows \<and> length rows = es_total session \<and> length rows \<le> 100000
      \<and> (\<forall>p < pages. paginate_session sid (int p + 1) (int limit) now s = Inr (take limit (drop (p * limit) rows), length rows))
      \<and> concat (map (\<lambda>p. fst (projr (paginate_session sid (int p + 1) (int limit) now s))) [0..<pages]) = rows"
    using rows by (intro exI [of _ rows]) (simp add: max_rows_def)
qed

definition sample_pages :: eph_state where
  "sample_pages = snd (eph_finish ''i'' [Inr ''a'', Inr ''b'', Inr ''c''] None 0 5 True (snd (eph_begin True (Inr ''i'') None eph_initial)))"

theorem session_pages_partition_the_rows_witness:
  "paginate_session ''i'' 2 2 3 sample_pages = Inr ([''c''], 3)"
proof -
  let ?s0 = "snd (eph_begin True (Inr ''i'') None eph_initial)"
  have begin_: "eph_begin True (Inr ''i'') None eph_initial = (Inr ''i'', ?s0)"
    by (simp add: eph_begin_def has_capacity_def eph_initial_def max_sessions_def)
  have r0: "eph_reach [] ?s0"
    by (rule eph_reach.opened [OF eph_reach.initial _ _ _ begin_]) (simp_all add: eph_initial_def)
  have rows: "collect_rows [Inr ''a'', Inr ''b'', Inr ''c''] [] 0 = Inr [''a'', ''b'', ''c'']" by (simp add: max_rows_def max_bytes_def)
  have fin: "eph_finish ''i'' [Inr ''a'', Inr ''b'', Inr ''c''] None 0 5 True ?s0
      = (Inr \<lparr>es_id = ''i'', es_table = table_name ''i'', es_total = 3, es_expires = 5\<rparr>, sample_pages)"
    by (simp add: sample_pages_def eph_finish_def eph_begin_def has_capacity_def eph_initial_def max_sessions_def max_rows_def max_bytes_def effective_ttl_def Let_def)
  have r1: "eph_reach [(''i'', [''a'', ''b'', ''c''])] sample_pages"
    using eph_reach.finished [OF r0 _ _ fin] rows by (simp add: eph_begin_def has_capacity_def eph_initial_def max_sessions_def)
  have ses: "map_of (em_sessions sample_pages) ''i'' = Some \<lparr>es_id = ''i'', es_table = table_name ''i'', es_total = 3, es_expires = 5\<rparr>"
    by (simp add: sample_pages_def eph_finish_def eph_begin_def has_capacity_def eph_initial_def max_sessions_def max_rows_def max_bytes_def effective_ttl_def Let_def)
  obtain rows where rows2: "map_of [(''i'', [''a'', ''b'', ''c''])] ''i'' = Some rows"
    and pages: "\<forall>p < 2. paginate_session ''i'' (int p + 1) (int 2) 3 sample_pages = Inr (take 2 (drop (p * 2) rows), length rows)"
    using session_pages_partition_the_rows [OF r1 ses, of 3 2 2] by auto
  have "paginate_session ''i'' (int 1 + 1) (int 2) 3 sample_pages = Inr (take 2 (drop (1 * 2) rows), length rows)"
    using pages by (rule allE [of _ 1]) simp
  moreover have "rows = [''a'', ''b'', ''c'']" using rows2 by simp
  ultimately show ?thesis by simp
qed

text \<open>The bounds of a page wrap around: a huge page number shows the first page again.\<close>

lemma huge_pages_wrap: "page_bounds (2 ^ 62 + 1) 4 = page_bounds 1 4"
  by (simp add: page_bounds_def wrap64_def)

text \<open>When the table cannot be dropped, nothing remembers it.\<close>

lemma a_failed_drop_leaks_the_table:
  "em_tables (eph_cleanup False table (Some i) s) = em_tables s \<and> map_of (em_sessions (eph_cleanup False table (Some i) s)) i = None"
  by (simp add: eph_cleanup_def delete_conv')

end
