(* ===== verification/Repository.thy ===== *)
theory Repository
  imports Orm "HOL-Library.Multiset"
begin

text \<open>
  \<^verbatim>\<open>dbcore/repository.go\<close>: the generic repository over a table, with the cursor of \<^verbatim>\<open>database/sql\<close> it reads rows from.
  The row scanner is the one of \<^verbatim>\<open>Orm\<close>. A field that is not exported makes \<^verbatim>\<open>reflect\<close> panic where its value is read.
\<close>

section \<open>Rows of a query\<close>

text \<open>\<^verbatim>\<open>sql.Rows\<close>: there is a current row only after \<^verbatim>\<open>Next\<close>.\<close>

record cursor =
  cu_current :: "row option"
  cu_ahead :: "row list"

definition open_cursor :: "row list \<Rightarrow> cursor" where
  "open_cursor rows = \<lparr>cu_current = None, cu_ahead = rows\<rparr>"

definition cursor_next :: "cursor \<Rightarrow> bool \<times> cursor" where
  "cursor_next c = (case cu_ahead c of [] \<Rightarrow> (False, c\<lparr>cu_current := None\<rparr>) | r # rs \<Rightarrow> (True, \<lparr>cu_current = Some r, cu_ahead = rs\<rparr>))"

datatype repo_error =
    Scan_Without_Next | Repo_No_Rows | Repo_No_Fields | Repo_Statement_Failed | Repo_Panic

definition scan_current :: "orm_field list \<Rightarrow> string list \<Rightarrow> cursor \<Rightarrow> repo_error + entity" where
  "scan_current fs cols c = (case cu_current c of None \<Rightarrow> Inl Scan_Without_Next | Some r \<Rightarrow> Inr (scan_struct fs cols r))"

function scan_all :: "orm_field list \<Rightarrow> string list \<Rightarrow> cursor \<Rightarrow> repo_error + entity list" where
  "scan_all fs cols c =
     (case cursor_next c of
        (False, c) \<Rightarrow> Inr []
      | (True, c) \<Rightarrow> (case scan_current fs cols c of
          Inl e \<Rightarrow> Inl e
        | Inr x \<Rightarrow> (case scan_all fs cols c of Inl e \<Rightarrow> Inl e | Inr xs \<Rightarrow> Inr (x # xs))))"
  by pat_completeness auto
termination
  by (relation "measure (\<lambda>(fs, cols, c). length (cu_ahead c))") (auto simp: cursor_next_def split: list.splits)

declare scan_all.simps [simp del]

lemma scan_all_open: "scan_all fs cols \<lparr>cu_current = cur, cu_ahead = rows\<rparr> = Inr (map (scan_struct fs cols) rows)"
proof (induction rows arbitrary: cur)
  case Nil
  then show ?case by (simp add: scan_all.simps [of _ _ "\<lparr>cu_current = cur, cu_ahead = []\<rparr>"] cursor_next_def)
next
  case (Cons r rows)
  then show ?case by (simp add: scan_all.simps [of _ _ "\<lparr>cu_current = cur, cu_ahead = r # rows\<rparr>"] cursor_next_def scan_current_def)
qed

section \<open>Fields\<close>

text \<open>\<^verbatim>\<open>extractStructFields\<close> takes the whole tag as the name of the column. \<open>None\<close> is the panic.\<close>

definition repo_column :: "orm_field \<Rightarrow> string" where
  "repo_column f = (if of_db f = [] then to_lower (of_name f) else of_db f)"

definition extract_struct_fields :: "orm_field list \<Rightarrow> entity \<Rightarrow> bool \<Rightarrow> (string \<times> db_value) list option" where
  "extract_struct_fields fs e skip_id =
     (let taken = filter (\<lambda>(f, v). of_db f \<noteq> ''-'' \<and> \<not> (skip_id \<and> to_lower (repo_column f) = ''id'')) (zip fs e)
      in if list_all (\<lambda>(f, v). of_exported f) taken then Some (map (\<lambda>(f, v). (repo_column f, v)) taken) else None)"

definition fold_equal :: "string \<Rightarrow> string \<Rightarrow> bool" where
  "fold_equal s t \<longleftrightarrow> to_lower s = to_lower t"

definition extract_field_value :: "orm_field list \<Rightarrow> entity \<Rightarrow> string \<Rightarrow> db_value option" where
  "extract_field_value fs e name =
     map_option (\<lambda>i. e ! i) (index_where (\<lambda>f. fold_equal (of_db f) name \<or> fold_equal (of_name f) name) fs)"

section \<open>Operations\<close>

text \<open>The table has columns; a statement that names another one fails.\<close>

record repo_table =
  rt_columns :: "string list"
  rt_rows :: "row list"

text \<open>The callback of \<^verbatim>\<open>FindByID\<close> scans at once.\<close>

definition repo_find_by_id :: "table_env \<Rightarrow> orm_field list \<Rightarrow> db_value \<Rightarrow> repo_table \<Rightarrow> repo_error + entity" where
  "repo_find_by_id env fs v t =
     (let c = open_cursor (take 1 (select_rows env ''id'' v (rt_rows t))) in scan_current fs (rt_columns t) c)"

text \<open>\<open>condition\<close> is what the database makes of the clause and its arguments.\<close>

definition repo_find_all :: "(string \<Rightarrow> db_value list \<Rightarrow> row \<Rightarrow> bool) \<Rightarrow> orm_field list \<Rightarrow> string \<Rightarrow> db_value list \<Rightarrow> repo_table \<Rightarrow> repo_error + entity list" where
  "repo_find_all condition fs where_clause args t =
     scan_all fs (rt_columns t)
       (open_cursor (if trim_space where_clause \<noteq> [] then filter (condition where_clause args) (rt_rows t) else rt_rows t))"

definition repo_create :: "table_env \<Rightarrow> orm_field list \<Rightarrow> entity \<Rightarrow> repo_table \<Rightarrow> (repo_error + unit) \<times> repo_table" where
  "repo_create env fs e t =
     (case extract_struct_fields fs e True of
        None \<Rightarrow> (Inl Repo_Panic, t)
      | Some [] \<Rightarrow> (Inl Repo_No_Fields, t)
      | Some sets \<Rightarrow>
          if \<not> list_all (\<lambda>(c, v). c \<in> set (rt_columns t)) sets \<or> \<not> distinct (map fst sets) then (Inl Repo_Statement_Failed, t)
          else (Inr (), t\<lparr>rt_rows := rt_rows t @ [(''id'', te_fresh env (rt_rows t)) # sets]\<rparr>))"

definition repo_update :: "table_env \<Rightarrow> orm_field list \<Rightarrow> db_value \<Rightarrow> entity \<Rightarrow> repo_table \<Rightarrow> (repo_error + unit) \<times> repo_table" where
  "repo_update env fs v e t =
     (case extract_struct_fields fs e True of
        None \<Rightarrow> (Inl Repo_Panic, t)
      | Some [] \<Rightarrow> (Inl Repo_No_Fields, t)
      | Some sets \<Rightarrow>
          if \<not> list_all (\<lambda>(c, v). c \<in> set (rt_columns t)) sets \<or> \<not> distinct (map fst sets) then (Inl Repo_Statement_Failed, t)
          else (Inr (), t\<lparr>rt_rows := update_rows env sets ''id'' v (rt_rows t)\<rparr>))"

definition repo_delete :: "table_env \<Rightarrow> db_value \<Rightarrow> repo_table \<Rightarrow> repo_table" where
  "repo_delete env v t = t\<lparr>rt_rows := delete_rows env ''id'' v (rt_rows t)\<rparr>"

text \<open>\<^verbatim>\<open>Paginate\<close>, with the window of the mapper; a negative offset is an error of the database.\<close>

definition repo_paginate :: "orm_field list \<Rightarrow> int \<Rightarrow> int \<Rightarrow> repo_table \<Rightarrow> repo_error + entity list \<times> nat" where
  "repo_paginate fs page limit t =
     (case page_window page limit of
        (l, off) \<Rightarrow>
          if off < 0 then Inl Repo_Statement_Failed
          else (case scan_all fs (rt_columns t) (open_cursor (take (nat l) (drop (nat off) (rt_rows t)))) of
            Inl e \<Rightarrow> Inl e | Inr items \<Rightarrow> Inr (items, length (rt_rows t))))"

section \<open>Cursors\<close>

text \<open>Pages by a cursor on a column of integers. The cursor a page returns is a text; passed back, the database
  reads it as an integer again. \<open>show_value\<close> is the verb \<^verbatim>\<open>%v\<close> for the values that are not integers or texts.\<close>

definition value_text :: "(db_value \<Rightarrow> string) \<Rightarrow> db_value \<Rightarrow> string" where
  "value_text show_value v = (case v of D_Int n \<Rightarrow> itoa n | D_Text s \<Rightarrow> s | _ \<Rightarrow> show_value v)"

definition cursor_key :: "string \<Rightarrow> row \<Rightarrow> int" where
  "cursor_key c r = (case col_of r c of D_Int n \<Rightarrow> n | _ \<Rightarrow> 0)"

definition cursor_int :: "db_value \<Rightarrow> int option" where
  "cursor_int v = (case v of D_Int n \<Rightarrow> Some n | D_Text s \<Rightarrow> parse_int 64 s | _ \<Rightarrow> None)"

record cursor_page =
  cp_items :: "entity list"
  cp_next :: string
  cp_has_more :: bool
  cp_limit :: int

definition sql_limit :: "int \<Rightarrow> row list \<Rightarrow> row list" where
  "sql_limit n rows = (if n < 0 then rows else take (nat n) rows)"

definition cursor_reply :: "(db_value \<Rightarrow> string) \<Rightarrow> orm_field list \<Rightarrow> string \<Rightarrow> int \<Rightarrow> entity list \<Rightarrow> cursor_page" where
  "cursor_reply show_value fs column limit items =
     (let has_more = limit < int (length items);
          items = (if has_more then take (nat limit) items else items);
          nxt = (if items = [] then [] else (case extract_field_value fs (last items) column of
            None \<Rightarrow> [] | Some v \<Rightarrow> value_text show_value v))
      in \<lparr>cp_items = items, cp_next = nxt, cp_has_more = has_more, cp_limit = limit\<rparr>)"

definition cursor_active :: "(db_value \<Rightarrow> string) \<Rightarrow> db_value option \<Rightarrow> bool" where
  "cursor_active show_value cursor =
     (case cursor of None \<Rightarrow> False | Some v \<Rightarrow> value_text show_value v \<noteq> [] \<and> value_text show_value v \<noteq> ''0'')"

definition paginate_cursor ::
    "(db_value \<Rightarrow> string) \<Rightarrow> orm_field list \<Rightarrow> string \<Rightarrow> db_value option \<Rightarrow> int \<Rightarrow> repo_table \<Rightarrow> repo_error + cursor_page" where
  "paginate_cursor show_value fs column cursor limit t =
     (let column = (if column = [] then ''id'' else column);
          limit = (if limit < 1 then 20 else limit);
          fetch_limit = wrap64 (limit + 1);
          rows = sort_key (cursor_key column) (rt_rows t)
      in case (if cursor_active show_value cursor
               then map_option (\<lambda>n. filter (\<lambda>r. n < cursor_key column r) rows) (cursor_int (the cursor)) else Some rows) of
           None \<Rightarrow> Inl Repo_Statement_Failed
         | Some rows \<Rightarrow> (case scan_all fs (rt_columns t) (open_cursor (sql_limit fetch_limit rows)) of
             Inl e \<Rightarrow> Inl e
           | Inr items \<Rightarrow> Inr (cursor_reply show_value fs column limit items)))"

text \<open>A client that follows the cursors, for at most \<open>n\<close> pages.\<close>

fun follow_cursors :: "(db_value \<Rightarrow> string) \<Rightarrow> orm_field list \<Rightarrow> string \<Rightarrow> int \<Rightarrow> repo_table \<Rightarrow> nat \<Rightarrow> db_value option \<Rightarrow> repo_error + entity list" where
  "follow_cursors show_value fs column limit t 0 cursor = Inr []"
| "follow_cursors show_value fs column limit t (Suc n) cursor =
     (case paginate_cursor show_value fs column cursor limit t of
        Inl e \<Rightarrow> Inl e
      | Inr p \<Rightarrow>
          if cp_has_more p then
            (case follow_cursors show_value fs column limit t n (Some (D_Text (cp_next p))) of
               Inl e \<Rightarrow> Inl e | Inr rest \<Rightarrow> Inr (cp_items p @ rest))
          else Inr (cp_items p))"

section \<open>The single row is never found\<close>

theorem repository_never_finds_by_id:
  "repo_find_by_id env fs v t = Inl Scan_Without_Next"
  by (simp add: repo_find_by_id_def open_cursor_def scan_current_def Let_def)

section \<open>Following the cursors\<close>


lemma itoa_zero: "itoa 0 = ''0''"
  by code_simp








section \<open>Properties\<close>


definition sample_item_fields :: "orm_field list" where
  "sample_item_fields = [\<lparr>of_name = ''ID'', of_exported = True, of_db = ''id'', of_kind = K_Int64\<rparr>]"

definition sample_item_table :: "int list \<Rightarrow> repo_table" where
  "sample_item_table ns = \<lparr>rt_columns = [''id''], rt_rows = map (\<lambda>n. [(''id'', D_Int n)]) ns\<rparr>"

lemma sample_item_scan: "scan_struct sample_item_fields [''id''] [(''id'', D_Int n)] = [D_Int n]"
  by (simp add: scan_struct_def scan_one_def scan_map_def scan_column_def sample_item_fields_def col_of_def to_lower_def lower_char_def
      trim_space_def is_space_def)

lemma sample_column: "extract_field_value sample_item_fields [D_Int n] ''id'' = Some (D_Int n)"
  by (simp add: extract_field_value_def sample_item_fields_def fold_equal_def)


text \<open>The cursor \<^verbatim>\<open>0\<close> means the first page: a row with this value sends the client back to the beginning.\<close>

lemma a_zero_cursor_starts_again:
  "follow_cursors (\<lambda>v. []) sample_item_fields ''id'' 2 (sample_item_table [-1, 0, 1]) 3 None
     = Inr [[D_Int (-1)], [D_Int 0], [D_Int (-1)], [D_Int 0], [D_Int (-1)], [D_Int 0]]"
proof -
  let ?t = "sample_item_table [-1, 0, 1]"
  have key: "cursor_key ''id'' [(''id'', D_Int n)] = n" for n by (simp add: cursor_key_def col_of_def)
  have page: "paginate_cursor (\<lambda>v. []) sample_item_fields ''id'' cursor 2 ?t
      = Inr \<lparr>cp_items = [[D_Int (-1)], [D_Int 0]], cp_next = ''0'', cp_has_more = True, cp_limit = 2\<rparr>"
    if "\<not> cursor_active (\<lambda>v. []) cursor" for cursor
  proof -
    have rows: "sort_key (cursor_key ''id'') (rt_rows ?t) = map (\<lambda>n. [(''id'', D_Int n)]) [-1, 0, 1]" "rt_columns ?t = [''id'']"
      by (simp_all add: sample_item_table_def key)
    have lim: "wrap64 (2 + 1) = 3" "wrap64 3 = 3" "sql_limit 3 (map (\<lambda>n. [(''id'', D_Int n)]) [-1, 0, 1]) = map (\<lambda>n. [(''id'', D_Int n)]) [-1, 0, 1]"
      by (simp_all add: wrap64_def sql_limit_def)
    have items: "map (scan_struct sample_item_fields [''id'']) (map (\<lambda>n. [(''id'', D_Int n)]) [-1, 0, 1]) = [[D_Int (-1)], [D_Int 0], [D_Int 1]]"
      by (simp add: sample_item_scan)
    have reply: "cursor_reply (\<lambda>v. []) sample_item_fields ''id'' 2 [[D_Int (-1)], [D_Int 0], [D_Int 1]]
        = \<lparr>cp_items = [[D_Int (-1)], [D_Int 0]], cp_next = ''0'', cp_has_more = True, cp_limit = 2\<rparr>"
      by (simp add: cursor_reply_def sample_column value_text_def itoa_zero)
    show ?thesis
      unfolding paginate_cursor_def Let_def open_cursor_def using that
      by (simp only: list.distinct if_False rows lim scan_all_open items reply option.case sum.case)
        (use lim(2,3) items reply in simp)
  qed
  have start: "\<not> cursor_active (\<lambda>v. []) None" "\<not> cursor_active (\<lambda>v. []) (Some (D_Text ''0''))"
    by (simp_all add: cursor_active_def value_text_def)
  show ?thesis by (simp add: numeral_3_eq_3 page start)
qed

text \<open>A tag with options names a column the table does not have, although the scanner reads the first part only.\<close>

lemma tag_options_break_inserts:
  "fst (repo_create env [\<lparr>of_name = ''Name'', of_exported = True, of_db = ''name,omitempty'', of_kind = K_String\<rparr>] [D_Text ''x'']
      \<lparr>rt_columns = [''id'', ''name''], rt_rows = []\<rparr>) = Inl Repo_Statement_Failed"
  by (simp add: repo_create_def extract_struct_fields_def repo_column_def to_lower_def lower_char_def byte_in_def)

end
