(* ===== verification/I18n.thy ===== *)
theory I18n
  imports Go_Strconv Go_Maps "HOL-Library.Word"
begin

text \<open>
  \<^verbatim>\<open>i18n/\<close>: the registry of languages and messages, negotiation, and the formats of numbers, amounts, dates and times.
  Tags, matching, plural rules and the printing of numbers belong to \<^verbatim>\<open>golang.org/x/text\<close> and are parameters.
\<close>

section \<open>The language library\<close>

record 't language_lib =
  ll_parse :: "string \<Rightarrow> 't option"
  ll_accept :: "string \<Rightarrow> 't list option"            \<comment> \<open>\<^verbatim>\<open>ParseAcceptLanguage\<close>\<close>
  ll_und :: "'t \<Rightarrow> bool"
  ll_english :: 't
  ll_text :: "'t \<Rightarrow> string"
  ll_base :: "'t \<Rightarrow> string"
  ll_region :: "'t \<Rightarrow> string"
  ll_match :: "'t list \<Rightarrow> 't list \<Rightarrow> nat"           \<comment> \<open>the index among the supported tags\<close>

datatype direction = Left_To_Right | Right_To_Left

record language_locale =
  lo_tag :: string
  lo_language :: string
  lo_region :: string
  lo_direction :: direction

definition direction_for :: "string \<Rightarrow> direction" where
  "direction_for base =
     (if base \<in> {''ar'', ''dv'', ''fa'', ''he'', ''ku'', ''ps'', ''sd'', ''ug'', ''ur'', ''yi''} then Right_To_Left else Left_To_Right)"

definition locale_from_tag :: "'t language_lib \<Rightarrow> 't \<Rightarrow> language_locale" where
  "locale_from_tag l t = \<lparr>lo_tag = ll_text l t, lo_language = ll_base l t, lo_region = ll_region l t, lo_direction = direction_for (ll_base l t)\<rparr>"

definition parse_tag :: "'t language_lib \<Rightarrow> string \<Rightarrow> 't option" where
  "parse_tag l raw =
     (let raw = trim_space raw
      in if raw = [] \<or> CHR ''_'' \<in> set raw then None
         else case ll_parse l raw of None \<Rightarrow> None | Some t \<Rightarrow> if ll_und l t then None else Some t)"

section \<open>The registry\<close>

record date_time_profile =
  dp_months :: "string list"
  dp_short_months :: "string list"
  dp_weekdays :: "string list"
  dp_short_order :: string
  dp_day_first :: bool
  dp_twenty_four :: bool
  dp_joiner :: string

record plural_forms =
  pf_zero :: string
  pf_one :: string
  pf_two :: string
  pf_few :: string
  pf_many :: string
  pf_other :: string

datatype plural_form = Form_Zero | Form_One | Form_Two | Form_Few | Form_Many | Form_Other

definition plural_cases :: "plural_forms \<Rightarrow> (plural_form \<times> string) list" where
  "plural_cases f = filter (\<lambda>(form, v). v \<noteq> [])
     [(Form_Zero, pf_zero f), (Form_One, pf_one f), (Form_Two, pf_two f), (Form_Few, pf_few f), (Form_Many, pf_many f), (Form_Other, pf_other f)]"

datatype catalog_message = Text_Message string | Plural_Message "(plural_form \<times> string) list"

record 't lang_bundle =
  bu_default :: 't
  bu_supported :: "'t list"
  bu_catalog :: "((string \<times> string) \<times> catalog_message) list"
  bu_keys :: "(string \<times> string list) list"
  bu_profiles :: "(string \<times> date_time_profile) list"

datatype i18n_error =
    Invalid_Language | Missing_Plural | Invalid_Plural
  | Invalid_Currency | Invalid_Number_Options | Unsupported_Number | Invalid_Style | Invalid_Profile | Invalid_Zone string
  | Nil_Map_Panic

definition add_language :: "'t language_lib \<Rightarrow> 't \<Rightarrow> 't lang_bundle \<Rightarrow> 't lang_bundle" where
  "add_language l t b =
     (if list_ex (\<lambda>s. ll_text l s = ll_text l t) (bu_supported b) then b
      else b\<lparr>bu_supported := bu_supported b @ [t],
             bu_keys := (if map_of (bu_keys b) (ll_text l t) = None then AList.update (ll_text l t) [] (bu_keys b) else bu_keys b)\<rparr>)"

text \<open>A write into the map of a language that has none panics.\<close>

definition mark_key :: "'t language_lib \<Rightarrow> 't \<Rightarrow> string \<Rightarrow> 't lang_bundle \<Rightarrow> 't lang_bundle option" where
  "mark_key l t key b =
     (case map_of (bu_keys b) (ll_text l t) of
        None \<Rightarrow> None
      | Some ks \<Rightarrow> Some (b\<lparr>bu_keys := AList.update (ll_text l t) (if key \<in> set ks then ks else key # ks) (bu_keys b)\<rparr>))"

fun set_messages :: "'t language_lib \<Rightarrow> 't \<Rightarrow> (string \<times> string) list \<Rightarrow> 't lang_bundle \<Rightarrow> 't lang_bundle option" where
  "set_messages l t [] b = Some b"
| "set_messages l t ((key, text) # ms) b =
     (case mark_key l t key (b\<lparr>bu_catalog := AList.update (ll_text l t, key) (Text_Message text) (bu_catalog b)\<rparr>) of
        None \<Rightarrow> None
      | Some b \<Rightarrow> set_messages l t ms b)"

definition add_messages :: "'t language_lib \<Rightarrow> string \<Rightarrow> (string \<times> string) list \<Rightarrow> 't lang_bundle \<Rightarrow> i18n_error option \<times> 't lang_bundle" where
  "add_messages l raw ms b =
     (case parse_tag l raw of
        None \<Rightarrow> (Some Invalid_Language, b)
      | Some t \<Rightarrow> (case set_messages l t ms (add_language l t b) of
          None \<Rightarrow> (Some Nil_Map_Panic, b) | Some b \<Rightarrow> (None, b)))"

text \<open>\<open>plural_ok\<close>: does the catalog accept the forms for the language?\<close>

definition add_plural :: "'t language_lib \<Rightarrow> ('t \<Rightarrow> (plural_form \<times> string) list \<Rightarrow> bool) \<Rightarrow> string \<Rightarrow> string \<Rightarrow> plural_forms \<Rightarrow> 't lang_bundle \<Rightarrow> i18n_error option \<times> 't lang_bundle" where
  "add_plural l plural_ok raw key forms b =
     (if pf_other forms = [] then (Some Missing_Plural, b)
      else case parse_tag l raw of
        None \<Rightarrow> (Some Invalid_Language, b)
      | Some t \<Rightarrow>
          (let b = add_language l t b
           in if \<not> plural_ok t (plural_cases forms) then (Some Invalid_Plural, b)
              else case mark_key l t key (b\<lparr>bu_catalog := AList.update (ll_text l t, key) (Plural_Message (plural_cases forms)) (bu_catalog b)\<rparr>) of
                None \<Rightarrow> (Some Nil_Map_Panic, b) | Some b \<Rightarrow> (None, b)))"

section \<open>Negotiation\<close>

definition match_tags :: "'t language_lib \<Rightarrow> 't lang_bundle \<Rightarrow> 't list \<Rightarrow> language_locale" where
  "match_tags l b tags =
     locale_from_tag l (if tags \<noteq> [] then bu_supported b ! ll_match l (bu_supported b) tags else bu_default b)"

definition resolve_locale :: "'t language_lib \<Rightarrow> 't lang_bundle \<Rightarrow> string list \<Rightarrow> language_locale" where
  "resolve_locale l b preferred = match_tags l b (List.map_filter (\<lambda>raw. ll_parse l (trim_space raw)) preferred)"

definition resolve_header :: "'t language_lib \<Rightarrow> 't lang_bundle \<Rightarrow> string \<Rightarrow> language_locale" where
  "resolve_header l b header = match_tags l b (case ll_accept l header of None \<Rightarrow> [] | Some tags \<Rightarrow> tags)"

definition supported_locales :: "'t language_lib \<Rightarrow> 't lang_bundle \<Rightarrow> language_locale list" where
  "supported_locales l b = map (locale_from_tag l) (bu_supported b)"

definition has_key :: "'t language_lib \<Rightarrow> 't lang_bundle \<Rightarrow> 't \<Rightarrow> string \<Rightarrow> bool" where
  "has_key l b t key \<longleftrightarrow> (case map_of (bu_keys b) (ll_text l t) of None \<Rightarrow> False | Some ks \<Rightarrow> key \<in> set ks)"

definition resolve_tag :: "'t language_lib \<Rightarrow> 't lang_bundle \<Rightarrow> string \<Rightarrow> 't" where
  "resolve_tag l b raw =
     (case ll_parse l raw of None \<Rightarrow> bu_default b | Some t \<Rightarrow> bu_supported b ! ll_match l (bu_supported b) [t])"

text \<open>The printer of the library gets the tag \<^verbatim>\<open>Translate\<close> decides on.\<close>

definition translate :: "'t language_lib \<Rightarrow> ('t \<Rightarrow> string \<Rightarrow> 'a list \<Rightarrow> string) \<Rightarrow> 't lang_bundle \<Rightarrow> string \<Rightarrow> string \<Rightarrow> 'a list \<Rightarrow> string" where
  "translate l print b lang key args =
     (let resolved = resolve_tag l b lang
      in print (if has_key l b resolved key then resolved else bu_default b) key args)"

definition add_vary :: "string \<Rightarrow> string list \<Rightarrow> string list" where
  "add_vary v vary =
     (if list_ex (\<lambda>existing. list_ex (\<lambda>item. to_lower (trim_space item) = to_lower v) (split_byte CHR '','' existing)) vary
      then vary else vary @ [v])"

record i18n_response =
  ir_language :: string
  ir_vary :: "string list"

definition i18n_middleware :: "'t language_lib \<Rightarrow> 't lang_bundle \<Rightarrow> string \<Rightarrow> string \<Rightarrow> string list \<Rightarrow> language_locale \<times> i18n_response" where
  "i18n_middleware l b lang_param accept vary =
     (let chosen = (if lang_param \<noteq> [] then resolve_locale l b [lang_param] else resolve_header l b accept)
      in (chosen, \<lparr>ir_language = lo_tag chosen, ir_vary = add_vary ''Accept-Language'' vary\<rparr>))"

section \<open>Numbers and amounts\<close>

record number_options =
  no_min :: int
  no_max :: int
  no_disable_grouping :: bool
  no_integer :: bool

text \<open>What the options of the library become: the least and the most fraction digits, and grouping.\<close>

definition number_options_of :: "number_options \<Rightarrow> i18n_error + int \<times> int \<times> bool" where
  "number_options_of g =
     (if no_integer g \<and> (no_min g \<noteq> 0 \<or> no_max g \<noteq> 0) then Inl Invalid_Number_Options
      else let most = (if \<not> no_integer g \<and> no_max g = 0 then 3 else no_max g)
           in if no_min g < 0 \<or> most < 0 \<or> 18 < most \<or> most < no_min g then Inl Invalid_Number_Options
              else Inr (no_min g, most, \<not> no_disable_grouping g))"

text \<open>The values \<^verbatim>\<open>reflect\<close> tells apart.\<close>

datatype 'f i18n_number = Signed_Number int | Unsigned_Number nat | Float_Number 'f | Other_Value | Nil_Value

definition normalize_number :: "'f i18n_number \<Rightarrow> i18n_error + 'f i18n_number" where
  "normalize_number v = (case v of Other_Value \<Rightarrow> Inl Unsupported_Number | Nil_Value \<Rightarrow> Inl Unsupported_Number | _ \<Rightarrow> Inr v)"

definition format_number ::
    "'t language_lib \<Rightarrow> ('t \<Rightarrow> int \<times> int \<times> bool \<Rightarrow> 'f i18n_number \<Rightarrow> string) \<Rightarrow> 'f i18n_number \<Rightarrow> string \<Rightarrow> number_options \<Rightarrow> i18n_error + string" where
  "format_number l print v raw g =
     (case normalize_number v of
        Inl e \<Rightarrow> Inl e
      | Inr v \<Rightarrow> (case parse_tag l raw of
          None \<Rightarrow> Inl Invalid_Language
        | Some t \<Rightarrow> (case number_options_of g of Inl e \<Rightarrow> Inl e | Inr opts \<Rightarrow> Inr (print t opts v))))"

text \<open>Amounts: 64-bit arithmetic on the absolute value of the minor units.\<close>

definition abs_units :: "int \<Rightarrow> 64 word" where
  "abs_units v = (if v < 0 then word_of_int (wrap64 (- wrap64 (v + 1))) + 1 else word_of_int v)"

definition power_of_ten :: "nat \<Rightarrow> 64 word" where
  "power_of_ten scale = ((\<lambda>p. p * 10) ^^ scale) 1"

definition split_minor_units :: "int \<Rightarrow> nat \<Rightarrow> 64 word \<times> 64 word" where
  "split_minor_units v scale = (abs_units v div power_of_ten scale, abs_units v mod power_of_ten scale)"

definition place_currency :: "string \<Rightarrow> string \<Rightarrow> string \<Rightarrow> string" where
  "place_currency base symbol amount =
     (if base \<in> {''ca'', ''da'', ''de'', ''es'', ''fi'', ''fr'', ''it'', ''nl'', ''no'', ''pl'', ''pt'', ''ru'', ''sv''}
      then amount @ [CHR 0xC2, CHR 0xA0] @ symbol else symbol @ amount)"

text \<open>The rest of the text of 1.1 after its leading digits begins with the separator.\<close>

definition decimal_separator :: "(nat \<Rightarrow> bool) \<Rightarrow> nat list \<Rightarrow> nat option" where
  "decimal_separator is_digit_rune sample = (case dropWhile is_digit_rune sample of [] \<Rightarrow> None | r # _ \<Rightarrow> Some r)"

record money_lib =
  mm_currency :: "string \<Rightarrow> (string \<times> nat) option"        \<comment> \<open>\<^verbatim>\<open>ParseISO\<close>: a unit and its scale\<close>
  mm_symbol :: "string \<Rightarrow> string \<Rightarrow> string"
  mm_integer :: "string \<Rightarrow> nat \<Rightarrow> string"
  mm_padded :: "string \<Rightarrow> nat \<Rightarrow> nat \<Rightarrow> string"          \<comment> \<open>exactly so many integer digits, no separator\<close>
  mm_separator :: "string \<Rightarrow> string"

definition format_money :: "'t language_lib \<Rightarrow> money_lib \<Rightarrow> int \<Rightarrow> string \<Rightarrow> string \<Rightarrow> i18n_error + string" where
  "format_money l m units currency raw =
     (case parse_tag l raw of
        None \<Rightarrow> Inl Invalid_Language
      | Some t \<Rightarrow> (case mm_currency m (to_upper (trim_space currency)) of
          None \<Rightarrow> Inl Invalid_Currency
        | Some (unit, scale) \<Rightarrow>
            (let tag = ll_text l t; (major, fraction) = split_minor_units units scale;
                 number = mm_integer m tag (unat major);
                 number = (if 0 < scale then number @ mm_separator m tag @ mm_padded m tag scale (unat fraction) else number);
                 formatted = place_currency (ll_base l t) (mm_symbol m tag unit) number
             in Inr (if units < 0 then ''-'' @ formatted else formatted))))"

section \<open>Dates and times\<close>

datatype style = Style_Unset | Style_Short | Style_Medium | Style_Long | Style_Full | Style_Other string

definition normalize_style :: "style \<Rightarrow> style" where
  "normalize_style s = (if s = Style_Unset then Style_Medium else s)"

record clock =
  ck_year :: int
  ck_month :: nat          \<comment> \<open>1 to 12\<close>
  ck_day :: nat
  ck_weekday :: nat        \<comment> \<open>0 is Sunday\<close>
  ck_hour :: nat
  ck_minute :: nat
  ck_second :: nat
  ck_zone :: string

fun order_distinct :: "string \<Rightarrow> char set \<Rightarrow> bool" where
  "order_distinct [] seen = True"
| "order_distinct (c # cs) seen = ((c = CHR ''D'' \<or> c = CHR ''M'' \<or> c = CHR ''Y'') \<and> c \<notin> seen \<and> order_distinct cs (insert c seen))"

text \<open>The arrays of Go have 12 and 7 elements.\<close>

definition validate_profile :: "date_time_profile \<Rightarrow> bool" where
  "validate_profile p \<longleftrightarrow>
     dp_short_order p \<noteq> [] \<and> dp_joiner p \<noteq> [] \<and> order_distinct (dp_short_order p) {} \<and> card (set (dp_short_order p)) = 3
     \<and> (\<forall>i < 12. dp_months p ! i \<noteq> [] \<and> dp_short_months p ! i \<noteq> []) \<and> list_all (\<lambda>d. d \<noteq> []) (dp_weekdays p)"

definition register_profile :: "'t language_lib \<Rightarrow> string \<Rightarrow> date_time_profile \<Rightarrow> 't lang_bundle \<Rightarrow> i18n_error option \<times> 't lang_bundle" where
  "register_profile l raw p b =
     (case parse_tag l raw of
        None \<Rightarrow> (Some Invalid_Language, b)
      | Some t \<Rightarrow> if \<not> validate_profile p then (Some Invalid_Profile, b)
                  else (None, b\<lparr>bu_profiles := AList.update (ll_text l t) p (bu_profiles b)\<rparr>))"

text \<open>A missing entry of a Go map is a zero value; that the entry of English is there is proved below.\<close>

definition empty_profile :: date_time_profile where
  "empty_profile = \<lparr>dp_months = replicate 12 [], dp_short_months = replicate 12 [], dp_weekdays = replicate 7 [],
     dp_short_order = [], dp_day_first = False, dp_twenty_four = False, dp_joiner = []\<rparr>"

definition date_profile :: "'t language_lib \<Rightarrow> 't lang_bundle \<Rightarrow> string \<Rightarrow> 't \<times> date_time_profile" where
  "date_profile l b raw =
     (let t = (case parse_tag l raw of None \<Rightarrow> bu_default b | Some t \<Rightarrow> t)
      in (t, case map_of (bu_profiles b) (ll_text l t) of
               Some p \<Rightarrow> p
             | None \<Rightarrow> (case map_of (bu_profiles b) (ll_base l t) of
                 Some p \<Rightarrow> p
               | None \<Rightarrow> (case map_of (bu_profiles b) ''en'' of Some p \<Rightarrow> p | None \<Rightarrow> empty_profile))))"

text \<open>\<open>num t k n\<close> prints \<open>n\<close> with at least \<open>k\<close> digits and no separator.\<close>

definition short_date :: "('t \<Rightarrow> nat \<Rightarrow> int \<Rightarrow> string) \<Rightarrow> 't \<Rightarrow> date_time_profile \<Rightarrow> clock \<Rightarrow> string" where
  "short_date num t p c =
     join_with ''/'' (map (\<lambda>f. if f = CHR ''D'' then num t 2 (int (ck_day c)) else if f = CHR ''M'' then num t 2 (int (ck_month c))
       else if f = CHR ''Y'' then num t 4 (ck_year c) else []) (dp_short_order p))"

definition written_date :: "bool \<Rightarrow> string \<Rightarrow> string \<Rightarrow> string \<Rightarrow> string" where
  "written_date day_first day month year = (if day_first then day @ '' '' @ month @ '' '' @ year else month @ '' '' @ day @ '', '' @ year)"

definition format_date :: "('t \<Rightarrow> nat \<Rightarrow> int \<Rightarrow> string) \<Rightarrow> 't \<Rightarrow> date_time_profile \<Rightarrow> style \<Rightarrow> clock \<Rightarrow> i18n_error + string" where
  "format_date num t p style c =
     (let day = num t 1 (int (ck_day c)); year = num t 1 (ck_year c); i = ck_month c - 1;
          long = written_date (dp_day_first p) day (dp_months p ! i) year
      in case style of
           Style_Short \<Rightarrow> Inr (short_date num t p c)
         | Style_Medium \<Rightarrow> Inr (written_date (dp_day_first p) day (dp_short_months p ! i) year)
         | Style_Long \<Rightarrow> Inr long
         | Style_Full \<Rightarrow> Inr (dp_weekdays p ! ck_weekday c @ '', '' @ long)
         | _ \<Rightarrow> Inl Invalid_Style)"

definition twelve_hour :: "nat \<Rightarrow> nat \<times> string" where
  "twelve_hour hour = (let suffix = (if 12 \<le> hour then '' PM'' else '' AM''); hour = hour mod 12 in (if hour = 0 then 12 else hour, suffix))"

definition format_time :: "('t \<Rightarrow> nat \<Rightarrow> int \<Rightarrow> string) \<Rightarrow> 't \<Rightarrow> date_time_profile \<Rightarrow> style \<Rightarrow> clock \<Rightarrow> i18n_error + string" where
  "format_time num t p style c =
     (if style \<notin> {Style_Short, Style_Medium, Style_Long, Style_Full} then Inl Invalid_Style
      else let (hour, suffix) = (if dp_twenty_four p then (ck_hour c, []) else twelve_hour (ck_hour c));
               formatted = num t (if dp_twenty_four p then 2 else 1) (int hour) @ '':'' @ num t 2 (int (ck_minute c));
               formatted = (if style \<noteq> Style_Short then formatted @ '':'' @ num t 2 (int (ck_second c)) else formatted) @ suffix
           in Inr (if style = Style_Long \<or> style = Style_Full then formatted @ '' '' @ ck_zone c else formatted))"

text \<open>\<open>in_zone\<close> converts the time into a zone by name; no name keeps it.\<close>

definition in_location :: "(string \<Rightarrow> 'time \<Rightarrow> string + clock) \<Rightarrow> ('time \<Rightarrow> clock) \<Rightarrow> string \<Rightarrow> 'time \<Rightarrow> i18n_error + clock" where
  "in_location in_zone here zone v =
     (if trim_space zone = [] then Inr (here v) else case in_zone zone v of Inl e \<Rightarrow> Inl (Invalid_Zone e) | Inr c \<Rightarrow> Inr c)"

definition bundle_format_date ::
    "'t language_lib \<Rightarrow> ('t \<Rightarrow> nat \<Rightarrow> int \<Rightarrow> string) \<Rightarrow> (string \<Rightarrow> 'time \<Rightarrow> string + clock) \<Rightarrow> ('time \<Rightarrow> clock) \<Rightarrow> 't lang_bundle
       \<Rightarrow> 'time \<Rightarrow> string \<Rightarrow> string \<Rightarrow> style \<Rightarrow> i18n_error + string" where
  "bundle_format_date l num in_zone here b v raw zone style =
     (case date_profile l b raw of
        (t, p) \<Rightarrow> (case in_location in_zone here zone v of Inl e \<Rightarrow> Inl e | Inr c \<Rightarrow> format_date num t p (normalize_style style) c))"

definition bundle_format_time ::
    "'t language_lib \<Rightarrow> ('t \<Rightarrow> nat \<Rightarrow> int \<Rightarrow> string) \<Rightarrow> (string \<Rightarrow> 'time \<Rightarrow> string + clock) \<Rightarrow> ('time \<Rightarrow> clock) \<Rightarrow> 't lang_bundle
       \<Rightarrow> 'time \<Rightarrow> string \<Rightarrow> string \<Rightarrow> style \<Rightarrow> i18n_error + string" where
  "bundle_format_time l num in_zone here b v raw zone style =
     (case date_profile l b raw of
        (t, p) \<Rightarrow> (case in_location in_zone here zone v of Inl e \<Rightarrow> Inl e | Inr c \<Rightarrow> format_time num t p (normalize_style style) c))"

definition bundle_format_date_time ::
    "'t language_lib \<Rightarrow> ('t \<Rightarrow> nat \<Rightarrow> int \<Rightarrow> string) \<Rightarrow> (string \<Rightarrow> 'time \<Rightarrow> string + clock) \<Rightarrow> ('time \<Rightarrow> clock) \<Rightarrow> 't lang_bundle
       \<Rightarrow> 'time \<Rightarrow> string \<Rightarrow> string \<Rightarrow> style \<Rightarrow> style \<Rightarrow> i18n_error + string" where
  "bundle_format_date_time l num in_zone here b v raw zone ds ts =
     (case bundle_format_date l num in_zone here b v raw zone ds of
        Inl e \<Rightarrow> Inl e
      | Inr date \<Rightarrow> (case bundle_format_time l num in_zone here b v raw zone ts of
          Inl e \<Rightarrow> Inl e
        | Inr clock_text \<Rightarrow> Inr (date @ dp_joiner (snd (date_profile l b raw)) @ clock_text)))"

section \<open>The bundle a program starts with\<close>

text \<open>Accents as UTF-8 bytes.\<close>

abbreviation e_acute :: string where "e_acute \<equiv> [CHR 0xC3, CHR 0xA9]"
abbreviation a_acute :: string where "a_acute \<equiv> [CHR 0xC3, CHR 0xA1]"
abbreviation u_circ :: string where "u_circ \<equiv> [CHR 0xC3, CHR 0xBB]"
abbreviation a_grave :: string where "a_grave \<equiv> [CHR 0xC3, CHR 0xA0]"

definition profile_en :: date_time_profile where
  "profile_en =
     \<lparr>dp_months = [''January'', ''February'', ''March'', ''April'', ''May'', ''June'', ''July'', ''August'', ''September'', ''October'', ''November'', ''December''],
      dp_short_months = [''Jan'', ''Feb'', ''Mar'', ''Apr'', ''May'', ''Jun'', ''Jul'', ''Aug'', ''Sep'', ''Oct'', ''Nov'', ''Dec''],
      dp_weekdays = [''Sunday'', ''Monday'', ''Tuesday'', ''Wednesday'', ''Thursday'', ''Friday'', ''Saturday''],
      dp_short_order = ''MDY'', dp_day_first = False, dp_twenty_four = False, dp_joiner = '', ''\<rparr>"

definition profile_es :: date_time_profile where
  "profile_es =
     \<lparr>dp_months = [''enero'', ''febrero'', ''marzo'', ''abril'', ''mayo'', ''junio'', ''julio'', ''agosto'', ''septiembre'', ''octubre'', ''noviembre'', ''diciembre''],
      dp_short_months = [''ene'', ''feb'', ''mar'', ''abr'', ''may'', ''jun'', ''jul'', ''ago'', ''sept'', ''oct'', ''nov'', ''dic''],
      dp_weekdays = [''domingo'', ''lunes'', ''martes'', ''mi'' @ e_acute @ ''rcoles'', ''jueves'', ''viernes'', ''s'' @ a_acute @ ''bado''],
      dp_short_order = ''DMY'', dp_day_first = True, dp_twenty_four = True, dp_joiner = '', ''\<rparr>"

definition profile_fr :: date_time_profile where
  "profile_fr =
     \<lparr>dp_months = [''janvier'', ''f'' @ e_acute @ ''vrier'', ''mars'', ''avril'', ''mai'', ''juin'', ''juillet'', ''ao'' @ u_circ @ ''t'', ''septembre'', ''octobre'', ''novembre'', ''d'' @ e_acute @ ''cembre''],
      dp_short_months = [''janv.'', ''f'' @ e_acute @ ''vr.'', ''mars'', ''avr.'', ''mai'', ''juin'', ''juil.'', ''ao'' @ u_circ @ ''t'', ''sept.'', ''oct.'', ''nov.'', ''d'' @ e_acute @ ''c.''],
      dp_weekdays = [''dimanche'', ''lundi'', ''mardi'', ''mercredi'', ''jeudi'', ''vendredi'', ''samedi''],
      dp_short_order = ''DMY'', dp_day_first = True, dp_twenty_four = True, dp_joiner = '' '' @ a_grave @ '' ''\<rparr>"

definition builtin_profiles :: "(string \<times> date_time_profile) list" where
  "builtin_profiles =
     [(''en'', profile_en), (''en-GB'', profile_en\<lparr>dp_short_order := ''DMY'', dp_day_first := True, dp_twenty_four := True\<rparr>),
      (''es'', profile_es), (''fr'', profile_fr)]"

definition new_bundle :: "'t language_lib \<Rightarrow> string \<Rightarrow> 't lang_bundle" where
  "new_bundle l default_lang =
     (let t = (case ll_parse l default_lang of None \<Rightarrow> ll_english l | Some t \<Rightarrow> if ll_und l t then ll_english l else t);
          b = \<lparr>bu_default = t, bu_supported = [], bu_catalog = [], bu_keys = [], bu_profiles = builtin_profiles\<rparr>;
          b = add_language l t b;
          b = snd (add_messages l ''en'' [(''welcome'', ''Welcome to goplusplus Enterprise Platform!'')] b);
          b = snd (add_messages l ''es'' [(''welcome'', [CHR 0xC2, CHR 0xA1] @ ''Bienvenido a la plataforma empresarial goplusplus!'')] b)
      in snd (add_messages l ''fr'' [(''welcome'', ''Bienvenue sur la plateforme goplusplus Enterprise !'')] b))"

section \<open>The registry is well formed\<close>

definition bundle_ok :: "'t language_lib \<Rightarrow> 't lang_bundle \<Rightarrow> bool" where
  "bundle_ok l b \<longleftrightarrow> bu_default b \<in> set (bu_supported b) \<and> distinct (map (ll_text l) (bu_supported b))
     \<and> (\<forall>t \<in> set (bu_supported b). ll_text l t \<in> fst ` set (bu_keys b))
     \<and> ''en'' \<in> fst ` set (bu_profiles b) \<and> (\<forall>(k, p) \<in> set (bu_profiles b). validate_profile p)"

lemma add_language_ok: "bundle_ok l b \<Longrightarrow> bundle_ok l (add_language l t b)"
  by (auto simp: bundle_ok_def add_language_def list_ex_iff map_of_eq_None_iff dom_update)

lemma add_language_supports: "ll_text l t \<in> fst ` set (bu_keys (add_language l t b))" if "bundle_ok l b"
proof (cases "list_ex (\<lambda>s. ll_text l s = ll_text l t) (bu_supported b)")
  case True
  then obtain s where "s \<in> set (bu_supported b)" "ll_text l s = ll_text l t" by (auto simp: list_ex_iff)
  then show ?thesis using that True by (metis add_language_def bundle_ok_def)
next
  case False
  then show ?thesis by (auto simp: add_language_def dom_update map_of_eq_None_iff)
qed

lemma mark_key_ok:
  assumes "bundle_ok l b" "ll_text l t \<in> fst ` set (bu_keys b)"
  shows "\<exists>b'. mark_key l t key b = Some b' \<and> bundle_ok l b' \<and> fst ` set (bu_keys b') = fst ` set (bu_keys b)"
proof -
  obtain ks where ks: "map_of (bu_keys b) (ll_text l t) = Some ks"
    using assms(2) by (metis map_of_eq_None_iff not_None_eq)
  have "fst ` set (AList.update (ll_text l t) x (bu_keys b)) = fst ` set (bu_keys b)" for x
    using assms(2) by (auto simp: dom_update)
  then show ?thesis using assms ks by (auto simp: mark_key_def bundle_ok_def)
qed

lemma set_messages_ok:
  "bundle_ok l b \<Longrightarrow> ll_text l t \<in> fst ` set (bu_keys b) \<Longrightarrow> \<exists>b'. set_messages l t ms b = Some b' \<and> bundle_ok l b'"
proof (induction ms arbitrary: b)
  case (Cons m ms)
  obtain key msg where m: "m = (key, msg)" by (cases m)
  let ?b = "b\<lparr>bu_catalog := AList.update (ll_text l t, key) (Text_Message msg) (bu_catalog b)\<rparr>"
  have "bundle_ok l ?b" using Cons.prems(1) by (simp add: bundle_ok_def)
  then obtain b' where "mark_key l t key ?b = Some b'" "bundle_ok l b'" "fst ` set (bu_keys b') = fst ` set (bu_keys b)"
    using mark_key_ok [of l ?b t key] Cons.prems(2) by auto
  then show ?case using Cons m by auto
qed simp

lemma add_messages_ok: "bundle_ok l b \<Longrightarrow> bundle_ok l (snd (add_messages l raw ms b)) \<and> fst (add_messages l raw ms b) \<noteq> Some Nil_Map_Panic"
proof (cases "parse_tag l raw")
  case (Some t)
  assume ok: "bundle_ok l b"
  then obtain b' where "set_messages l t ms (add_language l t b) = Some b'" "bundle_ok l b'"
    using set_messages_ok add_language_ok add_language_supports by metis
  then show ?thesis using Some by (simp add: add_messages_def)
qed (simp add: add_messages_def)

lemma add_plural_ok: "bundle_ok l b \<Longrightarrow> bundle_ok l (snd (add_plural l pok raw key f b)) \<and> fst (add_plural l pok raw key f b) \<noteq> Some Nil_Map_Panic"
proof (cases "pf_other f = [] \<or> parse_tag l raw = None")
  case False
  assume ok: "bundle_ok l b"
  obtain t where t: "parse_tag l raw = Some t" "pf_other f \<noteq> []" using False by auto
  let ?b = "add_language l t b"
  let ?c = "?b\<lparr>bu_catalog := AList.update (ll_text l t, key) (Plural_Message (plural_cases f)) (bu_catalog ?b)\<rparr>"
  have "bundle_ok l ?c" using add_language_ok [OF ok] by (simp add: bundle_ok_def)
  then obtain b' where "mark_key l t key ?c = Some b'" "bundle_ok l b'"
    using mark_key_ok [of l ?c t key] add_language_supports [OF ok] by auto
  then show ?thesis using t add_language_ok [OF ok] by (simp add: add_plural_def Let_def)
qed (auto simp: add_plural_def split: option.splits)

lemma register_profile_ok: "bundle_ok l b \<Longrightarrow> bundle_ok l (snd (register_profile l raw p b))"
  by (auto simp: register_profile_def bundle_ok_def dom_update dest!: set_alist_update split: option.splits)

lemma builtin_profiles_valid: "\<forall>(k, p) \<in> set builtin_profiles. validate_profile p"
  by code_simp

lemma new_bundle_ok: "bundle_ok l (new_bundle l d)"
proof -
  have "bundle_ok l (add_language l t \<lparr>bu_default = t, bu_supported = [], bu_catalog = [], bu_keys = [], bu_profiles = builtin_profiles\<rparr>)" for t
    using builtin_profiles_valid by (simp add: add_language_def bundle_ok_def) (simp add: builtin_profiles_def)
  then show ?thesis unfolding new_bundle_def Let_def by (intro conjunct1 [OF add_messages_ok])
qed

text \<open>The bundles a program can build.\<close>

inductive bundle_reach :: "'t language_lib \<Rightarrow> ('t \<Rightarrow> (plural_form \<times> string) list \<Rightarrow> bool) \<Rightarrow> 't lang_bundle \<Rightarrow> bool" for l pok where
  created: "bundle_reach l pok (new_bundle l d)"
| messages: "bundle_reach l pok b \<Longrightarrow> bundle_reach l pok (snd (add_messages l raw ms b))"
| plural: "bundle_reach l pok b \<Longrightarrow> bundle_reach l pok (snd (add_plural l pok raw key f b))"
| profile: "bundle_reach l pok b \<Longrightarrow> bundle_reach l pok (snd (register_profile l raw p b))"

lemma bundle_reach_ok: "bundle_reach l pok b \<Longrightarrow> bundle_ok l b"
  by (induction rule: bundle_reach.induct) (simp_all add: new_bundle_ok add_messages_ok add_plural_ok register_profile_ok)

lemma match_tags_supported:
  assumes "bundle_ok l b" "\<And>tags. ll_match l (bu_supported b) tags < length (bu_supported b)"
  shows "match_tags l b tags \<in> set (supported_locales l b)"
  using assms by (auto simp: match_tags_def supported_locales_def bundle_ok_def)

lemma date_profile_valid:
  assumes "bundle_ok l b"
  shows "validate_profile (snd (date_profile l b raw))"
proof -
  have valid: "validate_profile p" if "map_of (bu_profiles b) k = Some p" for k p
    using assms map_of_SomeD [OF that] by (auto simp: bundle_ok_def)
  have "map_of (bu_profiles b) ''en'' \<noteq> None" using assms by (simp add: bundle_ok_def map_of_eq_None_iff)
  then show ?thesis using valid by (auto simp: date_profile_def Let_def split: option.split)
qed

lemma add_vary_adds: "list_ex (\<lambda>existing. list_ex (\<lambda>item. to_lower (trim_space item) = to_lower v) (split_byte CHR '','' existing)) (add_vary v vary)"
  if "split_byte CHR '','' v = [v]" "trim_space v = v"
  using that by (auto simp: add_vary_def)

lemma add_vary_idem: "split_byte CHR '','' v = [v] \<Longrightarrow> trim_space v = v \<Longrightarrow> add_vary v (add_vary v vary) = add_vary v vary"
  using add_vary_adds [of v vary] by (simp add: add_vary_def [of v "add_vary v vary"])

section \<open>Amounts\<close>

lemma power_of_ten_unat: "scale \<le> 19 \<Longrightarrow> unat (power_of_ten scale) = 10 ^ scale"
proof -
  have word: "power_of_ten scale = of_nat (10 ^ scale)" for scale by (induction scale) (simp_all add: power_of_ten_def mult.commute)
  assume "scale \<le> 19"
  then have "(10 :: nat) ^ scale \<le> 10 ^ 19" by (intro power_increasing) simp_all
  then have "(10 :: nat) ^ scale < 2 ^ 64" by (rule le_less_trans) simp
  then show ?thesis unfolding word unat_of_nat by simp
qed

lemma abs_units_unat:
  assumes "int64 v"
  shows "unat (abs_units v) = nat \<bar>v\<bar>"
proof (cases "v < 0")
  case True
  have w: "wrap64 (v + 1) = v + 1" "wrap64 (- (v + 1)) = - (v + 1)"
    using assms True by (auto intro!: wrap64_id simp: int64_def)
  have "abs_units v = word_of_int (- v)"
  proof -
    have "word_of_int a + 1 = (word_of_int (a + 1) :: 64 word)" for a by simp
    from this [of "- (v + 1)"] show ?thesis using True by (simp only: abs_units_def w if_True) simp
  qed
  moreover have "uint (word_of_int (- v) :: 64 word) = - v"
    using True assms unfolding int64_def by (subst uint_word_of_int, intro mod_pos_pos_trivial) simp_all
  ultimately show ?thesis using True by (simp add: unat_eq_nat_uint)
next
  case False
  have "uint (word_of_int v :: 64 word) = v"
    using False assms unfolding int64_def by (subst uint_word_of_int, intro mod_pos_pos_trivial) simp_all
  then show ?thesis using False by (simp only: unat_eq_nat_uint abs_units_def if_False)
qed

lemma split_minor_units_exact:
  assumes "int64 v" "scale \<le> 19" "split_minor_units v scale = (major, fraction)"
  shows "unat major * 10 ^ scale + unat fraction = nat \<bar>v\<bar>" "unat fraction < 10 ^ scale"
proof -
  have "major = abs_units v div power_of_ten scale" "fraction = abs_units v mod power_of_ten scale"
    using assms(3) by (simp_all add: split_minor_units_def)
  then have parts: "unat major = nat \<bar>v\<bar> div 10 ^ scale" "unat fraction = nat \<bar>v\<bar> mod 10 ^ scale"
    by (simp_all add: unat_div_distrib unat_mod_distrib abs_units_unat [OF assms(1)] power_of_ten_unat [OF assms(2)])
  show "unat major * 10 ^ scale + unat fraction = nat \<bar>v\<bar>" unfolding parts by (rule div_mult_mod_eq)
  show "unat fraction < 10 ^ scale" unfolding parts by simp
qed

section \<open>Times\<close>

lemma cut_unique: "a @ c # b = a' @ c # b' \<Longrightarrow> c \<notin> set a \<Longrightarrow> c \<notin> set a' \<Longrightarrow> a = a' \<and> b = b'"
  by (induction a arbitrary: a') (auto simp: Cons_eq_append_conv)

lemma twelve_hour_inj: "h < 24 \<Longrightarrow> h' < 24 \<Longrightarrow> twelve_hour h = twelve_hour h' \<Longrightarrow> h = h'"
proof -
  assume "h < 24" "h' < 24" and eq: "twelve_hour h = twelve_hour h'"
  have suffix: "12 \<le> h \<longleftrightarrow> 12 \<le> h'" using eq by (auto simp: twelve_hour_def Let_def split: if_splits)
  have "h mod 12 = h' mod 12" using eq by (auto simp: twelve_hour_def Let_def split: if_splits)
  moreover have "h = (if 12 \<le> h then 12 else 0) + h mod 12" "h' = (if 12 \<le> h' then 12 else 0) + h' mod 12"
    using \<open>h < 24\<close> \<open>h' < 24\<close> by presburger+
  ultimately show ?thesis using suffix by simp
qed

lemma twelve_hour_range: "1 \<le> fst (twelve_hour h) \<and> fst (twelve_hour h) \<le> 12"
  by (simp add: twelve_hour_def Let_def)

section \<open>Properties\<close>

text \<open>C27. In every bundle a program can build, negotiation answers a supported locale, whatever the query parameter and
  the header say; adding messages or plurals never writes into a missing map; and dates are
  always formatted with a complete profile.\<close>
theorem negotiation_answers_supported_locales:
  assumes "bundle_reach l pok b" "\<And>tags. ll_match l (bu_supported b) tags < length (bu_supported b)"
  shows "fst (i18n_middleware l b lang_param accept vary) \<in> set (supported_locales l b)
    \<and> lo_tag (fst (i18n_middleware l b lang_param accept vary)) = ir_language (snd (i18n_middleware l b lang_param accept vary))
    \<and> fst (add_messages l raw ms b) \<noteq> Some Nil_Map_Panic \<and> fst (add_plural l pok raw key f b) \<noteq> Some Nil_Map_Panic
    \<and> validate_profile (snd (date_profile l b raw))"
  using match_tags_supported [OF bundle_reach_ok [OF assms(1)] assms(2)] add_messages_ok [OF bundle_reach_ok [OF assms(1)]]
    add_plural_ok [OF bundle_reach_ok [OF assms(1)]] date_profile_valid [OF bundle_reach_ok [OF assms(1)]]
  by (simp add: i18n_middleware_def resolve_locale_def resolve_header_def Let_def)

text \<open>A library of two languages.\<close>

definition sample_languages :: "string language_lib" where
  "sample_languages = \<lparr>ll_parse = Some, ll_accept = (\<lambda>h. None), ll_und = (\<lambda>t. False), ll_english = ''en'', ll_text = id, ll_base = id,
     ll_region = (\<lambda>t. []), ll_match = (\<lambda>known tags. if tags \<noteq> [] \<and> hd tags \<in> set known then (case index_where (\<lambda>s. s = hd tags) known of Some i \<Rightarrow> i | None \<Rightarrow> 0) else 0)\<rparr>"

lemma sample_match: "known \<noteq> [] \<Longrightarrow> ll_match sample_languages known tags < length known"
  by (auto simp: sample_languages_def index_where_Some index_where_None split: option.split)

theorem negotiation_answers_supported_locales_witness:
  "fst (i18n_middleware sample_languages (new_bundle sample_languages ''en'') ''fr'' [] []) \<in> set (supported_locales sample_languages (new_bundle sample_languages ''en''))"
proof -
  have reach: "bundle_reach sample_languages (\<lambda>t f. True) (new_bundle sample_languages ''en'')" by (rule bundle_reach.created)
  have "bu_supported (new_bundle sample_languages ''en'') \<noteq> []" using new_bundle_ok [of sample_languages "''en''"] by (auto simp: bundle_ok_def)
  from negotiation_answers_supported_locales [OF reach sample_match [OF this], of "''fr''" "[]" "[]"]
  show ?thesis by blast
qed

text \<open>Plural forms that the language does not have are refused, but the language is supported from then on.\<close>

lemma a_refused_plural_adds_the_language:
  assumes "pf_other f \<noteq> []" "parse_tag l raw = Some t" "\<not> pok t (plural_cases f)"
  shows "fst (add_plural l pok raw key f b) = Some Invalid_Plural"
    "list_ex (\<lambda>s. ll_text l s = ll_text l t) (bu_supported (snd (add_plural l pok raw key f b)))"
  using assms by (auto simp: add_plural_def add_language_def Let_def list_ex_iff)

text \<open>Amounts are split exactly, the smallest 64-bit number included, for up to 19 decimal places.\<close>

theorem amounts_are_split_exactly:
  assumes "int64 v" "scale \<le> 19"
  shows "(case split_minor_units v scale of (major, fraction) \<Rightarrow>
      (if v < 0 then - 1 else 1) * (int (unat major) * 10 ^ scale + int (unat fraction)) = v \<and> unat fraction < 10 ^ scale)"
proof -
  obtain major fraction where split: "split_minor_units v scale = (major, fraction)" by fastforce
  note exact = split_minor_units_exact [OF assms split]
  have "int (unat major) * 10 ^ scale + int (unat fraction) = \<bar>v\<bar>"
    using exact(1) by (metis abs_ge_zero int_nat_eq of_nat_add of_nat_mult of_nat_numeral of_nat_power)
  then show ?thesis using exact(2) split by simp
qed

theorem amounts_are_split_exactly_witness:
  "unat (snd (split_minor_units (-1025) 2)) < 100"
  using amounts_are_split_exactly [of "-1025" 2] by (simp add: int64_def split: prod.splits)

text \<open>A short time determines the hour and the minute, on the 12-hour clock too, if the printer gives different texts to
  different numbers and writes neither a colon nor a blank.\<close>

theorem short_times_are_unambiguous:
  assumes times: "format_time num t p Style_Short c = format_time num t p Style_Short c'"
    and "ck_hour c < 24" "ck_hour c' < 24"
    and "ck_minute c < 60" "ck_minute c' < 60"
    and inj: "\<And>k. inj_on (num t k) {0..<60}" and clean: "\<And>k n. CHR '':'' \<notin> set (num t k n) \<and> CHR '' '' \<notin> set (num t k n)"
  shows "ck_hour c = ck_hour c' \<and> ck_minute c = ck_minute c'"
proof -
  note colon = cut_unique [where c = "CHR '':''"] and blank = cut_unique [where c = "CHR '' ''"]
  have num: "num t k (int m) = num t k (int n) \<longleftrightarrow> m = n" if "m < 60" "n < 60" for k m n
    using inj_onD [OF inj, of k "int m" "int n"] that by auto
  show ?thesis
  proof (cases "dp_twenty_four p")
    case True
    then have "num t 2 (int (ck_hour c)) @ CHR '':'' # num t 2 (int (ck_minute c)) = num t 2 (int (ck_hour c')) @ CHR '':'' # num t 2 (int (ck_minute c'))"
      using times by (simp add: format_time_def)
    then have "num t 2 (int (ck_hour c)) = num t 2 (int (ck_hour c')) \<and> num t 2 (int (ck_minute c)) = num t 2 (int (ck_minute c'))"
      using colon clean by blast
    then show ?thesis using num assms(2-5) by simp
  next
    case False
    obtain h s h' s' where h: "twelve_hour (ck_hour c) = (h, s)" "twelve_hour (ck_hour c') = (h', s')" by fastforce
    have suffix: "\<exists>x. s = CHR '' '' # x" "\<exists>x. s' = CHR '' '' # x" using h by (auto simp: twelve_hour_def Let_def split: if_splits)
    have "num t 1 (int h) @ CHR '':'' # (num t 2 (int (ck_minute c)) @ s) = num t 1 (int h') @ CHR '':'' # (num t 2 (int (ck_minute c')) @ s')"
      using times False h by (simp add: format_time_def)
    then have "num t 1 (int h) = num t 1 (int h') \<and> num t 2 (int (ck_minute c)) @ s = num t 2 (int (ck_minute c')) @ s'" using colon clean by blast
    moreover from this have "num t 2 (int (ck_minute c)) = num t 2 (int (ck_minute c')) \<and> s = s'" using suffix blank clean by blast
    moreover have "h < 60" "h' < 60" using twelve_hour_range [of "ck_hour c"] twelve_hour_range [of "ck_hour c'"] h by simp_all
    ultimately have "h = h' \<and> s = s'" "ck_minute c = ck_minute c'" using num assms(4,5) by simp_all
    then show ?thesis using h twelve_hour_inj assms(2,3) by metis
  qed
qed

definition sample_clock :: "nat \<Rightarrow> clock" where
  "sample_clock h = \<lparr>ck_year = 2024, ck_month = 2, ck_day = 29, ck_weekday = 4, ck_hour = h, ck_minute = 5, ck_second = 0, ck_zone = ''UTC''\<rparr>"

theorem short_times_are_unambiguous_witness:
  "format_time (\<lambda>t k n. replicate (nat n) CHR ''x'') () profile_en Style_Short (sample_clock 1)
     \<noteq> format_time (\<lambda>t k n. replicate (nat n) CHR ''x'') () profile_en Style_Short (sample_clock 13)"
proof
  let ?num = "\<lambda>(t :: unit) (k :: nat) (n :: int). replicate (nat n) CHR ''x''"
  have inj: "inj_on (?num () k) {0..<60}" for k by (auto simp: inj_on_def replicate_eq_replicate)
  assume "format_time ?num () profile_en Style_Short (sample_clock 1) = format_time ?num () profile_en Style_Short (sample_clock 13)"
  from short_times_are_unambiguous [OF this _ _ _ _ inj] show False by (simp add: sample_clock_def)
qed

end
