(* ===== verification/Json_Binding.thy ===== *)
theory Json_Binding
  imports Request_Errors Go_Strconv
begin

text \<open>
  \<^verbatim>\<open>binding.go\<close>: reading one JSON document from the body of a request. The decoder of \<^verbatim>\<open>encoding/json\<close> and
  \<^verbatim>\<open>mime.ParseMediaType\<close> are parameters; how much is read, and what is checked in which order, is not.
\<close>

section \<open>Limits\<close>

record binding_config =
  bc_max_body :: int
  bc_allow_unknown :: bool
  bc_allow_any_type :: bool

definition default_max_json :: int where "default_max_json = 1048576"
definition maximum_json :: int where "maximum_json = 67108864"

definition default_binding :: binding_config where
  "default_binding = \<lparr>bc_max_body = default_max_json, bc_allow_unknown = False, bc_allow_any_type = False\<rparr>"

definition normalize_binding :: "binding_config \<Rightarrow> binding_config" where
  "normalize_binding g =
     (if bc_max_body g \<le> 0 then g\<lparr>bc_max_body := default_max_json\<rparr>
      else if maximum_json < bc_max_body g then g\<lparr>bc_max_body := maximum_json\<rparr> else g)"

text \<open>A context without an engine has the defaults.\<close>

definition json_binding_config :: "binding_config option \<Rightarrow> binding_config" where
  "json_binding_config engine = (case engine of None \<Rightarrow> default_binding | Some g \<Rightarrow> normalize_binding g)"

section \<open>Problems\<close>

definition binding_problem :: "int \<Rightarrow> string \<Rightarrow> string \<Rightarrow> problem" where
  "binding_problem status kind detail =
     \<lparr>p_type = ''https://goplusplus.dev/errors/binding/'' @ kind,
      p_title = (if status = 413 then ''Request body too large'' else if status = 415 then ''Unsupported media type'' else ''Invalid request body''),
      p_status = status, p_detail = detail, p_instance = [], p_trace = [], p_errors = []\<rparr>"

datatype decode_error = Json_Syntax | Json_Type | Json_Unknown_Field | Json_Other

definition classify_decode_error :: "decode_error \<Rightarrow> problem" where
  "classify_decode_error e =
     (case e of
        Json_Syntax \<Rightarrow> binding_problem 400 ''malformed-json'' ''Request body contains malformed JSON''
      | Json_Type \<Rightarrow> binding_problem 400 ''type-mismatch'' ''Request body contains a value with the wrong type''
      | Json_Unknown_Field \<Rightarrow> binding_problem 400 ''unknown-field'' ''Request body contains an unknown field''
      | Json_Other \<Rightarrow> binding_problem 400 ''malformed-json'' ''Request body contains invalid JSON'')"

section \<open>The request\<close>

text \<open>What the transport delivers: bytes, and whether it then fails. The context is looked at three times.\<close>

record body_source =
  bs_bytes :: string
  bs_fails :: bool

record binding_request =
  bq_target_ok :: bool
  bq_body :: "body_source option"
  bq_content_length :: int             \<comment> \<open>-1 when it is not known\<close>
  bq_content_type :: string
  bq_cancelled_before :: bool
  bq_cancelled_reading :: bool
  bq_cancelled_after :: bool

definition has_json_content_type :: "(string \<Rightarrow> string option) \<Rightarrow> string \<Rightarrow> bool" where
  "has_json_content_type media t \<longleftrightarrow> (case media t of None \<Rightarrow> False | Some m \<Rightarrow> m = ''application/json'' \<or> has_suffix m ''+json'')"

text \<open>\<^verbatim>\<open>io.ReadAll\<close> of a reader that ends after \<open>n\<close> bytes; a failure behind them is not seen.\<close>

definition read_limited :: "nat \<Rightarrow> body_source \<Rightarrow> string option" where
  "read_limited n s = (if bs_fails s \<and> length (bs_bytes s) < n then None else Some (take n (bs_bytes s)))"

definition json_blank :: "char \<Rightarrow> bool" where
  "json_blank c \<longleftrightarrow> c \<in> {CHR '' '', CHR 0x09, CHR 0x0A, CHR 0x0D}"

datatype binding_failure = Context_Ended | Binding_Problem problem

text \<open>\<open>decode allow_unknown\<close> reads one document and returns it with the rest of the text. A second document
  is at the end of the input when only blanks are left.\<close>

definition bind_json ::
    "(string \<Rightarrow> string option) \<Rightarrow> (bool \<Rightarrow> string \<Rightarrow> decode_error + 'v \<times> string) \<Rightarrow> binding_config option \<Rightarrow> binding_request \<Rightarrow> binding_failure + 'v" where
  "bind_json media decode engine q =
     (if \<not> bq_target_ok q then Inl (Binding_Problem (binding_problem 400 ''invalid-target'' ''Invalid request target''))
      else case bq_body q of
        None \<Rightarrow> Inl (Binding_Problem (binding_problem 400 ''empty-body'' ''Request body is required''))
      | Some source \<Rightarrow>
          if bq_cancelled_before q then Inl Context_Ended
          else let g = json_binding_config engine;
                   too_large = Inl (Binding_Problem (binding_problem 413 ''body-too-large'' ''Request body exceeds the maximum allowed size''))
               in if bc_max_body g < bq_content_length q then too_large
                  else case read_limited (nat (bc_max_body g + 1)) source of
                    None \<Rightarrow> Inl (if bq_cancelled_reading q then Context_Ended
                                else Binding_Problem (binding_problem 400 ''read-failed'' ''Request body could not be read''))
                  | Some body \<Rightarrow>
                      if bc_max_body g < int (length body) then too_large
                      else if bq_cancelled_after q then Inl Context_Ended
                      else if trim_space body = [] then Inl (Binding_Problem (binding_problem 400 ''empty-body'' ''Request body is required''))
                      else if \<not> bc_allow_any_type g \<and> \<not> has_json_content_type media (bq_content_type q)
                      then Inl (Binding_Problem (binding_problem 415 ''content-type'' ''Content-Type must be application/json''))
                      else case decode (bc_allow_unknown g) body of
                        Inl e \<Rightarrow> Inl (Binding_Problem (classify_decode_error e))
                      | Inr (v, rest) \<Rightarrow>
                          if \<not> list_all json_blank rest
                          then Inl (Binding_Problem (binding_problem 400 ''trailing-data'' ''Request body must contain exactly one JSON document''))
                          else Inr v)"

section \<open>Properties\<close>

lemma normalized_limit: "0 < bc_max_body (json_binding_config engine) \<and> bc_max_body (json_binding_config engine) \<le> maximum_json"
  by (auto simp: json_binding_config_def normalize_binding_def default_binding_def maximum_json_def default_max_json_def split: option.split)

text \<open>However the engine is configured, at most 64 MiB and one byte of a body are read, whatever its declared length.\<close>

lemma read_limited_length: "read_limited n s = Some body \<Longrightarrow> length body \<le> n"
  by (auto simp: read_limited_def split: if_splits)

lemma read_limited_whole: "read_limited (nat (m + 1)) s = Some body \<Longrightarrow> 0 < m \<Longrightarrow> int (length body) \<le> m \<Longrightarrow> body = bs_bytes s \<and> \<not> bs_fails s"
  by (auto simp: read_limited_def split: if_splits)

text \<open>C23. A value is bound exactly when the request has a target and a body, the whole body was received within the limit
  (never more than 64 MiB) before the context ended, it declares a JSON type unless this is
  not required, and it is one JSON document and nothing else.\<close>
theorem json_binding_accepts_one_bounded_document:
  "bind_json media decode engine q = Inr v \<longleftrightarrow>
     (\<exists>source rest. let g = json_binding_config engine in
        bq_target_ok q \<and> bq_body q = Some source \<and> \<not> bq_cancelled_before q \<and> \<not> bq_cancelled_after q \<and> \<not> bs_fails source
        \<and> bq_content_length q \<le> bc_max_body g \<and> int (length (bs_bytes source)) \<le> bc_max_body g \<and> bc_max_body g \<le> 67108864
        \<and> trim_space (bs_bytes source) \<noteq> [] \<and> (bc_allow_any_type g \<or> has_json_content_type media (bq_content_type q))
        \<and> decode (bc_allow_unknown g) (bs_bytes source) = Inr (v, rest) \<and> list_all json_blank rest)"
    (is "?bound \<longleftrightarrow> ?ok")
proof
  let ?g = "json_binding_config engine"
  note limit = normalized_limit [of engine]
  assume ?bound
  then obtain source where s: "bq_target_ok q" "bq_body q = Some source" "\<not> bq_cancelled_before q" "bq_content_length q \<le> bc_max_body ?g"
    by (auto simp: bind_json_def Let_def split: if_splits option.splits)
  with \<open>?bound\<close> obtain body where b: "read_limited (nat (bc_max_body ?g + 1)) source = Some body" "int (length body) \<le> bc_max_body ?g"
    "\<not> bq_cancelled_after q" "trim_space body \<noteq> []" "bc_allow_any_type ?g \<or> has_json_content_type media (bq_content_type q)"
    by (auto simp: bind_json_def Let_def split: if_splits option.splits)
  with \<open>?bound\<close> s obtain rest where "decode (bc_allow_unknown ?g) body = Inr (v, rest)" "list_all json_blank rest"
    by (auto simp: bind_json_def Let_def split: if_splits sum.splits)
  then show ?ok using s b read_limited_whole [OF b(1) _ b(2)] limit by (auto simp: Let_def maximum_json_def)
next
  let ?g = "json_binding_config engine"
  note limit = normalized_limit [of engine]
  assume ?ok
  then obtain source rest where ok: "bq_target_ok q" "bq_body q = Some source" "\<not> bq_cancelled_before q" "\<not> bq_cancelled_after q" "\<not> bs_fails source"
    "bq_content_length q \<le> bc_max_body ?g" "int (length (bs_bytes source)) \<le> bc_max_body ?g" "trim_space (bs_bytes source) \<noteq> []"
    "bc_allow_any_type ?g \<or> has_json_content_type media (bq_content_type q)"
    "decode (bc_allow_unknown ?g) (bs_bytes source) = Inr (v, rest)" "list_all json_blank rest"
    by (auto simp: Let_def)
  have "read_limited (nat (bc_max_body ?g + 1)) source = Some (bs_bytes source)" using ok(5,7) by (simp add: read_limited_def)
  then show ?bound using ok by (auto simp: bind_json_def Let_def)
qed

text \<open>Every problem it reports is a client error.\<close>

lemma binding_problems_are_client_errors:
  "bind_json media decode engine q = Inl (Binding_Problem p) \<Longrightarrow> p_status p \<in> {400, 413, 415}"
  by (auto simp: bind_json_def Let_def binding_problem_def classify_decode_error_def split: if_splits option.splits sum.splits decode_error.splits)

end
