(* ===== verification/Lifecycle.thy ===== *)
theory Lifecycle
  imports Go_Strconv Go_Maps "HOL-Library.Multiset"
begin

text \<open>
  \<^verbatim>\<open>di/di.go\<close> and \<^verbatim>\<open>health/health.go\<close>: the hooks that start and stop an application, and the checks that tell
  whether it is ready. Checks run concurrently; the order in which their results arrive is a parameter.
\<close>

section \<open>The container\<close>

text \<open>A provider is stored under its type. A hook is a step on the state of the program that may fail.\<close>

record ('p, 's) container =
  dc_providers :: "(string \<times> 'p) list"
  dc_on_start :: "('s \<Rightarrow> 's \<times> string option) list"
  dc_on_stop :: "('s \<Rightarrow> 's \<times> string option) list"

definition new_container :: "('p, 's) container" where
  "new_container = \<lparr>dc_providers = [], dc_on_start = [], dc_on_stop = []\<rparr>"

definition provide :: "('p \<Rightarrow> string) \<Rightarrow> 'p \<Rightarrow> ('p, 's) container \<Rightarrow> ('p, 's) container" where
  "provide type_of p c = c\<lparr>dc_providers := AList.update (type_of p) p (dc_providers c)\<rparr>"

definition on_start :: "('s \<Rightarrow> 's \<times> string option) \<Rightarrow> ('p, 's) container \<Rightarrow> ('p, 's) container" where
  "on_start h c = c\<lparr>dc_on_start := dc_on_start c @ [h]\<rparr>"

definition on_stop :: "('s \<Rightarrow> 's \<times> string option) \<Rightarrow> ('p, 's) container \<Rightarrow> ('p, 's) container" where
  "on_stop h c = c\<lparr>dc_on_stop := dc_on_stop c @ [h]\<rparr>"

fun run_hooks :: "string \<Rightarrow> ('s \<Rightarrow> 's \<times> string option) list \<Rightarrow> 's \<Rightarrow> 's \<times> string option" where
  "run_hooks what [] s = (s, None)"
| "run_hooks what (h # hs) s =
     (case h s of (s, Some e) \<Rightarrow> (s, Some (''di: '' @ what @ '' hook failed: '' @ e)) | (s, None) \<Rightarrow> run_hooks what hs s)"

definition container_start :: "('p, 's) container \<Rightarrow> 's \<Rightarrow> 's \<times> string option" where
  "container_start c = run_hooks ''OnStart'' (dc_on_start c)"

definition container_stop :: "('p, 's) container \<Rightarrow> 's \<Rightarrow> 's \<times> string option" where
  "container_stop c = run_hooks ''OnStop'' (dc_on_stop c)"

text \<open>Hooks that record their name, and may fail.\<close>

definition naming :: "string \<times> bool \<Rightarrow> string list \<Rightarrow> string list \<times> string option" where
  "naming h s = (s @ [fst h], if snd h then None else Some (fst h))"

lemma run_hooks_order:
  "run_hooks what (map naming hs) s =
     (case dropWhile snd hs of
        [] \<Rightarrow> (s @ map fst hs, None)
      | h # _ \<Rightarrow> (s @ map fst (takeWhile snd hs) @ [fst h], Some (''di: '' @ what @ '' hook failed: '' @ fst h)))"
proof (induction hs arbitrary: s)
  case (Cons h hs)
  then show ?case by (cases "snd h"; cases "dropWhile snd hs") (auto simp: naming_def simp del: dropWhile_eq_Nil_conv)
qed simp

lemma provide_replaces: "map_of (dc_providers (provide ty p c)) t = (if t = ty p then Some p else map_of (dc_providers c) t)"
  by (simp add: provide_def update_conv')

text \<open>Stopping runs the hooks in the order of registration, not in reverse, and gives up at the first failure:
  what was started first is stopped first, and what comes after the failure is never stopped.\<close>

lemma stop_is_not_reversed:
  "container_stop (fold (\<lambda>h. on_stop (naming h)) [(''database'', True), (''server'', True)] new_container) [] = ([''database'', ''server''], None)"
  "container_stop (fold (\<lambda>h. on_stop (naming h)) [(''cache'', False), (''server'', True)] new_container) []
     = ([''cache''], Some ''di: OnStop hook failed: cache'')"
  by (simp_all add: container_stop_def on_stop_def new_container_def naming_def)

section \<open>Readiness\<close>

text \<open>What a check does within its timeout.\<close>

datatype check_outcome = Check_Returns "string option" | Check_Panics | Check_Too_Late string

record health_checker =
  hc_checks :: "(string \<times> check_outcome option) list"      \<comment> \<open>\<open>None\<close> is a nil function\<close>
  hc_timeout :: int

definition with_timeout :: "int \<Rightarrow> health_checker \<Rightarrow> health_checker" where
  "with_timeout d h = (if 0 < d then h\<lparr>hc_timeout := d\<rparr> else h)"

definition new_checker :: "int option list \<Rightarrow> health_checker" where
  "new_checker options = fold (\<lambda>opt h. case opt of None \<Rightarrow> h | Some d \<Rightarrow> with_timeout d h) options \<lparr>hc_checks = [], hc_timeout = 2000000000\<rparr>"

definition add_readiness_check :: "string \<Rightarrow> check_outcome option \<Rightarrow> health_checker \<Rightarrow> health_checker" where
  "add_readiness_check name f h = h\<lparr>hc_checks := AList.update name f (hc_checks h)\<rparr>"

datatype health_error = Name_And_Function_Required | Already_Exists string

definition register_readiness_check :: "string \<Rightarrow> check_outcome option \<Rightarrow> health_checker \<Rightarrow> health_error option \<times> health_checker" where
  "register_readiness_check name f h =
     (let name = trim_space name
      in if name = [] \<or> f = None then (Some Name_And_Function_Required, h)
         else if map_of (hc_checks h) name \<noteq> None then (Some (Already_Exists name), h)
         else (None, add_readiness_check name f h))"

definition sql_readiness :: "check_outcome option \<Rightarrow> check_outcome" where
  "sql_readiness pinger = (case pinger of None \<Rightarrow> Check_Returns (Some ''SQL pinger is nil'') | Some answer \<Rightarrow> answer)"

definition run_check :: "string \<times> check_outcome option \<Rightarrow> string \<times> string option" where
  "run_check c =
     (fst c, case snd c of
        None \<Rightarrow> Some ''dependency check is nil''
      | Some (Check_Returns e) \<Rightarrow> e
      | Some Check_Panics \<Rightarrow> Some ''dependency check panicked''
      | Some (Check_Too_Late e) \<Rightarrow> Some e)"

record readiness_reply =
  rr_status :: int
  rr_state :: string
  rr_checks :: "(string \<times> string) list"

text \<open>The loop over the results in the order they arrive.\<close>

definition collect_results :: "(string \<times> string option) list \<Rightarrow> bool \<times> (string \<times> string) list" where
  "collect_results arrived =
     fold (\<lambda>(name, err) (healthy, details).
       if err = None then (healthy, AList.update name ''UP'' details) else (False, AList.update name ''DOWN'' details)) arrived (True, [])"

definition readiness_of :: "(string \<times> string option) list \<Rightarrow> readiness_reply" where
  "readiness_of arrived =
     (case collect_results arrived of (healthy, details) \<Rightarrow>
        \<lparr>rr_status = (if healthy then 200 else 503), rr_state = (if healthy then ''UP'' else ''DOWN''), rr_checks = details\<rparr>)"

definition liveness :: "int \<times> string" where "liveness = (200, ''UP'')"

lemma collect_results_fold:
  "distinct (map fst arrived) \<Longrightarrow> fst ` set arrived \<inter> fst ` set ds = {} \<Longrightarrow>
     (case fold (\<lambda>(name, err) (healthy, details).
         if err = None then (healthy, AList.update name ''UP'' details) else (False, AList.update name ''DOWN'' details)) arrived (ok, ds) of
        (healthy, details) \<Rightarrow> (healthy \<longleftrightarrow> ok \<and> (\<forall>(n, e) \<in> set arrived. e = None))
          \<and> (\<forall>n. map_of details n = (case map_of arrived n of
                Some e \<Rightarrow> Some (if e = None then ''UP'' else ''DOWN'') | None \<Rightarrow> map_of ds n)))"
proof (induction arrived arbitrary: ok ds)
  case (Cons a arrived)
  obtain name err where a: "a = (name, err)" by (cases a)
  let ?ds = "AList.update name (if err = None then ''UP'' else ''DOWN'') ds"
  have new: "name \<notin> fst ` set arrived" using Cons.prems(1) a by simp
  then have "fst ` set arrived \<inter> fst ` set ?ds = {}" using Cons.prems(2) a by (auto simp: dom_update)
  note IH = Cons.IH [OF _ this, of "ok \<and> err = None"]
  have "map_of arrived name = None" using new by (simp add: map_of_eq_None_iff)
  then show ?case using IH Cons.prems(1) a
    by (cases err) (auto simp: update_conv' split: prod.splits option.splits)
qed simp

section \<open>Properties\<close>

text \<open>In whatever order the results of the checks arrive, the answer is the same: every check is reported once, as up
  exactly when it returned in time without an error, and the application is ready exactly when all are up.\<close>
theorem readiness_reports_every_check:
  assumes "distinct (map fst (hc_checks h))" "mset arrived = mset (map run_check (hc_checks h))"
  shows "(rr_status (readiness_of arrived) = 200 \<longleftrightarrow> (\<forall>c \<in> set (hc_checks h). snd c = Some (Check_Returns None)))
    \<and> (rr_status (readiness_of arrived) = 200 \<or> rr_status (readiness_of arrived) = 503)
    \<and> (\<forall>name. map_of (rr_checks (readiness_of arrived)) name
         = map_option (\<lambda>f. if f = Some (Check_Returns None) then ''UP'' else ''DOWN'') (map_of (hc_checks h) name))"
proof -
  have names: "map fst (map run_check (hc_checks h)) = map fst (hc_checks h)" by (simp add: run_check_def)
  have set: "set arrived = set (map run_check (hc_checks h))" using assms(2) by (rule mset_eq_setD)
  have "mset (map fst arrived) = mset (map fst (hc_checks h))"
    using arg_cong [OF assms(2), of "image_mset fst"] names by (metis mset_map)
  then have dist: "distinct (map fst arrived)" using assms(1) mset_eq_imp_distinct_iff by blast
  have same: "map_of arrived = map_of (map run_check (hc_checks h))"
  proof (rule map_of_inject_set [THEN iffD2])
    show "distinct (map fst (map run_check (hc_checks h)))" unfolding names by (rule assms(1))
  qed (use dist set in simp_all)
  have run: "map_of (map run_check cs) n = map_option (\<lambda>f. snd (run_check (n, f))) (map_of cs n)" for cs n
    by (induction cs) (auto simp: run_check_def)
  have up: "snd (run_check (n, f)) = None \<longleftrightarrow> f = Some (Check_Returns None)" for n f
    by (auto simp: run_check_def split: option.splits check_outcome.splits)
  obtain healthy details where c: "collect_results arrived = (healthy, details)" by fastforce
  have h: "healthy \<longleftrightarrow> (\<forall>(n, e) \<in> set arrived. e = None)"
    and d: "\<And>n. map_of details n = map_option (\<lambda>e. if e = None then ''UP'' else ''DOWN'') (map_of arrived n)"
    using collect_results_fold [OF dist, of "[]" True] c by (auto simp: collect_results_def split: option.splits)
  have "healthy \<longleftrightarrow> (\<forall>c \<in> set (hc_checks h). snd c = Some (Check_Returns None))"
    unfolding h set using up by (auto simp: run_check_def split: prod.splits)
  moreover have "map_of details n = map_option (\<lambda>f. if f = Some (Check_Returns None) then ''UP'' else ''DOWN'') (map_of (hc_checks h) n)" for n
    unfolding d same run by (simp add: option.map_comp comp_def up)
  ultimately show ?thesis by (simp add: readiness_of_def c)
qed

theorem readiness_reports_every_check_witness:
  "rr_status (readiness_of [(''cache'', Some ''down''), (''db'', None)]) = 503"
proof -
  let ?h = "\<lparr>hc_checks = [(''db'', Some (Check_Returns None)), (''cache'', Some (Check_Returns (Some ''down'')))], hc_timeout = 1\<rparr>"
  have "mset [(''cache'', Some ''down''), (''db'', None)] = mset (map run_check (hc_checks ?h))" by (simp add: run_check_def)
  from readiness_reports_every_check [OF _ this] show ?thesis by auto
qed

end
