(* ===== verification/Context_Response.thy ===== *)
theory Context_Response
  imports Json_Binding Request_Params Context_Timeout "HOL-Library.Multiset"
begin

text \<open>
  \<^verbatim>\<open>context.go\<close>: the responses a handler writes, the pipeline from a body to a validated value, typed values, tasks
  that run in parallel, and background tasks, which share the map of values with a context that the pool hands
  to the next request.
\<close>

section \<open>Writing responses\<close>

text \<open>The context with its tracker: both remember that something was written.\<close>

record response_ctx =
  rx_client :: client_response
  rx_written :: bool
  rx_aborted :: bool

definition fresh_response_ctx :: "client_response \<Rightarrow> response_ctx" where
  "fresh_response_ctx cl = \<lparr>rx_client = cl, rx_written = False, rx_aborted = False\<rparr>"

definition rx_header :: "string \<Rightarrow> string \<Rightarrow> response_ctx \<Rightarrow> response_ctx" where
  "rx_header k v c = c\<lparr>rx_client := direct_action (Set_Header_Values k [v]) (rx_client c)\<rparr>"

definition rx_status :: "int \<Rightarrow> response_ctx \<Rightarrow> response_ctx" where
  "rx_status n c = c\<lparr>rx_client := direct_action (Write_Status n) (rx_client c), rx_written := True\<rparr>"

definition rx_write :: "string \<Rightarrow> response_ctx \<Rightarrow> response_ctx" where
  "rx_write data c = c\<lparr>rx_client := direct_action (Write_Bytes data) (rx_client c), rx_written := True\<rparr>"

text \<open>\<open>encode\<close> is \<^verbatim>\<open>json.NewEncoder(w).Encode\<close>: an error, with nothing written, or the text and a newline.\<close>

type_synonym 'd encoder = "'d \<Rightarrow> string + string"

definition write_json :: "'d encoder \<Rightarrow> int \<Rightarrow> 'd \<Rightarrow> response_ctx \<Rightarrow> string option \<times> response_ctx" where
  "write_json encode status data c =
     (let c = rx_status status (rx_header ''Content-Type'' ''application/json; charset=utf-8'' c)
      in case encode data of Inl e \<Rightarrow> (Some e, c) | Inr t \<Rightarrow> (None, rx_write t c))"

definition write_problem :: "problem encoder \<Rightarrow> problem \<Rightarrow> response_ctx \<Rightarrow> string option \<times> response_ctx" where
  "write_problem encode p c =
     (let c = rx_status (p_status p) (rx_header ''Content-Type'' ''application/problem+json; charset=utf-8'' c)
      in case encode p of Inl e \<Rightarrow> (Some e, c) | Inr t \<Rightarrow> (None, rx_write t c))"

text \<open>\<open>print\<close> is \<^verbatim>\<open>fmt.Fprintf\<close>.\<close>

definition write_string :: "(string \<Rightarrow> 'a list \<Rightarrow> string) \<Rightarrow> int \<Rightarrow> string \<Rightarrow> 'a list \<Rightarrow> response_ctx \<Rightarrow> response_ctx" where
  "write_string print status format args c =
     rx_write (if args = [] then format else print format args)
       (rx_status status (rx_header ''Content-Type'' ''text/plain; charset=utf-8'' c))"

definition write_data :: "int \<Rightarrow> string \<Rightarrow> string \<Rightarrow> response_ctx \<Rightarrow> response_ctx" where
  "write_data status content_type data c = rx_write data (rx_status status (rx_header ''Content-Type'' content_type c))"

definition write_html :: "int \<Rightarrow> string \<Rightarrow> response_ctx \<Rightarrow> response_ctx" where
  "write_html status html = write_data status ''text/html; charset=utf-8'' html"

definition write_ok :: "'d encoder \<Rightarrow> 'd \<Rightarrow> response_ctx \<Rightarrow> string option \<times> response_ctx" where
  "write_ok encode = write_json encode 200"
definition write_created :: "'d encoder \<Rightarrow> 'd \<Rightarrow> response_ctx \<Rightarrow> string option \<times> response_ctx" where
  "write_created encode = write_json encode 201"
definition write_accepted :: "'d encoder \<Rightarrow> 'd \<Rightarrow> response_ctx \<Rightarrow> string option \<times> response_ctx" where
  "write_accepted encode = write_json encode 202"
definition write_no_content :: "response_ctx \<Rightarrow> response_ctx" where
  "write_no_content = rx_status 204"

definition abort_with_json :: "'d encoder \<Rightarrow> int \<Rightarrow> 'd \<Rightarrow> response_ctx \<Rightarrow> string option \<times> response_ctx" where
  "abort_with_json encode status data c = write_json encode status data (c\<lparr>rx_aborted := True\<rparr>)"

text \<open>\<open>redirect\<close> is \<^verbatim>\<open>http.Redirect\<close>.\<close>

definition write_redirect :: "(int \<Rightarrow> string \<Rightarrow> response_ctx \<Rightarrow> response_ctx) \<Rightarrow> int \<Rightarrow> string \<Rightarrow> response_ctx \<Rightarrow> string option \<times> response_ctx" where
  "write_redirect redirect code location c =
     (if code < 300 \<or> 308 < code then (Some ''gpp: invalid redirect status code'', c) else (None, redirect code location c))"

text \<open>The documents of pages; a limit that is not positive is refused before anything is written.\<close>

record 'i page_document =
  pd_items :: 'i
  pd_page :: int
  pd_limit :: int
  pd_total :: int
  pd_pages :: int

definition context_paginate :: "'i page_document encoder \<Rightarrow> int \<Rightarrow> 'i \<Rightarrow> int \<Rightarrow> int \<Rightarrow> int \<Rightarrow> response_ctx \<Rightarrow> problem option \<times> string option \<times> response_ctx" where
  "context_paginate encode status items page limit tot c =
     (case total_pages tot limit of
        Inl p \<Rightarrow> (Some p, None, c)
      | Inr n \<Rightarrow> (None, write_json encode status \<lparr>pd_items = items, pd_page = page, pd_limit = limit, pd_total = tot, pd_pages = n\<rparr> c))"

record 'i cursor_document =
  cd_items :: 'i
  cd_next :: string
  cd_has_more :: bool
  cd_limit :: int

definition context_paginate_cursor :: "'i cursor_document encoder \<Rightarrow> int \<Rightarrow> 'i \<Rightarrow> string \<Rightarrow> bool \<Rightarrow> int \<Rightarrow> response_ctx \<Rightarrow> string option \<times> response_ctx" where
  "context_paginate_cursor encode status items nxt has_more limit =
     write_json encode status \<lparr>cd_items = items, cd_next = nxt, cd_has_more = has_more, cd_limit = limit\<rparr>"

text \<open>\<^verbatim>\<open>SSE\<close> over the items it receives until the channel is closed or the context ends; an item that cannot be encoded
  is sent as an empty one.\<close>

definition context_sse :: "'d encoder \<Rightarrow> 'd list \<Rightarrow> response_ctx \<Rightarrow> response_ctx" where
  "context_sse encode items c =
     fold (\<lambda>x. rx_write (''data: '' @ (case encode x of Inl e \<Rightarrow> [] | Inr t \<Rightarrow> t) @ [CHR 0x0A, CHR 0x0A])) items
       (rx_status 200 (rx_header ''Connection'' ''keep-alive'' (rx_header ''Cache-Control'' ''no-cache'' (rx_header ''Content-Type'' ''text/event-stream'' c))))"

section \<open>From a body to a value\<close>

datatype pipeline_error = Pipeline_Context | Pipeline_Problem problem

definition of_binding :: "binding_failure \<Rightarrow> pipeline_error" where
  "of_binding f = (case f of Context_Ended \<Rightarrow> Pipeline_Context | Binding_Problem p \<Rightarrow> Pipeline_Problem p)"

text \<open>\<open>bind\<close> is \<open>bind_json\<close> for the request, \<open>validate\<close> the validation of the value, \<open>normalize\<close> the callback of the
  application: a new value or a failure, with the state of the context after it.\<close>

definition bind_and_validate :: "binding_failure + 'v \<Rightarrow> ('v \<Rightarrow> problem option) \<Rightarrow> pipeline_error + 'v" where
  "bind_and_validate bound validate =
     (case bound of Inl f \<Rightarrow> Inl (of_binding f)
      | Inr v \<Rightarrow> (case validate v of Some p \<Rightarrow> Inl (Pipeline_Problem p) | None \<Rightarrow> Inr v))"

definition bind_normalize_and_validate ::
    "bool \<Rightarrow> binding_failure + 'v \<Rightarrow> ('v \<Rightarrow> bool + 'v) option \<Rightarrow> ('v \<Rightarrow> problem option) \<Rightarrow> pipeline_error + 'v" where
  "bind_normalize_and_validate target_ok bound normalize_fn validate =
     (if \<not> target_ok then Inl (Pipeline_Problem (binding_problem 400 ''invalid-target'' ''Invalid request target''))
      else case bound of Inl f \<Rightarrow> Inl (of_binding f)
      | Inr v \<Rightarrow>
          (case (case normalize_fn of None \<Rightarrow> Inr v | Some f \<Rightarrow> f v) of
             Inl cancelled \<Rightarrow> Inl (if cancelled then Pipeline_Context else Pipeline_Problem (err_bad_request ''Request normalization failed''))
           | Inr v \<Rightarrow> (case validate v of Some p \<Rightarrow> Inl (Pipeline_Problem p) | None \<Rightarrow> Inr v)))"

lemma pipeline_values_are_valid:
  "bind_normalize_and_validate ok bound f validate = Inr v \<Longrightarrow> validate v = None"
  "bind_and_validate bound validate = Inr v \<Longrightarrow> validate v = None \<and> bound = Inr v"
  by (auto simp: bind_normalize_and_validate_def bind_and_validate_def split: if_splits sum.splits option.splits)

text \<open>Typed values; \<open>cast\<close> is the type assertion.\<close>

definition get_as :: "('a ctx_value \<Rightarrow> 't option) \<Rightarrow> 'a ctx_values \<Rightarrow> string \<Rightarrow> 't option" where
  "get_as cast c key = (case ctx_get c key of None \<Rightarrow> None | Some v \<Rightarrow> cast v)"

definition get_or_default :: "('a ctx_value \<Rightarrow> 't option) \<Rightarrow> 'a ctx_values \<Rightarrow> string \<Rightarrow> 't \<Rightarrow> 't" where
  "get_or_default cast c key d = (case get_as cast c key of Some v \<Rightarrow> v | None \<Rightarrow> d)"

text \<open>A panic is \<open>None\<close>.\<close>

definition must_get :: "'a ctx_values \<Rightarrow> string \<Rightarrow> 'a ctx_value option" where
  "must_get c key = ctx_get c key"

section \<open>Parallel tasks\<close>

datatype task_outcome = Task_Succeeds | Task_Fails string | Task_Panics string

definition task_error :: "task_outcome \<Rightarrow> string option" where
  "task_error t = (case t of Task_Succeeds \<Rightarrow> None | Task_Fails e \<Rightarrow> Some e | Task_Panics v \<Rightarrow> Some (''parallel task panic: '' @ v))"

text \<open>The tasks in the order they end: the channel gets their errors in this order, and the first one is returned.\<close>

definition parallel :: "task_outcome list \<Rightarrow> string option" where
  "parallel ended = (case List.map_filter task_error ended of [] \<Rightarrow> None | e # _ \<Rightarrow> Some e)"

lemma map_filter_Nil_iff: "List.map_filter f xs = [] \<longleftrightarrow> (\<forall>x \<in> set xs. f x = None)"
  by (induction xs) (auto simp: List.map_filter_def)

lemma map_filter_hd: "List.map_filter f xs = y # ys \<Longrightarrow> \<exists>x \<in> set xs. f x = Some y"
  by (induction xs) (auto simp: List.map_filter_def split: if_splits)

lemma parallel_waits_for_all:
  assumes "mset ended = mset tasks"
  shows "(parallel ended = None \<longleftrightarrow> (\<forall>t \<in> set tasks. t = Task_Succeeds))
    \<and> (\<forall>e. parallel ended = Some e \<longrightarrow> (\<exists>t \<in> set tasks. task_error t = Some e))"
proof -
  have "set ended = set tasks" using assms by (rule mset_eq_setD)
  moreover have "task_error t = None \<longleftrightarrow> t = Task_Succeeds" for t by (cases t) (simp_all add: task_error_def)
  ultimately show ?thesis
    using map_filter_Nil_iff [of task_error ended] map_filter_hd [of task_error ended]
    by (auto simp: parallel_def split: list.splits)
qed
section \<open>Pooled contexts\<close>

text \<open>
  The map of values is an object of its own: a context is the address of its map. The pool gives a context
  out again after its request; \<^verbatim>\<open>reset\<close> empties the map in place.
\<close>

record 'a context_pool =
  cp_heap :: "nat \<Rightarrow> 'a ctx_values"
  cp_free :: "nat list"
  cp_fresh :: nat                          \<comment> \<open>the next address\<close>
  cp_active :: "(nat \<times> nat) list"          \<comment> \<open>requests and their contexts\<close>

definition empty_pool :: "'a context_pool" where
  "empty_pool = \<lparr>cp_heap = (\<lambda>a. []), cp_free = [], cp_fresh = 0, cp_active = []\<rparr>"

text \<open>\<^verbatim>\<open>pool.Get\<close> may return any free context, or a new one, and \<^verbatim>\<open>reset\<close> follows.\<close>

definition begin_request :: "nat \<Rightarrow> nat option \<Rightarrow> 'a context_pool \<Rightarrow> 'a context_pool" where
  "begin_request r choice p =
     (let a = (case choice of Some i \<Rightarrow> cp_free p ! i | None \<Rightarrow> cp_fresh p);
          p = (case choice of Some i \<Rightarrow> p\<lparr>cp_free := take i (cp_free p) @ drop (i + 1) (cp_free p)\<rparr> | None \<Rightarrow> p\<lparr>cp_fresh := cp_fresh p + 1\<rparr>)
      in p\<lparr>cp_heap := (cp_heap p)(a := []), cp_active := (r, a) # cp_active p\<rparr>)"

definition write_values :: "nat \<Rightarrow> ('a ctx_values \<Rightarrow> 'a ctx_values) \<Rightarrow> 'a context_pool \<Rightarrow> 'a context_pool" where
  "write_values a f p = p\<lparr>cp_heap := (cp_heap p)(a := f (cp_heap p a))\<rparr>"

definition end_request :: "nat \<Rightarrow> nat \<Rightarrow> 'a context_pool \<Rightarrow> 'a context_pool" where
  "end_request r a p = p\<lparr>cp_active := removeAll (r, a) (cp_active p), cp_free := a # cp_free p\<rparr>"

text \<open>\<^verbatim>\<open>Async\<close> and \<^verbatim>\<open>AsyncTask\<close> copy the context, not its map: the task holds the address.\<close>

definition async_address :: "nat \<Rightarrow> 'a context_pool \<Rightarrow> nat option" where
  "async_address r p = map_of (cp_active p) r"

text \<open>Requests that do not start background tasks, with the values each of them has set so far.\<close>

inductive pool_reach :: "(nat \<times> 'a ctx_values) list \<Rightarrow> 'a context_pool \<Rightarrow> bool" where
  start: "pool_reach [] empty_pool"
| begins: "pool_reach h p \<Longrightarrow> r \<notin> fst ` set h \<Longrightarrow> (case choice of Some i \<Rightarrow> i < length (cp_free p) | None \<Rightarrow> True)
    \<Longrightarrow> pool_reach ((r, []) # h) (begin_request r choice p)"
| writes: "pool_reach h p \<Longrightarrow> (r, a) \<in> set (cp_active p) \<Longrightarrow> map_of h r = Some vs
    \<Longrightarrow> pool_reach (AList.update r (f vs) h) (write_values a f p)"
| ends: "pool_reach h p \<Longrightarrow> (r, a) \<in> set (cp_active p) \<Longrightarrow> pool_reach h (end_request r a p)"

definition pool_ok :: "(nat \<times> 'a ctx_values) list \<Rightarrow> 'a context_pool \<Rightarrow> bool" where
  "pool_ok h p \<longleftrightarrow> distinct (cp_free p) \<and> set (cp_free p) \<inter> snd ` set (cp_active p) = {}
     \<and> (\<forall>a \<in> set (cp_free p) \<union> snd ` set (cp_active p). a < cp_fresh p)
     \<and> inj_on snd (set (cp_active p)) \<and> inj_on fst (set (cp_active p))
     \<and> (\<forall>x \<in> set (cp_active p). map_of h (fst x) = Some (cp_heap p (snd x)))"

lemma pool_okD:
  assumes "pool_ok h p"
  shows "distinct (cp_free p)" "set (cp_free p) \<inter> snd ` set (cp_active p) = {}"
    "a \<in> set (cp_free p) \<union> snd ` set (cp_active p) \<Longrightarrow> a < cp_fresh p"
    "inj_on snd (set (cp_active p))" "inj_on fst (set (cp_active p))"
    "x \<in> set (cp_active p) \<Longrightarrow> map_of h (fst x) = Some (cp_heap p (snd x))"
  using assms unfolding pool_ok_def by blast+

lemma pool_okI:
  assumes "distinct (cp_free p)" "set (cp_free p) \<inter> snd ` set (cp_active p) = {}"
    "\<And>a. a \<in> set (cp_free p) \<union> snd ` set (cp_active p) \<Longrightarrow> a < cp_fresh p"
    "inj_on snd (set (cp_active p))" "inj_on fst (set (cp_active p))"
    "\<And>x. x \<in> set (cp_active p) \<Longrightarrow> map_of h (fst x) = Some (cp_heap p (snd x))"
  shows "pool_ok h p"
  using assms unfolding pool_ok_def by blast

lemma take_drop_index:
  assumes "i < length xs" "distinct xs"
  shows "distinct (take i xs @ drop (i + 1) xs)" "set (take i xs @ drop (i + 1) xs) = set xs - {xs ! i}"
proof -
  have xs: "xs = take i xs @ xs ! i # drop (i + 1) xs" using assms(1) by (simp add: id_take_nth_drop)
  then have d: "distinct (take i xs @ xs ! i # drop (i + 1) xs)" using assms(2) by simp
  then show "distinct (take i xs @ drop (i + 1) xs)" by simp
  have "set xs = set (take i xs @ xs ! i # drop (i + 1) xs)" using xs by simp
  then show "set (take i xs @ drop (i + 1) xs) = set xs - {xs ! i}" using d by auto
qed

text \<open>A context that is not in use is taken, emptied and given to a new request.\<close>

lemma add_active_ok:
  assumes ok: "pool_ok h p" and r: "r \<notin> fst ` set h" and a: "a \<notin> snd ` set (cp_active p)"
    and free: "distinct free" "set free \<subseteq> set (cp_free p) - {a}" and fresh: "cp_fresh p \<le> n" "a < n"
  shows "pool_ok ((r, []) # h) (p\<lparr>cp_free := free, cp_fresh := n, cp_heap := (cp_heap p)(a := []), cp_active := (r, a) # cp_active p\<rparr>)"
proof (rule pool_okI)
  let ?p = "p\<lparr>cp_free := free, cp_fresh := n, cp_heap := (cp_heap p)(a := []), cp_active := (r, a) # cp_active p\<rparr>"
  note D = pool_okD [OF ok]
  have r': "r \<notin> fst ` set (cp_active p)" using D(6) r by (auto dest!: map_of_SomeD_dom)
  show "distinct (cp_free ?p)" using free by simp
  show "set (cp_free ?p) \<inter> snd ` set (cp_active ?p) = {}" using free(2) D(2) by auto
  show "b < cp_fresh ?p" if "b \<in> set (cp_free ?p) \<union> snd ` set (cp_active ?p)" for b
  proof (cases "b = a")
    case False
    then have "b \<in> set (cp_free p) \<union> snd ` set (cp_active p)" using that free(2) by auto
    then show ?thesis using D(3) fresh(1) by fastforce
  qed (use fresh in simp)
  show "inj_on snd (set (cp_active ?p))" using D(4) a by (auto simp: inj_on_def)
  show "inj_on fst (set (cp_active ?p))" using D(5) r' by (auto simp: inj_on_def)
  show "map_of ((r, []) # h) (fst x) = Some (cp_heap ?p (snd x))" if "x \<in> set (cp_active ?p)" for x
  proof (cases "x = (r, a)")
    case False
    then have x: "x \<in> set (cp_active p)" using that by simp
    then have "fst x \<noteq> r" "snd x \<noteq> a" using r' a by auto
    then show ?thesis using D(6) [OF x] by simp
  qed simp
qed

lemma begin_request_ok:
  assumes ok: "pool_ok h p" and r: "r \<notin> fst ` set h" and c: "case choice of Some i \<Rightarrow> i < length (cp_free p) | None \<Rightarrow> True"
  shows "pool_ok ((r, []) # h) (begin_request r choice p)"
proof (cases choice)
  case None
  have new: "cp_fresh p \<notin> set (cp_free p) \<union> snd ` set (cp_active p)" using pool_okD(3) [OF ok] by blast
  have "begin_request r choice p = p\<lparr>cp_free := cp_free p, cp_fresh := cp_fresh p + 1,
      cp_heap := (cp_heap p)(cp_fresh p := []), cp_active := (r, cp_fresh p) # cp_active p\<rparr>" by (simp add: begin_request_def None Let_def)
  then show ?thesis using add_active_ok [OF ok r, of "cp_fresh p" "cp_free p" "cp_fresh p + 1"] new pool_okD(1) [OF ok] by auto
next
  case (Some i)
  let ?a = "cp_free p ! i" and ?free = "take i (cp_free p) @ drop (i + 1) (cp_free p)"
  have i: "i < length (cp_free p)" using c Some by simp
  then have mem: "?a \<in> set (cp_free p)" by simp
  have a: "?a \<notin> snd ` set (cp_active p)" "?a < cp_fresh p" using pool_okD(2,3) [OF ok] mem by blast+
  have eq: "begin_request r choice p = p\<lparr>cp_free := ?free, cp_fresh := cp_fresh p,
      cp_heap := (cp_heap p)(?a := []), cp_active := (r, ?a) # cp_active p\<rparr>" by (simp add: begin_request_def Some Let_def)
  show ?thesis
    unfolding eq
    by (rule add_active_ok [OF ok r a(1) take_drop_index(1) [OF i pool_okD(1) [OF ok]]
          equalityD1 [OF take_drop_index(2) [OF i pool_okD(1) [OF ok]]] order_refl a(2)])
qed

lemma write_values_ok:
  assumes ok: "pool_ok h p" and ra: "(r, a) \<in> set (cp_active p)" and vs: "map_of h r = Some vs"
  shows "pool_ok (AList.update r (f vs) h) (write_values a f p)"
proof (rule pool_okI)
  note D = pool_okD [OF ok]
  show "map_of (AList.update r (f vs) h) (fst x) = Some (cp_heap (write_values a f p) (snd x))" if "x \<in> set (cp_active (write_values a f p))" for x
  proof (cases "x = (r, a)")
    case True
    then show ?thesis using D(6) [OF ra] vs by (simp add: write_values_def update_conv')
  next
    case False
    have x: "x \<in> set (cp_active p)" using that by (simp add: write_values_def)
    then have "fst x \<noteq> r" "snd x \<noteq> a" using False ra inj_onD [OF D(4) _ x ra] inj_onD [OF D(5) _ x ra] by auto
    then show ?thesis using D(6) [OF x] by (simp add: write_values_def update_conv')
  qed
qed (use pool_okD [OF ok] in \<open>simp_all add: write_values_def\<close>)

lemma end_request_ok:
  assumes ok: "pool_ok h p" and ra: "(r, a) \<in> set (cp_active p)"
  shows "pool_ok h (end_request r a p)"
proof (rule pool_okI)
  note D = pool_okD [OF ok]
  have a: "a \<notin> set (cp_free p)" "a < cp_fresh p" using D(2,3) ra by force+
  show "distinct (cp_free (end_request r a p))" using D(1) a by (simp add: end_request_def)
  have "a \<notin> snd ` (set (cp_active p) - {(r, a)})" using inj_onD [OF D(4)] ra by fastforce
  then show "set (cp_free (end_request r a p)) \<inter> snd ` set (cp_active (end_request r a p)) = {}"
    using D(2) by (auto simp: end_request_def)
  show "b < cp_fresh (end_request r a p)" if "b \<in> set (cp_free (end_request r a p)) \<union> snd ` set (cp_active (end_request r a p))" for b
    using that a D(3) by (auto simp: end_request_def)
  show "inj_on snd (set (cp_active (end_request r a p)))" using D(4) by (auto simp: end_request_def intro: inj_on_subset)
  show "inj_on fst (set (cp_active (end_request r a p)))" using D(5) by (auto simp: end_request_def intro: inj_on_subset)
  show "map_of h (fst x) = Some (cp_heap (end_request r a p) (snd x))" if "x \<in> set (cp_active (end_request r a p))" for x
    using that D(6) by (simp add: end_request_def)
qed

lemma pool_reach_ok: "pool_reach h p \<Longrightarrow> pool_ok h p"
proof (induction rule: pool_reach.induct)
  case start
  show ?case by (simp add: pool_ok_def empty_pool_def)
next
  case (begins h p r choice)
  show ?case by (rule begin_request_ok [OF begins.IH begins.hyps(2,3)])
next
  case (writes h p r a vs f)
  show ?case by (rule write_values_ok [OF writes.IH writes.hyps(2,3)])
next
  case (ends h p r a)
  show ?case by (rule end_request_ok [OF ends.IH ends.hyps(2)])
qed

section \<open>Properties\<close>

text \<open>C22. Contexts are reused, but their values are not: among requests without background tasks, however they
  interleave and whichever contexts the pool gives out, the map of a running request holds exactly what this request
  has put into it.\<close>
theorem pooled_contexts_do_not_leak:
  assumes "pool_reach h p" "(r, a) \<in> set (cp_active p)"
  shows "map_of h r = Some (cp_heap p a) \<and> (\<forall>s b. (s, b) \<in> set (cp_active p) \<longrightarrow> b = a \<longrightarrow> s = r) \<and> a \<notin> set (cp_free p)"
proof (intro conjI allI impI)
  note D = pool_okD [OF pool_reach_ok [OF assms(1)]]
  show "map_of h r = Some (cp_heap p a)" using D(6) [OF assms(2)] by simp
  show "a \<notin> set (cp_free p)" using D(2) assms(2) by force
  show "s = r" if "(s, b) \<in> set (cp_active p)" "b = a" for s b using inj_onD [OF D(4) _ that(1) assms(2)] that(2) by simp
qed

definition two_requests :: "unit context_pool" where
  "two_requests = write_values 0 (ctx_set ''user_id'' (Int_Val 2)) (begin_request 2 (Some 0)
     (end_request 1 0 (write_values 0 (ctx_set ''user_id'' (Int_Val 1)) (begin_request 1 None empty_pool))))"

theorem pooled_contexts_do_not_leak_witness:
  "ctx_get (cp_heap two_requests 0) ''user_id'' = Some (Int_Val 2) \<and> cp_active two_requests = [(2, 0)]"
proof -
  let ?p1 = "begin_request 1 None (empty_pool :: unit context_pool)"
  let ?p2 = "write_values 0 (ctx_set ''user_id'' (Int_Val 1)) ?p1"
  let ?p3 = "end_request 1 0 ?p2"
  let ?p4 = "begin_request 2 (Some 0) ?p3"
  note defs = begin_request_def empty_pool_def write_values_def end_request_def
  have r1: "pool_reach [(1, [])] ?p1" by (rule pool_reach.begins [OF pool_reach.start]) simp_all
  have r2: "pool_reach (AList.update 1 (ctx_set ''user_id'' (Int_Val 1) []) [(1, [])]) ?p2"
    by (rule pool_reach.writes [OF r1]) (simp_all add: defs)
  have r3: "pool_reach (AList.update 1 (ctx_set ''user_id'' (Int_Val 1) []) [(1, [])]) ?p3"
    by (rule pool_reach.ends [OF r2]) (simp add: defs)
  have r4: "pool_reach ((2, []) # AList.update 1 (ctx_set ''user_id'' (Int_Val 1) []) [(1, [])]) ?p4"
    by (rule pool_reach.begins [OF r3]) (simp_all add: defs)
  have r5: "pool_reach (AList.update 2 (ctx_set ''user_id'' (Int_Val 2) []) ((2, []) # AList.update 1 (ctx_set ''user_id'' (Int_Val 1) []) [(1, [])])) two_requests"
    unfolding two_requests_def by (rule pool_reach.writes [OF r4]) (simp_all add: defs)
  have active: "cp_active two_requests = [(2, 0)]" by (simp add: two_requests_def defs)
  from pooled_contexts_do_not_leak [OF r5, of 2 0] have "Some (cp_heap two_requests 0) = Some [(''user_id'', Int_Val 2)]"
    using active by (simp add: ctx_set_def)
  then show ?thesis using active by (simp add: ctx_get_def)
qed

text \<open>A background task keeps the address. After the request it reads, and writes, the values of the next one.\<close>

lemma background_tasks_see_the_next_request:
  "async_address 1 (write_values 0 (ctx_set ''user_id'' (Int_Val 1)) (begin_request 1 None empty_pool)) = Some 0
   \<and> ctx_get (cp_heap two_requests 0) ''user_id'' = Some (Int_Val 2)"
  by (simp add: async_address_def two_requests_def begin_request_def empty_pool_def write_values_def end_request_def)

text \<open>When a value cannot be encoded, the status is already on its way: the client gets a success without a body, and the
  error handler finds the response written and does nothing.\<close>

lemma an_encoding_error_is_answered_with_success:
  "write_ok (\<lambda>d. Inl ''unsupported value'') d (fresh_response_ctx \<lparr>cl_header = [], cl_status = None, cl_body = []\<rparr>) = (Some ''unsupported value'', c)
     \<Longrightarrow> cl_status (rx_client c) = Some 200 \<and> cl_body (rx_client c) = [] \<and> default_error_handler False (rx_written c) path i (Plain ''unsupported value'') = None"
  by (auto simp: write_ok_def write_json_def Let_def fresh_response_ctx_def rx_header_def rx_status_def send_status_def default_error_handler_def)

end
