(* ===== verification/Cli_Commands.thy ===== *)
theory Cli_Commands
  imports Router_Engine Go_Strconv Go_Maps
begin

text \<open>
  \<^verbatim>\<open>cmd/gpp\<close>, the part that reads: names, flags and options of the commands, the dispatch of the command line and
  of the interactive mode, and the next version of a migration. An action is what the command line asks for;
  \<open>Cli_Publish\<close> carries it out. \<open>lower\<close> is \<^verbatim>\<open>strings.ToLower\<close> where it is applied to
  text that was not checked before.
\<close>

section \<open>Names\<close>

definition name_letter :: "char \<Rightarrow> bool" where "name_letter c \<longleftrightarrow> is_lower c \<or> is_upper c"

definition generator_name :: "string \<Rightarrow> bool" where
  "generator_name s \<longleftrightarrow> s \<noteq> [] \<and> name_letter (hd s) \<and> list_all (\<lambda>c. name_letter c \<or> is_digit c \<or> c = CHR ''_'') s"

definition module_path_char :: "char \<Rightarrow> bool" where
  "module_path_char c \<longleftrightarrow> name_letter c \<or> is_digit c \<or> c \<in> {CHR ''.'', CHR ''_'', CHR ''~'', CHR ''/'', CHR ''-''}"

definition valid_module_path :: "string \<Rightarrow> bool" where
  "valid_module_path m \<longleftrightarrow>
     trim_space m = m \<and> m \<noteq> [] \<and> (name_letter (hd m) \<or> is_digit (hd m)) \<and> list_all module_path_char m
     \<and> \<not> contains_str m ''//'' \<and> list_all (\<lambda>seg. seg \<noteq> ''.'' \<and> seg \<noteq> ''..'' \<and> seg \<noteq> []) (split_byte CHR ''/'' m)"

definition path_base :: "string \<Rightarrow> string" where
  "path_base p =
     (if p = [] then ''.''
      else let es = filter (\<lambda>e. e \<noteq> []) (split_byte CHR ''/'' p) in if es = [] then ''/'' else last es)"

subsection \<open>Names of deployments\<close>

definition deployment_char :: "char \<Rightarrow> bool" where
  "deployment_char c \<longleftrightarrow> is_lower c \<or> is_digit c \<or> c = CHR ''-''"

text \<open>The replacement of \<^verbatim>\<open>[^a-z0-9-]+\<close>; the flag tells that the byte before belongs to the run. White space that is not
  ASCII is a part of a run, and its dash is trimmed.\<close>

fun dash_runs :: "bool \<Rightarrow> string \<Rightarrow> string" where
  "dash_runs gap [] = []"
| "dash_runs gap (c # cs) =
     (if deployment_char c then c # dash_runs False cs
      else if gap then dash_runs True cs else CHR ''-'' # dash_runs True cs)"

definition trim_dashes_right :: "string \<Rightarrow> string" where
  "trim_dashes_right s = rev (dropWhile (\<lambda>c. c = CHR ''-'') (rev s))"

definition untruncated_name :: "(string \<Rightarrow> string) \<Rightarrow> string \<Rightarrow> string" where
  "untruncated_name lower name =
     (let name = trim_set {CHR ''-''} (dash_runs False (lower (trim_space name)));
          name = (if name = [] then ''gpp-app'' else name);
          name = (if \<not> is_lower (hd name) then ''app-'' @ name else name)
      in if length name < 3 then name @ ''-app'' else name)"

definition normalize_deployment_name :: "(string \<Rightarrow> string) \<Rightarrow> string \<Rightarrow> string" where
  "normalize_deployment_name lower name =
     (let name = untruncated_name lower name in if 24 < length name then trim_dashes_right (take 24 name) else name)"

text \<open>What the generated Terraform accepts: \<^verbatim>\<open>^[a-z][a-z0-9-]{2,23}$\<close>.\<close>

definition terraform_name :: "string \<Rightarrow> bool" where
  "terraform_name n \<longleftrightarrow> 3 \<le> length n \<and> length n \<le> 24 \<and> is_lower (hd n) \<and> list_all deployment_char n"

section \<open>Flags\<close>

datatype flag_error = Flag_Syntax string | Flag_Help | Flag_Unknown string | Flag_Value_Missing string

text \<open>\<^verbatim>\<open>FlagSet.Parse\<close> for flags with texts: the values, and the arguments that are left.\<close>

fun parse_flags :: "string list \<Rightarrow> string list \<Rightarrow> (string \<times> string) list \<Rightarrow> flag_error + (string \<times> string) list \<times> string list" where
  "parse_flags known [] vs = Inr (vs, [])"
| "parse_flags known (s # rest) vs =
     (if length s < 2 \<or> hd s \<noteq> CHR ''-'' then Inr (vs, s # rest)
      else if s = ''--'' then Inr (vs, rest)
      else let name = (if s ! 1 = CHR ''-'' then drop 2 s else drop 1 s)
           in if name = [] \<or> hd name = CHR ''-'' \<or> hd name = CHR ''='' then Inl (Flag_Syntax s)
              else case split_first CHR ''='' name of (name, given) \<Rightarrow>
                if name \<notin> set known then Inl (if name = ''help'' \<or> name = ''h'' then Flag_Help else Flag_Unknown name)
                else (case given of
                    Some v \<Rightarrow> parse_flags known rest (AList.update name v vs)
                  | None \<Rightarrow> (case rest of
                      [] \<Rightarrow> Inl (Flag_Value_Missing name)
                    | v # rest \<Rightarrow> parse_flags known rest (AList.update name v vs))))"

definition flag_value :: "(string \<times> string) list \<Rightarrow> string \<Rightarrow> string \<Rightarrow> string" where
  "flag_value vs name d = (case map_of vs name of Some v \<Rightarrow> v | None \<Rightarrow> d)"

section \<open>Options\<close>

datatype cli_error =
    Usage_New | Usage_Gen | Usage_Extract | Bad_Flags flag_error | App_Name_Required | Bad_Module_Path string
  | Output_Required | Route_Required | Not_An_Identifier string | Unknown_Target string
  | Input_Required string | Invalid_Choice string | Input_Failed string | Unsupported_Provider string

record scaffold_options =
  so_directory :: string
  so_module :: string

definition parse_scaffold_options :: "string list \<Rightarrow> cli_error + scaffold_options" where
  "parse_scaffold_options args =
     (case args of
        [] \<Rightarrow> Inl Usage_New
      | a # rest \<Rightarrow> (case parse_flags [''module''] rest [] of
          Inl e \<Rightarrow> Inl (Bad_Flags e)
        | Inr (vs, left) \<Rightarrow>
            (let directory = path_clean (trim_space a); m = flag_value vs ''module'' []
             in if left \<noteq> [] then Inl Usage_New
                else if directory = ''.'' \<or> directory = ''/'' then Inl App_Name_Required
                else let m = (if m = [] then path_base directory else m)
                     in if \<not> valid_module_path m then Inl (Bad_Module_Path m)
                        else Inr \<lparr>so_directory = directory, so_module = m\<rparr>)))"

record extract_options =
  eo_capability :: string
  eo_module :: string
  eo_output :: string
  eo_route :: string

definition parse_extract_options :: "(string \<Rightarrow> string) \<Rightarrow> string list \<Rightarrow> cli_error + extract_options" where
  "parse_extract_options lower args =
     (case args of
        what # name # rest \<Rightarrow>
          if lower what \<noteq> ''service'' then Inl Usage_Extract
          else let capability = lower name
               in if \<not> generator_name capability then Inl (Not_An_Identifier name)
                  else (case parse_flags [''module'', ''output'', ''route''] rest [] of
                      Inl e \<Rightarrow> Inl (Bad_Flags e)
                    | Inr (vs, left) \<Rightarrow>
                        (let m = flag_value vs ''module'' [];
                             output = path_clean (trim_space (flag_value vs ''output'' (''services/'' @ capability)));
                             route = path_clean (trim_space (flag_value vs ''route'' (''/api/v1/'' @ capability)))
                         in if left \<noteq> [] \<or> m = [] then Inl Usage_Extract
                            else if \<not> valid_module_path m then Inl (Bad_Module_Path m)
                            else if output = ''.'' \<or> output = ''/'' then Inl Output_Required
                            else if \<not> has_prefix route ''/'' \<or> route = ''/'' then Inl Route_Required
                            else Inr \<lparr>eo_capability = capability, eo_module = m, eo_output = output, eo_route = route\<rparr>))
      | _ \<Rightarrow> Inl Usage_Extract)"

section \<open>Commands\<close>

datatype cli_action =
    Run_Interactive | Show_Usage | Show_Version | Leave
  | Scaffold_App scaffold_options
  | Generate_Module string | Generate_Middleware string | Generate_Migration string | Generate_Handler string
  | Generate_Terraform string | Generate_Hosting string
  | Extract_Service extract_options

definition run_cli :: "(string \<Rightarrow> string) \<Rightarrow> bool \<Rightarrow> string list \<Rightarrow> cli_error + cli_action" where
  "run_cli lower terminal args =
     (case args of
        [] \<Rightarrow> Inr (if terminal then Run_Interactive else Show_Usage)
      | command # rest \<Rightarrow>
          if command \<in> {''interactive'', ''-i'', ''--interactive''} then Inr Run_Interactive
          else if command = ''new'' then
            (case parse_scaffold_options rest of Inl e \<Rightarrow> Inl e | Inr g \<Rightarrow> Inr (Scaffold_App g))
          else if command = ''gen'' then
            (case rest of
               target # name # _ \<Rightarrow>
                 (let target = lower target
                  in if \<not> generator_name name then Inl (Not_An_Identifier name)
                     else if target = ''module'' then Inr (Generate_Module name)
                     else if target = ''middleware'' then Inr (Generate_Middleware name)
                     else if target = ''migration'' then Inr (Generate_Migration name)
                     else if target = ''handler'' then Inr (Generate_Handler name)
                     else if target = ''terraform'' then Inr (Generate_Terraform name)
                     else if target = ''hosting'' then Inr (Generate_Hosting name)
                     else Inl (Unknown_Target target))
             | _ \<Rightarrow> Inl Usage_Gen)
          else if command = ''extract'' then
            (case parse_extract_options lower rest of Inl e \<Rightarrow> Inl e | Inr g \<Rightarrow> Inr (Extract_Service g))
          else if command = ''version'' then Inr Show_Version
          else Inr Show_Usage)"

text \<open>The lines of the terminal, and the error of the scanner when they do not end with the input.\<close>

record cli_input =
  ci_lines :: "string list"
  ci_error :: "string option"

datatype prompt_error = At_End | Read_Error string

definition prompt_input :: "string \<Rightarrow> cli_input \<Rightarrow> (prompt_error + string) \<times> cli_input" where
  "prompt_input d i =
     (case ci_lines i of
        [] \<Rightarrow> (Inl (case ci_error i of Some e \<Rightarrow> Read_Error e | None \<Rightarrow> At_End), i)
      | l # ls \<Rightarrow> (Inr (if trim_space l = [] then d else trim_space l), i\<lparr>ci_lines := ls\<rparr>))"

definition input_error :: "prompt_error \<Rightarrow> cli_error" where
  "input_error e = Input_Failed (case e of At_End \<Rightarrow> ''EOF'' | Read_Error t \<Rightarrow> t)"

definition prompt_name :: "string \<Rightarrow> (string \<Rightarrow> cli_action) \<Rightarrow> cli_input \<Rightarrow> cli_error + cli_action" where
  "prompt_name what act i =
     (case fst (prompt_input [] i) of
        Inl e \<Rightarrow> Inl (Input_Required what)
      | Inr name \<Rightarrow> if name = [] then Inl (Input_Required what)
                    else if \<not> generator_name name then Inl (Not_An_Identifier name) else Inr (act name))"

definition prompt_scaffold :: "cli_input \<Rightarrow> cli_error + cli_action" where
  "prompt_scaffold i =
     (case prompt_input [] i of
        (Inl e, _) \<Rightarrow> Inl (Input_Required ''app'')
      | (Inr app, i) \<Rightarrow>
          if app = [] then Inl (Input_Required ''app'')
          else (case prompt_input app i of
              (Inl e, _) \<Rightarrow> Inl (input_error e)
            | (Inr m, _) \<Rightarrow> (case parse_scaffold_options [app, ''--module'', m] of
                Inl e \<Rightarrow> Inl e | Inr g \<Rightarrow> Inr (Scaffold_App g))))"

definition prompt_extract :: "(string \<Rightarrow> string) \<Rightarrow> cli_input \<Rightarrow> cli_error + cli_action" where
  "prompt_extract lower i =
     (case prompt_input [] i of
        (Inl e, _) \<Rightarrow> Inl (Input_Required ''module'')
      | (Inr capability, i) \<Rightarrow>
          if capability = [] then Inl (Input_Required ''module'')
          else (case prompt_input [] i of
              (Inl e, _) \<Rightarrow> Inl (Input_Required ''path'')
            | (Inr m, i) \<Rightarrow>
                if m = [] then Inl (Input_Required ''path'')
                else (case prompt_input (path_join [''services'', capability]) i of
                    (Inl e, _) \<Rightarrow> Inl (input_error e)
                  | (Inr out, i) \<Rightarrow> (case prompt_input (''/api/v1/'' @ capability) i of
                      (Inl e, _) \<Rightarrow> Inl (input_error e)
                    | (Inr route, _) \<Rightarrow>
                        (case parse_extract_options lower [''service'', capability, ''--module'', m, ''--output'', out, ''--route'', route] of
                           Inl e \<Rightarrow> Inl e | Inr g \<Rightarrow> Inr (Extract_Service g))))))"

definition run_interactive :: "(string \<Rightarrow> string) \<Rightarrow> cli_input \<Rightarrow> cli_error + cli_action" where
  "run_interactive lower i =
     (case prompt_input ''1'' i of
        (Inl At_End, _) \<Rightarrow> Inr Leave
      | (Inl (Read_Error e), _) \<Rightarrow> Inl (Input_Failed e)
      | (Inr choice, i) \<Rightarrow>
          if choice = ''1'' then prompt_scaffold i
          else if choice = ''2'' then prompt_name ''module'' Generate_Module i
          else if choice = ''3'' then prompt_name ''middleware'' Generate_Middleware i
          else if choice = ''4'' then prompt_name ''migration'' Generate_Migration i
          else if choice = ''5'' then prompt_name ''handler'' Generate_Handler i
          else if choice = ''6'' then Inr (Generate_Terraform ''aws'')
          else if choice = ''7'' then Inr (Generate_Hosting ''standard'')
          else if choice = ''8'' then prompt_extract lower i
          else if choice = ''9'' then Inr Show_Version
          else if choice = ''10'' then Inr Leave
          else Inl (Invalid_Choice choice))"

section \<open>Versions of migrations\<close>

text \<open>The texts \<^verbatim>\<open>Version:\s*([0-9]+)\<close> finds, from left to right.\<close>

definition pattern_blank :: "char \<Rightarrow> bool" where
  "pattern_blank c \<longleftrightarrow> c \<in> {CHR '' '', CHR 0x09, CHR 0x0A, CHR 0x0C, CHR 0x0D}"

definition version_here :: "string \<Rightarrow> (string \<times> string) option" where
  "version_here s =
     (let r = dropWhile pattern_blank (drop 8 s)
      in if has_prefix s ''Version:'' \<and> takeWhile is_digit r \<noteq> [] then Some (takeWhile is_digit r, dropWhile is_digit r) else None)"

lemma version_here_shorter: "version_here s = Some (v, rest) \<Longrightarrow> length rest < length s"
proof -
  assume a: "version_here s = Some (v, rest)"
  let ?r = "dropWhile pattern_blank (drop 8 s)"
  have r: "rest = dropWhile is_digit ?r" and p: "has_prefix s ''Version:''"
    using a by (auto simp: version_here_def Let_def split: if_splits)
  have "length rest \<le> length ?r" unfolding r by (rule length_dropWhile_le)
  also have "\<dots> \<le> length (drop 8 s)" by (rule length_dropWhile_le)
  also have "\<dots> < length s" using p by (cases s) (auto simp: has_prefix_def)
  finally show ?thesis .
qed

function find_versions :: "string \<Rightarrow> string list" where
  "find_versions [] = []"
| "find_versions (c # cs) =
     (case version_here (c # cs) of
        Some (v, rest) \<Rightarrow> v # find_versions rest
      | None \<Rightarrow> find_versions cs)"
  by pat_completeness auto
termination
  by (relation "measure length") (auto dest!: version_here_shorter)

text \<open>What \<^verbatim>\<open>WalkDir\<close> shows: files, with their contents or the error of reading them, and errors of its own. What
  does not exist is passed over.\<close>

datatype found_file = Walk_Missing | Walk_Error string | Found_File string "string + string"

fun max_version :: "string list \<Rightarrow> int \<Rightarrow> int option" where
  "max_version [] m = Some m"
| "max_version (v # vs) m = (case atoi v of None \<Rightarrow> None | Some n \<Rightarrow> max_version vs (if m < n then n else m))"

fun walk_versions :: "found_file list \<Rightarrow> int \<Rightarrow> string + int" where
  "walk_versions [] m = Inr m"
| "walk_versions (Walk_Missing # ws) m = walk_versions ws m"
| "walk_versions (Walk_Error e # ws) m = Inl e"
| "walk_versions (Found_File name content # ws) m =
     (if \<not> has_suffix name ''.go'' then walk_versions ws m
      else case content of
        Inl e \<Rightarrow> Inl e
      | Inr text \<Rightarrow> (case max_version (find_versions text) m of
          None \<Rightarrow> Inl ''value out of range''
        | Some m \<Rightarrow> walk_versions ws m))"

definition next_migration_version :: "found_file list \<Rightarrow> string + int" where
  "next_migration_version ws = (case walk_versions ws 0 of Inl e \<Rightarrow> Inl e | Inr m \<Rightarrow> Inr (wrap64 (m + 1)))"

section \<open>Lemmas\<close>

lemma max_version_bounds:
  "max_version vs m = Some m' \<Longrightarrow> m \<le> m' \<and> (\<forall>v \<in> set vs. \<exists>n. atoi v = Some n \<and> n \<le> m')"
  by (induction vs m rule: max_version.induct) (fastforce split: option.splits if_splits)+

lemma walk_versions_bounds:
  "walk_versions ws m = Inr m' \<Longrightarrow> m \<le> m' \<and>
     (\<forall>name text v. Found_File name (Inr text) \<in> set ws \<longrightarrow> has_suffix name ''.go'' \<longrightarrow> v \<in> set (find_versions text)
        \<longrightarrow> (\<exists>n. atoi v = Some n \<and> n \<le> m'))"
proof (induction ws m rule: walk_versions.induct)
  case (4 name content ws m)
  show ?case
  proof (cases "has_suffix name ''.go''")
    case False
    then show ?thesis using 4 by auto
  next
    case True
    then obtain tx where c: "content = Inr tx" using 4(3) by (cases content) auto
    then obtain k where k: "max_version (find_versions tx) m = Some k" using 4(3) True c by (cases "max_version (find_versions tx) m") auto
    then have rest: "walk_versions ws k = Inr m'" using 4(3) True c by simp
    note IH = "4.IH"(2) [OF _ c k rest]
    have "k \<le> m'" using IH True by blast
    then show ?thesis using IH True max_version_bounds [OF k] c by (fastforce intro: order_trans)
  qed
qed auto

lemma dash_runs_chars: "list_all deployment_char (dash_runs gap s)"
  by (induction gap s rule: dash_runs.induct) (auto simp: deployment_char_def)

lemma list_all_trim_set: "list_all P s \<Longrightarrow> list_all P (trim_set cs s)"
  by (auto simp: trim_set_def list_all_iff dest!: set_dropWhileD)

lemma trim_set_ends:
  assumes "trim_set cs s \<noteq> []"
  shows "hd (trim_set cs s) \<notin> cs" "last (trim_set cs s) \<notin> cs"
proof -
  let ?r = "rev (dropWhile (\<lambda>c. c \<in> cs) s)" and ?d = "dropWhile (\<lambda>c. c \<in> cs) s"
  have t: "trim_set cs s = rev (dropWhile (\<lambda>c. c \<in> cs) ?r)" by (simp add: trim_set_def)
  have ne: "dropWhile (\<lambda>c. c \<in> cs) ?r \<noteq> []" using assms unfolding t by simp
  show "last (trim_set cs s) \<notin> cs" unfolding t last_rev using hd_dropWhile [OF ne] by simp
  have "hd (rev (dropWhile (\<lambda>c. c \<in> cs) ?r)) = last (dropWhile (\<lambda>c. c \<in> cs) ?r)" using ne by (simp add: hd_rev)
  also have "\<dots> = last ?r" using ne by (metis last_append takeWhile_dropWhile_id)
  also have "\<dots> = hd ?d" using ne by (metis dropWhile.simps(1) last_rev rev.simps(1) rev_rev_ident)
  finally have "hd (trim_set cs s) = hd ?d" unfolding t .
  moreover have "?d \<noteq> []" using ne by (metis dropWhile.simps(1) rev.simps(1))
  ultimately show "hd (trim_set cs s) \<notin> cs" using hd_dropWhile [of "\<lambda>c. c \<in> cs" s] by metis
qed


lemma untruncated_name_ok:
  "untruncated_name lower name \<noteq> [] \<and> is_lower (hd (untruncated_name lower name))
     \<and> list_all deployment_char (untruncated_name lower name) \<and> last (untruncated_name lower name) \<noteq> CHR ''-''
     \<and> 3 \<le> length (untruncated_name lower name)"
proof -
  let ?d = "trim_set {CHR ''-''} (dash_runs False (lower (trim_space name)))"
  define m where "m = (if ?d = [] then ''gpp-app'' else ?d)"
  define k where "k = (if \<not> is_lower (hd m) then ''app-'' @ m else m)"
  have letters: "is_lower (CHR ''g'')" "is_lower (CHR ''a'')" "list_all deployment_char ''gpp-app''" "list_all deployment_char ''app-''"
    "list_all deployment_char ''-app''" by code_simp+
  have m: "m \<noteq> []" "list_all deployment_char m" "last m \<noteq> CHR ''-''"
    using list_all_trim_set [OF dash_runs_chars] trim_set_ends(2) [of "{CHR ''-''}"] letters unfolding m_def by auto
  have k: "k \<noteq> []" "is_lower (hd k)" "list_all deployment_char k" "last k \<noteq> CHR ''-''"
    using m letters unfolding k_def by auto
  have u: "untruncated_name lower name = (if length k < 3 then k @ ''-app'' else k)"
    by (simp add: untruncated_name_def Let_def m_def k_def)
  show ?thesis unfolding u using k letters by auto
qed

lemma trim_dashes_split: "\<exists>n. s = trim_dashes_right s @ replicate n (CHR ''-'')"
proof -
  let ?p = "\<lambda>c. c = CHR ''-''"
  have "takeWhile ?p (rev s) = replicate (length (takeWhile ?p (rev s))) (CHR ''-'')"
    by (rule replicate_length_same [symmetric]) (auto dest: set_takeWhileD)
  moreover have "s = rev (dropWhile ?p (rev s)) @ rev (takeWhile ?p (rev s))"
    by (metis rev_append rev_rev_ident takeWhile_dropWhile_id)
  ultimately show ?thesis unfolding trim_dashes_right_def by (metis rev_replicate)
qed

lemma max_version_int64: "max_version vs m = Some m' \<Longrightarrow> int64 m \<Longrightarrow> int64 m'"
  by (induction vs m rule: max_version.induct) (auto split: option.splits if_splits dest: atoi_int64)

lemma walk_versions_int64: "walk_versions ws m = Inr m' \<Longrightarrow> int64 m \<Longrightarrow> int64 m'"
  by (induction ws m rule: walk_versions.induct) (auto split: option.splits if_splits sum.splits dest: max_version_int64)

section \<open>Properties\<close>

text \<open>The name of a deployment, made from the name of any directory, begins with a letter, has letters, digits and
  dashes only, does not end with a dash and has at most 24 characters. It is one that the generated Terraform accepts,
  unless a longer name was cut inside a run of dashes that begins before its third character.\<close>
theorem deployment_names_are_accepted:
  "is_lower (hd (normalize_deployment_name lower name)) \<and> list_all deployment_char (normalize_deployment_name lower name)
    \<and> normalize_deployment_name lower name \<noteq> [] \<and> last (normalize_deployment_name lower name) \<noteq> CHR ''-''
    \<and> length (normalize_deployment_name lower name) \<le> 24
    \<and> (terraform_name (normalize_deployment_name lower name)
       \<or> (length (normalize_deployment_name lower name) < 3
          \<and> take 24 (untruncated_name lower name) = normalize_deployment_name lower name
              @ replicate (24 - length (normalize_deployment_name lower name)) (CHR ''-'')))"
proof -
  define u where "u = untruncated_name lower name"
  define n where "n = normalize_deployment_name lower name"
  note U = untruncated_name_ok [of lower name, folded u_def]
  show ?thesis
  proof (cases "24 < length u")
    case False
    then have "n = u" by (simp add: n_def u_def normalize_deployment_name_def Let_def)
    then show ?thesis using U False unfolding n_def [symmetric] by (simp add: terraform_name_def)
  next
    case True
    then have n: "n = trim_dashes_right (take 24 u)" by (simp add: n_def u_def normalize_deployment_name_def Let_def)
    obtain k where k: "take 24 u = n @ replicate k (CHR ''-'')" using trim_dashes_split [of "take 24 u"] unfolding n by blast
    have len: "length n + k = 24" using arg_cong [OF k, of length] True by simp
    have dash: "\<not> is_lower (CHR ''-'')" by code_simp
    have hd_u: "hd (take 24 u) = hd u" using U by (cases u) simp_all
    have ne: "n \<noteq> []"
    proof
      assume "n = []"
      then have "hd (take 24 u) = CHR ''-''" using k len by simp
      then show False using hd_u U dash by simp
    qed
    have "last n \<noteq> CHR ''-''"
      using ne hd_dropWhile [of "\<lambda>c. c = CHR ''-''" "rev (take 24 u)"] unfolding n trim_dashes_right_def last_rev by simp
    moreover have "is_lower (hd n)" using ne k hd_u U by (cases n) auto
    moreover have "list_all deployment_char n"
    proof -
      have "set n \<subseteq> set u" using k set_take_subset [of 24 u] by (metis le_sup_iff set_append)
      then show ?thesis using U by (auto simp: list_all_iff)
    qed
    moreover have "take 24 u = n @ replicate (24 - length n) (CHR ''-'')" using k len by (metis diff_add_inverse)
    ultimately show ?thesis using ne len unfolding n_def [symmetric] u_def [symmetric] by (auto simp: terraform_name_def)
  qed
qed

text \<open>The shortest counterexample has a dash run of 23: the length is checked before the name is cut.\<close>

lemma some_names_are_cut_too_short:
  "normalize_deployment_name to_lower (''a'' @ replicate 24 (CHR ''-'') @ ''b'') = ''a''"
  "\<not> terraform_name ''a''"
  by code_simp+

text \<open>What the command line and the interactive mode may ask for.\<close>

definition checked_action :: "cli_action \<Rightarrow> bool" where
  "checked_action a =
     (case a of
        Scaffold_App g \<Rightarrow> so_directory g \<noteq> ''.'' \<and> so_directory g \<noteq> ''/'' \<and> valid_module_path (so_module g)
      | Extract_Service g \<Rightarrow> generator_name (eo_capability g) \<and> valid_module_path (eo_module g) \<and> eo_output g \<noteq> ''.''
          \<and> eo_output g \<noteq> ''/'' \<and> has_prefix (eo_route g) ''/'' \<and> eo_route g \<noteq> ''/''
      | Generate_Module n \<Rightarrow> generator_name n | Generate_Middleware n \<Rightarrow> generator_name n | Generate_Migration n \<Rightarrow> generator_name n
      | Generate_Handler n \<Rightarrow> generator_name n | Generate_Terraform n \<Rightarrow> generator_name n | Generate_Hosting n \<Rightarrow> generator_name n
      | _ \<Rightarrow> True)"

lemma parse_scaffold_options_checked: "parse_scaffold_options args = Inr g \<Longrightarrow> checked_action (Scaffold_App g)"
  by (auto simp: parse_scaffold_options_def checked_action_def Let_def split: list.splits sum.splits prod.splits if_splits)

lemma parse_extract_options_checked: "parse_extract_options lower args = Inr g \<Longrightarrow> checked_action (Extract_Service g)"
  by (auto simp: parse_extract_options_def checked_action_def Let_def split: list.splits sum.splits prod.splits if_splits)

text \<open>Every name that becomes a part of a path is an identifier, so no command leaves its directory; module
  paths are valid and routes are absolute, on the command line and in the interactive mode.\<close>
theorem commands_are_checked:
  "run_cli lower terminal args = Inr a \<Longrightarrow> checked_action a"
  "run_interactive lower i = Inr a \<Longrightarrow> checked_action a"
proof -
  show "run_cli lower terminal args = Inr a \<Longrightarrow> checked_action a"
    using parse_scaffold_options_checked parse_extract_options_checked
    by (auto simp: run_cli_def checked_action_def Let_def split: list.splits sum.splits if_splits)
  have names: "prompt_name w act i = Inr a \<Longrightarrow> (\<And>n. generator_name n \<Longrightarrow> checked_action (act n)) \<Longrightarrow> checked_action a" for w act i a
    by (auto simp: prompt_name_def split: sum.splits if_splits)
  have scaffold: "prompt_scaffold i = Inr a \<Longrightarrow> checked_action a" for i a
    using parse_scaffold_options_checked by (auto simp: prompt_scaffold_def split: sum.splits prod.splits if_splits)
  have extracts: "prompt_extract lower i = Inr a \<Longrightarrow> checked_action a" for i a
    using parse_extract_options_checked by (auto simp: prompt_extract_def split: sum.splits prod.splits if_splits)
  have fixed: "generator_name ''aws''" "generator_name ''standard''" by code_simp+
  show "run_interactive lower i = Inr a \<Longrightarrow> checked_action a"
    by (auto simp: run_interactive_def checked_action_def fixed split: sum.splits prod.splits prompt_error.splits if_splits
        dest!: names scaffold extracts)
qed

text \<open>The next version is larger than every version in the Go files it has seen, as long as they are below the
  largest integer.\<close>
theorem next_version_is_fresh:
  assumes "next_migration_version ws = Inr n" "Found_File name (Inr content) \<in> set ws" "has_suffix name ''.go''"
    and "v \<in> set (find_versions content)" "n \<noteq> - (2 ^ 63)"
  shows "\<exists>k. atoi v = Some k \<and> k < n"
proof -
  obtain m where m: "walk_versions ws 0 = Inr m" "n = wrap64 (m + 1)"
    using assms(1) by (auto simp: next_migration_version_def split: sum.splits)
  obtain k where "atoi v = Some k" "k \<le> m" using walk_versions_bounds [OF m(1)] assms(2-4) by blast
  moreover have "int64 m" "0 \<le> m"
    using walk_versions_int64 [OF m(1)] walk_versions_bounds [OF m(1)] by (auto simp: int64_def)
  moreover from this have "m + 1 \<noteq> 2 ^ 63" using m(2) assms(5) by (auto simp: wrap64_def)
  ultimately show ?thesis using m(2) wrap64_id [of "m + 1"] by (auto simp: int64_def)
qed

end
