(* ===== verification/Cli_Publish.thy ===== *)
theory Cli_Publish
  imports Cli_Commands
begin

text \<open>
  \<^verbatim>\<open>cmd/gpp\<close>, the part that writes: trees of generated files, published by renaming a temporary directory, and the
  audit of a module that is extracted. The operating system may refuse any call; what a refused call has done before is
  a parameter. No other process works on the same files.
\<close>

section \<open>Files\<close>

text \<open>Paths are lists of elements, from the working directory on. The texts of the templates are arguments.\<close>

datatype fs_node = Fs_Dir | Fs_File string nat

type_synonym file_tree = "string list \<Rightarrow> fs_node option"

record scaffold_file =
  sf_path :: "string list"
  sf_content :: string
  sf_mode :: nat

record os_faults =
  os_stat :: "file_tree \<Rightarrow> string list \<Rightarrow> string option"
  os_mkdir :: "file_tree \<Rightarrow> string list \<Rightarrow> (nat \<times> string) option"           \<comment> \<open>how many elements were made\<close>
  os_temp :: "file_tree \<Rightarrow> string list \<Rightarrow> string + string"               \<comment> \<open>an error or a name\<close>
  os_write :: "file_tree \<Rightarrow> string list \<Rightarrow> (nat option \<times> string) option"   \<comment> \<open>how much was written, if the file was made\<close>
  os_rename :: "file_tree \<Rightarrow> string list \<Rightarrow> string option"
  os_remove :: "file_tree \<Rightarrow> string list \<Rightarrow> ((string list \<Rightarrow> bool) \<times> string) option"   \<comment> \<open>what was kept\<close>

definition path_below :: "string list \<Rightarrow> string list \<Rightarrow> bool" where
  "path_below p q \<longleftrightarrow> take (length p) q = p"

definition make_dirs :: "nat \<Rightarrow> string list \<Rightarrow> file_tree \<Rightarrow> file_tree" where
  "make_dirs n p t = (\<lambda>q. if path_below q p \<and> length q \<le> n \<and> t q = None then Some Fs_Dir else t q)"

definition is_file_node :: "fs_node option \<Rightarrow> bool" where
  "is_file_node x \<longleftrightarrow> (case x of Some (Fs_File c m) \<Rightarrow> True | _ \<Rightarrow> False)"

definition mkdir_path :: "os_faults \<Rightarrow> string list \<Rightarrow> file_tree \<Rightarrow> string option \<times> file_tree" where
  "mkdir_path os p t =
     (if list_ex (\<lambda>k. is_file_node (t (take k p))) [0..<length p + 1] then (Some ''not a directory'', t)
      else case os_mkdir os t p of
        Some (n, e) \<Rightarrow> (Some e, make_dirs n p t)
      | None \<Rightarrow> (None, make_dirs (length p) p t))"

definition mkdir_temp :: "os_faults \<Rightarrow> string list \<Rightarrow> file_tree \<Rightarrow> string + string list \<times> file_tree" where
  "mkdir_temp os parent t =
     (case os_temp os t parent of
        Inl e \<Rightarrow> Inl e
      | Inr name \<Rightarrow> if t (parent @ [name]) \<noteq> None then Inl ''file exists''
                    else Inr (parent @ [name], t(parent @ [name] \<mapsto> Fs_Dir)))"

definition write_path :: "os_faults \<Rightarrow> string list \<Rightarrow> string \<Rightarrow> nat \<Rightarrow> file_tree \<Rightarrow> string option \<times> file_tree" where
  "write_path os p data mode t =
     (let mode = (case t p of Some (Fs_File c m) \<Rightarrow> m | _ \<Rightarrow> mode)
      in if t p = Some Fs_Dir then (Some ''is a directory'', t)
         else if p = [] \<or> t (butlast p) \<noteq> Some Fs_Dir then (Some ''no such directory'', t)
         else case os_write os t p of
           Some (None, e) \<Rightarrow> (Some e, t)
         | Some (Some n, e) \<Rightarrow> (Some e, t(p \<mapsto> Fs_File (take n data) mode))
         | None \<Rightarrow> (None, t(p \<mapsto> Fs_File data mode)))"

definition rename_tree :: "os_faults \<Rightarrow> string list \<Rightarrow> string list \<Rightarrow> file_tree \<Rightarrow> string option \<times> file_tree" where
  "rename_tree os old target t =
     (if t target \<noteq> None then (Some ''file exists'', t)
      else case os_rename os t target of
        Some e \<Rightarrow> (Some e, t)
      | None \<Rightarrow> (None, \<lambda>q. if path_below target q then t (old @ drop (length target) q) else if path_below old q then None else t q))"

definition remove_tree :: "os_faults \<Rightarrow> string list \<Rightarrow> file_tree \<Rightarrow> string option \<times> file_tree" where
  "remove_tree os p t =
     (case os_remove os t p of
        Some (keep, e) \<Rightarrow> (Some e, \<lambda>q. if path_below p q \<and> \<not> keep q then None else t q)
      | None \<Rightarrow> (None, \<lambda>q. if path_below p q then None else t q))"

section \<open>Publishing\<close>

datatype publish_error =
    Already_There | Inspect_Failed string | Parent_Failed string | Temporary_Failed string
  | Directory_Not_Made "string list" string | File_Not_Written "string list" string | Rename_Failed string | Remove_Failed string

fun write_files :: "os_faults \<Rightarrow> string list \<Rightarrow> scaffold_file list \<Rightarrow> file_tree \<Rightarrow> publish_error option \<times> file_tree" where
  "write_files os tmp [] t = (None, t)"
| "write_files os tmp (f # fs) t =
     (case mkdir_path os (butlast (tmp @ sf_path f)) t of
        (Some e, t) \<Rightarrow> (Some (Directory_Not_Made (sf_path f) e), t)
      | (None, t) \<Rightarrow> (case write_path os (tmp @ sf_path f) (sf_content f) (sf_mode f) t of
          (Some e, t) \<Rightarrow> (Some (File_Not_Written (sf_path f) e), t)
        | (None, t) \<Rightarrow> write_files os tmp fs t))"

text \<open>\<^verbatim>\<open>publishGeneratedTree\<close>, and \<^verbatim>\<open>scaffoldApp\<close>, which differs in texts only. The errors are the joined ones:
  the failure, and then the failure to remove the temporary directory.\<close>

definition publish_tree :: "os_faults \<Rightarrow> string list \<Rightarrow> scaffold_file list \<Rightarrow> file_tree \<Rightarrow> publish_error list \<times> file_tree" where
  "publish_tree os target files t =
     (case os_stat os t target of
        Some e \<Rightarrow> ([Inspect_Failed e], t)
      | None \<Rightarrow>
          if t target \<noteq> None then ([Already_There], t)
          else (case mkdir_path os (butlast target) t of
              (Some e, t) \<Rightarrow> ([Parent_Failed e], t)
            | (None, t) \<Rightarrow> (case mkdir_temp os (butlast target) t of
                Inl e \<Rightarrow> ([Temporary_Failed e], t)
              | Inr (tmp, t) \<Rightarrow>
                  (let clean_up = (\<lambda>err t. case remove_tree os tmp t of (e, t) \<Rightarrow> (err # (case e of Some e \<Rightarrow> [Remove_Failed e] | None \<Rightarrow> []), t))
                   in case write_files os tmp files t of
                        (Some err, t) \<Rightarrow> clean_up err t
                      | (None, t) \<Rightarrow> (case rename_tree os tmp target t of
                          (Some e, t) \<Rightarrow> clean_up (Rename_Failed e) t
                        | (None, t) \<Rightarrow> ([], t))))))"

text \<open>\<open>locate\<close> splits a directory into elements, \<open>templates\<close> are the files with the options filled in.\<close>

definition scaffold_app ::
    "os_faults \<Rightarrow> (string \<Rightarrow> string list) \<Rightarrow> (scaffold_options \<Rightarrow> scaffold_file list) \<Rightarrow> scaffold_options \<Rightarrow> file_tree \<Rightarrow> publish_error list \<times> file_tree" where
  "scaffold_app os locate templates g = publish_tree os (locate (so_directory g)) (templates g)"

text \<open>The single files of \<^verbatim>\<open>gen middleware\<close>, \<^verbatim>\<open>gen migration\<close> and \<^verbatim>\<open>gen handler\<close> replace what was there.\<close>

definition generate_plain_file :: "os_faults \<Rightarrow> string \<Rightarrow> string \<Rightarrow> string \<Rightarrow> file_tree \<Rightarrow> publish_error list \<times> file_tree" where
  "generate_plain_file os directory name content t =
     (case mkdir_path os [directory] t of
        (Some e, t) \<Rightarrow> ([Directory_Not_Made [directory] e], t)
      | (None, t) \<Rightarrow> (case write_path os [directory, name] content 420 t of
          (Some e, t) \<Rightarrow> ([File_Not_Written [directory, name] e], t)
        | (None, t) \<Rightarrow> ([], t)))"

definition capitalize :: "string \<Rightarrow> string" where
  "capitalize s = (case s of [] \<Rightarrow> [] | c # cs \<Rightarrow> to_upper [c] @ cs)"

section \<open>Extracting a module\<close>

datatype entry_kind = Dir_Kind | Link_Kind | Regular_Kind bool int nat "string + string"

text \<open>An entry of the walk: its path below the module, and its kind. A regular file, or one that is not, has a size,
  a mode and its content. What \<^verbatim>\<open>go/parser\<close> and \<^verbatim>\<open>strconv.Unquote\<close> say of a source is a parameter.\<close>

datatype walk_item = Walk_Broken string | Walk_Entry "string list" entry_kind

record go_source =
  gs_package :: string
  gs_imports :: "string option list"              \<comment> \<open>unquoted\<close>
  gs_functions :: "(bool \<times> string) list"          \<comment> \<open>with a receiver, name\<close>

datatype extract_error =
    Walk_Error_At string | Link_Found "string list" | Tool_State "string list" | Sensitive_File "string list" | Not_Regular "string list"
  | Read_Failed_At string | Parse_Failed string | Wrong_Package string | Bad_Import | Hidden_Dependency string | Not_Portable

definition has_import_prefix :: "string \<Rightarrow> string \<Rightarrow> bool" where
  "has_import_prefix p pre \<longleftrightarrow> p = pre \<or> has_prefix p (pre @ ''/'')"

definition is_sensitive_module_file :: "(string \<Rightarrow> string) \<Rightarrow> string \<Rightarrow> bool" where
  "is_sensitive_module_file lower name \<longleftrightarrow>
     (let name = lower name in name = ''.env'' \<or> name = ''credentials'' \<or> has_suffix name ''.pem'' \<or> has_suffix name ''.key'')"

text \<open>The first import that is refused decides.\<close>

fun audit_imports :: "string \<Rightarrow> string \<Rightarrow> string option list \<Rightarrow> extract_error option" where
  "audit_imports source own [] = None"
| "audit_imports source own (None # is) = Some Bad_Import"
| "audit_imports source own (Some p # is) =
     (if has_import_prefix p (source @ ''/internal'') \<and> \<not> has_import_prefix p own then Some (Hidden_Dependency p)
      else audit_imports source own is)"

definition defines_function :: "string \<Rightarrow> go_source \<Rightarrow> bool" where
  "defines_function name g \<longleftrightarrow> list_ex (\<lambda>(recv, n). \<not> recv \<and> n = name) (gs_functions g)"

definition audit_go_file ::
    "(string \<Rightarrow> string + go_source) \<Rightarrow> string \<Rightarrow> string \<Rightarrow> bool \<Rightarrow> string \<Rightarrow> string \<Rightarrow> extract_error + bool \<times> bool" where
  "audit_go_file parse source own root_file capability content =
     (case parse content of
        Inl e \<Rightarrow> Inl (Parse_Failed e)
      | Inr g \<Rightarrow>
          if root_file \<and> gs_package g \<noteq> capability then Inl (Wrong_Package (gs_package g))
          else (case audit_imports source own (gs_imports g) of
              Some e \<Rightarrow> Inl e
            | None \<Rightarrow> Inr (root_file \<and> defines_function ''Build'' g, root_file \<and> defines_function ''Migrations'' g)))"

function replace_all :: "string \<Rightarrow> string \<Rightarrow> string \<Rightarrow> string" where
  "replace_all old new [] = []"
| "replace_all old new (c # cs) =
     (if old \<noteq> [] \<and> has_prefix (c # cs) old then new @ replace_all old new (drop (length old) (c # cs))
      else c # replace_all old new cs)"
  by pat_completeness auto
termination
  by (relation "measure (\<lambda>(old, new, s). length s)") (auto simp: drop_Cons split: nat.splits)

definition module_prefix :: "string \<Rightarrow> string \<Rightarrow> string" where
  "module_prefix m capability = m @ ''/internal/modules/'' @ capability"

text \<open>One entry of the walk; a directory yields no file.\<close>

definition audit_entry ::
    "(string \<Rightarrow> string) \<Rightarrow> (string \<Rightarrow> string + go_source) \<Rightarrow> string \<Rightarrow> extract_options \<Rightarrow> walk_item \<Rightarrow> extract_error + scaffold_file list \<times> bool \<times> bool" where
  "audit_entry lower parse source g item =
     (let capability = eo_capability g; old = module_prefix source capability; new = module_prefix (eo_module g) capability
      in case item of
           Walk_Broken e \<Rightarrow> Inl (Walk_Error_At e)
         | Walk_Entry path kind \<Rightarrow>
             (let name = (if path = [] then capability else last path)
              in case kind of
                   Link_Kind \<Rightarrow> Inl (Link_Found path)
                 | Dir_Kind \<Rightarrow> if name = ''.git'' \<or> name = ''.terraform'' then Inl (Tool_State path) else Inr ([], False, False)
                 | Regular_Kind regular bytes mode content \<Rightarrow>
                     if is_sensitive_module_file lower name then Inl (Sensitive_File path)
                     else if \<not> regular \<or> 10485760 < bytes then Inl (Not_Regular path)
                     else (case content of
                         Inl e \<Rightarrow> Inl (Read_Failed_At e)
                       | Inr body \<Rightarrow>
                           (let publish = (\<lambda>body. \<lparr>sf_path = [''internal'', ''modules'', capability] @ path, sf_content = body, sf_mode = mode\<rparr>)
                            in if has_suffix name ''.go'' then
                                 (case audit_go_file parse source old (length path = 1) capability body of
                                    Inl e \<Rightarrow> Inl e
                                  | Inr (b, m) \<Rightarrow> Inr ([publish (replace_all old new body)], b, m))
                               else Inr ([publish body], False, False)))))"

fun audit_walk ::
    "(string \<Rightarrow> string) \<Rightarrow> (string \<Rightarrow> string + go_source) \<Rightarrow> string \<Rightarrow> extract_options \<Rightarrow> walk_item list \<Rightarrow> scaffold_file list \<Rightarrow> bool \<Rightarrow> bool
       \<Rightarrow> extract_error + scaffold_file list \<times> bool \<times> bool" where
  "audit_walk lower parse source g [] files b m = Inr (files, b, m)"
| "audit_walk lower parse source g (i # is) files b m =
     (case audit_entry lower parse source g i of
        Inl e \<Rightarrow> Inl e
      | Inr (fs, b', m') \<Rightarrow> audit_walk lower parse source g is (files @ fs) (b \<or> b') (m \<or> m'))"

definition collect_portable_module ::
    "(string \<Rightarrow> string) \<Rightarrow> (string \<Rightarrow> string + go_source) \<Rightarrow> string \<Rightarrow> extract_options \<Rightarrow> walk_item list \<Rightarrow> extract_error + scaffold_file list" where
  "collect_portable_module lower parse source g items =
     (case audit_walk lower parse source g items [] False False of
        Inl e \<Rightarrow> Inl e
      | Inr (files, b, m) \<Rightarrow> if \<not> b \<or> \<not> m then Inl Not_Portable else Inr files)"

text \<open>\<^verbatim>\<open>readGoModulePath\<close> over the lines of \<^verbatim>\<open>go.mod\<close> and the error the scanner ends with; \<open>split\<close> is \<^verbatim>\<open>strings.Fields\<close>.\<close>

fun read_go_module_path :: "(string \<Rightarrow> string list) \<Rightarrow> string list \<Rightarrow> string option \<Rightarrow> string + string" where
  "read_go_module_path split [] err = Inl (case err of Some e \<Rightarrow> e | None \<Rightarrow> ''go.mod has no module directive'')"
| "read_go_module_path split (l # ls) err =
     (case split l of
        [a, b] \<Rightarrow> if a = ''module'' then Inr b else read_go_module_path split ls err
      | _ \<Rightarrow> read_go_module_path split ls err)"

datatype service_error = No_Module_Path string | Module_Not_Found | Audit_Failed extract_error | Not_Published "publish_error list"

text \<open>\<open>generated\<close> are the files of the service around the module; \<open>locate\<close> splits the output directory into elements.\<close>

definition extract_service ::
    "os_faults \<Rightarrow> (string \<Rightarrow> string) \<Rightarrow> (string \<Rightarrow> string + go_source) \<Rightarrow> (string \<Rightarrow> string list) \<Rightarrow> string + string \<Rightarrow> walk_item list
       \<Rightarrow> scaffold_file list \<Rightarrow> extract_options \<Rightarrow> file_tree \<Rightarrow> service_error option \<times> file_tree" where
  "extract_service os lower parse locate source items generated g t =
     (case source of
        Inl e \<Rightarrow> (Some (No_Module_Path e), t)
      | Inr m \<Rightarrow>
          if t [''internal'', ''modules'', eo_capability g] \<noteq> Some Fs_Dir then (Some Module_Not_Found, t)
          else (case collect_portable_module lower parse m g items of
              Inl e \<Rightarrow> (Some (Audit_Failed e), t)
            | Inr files \<Rightarrow> (case publish_tree os (locate (eo_output g)) (generated @ files) t of
                ([], t) \<Rightarrow> (None, t) | (errs, t) \<Rightarrow> (Some (Not_Published errs), t))))"

section \<open>The generators\<close>

text \<open>The templates are arguments. The names were checked by the command line and are ASCII.\<close>

datatype generator_error = Rejected cli_error | Required_File string | No_Version string | Generation_Failed "publish_error list"

definition published :: "publish_error list \<times> file_tree \<Rightarrow> generator_error option \<times> file_tree" where
  "published r = (case r of ([], t) \<Rightarrow> (None, t) | (errs, t) \<Rightarrow> (Some (Generation_Failed errs), t))"

definition deployment_files :: "string \<Rightarrow> scaffold_file list \<Rightarrow> scaffold_file list" where
  "deployment_files project files = map (\<lambda>f. f\<lparr>sf_content := replace_all ''{{APP_NAME}}'' project (sf_content f)\<rparr>) files"

definition deployment_project_name :: "(string \<Rightarrow> string) \<Rightarrow> string \<Rightarrow> file_tree \<Rightarrow> generator_error + string" where
  "deployment_project_name lower directory t =
     (case find (\<lambda>required. \<not> is_file_node (t [required])) [''go.mod'', ''Dockerfile''] of
        Some required \<Rightarrow> Inl (Required_File required)
      | None \<Rightarrow> Inr (normalize_deployment_name lower (path_base directory)))"

definition generate_deployment ::
    "os_faults \<Rightarrow> (string \<Rightarrow> string) \<Rightarrow> string \<Rightarrow> string \<Rightarrow> string list \<Rightarrow> scaffold_file list \<Rightarrow> string \<Rightarrow> file_tree \<Rightarrow> generator_error option \<times> file_tree" where
  "generate_deployment os lower directory supported target templates provider t =
     (if to_lower provider \<noteq> supported then (Some (Rejected (Unsupported_Provider provider)), t)
      else case deployment_project_name lower directory t of
        Inl e \<Rightarrow> (Some e, t)
      | Inr project \<Rightarrow> published (publish_tree os target (deployment_files project templates) t))"

definition generate_terraform ::
    "os_faults \<Rightarrow> (string \<Rightarrow> string) \<Rightarrow> string \<Rightarrow> scaffold_file list \<Rightarrow> string \<Rightarrow> file_tree \<Rightarrow> generator_error option \<times> file_tree" where
  "generate_terraform os lower directory = generate_deployment os lower directory ''aws'' [''deploy'', ''terraform'', ''aws'']"

definition generate_hosting ::
    "os_faults \<Rightarrow> (string \<Rightarrow> string) \<Rightarrow> string \<Rightarrow> scaffold_file list \<Rightarrow> string \<Rightarrow> file_tree \<Rightarrow> generator_error option \<times> file_tree" where
  "generate_hosting os lower directory = generate_deployment os lower directory ''standard'' [''deploy'', ''standard'']"

text \<open>\<open>templates\<close> has the package, the version and the time stamp filled in; \<open>found\<close> is the walk over the modules.\<close>

definition generate_module ::
    "os_faults \<Rightarrow> found_file list \<Rightarrow> (string \<Rightarrow> int \<Rightarrow> scaffold_file list) \<Rightarrow> string \<Rightarrow> file_tree \<Rightarrow> generator_error option \<times> file_tree" where
  "generate_module os found templates name t =
     (case next_migration_version found of
        Inl e \<Rightarrow> (Some (No_Version e), t)
      | Inr version \<Rightarrow>
          published (publish_tree os [''internal'', ''modules'', to_lower name] (templates (to_lower name) version) t))"

section \<open>Lemmas on trees\<close>

definition closed_tree :: "file_tree \<Rightarrow> bool" where
  "closed_tree t \<longleftrightarrow> (\<forall>p e. t (p @ [e]) \<noteq> None \<longrightarrow> t p = Some Fs_Dir)"

lemma closed_tree_below: "closed_tree t \<Longrightarrow> t p = None \<Longrightarrow> t (p @ q) = None"
proof (induction q rule: rev_induct)
  case (snoc e q)
  then show ?case unfolding closed_tree_def by (metis append_assoc option.distinct(1))
qed simp

lemma path_below_iff: "path_below p q \<longleftrightarrow> (\<exists>r. q = p @ r)"
  by (auto simp: path_below_def) (metis append_take_drop_id)

lemma path_below_append [simp]: "path_below p (p @ q)"
  by (simp add: path_below_def)

lemma path_below_refl [simp]: "path_below p p"
  by (simp add: path_below_def)

lemma path_below_sibling: "x \<noteq> y \<Longrightarrow> \<not> path_below (p @ [x]) (p @ y # q)"
  by (simp add: path_below_def)

lemma mkdir_path_effect:
  assumes "mkdir_path os p t = (e, t')"
  shows "\<not> path_below q p \<Longrightarrow> t' q = t q" "t q \<noteq> None \<Longrightarrow> t' q = t q"
    "t' q \<noteq> None \<Longrightarrow> t q = None \<Longrightarrow> t' q = Some Fs_Dir \<and> path_below q p"
    "e = None \<Longrightarrow> k \<le> length p \<Longrightarrow> t' (take k p) = Some Fs_Dir"
proof -
  have cases: "t' = t \<or> (\<exists>n. t' = make_dirs n p t)"
    using assms by (auto simp: mkdir_path_def split: if_splits option.splits)
  show "\<not> path_below q p \<Longrightarrow> t' q = t q" "t q \<noteq> None \<Longrightarrow> t' q = t q"
    "t' q \<noteq> None \<Longrightarrow> t q = None \<Longrightarrow> t' q = Some Fs_Dir \<and> path_below q p"
    using cases by (auto simp: make_dirs_def split: if_splits)
  assume e: "e = None" and k: "k \<le> length p"
  have dirs: "t' = make_dirs (length p) p t" and none: "\<not> list_ex (\<lambda>k. is_file_node (t (take k p))) [0..<length p + 1]"
    using assms e by (auto simp: mkdir_path_def split: if_splits option.splits)
  have "\<not> is_file_node (t (take k p))" using none k by (auto simp: list_ex_iff simp del: upt_Suc)
  moreover have "path_below (take k p) p" by (metis path_below_iff append_take_drop_id)
  ultimately show "t' (take k p) = Some Fs_Dir"
    using k unfolding dirs make_dirs_def is_file_node_def by (auto split: option.splits fs_node.splits)
qed

text \<open>A temporary tree while it is built: nothing outside has changed, and it holds the files written so far.\<close>

definition building :: "file_tree \<Rightarrow> string list \<Rightarrow> scaffold_file list \<Rightarrow> file_tree \<Rightarrow> bool" where
  "building t0 tmp written t \<longleftrightarrow>
     (\<forall>q. \<not> path_below tmp q \<longrightarrow> t q = t0 q)
   \<and> (\<forall>k \<le> length tmp. t (take k tmp) = Some Fs_Dir)
   \<and> (\<forall>q. t (tmp @ q) \<noteq> None \<longrightarrow> q = [] \<or> (\<exists>f \<in> set written. path_below q (sf_path f)))
   \<and> (\<forall>q c m. t (tmp @ q) = Some (Fs_File c m) \<longrightarrow> (\<exists>f \<in> set written. sf_path f = q))
   \<and> (\<forall>f \<in> set written. t (tmp @ sf_path f) = Some (Fs_File (sf_content f) (sf_mode f)))"

lemma building_mkdir:
  assumes "building t0 tmp written t" "mkdir_path os (tmp @ d) t = (e, t')" "d = butlast (sf_path f)"
  shows "\<not> path_below tmp q \<Longrightarrow> t' q = t0 q"
    "k \<le> length tmp \<Longrightarrow> t' (take k tmp) = Some Fs_Dir"
    "t' (tmp @ q) \<noteq> None \<Longrightarrow> q = [] \<or> (\<exists>g \<in> set (written @ [f]). path_below q (sf_path g))"
    "t' (tmp @ q) = Some (Fs_File c m) \<Longrightarrow> \<exists>g \<in> set written. sf_path g = q"
    "g \<in> set written \<Longrightarrow> t' (tmp @ sf_path g) = Some (Fs_File (sf_content g) (sf_mode g))"
proof -
  note B = assms(1) [unfolded building_def] and M = mkdir_path_effect [OF assms(2)]
  show "\<not> path_below tmp q \<Longrightarrow> t' q = t0 q"
  proof -
    assume q: "\<not> path_below tmp q"
    show "t' q = t0 q"
    proof (cases "t q")
      case (Some x)
      then show ?thesis using M(2) [of q] B q by simp
    next
      case None
      have "\<not> path_below q (tmp @ d)"
      proof
        assume b: "path_below q (tmp @ d)"
        have "q = take (length q) (tmp @ d)" using b by (simp add: path_below_def)
        moreover have "length q \<le> length tmp"
          using q b by (metis append_eq_append_conv_if append_take_drop_id path_below_def path_below_iff nat_le_linear take_all)
        ultimately have "q = take (length q) tmp" by simp
        then show False using B \<open>length q \<le> length tmp\<close> None by (metis option.distinct(1))
      qed
      then show ?thesis using M(1) B q by simp
    qed
  qed
  show "k \<le> length tmp \<Longrightarrow> t' (take k tmp) = Some Fs_Dir" using B M(2) [of "take k tmp"] by simp
  show "t' (tmp @ q) \<noteq> None \<Longrightarrow> q = [] \<or> (\<exists>g \<in> set (written @ [f]). path_below q (sf_path g))"
  proof (cases "t (tmp @ q)")
    case None
    assume "t' (tmp @ q) \<noteq> None"
    then have "path_below (tmp @ q) (tmp @ d)" using M(3) [of "tmp @ q"] None by simp
    then have "path_below q d" by (auto simp: path_below_iff)
    moreover have "path_below d (sf_path f)" unfolding assms(3) by (auto simp: path_below_def take_butlast butlast_conv_take)
    ultimately show ?thesis by (auto simp: path_below_iff)
  next
    case (Some x)
    then show ?thesis using B by auto
  qed
  show "t' (tmp @ q) = Some (Fs_File c m) \<Longrightarrow> \<exists>g \<in> set written. sf_path g = q"
    using M(2,3) [of "tmp @ q"] B by (cases "t (tmp @ q)") auto
  show "g \<in> set written \<Longrightarrow> t' (tmp @ sf_path g) = Some (Fs_File (sf_content g) (sf_mode g))"
    using B M(2) [of "tmp @ sf_path g"] by simp
qed


lemma building_write:
  assumes "building t0 tmp written t" "mkdir_path os (tmp @ butlast (sf_path f)) t = (None, t1)"
    and "write_path os (tmp @ sf_path f) (sf_content f) (sf_mode f) t1 = (e, t')"
    and "sf_path f \<noteq> []" "sf_path f \<notin> sf_path ` set written"
  shows "\<not> path_below tmp q \<Longrightarrow> t' q = t0 q" "e = None \<Longrightarrow> building t0 tmp (written @ [f]) t'"
proof -
  note M = building_mkdir [OF assms(1,2) refl]
  let ?p = "tmp @ sf_path f"
  have fresh: "t1 ?p \<noteq> Some (Fs_File c m)" for c m
    using M(4) [of "sf_path f" c m] assms(5) by (metis image_eqI)
  have change: "t' q = t1 q" if "q \<noteq> ?p" for q
    using assms(3) that by (auto simp: write_path_def Let_def split: if_splits option.splits)
  show "\<not> path_below tmp q \<Longrightarrow> t' q = t0 q"
    using change [of q] M(1) [of q] by (cases "q = ?p") auto
  assume "e = None"
  then have new: "t' ?p = Some (Fs_File (sf_content f) (sf_mode f))"
    using assms(3) fresh by (auto simp: write_path_def Let_def split: if_splits option.splits fs_node.splits)
  have others: "t' (tmp @ q) = t1 (tmp @ q)" if "q \<noteq> sf_path f" for q using change that by simp
  show "building t0 tmp (written @ [f]) t'"
    unfolding building_def
  proof (intro conjI allI impI ballI)
    show "t' q = t0 q" if "\<not> path_below tmp q" for q using change [of q] M(1) [of q] that by (cases "q = ?p") auto
    show "t' (take k tmp) = Some Fs_Dir" if "k \<le> length tmp" for k
    proof -
      have "take k tmp \<noteq> ?p" using assms(4) by (metis append_eq_conv_conj append_take_drop_id self_append_conv take_all_iff that nat_le_linear take_take min_def length_take append_Nil2 drop_all append_self_conv)
      then show ?thesis using change M(2) [OF that] by simp
    qed
    show "q = [] \<or> (\<exists>g \<in> set (written @ [f]). path_below q (sf_path g))" if "t' (tmp @ q) \<noteq> None" for q
      using M(3) [of q] others [of q] that by (cases "q = sf_path f") auto
    show "\<exists>g \<in> set (written @ [f]). sf_path g = q" if "t' (tmp @ q) = Some (Fs_File c m)" for q c m
      using M(4) [of q c m] others [of q] that by (cases "q = sf_path f") auto
    show "t' (tmp @ sf_path g) = Some (Fs_File (sf_content g) (sf_mode g))" if "g \<in> set (written @ [f])" for g
    proof (cases "g \<in> set written")
      case True
      then have "sf_path g \<noteq> sf_path f" using assms(5) by (metis image_eqI)
      then show ?thesis using others M(5) [OF True] by simp
    next
      case False
      then show ?thesis using that new by simp
    qed
  qed
qed

lemma write_files_effect:
  assumes "building t0 tmp written t" "write_files os tmp fs t = (e, t')"
    and "distinct (map sf_path (written @ fs))" "\<forall>f \<in> set fs. sf_path f \<noteq> []"
  shows "(\<forall>q. \<not> path_below tmp q \<longrightarrow> t' q = t0 q) \<and> (e = None \<longrightarrow> building t0 tmp (written @ fs) t')"
  using assms
proof (induction fs arbitrary: written t)
  case Nil
  then show ?case by (simp add: building_def)
next
  case (Cons f fs)
  obtain e1 t1 where m: "mkdir_path os (tmp @ butlast (sf_path f)) t = (e1, t1)" by fastforce
  have path: "sf_path f \<noteq> []" "sf_path f \<notin> sf_path ` set written" using Cons.prems by auto
  then have dir: "butlast (tmp @ sf_path f) = tmp @ butlast (sf_path f)" by (simp add: butlast_append)
  note out = building_mkdir(1) [OF Cons.prems(1) m refl]
  show ?case
  proof (cases e1)
    case (Some x)
    then show ?thesis using Cons.prems(2) m dir out by auto
  next
    case None
    obtain e2 t2 where w: "write_path os (tmp @ sf_path f) (sf_content f) (sf_mode f) t1 = (e2, t2)" by fastforce
    note W = building_write [OF Cons.prems(1) m [unfolded None] w path]
    show ?thesis
    proof (cases e2)
      case (Some x)
      then show ?thesis using Cons.prems(2) m None w dir W(1) by auto
    next
      case ok: None
      have "write_files os tmp fs t2 = (e, t')" using Cons.prems(2) m None w ok dir by simp
      from Cons.IH [OF W(2) [OF ok] this] Cons.prems(3,4) show ?thesis by simp
    qed
  qed
qed

lemma remove_tree_effect: "remove_tree os p t = (e, t') \<Longrightarrow> \<not> path_below p q \<Longrightarrow> t' q = t q"
  by (auto simp: remove_tree_def split: option.splits)

text \<open>The state after the temporary directory was made.\<close>

lemma temporary_building:
  assumes "closed_tree t" "t target = None" "target \<noteq> []" "mkdir_path os (butlast target) t = (None, t1)"
    and "mkdir_temp os (butlast target) t1 = Inr (tmp, t2)" "\<forall>s p n. os_temp os s p = Inr n \<longrightarrow> n \<noteq> last target"
  shows "building t2 tmp [] t2" "\<not> path_below tmp q \<Longrightarrow> t2 q = t1 q" "\<not> path_below tmp (target @ q)" "t1 (tmp @ q) = None"
    "tmp \<noteq> []" "\<not> path_below target tmp" "t1 (target @ q) = None"
proof -
  note M = mkdir_path_effect [OF assms(4)]
  obtain name where name: "tmp = butlast target @ [name]" "t1 tmp = None" "t2 = t1(tmp \<mapsto> Fs_Dir)" "name \<noteq> last target"
    using assms(5,6) by (auto simp: mkdir_temp_def split: sum.splits if_splits)
  have target: "target = butlast target @ [last target]" using assms(3) by simp
  have gone: "t1 (butlast target @ x # q) = None" if "t (butlast target @ [x]) = None" for x q
  proof -
    have "t (butlast target @ x # q) = None" using closed_tree_below [OF assms(1) that, of q] by simp
    moreover have "\<not> path_below (butlast target @ x # q) (butlast target)" by (auto simp: path_below_iff)
    ultimately show ?thesis using M(1) by simp
  qed
  have "t tmp = None" using M(2) [of tmp] name(2) by (cases "t tmp") auto
  then show none: "t1 (tmp @ q) = None" for q using gone [of name q] unfolding name(1) by simp
  have at: "target @ q = butlast target @ last target # q" by (subst target) simp
  show "t1 (target @ q) = None" unfolding at by (rule gone) (use assms(2,3) in simp)
  show "tmp \<noteq> []" using name(1) by simp
  show side: "\<not> path_below tmp (target @ q)" unfolding name(1) by (subst target) (simp add: path_below_sibling name(4))
  show "\<not> path_below target tmp" unfolding name(1) by (subst target) (use path_below_sibling [of "last target" name "butlast target" "[]"] name(4) in simp)
  show "\<not> path_below tmp q \<Longrightarrow> t2 q = t1 q" using name(3) by auto
  show "building t2 tmp [] t2"
    unfolding building_def
  proof (intro conjI allI impI ballI)
    show "t2 (take k tmp) = Some Fs_Dir" if "k \<le> length tmp" for k
    proof (cases "k = length tmp")
      case True
      then show ?thesis using name(3) by simp
    next
      case False
      then have k: "k \<le> length (butlast target)" using that name(1) by simp
      then have "t1 (take k tmp) = Some Fs_Dir" using M(4) [OF refl k] unfolding name(1) by simp
      then show ?thesis using name(2,3) by auto
    qed
    show "q = [] \<or> (\<exists>f \<in> set []. path_below q (sf_path f))" if "t2 (tmp @ q) \<noteq> None" for q
      using that none [of q] name(3) by (auto split: if_splits)
    show "\<exists>f \<in> set []. sf_path f = q" if "t2 (tmp @ q) = Some (Fs_File c m)" for q c m
      using that none [of q] name(3) by (auto split: if_splits)
  qed simp_all
qed


section \<open>Properties\<close>

text \<open>C28. Whatever the operating system refuses, a tree is published whole or not at all: an existing target is never
  touched; after an error nothing is at the target; after success the target holds exactly the files, with their
  contents and modes; and nothing that existed before is changed.\<close>
theorem generated_trees_are_published_whole:
  assumes "publish_tree os target files t = (errs, t')" "closed_tree t" "target \<noteq> []"
    and "distinct (map sf_path files)" "\<forall>f \<in> set files. sf_path f \<noteq> []"
    and "\<forall>s p n. os_temp os s p = Inr n \<longrightarrow> n \<noteq> last target"
  shows "(t target \<noteq> None \<longrightarrow> errs \<noteq> [] \<and> t' = t)
    \<and> (errs \<noteq> [] \<longrightarrow> (\<forall>q. t' (target @ q) = t (target @ q)))
    \<and> (errs = [] \<longrightarrow> (\<forall>f \<in> set files. t' (target @ sf_path f) = Some (Fs_File (sf_content f) (sf_mode f)))
         \<and> (\<forall>q. t' (target @ q) \<noteq> None \<longrightarrow> q = [] \<or> (\<exists>f \<in> set files. path_below q (sf_path f))))
    \<and> (\<forall>q. t q \<noteq> None \<longrightarrow> t' q = t q)"
proof (cases "os_stat os t target = None \<and> t target = None")
  case False
  then show ?thesis using assms(1) by (cases "os_stat os t target") (auto simp: publish_tree_def)
next
  case True
  then have stat: "os_stat os t target = None" and none: "t target = None" by simp_all
  note absent = closed_tree_below [OF assms(2) none]
  obtain e1 t1 where m: "mkdir_path os (butlast target) t = (e1, t1)" by fastforce
  note M = mkdir_path_effect [OF m]
  have side: "\<not> path_below (target @ q) (butlast target)" for q
    using assms(3) by (cases target rule: rev_cases) (auto simp: path_below_iff)
  have kept1: "t1 (target @ q) = t (target @ q)" for q using M(1) [OF side] .
  show ?thesis
  proof (cases e1)
    case (Some e)
    then have "errs = [Parent_Failed e]" "t' = t1" using assms(1) stat none m by (simp_all add: publish_tree_def)
    then show ?thesis using none kept1 M(2) by simp
  next
    case m1: None
    show ?thesis
    proof (cases "mkdir_temp os (butlast target) t1")
      case (Inl e)
      then have "errs = [Temporary_Failed e]" "t' = t1" using assms(1) stat none m m1 by (simp_all add: publish_tree_def)
      then show ?thesis using none kept1 M(2) by simp
    next
      case (Inr tmp_t2)
      obtain tmp t2 where "mkdir_temp os (butlast target) t1 = Inr (tmp, t2)" using Inr by (cases tmp_t2) simp
      note tmp = this and T = temporary_building [OF assms(2) none assms(3) m [unfolded m1] this assms(6)]
      obtain e3 t3 where w: "write_files os tmp files t2 = (e3, t3)" by fastforce
      note W = write_files_effect [OF T(1) w, simplified, OF assms(4,5)]
      have out3: "t3 q = t1 q" if "\<not> path_below tmp q" for q using W that T(2) by simp
      have old_tmp: "\<not> path_below tmp q" if "t q \<noteq> None" for q
        using that T(4) M(2) [of q] by (auto simp: path_below_iff)
      have result: "publish_tree os target files t =
          (case e3 of
             Some err \<Rightarrow> (case remove_tree os tmp t3 of (e, t) \<Rightarrow> (err # (case e of Some e \<Rightarrow> [Remove_Failed e] | None \<Rightarrow> []), t))
           | None \<Rightarrow> (case rename_tree os tmp target t3 of
               (Some e, t) \<Rightarrow> (case remove_tree os tmp t of (e', t) \<Rightarrow> (Rename_Failed e # (case e' of Some e \<Rightarrow> [Remove_Failed e] | None \<Rightarrow> []), t))
             | (None, t) \<Rightarrow> ([], t)))"
        using stat none m m1 tmp w by (simp add: publish_tree_def Let_def split: option.split)
      have removed: ?thesis if "remove_tree os tmp t3 = (e, t')" "errs \<noteq> []" for e
      proof -
        have same: "t' q = t1 q" if "\<not> path_below tmp q" for q
          using remove_tree_effect [OF \<open>remove_tree os tmp t3 = (e, t')\<close> that] out3 [OF that] by simp
        have "t' (target @ q) = t (target @ q)" for q using same [OF T(3)] kept1 by simp
        moreover have "t' q = t q" if "t q \<noteq> None" for q using same [OF old_tmp [OF that]] M(2) [OF that] by simp
        ultimately show ?thesis using none that(2) by simp
      qed
      obtain e4 t4 where rn: "rename_tree os tmp target t3 = (e4, t4)" by fastforce
      show ?thesis
      proof (cases "e3 = None \<and> e4 = None")
        case False
        have same: "e4 \<noteq> None \<Longrightarrow> t4 = t3" using rn by (auto simp: rename_tree_def split: if_splits option.splits)
        obtain e5 t5 where rm: "remove_tree os tmp t3 = (e5, t5)" by fastforce
        have "t' = t5 \<and> errs \<noteq> []"
          using result assms(1) rn rm False same by (cases e3; cases e4) auto
        then show ?thesis using removed rm by auto
      next
        case True
        then have res: "errs = []" "t' = t4" using result assms(1) rn by auto
        have B: "building t2 tmp files t3" using W True by simp
        note B' = B [unfolded building_def]
        have t4: "t4 q = (if path_below target q then t3 (tmp @ drop (length target) q) else if path_below tmp q then None else t3 q)" for q
          using rn True by (auto simp: rename_tree_def split: if_splits option.splits)
        have inside: "t' (target @ q) = t3 (tmp @ q)" for q unfolding res t4 by simp
        have "t' q = t q" if "t q \<noteq> None" for q
        proof -
          have "\<not> path_below target q" using that absent by (auto simp: path_below_iff)
          then show ?thesis unfolding res t4 using old_tmp [OF that] out3 M(2) [OF that] by simp
        qed
        then show ?thesis using none res(1) inside B' by simp
      qed
    qed
  qed
qed


definition sample_os :: os_faults where
  "sample_os = \<lparr>os_stat = (\<lambda>t p. None), os_mkdir = (\<lambda>t p. None), os_temp = (\<lambda>t p. Inr ''.gpp-deploy-1''), os_write = (\<lambda>t p. None),
     os_rename = (\<lambda>t p. None), os_remove = (\<lambda>t p. None)\<rparr>"

definition empty_project :: file_tree where
  "empty_project = (\<lambda>q. if q = [] then Some Fs_Dir else None)"

definition sample_files :: "scaffold_file list" where
  "sample_files = [\<lparr>sf_path = [''main.tf''], sf_content = ''x'', sf_mode = 420\<rparr>, \<lparr>sf_path = [''modules'', ''db.tf''], sf_content = ''y'', sf_mode = 420\<rparr>]"

theorem generated_trees_are_published_whole_witness:
  "snd (publish_tree sample_os [''deploy'', ''aws''] sample_files empty_project) [''deploy'', ''aws'', ''modules'', ''db.tf''] = Some (Fs_File ''y'' 420)"
proof -
  let ?r = "publish_tree sample_os [''deploy'', ''aws''] sample_files empty_project"
  have run: "?r = ([], snd ?r)"
  proof -
    have "fst ?r = []" by code_simp
    then show ?thesis by (metis prod.collapse)
  qed
  have "closed_tree empty_project" by (simp add: closed_tree_def empty_project_def)
  from generated_trees_are_published_whole [OF run this]
  have "\<forall>f \<in> set sample_files. snd ?r ([''deploy'', ''aws''] @ sf_path f) = Some (Fs_File (sf_content f) (sf_mode f))"
    by (simp add: sample_files_def sample_os_def)
  then show ?thesis by (simp add: sample_files_def)
qed

text \<open>A single file is replaced without a question, whatever it held.\<close>

lemma plain_files_are_replaced:
  assumes "t [''middleware''] = Some Fs_Dir" "t [] = Some Fs_Dir" "t [''middleware'', name] = Some (Fs_File old 420)"
  shows "generate_plain_file sample_os ''middleware'' name content t = ([], t([''middleware'', name] \<mapsto> Fs_File content 420))"
proof -
  have "mkdir_path sample_os [''middleware''] t = (None, t)"
    using assms by (auto simp: mkdir_path_def sample_os_def is_file_node_def make_dirs_def path_below_def upt_rec fun_eq_iff take_Cons' split: if_splits)
  then show ?thesis using assms by (simp add: generate_plain_file_def write_path_def sample_os_def Let_def)
qed

section \<open>What can be extracted\<close>

definition portable_source :: "string \<Rightarrow> string \<Rightarrow> string \<Rightarrow> bool \<Rightarrow> go_source \<Rightarrow> bool" where
  "portable_source source own capability root_file s \<longleftrightarrow>
     (root_file \<longrightarrow> gs_package s = capability)
     \<and> (\<forall>i \<in> set (gs_imports s). \<exists>p. i = Some p \<and> (has_import_prefix p (source @ ''/internal'') \<longrightarrow> has_import_prefix p own))"

lemma audit_imports_None:
  "audit_imports source own is = None \<longleftrightarrow>
     (\<forall>i \<in> set is. \<exists>p. i = Some p \<and> (has_import_prefix p (source @ ''/internal'') \<longrightarrow> has_import_prefix p own))"
  by (induction source own "is" rule: audit_imports.induct) auto

lemma audit_go_file_Inr:
  "audit_go_file parse source own root_file capability content = Inr r \<longleftrightarrow>
     (\<exists>s. parse content = Inr s \<and> portable_source source own capability root_file s
        \<and> r = (root_file \<and> defines_function ''Build'' s, root_file \<and> defines_function ''Migrations'' s))"
  by (auto simp: audit_go_file_def portable_source_def audit_imports_None [symmetric] split: sum.splits option.splits)

lemma audit_go_file_Inl:
  "audit_go_file parse source own root_file capability content = Inl e \<Longrightarrow> parse content = Inr s
     \<Longrightarrow> \<not> portable_source source own capability root_file s"
  using audit_go_file_Inr [of parse source own root_file capability content] by fastforce

text \<open>The conditions on one entry, and what becomes of it.\<close>

definition portable_item :: "(string \<Rightarrow> string) \<Rightarrow> (string \<Rightarrow> string + go_source) \<Rightarrow> string \<Rightarrow> extract_options \<Rightarrow> walk_item \<Rightarrow> bool" where
  "portable_item lower parse source g item \<longleftrightarrow>
     (\<exists>path kind. item = Walk_Entry path kind \<and>
        (let name = (if path = [] then eo_capability g else last path)
         in case kind of
              Link_Kind \<Rightarrow> False
            | Dir_Kind \<Rightarrow> name \<notin> {''.git'', ''.terraform''}
            | Regular_Kind regular bytes mode content \<Rightarrow>
                \<not> is_sensitive_module_file lower name \<and> regular \<and> bytes \<le> 10485760 \<and> (\<exists>body. content = Inr body
                \<and> (has_suffix name ''.go'' \<longrightarrow> (\<exists>s. parse body = Inr s
                    \<and> portable_source source (module_prefix source (eo_capability g)) (eo_capability g) (length path = 1) s)))))"

definition item_defines :: "(string \<Rightarrow> string + go_source) \<Rightarrow> string \<Rightarrow> walk_item \<Rightarrow> bool" where
  "item_defines parse fn item \<longleftrightarrow>
     (\<exists>name regular bytes mode body s. item = Walk_Entry [name] (Regular_Kind regular bytes mode (Inr body)) \<and> has_suffix name ''.go''
        \<and> parse body = Inr s \<and> defines_function fn s)"

definition extracted_files :: "string \<Rightarrow> extract_options \<Rightarrow> walk_item \<Rightarrow> scaffold_file list" where
  "extracted_files source g item =
     (case item of
        Walk_Entry path (Regular_Kind regular bytes mode (Inr body)) \<Rightarrow>
          [\<lparr>sf_path = [''internal'', ''modules'', eo_capability g] @ path,
            sf_content = (if has_suffix (if path = [] then eo_capability g else last path) ''.go''
              then replace_all (module_prefix source (eo_capability g)) (module_prefix (eo_module g) (eo_capability g)) body else body),
            sf_mode = mode\<rparr>]
      | _ \<Rightarrow> [])"

lemma audit_entry_Inr:
  "audit_entry lower parse source g item = Inr r \<longleftrightarrow>
     portable_item lower parse source g item
     \<and> r = (extracted_files source g item, item_defines parse ''Build'' item, item_defines parse ''Migrations'' item)"
proof (cases item)
  case (Walk_Entry path kind)
  show ?thesis
  proof (cases kind)
    case (Regular_Kind regular bytes mode content)
    show ?thesis
    proof (cases content)
      case (Inr body)
      show ?thesis
        using Walk_Entry Regular_Kind Inr
        by (cases path; cases "tl path")
           (auto simp: audit_entry_def portable_item_def extracted_files_def item_defines_def audit_go_file_Inr Let_def split: sum.splits dest: audit_go_file_Inl)
    qed (use Walk_Entry Regular_Kind in \<open>auto simp: audit_entry_def portable_item_def Let_def\<close>)
  qed (use Walk_Entry in \<open>auto simp: audit_entry_def portable_item_def extracted_files_def item_defines_def Let_def\<close>)
qed (simp add: audit_entry_def portable_item_def)

lemma audit_walk_Inr:
  "audit_walk lower parse source g is files b m = Inr (files', b', m') \<longleftrightarrow>
     list_all (portable_item lower parse source g) is \<and> files' = files @ concat (map (extracted_files source g) is)
     \<and> (b' \<longleftrightarrow> b \<or> list_ex (item_defines parse ''Build'') is) \<and> (m' \<longleftrightarrow> m \<or> list_ex (item_defines parse ''Migrations'') is)"
proof (induction "is" arbitrary: files b m)
  case (Cons i "is")
  show ?case
  proof (cases "audit_entry lower parse source g i")
    case (Inl e)
    then have "\<not> portable_item lower parse source g i" using audit_entry_Inr [of lower parse source g i] by auto
    then show ?thesis using Inl by simp
  next
    case (Inr r)
    then show ?thesis using audit_entry_Inr [of lower parse source g i r] by (auto simp: Cons.IH)
  qed
qed auto

text \<open>A module is extracted exactly when every entry of it is portable: no links, no tool state, no file that looks like a
  secret, no source that imports an internal package of the monolith outside the module; and when its root package has the
  functions \<^verbatim>\<open>Build\<close> and \<^verbatim>\<open>Migrations\<close>. The files are then those of the module, in order, their import paths rewritten.\<close>
theorem extracted_modules_are_portable:
  "collect_portable_module lower parse source g items = Inr files \<longleftrightarrow>
     list_all (portable_item lower parse source g) items
     \<and> list_ex (item_defines parse ''Build'') items \<and> list_ex (item_defines parse ''Migrations'') items
     \<and> files = concat (map (extracted_files source g) items)"
proof (cases "audit_walk lower parse source g items [] False False")
  case (Inl e)
  then have "\<not> list_all (portable_item lower parse source g) items"
    using audit_walk_Inr [of lower parse source g items "[]" False False] by auto
  then show ?thesis using Inl by (simp add: collect_portable_module_def)
next
  case (Inr r)
  obtain fs b m where r: "r = (fs, b, m)" by (cases r)
  show ?thesis using audit_walk_Inr [of lower parse source g items "[]" False False fs b m] Inr r
    by (auto simp: collect_portable_module_def)
qed

text \<open>Only the exact name is taken for a secret.\<close>

lemma other_env_files_are_extracted: "\<not> is_sensitive_module_file to_lower ''.env.production''"
  by code_simp

end
