(* ===== verification/Provider_Clients.thy ===== *)
theory Provider_Clients
  imports Kafka_Queue Json_Binding Storage_Keys "HOL-Library.Word"
begin

text \<open>
  \<^verbatim>\<open>search/elasticsearch.go\<close> and \<^verbatim>\<open>notify/\<close>: the clients of services over HTTP. What a service answers is a
  parameter, and so are \<^verbatim>\<open>url.Parse\<close> and the coding of JSON; what is sent, how often and to whom is modelled.
\<close>

section \<open>Addresses\<close>

record service_url =
  su_scheme :: string
  su_host :: string
  su_path :: string
  su_user :: bool
  su_query :: string
  su_fragment :: string

datatype address_error = Bad_Address | Not_Https

definition check_service_url :: "bool \<Rightarrow> service_url option \<Rightarrow> address_error + service_url" where
  "check_service_url allow_http parsed =
     (case parsed of
        None \<Rightarrow> Inl Bad_Address
      | Some u \<Rightarrow>
          if su_host u = [] \<or> su_user u \<or> su_query u \<noteq> [] \<or> su_fragment u \<noteq> [] then Inl Bad_Address
          else if su_scheme u \<noteq> ''https'' \<and> \<not> (allow_http \<and> su_scheme u = ''http'') then Inl Not_Https
          else Inr u)"

section \<open>Elasticsearch\<close>

record es_config =
  es_addresses :: "string list"
  es_username :: string
  es_password :: string
  es_api_key :: string
  es_allow_http :: bool
  es_timeout :: int
  es_max_request :: int
  es_max_response :: int
  es_max_query :: int
  es_retries :: int

datatype es_error =
    Es_Not_Configured | Es_Two_Credentials | Es_Half_Credentials | Es_Bad_Address | Es_Not_Https
  | Es_Invalid_Index | Es_Invalid_Id | Es_Encode string | Es_Too_Large | Es_Query_Length
  | Es_Build string | Es_Request string | Es_Read | Es_Response_Too_Large | Es_Close string | Es_Status int | Es_Decode string
  | Es_No_Attempt | Es_Panic

fun check_addresses :: "(string \<Rightarrow> service_url option) \<Rightarrow> bool \<Rightarrow> string list \<Rightarrow> address_error + service_url list" where
  "check_addresses parse allow_http [] = Inr []"
| "check_addresses parse allow_http (a # as) =
     (case check_service_url allow_http (parse a) of
        Inl e \<Rightarrow> Inl e
      | Inr u \<Rightarrow> (case check_addresses parse allow_http as of Inl e \<Rightarrow> Inl e | Inr us \<Rightarrow> Inr (u # us)))"

definition normalize_es_config :: "(string \<Rightarrow> service_url option) \<Rightarrow> es_config \<Rightarrow> es_error + es_config \<times> service_url list" where
  "normalize_es_config parse g =
     (if es_addresses g = [] then Inl Es_Not_Configured
      else if es_api_key g \<noteq> [] \<and> (es_username g \<noteq> [] \<or> es_password g \<noteq> []) then Inl Es_Two_Credentials
      else if (es_username g = []) \<noteq> (es_password g = []) then Inl Es_Half_Credentials
      else case check_addresses parse (es_allow_http g) (es_addresses g) of
        Inl Bad_Address \<Rightarrow> Inl Es_Bad_Address
      | Inl Not_Https \<Rightarrow> Inl Es_Not_Https
      | Inr us \<Rightarrow>
          Inr (g\<lparr>es_timeout := default_positive 10000000000 (es_timeout g),
                 es_max_request := default_positive 5242880 (es_max_request g),
                 es_max_response := default_positive 10485760 (es_max_response g),
                 es_max_query := default_positive 4096 (es_max_query g),
                 es_retries := default_positive (int (length us) + 1) (es_retries g)\<rparr>, us))"

text \<open>A backslash, a slash and so on; the first byte must not be one of the last three.\<close>

definition valid_es_index :: "(string \<Rightarrow> string) \<Rightarrow> string \<Rightarrow> bool" where
  "valid_es_index lower index \<longleftrightarrow>
     \<not> (index = [] \<or> 255 < length index \<or> index \<noteq> lower index \<or> index = ''.'' \<or> index = ''..'')
     \<and> \<not> has_any_of index (CHR 0x5C # ''/*?'' @ CHR 0x22 # ''<>| ,#:'') \<and> \<not> has_any_of index line_space
     \<and> hd index \<notin> {CHR ''_'', CHR ''-'', CHR ''+''}"

definition valid_es_id :: "string \<Rightarrow> bool" where
  "valid_es_id i \<longleftrightarrow> \<not> (i = [] \<or> 512 < length i \<or> has_any_of i [CHR ''/'', CHR 0x5C, CHR 0x0D, CHR 0x0A, CHR 0x00])"

text \<open>\<^verbatim>\<open>url.PathEscape\<close>.\<close>

definition segment_escape :: "string \<Rightarrow> string" where
  "segment_escape s = concat (map (\<lambda>c. if plain_in_path c \<and> c \<notin> {CHR ''/'', CHR '','', CHR '';''} then [c]
     else [CHR ''%'', upper_hex ! (of_char c div 16), upper_hex ! (of_char c mod 16)]) s)"

subsection \<open>Requests\<close>

datatype es_auth = Api_Key string | Basic_Auth string string | No_Auth

record es_request =
  er_method :: string
  er_node :: nat                     \<comment> \<open>the position of the address\<close>
  er_path :: string                  \<comment> \<open>the field \<^verbatim>\<open>Path\<close> of the URL, which is printed escaped\<close>
  er_body :: "string option"
  er_auth :: es_auth

datatype es_answer =
    Not_Built string | No_Response string bool        \<comment> \<open>is the deadline of the call over?\<close>
  | Response int body_source "string option"          \<comment> \<open>status, body, error of closing it\<close>

record es_client =
  ec_config :: es_config
  ec_urls :: "service_url list"
  ec_next :: "64 word"

definition authorize :: "es_config \<Rightarrow> es_auth" where
  "authorize g =
     (if es_api_key g \<noteq> [] then Api_Key (es_api_key g)
      else if es_username g \<noteq> [] then Basic_Auth (es_username g) (es_password g) else No_Auth)"

definition retryable_es_status :: "int \<Rightarrow> bool" where
  "retryable_es_status s \<longleftrightarrow> s \<in> {429, 502, 503, 504}"

definition read_bounded :: "int \<Rightarrow> body_source \<Rightarrow> es_error + string" where
  "read_bounded limit src =
     (case read_limited (nat (sint (word_of_int (limit + 1) :: 64 word))) src of
        None \<Rightarrow> Inl Es_Read
      | Some content \<Rightarrow> if limit < int (length content) then Inl Es_Response_Too_Large else Inr content)"

text \<open>The remainder of Go has the sign of the dividend; a negative index panics.\<close>

definition go_rem :: "int \<Rightarrow> int \<Rightarrow> int" where
  "go_rem a b = (if a < 0 then - ((- a) mod b) else a mod b)"

definition es_request_for :: "es_client \<Rightarrow> string \<Rightarrow> string \<Rightarrow> string option \<Rightarrow> nat \<Rightarrow> es_request" where
  "es_request_for c mth path body i =
     \<lparr>er_method = mth, er_node = i, er_path = trim_suffix (su_path (ec_urls c ! i)) ''/'' @ path, er_body = body, er_auth = authorize (ec_config c)\<rparr>"

fun es_attempts ::
    "(es_request list \<Rightarrow> es_request \<Rightarrow> es_answer) \<Rightarrow> es_client \<Rightarrow> (nat \<Rightarrow> es_request) \<Rightarrow> int \<Rightarrow> nat \<Rightarrow> int \<Rightarrow> es_error \<Rightarrow> es_request list
       \<Rightarrow> (es_error + string) \<times> es_request list" where
  "es_attempts transport c req start 0 attempt err log = (Inl err, log)"
| "es_attempts transport c req start (Suc left) attempt err log =
     (let i = go_rem (start + attempt) (int (length (ec_urls c)))
      in if i < 0 then (Inl Es_Panic, log)
         else let r = req (nat i)
              in case transport log r of
                   Not_Built e \<Rightarrow> (Inl (Es_Build e), log)
                 | No_Response e over \<Rightarrow>
                     (if over then (Inl (Es_Request e), log @ [r])
                      else es_attempts transport c req start left (attempt + 1) (Es_Request e) (log @ [r]))
                 | Response status src closing \<Rightarrow>
                     (case read_bounded (es_max_response (ec_config c)) src of
                        Inl e \<Rightarrow> (Inl e, log @ [r])
                      | Inr content \<Rightarrow>
                          (case closing of
                             Some e \<Rightarrow> (Inl (Es_Close e), log @ [r])
                           | None \<Rightarrow>
                               if 200 \<le> status \<and> status < 300 then (Inr content, log @ [r])
                               else if \<not> retryable_es_status status then (Inl (Es_Status status), log @ [r])
                               else es_attempts transport c req start left (attempt + 1) (Es_Status status) (log @ [r]))))"

definition es_do ::
    "(es_request list \<Rightarrow> es_request \<Rightarrow> es_answer) \<Rightarrow> es_client \<Rightarrow> string \<Rightarrow> string \<Rightarrow> string option \<Rightarrow> (es_error + string) \<times> es_request list \<times> es_client" where
  "es_do transport c mth path body =
     (let start = go_rem (sint (ec_next c)) (int (length (ec_urls c)));
          (res, log) = es_attempts transport c (es_request_for c mth path body) start (nat (es_retries (ec_config c))) 0 Es_No_Attempt []
      in (res, log, c\<lparr>ec_next := ec_next c + 1\<rparr>))"

text \<open>\<^verbatim>\<open>NewElasticsearchClient\<close> asks the cluster once.\<close>

definition new_es_client ::
    "(string \<Rightarrow> service_url option) \<Rightarrow> (es_request list \<Rightarrow> es_request \<Rightarrow> es_answer) \<Rightarrow> es_config \<Rightarrow> es_error + es_client" where
  "new_es_client parse transport g =
     (case normalize_es_config parse g of
        Inl e \<Rightarrow> Inl e
      | Inr (g, urls) \<Rightarrow> (case es_do transport \<lparr>ec_config = g, ec_urls = urls, ec_next = 0\<rparr> ''GET'' ''/'' None of
          (Inl e, _, _) \<Rightarrow> Inl e
        | (Inr b, _, c) \<Rightarrow> Inr c))"

definition es_document_path :: "string \<Rightarrow> string \<Rightarrow> string" where
  "es_document_path index i = ''/'' @ segment_escape index @ ''/_doc/'' @ segment_escape i"

definition index_es_document ::
    "(string \<Rightarrow> string) \<Rightarrow> (es_request list \<Rightarrow> es_request \<Rightarrow> es_answer) \<Rightarrow> es_client option \<Rightarrow> string \<Rightarrow> string \<Rightarrow> string + string \<Rightarrow> es_error option \<times> es_request list" where
  "index_es_document lower transport client index i encoded =
     (case client of
        None \<Rightarrow> (Some Es_Not_Configured, [])
      | Some c \<Rightarrow>
          if ec_urls c = [] then (Some Es_Not_Configured, [])
          else if \<not> valid_es_index lower index then (Some Es_Invalid_Index, [])
          else if \<not> valid_es_id i then (Some Es_Invalid_Id, [])
          else (case encoded of
              Inl e \<Rightarrow> (Some (Es_Encode e), [])
            | Inr body \<Rightarrow>
                if es_max_request (ec_config c) < int (length body) then (Some Es_Too_Large, [])
                else (case es_do transport c ''PUT'' (es_document_path index i) (Some body) of
                    (Inl e, log, _) \<Rightarrow> (Some e, log)
                  | (Inr b, log, _) \<Rightarrow> (None, log))))"

text \<open>\<open>query_body\<close> encodes the query, \<open>decode\<close> reads the hits: identifier, score if there is one, document.\<close>

definition search_es_keyword ::
    "(string \<Rightarrow> string) \<Rightarrow> (string \<Rightarrow> string) \<Rightarrow> (string \<Rightarrow> string + (string \<times> 'n option \<times> 'd) list) \<Rightarrow> (es_request list \<Rightarrow> es_request \<Rightarrow> es_answer)
       \<Rightarrow> es_client option \<Rightarrow> string \<Rightarrow> string \<Rightarrow> (es_error + (string \<times> 'n option \<times> 'd) list) \<times> es_request list" where
  "search_es_keyword lower query_body decode transport client index query =
     (case client of
        None \<Rightarrow> (Inl Es_Not_Configured, [])
      | Some c \<Rightarrow>
          if ec_urls c = [] then (Inl Es_Not_Configured, [])
          else if \<not> valid_es_index lower index then (Inl Es_Invalid_Index, [])
          else let query = trim_space query
               in if query = [] \<or> es_max_query (ec_config c) < int (length query) then (Inl Es_Query_Length, [])
                  else (case es_do transport c ''POST'' (''/'' @ segment_escape index @ ''/_search'') (Some (query_body query)) of
                      (Inl e, log, _) \<Rightarrow> (Inl e, log)
                    | (Inr b, log, _) \<Rightarrow> (case decode b of Inl e \<Rightarrow> (Inl (Es_Decode e), log) | Inr hits \<Rightarrow> (Inr hits, log))))"

section \<open>The legacy engine in memory\<close>

type_synonym 'd legacy_store = "(string \<times> (string \<times> 'd) list) list"

definition legacy_index :: "string \<Rightarrow> string \<Rightarrow> 'd \<Rightarrow> 'd legacy_store \<Rightarrow> 'd legacy_store" where
  "legacy_index name i d s = AList.update name (AList.update i d (case map_of s name of None \<Rightarrow> [] | Some docs \<Rightarrow> docs)) s"

definition legacy_search :: "(string \<Rightarrow> string) \<Rightarrow> string \<Rightarrow> string \<Rightarrow> 'd legacy_store \<Rightarrow> (string \<times> 'd) list" where
  "legacy_search lower name query s =
     (case map_of s name of None \<Rightarrow> [] | Some docs \<Rightarrow> filter (\<lambda>(i, d). contains_str (lower i) (lower query)) docs)"

section \<open>Notifications\<close>

record email_message =
  em_to :: string
  em_subject :: string
  em_body :: string
  em_html :: bool

record sms_message =
  sm_to :: string
  sm_text :: string

datatype notify_error =
    Email_Not_Configured | Sms_Not_Configured | No_Provider | Bad_Recipient | Bad_Subject | Bad_Body
  | Api_Key_Required | Bad_Sender | Bad_Sender_Name | Bad_Endpoint address_error
  | Bad_Account | Auth_Token_Required | One_Sender_Required | Bad_Phone | Bad_Service | Bad_Text
  | Notify_Encode string | Notify_Build string | Notify_Request string | Notify_Read string | Notify_Close string | Notify_Status int

text \<open>\<open>mailbox\<close> is \<^verbatim>\<open>mail.ParseAddress\<close>: the address in the text.\<close>

definition valid_email_address :: "(string \<Rightarrow> string option) \<Rightarrow> string \<Rightarrow> bool" where
  "valid_email_address mailbox a \<longleftrightarrow> mailbox a = Some a \<and> \<not> has_any_of a [CHR 0x0D, CHR 0x0A]"

definition validate_email_message :: "(string \<Rightarrow> string option) \<Rightarrow> int \<Rightarrow> email_message \<Rightarrow> notify_error option" where
  "validate_email_message mailbox limit m =
     (if \<not> valid_email_address mailbox (em_to m) then Some Bad_Recipient
      else if trim_space (em_subject m) = [] \<or> 998 < length (em_subject m) \<or> has_any_of (em_subject m) [CHR 0x0D, CHR 0x0A] then Some Bad_Subject
      else if em_body m = [] \<or> limit < int (length (em_body m)) then Some Bad_Body else None)"

text \<open>What the service answers to a request: an error, or a status and the errors of reading and closing the body.\<close>

datatype provider_answer = Provider_Unbuilt string | Provider_Silent string | Provider_Status int "string option" "string option"

definition execute_notification :: "provider_answer \<Rightarrow> notify_error option" where
  "execute_notification a =
     (case a of
        Provider_Unbuilt e \<Rightarrow> Some (Notify_Build e)
      | Provider_Silent e \<Rightarrow> Some (Notify_Request e)
      | Provider_Status s (Some e) _ \<Rightarrow> Some (Notify_Read e)
      | Provider_Status s None (Some e) \<Rightarrow> Some (Notify_Close e)
      | Provider_Status s None None \<Rightarrow> if s < 200 \<or> 300 \<le> s then Some (Notify_Status s) else None)"

record sendgrid_config =
  sg_api_key :: string
  sg_from :: string
  sg_name :: string
  sg_endpoint :: string
  sg_timeout :: int
  sg_max_body :: int
  sg_allow_http :: bool

definition new_sendgrid ::
    "(string \<Rightarrow> string option) \<Rightarrow> (string \<Rightarrow> service_url option) \<Rightarrow> sendgrid_config \<Rightarrow> notify_error + sendgrid_config \<times> service_url" where
  "new_sendgrid mailbox parse g =
     (if trim_space (sg_api_key g) = [] then Inl Api_Key_Required
      else if \<not> valid_email_address mailbox (sg_from g) then Inl Bad_Sender
      else if has_any_of (sg_name g) [CHR 0x0D, CHR 0x0A] \<or> 256 < length (sg_name g) then Inl Bad_Sender_Name
      else let g = g\<lparr>sg_endpoint := if sg_endpoint g = [] then ''https://api.sendgrid.com/v3/mail/send'' else sg_endpoint g\<rparr>
           in case check_service_url (sg_allow_http g) (parse (sg_endpoint g)) of
                Inl e \<Rightarrow> Inl (Bad_Endpoint e)
              | Inr u \<Rightarrow> Inr (g\<lparr>sg_timeout := default_positive 10000000000 (sg_timeout g),
                                sg_max_body := default_positive 1048576 (sg_max_body g)\<rparr>, u))"

record sendgrid_mail =
  sm_recipient :: string
  sm_sender :: string
  sm_sender_name :: string
  sm_subject :: string
  sm_type :: string
  sm_value :: string

definition sendgrid_mail_of :: "sendgrid_config \<Rightarrow> email_message \<Rightarrow> sendgrid_mail" where
  "sendgrid_mail_of g m =
     \<lparr>sm_recipient = em_to m, sm_sender = sg_from g, sm_sender_name = sg_name g, sm_subject = em_subject m,
      sm_type = (if em_html m then ''text/html'' else ''text/plain''), sm_value = em_body m\<rparr>"

text \<open>The result and the requests: the authorization and the encoded mail.\<close>

definition send_email ::
    "(string \<Rightarrow> string option) \<Rightarrow> (sendgrid_mail \<Rightarrow> string + string) \<Rightarrow> (string \<Rightarrow> provider_answer) \<Rightarrow> (sendgrid_config \<times> service_url) option
       \<Rightarrow> email_message \<Rightarrow> notify_error option \<times> (service_url \<times> string \<times> string) list" where
  "send_email mailbox encode transport provider m =
     (case provider of
        None \<Rightarrow> (Some Email_Not_Configured, [])
      | Some (g, u) \<Rightarrow> (case validate_email_message mailbox (sg_max_body g) m of
          Some e \<Rightarrow> (Some e, [])
        | None \<Rightarrow> (case encode (sendgrid_mail_of g m) of
            Inl e \<Rightarrow> (Some (Notify_Encode e), [])
          | Inr body \<Rightarrow> (execute_notification (transport body), [(u, ''Bearer '' @ sg_api_key g, body)]))))"

record twilio_config =
  tw_account :: string
  tw_token :: string
  tw_phone :: string
  tw_service :: string
  tw_endpoint :: string
  tw_timeout :: int
  tw_max_text :: int
  tw_allow_http :: bool

definition twilio_sid :: "string \<Rightarrow> string \<Rightarrow> bool" where
  "twilio_sid pre s \<longleftrightarrow> take 2 s = pre \<and> length s = 34 \<and> list_all (\<lambda>c. hex_val c \<noteq> None) (drop 2 s)"

definition e164_phone :: "string \<Rightarrow> bool" where
  "e164_phone s \<longleftrightarrow> 9 \<le> length s \<and> length s \<le> 16 \<and> hd s = CHR ''+'' \<and> s ! 1 \<noteq> CHR ''0'' \<and> list_all is_digit (tl s)"

definition new_twilio :: "(string \<Rightarrow> service_url option) \<Rightarrow> twilio_config \<Rightarrow> notify_error + twilio_config \<times> service_url" where
  "new_twilio parse g =
     (if \<not> twilio_sid ''AC'' (tw_account g) then Inl Bad_Account
      else if trim_space (tw_token g) = [] then Inl Auth_Token_Required
      else if (tw_phone g \<noteq> []) = (tw_service g \<noteq> []) then Inl One_Sender_Required
      else if tw_phone g \<noteq> [] \<and> \<not> e164_phone (tw_phone g) then Inl Bad_Phone
      else if tw_service g \<noteq> [] \<and> \<not> twilio_sid ''MG'' (tw_service g) then Inl Bad_Service
      else let g = g\<lparr>tw_endpoint := if tw_endpoint g = [] then ''https://api.twilio.com'' else tw_endpoint g\<rparr>
           in case check_service_url (tw_allow_http g) (parse (tw_endpoint g)) of
                Inl e \<Rightarrow> Inl (Bad_Endpoint e)
              | Inr u \<Rightarrow> Inr (g\<lparr>tw_timeout := default_positive 10000000000 (tw_timeout g),
                                tw_max_text := default_positive 1600 (tw_max_text g)\<rparr>, u))"

text \<open>The request: the path, the credentials and the fields of the form.\<close>

definition send_sms ::
    "((string \<times> string) list \<Rightarrow> provider_answer) \<Rightarrow> (twilio_config \<times> service_url) option \<Rightarrow> sms_message
       \<Rightarrow> notify_error option \<times> (service_url \<times> (string \<times> string) \<times> (string \<times> string) list) list" where
  "send_sms transport provider m =
     (case provider of
        None \<Rightarrow> (Some Sms_Not_Configured, [])
      | Some (g, u) \<Rightarrow>
          if \<not> e164_phone (sm_to m) then (Some Bad_Phone, [])
          else if sm_text m = [] \<or> tw_max_text g < int (length (sm_text m)) then (Some Bad_Text, [])
          else let form = [(''To'', sm_to m), (''Body'', sm_text m),
                     if tw_phone g \<noteq> [] then (''From'', tw_phone g) else (''MessagingServiceSid'', tw_service g)];
                   u = u\<lparr>su_path := trim_suffix (su_path u) ''/'' @ ''/2010-04-01/Accounts/'' @ tw_account g @ ''/Messages.json''\<rparr>
               in (execute_notification (transport form), [(u, (tw_account g, tw_token g), form)]))"

definition new_notifier :: "'e option \<Rightarrow> 's option \<Rightarrow> notify_error + 'e option \<times> 's option" where
  "new_notifier email sms = (if email = None \<and> sms = None then Inl No_Provider else Inr (email, sms))"

section \<open>Lemmas\<close>

lemma checked_urls_are_secure:
  "check_service_url allow_http p = Inr u \<Longrightarrow>
     p = Some u \<and> su_host u \<noteq> [] \<and> \<not> su_user u \<and> (su_scheme u = ''https'' \<or> allow_http \<and> su_scheme u = ''http'')"
  by (auto simp: check_service_url_def split: option.splits if_splits)

lemma check_addresses_secure:
  "check_addresses parse allow_http as = Inr us \<Longrightarrow>
     length us = length as \<and> (\<forall>u \<in> set us. su_host u \<noteq> [] \<and> (su_scheme u = ''https'' \<or> allow_http \<and> su_scheme u = ''http''))"
proof (induction "as" arbitrary: us)
  case Nil
  then show ?case by simp
next
  case (Cons a rest)
  then obtain u vs where uv: "check_service_url allow_http (parse a) = Inr u" "check_addresses parse allow_http rest = Inr vs" "us = u # vs"
    by (auto split: sum.splits)
  with Cons.IH [OF uv(2)] checked_urls_are_secure [OF uv(1)] show ?case by simp
qed

text \<open>Every accepted configuration has a node, and one attempt more than it has nodes when none are named.\<close>

lemma es_config_accepted:
  assumes "normalize_es_config parse g = Inr (g', us)"
  shows "us \<noteq> [] \<and> length us = length (es_addresses g) \<and> es_retries g' \<ge> 1
    \<and> (es_retries g \<le> 0 \<longrightarrow> es_retries g' = int (length us) + 1)
    \<and> (\<forall>u \<in> set us. su_scheme u = ''https'' \<or> es_allow_http g \<and> su_scheme u = ''http'')"
proof -
  have a: "es_addresses g \<noteq> []" "check_addresses parse (es_allow_http g) (es_addresses g) = Inr us"
    and r: "es_retries g' = default_positive (int (length us) + 1) (es_retries g)"
    using assms by (auto simp: normalize_es_config_def split: if_splits sum.splits address_error.splits)
  from check_addresses_secure [OF a(2)] a(1) show ?thesis by (auto simp: r default_positive_def)
qed

text \<open>A node is down: it does not answer in time, or with a status that is tried again.\<close>

definition node_down :: "es_client \<Rightarrow> es_answer \<Rightarrow> bool" where
  "node_down c a \<longleftrightarrow>
     (case a of
        Not_Built e \<Rightarrow> False
      | No_Response e over \<Rightarrow> \<not> over
      | Response s src closing \<Rightarrow>
          retryable_es_status s \<and> closing = None \<and> (case read_bounded (es_max_response (ec_config c)) src of Inl e \<Rightarrow> False | Inr b \<Rightarrow> True))"

definition node_serves :: "es_client \<Rightarrow> string \<Rightarrow> es_answer \<Rightarrow> bool" where
  "node_serves c b a \<longleftrightarrow>
     (case a of
        Response s src closing \<Rightarrow>
          200 \<le> s \<and> s < 300 \<and> closing = None \<and> read_bounded (es_max_response (ec_config c)) src = Inr b
      | _ \<Rightarrow> False)"

lemma attempt_down:
  assumes "node_down c (transport log (req (nat i)))" "i = go_rem (start + attempt) (int (length (ec_urls c)))" "0 \<le> i"
  shows "\<exists>e. es_attempts transport c req start (Suc k) attempt err log
    = es_attempts transport c req start k (attempt + 1) e (log @ [req (nat i)])"
  using assms
  by (auto simp: node_down_def Let_def retryable_es_status_def split: es_answer.splits sum.splits)

lemma attempt_serves:
  assumes "node_serves c b (transport log (req (nat i)))" "i = go_rem (start + attempt) (int (length (ec_urls c)))" "0 \<le> i"
  shows "es_attempts transport c req start (Suc k) attempt err log = (Inr b, log @ [req (nat i)])"
  using assms by (auto simp: node_serves_def Let_def split: es_answer.splits)

lemma go_rem_nonneg: "0 \<le> a \<Longrightarrow> go_rem a b = a mod b" by (simp add: go_rem_def)

text \<open>The nodes are asked in a ring from \<open>start\<close>, up to the first that serves.\<close>

lemma attempts_reach_node:
  assumes "0 \<le> start" "0 \<le> attempt" "ec_urls c \<noteq> []" "d < k"
    and ring: "n = (\<lambda>j. nat ((start + attempt + int j) mod int (length (ec_urls c))))"
    and serves: "\<And>log. node_serves c b (transport log (req (n d)))"
    and down: "\<And>log j. j < d \<Longrightarrow> node_down c (transport log (req (n j)))"
  shows "es_attempts transport c req start k attempt err log = (Inr b, log @ map (\<lambda>j. req (n j)) [0..<Suc d])"
  using assms(2-)
proof (induction d arbitrary: attempt k err log n)
  case 0
  let ?i = "(start + attempt) mod int (length (ec_urls c))"
  obtain k' where k: "k = Suc k'" using 0(3) by (cases k) auto
  have "0 \<le> ?i" using 0(2) by simp
  moreover have "node_serves c b (transport log (req (nat ?i)))" using 0(5) [of log] by (simp add: 0(4))
  ultimately have "es_attempts transport c req start k attempt err log = (Inr b, log @ [req (nat ?i)])"
    unfolding k using assms(1) 0(1) by (intro attempt_serves) (simp_all add: go_rem_nonneg)
  then show ?case by (simp add: 0(4))
next
  case (Suc d)
  let ?i = "(start + attempt) mod int (length (ec_urls c))"
  let ?n = "\<lambda>j. n (Suc j)"
  obtain k' where k: "k = Suc k'" using Suc.prems(3) by (cases k) auto
  have i: "0 \<le> ?i" using Suc.prems(2) by simp
  have "node_down c (transport log (req (nat ?i)))" using Suc.prems(6) [of 0 log] by (simp add: Suc.prems(4))
  moreover have "?i = go_rem (start + attempt) (int (length (ec_urls c)))" using assms(1) Suc.prems(1) by (simp add: go_rem_nonneg)
  ultimately obtain e where e: "es_attempts transport c req start (Suc k') attempt err log
      = es_attempts transport c req start k' (attempt + 1) e (log @ [req (nat ?i)])"
    using attempt_down i by metis
  have shift: "?n = (\<lambda>j. nat ((start + (attempt + 1) + int j) mod int (length (ec_urls c))))"
    by (rule ext) (simp add: Suc.prems(4) algebra_simps)
  have "es_attempts transport c req start k' (attempt + 1) e (log @ [req (nat ?i)])
      = (Inr b, (log @ [req (nat ?i)]) @ map (\<lambda>j. req (?n j)) [0..<Suc d])"
  proof (rule Suc.IH [OF _ Suc.prems(2) _ shift])
    show "0 \<le> attempt + 1" using Suc.prems(1) by simp
    show "d < k'" using Suc.prems(3) by (simp add: k)
    show "node_serves c b (transport log (req (?n d)))" for log by (rule Suc.prems(5))
    show "node_down c (transport log (req (?n j)))" if "j < d" for log j using Suc.prems(6) [of "Suc j" log] that by simp
  qed
  moreover have "req (nat ?i) = req (n 0)" by (simp add: Suc.prems(4))
  moreover have "map (\<lambda>j. req (n j)) [0..<Suc (Suc d)] = req (n 0) # map (\<lambda>j. req (?n j)) [0..<Suc d]"
    by (simp only: upt_conv_Cons [of 0] map_Suc_upt [symmetric] list.map map_map comp_def zero_less_Suc)
  ultimately show ?case unfolding k e by simp
qed

lemma ring_injective:
  assumes "j < m" "j' < m" "nat ((s + int j) mod int m) = nat ((s + int j') mod int m)"
  shows "j = j'"
proof -
  have "(s + int j) mod int m = (s + int j') mod int m" using assms by (metis eq_nat_nat_iff gr_zeroI not_less0 of_nat_0_less_iff pos_mod_sign)
  then have "(int j - int j') mod int m = 0" by (metis add_diff_cancel_left mod_0_imp_dvd mod_eq_dvd_iff dvd_imp_mod_0)
  then have "int m dvd int j - int j'" by auto
  moreover have "\<bar>int j - int j'\<bar> < int m" using assms(1,2) by linarith
  ultimately have "int j - int j' = 0" using zdvd_imp_le [of "int m" "\<bar>int j - int j'\<bar>"] by (metis abs_of_nonneg abs_zero dvd_abs_iff linorder_not_less zero_less_abs_iff zdvd_imp_le)
  then show ?thesis by simp
qed

text \<open>One node that serves is enough, however many others are down; no node is asked twice before it.\<close>

lemma one_live_node_is_enough:
  assumes "0 \<le> sint (ec_next c)" "k < length (ec_urls c)" "int (length (ec_urls c)) \<le> es_retries (ec_config c)"
    and serves: "\<And>log r. er_node r = k \<Longrightarrow> node_serves c b (transport log r)"
    and down: "\<And>log r. er_node r < length (ec_urls c) \<Longrightarrow> er_node r \<noteq> k \<Longrightarrow> node_down c (transport log r)"
    and go: "es_do transport c mth path body = (res, log, c')"
  shows "res = Inr b \<and> length log \<le> length (ec_urls c) \<and> distinct (map er_node log) \<and> (log \<noteq> [] \<and> er_node (last log) = k)"
proof -
  let ?m = "length (ec_urls c)"
  let ?s = "sint (ec_next c) mod int ?m"
  define n where "n = (\<lambda>j. nat ((?s + 0 + int j) mod int ?m))"
  define d where "d = nat ((int k - ?s) mod int ?m)"
  have m: "0 < ?m" using assms(2) by linarith
  have s: "0 \<le> ?s" using m by simp
  have d: "d < ?m" using m by (simp add: d_def nat_less_iff)
  have nd: "n d = k"
  proof -
    have "(?s + 0 + int d) mod int ?m = int k mod int ?m" using m by (simp add: d_def mod_simps)
    then show ?thesis using assms(2) by (simp add: n_def)
  qed
  have inj: "j = j'" if "j < ?m" "j' < ?m" "n j = n j'" for j j'
    by (rule ring_injective [of j ?m j' ?s]) (use that in \<open>simp_all add: n_def\<close>)
  have node: "er_node (es_request_for c mth path body i) = i" for i by (simp add: es_request_for_def)
  have run: "es_attempts transport c (es_request_for c mth path body) ?s (nat (es_retries (ec_config c))) 0 Es_No_Attempt []
      = (Inr b, [] @ map (\<lambda>j. es_request_for c mth path body (n j)) [0..<Suc d])"
  proof (rule attempts_reach_node [OF s _ _ _ n_def])
    show "ec_urls c \<noteq> []" using m by auto
    show "d < nat (es_retries (ec_config c))" using d assms(3) by linarith
    show "node_serves c b (transport log (es_request_for c mth path body (n d)))" for log by (rule serves) (simp add: node nd)
    show "node_down c (transport log (es_request_for c mth path body (n j)))" if "j < d" for log j
    proof (rule down)
      show "er_node (es_request_for c mth path body (n j)) < ?m" using m by (simp add: node n_def nat_less_iff)
      show "er_node (es_request_for c mth path body (n j)) \<noteq> k" using inj [of j d] that d nd by (auto simp: node)
    qed
  qed simp
  have "res = Inr b" and log: "log = map (\<lambda>j. es_request_for c mth path body (n j)) [0..<Suc d]"
    using go run assms(1) by (simp_all add: es_do_def go_rem_nonneg Let_def)
  moreover have "inj_on n {0..<Suc d}" by (rule inj_onI, rule inj) (use d in auto)
  then have "distinct (map er_node log)" by (simp add: log comp_def node distinct_map del: upt_Suc)
  moreover have "length log \<le> ?m" using d by (simp add: log)
  ultimately show ?thesis using nd by (simp add: node)
qed

lemma one_live_node_example:
  assumes "c = \<lparr>ec_config = \<lparr>es_addresses = [], es_username = [], es_password = [], es_api_key = [], es_allow_http = False,
      es_timeout = 1, es_max_request = 9, es_max_response = 9, es_max_query = 9, es_retries = 3\<rparr>,
      ec_urls = replicate 2 \<lparr>su_scheme = ''https'', su_host = ''h'', su_path = '''', su_user = False, su_query = '''', su_fragment = ''''\<rparr>, ec_next = 4\<rparr>"
    and "transport = (\<lambda>log r. if er_node r = 1 then Response 200 \<lparr>bs_bytes = ''ok'', bs_fails = False\<rparr> None else No_Response ''refused'' False)"
    and "es_do transport c ''GET'' ''/'' None = (res, log, c')"
  shows "res = Inr ''ok'' \<and> length log \<le> 2"
proof -
  have "res = Inr ''ok'' \<and> length log \<le> length (ec_urls c) \<and> distinct (map er_node log) \<and> (log \<noteq> [] \<and> er_node (last log) = 1)"
  proof (rule one_live_node_is_enough [OF _ _ _ _ _ assms(3)])
    show "node_serves c ''ok'' (transport l r)" if "er_node r = 1" for l r
      using that by (simp add: assms(1,2) node_serves_def read_bounded_def read_limited_def)
    show "node_down c (transport l r)" if "er_node r < length (ec_urls c)" "er_node r \<noteq> 1" for l r
      using that by (simp add: assms(1,2) node_down_def)
  qed (simp_all add: assms(1))
  then show ?thesis by (simp add: assms(1))
qed

text \<open>A document is written under the name of its identifier escaped once more than \<^verbatim>\<open>url.PathEscape\<close> escapes it.\<close>

lemma document_names_are_escaped_twice:
  "valid_es_id ''a b'' \<and> path_unescape (path_escape (es_document_path ''posts'' ''a b'')) = Some ''/posts/_doc/a%20b''"
  by code_simp

text \<open>A message goes out at most once, checked, over an address that is HTTPS unless the configuration says otherwise.\<close>

lemma sms_requests_are_checked:
  assumes "new_twilio parse g = Inr p" "send_sms transport (Some p) m = (res, log)"
  shows "length log \<le> 1 \<and> (\<forall>(u, auth, form) \<in> set log. e164_phone (sm_to m) \<and> sm_text m \<noteq> [] \<and> (su_scheme u = ''https'' \<or> tw_allow_http g)
      \<and> (res = None \<longrightarrow> (\<exists>s. transport form = Provider_Status s None None \<and> 200 \<le> s \<and> s < 300)))"
proof -
  obtain g' u where p: "p = (g', u)" by (cases p)
  have "su_scheme u = ''https'' \<or> tw_allow_http g"
    using assms(1) unfolding p new_twilio_def Let_def
    by (auto split: if_splits sum.splits dest!: checked_urls_are_secure)
  then show ?thesis
    using assms(2) unfolding p
    by (auto simp: send_sms_def Let_def execute_notification_def split: if_splits provider_answer.splits option.splits)
qed

end
