(* ===== verification/Spec2Isabelle.thy ===== *)
theory Spec2Isabelle
  imports
    Router_Table Context_Chain Request_Errors Request_Params
    Resilience Saga Kv_Cache Ids Bloom_Sketches Idempotency Rate_Limit
    Outbox Search_Resource Auth_Session Auth_Token Auth_Password
    Redis_Idempotency Singleflight Validation_Walk
    Search_Sql Migrations Redis_Cache User_Resource Config Graphql_Guard
    Edge_Middleware Context_Timeout Task_Tracker Realtime Storage_Keys
    Kafka_Queue Message_Bus Database_Client Ephemeral_Pages Repository I18n Json_Binding Lifecycle Context_Response Cli_Publish
    Provider_Clients
begin

text \<open>
  A verification library for the Go framework goplusplus (gpp): its router and request pipeline, the
  middlewares that keep state between requests, authentication, caches, the outbox, search, the mapper
  and the migrations. Every definition is translated from the file under \<^verbatim>\<open>src/\<close> that the opening text of
  its theory names; the theorems of the numbered texts (C1 to C40) are the properties.

  \<^bold>\<open>How the parts interact.\<close> \<^verbatim>\<open>Engine.ServeHTTP\<close> (\<^verbatim>\<open>gpp.go\<close>) asks the tree of a method (\<^verbatim>\<open>tree.go\<close>) for a
  chain of handlers and falls back to the static mounts; the chain (\<^verbatim>\<open>context.go\<close>) is what the route groups
  (\<^verbatim>\<open>router.go\<close>) assembled: middlewares first, the handler last. A middleware calls \<^verbatim>\<open>Next\<close>, answers itself,
  or returns an error that the default error handler turns into a problem document (\<^verbatim>\<open>errors.go\<close>). The
  handlers read parameters and pages (\<^verbatim>\<open>request_parameters.go\<close>), bind and validate bodies (\<^verbatim>\<open>validation*.go\<close>),
  and use the process-local or Redis caches, the outbox, the search resources and the mapper.

  \<^bold>\<open>Theories, in the order of their dependencies.\<close>
  \<^item> \<^verbatim>\<open>Gpp_Prelude\<close>, \<^verbatim>\<open>Go_Strconv\<close>, \<^verbatim>\<open>Go_Maps\<close>: what several components use of Go's \<^verbatim>\<open>strings\<close>, \<^verbatim>\<open>strconv\<close>,
    \<^verbatim>\<open>unicode/utf8\<close>, \<^verbatim>\<open>encoding/base64\<close> and of maps (association lists with the laws of update and delete).
  \<^item> \<^verbatim>\<open>Router_Tree\<close>, \<^verbatim>\<open>Router_Match\<close>, \<^verbatim>\<open>Router_Table\<close>, \<^verbatim>\<open>Router_Engine\<close>: the radix tree of \<^verbatim>\<open>tree.go\<close> as a nested
    datatype (pointer updates are functional updates along the path); \<^verbatim>\<open>route_match\<close> is what a pattern means
    on its own; the locale \<^verbatim>\<open>route_table\<close> is what the engine needs of a tree and \<^verbatim>\<open>radix\<close> interprets it on the
    code's tree. C1 and C2 are its refinement and its failure modes;
    \<^verbatim>\<open>routes_are_never_shadowed\<close> is the precedence over static mounts.
  \<^item> \<^verbatim>\<open>Context_Chain\<close>, \<^verbatim>\<open>Context_Values\<close>: \<^verbatim>\<open>Next\<close> and \<^verbatim>\<open>Abort\<close> with the 8-bit index, and the values of a request.
    A handler is a list of actions, so middlewares may call \<^verbatim>\<open>Next\<close> any number of times.
  \<^item> \<^verbatim>\<open>Request_Errors\<close>, \<^verbatim>\<open>Request_Params\<close>: errors, \<^verbatim>\<open>errors.As\<close>, problem documents; integers, UUIDs, pages.
  \<^item> \<^verbatim>\<open>Validation_Rules\<close>, \<^verbatim>\<open>Validation_Walk\<close>: tags, rules, messages and the traversal of reflected values with
    its limits; \<^verbatim>\<open>conforms\<close> is the declarative reading that C9 proves equivalent.
  \<^item> \<^verbatim>\<open>Auth_Identity\<close>, \<^verbatim>\<open>Auth_Session\<close>, \<^verbatim>\<open>Auth_Token\<close>, \<^verbatim>\<open>Auth_Password\<close>: verified claims and guards, bounded
    sessions, signed tokens with the compatibility chain, Argon2id hashes and the password policy.
  \<^item> \<^verbatim>\<open>Idempotency\<close>, \<^verbatim>\<open>Redis_Idempotency\<close>, \<^verbatim>\<open>Singleflight\<close>, \<^verbatim>\<open>Rate_Limit\<close>: the middlewares that keep state. The
    locale \<^verbatim>\<open>claim_store\<close> is the contract of an idempotency store; the in-memory and the Redis store both
    interpret it, and one proof of the claim protocol serves C3 and C10.
  \<^item> \<^verbatim>\<open>Kv_Cache\<close>, \<^verbatim>\<open>Redis_Cache\<close>: the \<^verbatim>\<open>Store\<close> interface as a record of operations with the locales \<^verbatim>\<open>kv_store\<close>,
    \<^verbatim>\<open>lossless_store\<close> and \<^verbatim>\<open>two_level\<close>; memory, bounded and two-level stores interpret them. \<^verbatim>\<open>Redis_Cache\<close> has
    the scripts and the load lock of the Redis store.
  \<^item> \<^verbatim>\<open>Resilience\<close>, \<^verbatim>\<open>Saga\<close>, \<^verbatim>\<open>Ids\<close>, \<^verbatim>\<open>Bloom_Sketches\<close>: breaker, limiter, retry, saga, identifiers, sketches.
  \<^item> \<^verbatim>\<open>Outbox\<close>: the outbox table as a list of rows; enqueuing, claiming, publishing, marking.
  \<^item> \<^verbatim>\<open>Search_Query\<close>, \<^verbatim>\<open>Search_Memory\<close>, \<^verbatim>\<open>Search_Resource\<close>, \<^verbatim>\<open>Search_Sql\<close>: requests and schemas, the in-memory
    backend, resources with their scope (locale \<^verbatim>\<open>search_backend\<close>, interpreted on the in-memory backend),
    and the statements of the PostgreSQL backend.
  \<^item> \<^verbatim>\<open>Orm\<close>, \<^verbatim>\<open>User_Resource\<close>, \<^verbatim>\<open>Migrations\<close>: struct metadata, scanner and operations of the mapper on a table,
    the five handlers of a user resource, and the migration runner. \<^verbatim>\<open>Repository\<close> is the generic repository of
    \<^verbatim>\<open>dbcore/repository.go\<close> over the same tables, with \<^verbatim>\<open>database/sql\<close>'s cursor made explicit.
  \<^item> \<^verbatim>\<open>Config\<close>, \<^verbatim>\<open>Graphql_Guard\<close>, \<^verbatim>\<open>Edge_Middleware\<close>, \<^verbatim>\<open>Context_Timeout\<close>, \<^verbatim>\<open>Task_Tracker\<close>, \<^verbatim>\<open>Realtime\<close>, \<^verbatim>\<open>Storage_Keys\<close>:
    the loaders of \<^verbatim>\<open>config/\<close>, the limits on GraphQL documents (C16), the header
    middlewares, request timeouts (C33), background tasks (C36),
    web sockets and event streams (C35), uploads (C34).
  \<^item> \<^verbatim>\<open>Kafka_Queue\<close>, \<^verbatim>\<open>Message_Bus\<close>: the Kafka producer and consumer, whose client is a parameter that may answer
    anything, depending on the log so far; the buses over Redis and RabbitMQ and the task queue
    (C21).
  \<^item> \<^verbatim>\<open>Database_Client\<close>, \<^verbatim>\<open>Ephemeral_Pages\<close>: error categories, transactions, connection checks and strings, the
    slow-query log (C26), and the temporary tables behind materialized pages
    (C25).
  \<^item> \<^verbatim>\<open>Json_Binding\<close>, \<^verbatim>\<open>Context_Response\<close>: from a body to a bound value (C23),
    the responses of a context, parallel tasks, and the pool the contexts come from (C22).
  \<^item> \<^verbatim>\<open>I18n\<close>, \<^verbatim>\<open>Lifecycle\<close>: language negotiation, messages, numbers, money and dates over a record of what
    \<^verbatim>\<open>golang.org/x/text\<close> answers (C27); start and stop hooks and readiness.
  \<^item> \<^verbatim>\<open>Cli_Commands\<close>, \<^verbatim>\<open>Cli_Publish\<close>: the command line of \<^verbatim>\<open>cmd/gpp\<close>, and what it writes: generated trees over a file
    system that may refuse any call (C28), and the audit of extracted modules.
  \<^item> \<^verbatim>\<open>Provider_Clients\<close>: the Elasticsearch client with its ring of nodes (lemma \<^verbatim>\<open>one_live_node_is_enough\<close>) and the
    providers of \<^verbatim>\<open>notify/\<close> for mail and text messages.

  \<^bold>\<open>Conventions.\<close> A section under a mutex, a transaction or a Redis command is one atomic step; components
  that are shared between goroutines or processes are step relations (\<^verbatim>\<open>cb_step\<close>, \<^verbatim>\<open>idem_step\<close>, \<^verbatim>\<open>ob_step\<close>,
  \<^verbatim>\<open>load_reach\<close>, \<^verbatim>\<open>sf_reach\<close>, \<^verbatim>\<open>session_reach\<close>), so that their theorems hold for every interleaving. Errors are
  datatypes of their own, carried on the left of a sum or in an option. Strings are byte lists; runes are
  decoded where the code ranges over a string. Integers are unbounded where the code cannot leave the range of
  its type, and words or explicitly wrapped (\<^verbatim>\<open>int8\<close>, \<^verbatim>\<open>int64\<close>) where it can. Times are integers, in the unit of
  the code.

  \<^bold>\<open>Bounds and fuel.\<close> \<^verbatim>\<open>next_loop\<close> has fuel 256: the index is an 8-bit integer that grows with every
  handler, and C20 shows that the fuel never runs out. The claim loop of the idempotency middleware polls
  forever in the code, so its fuel is the number of polls a statement is about; C31 states how many rounds
  suffice. All other recursions end on their own, by structure or by the measures given with them.

  \<^bold>\<open>Parameters.\<close> Code that is not under \<^verbatim>\<open>src/\<close> is an argument: hash functions (SHA-256, FNV, HMAC), the
  key derivation of Argon2id, the JSON encoding, \<^verbatim>\<open>fmt\<close> for values of unknown type, random bytes, clock
  readings, the broker of the outbox, the SQL database of migrations and search, the conflicts of Redis
  transactions. Hypotheses about them are premises of the statements (such as injectivity of a hash on the
  texts at hand), and every statement with premises has a witness on concrete values.

  \<^bold>\<open>What the lemmas show.\<close> Each theory first proves that its operations keep a well-formedness predicate,
  then the effect of each operation on every branch, then the properties. Lemmas that show where the code
  departs from what it means to do are named in the texts before them and listed as findings of the manifest,
  for instance \<^verbatim>\<open>posted_key_takes_over_the_row\<close>, \<^verbatim>\<open>stale_holder_overwrites\<close>, \<^verbatim>\<open>generated_key_is_never_inserted\<close>,
  \<^verbatim>\<open>untagged_field_is_not_loaded\<close>, \<^verbatim>\<open>null_number_is_zero_in_ranges\<close>.

  \<^bold>\<open>Not modelled.\<close> Transport and I/O: listeners, file servers, the sockets themselves, the clients of Kafka,
  RabbitMQ, Redis and S3, tracing exporters, logging and the metrics page. Text
  output: the OpenAPI document, the GraphQL playground, the templates of \<^verbatim>\<open>cmd/gpp\<close>, the documentation
  checker \<^verbatim>\<open>cmd/doccheck\<close>, the test helper \<^verbatim>\<open>gpptest\<close> and the fake data of \<^verbatim>\<open>dbcore/seed\<close>. Floating-point
  arithmetic: the estimate of the HyperLogLog counter and \<^verbatim>\<open>FormatCurrency\<close>. The wiring of \<^verbatim>\<open>auto_app.go\<close> and
  \<^verbatim>\<open>auth/auth_module.go\<close>, which only composes modelled parts. The examples.
\<close>

section \<open>Identifiers and their validators\<close>

lemma variant_bits: "unat (or (and b 0x3f) 0x80 :: 8 word) div 64 = 2"
proof -
  have "list_all (\<lambda>n. unat (or (and (word_of_nat n) 0x3f) 0x80 :: 8 word) div 64 = 2) [0..<256]" by code_simp
  then have "\<forall>n \<in> {0..<256}. unat (or (and (word_of_nat n) 0x3f) 0x80 :: 8 word) div 64 = 2" by (simp add: list_all_iff)
  from bspec [OF this, of "unat b"] show ?thesis using unsigned_less [where ?'a = nat, of b] by simp
qed
lemma version_bits: "unat (or (and b 0x0f) 0x40 :: 8 word) div 16 = 4"
proof -
  have "list_all (\<lambda>n. unat (or (and (word_of_nat n) 0x0f) 0x40 :: 8 word) div 16 = 4) [0..<256]" by code_simp
  then have "\<forall>n \<in> {0..<256}. unat (or (and (word_of_nat n) 0x0f) 0x40 :: 8 word) div 16 = 4" by (simp add: list_all_iff)
  from bspec [OF this, of "unat b"] show ?thesis using unsigned_less [where ?'a = nat, of b] by simp
qed

lemma hex_val_digit: "n < 16 \<Longrightarrow> hex_val (hex_digits ! n) = Some n \<and> hex_digits ! n \<noteq> CHR ''-'' \<and> \<not> is_space (hex_digits ! n)"
proof -
  have "list_all (\<lambda>n. hex_val (hex_digits ! n) = Some n \<and> hex_digits ! n \<noteq> CHR ''-'' \<and> \<not> is_space (hex_digits ! n)) [0..<16]" by code_simp
  then show "n < 16 \<Longrightarrow> ?thesis" by (simp add: list_all_iff)
qed

lemma hex_decode_bytes: "hex_decode (hex_bytes bs) = Some (map unat bs)"
proof (induction bs)
  case (Cons b bs)
  have "unat b div 16 < 16" "unat b mod 16 < 16" using unsigned_less [where ?'a = nat, of b] by auto
  then show ?case using Cons hex_val_digit by (simp add: hex_bytes_def hex_byte_def)
qed (simp add: hex_bytes_def)

lemma hex_bytes_plain: "c \<in> set (hex_bytes bs) \<Longrightarrow> c \<noteq> CHR ''-'' \<and> \<not> is_space c"
proof -
  have "unat b div 16 < 16" "unat b mod 16 < 16" for b :: "8 word" using unsigned_less [where ?'a = nat, of b] by auto
  then show "c \<in> set (hex_bytes bs) \<Longrightarrow> c \<noteq> CHR ''-'' \<and> \<not> is_space c"
    using hex_val_digit by (auto simp: hex_bytes_def hex_byte_def)
qed

lemma hex_bytes_append: "hex_bytes (xs @ ys) = hex_bytes xs @ hex_bytes ys"
  by (simp add: hex_bytes_def)

lemma length_hex_bytes: "length (hex_bytes bs) = 2 * length bs"
  by (induction bs) (simp_all add: hex_bytes_def hex_byte_def)

lemma trim_space_id: "\<forall>c \<in> set s. \<not> is_space c \<Longrightarrow> trim_space s = s"
proof -
  assume plain: "\<forall>c \<in> set s. \<not> is_space c"
  have keep: "set t \<subseteq> set s \<Longrightarrow> dropWhile is_space t = t" for t using plain by (cases t) auto
  show "trim_space s = s" by (simp add: trim_space_def keep)
qed

lemma take_drop_join: "take n (drop m xs) @ drop (m + n) xs = drop m xs"
  by (metis add.commute append_take_drop_id drop_drop)

lemma uuid_parts:
  assumes "length buf = 16"
  shows "buf = take 4 buf @ take 2 (drop 4 buf) @ take 2 (drop 6 buf) @ take 2 (drop 8 buf) @ take 6 (drop 10 buf)"
  using take_drop_join [of 2 4 buf] take_drop_join [of 2 6 buf] take_drop_join [of 2 8 buf] take_drop_join [of 6 10 buf] assms
    append_take_drop_id [of 4 buf] by simp

lemma uuid_format_valid:
  assumes "length buf = 16" "unat (buf ! 8) div 64 = 2" "rule = ''uuid'' \<or> unat (buf ! 6) div 16 = of_char (last rule) - 48"
  shows "is_valid_uuid (uuid_format buf) rule"
proof -
  let ?s = "uuid_format buf"
  have len: "length ?s = 36" using assms(1) by (simp add: uuid_format_def length_hex_bytes)
  have dash: "?s ! 8 = CHR ''-''" "?s ! 13 = CHR ''-''" "?s ! 18 = CHR ''-''" "?s ! 23 = CHR ''-''"
    using assms(1) by (simp_all add: uuid_format_def nth_append length_hex_bytes)
  have plain: "filter (\<lambda>c. c \<noteq> CHR ''-'') (hex_bytes bs) = hex_bytes bs" for bs
    using hex_bytes_plain by (simp add: filter_id_conv)
  have "filter (\<lambda>c. c \<noteq> CHR ''-'') ?s = hex_bytes buf"
    using arg_cong [OF uuid_parts [OF assms(1)], of hex_bytes]
    by (simp only: hex_bytes_append uuid_format_def filter_append plain) simp
  then have "hex_decode (filter (\<lambda>c. c \<noteq> CHR ''-'') ?s) = Some (map unat buf)" by (simp add: hex_decode_bytes)
  then show ?thesis using assms len dash by (auto simp: is_valid_uuid_def)
qed

text \<open>Whatever 16 random bytes the id package draws, the UUID it prints is accepted by the
  \<^verbatim>\<open>uuid4\<close> rule of the validator, and \<^verbatim>\<open>ParamUUIDStrict\<close> returns it unchanged.\<close>

theorem generated_uuids_are_accepted:
  assumes "length buf = 16"
  shows "is_valid_uuid (new_uuid buf) ''uuid4'' \<and> param_uuid_strict [(key, new_uuid buf)] key = Inr (new_uuid buf)"
proof -
  let ?b = "buf[6 := or (and (buf ! 6) 0x0f) 0x40, 8 := or (and (buf[6 := or (and (buf ! 6) 0x0f) 0x40] ! 8) 0x3f) 0x80]"
  have u: "new_uuid buf = uuid_format ?b" by (simp add: new_uuid_def Let_def)
  have six: "?b ! 6 = or (and (buf ! 6) 0x0f) 0x40" using assms by simp
  have ver: "unat (?b ! 6) div 16 = 4" unfolding six by (rule version_bits)
  have eight: "?b ! 8 = or (and (buf ! 8) 0x3f) 0x80" using assms by simp
  have var: "unat (?b ! 8) div 64 = 2" unfolding eight by (rule variant_bits)
  have len: "length ?b = 16" using assms by simp
  note bits = len var ver
  show ?thesis
  proof
    show "is_valid_uuid (new_uuid buf) ''uuid4''"
      unfolding u by (rule uuid_format_valid [OF bits(1,2)]) (use ver in simp)
    have valid: "is_valid_uuid (new_uuid buf) ''uuid''"
      unfolding u by (rule uuid_format_valid [OF bits(1,2)]) simp
    have "\<forall>c \<in> set (uuid_format ?b). \<not> is_space c"
      using hex_bytes_plain by (auto simp: uuid_format_def is_space_def)
    then have "trim_space (new_uuid buf) = new_uuid buf"
      unfolding u by (rule trim_space_id)
    moreover have "new_uuid buf \<noteq> []" unfolding u by (simp add: uuid_format_def)
    ultimately show "param_uuid_strict [(key, new_uuid buf)] key = Inr (new_uuid buf)"
      using valid by (simp add: param_uuid_strict_def has_param_def param_value_def)
  qed
qed

theorem generated_uuids_are_accepted_witness:
  "is_valid_uuid (new_uuid (replicate 16 255)) ''uuid4''
   \<and> param_uuid_strict [(''id'', new_uuid (replicate 16 255))] ''id'' = Inr (new_uuid (replicate 16 255))"
  by (rule generated_uuids_are_accepted) simp

end
